(* ===== verification/Fusion_Prelude.thy ===== *)
theory Fusion_Prelude
  imports Main "HOL-Library.Word"
begin

text \<open>
  Shared vocabulary of the development: Rust's \<open>Result\<close>, \<open>usize\<close> and \<open>u64\<close> arithmetic with
  its overflow behaviour written out, power-of-two alignment, fixed arrays of optional slots
  (\<open>[Option<T>; N]\<close>) and a transition-system locale that every stateful component interprets.

  Unsigned machine integers are natural numbers together with their bound. \<open>usize\<close> is 64 bits
  wide, as on the hosted targets: \<open>checked_add\<close> returns \<open>None\<close> past \<open>usize_max\<close>,
  \<open>saturating_add\<close> stops there, and plain \<open>+=\<close> is \<open>wrapping_add\<close> (the release profile, in
  which overflow checks and \<open>debug_assert!\<close> are off).
\<close>

unbundle bit_operations_syntax

named_theorems usize_simps \<open>definitions of the checked integer operations\<close>
named_theorems inv_intros \<open>invariant preservation, one rule per operation\<close>

section \<open>Results\<close>

datatype ('a, 'e) result = Ok (the_ok: 'a) | Err (the_err: 'e)

fun bind_result :: "('a, 'e) result \<Rightarrow> ('a \<Rightarrow> ('b, 'e) result) \<Rightarrow> ('b, 'e) result" where
  "bind_result (Ok x) f = f x"
| "bind_result (Err e) f = Err e"

fun map_err :: "('e \<Rightarrow> 'f) \<Rightarrow> ('a, 'e) result \<Rightarrow> ('a, 'f) result" where
  "map_err f (Ok x) = Ok x"
| "map_err f (Err e) = Err (f e)"

fun ok_or :: "'e \<Rightarrow> 'a option \<Rightarrow> ('a, 'e) result" where
  "ok_or e None = Err e"
| "ok_or e (Some x) = Ok x"

fun is_ok :: "('a, 'e) result \<Rightarrow> bool" where
  "is_ok (Ok x) = True"
| "is_ok (Err e) = False"

lemma bind_result_Ok_iff:
  "bind_result r f = Ok y \<longleftrightarrow> (\<exists>x. r = Ok x \<and> f x = Ok y)"
  by (cases r) auto

lemma Err_not_is_ok [dest]: "Err e = r \<Longrightarrow> is_ok r \<Longrightarrow> P"
  by auto

lemma ok_or_Ok_iff [simp]: "ok_or e m = Ok x \<longleftrightarrow> m = Some x"
  by (cases m) auto

lemma map_err_Ok_iff [simp]: "map_err f r = Ok x \<longleftrightarrow> r = Ok x"
  by (cases r) auto

section \<open>Unsigned machine integers\<close>

type_synonym usize = nat
type_synonym u64 = nat
type_synonym u32 = "32 word"

definition usize_max :: usize where
  "usize_max = 18446744073709551615"

definition u64_max :: u64 where
  "u64_max = 18446744073709551615"

definition checked_add :: "usize \<Rightarrow> usize \<Rightarrow> usize option" where
  "checked_add a b = (if a + b \<le> usize_max then Some (a + b) else None)"

definition checked_sub :: "usize \<Rightarrow> usize \<Rightarrow> usize option" where
  "checked_sub a b = (if b \<le> a then Some (a - b) else None)"

definition checked_mul :: "usize \<Rightarrow> usize \<Rightarrow> usize option" where
  "checked_mul a b = (if a * b \<le> usize_max then Some (a * b) else None)"

definition saturating_add :: "usize \<Rightarrow> usize \<Rightarrow> usize" where
  "saturating_add a b = min usize_max (a + b)"

definition saturating_sub :: "usize \<Rightarrow> usize \<Rightarrow> usize" where
  "saturating_sub a b = (if b \<le> a then a - b else 0)"

definition wrapping_add :: "usize \<Rightarrow> usize \<Rightarrow> usize" where
  "wrapping_add a b = (a + b) mod (usize_max + 1)"

definition wrapping_sub :: "usize \<Rightarrow> usize \<Rightarrow> usize" where
  "wrapping_sub a b = (a + (usize_max + 1) - b) mod (usize_max + 1)"

lemmas [usize_simps] = checked_add_def checked_sub_def checked_mul_def saturating_add_def
  saturating_sub_def

lemma checked_add_Some_iff: "checked_add a b = Some c \<longleftrightarrow> c = a + b \<and> a + b \<le> usize_max"
  by (auto simp: checked_add_def)

lemma checked_add_None_iff: "checked_add a b = None \<longleftrightarrow> usize_max < a + b"
  by (auto simp: checked_add_def)

lemma checked_sub_Some_iff: "checked_sub a b = Some c \<longleftrightarrow> c = a - b \<and> b \<le> a"
  by (auto simp: checked_sub_def)

lemma checked_mul_Some_iff: "checked_mul a b = Some c \<longleftrightarrow> c = a * b \<and> a * b \<le> usize_max"
  by (auto simp: checked_mul_def)

lemmas checked_iffs = checked_add_Some_iff checked_sub_Some_iff checked_mul_Some_iff

lemma wrapping_add_small: "a + b \<le> usize_max \<Longrightarrow> wrapping_add a b = a + b"
  by (simp add: wrapping_add_def)

lemma wrapping_sub_small: "b \<le> a \<Longrightarrow> a \<le> usize_max \<Longrightarrow> wrapping_sub a b = a - b"
  by (simp add: wrapping_sub_def mod_if)

lemma wrapping_add_le: "wrapping_add a b \<le> usize_max"
proof -
  have "(a + b) mod (usize_max + 1) < usize_max + 1" by (rule mod_less_divisor) simp
  then show ?thesis by (simp add: wrapping_add_def)
qed

lemma usize_max_mask: "usize_max = mask 64"
  by (simp add: usize_max_def mask_eq_exp_minus_1)

lemma usize_max_less: "usize_max = 2 ^ 64 - 1"
  by (simp add: usize_max_def)

section \<open>Powers of two and alignment\<close>

text \<open>\<open>usize::count_ones\<close>, \<open>is_power_of_two\<close>, \<open>trailing_zeros\<close> and \<open>is_multiple_of\<close>.\<close>

fun count_ones :: "usize \<Rightarrow> nat" where
  "count_ones n = (if n = 0 then 0 else n mod 2 + count_ones (n div 2))"

declare count_ones.simps [simp del]

definition is_power_of_two :: "usize \<Rightarrow> bool" where
  "is_power_of_two n \<longleftrightarrow> count_ones n = 1"

fun trailing_zeros_nz :: "usize \<Rightarrow> nat" where
  "trailing_zeros_nz n = (if n = 0 \<or> odd n then 0 else Suc (trailing_zeros_nz (n div 2)))"

declare trailing_zeros_nz.simps [simp del]

definition trailing_zeros :: "usize \<Rightarrow> nat" where
  "trailing_zeros n = (if n = 0 then 64 else trailing_zeros_nz n)"

definition is_multiple_of :: "usize \<Rightarrow> usize \<Rightarrow> bool" where
  "is_multiple_of a b \<longleftrightarrow> (if b = 0 then a = 0 else a mod b = 0)"

lemma count_ones_0 [simp]: "count_ones 0 = 0"
  by (simp add: count_ones.simps)

lemma count_ones_double: "count_ones (2 * n) = count_ones n"
  by (cases "n = 0") (simp_all add: count_ones.simps [of "2 * n"])

lemma count_ones_eq_0_iff [simp]: "count_ones n = 0 \<longleftrightarrow> n = 0"
proof (induction n rule: count_ones.induct)
  case (1 n)
  show ?case
  proof (cases "n = 0")
    case False
    with "1.IH" show ?thesis
      by (subst count_ones.simps) (auto simp: mod_2_eq_odd)
  qed simp
qed

lemma count_ones_pow2: "count_ones (2 ^ k) = 1"
proof (induction k)
  case 0
  show ?case by (simp add: count_ones.simps [of "Suc 0"])
next
  case (Suc k)
  then show ?case using count_ones_double [of "2 ^ k"] by simp
qed

lemma count_ones_1D: "count_ones n = 1 \<Longrightarrow> \<exists>k. n = 2 ^ k"
proof (induction n rule: count_ones.induct)
  case (1 n)
  have nz: "n \<noteq> 0" using "1.prems" by (intro notI) simp
  have eq: "n mod 2 + count_ones (n div 2) = 1"
    using "1.prems" nz by (subst (asm) count_ones.simps) simp
  show ?case
  proof (cases "odd n")
    case True
    then have "n mod 2 = 1" by (simp add: mod_2_eq_odd)
    with eq have "count_ones (n div 2) = 0" by simp
    then have "n = 2 ^ 0" using True by (auto elim!: oddE)
    then show ?thesis by blast
  next
    case False
    then have "n mod 2 = 0" by (simp add: mod_2_eq_odd)
    with eq have "count_ones (n div 2) = 1" by simp
    with "1.IH" nz obtain k where "n div 2 = 2 ^ k" by blast
    then have "n = 2 ^ Suc k" using False by (auto elim!: evenE)
    then show ?thesis by blast
  qed
qed

lemma is_power_of_two_iff: "is_power_of_two n \<longleftrightarrow> (\<exists>k. n = 2 ^ k)"
  unfolding is_power_of_two_def using count_ones_1D count_ones_pow2 by blast

lemma is_power_of_two_pos: "is_power_of_two n \<Longrightarrow> 0 < n"
  by (auto simp: is_power_of_two_iff)

lemma is_power_of_two_power [simp]: "is_power_of_two (2 ^ k)"
  by (auto simp: is_power_of_two_iff)

lemma is_power_of_two_dvd:
  assumes "is_power_of_two a" and "is_power_of_two b" and "a \<le> b"
  shows "a dvd b"
proof -
  obtain i j where ij: "a = 2 ^ i" "b = 2 ^ j" using assms(1,2) by (auto simp: is_power_of_two_iff)
  with assms(3) have "i \<le> j" by simp
  with ij show ?thesis by (simp add: le_imp_power_dvd)
qed

lemma is_power_of_two_max:
  "is_power_of_two a \<Longrightarrow> is_power_of_two b \<Longrightarrow> is_power_of_two (max a b)"
  by (simp add: max_def)

lemma pow2_trailing_zeros_nz_dvd: "2 ^ trailing_zeros_nz n dvd n"
proof (induction n rule: trailing_zeros_nz.induct)
  case (1 n)
  show ?case
  proof (cases "n = 0 \<or> odd n")
    case True
    then show ?thesis by (subst trailing_zeros_nz.simps) auto
  next
    case False
    then have "2 ^ trailing_zeros_nz (n div 2) dvd n div 2" using "1.IH" by simp
    then have "2 * 2 ^ trailing_zeros_nz (n div 2) dvd 2 * (n div 2)" by (rule mult_dvd_mono [OF dvd_refl])
    with False show ?thesis by (subst trailing_zeros_nz.simps) simp
  qed
qed

lemma trailing_zeros_dvd: "n \<noteq> 0 \<Longrightarrow> 2 ^ trailing_zeros n dvd n"
  by (simp add: trailing_zeros_def pow2_trailing_zeros_nz_dvd)

lemma is_multiple_of_iff_dvd: "is_multiple_of a b \<longleftrightarrow> b dvd a"
  by (auto simp: is_multiple_of_def)

text \<open>\<open>value & !mask\<close> at 64 bits: the complement of \<open>mask\<close> is \<open>usize_max XOR mask\<close>.\<close>

definition and_not :: "usize \<Rightarrow> usize \<Rightarrow> usize" where
  "and_not v m = v AND (usize_max XOR m)"

lemma and_not_mask:
  assumes "v \<le> usize_max"
  shows "and_not v (2 ^ k - 1) = v div 2 ^ k * 2 ^ k"
proof -
  have lt: "v < 2 ^ 64" using assms by (simp add: usize_max_def)
  have "v AND (mask 64 XOR mask k) = push_bit k (drop_bit k v)"
  proof (rule bit_eqI)
    fix n
    have "n < 64" if "bit v n"
      using that lt by (metis bit_take_bit_iff take_bit_nat_eq_self)
    then show "bit (v AND (mask 64 XOR mask k)) n = bit (push_bit k (drop_bit k v)) n"
      by (auto simp: bit_simps)
  qed
  then show ?thesis
    by (simp add: and_not_def usize_max_mask mask_eq_exp_minus_1 push_bit_eq_mult drop_bit_eq_div)
qed

text \<open>The alignment helper of the pool (\<open>mem/pool/pool.rs\<close>).\<close>

definition align_up :: "usize \<Rightarrow> usize \<Rightarrow> usize option" where
  "align_up value align =
     (if align = 0 \<or> \<not> is_power_of_two align then None
      else (case checked_sub align 1 of
              None \<Rightarrow> None
            | Some msk \<Rightarrow> (case checked_add value msk of
                 None \<Rightarrow> None
               | Some v \<Rightarrow> Some (and_not v msk))))"

text \<open>Its arithmetic meaning: the least multiple of \<open>align\<close> at or above \<open>value\<close>.\<close>

lemma align_up_eq:
  "align_up value align =
     (if is_power_of_two align \<and> value + (align - 1) \<le> usize_max
      then Some ((value + (align - 1)) div align * align) else None)"
proof (cases "is_power_of_two align")
  case True
  then obtain k where k: "align = 2 ^ k" by (auto simp: is_power_of_two_iff)
  have "and_not (value + (align - 1)) (align - 1) = (value + (align - 1)) div align * align"
    if "value + (align - 1) \<le> usize_max"
    using and_not_mask [OF that, of k] k by simp
  then show ?thesis
    using True is_power_of_two_pos [OF True]
    by (auto simp: align_up_def checked_sub_def checked_add_def)
qed (simp add: align_up_def)

lemma round_up_bounds:
  fixes v a :: nat
  assumes "0 < a"
  shows "v \<le> (v + (a - 1)) div a * a" and "(v + (a - 1)) div a * a < v + a"
    and "(v + (a - 1)) div a * a \<le> v + (a - 1)"
proof -
  have eq: "(v + (a - 1)) div a * a + (v + (a - 1)) mod a = v + (a - 1)" by simp
  have lt: "(v + (a - 1)) mod a < a" using assms by simp
  show "v \<le> (v + (a - 1)) div a * a" using eq lt by linarith
  show "(v + (a - 1)) div a * a < v + a" using eq assms by linarith
  show "(v + (a - 1)) div a * a \<le> v + (a - 1)" using eq by linarith
qed

lemma align_up_SomeD:
  assumes "align_up v a = Some w"
  shows "is_power_of_two a" and "0 < a" and "a dvd w" and "v \<le> w" and "w < v + a" and "w \<le> usize_max"
proof -
  have pw: "is_power_of_two a" and le: "v + (a - 1) \<le> usize_max"
    and w: "w = (v + (a - 1)) div a * a"
    using assms by (auto simp: align_up_eq split: if_splits)
  show "is_power_of_two a" by (rule pw)
  show pos: "0 < a" using pw by (rule is_power_of_two_pos)
  show "a dvd w" by (simp add: w)
  show "v \<le> w" "w < v + a" unfolding w using round_up_bounds [OF pos] by blast+
  show "w \<le> usize_max" unfolding w using round_up_bounds(3) [OF pos, of v] le by linarith
qed

lemma round_up_multiple:
  fixes v a :: nat
  assumes "0 < a" and "a dvd v"
  shows "(v + (a - 1)) div a * a = v"
proof -
  obtain q where q: "v = q * a" using assms(2) by (auto simp: dvd_def mult.commute)
  have "(q * a + (a - 1)) div a = q + (a - 1) div a" using assms(1) by (intro div_mult_self3) simp
  then have "(q * a + (a - 1)) div a = q" using assms(1) by simp
  then show ?thesis by (simp add: q)
qed

lemma align_up_aligned:
  assumes "is_power_of_two a" and "a dvd v" and "v + (a - 1) \<le> usize_max"
  shows "align_up v a = Some v"
  using assms round_up_multiple [OF is_power_of_two_pos [OF assms(1)] assms(2)]
  by (simp add: align_up_eq)

section \<open>Fixed arrays of optional slots\<close>

text \<open>\<open>iter().position(p)\<close>: the least index whose element satisfies \<open>p\<close>.\<close>

fun position :: "('a \<Rightarrow> bool) \<Rightarrow> 'a list \<Rightarrow> nat option" where
  "position p [] = None"
| "position p (x # xs) = (if p x then Some 0 else map_option Suc (position p xs))"

definition flatten :: "'a option list \<Rightarrow> 'a list" where
  "flatten xs = map the (filter (\<lambda>x. x \<noteq> None) xs)"

lemma position_None_iff [simp]: "position p xs = None \<longleftrightarrow> (\<forall>x \<in> set xs. \<not> p x)"
  by (induction xs) auto

lemma position_SomeD:
  "position p xs = Some i \<Longrightarrow> i < length xs \<and> p (xs ! i) \<and> (\<forall>j < i. \<not> p (xs ! j))"
proof (induction xs arbitrary: i)
  case (Cons x xs)
  show ?case
  proof (cases "p x")
    case False
    with Cons.prems obtain k where k: "position p xs = Some k" "i = Suc k" by auto
    with Cons.IH have "k < length xs \<and> p (xs ! k) \<and> (\<forall>j < k. \<not> p (xs ! j))" by blast
    with k False show ?thesis by (auto simp: less_Suc_eq_0_disj)
  qed (use Cons.prems in simp)
qed simp

lemma position_Some_length: "position p xs = Some i \<Longrightarrow> i < length xs"
  using position_SomeD by blast

lemma position_exists: "i < length xs \<Longrightarrow> p (xs ! i) \<Longrightarrow> \<exists>k. position p xs = Some k \<and> k \<le> i"
proof -
  assume i: "i < length xs" "p (xs ! i)"
  then have "position p xs \<noteq> None" by auto
  then obtain k where k: "position p xs = Some k" by blast
  then show ?thesis using position_SomeD [OF k] i(2) by (metis not_le_imp_less)
qed

lemma flatten_Nil [simp]: "flatten [] = []"
  by (simp add: flatten_def)

lemma flatten_Cons_None [simp]: "flatten (None # xs) = flatten xs"
  by (simp add: flatten_def)

lemma flatten_Cons_Some [simp]: "flatten (Some x # xs) = x # flatten xs"
  by (simp add: flatten_def)

lemma flatten_append [simp]: "flatten (xs @ ys) = flatten xs @ flatten ys"
  by (simp add: flatten_def)

lemma flatten_replicate_None [simp]: "flatten (replicate n None) = []"
  by (simp add: flatten_def)

lemma set_flatten [simp]: "set (flatten xs) = {x. Some x \<in> set xs}"
proof (induction xs)
  case (Cons a xs)
  then show ?case by (cases a) auto
qed simp

lemma length_flatten_le: "length (flatten xs) \<le> length xs"
  by (simp add: flatten_def)

text \<open>
  The total weight of the occupied slots. Every invariant on a slot array is stated with it
  (coverage of a byte, byte counters, number of holders of an id), because one slot write
  changes it by the difference of two weights.
\<close>

definition slot_weight :: "('a \<Rightarrow> nat) \<Rightarrow> 'a option \<Rightarrow> nat" where
  "slot_weight w x = (case x of None \<Rightarrow> 0 | Some y \<Rightarrow> w y)"

definition slot_sum :: "('a \<Rightarrow> nat) \<Rightarrow> 'a option list \<Rightarrow> nat" where
  "slot_sum w xs = sum_list (map (slot_weight w) xs)"

lemma slot_weight_simps [simp]: "slot_weight w None = 0" "slot_weight w (Some y) = w y"
  by (simp_all add: slot_weight_def)

lemma slot_sum_simps [simp]:
  "slot_sum w [] = 0" "slot_sum w (x # xs) = slot_weight w x + slot_sum w xs"
  "slot_sum w (replicate n None) = 0"
  by (simp_all add: slot_sum_def sum_list_replicate)

lemma slot_sum_append [simp]: "slot_sum w (xs @ ys) = slot_sum w xs + slot_sum w ys"
  by (simp add: slot_sum_def)

lemma slot_sum_nth_le: "i < length xs \<Longrightarrow> slot_weight w (xs ! i) \<le> slot_sum w xs"
  unfolding slot_sum_def by (metis elem_le_sum_list length_map nth_map)

lemma slot_sum_update:
  "i < length xs \<Longrightarrow> slot_sum w (xs[i := v]) + slot_weight w (xs ! i) = slot_sum w xs + slot_weight w v"
proof (induction xs arbitrary: i)
  case (Cons x xs)
  then show ?case by (cases i) auto
qed simp

lemma slot_sum_two_le:
  assumes "i < length xs" and "j < length xs" and "i \<noteq> j"
  shows "slot_weight w (xs ! i) + slot_weight w (xs ! j) \<le> slot_sum w xs"
proof -
  have "slot_sum w (xs[i := None]) + slot_weight w (xs ! i) = slot_sum w xs"
    using slot_sum_update [OF assms(1), of w None] by simp
  moreover have "slot_weight w (xs ! j) \<le> slot_sum w (xs[i := None])"
    using slot_sum_nth_le [of j "xs[i := None]" w] assms by simp
  ultimately show ?thesis by linarith
qed

lemma slot_sum_pos_iff: "0 < slot_sum w xs \<longleftrightarrow> (\<exists>y. Some y \<in> set xs \<and> 0 < w y)"
proof (induction xs)
  case (Cons x xs)
  then show ?case by (cases x) auto
qed simp

lemma slot_sum_flatten: "slot_sum w xs = sum_list (map w (flatten xs))"
proof (induction xs)
  case (Cons x xs)
  then show ?case by (cases x) auto
qed simp

section \<open>Transition systems\<close>

text \<open>
  A component whose state is reached by operations: \<open>init\<close> holds of the states the
  constructors build, \<open>step\<close> relates the states before and after one call (whatever it
  returned), and \<open>inv\<close> is kept by every step. Components interpret the locale and read their
  safety properties off \<open>reachable_inv\<close>.
\<close>

inductive reaches :: "('s \<Rightarrow> 's \<Rightarrow> bool) \<Rightarrow> 's \<Rightarrow> 's \<Rightarrow> bool" for step where
  base: "reaches step s s"
| more: "reaches step s t \<Longrightarrow> step t u \<Longrightarrow> reaches step s u"

declare reaches.more [trans]

lemma reaches_trans: "reaches step t u \<Longrightarrow> reaches step s t \<Longrightarrow> reaches step s u"
  by (induction rule: reaches.induct) (auto intro: reaches.intros)

lemma reaches_single: "step s t \<Longrightarrow> reaches step s t"
  by (blast intro: reaches.intros)

locale inductive_invariant =
  fixes init :: "'s \<Rightarrow> bool"
    and step :: "'s \<Rightarrow> 's \<Rightarrow> bool"
    and inv :: "'s \<Rightarrow> bool"
  assumes init_inv: "init s \<Longrightarrow> inv s"
    and step_inv: "inv s \<Longrightarrow> step s t \<Longrightarrow> inv t"
begin

lemma reaches_inv: "reaches step s t \<Longrightarrow> inv s \<Longrightarrow> inv t"
  by (induction rule: reaches.induct) (auto intro: step_inv)

lemma reachable_inv: "init s \<Longrightarrow> reaches step s t \<Longrightarrow> inv t"
  by (blast intro: reaches_inv init_inv)

end

end
