(* ===== verification/Sync_Shared.thy ===== *)
theory Sync_Shared
  imports Fusion_Prelude
begin

text \<open>
  Synchronisation vocabulary (\<open>fusion-pal/contract/pal/runtime/sync/error.rs\<close>,
  \<open>fusion-sys/sync/shared.rs\<close>, \<open>fusion-sys/sync/spin.rs\<close>).

  A critical section under a \<open>Mutex\<close> is one atomic step of the model. Whether the lock is
  obtained is the environment's choice: operations that call \<open>lock()\<close> take a
  \<^emph>\<open>lock outcome\<close>, operations that call \<open>try_lock()\<close> a \<^emph>\<open>try-lock outcome\<close>, and the error
  branches of the source are branches of the model.
\<close>

datatype sync_error_kind =
    SyncUnsupported
  | SyncInvalid
  | SyncBusy
  | SyncPermissionDenied
  | SyncOverflow
  | SyncPlatform int

type_synonym lock_outcome = "(unit, sync_error_kind) result"
type_synonym try_lock_outcome = "(bool, sync_error_kind) result"

section \<open>The shared reference header\<close>

datatype shared_release = Remaining | Last

record shared_header =
  refs :: usize

definition shared_header_new :: shared_header where
  "shared_header_new = \<lparr>refs = 1\<rparr>"

text \<open>\<open>fetch_update\<close> is one atomic read-modify-write; a \<open>None\<close> of its closure is the error.\<close>

definition fetch_update :: "(usize \<Rightarrow> usize option) \<Rightarrow> shared_header \<Rightarrow>
    (usize, usize) result \<times> shared_header" where
  "fetch_update f h = (case f (refs h) of
      None \<Rightarrow> (Err (refs h), h)
    | Some r \<Rightarrow> (Ok (refs h), h\<lparr>refs := r\<rparr>))"

definition try_retain :: "shared_header \<Rightarrow> (unit, sync_error_kind) result \<times> shared_header" where
  "try_retain h =
     (case fetch_update (\<lambda>current. if current = 0 then None else checked_add current 1) h of
        (Ok _, h') \<Rightarrow> (Ok (), h')
      | (Err current, h') \<Rightarrow> (Err (if current = 0 then SyncInvalid else SyncOverflow), h'))"

definition shared_header_release ::
    "shared_header \<Rightarrow> (shared_release, sync_error_kind) result \<times> shared_header" where
  "shared_header_release h =
     (case fetch_update (\<lambda>current. checked_sub current 1) h of
        (Ok previous, h') \<Rightarrow> (Ok (if previous = 1 then Last else Remaining), h')
      | (Err _, h') \<Rightarrow> (Err SyncInvalid, h'))"

text \<open>Interleaved owners are a sequence of retain and release calls on one header.\<close>

datatype shared_op = Retain | Release

datatype shared_outcome =
    Retained
  | Released shared_release
  | Failed sync_error_kind

fun shared_step :: "shared_op \<Rightarrow> shared_header \<Rightarrow> shared_outcome \<times> shared_header" where
  "shared_step Retain h = (case try_retain h of
      (Ok _, h') \<Rightarrow> (Retained, h') | (Err e, h') \<Rightarrow> (Failed e, h'))"
| "shared_step Release h = (case shared_header_release h of
      (Ok r, h') \<Rightarrow> (Released r, h') | (Err e, h') \<Rightarrow> (Failed e, h'))"

fun shared_run :: "shared_op list \<Rightarrow> shared_header \<Rightarrow> shared_outcome list \<times> shared_header" where
  "shared_run [] h = ([], h)"
| "shared_run (a # as) h =
     (let (x, h1) = shared_step a h; (xs, h2) = shared_run as h1 in (x # xs, h2))"

lemma try_retain_eq:
  "try_retain h = (if refs h = 0 then (Err SyncInvalid, h)
     else if refs h + 1 \<le> usize_max then (Ok (), h\<lparr>refs := refs h + 1\<rparr>) else (Err SyncOverflow, h))"
  by (simp add: try_retain_def fetch_update_def checked_add_def)

lemma shared_header_release_eq:
  "shared_header_release h = (if refs h = 0 then (Err SyncInvalid, h)
     else (Ok (if refs h = 1 then Last else Remaining), h\<lparr>refs := refs h - 1\<rparr>))"
  by (simp add: shared_header_release_def fetch_update_def checked_sub_def)

lemma shared_step_cases:
  assumes "shared_step a h = (x, h')"
  obtains (retained) "x = Retained" "refs h \<noteq> 0" "refs h' = refs h + 1"
    | (remaining) "x = Released Remaining" "1 < refs h" "refs h' = refs h - 1"
    | (last) "x = Released Last" "refs h = 1" "refs h' = 0"
    | (failed) e where "x = Failed e" "h' = h" "refs h = 0 \<longrightarrow> e = SyncInvalid"
proof (cases a)
  case Retain
  with assms that(1) that(4) show thesis by (auto simp: try_retain_eq split: if_splits)
next
  case Release
  with assms that(2) that(3) that(4) show thesis
    by (auto simp: shared_header_release_eq split: if_splits)
qed

lemma shared_run_dead:
  "refs h = 0 \<Longrightarrow> shared_run as h = (replicate (length as) (Failed SyncInvalid), h)"
proof (induction as)
  case (Cons a as)
  then have "shared_step a h = (Failed SyncInvalid, h)"
    by (cases a) (simp_all add: try_retain_eq shared_header_release_eq)
  with Cons show ?case by simp
qed simp

lemma shared_run_balance:
  "shared_run as h = (xs, h') \<Longrightarrow>
     refs h' + count_list xs (Released Remaining) + count_list xs (Released Last)
       = refs h + count_list xs Retained"
proof (induction as arbitrary: h xs h')
  case (Cons a as)
  obtain x h1 where s: "shared_step a h = (x, h1)" by fastforce
  obtain ys h2 where r: "shared_run as h1 = (ys, h2)" by fastforce
  from Cons.prems s r have eq: "xs = x # ys" "h2 = h'" by simp_all
  have "refs h' + count_list ys (Released Remaining) + count_list ys (Released Last)
       = refs h1 + count_list ys Retained"
    using Cons.IH [OF r] eq(2) by simp
  moreover from s have "refs h1 + count_list [x] (Released Remaining) + count_list [x] (Released Last)
       = refs h + count_list [x] Retained"
    by (cases rule: shared_step_cases) auto
  ultimately show ?case using eq by (simp split: if_splits)
qed simp

lemma shared_run_last_count:
  "shared_run as h = (xs, h') \<Longrightarrow> refs h \<noteq> 0 \<Longrightarrow>
     count_list xs (Released Last) = (if refs h' = 0 then 1 else 0)"
proof (induction as arbitrary: h xs h')
  case (Cons a as)
  obtain x h1 where s: "shared_step a h = (x, h1)" by fastforce
  obtain ys h2 where r: "shared_run as h1 = (ys, h2)" by fastforce
  from Cons.prems s r have eq: "xs = x # ys" "h2 = h'" by simp_all
  show ?case
  proof (cases "refs h1 = 0")
    case True
    from s have "x = Released Last"
      by (cases rule: shared_step_cases) (use True Cons.prems(2) in auto)
    moreover have "count_list ys (Released Last) = 0" "refs h' = 0"
      using shared_run_dead [OF True, of as] r eq True by (auto simp: count_list_0_iff)
    ultimately show ?thesis using eq by simp
  next
    case False
    from s have "x \<noteq> Released Last" by (cases rule: shared_step_cases) (use False in auto)
    with Cons.IH [OF r False] eq show ?thesis by simp
  qed
qed simp

section \<open>The spin mutex\<close>

text \<open>
  \<open>SpinMutex\<close> is one atomic ownership bit. \<open>lock()\<close> repeats the compare-exchange, so a
  successful \<open>lock()\<close> is a successful \<open>spin_try_lock\<close> step after finitely many failed ones.
\<close>

record spin_mutex =
  spin_state :: bool

definition spin_new :: spin_mutex where
  "spin_new = \<lparr>spin_state = False\<rparr>"

definition spin_try_lock :: "spin_mutex \<Rightarrow> (bool, sync_error_kind) result \<times> spin_mutex" where
  "spin_try_lock m =
     (if spin_state m = False then (Ok True, m\<lparr>spin_state := True\<rparr>) else (Ok False, m))"

definition spin_unlock_unchecked :: "spin_mutex \<Rightarrow> spin_mutex" where
  "spin_unlock_unchecked m = m\<lparr>spin_state := False\<rparr>"

text \<open>
  Threads and the lock: \<open>owners\<close> is the set of threads whose \<open>lock\<close> or \<open>try_lock\<close>
  returned success and that have not unlocked. Only an owner may unlock (the contract of
  \<open>unlock_unchecked\<close>).
\<close>

record spin_world =
  mutex :: spin_mutex
  owners :: "nat set"

inductive spin_step :: "spin_world \<Rightarrow> spin_world \<Rightarrow> bool" where
  attempt: "spin_try_lock (mutex w) = (Ok b, m) \<Longrightarrow>
     spin_step w (w\<lparr>mutex := m, owners := (if b then insert t (owners w) else owners w)\<rparr>)"
| unlock: "t \<in> owners w \<Longrightarrow>
     spin_step w (w\<lparr>mutex := spin_unlock_unchecked (mutex w), owners := owners w - {t}\<rparr>)"

definition spin_inv :: "spin_world \<Rightarrow> bool" where
  "spin_inv w \<longleftrightarrow>
     (if spin_state (mutex w) then \<exists>t. owners w = {t} else owners w = {})"

lemma spin_step_inv: "spin_inv w \<Longrightarrow> spin_step w w' \<Longrightarrow> spin_inv w'"
  by (erule spin_step.cases)
    (auto simp: spin_inv_def spin_try_lock_def spin_unlock_unchecked_def split: if_splits)

interpretation spin: inductive_invariant
  "\<lambda>w. w = \<lparr>mutex = spin_new, owners = {}\<rparr>" spin_step spin_inv
proof unfold_locales
  show "spin_inv w" if "w = \<lparr>mutex = spin_new, owners = {}\<rparr>" for w
    using that by (simp add: spin_inv_def spin_new_def)
qed (rule spin_step_inv)

section \<open>Properties\<close>

text \<open>
  Whatever order owners retain and release a control block in, the reference count equals
  one plus the successful retains minus the successful releases, and \<open>Last\<close> (which makes the
  caller free the block) is reported exactly once if the count has reached zero and never
  before.
\<close>

theorem shared_header_exactly_one_last:
  assumes "shared_run as shared_header_new = (xs, h)"
  shows "refs h + count_list xs (Released Remaining) + count_list xs (Released Last)
           = 1 + count_list xs Retained
         \<and> count_list xs (Released Last) = (if refs h = 0 then 1 else 0)"
  using shared_run_balance [OF assms] shared_run_last_count [OF assms]
  by (simp add: shared_header_new_def)

theorem shared_header_exactly_one_last_witness:
  "shared_run [Retain, Release, Release, Retain] shared_header_new
     = ([Retained, Released Remaining, Released Last, Failed SyncInvalid], \<lparr>refs = 0\<rparr>)
   \<and> count_list [Retained, Released Remaining, Released Last, Failed SyncInvalid] (Released Last) = 1"
proof -
  have run: "shared_run [Retain, Release, Release, Retain] shared_header_new
     = ([Retained, Released Remaining, Released Last, Failed SyncInvalid], \<lparr>refs = 0\<rparr>)"
    by (simp add: shared_header_new_def try_retain_def shared_header_release_def fetch_update_def
        checked_add_def checked_sub_def usize_max_def)
  show ?thesis using run shared_header_exactly_one_last [OF run] by simp
qed

text \<open>
  The spin mutex gives mutual exclusion: in every state reachable by lock attempts and by
  unlocks of owners, at most one thread owns the lock, and the ownership bit is set exactly
  when some thread does.
\<close>

theorem spin_mutex_mutual_exclusion:
  assumes "reaches spin_step \<lparr>mutex = spin_new, owners = {}\<rparr> w"
    and "t \<in> owners w" and "u \<in> owners w"
  shows "t = u \<and> spin_state (mutex w)"
proof -
  have "spin_inv w" using spin.reachable_inv assms(1) by blast
  with assms(2,3) show ?thesis by (auto simp: spin_inv_def split: if_splits)
qed

theorem spin_mutex_mutual_exclusion_witness:
  "reaches spin_step \<lparr>mutex = spin_new, owners = {}\<rparr> \<lparr>mutex = \<lparr>spin_state = True\<rparr>, owners = {7}\<rparr>
   \<and> spin_state \<lparr>spin_state = True\<rparr>"
proof -
  have "spin_step \<lparr>mutex = spin_new, owners = {}\<rparr> \<lparr>mutex = \<lparr>spin_state = True\<rparr>, owners = {7}\<rparr>"
    using spin_step.attempt [of "\<lparr>mutex = spin_new, owners = {}\<rparr>" True "\<lparr>spin_state = True\<rparr>" 7]
    by (simp add: spin_try_lock_def spin_new_def)
  then have r: "reaches spin_step \<lparr>mutex = spin_new, owners = {}\<rparr>
      \<lparr>mutex = \<lparr>spin_state = True\<rparr>, owners = {7}\<rparr>"
    by (rule reaches_single)
  then show ?thesis using spin_mutex_mutual_exclusion [OF r, of 7 7] by simp
qed

end
