(* ===== verification/Mem_Resource.thy ===== *)
theory Mem_Resource
  imports Sync_Shared
begin

text \<open>
  Governed memory resources: \<open>Region\<close> and the PAL vocabulary
  (\<open>fusion-pal/contract/pal/mem/mem.rs\<close>), the resource descriptors
  (\<open>fusion-sys/mem/resource/\<close>), the packed state word of \<open>ResourceCore\<close>, bound resources and
  the live operations of virtual resources. Bit flags are 32-bit words. The PAL provider of
  the virtual operations is not part of the crate: it is an argument, the outcome of its call.
\<close>

section \<open>PAL vocabulary\<close>

type_synonym flags32 = "32 word"

definition contains_flags :: "flags32 \<Rightarrow> flags32 \<Rightarrow> bool" where
  "contains_flags a b \<longleftrightarrow> a AND b = b"

definition intersects_flags :: "flags32 \<Rightarrow> flags32 \<Rightarrow> bool" where
  "intersects_flags a b \<longleftrightarrow> a AND b \<noteq> 0"

definition minus_flags :: "flags32 \<Rightarrow> flags32 \<Rightarrow> flags32" where
  "minus_flags a b = a AND NOT b"

datatype mem_error_kind =
    MemUnsupported
  | MemInvalidInput
  | MemInvalidAddress
  | MemMisaligned
  | MemOutOfMemory
  | MemOutOfBounds
  | MemPermissionDenied
  | MemBusy
  | MemOverflow
  | MemPlatform int

record region =
  rg_base :: usize
  rg_len :: usize

definition checked_end_addr :: "region \<Rightarrow> usize option" where
  "checked_end_addr r = checked_add (rg_base r) (rg_len r)"

definition region_contains :: "region \<Rightarrow> usize \<Rightarrow> bool" where
  "region_contains r addr =
     (case checked_end_addr r of None \<Rightarrow> False | Some e \<Rightarrow> rg_base r \<le> addr \<and> addr < e)"

definition region_subrange :: "region \<Rightarrow> usize \<Rightarrow> usize \<Rightarrow> (region, mem_error_kind) result" where
  "region_subrange r off n =
     bind_result (ok_or MemOverflow (checked_add off n)) (\<lambda>e.
       if e > rg_len r then Err MemOutOfBounds
       else bind_result (ok_or MemOverflow (checked_add (rg_base r) off)) (\<lambda>b.
         Ok \<lparr>rg_base = b, rg_len = n\<rparr>))"

datatype cache_policy = CacheDefault | Uncached | WriteCombined | WriteThrough | WriteBack

datatype advise = AdvNormal | AdvSequential | AdvRandom | AdvWillNeed | AdvDontNeed | AdvFree
  | AdvNoHugePage | AdvHugePage

datatype integrity_mode = IntegrityDefault | IntegrityStrict | IntegrityRelaxed

datatype tag_mode = TagNone | TagChecked | TagUnchecked

datatype placement = Anywhere | Hint usize | FixedNoReplace usize | PreferredNode u32
  | RequiredNode u32 | RegionId u64

text \<open>\<open>Protect\<close> bits.\<close>

abbreviation (input) P_READ :: flags32 where "P_READ \<equiv> 1"
abbreviation (input) P_WRITE :: flags32 where "P_WRITE \<equiv> 2"
abbreviation (input) P_EXEC :: flags32 where "P_EXEC \<equiv> 4"
abbreviation (input) P_GUARD :: flags32 where "P_GUARD \<equiv> 8"

text \<open>\<open>MemAdviceCaps\<close> bits.\<close>

fun advice_cap :: "advise \<Rightarrow> flags32" where
  "advice_cap AdvNormal = 1"
| "advice_cap AdvSequential = 2"
| "advice_cap AdvRandom = 4"
| "advice_cap AdvWillNeed = 8"
| "advice_cap AdvDontNeed = 16"
| "advice_cap AdvFree = 32"
| "advice_cap AdvNoHugePage = 64"
| "advice_cap AdvHugePage = 128"

record page_info =
  base_page :: usize
  alloc_granule_pi :: usize
  huge_page :: "usize option"

record region_info =
  ri_region :: region
  ri_protect :: flags32
  ri_attrs :: flags32
  ri_cache :: cache_policy
  ri_placement :: placement
  ri_committed :: bool

section \<open>Resource descriptors\<close>

datatype resource_error_kind =
    ResInvalidRequest
  | ResUnsupportedRequest
  | ResUnsupportedOperation
  | ResContractViolation
  | ResInvalidRange
  | ResOutOfMemory
  | ResPlatform mem_error_kind
  | ResSynchronizationFailure sync_error_kind

fun from_request_error :: "mem_error_kind \<Rightarrow> resource_error_kind" where
  "from_request_error MemOutOfMemory = ResOutOfMemory"
| "from_request_error MemUnsupported = ResUnsupportedRequest"
| "from_request_error MemInvalidInput = ResInvalidRequest"
| "from_request_error MemInvalidAddress = ResInvalidRequest"
| "from_request_error MemMisaligned = ResInvalidRequest"
| "from_request_error MemOverflow = ResInvalidRequest"
| "from_request_error other = ResPlatform other"

fun from_operation_error :: "mem_error_kind \<Rightarrow> resource_error_kind" where
  "from_operation_error MemOutOfMemory = ResOutOfMemory"
| "from_operation_error MemUnsupported = ResUnsupportedOperation"
| "from_operation_error other = ResPlatform other"

datatype memory_domain = VirtualAddressSpace | DomDeviceLocal | DomPhysical | DomStaticRegion
  | DomMmio

datatype resource_backing_kind = AnonymousPrivate | AnonymousShared | FilePrivate | FileShared
  | Borrowed | BackStaticRegion | Partition | BackDeviceLocal | BackPhysical | BackMmio

datatype sharing_policy = SharePrivate | ShareShared
datatype overcommit_policy = OvercommitAllow | OvercommitDisallow

record integrity_constraints =
  ic_mode :: integrity_mode
  ic_tag :: "tag_mode option"

record resource_contract =
  allowed_protect :: flags32
  write_xor_execute :: bool
  sharing :: sharing_policy
  overcommit :: overcommit_policy
  cache_policy_of :: cache_policy
  integrity :: "integrity_constraints option"

record resource_range =
  rr_offset :: usize
  rr_len :: usize

abbreviation range_new :: "usize \<Rightarrow> usize \<Rightarrow> resource_range" where
  "range_new off n \<equiv> \<lparr>rr_offset = off, rr_len = n\<rparr>"

definition range_whole :: "usize \<Rightarrow> resource_range" where
  "range_whole n = \<lparr>rr_offset = 0, rr_len = n\<rparr>"

record memory_geometry =
  base_granule :: usize
  alloc_granule :: usize
  protect_granule :: "usize option"
  commit_granule :: "usize option"
  lock_granule :: "usize option"
  large_granule :: "usize option"

datatype layout_realization = LazyVirtual | EagerPhysical

record allocator_layout_policy =
  metadata_granule :: usize
  min_extent_align :: usize
  default_arena_align :: usize
  default_slab_align :: usize
  realization :: layout_realization

definition exact_static :: allocator_layout_policy where
  "exact_static = \<lparr>metadata_granule = 1, min_extent_align = 1, default_arena_align = 16,
     default_slab_align = 16, realization = EagerPhysical\<rparr>"

definition hosted_vm :: "usize \<Rightarrow> allocator_layout_policy" where
  "hosted_vm page_granule = \<lparr>metadata_granule = page_granule, min_extent_align = page_granule,
     default_arena_align = 64, default_slab_align = 64, realization = LazyVirtual\<rparr>"

record resource_support =
  sup_protect :: flags32
  sup_ops :: flags32
  sup_advice :: flags32
  sup_residency :: flags32

record resource_info =
  inf_range :: region
  inf_domain :: memory_domain
  inf_backing :: resource_backing_kind
  inf_attrs :: flags32
  inf_geometry :: memory_geometry
  inf_layout :: allocator_layout_policy
  inf_contract :: resource_contract
  inf_support :: resource_support
  inf_hazards :: flags32

text \<open>\<open>ResourceOpSet\<close>, \<open>ResourceAttrs\<close> and \<open>ResourceHazardSet\<close> bits the code tests.\<close>

abbreviation (input) OP_PROTECT :: flags32 where "OP_PROTECT \<equiv> 1"
abbreviation (input) OP_ADVISE :: flags32 where "OP_ADVISE \<equiv> 2"
abbreviation (input) OP_LOCK :: flags32 where "OP_LOCK \<equiv> 4"
abbreviation (input) OP_QUERY :: flags32 where "OP_QUERY \<equiv> 8"
abbreviation (input) OP_COMMIT :: flags32 where "OP_COMMIT \<equiv> 16"
abbreviation (input) OP_DECOMMIT :: flags32 where "OP_DECOMMIT \<equiv> 32"
abbreviation (input) OP_DISCARD :: flags32 where "OP_DISCARD \<equiv> 64"

abbreviation (input) A_ALLOCATABLE :: flags32 where "A_ALLOCATABLE \<equiv> 1"
abbreviation (input) A_DMA_VISIBLE :: flags32 where "A_DMA_VISIBLE \<equiv> 4"
abbreviation (input) A_DEVICE_LOCAL :: flags32 where "A_DEVICE_LOCAL \<equiv> 8"
abbreviation (input) A_CACHEABLE :: flags32 where "A_CACHEABLE \<equiv> 16"
abbreviation (input) A_COHERENT :: flags32 where "A_COHERENT \<equiv> 32"
abbreviation (input) A_PHYS_CONTIGUOUS :: flags32 where "A_PHYS_CONTIGUOUS \<equiv> 64"
abbreviation (input) A_TAGGED :: flags32 where "A_TAGGED \<equiv> 128"
abbreviation (input) A_INTEGRITY_MANAGED :: flags32 where "A_INTEGRITY_MANAGED \<equiv> 256"
abbreviation (input) A_STATIC_REGION :: flags32 where "A_STATIC_REGION \<equiv> 512"
abbreviation (input) A_HAZARDOUS_IO :: flags32 where "A_HAZARDOUS_IO \<equiv> 1024"
abbreviation (input) A_PERSISTENT :: flags32 where "A_PERSISTENT \<equiv> 2048"

section \<open>The range view\<close>

definition view_subrange :: "region \<Rightarrow> resource_range \<Rightarrow> (region, resource_error_kind) result" where
  "view_subrange r rng =
     (if rr_len rng = 0 then Err ResInvalidRange
      else map_err (\<lambda>_. ResInvalidRange) (region_subrange r (rr_offset rng) (rr_len rng)))"

lemma region_subrange_Ok_iff:
  "region_subrange r off n = Ok s \<longleftrightarrow>
     off + n \<le> rg_len r \<and> off + n \<le> usize_max \<and> rg_base r + off \<le> usize_max
       \<and> s = \<lparr>rg_base = rg_base r + off, rg_len = n\<rparr>"
  by (auto simp: region_subrange_def bind_result_Ok_iff checked_iffs split: if_splits)

lemma view_subrange_Ok_iff:
  "view_subrange r rng = Ok s \<longleftrightarrow> 0 < rr_len rng \<and> region_subrange r (rr_offset rng) (rr_len rng) = Ok s"
  by (auto simp: view_subrange_def)

end
