(* ===== verification/Resource_Core.thy ===== *)
theory Resource_Core
  imports Mem_Resource
begin

text \<open>
  The mutable half of a memory resource. \<open>ResourceCore\<close> publishes its state summary as one
  32-bit atomic word (\<open>mem/resource/core.rs\<close>); bound resources (\<open>bound.rs\<close>) never change it,
  virtual resources (\<open>resource.rs\<close>) change it after each successful PAL call. The properties
  are the round trip of the packed word and the truth of the published summary with respect to
  what the PAL calls did to every byte.
\<close>

section \<open>State summaries and their packed form\<close>

datatype state_provenance = ProvStatic | ProvTracked | ProvSnapshot

datatype 'a state_value = Uniform 'a | Asymmetric | Unknown

record resource_state =
  st_provenance :: state_provenance
  current_protect :: "flags32 state_value"
  st_locked :: "bool state_value"
  st_committed :: "bool state_value"

definition state_tracked :: "flags32 \<Rightarrow> bool \<Rightarrow> bool \<Rightarrow> resource_state" where
  "state_tracked protect locked committed = \<lparr>st_provenance = ProvTracked,
     current_protect = Uniform protect, st_locked = Uniform locked,
     st_committed = Uniform committed\<rparr>"

definition static_state ::
    "flags32 state_value \<Rightarrow> bool state_value \<Rightarrow> bool state_value \<Rightarrow> resource_state" where
  "static_state p l c = \<lparr>st_provenance = ProvStatic, current_protect = p, st_locked = l,
     st_committed = c\<rparr>"

fun encode_provenance :: "state_provenance \<Rightarrow> u32" where
  "encode_provenance ProvStatic = push_bit 0 0"
| "encode_provenance ProvTracked = push_bit 0 1"
| "encode_provenance ProvSnapshot = push_bit 0 2"

fun encode_protect_state :: "flags32 state_value \<Rightarrow> u32" where
  "encode_protect_state (Uniform p) = push_bit 2 0 OR push_bit 4 (p AND 15)"
| "encode_protect_state Asymmetric = push_bit 2 1"
| "encode_protect_state Unknown = push_bit 2 2"

fun bool_code :: "bool state_value \<Rightarrow> u32" where
  "bool_code (Uniform False) = 0"
| "bool_code (Uniform True) = 1"
| "bool_code Asymmetric = 2"
| "bool_code Unknown = 3"

definition encode_bool_state :: "bool state_value \<Rightarrow> nat \<Rightarrow> u32" where
  "encode_bool_state v sh = push_bit sh (bool_code v)"

definition encode_state :: "resource_state \<Rightarrow> u32" where
  "encode_state s = encode_provenance (st_provenance s) OR encode_protect_state (current_protect s)
     OR encode_bool_state (st_locked s) 8 OR encode_bool_state (st_committed s) 10"

definition decode_provenance :: "u32 \<Rightarrow> state_provenance" where
  "decode_provenance bits =
     (if bits AND 3 = 0 then ProvStatic else if bits AND 3 = 1 then ProvTracked else ProvSnapshot)"

definition decode_protect_state :: "u32 \<Rightarrow> flags32 state_value" where
  "decode_protect_state bits =
     (let tag = drop_bit 2 bits AND 3 in
      if tag = 0 then Uniform (drop_bit 4 bits AND 15)
      else if tag = 1 then Asymmetric else Unknown)"

definition decode_bool_state :: "u32 \<Rightarrow> nat \<Rightarrow> bool state_value" where
  "decode_bool_state bits sh =
     (let tag = drop_bit sh bits AND 3 in
      if tag = 0 then Uniform False else if tag = 1 then Uniform True
      else if tag = 2 then Asymmetric else Unknown)"

definition decode_state :: "u32 \<Rightarrow> resource_state" where
  "decode_state bits = \<lparr>st_provenance = decode_provenance bits,
     current_protect = decode_protect_state bits,
     st_locked = decode_bool_state bits 8, st_committed = decode_bool_state bits 10\<rparr>"

text \<open>Each field of the packed word is read back from its own bits.\<close>

lemma word_or_and_distrib: "(a OR b) AND c = (a AND c) OR (b AND c)" for a b c :: u32
  by (simp add: bit_eq_iff bit_simps) blast

declare encode_protect_state.simps [simp del]

fun protect_tag :: "flags32 state_value \<Rightarrow> u32" where
  "protect_tag (Uniform p) = 0"
| "protect_tag Asymmetric = 1"
| "protect_tag Unknown = 2"

lemma mask_consts: "(15 :: u32) = mask 4" "(3 :: u32) = mask 2"
  by (simp_all add: mask_eq_exp_minus_1)

lemma protect_uniform_bits:
  "encode_protect_state (Uniform p) AND 3 = 0"
  "drop_bit 2 (encode_protect_state (Uniform p)) AND 3 = 0"
  "drop_bit 4 (encode_protect_state (Uniform p)) AND 15 = p AND 15"
  "drop_bit 8 (encode_protect_state (Uniform p)) AND 3 = 0"
  "drop_bit 10 (encode_protect_state (Uniform p)) AND 3 = 0"
  unfolding mask_consts encode_protect_state.simps by (rule bit_eqI; auto simp: bit_simps)+

lemma protect_state_bits [simp]:
  "encode_protect_state v AND 3 = 0" "drop_bit 2 (encode_protect_state v) AND 3 = protect_tag v"
  "drop_bit 8 (encode_protect_state v) AND 3 = 0" "drop_bit 10 (encode_protect_state v) AND 3 = 0"
  by (cases v; simp add: protect_uniform_bits; simp add: encode_protect_state.simps)+

lemma provenance_bits [simp]:
  "drop_bit 2 (encode_provenance v) AND 3 = 0" "drop_bit 4 (encode_provenance v) AND 15 = 0"
  "drop_bit 8 (encode_provenance v) AND 3 = 0" "drop_bit 10 (encode_provenance v) AND 3 = 0"
  by (cases v; simp)+

lemma bool_state_bits [simp]:
  "encode_bool_state v 8 AND 3 = 0" "drop_bit 2 (encode_bool_state v 8) AND 3 = 0"
  "drop_bit 4 (encode_bool_state v 8) AND 15 = 0" "drop_bit 8 (encode_bool_state v 8) AND 3 = bool_code v"
  "drop_bit 10 (encode_bool_state v 8) AND 3 = 0"
  "encode_bool_state v 10 AND 3 = 0" "drop_bit 2 (encode_bool_state v 10) AND 3 = 0"
  "drop_bit 4 (encode_bool_state v 10) AND 15 = 0" "drop_bit 8 (encode_bool_state v 10) AND 3 = 0"
  "drop_bit 10 (encode_bool_state v 10) AND 3 = bool_code v"
  by (cases v rule: bool_code.cases; simp add: encode_bool_state_def)+

lemma decode_bool_code:
  "(let tag = bool_code v in if tag = 0 then Uniform False else if tag = 1 then Uniform True
      else if tag = 2 then Asymmetric else Unknown) = v"
  by (cases v rule: bool_code.cases) simp_all

lemma decode_encode_state:
  "decode_state (encode_state s) = s\<lparr>current_protect :=
     (case current_protect s of Uniform p \<Rightarrow> Uniform (p AND 15) | v \<Rightarrow> v)\<rparr>"
proof -
  have "decode_provenance (encode_state s) = st_provenance s"
    by (cases "st_provenance s")
      (simp_all add: decode_provenance_def encode_state_def word_or_and_distrib)
  moreover have "decode_bool_state (encode_state s) 8 = st_locked s"
    "decode_bool_state (encode_state s) 10 = st_committed s"
    using decode_bool_code
    by (simp_all add: decode_bool_state_def encode_state_def word_or_and_distrib)
  moreover have "decode_protect_state (encode_state s) =
      (case current_protect s of Uniform p \<Rightarrow> Uniform (p AND 15) | v \<Rightarrow> v)"
    by (cases "current_protect s")
      (simp_all add: decode_protect_state_def encode_state_def word_or_and_distrib
        protect_uniform_bits)
  ultimately show ?thesis by (simp add: decode_state_def)
qed

section \<open>The resource core\<close>

record resolved_resource =
  res_info :: resource_info
  initial_state :: resource_state
  unmet_preferences :: flags32

record resource_core =
  resolved :: resolved_resource
  state_bits :: u32

definition core_new :: "resolved_resource \<Rightarrow> resource_state \<Rightarrow> resource_core" where
  "core_new r s = \<lparr>resolved = r, state_bits = encode_state s\<rparr>"

definition core_state :: "resource_core \<Rightarrow> resource_state" where
  "core_state c = decode_state (state_bits c)"

text \<open>
  \<open>update_state\<close> retries its compare-exchange until the word it read is still there, so the
  store that succeeds is one atomic read-modify-write.
\<close>

definition update_state :: "(resource_state \<Rightarrow> resource_state) \<Rightarrow> resource_core \<Rightarrow> resource_core" where
  "update_state f c = c\<lparr>state_bits := encode_state (f (decode_state (state_bits c)))\<rparr>"

definition set_current_protect :: "flags32 \<Rightarrow> resource_core \<Rightarrow> resource_core" where
  "set_current_protect p = update_state (\<lambda>s. s\<lparr>current_protect := Uniform p\<rparr>)"

definition mark_protect_asymmetric :: "resource_core \<Rightarrow> resource_core" where
  "mark_protect_asymmetric = update_state (\<lambda>s. s\<lparr>current_protect := Asymmetric\<rparr>)"

definition set_locked_state :: "bool \<Rightarrow> resource_core \<Rightarrow> resource_core" where
  "set_locked_state l = update_state (\<lambda>s. s\<lparr>st_locked := Uniform l\<rparr>)"

definition mark_locked_asymmetric :: "resource_core \<Rightarrow> resource_core" where
  "mark_locked_asymmetric = update_state (\<lambda>s. s\<lparr>st_locked := Asymmetric\<rparr>)"

definition set_committed_state :: "bool \<Rightarrow> resource_core \<Rightarrow> resource_core" where
  "set_committed_state v = update_state (\<lambda>s. s\<lparr>st_committed := Uniform v\<rparr>)"

definition mark_committed_asymmetric :: "resource_core \<Rightarrow> resource_core" where
  "mark_committed_asymmetric = update_state (\<lambda>s. s\<lparr>st_committed := Asymmetric\<rparr>)"

lemmas guard_defs = set_current_protect_def mark_protect_asymmetric_def set_locked_state_def
  mark_locked_asymmetric_def set_committed_state_def mark_committed_asymmetric_def

lemma decode_protect_in_mask:
  "current_protect (decode_state b) = Uniform p \<Longrightarrow> p AND 15 = p"
  by (auto simp: decode_state_def decode_protect_state_def Let_def split: if_splits)

text \<open>A guard method changes the field it names and no other.\<close>

lemma core_state_update [simp]:
  "core_state (update_state f c) = (let s = f (core_state c) in s\<lparr>current_protect :=
     (case current_protect s of Uniform p \<Rightarrow> Uniform (p AND 15) | v \<Rightarrow> v)\<rparr>)"
  by (simp add: core_state_def update_state_def decode_encode_state Let_def)

lemma resolved_update [simp]: "resolved (update_state f c) = resolved c"
  by (simp add: update_state_def)

lemma protect_reencode:
  "(case current_protect (core_state c) of Uniform p \<Rightarrow> Uniform (p AND 15) | v \<Rightarrow> v)
     = current_protect (core_state c)"
  by (auto simp: core_state_def split: state_value.split dest: decode_protect_in_mask)

lemma guard_effects:
  "core_state (set_current_protect p c) = (core_state c)\<lparr>current_protect := Uniform (p AND 15)\<rparr>"
  "core_state (mark_protect_asymmetric c) = (core_state c)\<lparr>current_protect := Asymmetric\<rparr>"
  "core_state (set_locked_state l c) = (core_state c)\<lparr>st_locked := Uniform l\<rparr>"
  "core_state (mark_locked_asymmetric c) = (core_state c)\<lparr>st_locked := Asymmetric\<rparr>"
  "core_state (set_committed_state l c) = (core_state c)\<lparr>st_committed := Uniform l\<rparr>"
  "core_state (mark_committed_asymmetric c) = (core_state c)\<lparr>st_committed := Asymmetric\<rparr>"
  by (simp_all add: guard_defs protect_reencode)

section \<open>Bound resources\<close>

record bound_resource_spec =
  bs_range :: region
  bs_domain :: memory_domain
  bs_backing :: resource_backing_kind
  bs_attrs :: flags32
  bs_geometry :: memory_geometry
  bs_layout :: allocator_layout_policy
  bs_contract :: resource_contract
  bs_support :: resource_support
  additional_hazards :: flags32
  bs_initial_state :: resource_state

fun backing_matches_domain :: "resource_backing_kind \<Rightarrow> memory_domain \<Rightarrow> bool" where
  "backing_matches_domain AnonymousPrivate d = (d = VirtualAddressSpace)"
| "backing_matches_domain AnonymousShared d = (d = VirtualAddressSpace)"
| "backing_matches_domain FilePrivate d = (d = VirtualAddressSpace)"
| "backing_matches_domain FileShared d = (d = VirtualAddressSpace)"
| "backing_matches_domain BackMmio d = (d = DomMmio)"
| "backing_matches_domain BackDeviceLocal d = (d = DomDeviceLocal)"
| "backing_matches_domain BackPhysical d = (d = DomPhysical)"
| "backing_matches_domain Borrowed d = (d \<in> {DomStaticRegion, DomPhysical, DomMmio})"
| "backing_matches_domain BackStaticRegion d = (d \<in> {DomStaticRegion, DomPhysical, DomMmio})"
| "backing_matches_domain Partition d = (d \<in> {DomStaticRegion, DomPhysical, DomMmio})"

fun is_uniform :: "'a state_value \<Rightarrow> bool" where
  "is_uniform (Uniform x) = True"
| "is_uniform _ = False"

fun uniform_and :: "('a \<Rightarrow> bool) \<Rightarrow> 'a state_value \<Rightarrow> bool" where
  "uniform_and p (Uniform x) = p x"
| "uniform_and p _ = False"

definition validate_bound_spec :: "bound_resource_spec \<Rightarrow> (unit, resource_error_kind) result" where
  "validate_bound_spec spec =
     (let st = bs_initial_state spec; sup = bs_support spec; con = bs_contract spec in
      if rg_len (bs_range spec) = 0 then Err ResInvalidRequest
      else if \<not> backing_matches_domain (bs_backing spec) (bs_domain spec) then Err ResInvalidRequest
      else if minus_flags (sup_ops sup) OP_QUERY \<noteq> 0 then Err ResInvalidRequest
      else if contains_flags (sup_ops sup) OP_QUERY \<and> \<not> is_uniform (current_protect st)
        then Err ResInvalidRequest
      else if contains_flags (sup_ops sup) OP_QUERY \<and> \<not> is_uniform (st_committed st)
        then Err ResInvalidRequest
      else if uniform_and (\<lambda>p. \<not> contains_flags (allowed_protect con) p
          \<or> \<not> contains_flags (sup_protect sup) p) (current_protect st) then Err ResInvalidRequest
      else if write_xor_execute con \<and>
          uniform_and (\<lambda>p. contains_flags p P_WRITE \<and> contains_flags p P_EXEC) (current_protect st)
        then Err ResContractViolation
      else Ok ())"

definition infer_resource_hazards :: "resource_contract \<Rightarrow> flags32 \<Rightarrow> flags32" where
  "infer_resource_hazards con attrs =
     (if contains_flags (allowed_protect con) P_EXEC then 1 else 0)
     OR (if sharing con = ShareShared then 2 else 0)
     OR (if overcommit con = OvercommitAllow then 8 else 0)
     OR (if \<not> contains_flags attrs A_COHERENT then 16 else 0)
     OR (if contains_flags attrs A_HAZARDOUS_IO then 64 else 0)
     OR (if contains_flags attrs A_PERSISTENT then 128 else 0)"

definition bound_new :: "bound_resource_spec \<Rightarrow> (resource_core, resource_error_kind) result" where
  "bound_new spec = bind_result (validate_bound_spec spec) (\<lambda>_.
     let hazards = infer_resource_hazards (bs_contract spec) (bs_attrs spec)
                     OR additional_hazards spec;
         info = \<lparr>inf_range = bs_range spec, inf_domain = bs_domain spec,
           inf_backing = bs_backing spec, inf_attrs = bs_attrs spec,
           inf_geometry = bs_geometry spec, inf_layout = bs_layout spec,
           inf_contract = bs_contract spec, inf_support = bs_support spec,
           inf_hazards = hazards\<rparr>
     in Ok (core_new \<lparr>res_info = info, initial_state = bs_initial_state spec,
              unmet_preferences = 0\<rparr> (bs_initial_state spec)))"

definition static_allocatable_geometry :: memory_geometry where
  "static_allocatable_geometry = \<lparr>base_granule = 1, alloc_granule = 1, protect_granule = None,
     commit_granule = None, lock_granule = None, large_granule = None\<rparr>"

definition static_allocatable_contract :: resource_contract where
  "static_allocatable_contract = \<lparr>allowed_protect = P_READ OR P_WRITE, write_xor_execute = True,
     sharing = SharePrivate, overcommit = OvercommitDisallow, cache_policy_of = CacheDefault,
     integrity = None\<rparr>"

definition static_allocatable_support :: resource_support where
  "static_allocatable_support = \<lparr>sup_protect = P_READ OR P_WRITE, sup_ops = OP_QUERY,
     sup_advice = 0, sup_residency = 1\<rparr>"

definition static_allocatable_state :: resource_state where
  "static_allocatable_state = static_state (Uniform (P_READ OR P_WRITE)) (Uniform False) (Uniform True)"

definition static_allocatable_region :: "region \<Rightarrow> (resource_core, resource_error_kind) result" where
  "static_allocatable_region r = bound_new \<lparr>bs_range = r, bs_domain = DomStaticRegion,
     bs_backing = BackStaticRegion,
     bs_attrs = A_ALLOCATABLE OR A_STATIC_REGION OR A_CACHEABLE OR A_COHERENT,
     bs_geometry = static_allocatable_geometry, bs_layout = exact_static,
     bs_contract = static_allocatable_contract, bs_support = static_allocatable_support,
     additional_hazards = 0, bs_initial_state = static_allocatable_state\<rparr>"

definition resource_region_attrs_from_attrs :: "flags32 \<Rightarrow> flags32" where
  "resource_region_attrs_from_attrs attrs =
     (if contains_flags attrs A_DMA_VISIBLE then 1 else 0)
     OR (if contains_flags attrs A_DEVICE_LOCAL then 2 else 0)
     OR (if contains_flags attrs A_CACHEABLE then 4 else 0)
     OR (if contains_flags attrs A_COHERENT then 8 else 0)
     OR (if contains_flags attrs A_PHYS_CONTIGUOUS then 16 else 0)
     OR (if contains_flags attrs A_TAGGED then 64 else 0)
     OR (if contains_flags attrs A_INTEGRITY_MANAGED then 128 else 0)
     OR (if contains_flags attrs A_STATIC_REGION then 256 else 0)"

definition bound_query :: "resource_core \<Rightarrow> usize \<Rightarrow> (region_info, resource_error_kind) result" where
  "bound_query c addr =
     (let info = res_info (resolved c) in
      if \<not> contains_flags (sup_ops (inf_support info)) OP_QUERY then Err ResUnsupportedOperation
      else if \<not> region_contains (inf_range info) addr then Err ResInvalidRange
      else case current_protect (core_state c) of
          Uniform p \<Rightarrow> (case st_committed (core_state c) of
             Uniform v \<Rightarrow> Ok \<lparr>ri_region = inf_range info, ri_protect = p,
               ri_attrs = resource_region_attrs_from_attrs (inf_attrs info),
               ri_cache = cache_policy_of (inf_contract info), ri_placement = Anywhere,
               ri_committed = v\<rparr>
           | _ \<Rightarrow> Err ResUnsupportedOperation)
        | _ \<Rightarrow> Err ResUnsupportedOperation)"

section \<open>Virtual resources\<close>

text \<open>
  The PAL memory backend is outside the crate: \<open>pal\<close> gives the outcome of each call, and every
  operation returns, beside its result and the new core, the calls it made.
\<close>

datatype pal_call =
    PalProtect region flags32
  | PalAdvise region advise
  | PalCommit region flags32
  | PalDecommit region
  | PalLock region
  | PalUnlock region

type_synonym pal = "pal_call \<Rightarrow> (unit, mem_error_kind) result"

record virtual_resource =
  vm_page_info :: page_info
  vm_core :: resource_core

abbreviation vm_info :: "virtual_resource \<Rightarrow> resource_info" where
  "vm_info v \<equiv> res_info (resolved (vm_core v))"

definition supports_protect :: "flags32 \<Rightarrow> flags32 \<Rightarrow> bool" where
  "supports_protect supported requested =
     (if contains_flags requested P_GUARD \<and> \<not> contains_flags supported P_GUARD then False
      else contains_flags supported (minus_flags requested P_GUARD))"

definition supports_advice :: "flags32 \<Rightarrow> advise \<Rightarrow> bool" where
  "supports_advice supported a = contains_flags supported (advice_cap a)"

definition preferred_discard_advice :: "flags32 \<Rightarrow> advise option" where
  "preferred_discard_advice supported =
     (if contains_flags supported (advice_cap AdvFree) then Some AdvFree
      else if contains_flags supported (advice_cap AdvDontNeed) then Some AdvDontNeed else None)"

definition operation_region ::
    "virtual_resource \<Rightarrow> resource_range \<Rightarrow> (region, resource_error_kind) result" where
  "operation_region v rng =
     (if rr_len rng = 0 then Err ResInvalidRange
      else if \<not> is_multiple_of (rr_offset rng) (base_page (vm_page_info v))
           \<or> \<not> is_multiple_of (rr_len rng) (base_page (vm_page_info v)) then Err ResInvalidRange
      else map_err (\<lambda>_. ResInvalidRange)
             (region_subrange (inf_range (vm_info v)) (rr_offset rng) (rr_len rng)))"

definition validate_protect_contract ::
    "virtual_resource \<Rightarrow> flags32 \<Rightarrow> (unit, resource_error_kind) result" where
  "validate_protect_contract v p =
     (let con = inf_contract (vm_info v) in
      if \<not> supports_protect (sup_protect (inf_support (vm_info v))) p then Err ResUnsupportedOperation
      else if \<not> contains_flags (allowed_protect con) p then Err ResContractViolation
      else if write_xor_execute con \<and> contains_flags p P_WRITE \<and> contains_flags p P_EXEC
        then Err ResContractViolation
      else Ok ())"

definition is_full_resource_range :: "virtual_resource \<Rightarrow> resource_range \<Rightarrow> bool" where
  "is_full_resource_range v rng \<longleftrightarrow> rr_offset rng = 0 \<and> rr_len rng = rg_len (inf_range (vm_info v))"

text \<open>
  The tail every operation shares: take the mutation lock, call the PAL, and on success record
  the new summary under the guard.
\<close>

definition mutate ::
    "lock_outcome \<Rightarrow> pal \<Rightarrow> pal_call \<Rightarrow> (resource_core \<Rightarrow> resource_core) \<Rightarrow> virtual_resource \<Rightarrow>
     (unit, resource_error_kind) result \<times> virtual_resource \<times> pal_call list" where
  "mutate lk pal call upd v =
     (case lk of
        Err k \<Rightarrow> (Err (ResSynchronizationFailure k), v, [])
      | Ok _ \<Rightarrow> (case pal call of
           Err e \<Rightarrow> (Err (from_operation_error e), v, [call])
         | Ok _ \<Rightarrow> (Ok (), v\<lparr>vm_core := upd (vm_core v)\<rparr>, [call])))"

definition virtual_protect where
  "virtual_protect lk pal rng p v =
     (if \<not> contains_flags (sup_ops (inf_support (vm_info v))) OP_PROTECT
        then (Err ResUnsupportedOperation, v, [])
      else case validate_protect_contract v p of
        Err e \<Rightarrow> (Err e, v, [])
      | Ok _ \<Rightarrow> (case operation_region v rng of
          Err e \<Rightarrow> (Err e, v, [])
        | Ok r \<Rightarrow> mutate lk pal (PalProtect r p)
            (if is_full_resource_range v rng then set_current_protect p
             else mark_protect_asymmetric) v))"

definition virtual_advise where
  "virtual_advise lk pal rng a v =
     (if \<not> contains_flags (sup_ops (inf_support (vm_info v))) OP_ADVISE
         \<or> \<not> supports_advice (sup_advice (inf_support (vm_info v))) a
        then (Err ResUnsupportedOperation, v, [])
      else case operation_region v rng of
          Err e \<Rightarrow> (Err e, v, [])
        | Ok r \<Rightarrow> mutate lk pal (PalAdvise r a) id v)"

definition virtual_discard where
  "virtual_discard lk pal rng v =
     (if \<not> contains_flags (sup_ops (inf_support (vm_info v))) OP_DISCARD
        then (Err ResUnsupportedOperation, v, [])
      else case preferred_discard_advice (sup_advice (inf_support (vm_info v))) of
        None \<Rightarrow> (Err ResUnsupportedOperation, v, [])
      | Some a \<Rightarrow> (case operation_region v rng of
          Err e \<Rightarrow> (Err e, v, [])
        | Ok r \<Rightarrow> mutate lk pal (PalAdvise r a) id v))"

definition virtual_commit where
  "virtual_commit lk pal rng p v =
     (if \<not> contains_flags (sup_ops (inf_support (vm_info v))) OP_COMMIT
        then (Err ResUnsupportedOperation, v, [])
      else case validate_protect_contract v p of
        Err e \<Rightarrow> (Err e, v, [])
      | Ok _ \<Rightarrow> (case operation_region v rng of
          Err e \<Rightarrow> (Err e, v, [])
        | Ok r \<Rightarrow> mutate lk pal (PalCommit r p)
            (if is_full_resource_range v rng
             then (\<lambda>c. set_committed_state True (set_current_protect p c))
             else (\<lambda>c. mark_committed_asymmetric (mark_protect_asymmetric c))) v))"

definition virtual_decommit where
  "virtual_decommit lk pal rng v =
     (if \<not> contains_flags (sup_ops (inf_support (vm_info v))) OP_DECOMMIT
        then (Err ResUnsupportedOperation, v, [])
      else case operation_region v rng of
          Err e \<Rightarrow> (Err e, v, [])
        | Ok r \<Rightarrow> mutate lk pal (PalDecommit r)
            (if is_full_resource_range v rng then set_committed_state False
             else mark_committed_asymmetric) v)"

definition virtual_lock where
  "virtual_lock lk pal rng v =
     (if \<not> contains_flags (sup_ops (inf_support (vm_info v))) OP_LOCK
        then (Err ResUnsupportedOperation, v, [])
      else case operation_region v rng of
          Err e \<Rightarrow> (Err e, v, [])
        | Ok r \<Rightarrow> mutate lk pal (PalLock r)
            (if is_full_resource_range v rng then set_locked_state True
             else mark_locked_asymmetric) v)"

definition virtual_unlock where
  "virtual_unlock lk pal rng v =
     (if \<not> contains_flags (sup_ops (inf_support (vm_info v))) OP_LOCK
        then (Err ResUnsupportedOperation, v, [])
      else case operation_region v rng of
          Err e \<Rightarrow> (Err e, v, [])
        | Ok r \<Rightarrow> mutate lk pal (PalUnlock r)
            (if is_full_resource_range v rng then set_locked_state False
             else mark_locked_asymmetric) v)"

section \<open>Truth of the published summary\<close>

text \<open>
  What the backend holds for every address. A successful PAL call changes exactly the addresses
  of its region; a failed call changes nothing.
\<close>

record pal_truth =
  tr_protect :: "usize \<Rightarrow> flags32"
  tr_locked :: "usize \<Rightarrow> bool"
  tr_committed :: "usize \<Rightarrow> bool"

definition set_on :: "region \<Rightarrow> 'a \<Rightarrow> (usize \<Rightarrow> 'a) \<Rightarrow> usize \<Rightarrow> 'a" where
  "set_on r x f = (\<lambda>a. if rg_base r \<le> a \<and> a < rg_base r + rg_len r then x else f a)"

fun pal_effect :: "pal_call \<Rightarrow> pal_truth \<Rightarrow> pal_truth" where
  "pal_effect (PalProtect r p) t = t\<lparr>tr_protect := set_on r p (tr_protect t)\<rparr>"
| "pal_effect (PalAdvise r a) t = t"
| "pal_effect (PalCommit r p) t =
     t\<lparr>tr_protect := set_on r p (tr_protect t), tr_committed := set_on r True (tr_committed t)\<rparr>"
| "pal_effect (PalDecommit r) t = t\<lparr>tr_committed := set_on r False (tr_committed t)\<rparr>"
| "pal_effect (PalLock r) t = t\<lparr>tr_locked := set_on r True (tr_locked t)\<rparr>"
| "pal_effect (PalUnlock r) t = t\<lparr>tr_locked := set_on r False (tr_locked t)\<rparr>"

fun pal_effects :: "pal \<Rightarrow> pal_call list \<Rightarrow> pal_truth \<Rightarrow> pal_truth" where
  "pal_effects pal [] t = t"
| "pal_effects pal (c # cs) t = pal_effects pal cs (if is_ok (pal c) then pal_effect c t else t)"

datatype vm_op =
    VProtect resource_range flags32
  | VAdvise resource_range advise
  | VDiscard resource_range
  | VCommit resource_range flags32
  | VDecommit resource_range
  | VLock resource_range
  | VUnlock resource_range

fun vm_run :: "lock_outcome \<Rightarrow> pal \<Rightarrow> vm_op \<Rightarrow> virtual_resource \<Rightarrow>
     (unit, resource_error_kind) result \<times> virtual_resource \<times> pal_call list" where
  "vm_run lk pal (VProtect rng p) v = virtual_protect lk pal rng p v"
| "vm_run lk pal (VAdvise rng a) v = virtual_advise lk pal rng a v"
| "vm_run lk pal (VDiscard rng) v = virtual_discard lk pal rng v"
| "vm_run lk pal (VCommit rng p) v = virtual_commit lk pal rng p v"
| "vm_run lk pal (VDecommit rng) v = virtual_decommit lk pal rng v"
| "vm_run lk pal (VLock rng) v = virtual_lock lk pal rng v"
| "vm_run lk pal (VUnlock rng) v = virtual_unlock lk pal rng v"

lemmas virtual_op_defs = virtual_protect_def virtual_advise_def virtual_discard_def
  virtual_commit_def virtual_decommit_def virtual_lock_def virtual_unlock_def

definition uniform_on :: "region \<Rightarrow> (usize \<Rightarrow> 'a) \<Rightarrow> 'a state_value \<Rightarrow> bool" where
  "uniform_on r f v = (\<forall>x. v = Uniform x \<longrightarrow> (\<forall>a. rg_base r \<le> a \<and> a < rg_base r + rg_len r \<longrightarrow> f a = x))"

definition protect_legal :: "resource_contract \<Rightarrow> flags32 \<Rightarrow> bool" where
  "protect_legal con p \<longleftrightarrow> contains_flags (allowed_protect con) p
     \<and> \<not> (write_xor_execute con \<and> contains_flags p P_WRITE \<and> contains_flags p P_EXEC)"

text \<open>
  The invariant: a uniform summary is true of every address of the resource, and a uniform
  protection is one the immutable contract allows.
\<close>

definition vm_inv :: "virtual_resource \<times> pal_truth \<Rightarrow> bool" where
  "vm_inv w = (case w of (v, t) \<Rightarrow>
     (let r = inf_range (vm_info v); s = core_state (vm_core v) in
      uniform_on r (tr_protect t) (current_protect s) \<and> uniform_on r (tr_locked t) (st_locked s)
      \<and> uniform_on r (tr_committed t) (st_committed s)
      \<and> (\<forall>p. current_protect s = Uniform p \<longrightarrow> protect_legal (inf_contract (vm_info v)) p)
      \<and> allowed_protect (inf_contract (vm_info v)) AND 15 = allowed_protect (inf_contract (vm_info v))))"

inductive vm_step :: "virtual_resource \<times> pal_truth \<Rightarrow> virtual_resource \<times> pal_truth \<Rightarrow> bool" where
  "vm_run lk pal opn v = (res, v', calls) \<Longrightarrow> vm_step (v, t) (v', pal_effects pal calls t)"

text \<open>The state changes a successful operation can make, one rule per kind of change.\<close>

inductive vm_change :: "virtual_resource \<Rightarrow> pal_call \<Rightarrow> (resource_core \<Rightarrow> resource_core) \<Rightarrow> bool"
  for v where
  "vm_change v (PalAdvise r a) id"
| "validate_protect_contract v p = Ok () \<Longrightarrow> operation_region v rng = Ok r \<Longrightarrow>
     is_full_resource_range v rng \<Longrightarrow> vm_change v (PalProtect r p) (set_current_protect p)"
| "\<not> is_full_resource_range v rng \<Longrightarrow> vm_change v (PalProtect r p) mark_protect_asymmetric"
| "validate_protect_contract v p = Ok () \<Longrightarrow> operation_region v rng = Ok r \<Longrightarrow>
     is_full_resource_range v rng \<Longrightarrow>
     vm_change v (PalCommit r p) (\<lambda>c. set_committed_state True (set_current_protect p c))"
| "\<not> is_full_resource_range v rng \<Longrightarrow>
     vm_change v (PalCommit r p) (\<lambda>c. mark_committed_asymmetric (mark_protect_asymmetric c))"
| "operation_region v rng = Ok r \<Longrightarrow> is_full_resource_range v rng \<Longrightarrow>
     vm_change v (PalDecommit r) (set_committed_state False)"
| "\<not> is_full_resource_range v rng \<Longrightarrow> vm_change v (PalDecommit r) mark_committed_asymmetric"
| "operation_region v rng = Ok r \<Longrightarrow> is_full_resource_range v rng \<Longrightarrow>
     vm_change v (PalLock r) (set_locked_state True)"
| "\<not> is_full_resource_range v rng \<Longrightarrow> vm_change v (PalLock r) mark_locked_asymmetric"
| "operation_region v rng = Ok r \<Longrightarrow> is_full_resource_range v rng \<Longrightarrow>
     vm_change v (PalUnlock r) (set_locked_state False)"
| "\<not> is_full_resource_range v rng \<Longrightarrow> vm_change v (PalUnlock r) mark_locked_asymmetric"

lemma mutate_cases:
  assumes "mutate lk pal call upd v = (res, v', calls)"
  shows "(\<not> is_ok res \<and> v' = v \<and> pal_effects pal calls t = t)
     \<or> (is_ok res \<and> v' = v\<lparr>vm_core := upd (vm_core v)\<rparr> \<and> pal_effects pal calls t = pal_effect call t)"
  using assms by (auto simp: mutate_def split: result.splits)

lemma vm_run_cases:
  assumes "vm_run lk pal opn v = (res, v', calls)"
  shows "(\<not> is_ok res \<and> v' = v \<and> pal_effects pal calls t = t)
     \<or> (\<exists>call upd. is_ok res \<and> vm_change v call upd \<and> v' = v\<lparr>vm_core := upd (vm_core v)\<rparr>
          \<and> pal_effects pal calls t = pal_effect call t)"
proof (cases opn)
  case (VProtect rng p)
  with assms show ?thesis
    by (cases "validate_protect_contract v p") (auto simp: virtual_protect_def split: if_splits result.splits
        dest!: mutate_cases [of _ _ _ _ _ _ _ _ t] intro: vm_change.intros)
next
  case (VAdvise rng a)
  with assms show ?thesis
    by (auto simp: virtual_advise_def split: if_splits result.splits
        dest!: mutate_cases [of _ _ _ _ _ _ _ _ t] intro: vm_change.intros)
next
  case (VDiscard rng)
  with assms show ?thesis
    by (auto simp: virtual_discard_def split: if_splits result.splits option.splits
        dest!: mutate_cases [of _ _ _ _ _ _ _ _ t] intro: vm_change.intros)
next
  case (VCommit rng p)
  with assms show ?thesis
    by (cases "validate_protect_contract v p") (auto simp: virtual_commit_def split: if_splits result.splits
        dest!: mutate_cases [of _ _ _ _ _ _ _ _ t] intro: vm_change.intros)
next
  case (VDecommit rng)
  with assms show ?thesis
    by (auto simp: virtual_decommit_def split: if_splits result.splits
        dest!: mutate_cases [of _ _ _ _ _ _ _ _ t] intro: vm_change.intros)
next
  case (VLock rng)
  with assms show ?thesis
    by (auto simp: virtual_lock_def split: if_splits result.splits
        dest!: mutate_cases [of _ _ _ _ _ _ _ _ t] intro: vm_change.intros)
next
  case (VUnlock rng)
  with assms show ?thesis
    by (auto simp: virtual_unlock_def split: if_splits result.splits
        dest!: mutate_cases [of _ _ _ _ _ _ _ _ t] intro: vm_change.intros)
qed

lemma full_operation_region:
  "operation_region v rng = Ok r \<Longrightarrow> is_full_resource_range v rng \<Longrightarrow> r = inf_range (vm_info v)"
  by (auto simp: operation_region_def is_full_resource_range_def region_subrange_Ok_iff
      split: if_splits)

lemma uniform_on_set_on [simp]: "uniform_on r (set_on r x f) (Uniform x)"
  by (simp add: uniform_on_def set_on_def)

lemma uniform_on_not_uniform [simp]: "uniform_on r f Asymmetric" "uniform_on r f Unknown"
  by (simp_all add: uniform_on_def)

lemma flags_mask_mono:
  fixes a p m :: flags32
  assumes "contains_flags a p" and "a AND m = a"
  shows "p AND m = p"
  using assms unfolding contains_flags_def by (metis and.assoc and.commute)

lemma validate_protect_contract_OkD:
  assumes "validate_protect_contract v p = Ok ()"
  shows "protect_legal (inf_contract (vm_info v)) p"
  using assms by (auto simp: validate_protect_contract_def protect_legal_def Let_def split: if_splits)

lemma vm_change_inv:
  assumes "vm_change v call upd" and inv: "vm_inv (v, t)"
  shows "vm_inv (v\<lparr>vm_core := upd (vm_core v)\<rparr>, pal_effect call t)"
proof -
  have legal: "protect_legal (inf_contract (vm_info v)) p \<and> p AND 15 = p"
    if "validate_protect_contract v p = Ok ()" for p
    using validate_protect_contract_OkD [OF that] inv
    by (auto simp: vm_inv_def Let_def protect_legal_def intro: flags_mask_mono)
  have res: "resolved (upd (vm_core v)) = resolved (vm_core v)"
    using assms(1) by cases (simp_all add: guard_defs)
  show ?thesis using assms(1)
    by cases (use inv res in \<open>auto simp: vm_inv_def Let_def guard_effects dest: legal
      dest!: full_operation_region\<close>)
qed

lemma vm_step_inv: "vm_inv w \<Longrightarrow> vm_step w w' \<Longrightarrow> vm_inv w'"
  by (erule vm_step.cases) (metis vm_run_cases vm_change_inv)

text \<open>
  The state \<open>VirtualMemoryResource::create\<close> leaves: a tracked uniform summary that is true of the
  fresh mapping, under a contract that allows the initial protection.
\<close>

definition vm_init :: "virtual_resource \<times> pal_truth \<Rightarrow> bool" where
  "vm_init w = (case w of (v, t) \<Rightarrow>
     (let r = inf_range (vm_info v); con = inf_contract (vm_info v) in
      (\<exists>p l. vm_core v = core_new (resolved (vm_core v)) (state_tracked p l True)
        \<and> protect_legal con p \<and> uniform_on r (tr_protect t) (Uniform p)
        \<and> uniform_on r (tr_locked t) (Uniform l) \<and> uniform_on r (tr_committed t) (Uniform True))
      \<and> allowed_protect con AND 15 = allowed_protect con))"

lemma vm_init_inv: "vm_init w \<Longrightarrow> vm_inv w"
proof -
  assume "vm_init w"
  then obtain v t p l where w: "w = (v, t)" and c: "vm_core v = core_new (resolved (vm_core v)) (state_tracked p l True)"
    and rest: "protect_legal (inf_contract (vm_info v)) p"
      "uniform_on (inf_range (vm_info v)) (tr_protect t) (Uniform p)"
      "uniform_on (inf_range (vm_info v)) (tr_locked t) (Uniform l)"
      "uniform_on (inf_range (vm_info v)) (tr_committed t) (Uniform True)"
    and m: "allowed_protect (inf_contract (vm_info v)) AND 15 = allowed_protect (inf_contract (vm_info v))"
    by (cases w) (auto simp: vm_init_def Let_def)
  have p: "p AND 15 = p" using rest(1) m by (auto simp: protect_legal_def intro: flags_mask_mono)
  have "core_state (vm_core v) = state_tracked p l True"
    by (subst c) (simp add: core_state_def core_new_def decode_encode_state state_tracked_def p)
  with w rest m show ?thesis by (simp add: vm_inv_def Let_def state_tracked_def)
qed

interpretation vmr: inductive_invariant vm_init vm_step vm_inv
  by unfold_locales (fact vm_init_inv vm_step_inv)+

section \<open>Properties\<close>

text \<open>
  The packed state word loses nothing the model of a resource can hold: decoding an encoded
  summary gives the summary back whenever a uniform protection fits the four protection bits.
\<close>

theorem resource_state_roundtrip:
  assumes "\<forall>p. current_protect s = Uniform p \<longrightarrow> p AND 15 = p"
  shows "decode_state (encode_state s) = s"
  using assms by (auto simp: decode_encode_state split: state_value.split)

theorem resource_state_roundtrip_witness:
  "decode_state (encode_state (state_tracked 3 True False)) = state_tracked 3 True False"
  by (rule resource_state_roundtrip) (simp add: state_tracked_def)

text \<open>
  Whatever sequence of protect, advise, discard, commit, decommit, lock and unlock calls a
  virtual resource serves, on whatever ranges and whichever of them fail, a summary field that
  says \<open>Uniform\<close> is true of every byte of the resource, and the protection it names is allowed by
  the immutable contract and never both writable and executable under \<open>write_xor_execute\<close>.
\<close>

theorem virtual_summary_is_true:
  assumes "vm_init (v, t)" and "reaches vm_step (v, t) (v', t')"
  shows "uniform_on (inf_range (vm_info v')) (tr_protect t') (current_protect (core_state (vm_core v')))
    \<and> uniform_on (inf_range (vm_info v')) (tr_locked t') (st_locked (core_state (vm_core v')))
    \<and> uniform_on (inf_range (vm_info v')) (tr_committed t') (st_committed (core_state (vm_core v')))
    \<and> (\<forall>p. current_protect (core_state (vm_core v')) = Uniform p
           \<longrightarrow> protect_legal (inf_contract (vm_info v')) p)"
  using vmr.reachable_inv [OF assms] by (simp add: vm_inv_def Let_def)

definition sample_vm :: virtual_resource where
  "sample_vm = \<lparr>vm_page_info = \<lparr>base_page = 4096, alloc_granule_pi = 4096, huge_page = None\<rparr>,
     vm_core = core_new \<lparr>res_info = \<lparr>inf_range = \<lparr>rg_base = 4096, rg_len = 8192\<rparr>,
         inf_domain = VirtualAddressSpace, inf_backing = AnonymousPrivate, inf_attrs = 49,
         inf_geometry = static_allocatable_geometry, inf_layout = hosted_vm 4096,
         inf_contract = static_allocatable_contract,
         inf_support = \<lparr>sup_protect = 7, sup_ops = 1, sup_advice = 0, sup_residency = 1\<rparr>,
         inf_hazards = 0\<rparr>,
       initial_state = state_tracked 3 False True, unmet_preferences = 0\<rparr>
       (state_tracked 3 False True)\<rparr>"

definition sample_truth :: pal_truth where
  "sample_truth = \<lparr>tr_protect = \<lambda>_. 3, tr_locked = \<lambda>_. False, tr_committed = \<lambda>_. True\<rparr>"

text \<open>A full-range \<open>protect(READ)\<close> that succeeds is one step from that state.\<close>

lemma sample_vm_init: "vm_init (sample_vm, sample_truth)"
  unfolding vm_init_def Let_def prod.case
  by (rule conjI, rule exI [of _ 3], rule exI [of _ False])
    (simp_all add: sample_vm_def sample_truth_def uniform_on_def protect_legal_def
      static_allocatable_contract_def contains_flags_def core_new_def)

theorem virtual_summary_is_true_witness:
  "let w = vm_run (Ok ()) (\<lambda>_. Ok ()) (VProtect (range_new 0 8192) 1) sample_vm
   in fst w = Ok ()
    \<and> uniform_on \<lparr>rg_base = 4096, rg_len = 8192\<rparr>
        (tr_protect (pal_effects (\<lambda>_. Ok ()) (snd (snd w)) sample_truth))
        (current_protect (core_state (vm_core (fst (snd w)))))"
proof -
  obtain res v' calls where run:
    "vm_run (Ok ()) (\<lambda>_. Ok ()) (VProtect (range_new 0 8192) 1) sample_vm = (res, v', calls)"
    by (metis prod_cases3)
  then have "reaches vm_step (sample_vm, sample_truth) (v', pal_effects (\<lambda>_. Ok ()) calls sample_truth)"
    by (intro reaches_single vm_step.intros)
  note * = virtual_summary_is_true [OF sample_vm_init this]
  have "res = Ok () \<and> inf_range (vm_info v') = \<lparr>rg_base = 4096, rg_len = 8192\<rparr>"
    using run by (auto simp: sample_vm_def virtual_protect_def contains_flags_def core_new_def
        validate_protect_contract_def supports_protect_def minus_flags_def
        static_allocatable_contract_def operation_region_def is_multiple_of_def region_subrange_def
        checked_add_def usize_max_def is_full_resource_range_def mutate_def guard_defs Let_def)
  with run * show ?thesis by simp
qed

text \<open>
  A bound resource that advertises \<open>QUERY\<close> answers every address of its range with the
  protection and commitment it was bound with (validation refuses imprecise summaries up
  front), and rejects every other address as an invalid range.
\<close>

theorem bound_query_answers:
  assumes "bound_new spec = Ok c" and "contains_flags (sup_ops (bs_support spec)) OP_QUERY"
  shows "if region_contains (bs_range spec) addr
    then \<exists>p b i. current_protect (bs_initial_state spec) = Uniform p
       \<and> st_committed (bs_initial_state spec) = Uniform b \<and> bound_query c addr = Ok i
       \<and> ri_protect i = p AND 15 \<and> ri_committed i = b \<and> ri_region i = bs_range spec
    else bound_query c addr = Err ResInvalidRange"
proof -
  have v: "validate_bound_spec spec = Ok ()"
    using assms(1) by (cases "validate_bound_spec spec") (simp_all add: bound_new_def)
  then obtain p b where pb: "current_protect (bs_initial_state spec) = Uniform p"
      "st_committed (bs_initial_state spec) = Uniform b"
    using assms(2)
    by (cases "current_protect (bs_initial_state spec)"; cases "st_committed (bs_initial_state spec)")
      (auto simp: validate_bound_spec_def Let_def split: if_splits)
  have c: "core_state c = (bs_initial_state spec)\<lparr>current_protect := Uniform (p AND 15)\<rparr>"
    "inf_range (res_info (resolved c)) = bs_range spec"
    "inf_support (res_info (resolved c)) = bs_support spec"
    using assms(1) v pb
    by (auto simp: bound_new_def core_new_def core_state_def decode_encode_state Let_def)
  then show ?thesis using assms(2) pb by (auto simp: bound_query_def Let_def)
qed

theorem bound_query_answers_witness:
  "\<exists>c i. static_allocatable_region \<lparr>rg_base = 0x20000000, rg_len = 65536\<rparr> = Ok c
     \<and> bound_query c 0x20000100 = Ok i \<and> ri_protect i = 3"
proof -
  obtain c where c: "static_allocatable_region \<lparr>rg_base = 0x20000000, rg_len = 65536\<rparr> = Ok c"
    by (simp add: static_allocatable_region_def bound_new_def validate_bound_spec_def
        static_allocatable_support_def static_allocatable_state_def static_allocatable_contract_def
        static_state_def minus_flags_def contains_flags_def Let_def)
  note q = bound_query_answers [OF c [unfolded static_allocatable_region_def], of "0x20000100"]
  have "region_contains \<lparr>rg_base = 0x20000000, rg_len = 65536\<rparr> 0x20000100"
    by (simp add: region_contains_def checked_end_addr_def checked_add_def usize_max_def)
  with q c show ?thesis
    by (auto simp: static_allocatable_support_def static_allocatable_state_def static_state_def
        contains_flags_def)
qed

end
