(* ===== verification/Mem_Pool.thy ===== *)
theory Mem_Pool
  imports Resource_Core "HOL-Library.Product_Lexorder"
begin

text \<open>
  The memory pool (\<open>fusion-sys/mem/pool/\<close>): contributors and members, the fixed array of
  extent records, lease acquisition with best-candidate selection and splitting, release with
  coalescing, and the builder. \<open>MEMBERS\<close> and \<open>EXTENTS\<close> are the lengths of the two slot lists.
  Every operation that takes the state lock has the outcome of \<open>lock()\<close> as an argument and
  returns its result beside the pool after the call.
\<close>

section \<open>Provider vocabulary\<close>

datatype resource_readiness = ReadyNow | RequiresCommit | RequiresMaterialization
  | RequiresStateTransition | Unavailable

fun is_ready_now :: "resource_readiness \<Rightarrow> bool" where
  "is_ready_now ReadyNow = True"
| "is_ready_now _ = False"

fun is_present_transitionable :: "resource_readiness \<Rightarrow> bool" where
  "is_present_transitionable Unavailable = False"
| "is_present_transitionable _ = True"

record compatibility_envelope =
  env_domain :: memory_domain
  env_backing :: resource_backing_kind
  env_attrs :: flags32
  env_geometry :: memory_geometry
  env_layout :: allocator_layout_policy
  env_contract :: resource_contract
  env_support :: resource_support
  env_hazards :: flags32

definition envelope_from_resource_info :: "resource_info \<Rightarrow> compatibility_envelope" where
  "envelope_from_resource_info i = \<lparr>env_domain = inf_domain i, env_backing = inf_backing i,
     env_attrs = inf_attrs i, env_geometry = inf_geometry i, env_layout = inf_layout i,
     env_contract = inf_contract i, env_support = inf_support i, env_hazards = inf_hazards i\<rparr>"

record resource_descriptor =
  desc_id :: nat
  desc_info :: resource_info
  usable_now_len :: usize
  usable_max_len :: usize
  desc_readiness :: resource_readiness
  desc_topology_node :: "nat option"
  desc_pool_class :: "nat option"

section \<open>Errors, requests, leases and extents\<close>

datatype pool_error_kind =
    PoolInvalidRequest
  | PoolUnsupportedPolicy
  | PoolIncompatibleContributor
  | PoolMetadataExhausted
  | PoolCapacityExhausted
  | PoolUnknownLease
  | PoolResourceFailure resource_error_kind
  | PoolSynchronizationFailure sync_error_kind

record extent_request =
  req_len :: usize
  req_align :: usize

definition extent_request_new :: "usize \<Rightarrow> extent_request" where
  "extent_request_new n = \<lparr>req_len = n, req_align = 1\<rparr>"

definition provisioning_len :: "extent_request \<Rightarrow> usize option" where
  "provisioning_len r = checked_add (req_len r) (saturating_sub (req_align r) 1)"

record pool_lease =
  lease_id :: u64
  lease_member :: nat
  lease_range :: resource_range

datatype extent_disposition = Free | Leased u64

record extent_record =
  ex_member :: usize
  ex_range :: resource_range
  ex_disposition :: extent_disposition

record extent_info =
  ei_member :: nat
  ei_range :: resource_range
  ei_disposition :: extent_disposition

definition public_info :: "extent_record \<Rightarrow> nat \<Rightarrow> extent_info" where
  "public_info r m = \<lparr>ei_member = m, ei_range = ex_range r,
     ei_disposition = (case ex_disposition r of Free \<Rightarrow> Free | Leased i \<Rightarrow> Leased i)\<rparr>"

section \<open>Members and contributors\<close>

datatype resource_handle = Virtual virtual_resource | Bound resource_core

fun handle_info :: "resource_handle \<Rightarrow> resource_info" where
  "handle_info (Virtual v) = vm_info v"
| "handle_info (Bound c) = res_info (resolved c)"

abbreviation handle_base :: "resource_handle \<Rightarrow> usize" where
  "handle_base h \<equiv> rg_base (inf_range (handle_info h))"

definition handle_subview :: "resource_handle \<Rightarrow> resource_range \<Rightarrow> (region, resource_error_kind) result" where
  "handle_subview h rng = view_subrange (inf_range (handle_info h)) rng"

datatype contributor_origin = Explicit | PresentResource nat | CreatedResource nat

record contributor =
  con_handle :: resource_handle
  con_usable_range :: resource_range
  con_readiness :: resource_readiness
  con_topology_node :: "nat option"
  con_pool_class :: "nat option"
  con_origin :: contributor_origin

definition explicit_ready :: "resource_handle \<Rightarrow> contributor" where
  "explicit_ready h = \<lparr>con_handle = h,
     con_usable_range = range_whole (rg_len (inf_range (handle_info h))),
     con_readiness = ReadyNow, con_topology_node = None, con_pool_class = None,
     con_origin = Explicit\<rparr>"

definition from_resource_descriptor ::
    "resource_handle \<Rightarrow> resource_descriptor \<Rightarrow> resource_range \<Rightarrow> (contributor, pool_error_kind) result" where
  "from_resource_descriptor h d rng =
     (if handle_info h \<noteq> desc_info d then Err PoolIncompatibleContributor
      else bind_result (map_err PoolResourceFailure (handle_subview h rng)) (\<lambda>_.
        if rr_len rng > usable_max_len d then Err PoolIncompatibleContributor
        else Ok \<lparr>con_handle = h, con_usable_range = rng, con_readiness = desc_readiness d,
               con_topology_node = desc_topology_node d, con_pool_class = desc_pool_class d,
               con_origin = PresentResource (desc_id d)\<rparr>))"

record pool_member =
  mem_id :: nat
  mem_handle :: resource_handle
  usable_range :: resource_range
  compatibility :: compatibility_envelope
  topology_node :: "nat option"
  pool_class :: "nat option"
  mem_origin :: contributor_origin

definition from_contributor :: "nat \<Rightarrow> contributor \<Rightarrow> (pool_member, pool_error_kind) result" where
  "from_contributor i c =
     bind_result (map_err PoolResourceFailure (handle_subview (con_handle c) (con_usable_range c)))
       (\<lambda>_. Ok \<lparr>mem_id = i, mem_handle = con_handle c, usable_range = con_usable_range c,
          compatibility = envelope_from_resource_info (handle_info (con_handle c)),
          topology_node = con_topology_node c, pool_class = con_pool_class c,
          mem_origin = con_origin c\<rparr>)"

record member_usage_stats =
  mu_free_bytes :: usize
  mu_leased_bytes :: usize
  mu_largest_free_extent :: usize

record member_info =
  mi_id :: nat
  mi_resource :: resource_info
  mi_origin :: contributor_origin
  mi_usable_range :: resource_range
  mi_compatibility :: compatibility_envelope
  mi_topology_node :: "nat option"
  mi_pool_class :: "nat option"
  mi_usage :: member_usage_stats

definition member_info_from_member :: "pool_member \<Rightarrow> member_usage_stats \<Rightarrow> member_info" where
  "member_info_from_member m u = \<lparr>mi_id = mem_id m, mi_resource = handle_info (mem_handle m),
     mi_origin = mem_origin m, mi_usable_range = usable_range m,
     mi_compatibility = compatibility m, mi_topology_node = topology_node m,
     mi_pool_class = pool_class m, mi_usage = u\<rparr>"

section \<open>The extent table\<close>

type_synonym extents = "extent_record option list"

record pool_state =
  extents_of :: extents
  free_bytes :: usize
  leased_bytes :: usize
  next_lease_id :: u64

definition pool_state_new :: "nat \<Rightarrow> pool_state" where
  "pool_state_new n = \<lparr>extents_of = replicate n None, free_bytes = 0, leased_bytes = 0,
     next_lease_id = 1\<rparr>"

definition allocate_lease_id :: "pool_state \<Rightarrow> (u64, pool_error_kind) result \<times> pool_state" where
  "allocate_lease_id s =
     (if next_lease_id s = 0 then (Err PoolMetadataExhausted, s)
      else (Ok (next_lease_id s), s\<lparr>next_lease_id :=
              (if next_lease_id s + 1 \<le> u64_max then next_lease_id s + 1 else 0)\<rparr>))"

definition first_vacant_slot :: "extents \<Rightarrow> usize option" where
  "first_vacant_slot xs = position (\<lambda>x. x = None) xs"

text \<open>
  \<open>vacant_slots_excluding\<close> collects at most two vacant indices; \<open>slots\<close> is its array
  \<open>[Option<usize>; 2]\<close>, filled in index order.
\<close>

fun vacant_scan :: "nat \<Rightarrow> nat option \<Rightarrow> nat \<Rightarrow> extents \<Rightarrow> nat \<Rightarrow> nat option list \<Rightarrow>
    nat option list option" where
  "vacant_scan needed excluded idx [] found slots = None"
| "vacant_scan needed excluded idx (x # xs) found slots =
     (if excluded = Some idx then vacant_scan needed excluded (Suc idx) xs found slots
      else if x = None then
        (let slots' = slots[found := Some idx] in
         if Suc found = needed then Some slots'
         else vacant_scan needed excluded (Suc idx) xs (Suc found) slots')
      else vacant_scan needed excluded (Suc idx) xs found slots)"

definition vacant_slots_excluding :: "nat \<Rightarrow> nat option \<Rightarrow> extents \<Rightarrow> nat option list option" where
  "vacant_slots_excluding needed excluded xs =
     (if needed = 0 then Some [None, None] else vacant_scan needed excluded 0 xs 0 [None, None])"

fun record_is_lease :: "pool_lease \<Rightarrow> extent_record option \<Rightarrow> bool" where
  "record_is_lease l None = False"
| "record_is_lease l (Some r) = (case ex_disposition r of
      Free \<Rightarrow> False
    | Leased i \<Rightarrow> lease_member l = ex_member r \<and> ex_range r = lease_range l \<and> i = lease_id l)"

definition extent_slot_for_lease :: "pool_lease \<Rightarrow> extents \<Rightarrow> usize option" where
  "extent_slot_for_lease l xs = position (record_is_lease l) xs"

definition lease_is_active :: "pool_lease \<Rightarrow> extents \<Rightarrow> bool" where
  "lease_is_active l xs \<longleftrightarrow> extent_slot_for_lease l xs \<noteq> None"

definition usage_step :: "usize \<Rightarrow> extent_record \<Rightarrow> member_usage_stats \<Rightarrow> member_usage_stats" where
  "usage_step m r u =
     (if ex_member r \<noteq> m then u
      else case ex_disposition r of
        Free \<Rightarrow> u\<lparr>mu_free_bytes := saturating_add (mu_free_bytes u) (rr_len (ex_range r)),
                  mu_largest_free_extent := max (mu_largest_free_extent u) (rr_len (ex_range r))\<rparr>
      | Leased _ \<Rightarrow> u\<lparr>mu_leased_bytes := saturating_add (mu_leased_bytes u) (rr_len (ex_range r))\<rparr>)"

definition member_usage :: "extents \<Rightarrow> usize \<Rightarrow> member_usage_stats" where
  "member_usage xs m = fold (usage_step m) (flatten xs)
     \<lparr>mu_free_bytes = 0, mu_leased_bytes = 0, mu_largest_free_extent = 0\<rparr>"

record pool_stats =
  total_bytes :: usize
  ps_free_bytes :: usize
  ps_leased_bytes :: usize
  largest_free_extent :: usize
  member_count_of :: usize
  free_extent_count :: usize
  leased_extent_count :: usize
  extent_slot_capacity :: usize
  extent_slots_used :: usize
  extent_slots_free :: usize

definition state_stats :: "pool_state \<Rightarrow> usize \<Rightarrow> pool_stats" where
  "state_stats s member_count =
     (let recs = flatten (extents_of s);
          free_count = length (filter (\<lambda>r. ex_disposition r = Free) recs);
          leased_count = length (filter (\<lambda>r. ex_disposition r \<noteq> Free) recs);
          largest = fold (\<lambda>r m. case ex_disposition r of Free \<Rightarrow> max m (rr_len (ex_range r)) | _ \<Rightarrow> m)
                      recs 0;
          used = free_count + leased_count; capacity = length (extents_of s)
      in \<lparr>total_bytes = saturating_add (free_bytes s) (leased_bytes s),
          ps_free_bytes = free_bytes s, ps_leased_bytes = leased_bytes s,
          largest_free_extent = largest, member_count_of = member_count,
          free_extent_count = free_count, leased_extent_count = leased_count,
          extent_slot_capacity = capacity, extent_slots_used = used,
          extent_slots_free = saturating_sub capacity used\<rparr>)"

section \<open>The pool\<close>

datatype provisioning_policy = ReadyOnly | AllowPrepare | AllowProvision

record pool_policy =
  provisioning :: provisioning_policy
  allow_cross_topology :: bool

definition ready_only :: pool_policy where
  "ready_only = \<lparr>provisioning = ReadyOnly, allow_cross_topology = False\<rparr>"

record memory_pool =
  pl_policy :: pool_policy
  pl_compatibility :: compatibility_envelope
  pl_topology_node :: "nat option"
  pl_pool_class :: "nat option"
  pl_members :: "pool_member option list"
  pl_state :: pool_state

definition member_at :: "pool_member option list \<Rightarrow> usize \<Rightarrow> pool_member option" where
  "member_at ms i = (if i < length ms then ms ! i else None)"

definition pool_member_id :: "memory_pool \<Rightarrow> usize \<Rightarrow> (nat, pool_error_kind) result" where
  "pool_member_id p i = ok_or PoolInvalidRequest (map_option mem_id (member_at (pl_members p) i))"

definition member_count :: "memory_pool \<Rightarrow> usize" where
  "member_count p = length (flatten (pl_members p))"

definition pool_stats_op :: "lock_outcome \<Rightarrow> memory_pool \<Rightarrow> (pool_stats, pool_error_kind) result" where
  "pool_stats_op lk p = bind_result (map_err PoolSynchronizationFailure lk)
     (\<lambda>_. Ok (state_stats (pl_state p) (member_count p)))"

definition member_info_op :: "lock_outcome \<Rightarrow> nat \<Rightarrow> memory_pool \<Rightarrow> (member_info, pool_error_kind) result" where
  "member_info_op lk i p =
     bind_result (ok_or PoolInvalidRequest (member_at (pl_members p) i)) (\<lambda>m.
     bind_result (map_err PoolSynchronizationFailure lk) (\<lambda>_.
       Ok (member_info_from_member m (member_usage (extents_of (pl_state p)) i))))"

fun member_stream :: "nat \<Rightarrow> pool_member option list \<Rightarrow> nat \<Rightarrow> (nat \<times> pool_member) option" where
  "member_stream idx [] k = None"
| "member_stream idx (None # ms) k = member_stream (Suc idx) ms k"
| "member_stream idx (Some m # ms) k =
     (if k = 0 then Some (idx, m) else member_stream (Suc idx) ms (k - 1))"

definition member_info_at :: "lock_outcome \<Rightarrow> nat \<Rightarrow> memory_pool \<Rightarrow> (member_info option, pool_error_kind) result" where
  "member_info_at lk k p = bind_result (map_err PoolSynchronizationFailure lk) (\<lambda>_.
     Ok (case member_stream 0 (pl_members p) k of
           None \<Rightarrow> None
         | Some (i, m) \<Rightarrow> Some (member_info_from_member m (member_usage (extents_of (pl_state p)) i))))"

definition extent_info_at :: "lock_outcome \<Rightarrow> nat \<Rightarrow> memory_pool \<Rightarrow> (extent_info option, pool_error_kind) result" where
  "extent_info_at lk k p = bind_result (map_err PoolSynchronizationFailure lk) (\<lambda>_.
     let recs = flatten (extents_of (pl_state p)) in
     if k < length recs
     then bind_result (pool_member_id p (ex_member (recs ! k))) (\<lambda>i. Ok (Some (public_info (recs ! k) i)))
     else Ok None)"

section \<open>Candidate selection\<close>

record allocation_candidate =
  slot_index :: usize
  cand_member :: usize
  allocation :: resource_range
  metadata_cost :: usize
  waste :: usize
  source_span_len :: usize
  front_padding :: usize

definition aligned_allocation ::
    "memory_pool \<Rightarrow> usize \<Rightarrow> resource_range \<Rightarrow> extent_request \<Rightarrow> resource_range option" where
  "aligned_allocation p mi free req =
     (case member_at (pl_members p) mi of
        None \<Rightarrow> None
      | Some m \<Rightarrow>
     (case checked_add (handle_base (mem_handle m)) (rr_offset free) of
        None \<Rightarrow> None
      | Some start_addr \<Rightarrow>
     (case align_up start_addr (req_align req) of
        None \<Rightarrow> None
      | Some aligned_start \<Rightarrow>
     (case checked_sub aligned_start start_addr of
        None \<Rightarrow> None
      | Some prefix \<Rightarrow>
        if prefix > rr_len free then None
        else case checked_add (rr_offset free) prefix of
          None \<Rightarrow> None
        | Some offset \<Rightarrow>
          (case checked_sub (rr_len free) prefix of
             None \<Rightarrow> None
           | Some available \<Rightarrow>
             if req_len req > available then None
             else Some (range_new offset (req_len req)))))))"

definition prefers_tight_front_allocation :: "memory_pool \<Rightarrow> bool" where
  "prefers_tight_front_allocation p =
     intersects_flags (env_attrs (pl_compatibility p))
       (A_DMA_VISIBLE OR A_DEVICE_LOCAL OR A_PHYS_CONTIGUOUS)"

definition candidate_key :: "bool \<Rightarrow> allocation_candidate \<Rightarrow>
    usize \<times> usize \<times> usize \<times> usize \<times> usize \<times> usize" where
  "candidate_key tight c =
     (if tight then (source_span_len c, front_padding c, metadata_cost c, waste c,
                     cand_member c, slot_index c)
      else (metadata_cost c, waste c, source_span_len c, front_padding c,
            cand_member c, slot_index c))"

definition is_better_candidate :: "allocation_candidate option \<Rightarrow> allocation_candidate \<Rightarrow> bool \<Rightarrow> bool" where
  "is_better_candidate current candidate tight =
     (case current of None \<Rightarrow> True
      | Some c \<Rightarrow> candidate_key tight candidate < candidate_key tight c)"

text \<open>One iteration's candidate; \<open>None\<close> is the \<open>?\<close> that leaves \<open>find_candidate\<close>.\<close>

definition candidate_of :: "usize \<Rightarrow> extent_record \<Rightarrow> resource_range \<Rightarrow> allocation_candidate option" where
  "candidate_of slot r a =
     (case checked_sub (rr_offset a) (rr_offset (ex_range r)) of
        None \<Rightarrow> None
      | Some prefix_len \<Rightarrow>
     (case checked_add (rr_offset a) (rr_len a) of
        None \<Rightarrow> None
      | Some suffix_offset \<Rightarrow>
     (case checked_add (rr_offset (ex_range r)) (rr_len (ex_range r)) of
        None \<Rightarrow> None
      | Some record_end \<Rightarrow>
     (case checked_sub record_end suffix_offset of
        None \<Rightarrow> None
      | Some suffix_len \<Rightarrow>
        Some \<lparr>slot_index = slot, cand_member = ex_member r, allocation = a,
          metadata_cost = of_bool (prefix_len \<noteq> 0) + of_bool (suffix_len \<noteq> 0),
          waste = saturating_sub (rr_len (ex_range r)) (rr_len a),
          source_span_len = rr_len (ex_range r), front_padding = prefix_len\<rparr>))))"

fun find_candidate_loop :: "memory_pool \<Rightarrow> extent_request \<Rightarrow> nat \<Rightarrow> extents \<Rightarrow>
    allocation_candidate option \<Rightarrow> allocation_candidate option" where
  "find_candidate_loop p req idx [] best = best"
| "find_candidate_loop p req idx (None # xs) best = find_candidate_loop p req (Suc idx) xs best"
| "find_candidate_loop p req idx (Some r # xs) best =
     (if ex_disposition r \<noteq> Free then find_candidate_loop p req (Suc idx) xs best
      else case aligned_allocation p (ex_member r) (ex_range r) req of
        None \<Rightarrow> find_candidate_loop p req (Suc idx) xs best
      | Some a \<Rightarrow> (case candidate_of idx r a of
          None \<Rightarrow> None
        | Some c \<Rightarrow> find_candidate_loop p req (Suc idx) xs
            (if is_better_candidate best c (prefers_tight_front_allocation p)
             then Some c else best)))"

definition find_candidate :: "memory_pool \<Rightarrow> pool_state \<Rightarrow> extent_request \<Rightarrow> allocation_candidate option" where
  "find_candidate p s req = find_candidate_loop p req 0 (extents_of s) None"

section \<open>Acquire\<close>

definition validate_extent_request :: "extent_request \<Rightarrow> (unit, pool_error_kind) result" where
  "validate_extent_request r =
     (if req_len r = 0 \<or> req_align r = 0 \<or> \<not> is_power_of_two (req_align r)
      then Err PoolInvalidRequest else Ok ())"

text \<open>
  The split of the chosen free record: the lengths of the two remainders, or the error of the
  checked arithmetic.
\<close>

definition split_lengths :: "resource_range \<Rightarrow> resource_range \<Rightarrow>
    (usize \<times> usize \<times> usize, pool_error_kind) result" where
  "split_lengths a free =
     bind_result (ok_or PoolInvalidRequest (checked_sub (rr_offset a) (rr_offset free))) (\<lambda>prefix_len.
     bind_result (ok_or PoolInvalidRequest (checked_add (rr_offset a) (rr_len a))) (\<lambda>suffix_offset.
     bind_result (ok_or PoolInvalidRequest (checked_add (rr_offset free) (rr_len free))) (\<lambda>free_end.
     bind_result (ok_or PoolInvalidRequest (checked_sub free_end suffix_offset)) (\<lambda>suffix_len.
       Ok (prefix_len, suffix_offset, suffix_len)))))"

text \<open>
  The writes to the extent table. A missing extra slot leaves the writes made so far in place,
  as the early return of the source does.
\<close>

definition write_split :: "usize \<Rightarrow> extent_record \<Rightarrow> resource_range \<Rightarrow> u64 \<Rightarrow> usize \<Rightarrow> usize \<Rightarrow> usize \<Rightarrow>
    nat option list \<Rightarrow> extents \<Rightarrow> (unit, pool_error_kind) result \<times> extents" where
  "write_split slot free a lid prefix_len suffix_offset suffix_len extra xs0 =
     (let xs1 = xs0[slot := Some \<lparr>ex_member = ex_member free, ex_range = a,
                      ex_disposition = Leased lid\<rparr>];
          pre = Some \<lparr>ex_member = ex_member free,
                  ex_range = range_new (rr_offset (ex_range free)) prefix_len, ex_disposition = Free\<rparr>;
          suf = Some \<lparr>ex_member = ex_member free,
                  ex_range = range_new suffix_offset suffix_len, ex_disposition = Free\<rparr>;
          cursor = (if prefix_len \<noteq> 0 then 1 else 0)
      in
      case (if prefix_len \<noteq> 0
            then (case extra ! 0 of None \<Rightarrow> (Err PoolMetadataExhausted, xs1)
                  | Some i \<Rightarrow> (Ok (), xs1[i := pre]))
            else (Ok (), xs1)) of
        (Err e, xs2) \<Rightarrow> (Err e, xs2)
      | (Ok _, xs2) \<Rightarrow>
          (if suffix_len \<noteq> 0
           then (case extra ! cursor of None \<Rightarrow> (Err PoolMetadataExhausted, xs2)
                 | Some i \<Rightarrow> (Ok (), xs2[i := suf]))
           else (Ok (), xs2)))"

definition acquire_extent :: "lock_outcome \<Rightarrow> extent_request \<Rightarrow> memory_pool \<Rightarrow>
    (pool_lease, pool_error_kind) result \<times> memory_pool" where
  "acquire_extent lk req p =
     (case validate_extent_request req of Err e \<Rightarrow> (Err e, p) | Ok _ \<Rightarrow>
     (case lk of Err k \<Rightarrow> (Err (PoolSynchronizationFailure k), p) | Ok _ \<Rightarrow>
     (case find_candidate p (pl_state p) req of None \<Rightarrow> (Err PoolCapacityExhausted, p) | Some c \<Rightarrow>
     (case allocate_lease_id (pl_state p) of (Err e, s) \<Rightarrow> (Err e, p\<lparr>pl_state := s\<rparr>) | (Ok lid, s) \<Rightarrow>
     (case extents_of s ! slot_index c of
        None \<Rightarrow> (Err PoolCapacityExhausted, p\<lparr>pl_state := s\<rparr>) | Some free \<Rightarrow>
     (case split_lengths (allocation c) (ex_range free) of
        Err e \<Rightarrow> (Err e, p\<lparr>pl_state := s\<rparr>) | Ok (prefix_len, suffix_offset, suffix_len) \<Rightarrow>
     (case vacant_slots_excluding (of_bool (prefix_len \<noteq> 0) + of_bool (suffix_len \<noteq> 0))
             (Some (slot_index c)) (extents_of s) of
        None \<Rightarrow> (Err PoolMetadataExhausted, p\<lparr>pl_state := s\<rparr>) | Some extra \<Rightarrow>
     (case write_split (slot_index c) free (allocation c) lid prefix_len suffix_offset suffix_len
             extra (extents_of s) of
        (Err e, xs) \<Rightarrow> (Err e, p\<lparr>pl_state := s\<lparr>extents_of := xs\<rparr>\<rparr>)
      | (Ok _, xs) \<Rightarrow>
          (let s' = s\<lparr>extents_of := xs,
                 free_bytes := saturating_sub (free_bytes s) (rr_len (allocation c)),
                 leased_bytes := saturating_add (leased_bytes s) (rr_len (allocation c))\<rparr>
           in (bind_result (pool_member_id p (cand_member c)) (\<lambda>mid.
                 Ok \<lparr>lease_id = lid, lease_member = mid, lease_range = allocation c\<rparr>),
               p\<lparr>pl_state := s'\<rparr>))))))))))"

section \<open>Release and coalescing\<close>

text \<open>
  The range of \<open>anchor\<close> joined with an adjacent \<open>candidate\<close>. \<open>None\<close> is the early return on
  overflow, \<open>Some None\<close> a candidate that is not adjacent.
\<close>

definition merged_range :: "resource_range \<Rightarrow> resource_range \<Rightarrow> resource_range option option" where
  "merged_range anchor cand =
     (case checked_add (rr_offset anchor) (rr_len anchor) of
        None \<Rightarrow> None
      | Some anchor_end \<Rightarrow>
     (case checked_add (rr_offset cand) (rr_len cand) of
        None \<Rightarrow> None
      | Some candidate_end \<Rightarrow>
        if candidate_end = rr_offset anchor
        then (case checked_add (rr_len cand) (rr_len anchor) of
                None \<Rightarrow> None
              | Some n \<Rightarrow> Some (Some (range_new (rr_offset cand) n)))
        else if anchor_end = rr_offset cand
        then (case checked_add (rr_len anchor) (rr_len cand) of
                None \<Rightarrow> None
              | Some n \<Rightarrow> Some (Some (range_new (rr_offset anchor) n)))
        else Some None))"

datatype scan_result = ScanReturn | ScanNone | ScanMerged nat resource_range

fun merge_scan :: "nat \<Rightarrow> extent_record \<Rightarrow> nat \<Rightarrow> extents \<Rightarrow> scan_result" where
  "merge_scan anchor_slot anchor idx [] = ScanNone"
| "merge_scan anchor_slot anchor idx (None # xs) = merge_scan anchor_slot anchor (Suc idx) xs"
| "merge_scan anchor_slot anchor idx (Some cand # xs) =
     (if idx = anchor_slot then merge_scan anchor_slot anchor (Suc idx) xs
      else if ex_member cand \<noteq> ex_member anchor \<or> ex_disposition cand \<noteq> Free
        then merge_scan anchor_slot anchor (Suc idx) xs
      else case merged_range (ex_range anchor) (ex_range cand) of
        None \<Rightarrow> ScanReturn
      | Some None \<Rightarrow> merge_scan anchor_slot anchor (Suc idx) xs
      | Some (Some rng) \<Rightarrow> ScanMerged idx rng)"

lemma merge_scan_MergedD:
  "merge_scan k anchor idx xs = ScanMerged i rng \<Longrightarrow>
     idx \<le> i \<and> i < idx + length xs \<and> i \<noteq> k
     \<and> (\<exists>cand. xs ! (i - idx) = Some cand \<and> ex_member cand = ex_member anchor
          \<and> ex_disposition cand = Free
          \<and> merged_range (ex_range anchor) (ex_range cand) = Some (Some rng))"
proof (induction k anchor idx xs rule: merge_scan.induct)
  case (2 k anchor idx xs)
  then show ?case by (auto simp: nth_Cons' Suc_le_eq)
next
  case (3 k anchor idx cand xs)
  show ?case
  proof (cases "idx = k \<or> ex_member cand \<noteq> ex_member anchor \<or> ex_disposition cand \<noteq> Free
      \<or> merged_range (ex_range anchor) (ex_range cand) = Some None")
    case True
    then have rec: "merge_scan k anchor (Suc idx) xs = ScanMerged i rng"
      using "3.prems" by (auto split: if_splits)
    have "Suc idx \<le> i \<and> i < Suc idx + length xs \<and> i \<noteq> k
      \<and> (\<exists>cand. xs ! (i - Suc idx) = Some cand \<and> ex_member cand = ex_member anchor
          \<and> ex_disposition cand = Free
          \<and> merged_range (ex_range anchor) (ex_range cand) = Some (Some rng))"
      using True "3.IH"(1) [OF _ rec] "3.IH"(2) [OF _ _ rec] "3.IH"(3) [OF _ _ _ _ rec] by blast
    then show ?thesis by (auto simp: nth_Cons' Suc_le_eq)
  next
    case False
    with "3.prems" show ?thesis by (auto split: if_splits option.splits)
  qed
qed simp

function merge_free_extent_slot :: "nat \<Rightarrow> extents \<Rightarrow> extents" where
  "merge_free_extent_slot k xs =
     (if \<not> k < length xs then xs
      else case xs ! k of
        None \<Rightarrow> xs
      | Some anchor \<Rightarrow> (case merge_scan k anchor 0 xs of
          ScanReturn \<Rightarrow> xs
        | ScanNone \<Rightarrow> xs
        | ScanMerged i rng \<Rightarrow>
            merge_free_extent_slot k (xs[k := Some (anchor\<lparr>ex_range := rng\<rparr>), i := None])))"
  by pat_completeness auto

termination merge_free_extent_slot
proof (relation "measure (\<lambda>(k, xs). slot_sum (\<lambda>_. 1) xs)")
  fix k xs anchor i rng
  assume a: "\<not> \<not> k < length xs" "xs ! k = Some anchor" "merge_scan k anchor 0 xs = ScanMerged i rng"
  then obtain cand where i: "i < length xs" "i \<noteq> k" "xs ! i = Some cand"
    using merge_scan_MergedD [OF a(3)] by auto
  let ?ys = "xs[k := Some (anchor\<lparr>ex_range := rng\<rparr>)]"
  have "slot_sum (\<lambda>_. 1) ?ys + 1 = slot_sum (\<lambda>_. 1) xs + 1"
    using slot_sum_update [of k xs "\<lambda>_. 1"] a by simp
  moreover have "slot_sum (\<lambda>_. 1) (?ys[i := None]) + 1 = slot_sum (\<lambda>_. 1) ?ys"
    using slot_sum_update [of i ?ys "\<lambda>_. 1" None] i by simp
  ultimately show "((k, ?ys[i := None]), k, xs) \<in> measure (\<lambda>(k, xs). slot_sum (\<lambda>_. 1) xs)" by simp
qed simp

declare merge_free_extent_slot.simps [simp del]

definition release_extent :: "lock_outcome \<Rightarrow> pool_lease \<Rightarrow> memory_pool \<Rightarrow>
    (unit, pool_error_kind) result \<times> memory_pool" where
  "release_extent lk l p =
     (case lk of Err k \<Rightarrow> (Err (PoolSynchronizationFailure k), p) | Ok _ \<Rightarrow>
      let s = pl_state p in
     (case extent_slot_for_lease l (extents_of s) of None \<Rightarrow> (Err PoolUnknownLease, p) | Some slot \<Rightarrow>
     (case extents_of s ! slot of None \<Rightarrow> (Err PoolUnknownLease, p) | Some r \<Rightarrow>
      let xs = (extents_of s)[slot := Some (r\<lparr>ex_disposition := Free\<rparr>)];
          s' = s\<lparr>extents_of := merge_free_extent_slot slot xs,
                free_bytes := saturating_add (free_bytes s) (rr_len (ex_range r)),
                leased_bytes := saturating_sub (leased_bytes s) (rr_len (ex_range r))\<rparr>
      in (Ok (), p\<lparr>pl_state := s'\<rparr>))))"

definition lease_view :: "lock_outcome \<Rightarrow> pool_lease \<Rightarrow> memory_pool \<Rightarrow> (region, pool_error_kind) result" where
  "lease_view lk l p =
     bind_result (map_err PoolSynchronizationFailure lk) (\<lambda>_.
       if \<not> lease_is_active l (extents_of (pl_state p)) then Err PoolUnknownLease
       else bind_result (ok_or PoolUnknownLease (member_at (pl_members p) (lease_member l))) (\<lambda>m.
         map_err PoolResourceFailure (handle_subview (mem_handle m) (lease_range l))))"

section \<open>Building a pool\<close>

record pool_builder =
  b_policy :: pool_policy
  contributors :: "contributor option list"
  contributor_count :: usize

definition builder_new :: "nat \<Rightarrow> pool_policy \<Rightarrow> pool_builder" where
  "builder_new n pol = \<lparr>b_policy = pol, contributors = replicate n None, contributor_count = 0\<rparr>"

definition add_contributor :: "contributor \<Rightarrow> pool_builder \<Rightarrow>
    (unit, pool_error_kind) result \<times> pool_builder" where
  "add_contributor c b =
     (if contributor_count b \<ge> length (contributors b) then (Err PoolMetadataExhausted, b)
      else (Ok (), b\<lparr>contributors := (contributors b)[contributor_count b := Some c],
                    contributor_count := contributor_count b + 1\<rparr>))"

fun into_members :: "pool_policy \<Rightarrow> nat \<Rightarrow> contributor option list \<Rightarrow>
    (pool_member option list, pool_error_kind) result" where
  "into_members pol idx [] = Ok []"
| "into_members pol idx (None # cs) =
     bind_result (into_members pol (Suc idx) cs) (\<lambda>ms. Ok (None # ms))"
| "into_members pol idx (Some c # cs) =
     (if provisioning pol \<noteq> ReadyOnly then Err PoolUnsupportedPolicy
      else if \<not> is_ready_now (con_readiness c) then Err PoolUnsupportedPolicy
      else if idx > 4294967295 then Err PoolMetadataExhausted
      else bind_result (from_contributor idx c) (\<lambda>m.
           bind_result (into_members pol (Suc idx) cs) (\<lambda>ms. Ok (Some m # ms))))"

definition canonical_member_metadata :: "pool_member option list \<Rightarrow> bool \<Rightarrow>
    (compatibility_envelope \<times> nat option \<times> nat option, pool_error_kind) result" where
  "canonical_member_metadata ms allow_cross =
     (case flatten ms of
        [] \<Rightarrow> Err PoolInvalidRequest
      | first # rest \<Rightarrow>
         if (\<exists>m \<in> set rest. compatibility m \<noteq> compatibility first \<or> pool_class m \<noteq> pool_class first
               \<or> \<not> allow_cross \<and> topology_node m \<noteq> topology_node first)
         then Err PoolIncompatibleContributor
         else Ok (compatibility first, topology_node first, pool_class first))"

fun seed_members :: "nat \<Rightarrow> pool_member option list \<Rightarrow> pool_state \<Rightarrow> (pool_state, pool_error_kind) result" where
  "seed_members idx [] s = Ok s"
| "seed_members idx (None # ms) s = seed_members (Suc idx) ms s"
| "seed_members idx (Some m # ms) s =
     bind_result (ok_or PoolMetadataExhausted (first_vacant_slot (extents_of s))) (\<lambda>slot.
       seed_members (Suc idx) ms
         (s\<lparr>extents_of := (extents_of s)[slot := Some \<lparr>ex_member = idx, ex_range = usable_range m,
                ex_disposition = Free\<rparr>],
            free_bytes := saturating_add (free_bytes s) (rr_len (usable_range m))\<rparr>))"

definition from_builder :: "nat \<Rightarrow> pool_builder \<Rightarrow> (memory_pool, pool_error_kind) result" where
  "from_builder extent_slots b =
     (if contributor_count b = 0 then Err PoolInvalidRequest
      else if contributor_count b > extent_slots then Err PoolMetadataExhausted
      else bind_result (into_members (b_policy b) 0 (contributors b)) (\<lambda>ms.
           bind_result (canonical_member_metadata ms (allow_cross_topology (b_policy b)))
             (\<lambda>(compat, topo, cls).
           bind_result (seed_members 0 ms (pool_state_new extent_slots)) (\<lambda>s.
             Ok \<lparr>pl_policy = b_policy b, pl_compatibility = compat, pl_topology_node = topo,
                 pl_pool_class = cls, pl_members = ms, pl_state = s\<rparr>))))"

end
