(* ===== verification/Mem_Pool_Correct.thy ===== *)
theory Mem_Pool_Correct
  imports Mem_Pool
begin

text \<open>
  Correctness of the memory pool. The extent table is read as a function from bytes to the
  number of records that cover them; the invariant says that this number is one on the usable
  range of every member and zero elsewhere, that the byte counters are the sums of the record
  lengths, that lease identifiers are never shared or reissued, and that no two adjacent free
  extents are left unmerged.
\<close>

section \<open>Reading the extent table\<close>

abbreviation r_start :: "extent_record \<Rightarrow> usize" where "r_start r \<equiv> rr_offset (ex_range r)"
abbreviation r_len :: "extent_record \<Rightarrow> usize" where "r_len r \<equiv> rr_len (ex_range r)"
abbreviation r_end :: "extent_record \<Rightarrow> usize" where "r_end r \<equiv> r_start r + r_len r"

definition in_range :: "resource_range \<Rightarrow> nat \<Rightarrow> bool" where
  "in_range rng b \<longleftrightarrow> rr_offset rng \<le> b \<and> b < rr_offset rng + rr_len rng"

definition cover :: "nat \<Rightarrow> nat \<Rightarrow> extent_record \<Rightarrow> nat" where
  "cover m b r = of_bool (ex_member r = m \<and> in_range (ex_range r) b)"

definition free_len :: "extent_record \<Rightarrow> nat" where
  "free_len r = (if ex_disposition r = Free then r_len r else 0)"

definition leased_len :: "extent_record \<Rightarrow> nat" where
  "leased_len r = (if ex_disposition r = Free then 0 else r_len r)"

definition holds_lease :: "u64 \<Rightarrow> extent_record \<Rightarrow> nat" where
  "holds_lease i r = of_bool (ex_disposition r = Leased i)"

definition status_cover :: "nat \<Rightarrow> nat \<Rightarrow> extent_disposition \<Rightarrow> extent_record \<Rightarrow> nat" where
  "status_cover m b d r = of_bool (ex_member r = m \<and> in_range (ex_range r) b \<and> ex_disposition r = d)"

definition usable_at :: "pool_member option list \<Rightarrow> nat \<Rightarrow> nat \<Rightarrow> bool" where
  "usable_at ms m b = (case member_at ms m of None \<Rightarrow> False | Some x \<Rightarrow> in_range (usable_range x) b)"

definition table_inv :: "pool_member option list \<Rightarrow> extents \<Rightarrow> bool" where
  "table_inv ms xs \<longleftrightarrow> (\<forall>m b. slot_sum (cover m b) xs = of_bool (usable_at ms m b))
     \<and> (\<forall>r. Some r \<in> set xs \<longrightarrow> 0 < r_len r)"

definition members_ok :: "pool_member option list \<Rightarrow> bool" where
  "members_ok ms \<longleftrightarrow> (\<forall>i m. member_at ms i = Some m \<longrightarrow> mem_id m = i
     \<and> (\<exists>reg. handle_subview (mem_handle m) (usable_range m) = Ok reg))"

definition adjacent :: "extent_record \<Rightarrow> extent_record \<Rightarrow> bool" where
  "adjacent r r' \<longleftrightarrow> ex_member r = ex_member r' \<and> (r_end r = r_start r' \<or> r_end r' = r_start r)"

definition coalesced_except :: "nat set \<Rightarrow> extents \<Rightarrow> bool" where
  "coalesced_except S xs \<longleftrightarrow> (\<forall>i j r r'. i < length xs \<and> j < length xs \<and> i \<noteq> j \<and> i \<notin> S \<and> j \<notin> S
     \<and> xs ! i = Some r \<and> xs ! j = Some r' \<and> ex_disposition r = Free \<and> ex_disposition r' = Free
     \<longrightarrow> \<not> adjacent r r')"

abbreviation coalesced :: "extents \<Rightarrow> bool" where "coalesced xs \<equiv> coalesced_except {} xs"

definition issued :: "u64 \<Rightarrow> u64 \<Rightarrow> bool" where
  "issued next i \<longleftrightarrow> 1 \<le> i \<and> i \<le> u64_max \<and> (next = 0 \<or> i < next)"

definition lease_inv :: "u64 \<Rightarrow> extents \<Rightarrow> bool" where
  "lease_inv next xs \<longleftrightarrow> next \<le> u64_max \<and> (\<forall>i. slot_sum (holds_lease i) xs \<le> of_bool (issued next i))"

text \<open>The records a freshly built pool starts with, one per member.\<close>

fun seed_records :: "nat \<Rightarrow> pool_member option list \<Rightarrow> extent_record list" where
  "seed_records idx [] = []"
| "seed_records idx (None # ms) = seed_records (Suc idx) ms"
| "seed_records idx (Some m # ms) =
     \<lparr>ex_member = idx, ex_range = usable_range m, ex_disposition = Free\<rparr> # seed_records (Suc idx) ms"

text \<open>The capacity of the members, which the byte counter of the pool must be able to hold.\<close>

definition total_capacity :: "pool_member option list \<Rightarrow> nat" where
  "total_capacity ms = sum_list (map r_len (seed_records 0 ms))"

definition state_inv :: "pool_member option list \<Rightarrow> pool_state \<Rightarrow> bool" where
  "state_inv ms s \<longleftrightarrow> table_inv ms (extents_of s) \<and> coalesced (extents_of s)
     \<and> free_bytes s = slot_sum free_len (extents_of s)
     \<and> leased_bytes s = slot_sum leased_len (extents_of s)
     \<and> slot_sum r_len (extents_of s) = total_capacity ms \<and> total_capacity ms \<le> usize_max
     \<and> lease_inv (next_lease_id s) (extents_of s)"

definition pool_inv :: "memory_pool \<Rightarrow> bool" where
  "pool_inv p \<longleftrightarrow> members_ok (pl_members p) \<and> state_inv (pl_members p) (pl_state p)"

lemma slot_sum_len: "slot_sum r_len xs = slot_sum free_len xs + slot_sum leased_len xs"
proof (induction xs)
  case (Cons x xs)
  then show ?case by (cases x) (auto simp: free_len_def leased_len_def)
qed simp

lemma member_bounds:
  assumes "members_ok ms" and "member_at ms i = Some m"
  shows "rr_offset (usable_range m) + rr_len (usable_range m) \<le> usize_max"
    and "rr_offset (usable_range m) + rr_len (usable_range m) \<le> rg_len (inf_range (handle_info (mem_handle m)))"
    and "0 < rr_len (usable_range m)"
  using assms by (auto simp: members_ok_def handle_subview_def view_subrange_Ok_iff region_subrange_Ok_iff)

text \<open>Every record lies in the usable range of its member.\<close>

lemma table_record:
  assumes inv: "table_inv ms xs" and r: "Some r \<in> set xs"
  obtains m where "member_at ms (ex_member r) = Some m"
    and "rr_offset (usable_range m) \<le> r_start r"
    and "r_end r \<le> rr_offset (usable_range m) + rr_len (usable_range m)"
    and "0 < r_len r"
proof -
  have pos: "0 < r_len r" using inv r by (simp add: table_inv_def)
  have us: "usable_at ms (ex_member r) b" if "in_range (ex_range r) b" for b
  proof -
    have "0 < slot_sum (cover (ex_member r) b) xs"
      unfolding slot_sum_pos_iff using r that by (auto simp: cover_def)
    then show ?thesis using inv by (simp add: table_inv_def split: if_splits)
  qed
  have "usable_at ms (ex_member r) (r_start r)" "usable_at ms (ex_member r) (r_end r - 1)"
    using us pos by (auto simp: in_range_def)
  with pos that show thesis
    by (cases "member_at ms (ex_member r)") (auto simp: usable_at_def in_range_def)
qed

lemma table_disjoint:
  assumes inv: "table_inv ms xs" and ij: "i < length xs" "j < length xs" "i \<noteq> j"
    and r: "xs ! i = Some r" "xs ! j = Some r'" "ex_member r = ex_member r'"
  shows "r_end r \<le> r_start r' \<or> r_end r' \<le> r_start r"
proof (rule ccontr)
  assume no: "\<not> ?thesis"
  let ?b = "max (r_start r) (r_start r')"
  have "0 < r_len r" "0 < r_len r'"
    using inv ij r unfolding table_inv_def by (metis nth_mem)+
  then have "cover (ex_member r) ?b r = 1" "cover (ex_member r) ?b r' = 1"
    using no r(3) by (auto simp: cover_def in_range_def max_def)
  then have "2 \<le> slot_sum (cover (ex_member r) ?b) xs"
    using slot_sum_two_le [OF ij, of "cover (ex_member r) ?b"] r by simp
  moreover have "slot_sum (cover (ex_member r) ?b) xs \<le> 1"
    using inv by (simp add: table_inv_def)
  ultimately show False by simp
qed

section \<open>Candidates\<close>

lemma aligned_allocation_SomeD:
  assumes "aligned_allocation p mi free req = Some a"
  obtains m where "member_at (pl_members p) mi = Some m"
    and "rr_offset free \<le> rr_offset a" and "rr_offset a + rr_len a \<le> rr_offset free + rr_len free"
    and "rr_len a = req_len req" and "req_align req dvd handle_base (mem_handle m) + rr_offset a"
    and "rr_offset a < rr_offset free + req_align req"
    and "handle_base (mem_handle m) + rr_offset a \<le> usize_max"
proof -
  from assms obtain m st al where m: "member_at (pl_members p) mi = Some m"
    and st: "st = handle_base (mem_handle m) + rr_offset free"
    and al: "align_up st (req_align req) = Some al"
    and a: "a = range_new (rr_offset free + (al - st)) (req_len req)"
    and len: "al - st \<le> rr_len free" "req_len req \<le> rr_len free - (al - st)"
    by (auto simp: aligned_allocation_def checked_iffs split: option.splits if_splits)
  note u = align_up_SomeD [OF al]
  have "handle_base (mem_handle m) + rr_offset a = al" using u(4) a st by simp
  then show thesis using that [OF m] u a len st by auto
qed

text \<open>
  Conversely, a free range with an aligned sub-range of the requested length gives an
  allocation, as long as rounding up stays inside the address space.
\<close>

lemma aligned_allocation_exists:
  assumes m: "member_at (pl_members p) mi = Some m" and pw: "is_power_of_two (req_align req)"
    and bound: "handle_base (mem_handle m) + rr_offset free + rr_len free + req_align req \<le> usize_max + 1"
    and off: "rr_offset free \<le> off" "off + req_len req \<le> rr_offset free + rr_len free"
    and al: "req_align req dvd handle_base (mem_handle m) + off"
  shows "aligned_allocation p mi free req \<noteq> None"
proof -
  let ?st = "handle_base (mem_handle m) + rr_offset free"
  let ?a = "req_align req"
  let ?up = "(?st + (?a - 1)) div ?a * ?a"
  have pos: "0 < ?a" using pw by (rule is_power_of_two_pos)
  have st: "?st + (?a - 1) \<le> usize_max" using bound pos by linarith
  have up: "align_up ?st ?a = Some ?up" using pw st by (simp add: align_up_eq)
  have "(?st + (?a - 1)) div ?a \<le> (handle_base (mem_handle m) + off + (?a - 1)) div ?a"
    using off(1) by (intro div_le_mono) simp
  then have le: "?up \<le> handle_base (mem_handle m) + off"
    using round_up_multiple [OF pos al] mult_le_mono1 by metis
  obtain up where U: "align_up ?st ?a = Some up" "?st \<le> up" "up \<le> handle_base (mem_handle m) + off"
    using up le round_up_bounds(1) [OF pos, of ?st] by blast
  have d: "rr_offset free + (up - ?st) \<le> off" using U(3) off(1) by linarith
  have "rr_offset free + (up - ?st) \<le> usize_max" using d off(2) bound pos by linarith
  moreover have "(up - ?st) + req_len req \<le> rr_len free" using d off(2) by linarith
  moreover from this have "up - ?st \<le> rr_len free" "req_len req \<le> rr_len free - (up - ?st)"
    by linarith+
  ultimately
  show ?thesis using U m st by (simp add: aligned_allocation_def checked_add_def checked_sub_def)
qed

lemma candidate_of_total:
  assumes "rr_offset (ex_range r) \<le> rr_offset a" and "rr_offset a + rr_len a \<le> r_end r"
    and "r_end r \<le> usize_max"
  shows "\<exists>c. candidate_of i r a = Some c \<and> slot_index c = i \<and> cand_member c = ex_member r
     \<and> allocation c = a"
  using assms by (auto simp: candidate_of_def checked_add_def checked_sub_def split: option.splits)

text \<open>The candidates of a table, whatever order they are visited in.\<close>

definition is_candidate :: "memory_pool \<Rightarrow> extent_request \<Rightarrow> nat \<Rightarrow> extents \<Rightarrow> allocation_candidate \<Rightarrow> bool" where
  "is_candidate p req idx xs c \<longleftrightarrow> (\<exists>i r a. i < length xs \<and> xs ! i = Some r \<and> ex_disposition r = Free
     \<and> aligned_allocation p (ex_member r) (ex_range r) req = Some a
     \<and> candidate_of (idx + i) r a = Some c)"

definition bounded_table :: "extents \<Rightarrow> bool" where
  "bounded_table xs \<longleftrightarrow> (\<forall>r. Some r \<in> set xs \<longrightarrow> r_end r \<le> usize_max)"

lemma is_candidate_Cons:
  "is_candidate p req idx (x # xs) c \<longleftrightarrow>
     (\<exists>r a. x = Some r \<and> ex_disposition r = Free
        \<and> aligned_allocation p (ex_member r) (ex_range r) req = Some a \<and> candidate_of idx r a = Some c)
     \<or> is_candidate p req (Suc idx) xs c"
  by (auto simp: is_candidate_def less_Suc_eq_0_disj)

lemma find_candidate_loop_spec:
  assumes "bounded_table xs" and "find_candidate_loop p req idx xs best = out"
  shows "(\<forall>c. out = Some c \<longrightarrow> is_candidate p req idx xs c \<or> best = Some c)
    \<and> (\<forall>c'. is_candidate p req idx xs c' \<or> best = Some c' \<longrightarrow> (\<exists>c. out = Some c
          \<and> candidate_key (prefers_tight_front_allocation p) c
              \<le> candidate_key (prefers_tight_front_allocation p) c'))"
  using assms
proof (induction p req idx xs best rule: find_candidate_loop.induct)
  case (1 p req idx best)
  then show ?case by (auto simp: is_candidate_def)
next
  case (2 p req idx xs best)
  then show ?case by (auto simp: is_candidate_Cons bounded_table_def)
next
  case (3 p req idx r xs best)
  have b: "bounded_table xs" using "3.prems" by (simp add: bounded_table_def)
  show ?case
  proof (cases "ex_disposition r = Free \<and> aligned_allocation p (ex_member r) (ex_range r) req \<noteq> None")
    case False
    then show ?thesis using "3.IH"(1) [OF _ b] "3.IH"(2) [OF _ _ b] "3.prems"(2)
      by (auto simp: is_candidate_Cons split: if_splits)
  next
    case True
    then obtain a where a: "ex_disposition r = Free"
      "aligned_allocation p (ex_member r) (ex_range r) req = Some a" by blast
    have "r_end r \<le> usize_max" using "3.prems"(1) by (simp add: bounded_table_def)
    with a(2) obtain c where c: "candidate_of idx r a = Some c"
      by (metis aligned_allocation_SomeD candidate_of_total)
    let ?best = "if is_better_candidate best c (prefers_tight_front_allocation p) then Some c else best"
    have run: "find_candidate_loop p req (Suc idx) xs ?best = out" using "3.prems"(2) a c by simp
    have ih: "(\<forall>c. out = Some c \<longrightarrow> is_candidate p req (Suc idx) xs c \<or> ?best = Some c)
      \<and> (\<forall>c'. is_candidate p req (Suc idx) xs c' \<or> ?best = Some c' \<longrightarrow> (\<exists>c. out = Some c
          \<and> candidate_key (prefers_tight_front_allocation p) c
              \<le> candidate_key (prefers_tight_front_allocation p) c'))"
      using "3.IH"(3) [OF _ a(2) c b run] a(1) by blast
    have better: "\<exists>d. ?best = Some d \<and> candidate_key (prefers_tight_front_allocation p) d
        \<le> candidate_key (prefers_tight_front_allocation p) c'"
      if "c' = c \<or> best = Some c'" for c'
      using that by (auto simp: is_better_candidate_def not_less less_imp_le split: option.splits)
    show ?thesis
    proof (intro conjI allI impI)
      show "is_candidate p req idx (Some r # xs) d \<or> best = Some d" if "out = Some d" for d
        using ih that a c by (auto simp: is_candidate_Cons split: if_splits)
    next
      fix c' assume "is_candidate p req idx (Some r # xs) c' \<or> best = Some c'"
      then have "is_candidate p req (Suc idx) xs c' \<or> c' = c \<or> best = Some c'"
        using a c by (auto simp: is_candidate_Cons)
      then show "\<exists>c. out = Some c \<and> candidate_key (prefers_tight_front_allocation p) c
              \<le> candidate_key (prefers_tight_front_allocation p) c'"
      proof
        assume "c' = c \<or> best = Some c'"
        then obtain d where d: "?best = Some d" "candidate_key (prefers_tight_front_allocation p) d
            \<le> candidate_key (prefers_tight_front_allocation p) c'" using better by blast
        then obtain e where "out = Some e" "candidate_key (prefers_tight_front_allocation p) e
            \<le> candidate_key (prefers_tight_front_allocation p) d" using ih by blast
        with d(2) show ?thesis using order_trans by blast
      qed (use ih in blast)
    qed
  qed
qed

section \<open>Vacant slots and the split\<close>

lemma vacant_scan_one:
  assumes "vacant_scan needed (Some k) idx xs found slots = Some out" and "Suc found = needed"
  shows "\<exists>i. idx \<le> i \<and> i < idx + length xs \<and> i \<noteq> k \<and> xs ! (i - idx) = None
           \<and> out = slots[found := Some i]"
  using assms
proof (induction xs arbitrary: idx)
  case (Cons x xs)
  show ?case
  proof (cases "idx \<noteq> k \<and> x = None")
    case True
    with Cons.prems show ?thesis by (intro exI [of _ idx]) (auto simp: Let_def)
  next
    case False
    then have "vacant_scan needed (Some k) (Suc idx) xs found slots = Some out"
      using Cons.prems by (auto split: if_splits)
    from Cons.IH [OF this Cons.prems(2)] obtain i where
      "Suc idx \<le> i" "i < Suc idx + length xs" "i \<noteq> k" "xs ! (i - Suc idx) = None"
      "out = slots[found := Some i]" by blast
    then show ?thesis by (intro exI [of _ i]) (auto simp: nth_Cons' Suc_le_eq)
  qed
qed simp

lemma vacant_scan_two:
  assumes "vacant_scan needed (Some k) idx xs found slots = Some out" and "Suc (Suc found) = needed"
  shows "\<exists>i j. idx \<le> i \<and> i < j \<and> j < idx + length xs \<and> i \<noteq> k \<and> j \<noteq> k \<and> xs ! (i - idx) = None
           \<and> xs ! (j - idx) = None \<and> out = slots[found := Some i, Suc found := Some j]"
  using assms
proof (induction xs arbitrary: idx)
  case (Cons x xs)
  show ?case
  proof (cases "idx \<noteq> k \<and> x = None")
    case True
    then have "vacant_scan needed (Some k) (Suc idx) xs (Suc found) (slots[found := Some idx]) = Some out"
      using Cons.prems by (auto simp: Let_def)
    from vacant_scan_one [OF this Cons.prems(2)] obtain j where
      "Suc idx \<le> j" "j < Suc idx + length xs" "j \<noteq> k" "xs ! (j - Suc idx) = None"
      "out = slots[found := Some idx, Suc found := Some j]" by blast
    with True show ?thesis by (intro exI [of _ idx] exI [of _ j]) (auto simp: nth_Cons' Suc_le_eq)
  next
    case False
    then have "vacant_scan needed (Some k) (Suc idx) xs found slots = Some out"
      using Cons.prems by (auto split: if_splits)
    from Cons.IH [OF this Cons.prems(2)] obtain i j where
      "Suc idx \<le> i" "i < j" "j < Suc idx + length xs" "i \<noteq> k" "j \<noteq> k" "xs ! (i - Suc idx) = None"
      "xs ! (j - Suc idx) = None" "out = slots[found := Some i, Suc found := Some j]" by blast
    then show ?thesis by (intro exI [of _ i] exI [of _ j]) (auto simp: nth_Cons' Suc_le_eq)
  qed
qed simp

text \<open>The table after a split: the slots written and what they held.\<close>

definition opt_write :: "nat option \<Rightarrow> 'a option \<Rightarrow> 'a option list \<Rightarrow> 'a option list" where
  "opt_write i v xs = (case i of None \<Rightarrow> xs | Some j \<Rightarrow> xs[j := v])"

lemma length_opt_write [simp]: "length (opt_write i v xs) = length xs"
  by (simp add: opt_write_def split: option.split)

definition prefix_record :: "extent_record \<Rightarrow> resource_range \<Rightarrow> extent_record" where
  "prefix_record f a = \<lparr>ex_member = ex_member f,
     ex_range = range_new (r_start f) (rr_offset a - r_start f), ex_disposition = Free\<rparr>"

definition suffix_record :: "extent_record \<Rightarrow> resource_range \<Rightarrow> extent_record" where
  "suffix_record f a = \<lparr>ex_member = ex_member f,
     ex_range = range_new (rr_offset a + rr_len a) (r_end f - (rr_offset a + rr_len a)),
     ex_disposition = Free\<rparr>"

definition lease_record :: "extent_record \<Rightarrow> resource_range \<Rightarrow> u64 \<Rightarrow> extent_record" where
  "lease_record f a i = \<lparr>ex_member = ex_member f, ex_range = a, ex_disposition = Leased i\<rparr>"

definition split_slots :: "nat \<Rightarrow> extent_record \<Rightarrow> resource_range \<Rightarrow> nat option \<Rightarrow> nat option \<Rightarrow>
    extents \<Rightarrow> bool" where
  "split_slots k f a i j xs \<longleftrightarrow> k < length xs \<and> xs ! k = Some f
     \<and> r_start f \<le> rr_offset a \<and> rr_offset a + rr_len a \<le> r_end f
     \<and> (i \<noteq> None \<longleftrightarrow> r_len (prefix_record f a) \<noteq> 0) \<and> (j \<noteq> None \<longleftrightarrow> r_len (suffix_record f a) \<noteq> 0)
     \<and> (\<forall>n. i = Some n \<or> j = Some n \<longrightarrow> n < length xs \<and> n \<noteq> k \<and> xs ! n = None)
     \<and> (\<forall>n. i = Some n \<longrightarrow> j \<noteq> Some n)"

definition split_table :: "nat \<Rightarrow> extent_record \<Rightarrow> resource_range \<Rightarrow> u64 \<Rightarrow> nat option \<Rightarrow> nat option \<Rightarrow>
    extents \<Rightarrow> extents" where
  "split_table k f a lid i j xs =
     opt_write j (Some (suffix_record f a)) (opt_write i (Some (prefix_record f a))
       (xs[k := Some (lease_record f a lid)]))"

text \<open>Under the checked arithmetic and with the vacant slots found, the writes are that split.\<close>

lemma write_split_eq:
  assumes sp: "split_lengths a (ex_range f) = Ok (pl, so, sl)"
    and vs: "vacant_slots_excluding (of_bool (pl \<noteq> 0) + of_bool (sl \<noteq> 0)) (Some k) xs = Some extra"
    and k: "k < length xs" "xs ! k = Some f"
  shows "\<exists>i j. split_slots k f a i j xs
     \<and> write_split k f a lid pl so sl extra xs = (Ok (), split_table k f a lid i j xs)"
proof -
  have sp': "r_start f \<le> rr_offset a" "rr_offset a + rr_len a \<le> r_end f"
      "pl = r_len (prefix_record f a)" "sl = r_len (suffix_record f a)" "so = rr_offset a + rr_len a"
    using sp by (auto simp: split_lengths_def bind_result_Ok_iff checked_iffs prefix_record_def
        suffix_record_def)
  have recs: "\<lparr>ex_member = ex_member f, ex_range = range_new (r_start f) pl, ex_disposition = Free\<rparr>
        = prefix_record f a"
      "\<lparr>ex_member = ex_member f, ex_range = range_new so sl, ex_disposition = Free\<rparr> = suffix_record f a"
      "\<lparr>ex_member = ex_member f, ex_range = a, ex_disposition = Leased lid\<rparr> = lease_record f a lid"
    using sp'(3-5) by (simp_all add: prefix_record_def suffix_record_def lease_record_def)
  note ws = write_split_def [of k f a lid pl so sl extra xs, unfolded recs]
  consider "pl = 0" "sl = 0" | "pl \<noteq> 0" "sl = 0" | "pl = 0" "sl \<noteq> 0" | "pl \<noteq> 0" "sl \<noteq> 0" by blast
  then show ?thesis
  proof cases
    case 1
    then show ?thesis using k sp' unfolding ws
      by (intro exI [of _ None]) (simp add: split_slots_def split_table_def opt_write_def)
  next
    case 2
    with vs obtain i where "i < length xs" "i \<noteq> k" "xs ! i = None" "extra = [Some i, None]"
      by (auto simp: vacant_slots_excluding_def dest!: vacant_scan_one)
    then show ?thesis using 2 k sp' unfolding ws
      by (intro exI [of _ "Some i"] exI [of _ None])
        (simp add: split_slots_def split_table_def opt_write_def)
  next
    case 3
    with vs obtain i where "i < length xs" "i \<noteq> k" "xs ! i = None" "extra = [Some i, None]"
      by (auto simp: vacant_slots_excluding_def dest!: vacant_scan_one)
    then show ?thesis using 3 k sp' unfolding ws
      by (intro exI [of _ None] exI [of _ "Some i"])
        (simp add: split_slots_def split_table_def opt_write_def)
  next
    case 4
    with vs obtain i j where "i < j" "j < length xs" "i \<noteq> k" "j \<noteq> k" "xs ! i = None" "xs ! j = None"
        "extra = [Some i, Some j]"
      by (auto simp: vacant_slots_excluding_def dest!: vacant_scan_two)
    then show ?thesis using 4 k sp' unfolding ws
      by (intro exI [of _ "Some i"] exI [of _ "Some j"])
        (auto simp: split_slots_def split_table_def opt_write_def)
  qed
qed

text \<open>Any weight of the table changes by what the split removes and adds.\<close>

lemma split_table_sum:
  assumes "split_slots k f a i j xs"
  shows "slot_sum w (split_table k f a lid i j xs) + w f = slot_sum w xs + w (lease_record f a lid)
     + (if r_len (prefix_record f a) = 0 then 0 else w (prefix_record f a))
     + (if r_len (suffix_record f a) = 0 then 0 else w (suffix_record f a))"
proof -
  let ?x1 = "xs[k := Some (lease_record f a lid)]"
  let ?x2 = "opt_write i (Some (prefix_record f a)) ?x1"
  have 1: "slot_sum w ?x1 + w f = slot_sum w xs + w (lease_record f a lid)"
    using slot_sum_update [of k xs w] assms by (simp add: split_slots_def)
  have 2: "slot_sum w ?x2 = slot_sum w ?x1
      + (if r_len (prefix_record f a) = 0 then 0 else w (prefix_record f a))"
    using slot_sum_update [of "the i" ?x1 w "Some (prefix_record f a)"] assms
    by (cases i) (auto simp: split_slots_def opt_write_def)
  have 3: "slot_sum w (split_table k f a lid i j xs) = slot_sum w ?x2
      + (if r_len (suffix_record f a) = 0 then 0 else w (suffix_record f a))"
    using slot_sum_update [of "the j" ?x2 w "Some (suffix_record f a)"] assms
    by (cases j; cases i) (auto simp: split_slots_def opt_write_def split_table_def)
  from 1 2 3 show ?thesis by simp
qed

lemmas split_records = prefix_record_def suffix_record_def lease_record_def

lemma split_table_length [simp]: "length (split_table k f a lid i j xs) = length xs"
  by (simp add: split_table_def)

lemma split_table_nth:
  assumes "split_slots k f a i j xs" and "n < length xs"
  shows "split_table k f a lid i j xs ! n =
     (if j = Some n then Some (suffix_record f a) else if i = Some n then Some (prefix_record f a)
      else if n = k then Some (lease_record f a lid) else xs ! n)"
  using assms by (cases i; cases j) (auto simp: split_table_def opt_write_def split_slots_def nth_list_update)

lemma split_table_inv:
  assumes sp: "split_slots k f a i j xs" and len: "0 < rr_len a" and inv: "table_inv ms xs"
  shows "table_inv ms (split_table k f a lid i j xs)"
  unfolding table_inv_def
proof (intro conjI allI impI)
  fix m b
  have "cover m b f = cover m b (lease_record f a lid)
      + (if r_len (prefix_record f a) = 0 then 0 else cover m b (prefix_record f a))
      + (if r_len (suffix_record f a) = 0 then 0 else cover m b (suffix_record f a))"
    using sp by (auto simp: cover_def in_range_def split_records split_slots_def of_bool_def)
  then show "slot_sum (cover m b) (split_table k f a lid i j xs) = of_bool (usable_at ms m b)"
    using split_table_sum [OF sp, of "cover m b" lid] inv by (simp add: table_inv_def)
next
  fix r assume "Some r \<in> set (split_table k f a lid i j xs)"
  then obtain n where n: "n < length xs" "split_table k f a lid i j xs ! n = Some r"
    by (metis in_set_conv_nth split_table_length)
  have "0 < r_len r" if "xs ! n = Some r" using inv that n(1) unfolding table_inv_def by (metis nth_mem)
  with n sp len show "0 < r_len r"
    by (auto simp: split_table_nth [OF sp] split_slots_def lease_record_def split: if_splits)
qed

lemma split_table_coalesced:
  assumes sp: "split_slots k f a i j xs" and len: "0 < rr_len a" and inv: "table_inv ms xs"
    and free: "ex_disposition f = Free" and co: "coalesced xs"
  shows "coalesced (split_table k f a lid i j xs)"
proof -
  have f: "k < length xs" "xs ! k = Some f" using sp by (auto simp: split_slots_def)
  have old: "\<not> adjacent (prefix_record f a) g \<and> \<not> adjacent (suffix_record f a) g"
    if g: "n < length xs" "n \<noteq> k" "xs ! n = Some g" "ex_disposition g = Free"
      and nz: "i \<noteq> None \<or> j \<noteq> None" for n g
  proof -
    have gp: "0 < r_len g" using inv g unfolding table_inv_def by (metis nth_mem)
    have "\<not> adjacent f g" using co f g free unfolding coalesced_except_def by blast
    moreover have "ex_member f = ex_member g \<Longrightarrow> r_end f \<le> r_start g \<or> r_end g \<le> r_start f"
      using table_disjoint [OF inv f(1) g(1) _ f(2) g(3)] g(2) by blast
    ultimately show ?thesis using sp len gp
      by (auto simp: adjacent_def split_records split_slots_def)
  qed
  have ps: "\<not> adjacent (prefix_record f a) (suffix_record f a)"
    using sp len by (auto simp: adjacent_def split_records split_slots_def)
  have sym: "adjacent r r' = adjacent r' r" for r r' by (auto simp: adjacent_def)
  have lease: "ex_disposition (lease_record f a lid) \<noteq> Free" by (simp add: lease_record_def)
  show ?thesis
    unfolding coalesced_except_def
  proof (intro allI impI, elim conjE)
    fix n n' r r'
    assume n: "n < length (split_table k f a lid i j xs)" "n' < length (split_table k f a lid i j xs)" "n \<noteq> n'"
      and r: "split_table k f a lid i j xs ! n = Some r" "split_table k f a lid i j xs ! n' = Some r'"
        "ex_disposition r = Free" "ex_disposition r' = Free"
    have shape: "r = suffix_record f a \<and> j = Some n \<or> r = prefix_record f a \<and> i = Some n
        \<or> xs ! n = Some r \<and> n \<noteq> k" "r' = suffix_record f a \<and> j = Some n' \<or> r' = prefix_record f a \<and> i = Some n'
        \<or> xs ! n' = Some r' \<and> n' \<noteq> k"
      using n r lease by (auto simp: split_table_nth [OF sp] split: if_splits)
    have oo: "\<not> adjacent r r'" if "xs ! n = Some r" "xs ! n' = Some r'"
      using co n r that unfolding coalesced_except_def by auto
    have on: "\<not> adjacent (prefix_record f a) r' \<and> \<not> adjacent (suffix_record f a) r'"
      if "xs ! n' = Some r'" "n' \<noteq> k" "i \<noteq> None \<or> j \<noteq> None"
      using old [of n' r'] n r that by simp
    have no: "\<not> adjacent (prefix_record f a) r \<and> \<not> adjacent (suffix_record f a) r"
      if "xs ! n = Some r" "n \<noteq> k" "i \<noteq> None \<or> j \<noteq> None"
      using old [of n r] n r that by simp
    show "\<not> adjacent r r'" using shape
    proof (elim disjE conjE)
      assume "r = suffix_record f a" "j = Some n" "r' = suffix_record f a" "j = Some n'"
      then show ?thesis using n(3) by simp
    next
      assume "r = prefix_record f a" "i = Some n" "r' = prefix_record f a" "i = Some n'"
      then show ?thesis using n(3) by simp
    qed (use oo on no ps sym in auto)
  qed
qed

lemma split_table_lease_inv:
  assumes sp: "split_slots k f a i j xs" and free: "ex_disposition f = Free"
    and inv: "lease_inv nxt xs" and nz: "nxt \<noteq> 0"
  shows "lease_inv (if nxt + 1 \<le> u64_max then nxt + 1 else 0) (split_table k f a nxt i j xs)"
proof -
  have "slot_sum (holds_lease n) (split_table k f a nxt i j xs) = slot_sum (holds_lease n) xs + of_bool (n = nxt)" for n
    using split_table_sum [OF sp, of "holds_lease n" nxt] free
    by (auto simp: holds_lease_def split_records)
  moreover have "slot_sum (holds_lease n) xs \<le> of_bool (issued nxt n)" "nxt \<le> u64_max" for n
    using inv by (auto simp: lease_inv_def)
  ultimately have "slot_sum (holds_lease n) (split_table k f a nxt i j xs)
      \<le> of_bool (issued nxt n) + of_bool (n = nxt)" for n by simp
  moreover have "of_bool (issued nxt n) + of_bool (n = nxt) \<le> (of_bool (issued (if nxt + 1 \<le> u64_max then nxt + 1 else 0) n) :: nat)" for n
    using nz inv by (auto simp: issued_def lease_inv_def of_bool_def)
  ultimately have "slot_sum (holds_lease n) (split_table k f a nxt i j xs)
      \<le> of_bool (issued (if nxt + 1 \<le> u64_max then nxt + 1 else 0) n)" for n
    by (rule order_trans)
  moreover have "(if nxt + 1 \<le> u64_max then nxt + 1 else 0) \<le> u64_max" by simp
  ultimately show ?thesis unfolding lease_inv_def by blast
qed

section \<open>Acquire\<close>

lemma bounded_table: "members_ok ms \<Longrightarrow> table_inv ms xs \<Longrightarrow> bounded_table xs"
  unfolding bounded_table_def by (metis table_record member_bounds(1) le_trans)

lemma find_candidate_SomeD:
  assumes "members_ok (pl_members p)" and "table_inv (pl_members p) (extents_of s)"
    and "find_candidate p s req = Some c"
  obtains f m where "slot_index c < length (extents_of s)" and "extents_of s ! slot_index c = Some f"
    and "ex_disposition f = Free" and "cand_member c = ex_member f"
    and "member_at (pl_members p) (ex_member f) = Some m"
    and "r_start f \<le> rr_offset (allocation c)"
    and "rr_offset (allocation c) + rr_len (allocation c) \<le> r_end f"
    and "rr_len (allocation c) = req_len req" and "r_end f \<le> usize_max"
    and "req_align req dvd handle_base (mem_handle m) + rr_offset (allocation c)"
    and "handle_base (mem_handle m) + rr_offset (allocation c) \<le> usize_max"
proof -
  have b: "bounded_table (extents_of s)" using assms(1,2) by (rule bounded_table)
  have "is_candidate p req 0 (extents_of s) c"
    using find_candidate_loop_spec [OF b] assms(3) unfolding find_candidate_def by blast
  then obtain i f a where i: "i < length (extents_of s)" "extents_of s ! i = Some f"
      "ex_disposition f = Free" "aligned_allocation p (ex_member f) (ex_range f) req = Some a"
      "candidate_of i f a = Some c"
    by (auto simp: is_candidate_def)
  from i(4) obtain m where m: "member_at (pl_members p) (ex_member f) = Some m"
      "r_start f \<le> rr_offset a" "rr_offset a + rr_len a \<le> r_end f" "rr_len a = req_len req"
      "req_align req dvd handle_base (mem_handle m) + rr_offset a"
      "handle_base (mem_handle m) + rr_offset a \<le> usize_max"
    by (rule aligned_allocation_SomeD)
  have e: "r_end f \<le> usize_max" using b i(1,2) unfolding bounded_table_def by (metis nth_mem)
  have "slot_index c = i" "cand_member c = ex_member f" "allocation c = a"
    using candidate_of_total [OF m(2,3) e, of i] i(5) by auto
  with i m e that show thesis by blast
qed

text \<open>
  The whole of \<open>acquire_extent\<close> in one case distinction: an error that leaves the table and the
  counters alone (the lease counter may have advanced), or a lease carved out of a free record.
\<close>

definition same_but_id :: "memory_pool \<Rightarrow> memory_pool \<Rightarrow> bool" where
  "same_but_id p p' \<longleftrightarrow> p' = p \<or> p' = p\<lparr>pl_state := snd (allocate_lease_id (pl_state p))\<rparr>"

definition carved :: "memory_pool \<Rightarrow> extent_request \<Rightarrow> pool_lease \<Rightarrow> memory_pool \<Rightarrow> bool" where
  "carved p req l p' \<longleftrightarrow> (\<exists>k f i j m. let s = pl_state p; a = lease_range l in
     split_slots k f a i j (extents_of s) \<and> ex_disposition f = Free \<and> 0 < rr_len a
     \<and> rr_len a = req_len req \<and> lease_member l = ex_member f
     \<and> lease_id l = next_lease_id s \<and> next_lease_id s \<noteq> 0
     \<and> member_at (pl_members p) (ex_member f) = Some m
     \<and> req_align req dvd handle_base (mem_handle m) + rr_offset a
     \<and> handle_base (mem_handle m) + rr_offset a \<le> usize_max
     \<and> p' = p\<lparr>pl_state := (snd (allocate_lease_id s))\<lparr>
           extents_of := split_table k f a (lease_id l) i j (extents_of s),
           free_bytes := saturating_sub (free_bytes s) (rr_len a),
           leased_bytes := saturating_add (leased_bytes s) (rr_len a)\<rparr>\<rparr>)"

lemma acquire_cases:
  assumes inv: "pool_inv p" and run: "acquire_extent lk req p = (res, p')"
  shows "(\<exists>e. res = Err e \<and> same_but_id p p') \<or> (\<exists>l. res = Ok l \<and> carved p req l p')"
proof -
  let ?s = "pl_state p"
  have mo: "members_ok (pl_members p)" and ti: "table_inv (pl_members p) (extents_of ?s)"
    using inv by (auto simp: pool_inv_def state_inv_def)
  show ?thesis
  proof (cases "validate_extent_request req = Ok () \<and> is_ok lk \<and> find_candidate p ?s req \<noteq> None
      \<and> next_lease_id ?s \<noteq> 0")
    case False
    then show ?thesis using run
      by (auto simp: acquire_extent_def same_but_id_def allocate_lease_id_def
          split: result.splits option.splits)
  next
    case True
    then obtain c where c: "find_candidate p ?s req = Some c" by blast
    obtain f m where f: "slot_index c < length (extents_of ?s)" "extents_of ?s ! slot_index c = Some f"
      "ex_disposition f = Free" "cand_member c = ex_member f"
      "member_at (pl_members p) (ex_member f) = Some m" "r_start f \<le> rr_offset (allocation c)"
      "rr_offset (allocation c) + rr_len (allocation c) \<le> r_end f"
      "rr_len (allocation c) = req_len req" "r_end f \<le> usize_max"
      "req_align req dvd handle_base (mem_handle m) + rr_offset (allocation c)"
      "handle_base (mem_handle m) + rr_offset (allocation c) \<le> usize_max"
      using find_candidate_SomeD [OF mo ti c] by metis
    obtain s1 where s1: "allocate_lease_id ?s = (Ok (next_lease_id ?s), s1)"
      "extents_of s1 = extents_of ?s" "free_bytes s1 = free_bytes ?s" "leased_bytes s1 = leased_bytes ?s"
      using True by (simp add: allocate_lease_id_def)
    have ok: "lk = Ok ()" "validate_extent_request req = Ok ()" using True by (cases lk; simp)+
    have pos: "0 < req_len req" using ok(2) by (auto simp: validate_extent_request_def split: if_splits)
    obtain pl so sl where sp: "split_lengths (allocation c) (ex_range f) = Ok (pl, so, sl)"
      using f by (simp add: split_lengths_def checked_add_def checked_sub_def)
    let ?vs = "vacant_slots_excluding (of_bool (pl \<noteq> 0) + of_bool (sl \<noteq> 0)) (Some (slot_index c)) (extents_of ?s)"
    show ?thesis
    proof (cases ?vs)
      case None
      then show ?thesis using run ok c f s1 sp
        by (auto simp: acquire_extent_def same_but_id_def)
    next
      case (Some extra)
      from write_split_eq [OF sp Some f(1,2)] obtain i j where ij:
        "split_slots (slot_index c) f (allocation c) i j (extents_of ?s)"
        "write_split (slot_index c) f (allocation c) (next_lease_id ?s) pl so sl extra (extents_of ?s)
           = (Ok (), split_table (slot_index c) f (allocation c) (next_lease_id ?s) i j (extents_of ?s))"
        by blast
      have mid: "pool_member_id p (cand_member c) = Ok (ex_member f)"
        using f(4,5) mo by (simp add: pool_member_id_def members_ok_def)
      have "acquire_extent lk req p = (Ok \<lparr>lease_id = next_lease_id ?s, lease_member = ex_member f,
            lease_range = allocation c\<rparr>, p\<lparr>pl_state := s1\<lparr>extents_of := split_table (slot_index c) f
              (allocation c) (next_lease_id ?s) i j (extents_of ?s),
            free_bytes := saturating_sub (free_bytes ?s) (rr_len (allocation c)),
            leased_bytes := saturating_add (leased_bytes ?s) (rr_len (allocation c))\<rparr>\<rparr>)"
        using ok c f s1 sp Some ij(2) mid by (simp add: acquire_extent_def Let_def)
      with run have r: "res = Ok \<lparr>lease_id = next_lease_id ?s, lease_member = ex_member f,
            lease_range = allocation c\<rparr>" and p': "p' = p\<lparr>pl_state := s1\<lparr>extents_of := split_table (slot_index c) f
              (allocation c) (next_lease_id ?s) i j (extents_of ?s),
            free_bytes := saturating_sub (free_bytes ?s) (rr_len (allocation c)),
            leased_bytes := saturating_add (leased_bytes ?s) (rr_len (allocation c))\<rparr>\<rparr>" by simp_all
      have "carved p req \<lparr>lease_id = next_lease_id ?s, lease_member = ex_member f,
            lease_range = allocation c\<rparr> p'"
        unfolding carved_def Let_def
        by (rule exI [of _ "slot_index c"], rule exI [of _ f], rule exI [of _ i], rule exI [of _ j],
            rule exI [of _ m]) (use ij f pos True s1 p' in simp)
      with r show ?thesis by blast
    qed
  qed
qed

lemma issued_next: "nxt \<noteq> 0 \<Longrightarrow> issued nxt i \<Longrightarrow> issued (if nxt + 1 \<le> u64_max then nxt + 1 else 0) i"
  by (auto simp: issued_def)

lemma lease_inv_next:
  assumes "lease_inv nxt xs" and "nxt \<noteq> 0"
  shows "lease_inv (if nxt + 1 \<le> u64_max then nxt + 1 else 0) xs"
  unfolding lease_inv_def
proof (intro conjI allI)
  fix i
  have "slot_sum (holds_lease i) xs \<le> of_bool (issued nxt i)" using assms(1) by (simp add: lease_inv_def)
  also have "\<dots> \<le> (of_bool (issued (if nxt + 1 \<le> u64_max then nxt + 1 else 0) i) :: nat)"
    using issued_next [OF assms(2), of i] by (simp add: of_bool_def)
  finally show "slot_sum (holds_lease i) xs \<le> of_bool (issued (if nxt + 1 \<le> u64_max then nxt + 1 else 0) i)" .
qed simp

lemma same_but_id_inv: "pool_inv p \<Longrightarrow> same_but_id p p' \<Longrightarrow> pool_inv p'"
  using lease_inv_next [of "next_lease_id (pl_state p)"]
  by (auto simp: same_but_id_def allocate_lease_id_def pool_inv_def state_inv_def)

lemma carved_inv:
  assumes inv: "pool_inv p" and c: "carved p req l p'"
  shows "pool_inv p'"
proof -
  let ?s = "pl_state p" and ?xs = "extents_of (pl_state p)" and ?a = "lease_range l"
  obtain k f i j where sp: "split_slots k f ?a i j ?xs" and f: "ex_disposition f = Free" "0 < rr_len ?a"
    and id: "lease_id l = next_lease_id ?s" "next_lease_id ?s \<noteq> 0"
    and p': "p' = p\<lparr>pl_state := (snd (allocate_lease_id ?s))\<lparr>
           extents_of := split_table k f ?a (next_lease_id ?s) i j ?xs,
           free_bytes := saturating_sub (free_bytes ?s) (rr_len ?a),
           leased_bytes := saturating_add (leased_bytes ?s) (rr_len ?a)\<rparr>\<rparr>"
    using c unfolding carved_def Let_def by metis
  let ?ys = "split_table k f ?a (next_lease_id ?s) i j ?xs"
  have parts: "r_len f = rr_len ?a + r_len (prefix_record f ?a) + r_len (suffix_record f ?a)"
    using sp by (auto simp: split_slots_def split_records)
  have w: "free_len (prefix_record f ?a) = r_len (prefix_record f ?a)"
      "free_len (suffix_record f ?a) = r_len (suffix_record f ?a)" "free_len f = r_len f"
      "free_len (lease_record f ?a n) = 0" "leased_len (prefix_record f ?a) = 0"
      "leased_len (suffix_record f ?a) = 0" "leased_len f = 0"
      "leased_len (lease_record f ?a n) = rr_len ?a" for n
    using f(1) by (simp_all add: free_len_def leased_len_def split_records)
  have free: "slot_sum free_len ?ys + rr_len ?a = slot_sum free_len ?xs"
    using split_table_sum [OF sp, of free_len "next_lease_id ?s"] parts unfolding w
    by (simp split: if_splits)
  have leased: "slot_sum leased_len ?ys = slot_sum leased_len ?xs + rr_len ?a"
    using split_table_sum [OF sp, of leased_len "next_lease_id ?s"] unfolding w by simp
  have tot: "slot_sum r_len ?ys = slot_sum r_len ?xs" using free leased by (simp add: slot_sum_len)
  have st: "state_inv (pl_members p) ?s" using inv by (simp add: pool_inv_def)
  have "saturating_sub (free_bytes ?s) (rr_len ?a) = slot_sum free_len ?ys"
    using st free by (simp add: state_inv_def saturating_sub_def)
  moreover have "saturating_add (leased_bytes ?s) (rr_len ?a) = slot_sum leased_len ?ys"
    using st leased tot by (simp add: state_inv_def saturating_add_def slot_sum_len)
  ultimately have "state_inv (pl_members p) (pl_state p')"
    using st p' id tot split_table_inv [OF sp f(2)] split_table_coalesced [OF sp f(2) _ f(1)]
      split_table_lease_inv [OF sp f(1)]
    by (auto simp: state_inv_def allocate_lease_id_def)
  then show ?thesis using inv p' by (simp add: pool_inv_def)
qed

lemma acquire_inv [inv_intros]:
  "pool_inv p \<Longrightarrow> acquire_extent lk req p = (res, p') \<Longrightarrow> pool_inv p'"
  using acquire_cases carved_inv same_but_id_inv by blast

section \<open>Coalescing\<close>

lemma merged_range_eq:
  assumes "r_end r \<le> usize_max" and "r_end c \<le> usize_max" and "r_len r + r_len c \<le> usize_max"
  shows "merged_range (ex_range r) (ex_range c) =
    (if r_end c = r_start r then Some (Some (range_new (r_start c) (r_len c + r_len r)))
     else if r_end r = r_start c then Some (Some (range_new (r_start r) (r_len r + r_len c)))
     else Some None)"
  using assms by (simp add: merged_range_def checked_add_def add.commute)

lemma merge_scan_None:
  assumes "merge_scan k anchor idx xs = ScanNone" and "i < length xs" and "idx + i \<noteq> k"
    and "xs ! i = Some c" and "ex_member c = ex_member anchor" and "ex_disposition c = Free"
  shows "merged_range (ex_range anchor) (ex_range c) = Some None"
  using assms
proof (induction k anchor idx xs arbitrary: i rule: merge_scan.induct)
  case (2 k anchor idx xs)
  then show ?case by (cases i) auto
next
  case (3 k anchor idx cand xs)
  let ?hit = "idx \<noteq> k \<and> ex_member cand = ex_member anchor \<and> ex_disposition cand = Free"
  have rec: "merge_scan k anchor (Suc idx) xs = ScanNone"
    and hit: "?hit \<Longrightarrow> merged_range (ex_range anchor) (ex_range cand) = Some None"
    using "3.prems"(1) by (auto split: if_splits option.splits)
  show ?case
  proof (cases i)
    case 0
    with "3.prems" hit show ?thesis by simp
  next
    case (Suc n)
    then have n: "n < length xs" "Suc idx + n \<noteq> k" "xs ! n = Some c" using "3.prems" by auto
    show ?thesis
    proof (cases ?hit)
      case True
      then show ?thesis using "3.IH"(3) [OF _ _ _ _ rec n "3.prems"(5,6)] hit by simp
    next
      case False
      then show ?thesis using "3.IH"(1) [OF _ rec n "3.prems"(5,6)] "3.IH"(2) [OF _ _ rec n "3.prems"(5,6)]
        by blast
    qed
  qed
qed simp

lemma merge_scan_Return:
  assumes "merge_scan k anchor idx xs = ScanReturn"
  shows "\<exists>i c. i < length xs \<and> xs ! i = Some c \<and> idx + i \<noteq> k \<and> ex_member c = ex_member anchor
     \<and> merged_range (ex_range anchor) (ex_range c) = None"
  using assms
proof (induction k anchor idx xs rule: merge_scan.induct)
  case (2 k anchor idx xs)
  then obtain i c where "i < length xs" "xs ! i = Some c" "Suc idx + i \<noteq> k"
    "ex_member c = ex_member anchor" "merged_range (ex_range anchor) (ex_range c) = None" by auto
  then show ?case by (intro exI [of _ "Suc i"] exI [of _ c]) simp
next
  case (3 k anchor idx cand xs)
  show ?case
  proof (cases "merge_scan k anchor (Suc idx) xs = ScanReturn \<and> \<not> (idx \<noteq> k \<and> ex_member cand = ex_member anchor
      \<and> ex_disposition cand = Free \<and> merged_range (ex_range anchor) (ex_range cand) = None)")
    case True
    have "\<exists>i c. i < length xs \<and> xs ! i = Some c \<and> Suc idx + i \<noteq> k \<and> ex_member c = ex_member anchor
     \<and> merged_range (ex_range anchor) (ex_range c) = None"
      using 3 True by (auto split: if_splits option.splits)
    then obtain i c where "i < length xs" "xs ! i = Some c" "Suc idx + i \<noteq> k"
      "ex_member c = ex_member anchor" "merged_range (ex_range anchor) (ex_range c) = None" by auto
    then show ?thesis by (intro exI [of _ "Suc i"] exI [of _ c]) simp
  next
    case False
    with "3.prems" show ?thesis
      by (intro exI [of _ 0] exI [of _ cand]) (auto split: if_splits option.splits)
  qed
qed simp

text \<open>What a merge keeps: every weight that is additive over adjacent free ranges.\<close>

definition merge_pre :: "pool_member option list \<Rightarrow> nat \<Rightarrow> extents \<Rightarrow> bool" where
  "merge_pre ms k xs \<longleftrightarrow> members_ok ms \<and> table_inv ms xs \<and> k < length xs
     \<and> (\<exists>r. xs ! k = Some r \<and> ex_disposition r = Free)
     \<and> slot_sum r_len xs \<le> usize_max \<and> coalesced_except {k} xs"

definition same_sums :: "extents \<Rightarrow> extents \<Rightarrow> bool" where
  "same_sums xs ys \<longleftrightarrow> length ys = length xs \<and> slot_sum free_len ys = slot_sum free_len xs
     \<and> slot_sum leased_len ys = slot_sum leased_len xs
     \<and> (\<forall>i. slot_sum (holds_lease i) ys = slot_sum (holds_lease i) xs)
     \<and> (\<forall>m b. slot_sum (cover m b) ys = slot_sum (cover m b) xs)
     \<and> (\<forall>m b d. slot_sum (status_cover m b d) ys = slot_sum (status_cover m b d) xs)"

lemma merge_step_sum:
  assumes "k < length xs" "i < length xs" "i \<noteq> k" "xs ! k = Some r" "xs ! i = Some c"
    and "w r' = w r + w c"
  shows "slot_sum w (xs[k := Some r', i := None]) = slot_sum w xs"
proof -
  have "slot_sum w (xs[k := Some r']) + w r = slot_sum w xs + w r'"
    using slot_sum_update [OF assms(1), of w "Some r'"] assms(4) by simp
  moreover have "slot_sum w (xs[k := Some r', i := None]) + w c = slot_sum w (xs[k := Some r'])"
    using slot_sum_update [of i "xs[k := Some r']" w None] assms(2,3,5) by simp
  ultimately show ?thesis using assms(6) by simp
qed

lemma merge_pre_bounds:
  assumes "merge_pre ms k xs" "xs ! k = Some r" "i < length xs" "i \<noteq> k" "xs ! i = Some c"
  shows "r_end r \<le> usize_max" "r_end c \<le> usize_max" "r_len r + r_len c \<le> usize_max"
proof -
  have "bounded_table xs" using assms(1) by (auto simp: merge_pre_def intro: bounded_table)
  then show "r_end r \<le> usize_max" "r_end c \<le> usize_max"
    using assms unfolding bounded_table_def merge_pre_def by (metis nth_mem)+
  have "r_len r + r_len c \<le> slot_sum r_len xs"
    using slot_sum_two_le [of k xs i r_len] assms by (simp add: merge_pre_def)
  then show "r_len r + r_len c \<le> usize_max" using assms(1) by (simp add: merge_pre_def)
qed

lemma coalesced_except_sub:
  assumes "coalesced_except S xs" and len: "length ys = length xs"
    and sub: "\<And>n g. n < length xs \<Longrightarrow> n \<notin> S \<Longrightarrow> ys ! n = Some g \<Longrightarrow> xs ! n = Some g"
  shows "coalesced_except S ys"
  unfolding coalesced_except_def
proof (intro allI impI, elim conjE)
  fix i j r r'
  assume a: "i < length ys" "j < length ys" "i \<noteq> j" "i \<notin> S" "j \<notin> S" "ys ! i = Some r" "ys ! j = Some r'"
    "ex_disposition r = Free" "ex_disposition r' = Free"
  then have "xs ! i = Some r" "xs ! j = Some r'" using sub len by simp_all
  then show "\<not> adjacent r r'" using assms(1) a len unfolding coalesced_except_def by metis
qed

lemma merge_step:
  assumes pre: "merge_pre ms k xs" and k: "xs ! k = Some r"
    and sc: "merge_scan k r 0 xs = ScanMerged i rng"
  shows "merge_pre ms k (xs[k := Some (r\<lparr>ex_range := rng\<rparr>), i := None])
    \<and> same_sums xs (xs[k := Some (r\<lparr>ex_range := rng\<rparr>), i := None])"
proof -
  let ?r' = "r\<lparr>ex_range := rng\<rparr>" and ?ys = "xs[k := Some (r\<lparr>ex_range := rng\<rparr>), i := None]"
  have kl: "k < length xs" and fr: "ex_disposition r = Free" using pre k by (auto simp: merge_pre_def)
  from merge_scan_MergedD [OF sc] obtain c where i: "i < length xs" "i \<noteq> k" "xs ! i = Some c"
    "ex_member c = ex_member r" "ex_disposition c = Free"
    "merged_range (ex_range r) (ex_range c) = Some (Some rng)" by auto
  note b = merge_pre_bounds [OF pre k i(1-3)]
  have rng: "rng = range_new (r_start c) (r_len c + r_len r) \<and> r_end c = r_start r
      \<or> rng = range_new (r_start r) (r_len r + r_len c) \<and> r_end r = r_start c"
    using i(6) unfolding merged_range_eq [OF b] by (auto split: if_splits)
  have ww: "w ?r' = w r + w c \<Longrightarrow> slot_sum w ?ys = slot_sum w xs" for w
    using merge_step_sum [OF kl i(1,2) k i(3)] by simp
  have cov: "cover m x ?r' = cover m x r + cover m x c" for m x
    using rng i(4) by (auto simp: cover_def in_range_def of_bool_def)
  have stat: "status_cover m x d ?r' = status_cover m x d r + status_cover m x d c" for m x d
    using rng i(4,5) fr by (auto simp: status_cover_def in_range_def of_bool_def)
  have "free_len ?r' = free_len r + free_len c" "leased_len ?r' = leased_len r + leased_len c"
      "holds_lease n ?r' = holds_lease n r + holds_lease n c" for n
    using rng fr i(5) by (auto simp: free_len_def leased_len_def holds_lease_def)
  then have sums: "same_sums xs ?ys"
    unfolding same_sums_def by (simp add: ww cov stat)
  have sub: "?ys ! n = Some g \<Longrightarrow> n \<noteq> k \<Longrightarrow> n < length xs \<Longrightarrow> xs ! n = Some g" for n g
    by (cases "n = i") auto
  have "coalesced_except {k} ?ys"
    by (rule coalesced_except_sub [of _ xs]) (use pre sub in \<open>auto simp: merge_pre_def simp del: nth_list_update\<close>)
  moreover have "table_inv ms ?ys"
  proof -
    have "0 < r_len g" if g: "Some g \<in> set ?ys" for g
    proof -
      obtain n where n: "n < length xs" "?ys ! n = Some g"
        using g unfolding in_set_conv_nth by (auto simp del: nth_list_update)
      have pos: "0 < r_len h" if "xs ! m = Some h" "m < length xs" for h m
        using pre that unfolding merge_pre_def table_inv_def by (metis nth_mem)
      show ?thesis
      proof (cases "n = k")
        case True
        then have "g = ?r'" using n i(2) kl by simp
        then show ?thesis using rng pos [OF k kl] by auto
      qed (use n sub pos in blast)
    qed
    then show ?thesis using pre sums by (simp add: table_inv_def merge_pre_def same_sums_def)
  qed
  moreover have "?ys ! k = Some ?r'" using kl i(2) by simp
  moreover have "slot_sum r_len ?ys \<le> usize_max"
    using pre sums by (simp add: merge_pre_def same_sums_def slot_sum_len)
  ultimately show ?thesis using pre sums fr kl by (simp add: merge_pre_def)
qed

lemma same_sums_trans: "same_sums xs ys \<Longrightarrow> same_sums ys zs \<Longrightarrow> same_sums xs zs"
  by (simp add: same_sums_def)

text \<open>The scan that finds nothing leaves a fully coalesced table.\<close>

lemma merge_done:
  assumes pre: "merge_pre ms k xs" and k: "xs ! k = Some r" and sc: "merge_scan k r 0 xs = ScanNone"
  shows "coalesced xs"
proof -
  have no: "\<not> adjacent r c" if "i < length xs" "i \<noteq> k" "xs ! i = Some c" "ex_disposition c = Free" for i c
  proof
    assume ad: "adjacent r c"
    note b = merge_pre_bounds [OF pre k that(1-3)]
    have "merged_range (ex_range r) (ex_range c) = Some None"
      using merge_scan_None [OF sc that(1)] that ad by (simp add: adjacent_def)
    with ad show False unfolding merged_range_eq [OF b] by (auto simp: adjacent_def split: if_splits)
  qed
  have sym: "adjacent x y = adjacent y x" for x y by (auto simp: adjacent_def)
  have old: "coalesced_except {k} xs" using pre by (simp add: merge_pre_def)
  show ?thesis
    unfolding coalesced_except_def
  proof (intro allI impI, elim conjE)
    fix i j x y
    assume a: "i < length xs" "j < length xs" "i \<noteq> j" "xs ! i = Some x" "xs ! j = Some y"
      "ex_disposition x = Free" "ex_disposition y = Free"
    show "\<not> adjacent x y"
    proof (cases "i = k \<or> j = k")
      case True
      then show ?thesis
      proof
        assume "i = k"
        then show ?thesis using a k no [of j y] by simp
      next
        assume "j = k"
        then show ?thesis using a k no [of i x] sym [of x y] by simp
      qed
    next
      case False
      then show ?thesis using old a unfolding coalesced_except_def by blast
    qed
  qed
qed

lemma merge_correct:
  "merge_pre ms k xs \<Longrightarrow> merge_pre ms k (merge_free_extent_slot k xs)
     \<and> same_sums xs (merge_free_extent_slot k xs) \<and> coalesced (merge_free_extent_slot k xs)"
proof (induction k xs rule: merge_free_extent_slot.induct)
  case (1 k xs)
  then obtain r where k: "k < length xs" "xs ! k = Some r" by (auto simp: merge_pre_def)
  show ?case
  proof (cases "merge_scan k r 0 xs")
    case ScanReturn
    from merge_scan_Return [OF this] obtain i c where c: "i < length xs" "i \<noteq> k" "xs ! i = Some c"
      and "merged_range (ex_range r) (ex_range c) = None" by auto
    moreover have "merged_range (ex_range r) (ex_range c) \<noteq> None"
      by (subst merged_range_eq [OF merge_pre_bounds [OF "1.prems" k(2) c]]) (simp split: if_splits)
    ultimately show ?thesis by simp
  next
    case ScanNone
    then have "merge_free_extent_slot k xs = xs" using k by (simp add: merge_free_extent_slot.simps)
    with merge_done [OF "1.prems" k(2) ScanNone] "1.prems" show ?thesis by (simp add: same_sums_def)
  next
    case (ScanMerged i rng)
    let ?ys = "xs[k := Some (r\<lparr>ex_range := rng\<rparr>), i := None]"
    have eq: "merge_free_extent_slot k xs = merge_free_extent_slot k ?ys"
      using k ScanMerged by (subst merge_free_extent_slot.simps) simp
    have st: "merge_pre ms k ?ys" "same_sums xs ?ys" using merge_step [OF "1.prems" k(2) ScanMerged] by auto
    then show ?thesis using "1.IH" [OF _ k(2) ScanMerged st(1)] k(1) same_sums_trans [OF st(2)]
      unfolding eq by blast
  qed
qed

section \<open>Release\<close>

abbreviation freed :: "extent_record \<Rightarrow> extent_record" where
  "freed r \<equiv> r\<lparr>ex_disposition := Free\<rparr>"

definition given_back :: "memory_pool \<Rightarrow> pool_lease \<Rightarrow> memory_pool \<Rightarrow> bool" where
  "given_back p l p' \<longleftrightarrow> (\<exists>k r. let s = pl_state p in
     k < length (extents_of s) \<and> extents_of s ! k = Some r \<and> record_is_lease l (Some r)
     \<and> p' = p\<lparr>pl_state := s\<lparr>extents_of := merge_free_extent_slot k ((extents_of s)[k := Some (freed r)]),
            free_bytes := saturating_add (free_bytes s) (r_len r),
            leased_bytes := saturating_sub (leased_bytes s) (r_len r)\<rparr>\<rparr>)"

lemma release_cases:
  assumes "release_extent lk l p = (res, p')"
  shows "(\<exists>e. res = Err e \<and> p' = p) \<or> (res = Ok () \<and> given_back p l p')"
proof (cases lk)
  case (Ok u)
  show ?thesis
  proof (cases "extent_slot_for_lease l (extents_of (pl_state p))")
    case None
    then show ?thesis using assms Ok by (auto simp: release_extent_def)
  next
    case (Some k)
    then have k: "k < length (extents_of (pl_state p))" "record_is_lease l (extents_of (pl_state p) ! k)"
      unfolding extent_slot_for_lease_def by (auto dest: position_SomeD)
    then obtain r where r: "extents_of (pl_state p) ! k = Some r"
      by (cases "extents_of (pl_state p) ! k") auto
    have "given_back p l p'" unfolding given_back_def Let_def
      by (rule exI [of _ k], rule exI [of _ r]) (use assms Ok Some k r in \<open>auto simp: release_extent_def Let_def\<close>)
    then show ?thesis using assms Ok Some r by (auto simp: release_extent_def Let_def)
  qed
qed (use assms in \<open>auto simp: release_extent_def\<close>)

lemma record_is_leaseD:
  "record_is_lease l (Some r) \<Longrightarrow> ex_disposition r = Leased (lease_id l) \<and> ex_member r = lease_member l
     \<and> ex_range r = lease_range l"
  by (simp split: extent_disposition.splits)

text \<open>Marking the leased record free moves its length between the counters.\<close>

lemma freed_sums:
  assumes "k < length xs" "xs ! k = Some r" "ex_disposition r = Leased n"
  shows "slot_sum free_len (xs[k := Some (freed r)]) = slot_sum free_len xs + r_len r"
    and "slot_sum leased_len (xs[k := Some (freed r)]) + r_len r = slot_sum leased_len xs"
    and "slot_sum (holds_lease i) (xs[k := Some (freed r)]) + of_bool (i = n) = slot_sum (holds_lease i) xs"
    and "slot_sum (cover m b) (xs[k := Some (freed r)]) = slot_sum (cover m b) xs"
proof -
  note u = slot_sum_update [OF assms(1), of _ "Some (freed r)"]
  show "slot_sum free_len (xs[k := Some (freed r)]) = slot_sum free_len xs + r_len r"
    using u [of free_len] assms by (simp add: free_len_def)
  show "slot_sum leased_len (xs[k := Some (freed r)]) + r_len r = slot_sum leased_len xs"
    using u [of leased_len] assms by (simp add: leased_len_def)
  show "slot_sum (holds_lease i) (xs[k := Some (freed r)]) + of_bool (i = n) = slot_sum (holds_lease i) xs"
    using u [of "holds_lease i"] assms by (simp add: holds_lease_def of_bool_def eq_commute split: if_splits)
  show "slot_sum (cover m b) (xs[k := Some (freed r)]) = slot_sum (cover m b) xs"
    using u [of "cover m b"] assms by (simp add: cover_def)
qed

lemma freed_merge_pre:
  assumes inv: "pool_inv p" and k: "k < length (extents_of (pl_state p))"
    "extents_of (pl_state p) ! k = Some r" "ex_disposition r = Leased n"
  shows "merge_pre (pl_members p) k ((extents_of (pl_state p))[k := Some (freed r)])"
proof -
  let ?xs = "extents_of (pl_state p)" and ?ys = "(extents_of (pl_state p))[k := Some (freed r)]"
  have inv': "table_inv (pl_members p) ?xs" "coalesced ?xs" "slot_sum r_len ?xs \<le> usize_max"
    "members_ok (pl_members p)" using inv by (auto simp: pool_inv_def state_inv_def)
  have pos: "0 < r_len g" if "Some g \<in> set ?xs" for g using inv'(1) that by (simp add: table_inv_def)
  have "table_inv (pl_members p) ?ys"
    using inv'(1) freed_sums(4) [OF k] pos k set_update_subset_insert [of ?xs k "Some (freed r)"]
    unfolding table_inv_def by (auto dest!: subsetD) (metis nth_mem)
  moreover have "slot_sum r_len ?ys \<le> usize_max"
    using inv'(3) freed_sums(1,2) [OF k] by (simp add: slot_sum_len)
  moreover have "coalesced_except {k} ?ys"
  proof (rule coalesced_except_sub)
    show "coalesced_except {k} ?xs" using inv'(2) unfolding coalesced_except_def by blast
  qed auto
  ultimately show ?thesis using inv'(4) k by (simp add: merge_pre_def)
qed

lemma given_back_inv:
  assumes inv: "pool_inv p" and gb: "given_back p l p'"
  shows "pool_inv p'"
proof -
  let ?s = "pl_state p" and ?xs = "extents_of (pl_state p)"
  obtain k r where k: "k < length ?xs" "?xs ! k = Some r" and l: "record_is_lease l (Some r)"
    and p': "p' = p\<lparr>pl_state := ?s\<lparr>extents_of := merge_free_extent_slot k (?xs[k := Some (freed r)]),
            free_bytes := saturating_add (free_bytes ?s) (r_len r),
            leased_bytes := saturating_sub (leased_bytes ?s) (r_len r)\<rparr>\<rparr>"
    using gb unfolding given_back_def Let_def by blast
  note d = record_is_leaseD [OF l]
  let ?ys = "?xs[k := Some (freed r)]"
  let ?zs = "merge_free_extent_slot k ?ys"
  have mc: "merge_pre (pl_members p) k ?zs" "same_sums ?ys ?zs" "coalesced ?zs"
    using merge_correct [OF freed_merge_pre [OF inv k conjunct1 [OF d]]] by auto
  note fs = freed_sums [OF k conjunct1 [OF d]]
  have st: "state_inv (pl_members p) ?s" using inv by (simp add: pool_inv_def)
  have tot: "slot_sum r_len ?zs = slot_sum r_len ?xs"
    using mc(2) fs(1,2) by (simp add: same_sums_def slot_sum_len)
  have "saturating_add (free_bytes ?s) (r_len r) = slot_sum free_len ?zs"
    using st mc(2) fs(1) tot by (simp add: state_inv_def saturating_add_def same_sums_def slot_sum_len)
  moreover have "saturating_sub (leased_bytes ?s) (r_len r) = slot_sum leased_len ?zs"
    using st mc(2) fs(2) by (simp add: state_inv_def saturating_sub_def same_sums_def)
  moreover have "lease_inv (next_lease_id ?s) ?zs"
  proof -
    have "slot_sum (holds_lease i) ?zs \<le> slot_sum (holds_lease i) ?xs" for i
      using mc(2) fs(3) [of i] by (simp add: same_sums_def)
    then show ?thesis using st order_trans unfolding state_inv_def lease_inv_def by blast
  qed
  ultimately have "state_inv (pl_members p) (pl_state p')"
    using mc tot st p' by (simp add: state_inv_def merge_pre_def)
  then show ?thesis using inv p' by (simp add: pool_inv_def)
qed

lemma release_inv [inv_intros]:
  "pool_inv p \<Longrightarrow> release_extent lk l p = (res, p') \<Longrightarrow> pool_inv p'"
  using release_cases given_back_inv by blast

section \<open>A built pool satisfies the invariant\<close>

lemma member_at_Nil [simp]: "member_at [] i = None"
  by (simp add: member_at_def)

lemma member_at_Cons: "member_at (x # xs) i = (if i = 0 then x else member_at xs (i - 1))"
  by (auto simp: member_at_def nth_Cons')

lemma into_members_ok:
  "into_members pol idx cs = Ok ms \<Longrightarrow> member_at ms i = Some m \<Longrightarrow>
     mem_id m = idx + i \<and> (\<exists>reg. handle_subview (mem_handle m) (usable_range m) = Ok reg)"
proof (induction pol idx cs arbitrary: ms i rule: into_members.induct)
  case (2 pol idx cs)
  then show ?case
    by (auto simp: bind_result_Ok_iff member_at_Cons split: if_splits)
next
  case (3 pol idx c cs)
  from "3.prems"(1) obtain x xs where c: "provisioning pol = ReadyOnly" "is_ready_now (con_readiness c)"
      "\<not> idx > 4294967295" and x: "from_contributor idx c = Ok x"
    and xs: "into_members pol (Suc idx) cs = Ok xs" "ms = Some x # xs"
    by (auto simp: bind_result_Ok_iff split: if_splits)
  show ?case
  proof (cases i)
    case 0
    with x xs "3.prems"(2) show ?thesis
      by (auto simp: member_at_Cons from_contributor_def bind_result_Ok_iff)
  next
    case (Suc n)
    with "3.prems"(2) xs(2) have "member_at xs n = Some m" by (simp add: member_at_Cons)
    from "3.IH" [OF _ _ c(3) xs(1) this] c Suc show ?thesis by simp
  qed
qed simp

lemma into_members_members_ok: "into_members pol 0 cs = Ok ms \<Longrightarrow> members_ok ms"
  unfolding members_ok_def using into_members_ok [of pol 0 cs ms] by simp

lemma seed_members_spec:
  "seed_members idx ms s = Ok s' \<Longrightarrow>
     slot_sum w (extents_of s') = slot_sum w (extents_of s) + sum_list (map w (seed_records idx ms))
     \<and> leased_bytes s' = leased_bytes s \<and> next_lease_id s' = next_lease_id s
     \<and> (free_bytes s + sum_list (map r_len (seed_records idx ms)) \<le> usize_max \<longrightarrow>
          free_bytes s' = free_bytes s + sum_list (map r_len (seed_records idx ms)))"
proof (induction idx ms s rule: seed_members.induct)
  case (3 idx m ms s)
  then obtain slot where slot: "first_vacant_slot (extents_of s) = Some slot"
    by (auto simp: bind_result_Ok_iff)
  then have v: "slot < length (extents_of s)" "extents_of s ! slot = None"
    by (auto simp: first_vacant_slot_def dest: position_SomeD)
  let ?rec = "\<lparr>ex_member = idx, ex_range = usable_range m, ex_disposition = Free\<rparr>"
  let ?s1 = "s\<lparr>extents_of := (extents_of s)[slot := Some ?rec],
            free_bytes := saturating_add (free_bytes s) (rr_len (usable_range m))\<rparr>"
  have run: "seed_members (Suc idx) ms ?s1 = Ok s'" using "3.prems" slot by simp
  have "slot_sum w (extents_of ?s1) = slot_sum w (extents_of s) + w ?rec"
    using slot_sum_update [OF v(1), of w "Some ?rec"] v(2) by simp
  with "3.IH" [OF run] show ?case by (auto simp: saturating_add_def)
qed auto

lemma seed_records_sum_cover:
  "sum_list (map (cover m b) (seed_records idx ms)) = of_bool (idx \<le> m \<and> usable_at ms (m - idx) b)"
proof (induction idx ms rule: seed_records.induct)
  case (1 idx)
  then show ?case by (simp add: usable_at_def)
next
  case (2 idx ms)
  then show ?case by (auto simp: usable_at_def member_at_Cons Suc_le_eq split: if_splits)
next
  case (3 idx x ms)
  then show ?case by (auto simp: usable_at_def member_at_Cons cover_def Suc_le_eq of_bool_def split: if_splits)
qed

definition has_member :: "nat \<Rightarrow> extent_record \<Rightarrow> nat" where
  "has_member m r = of_bool (ex_member r = m)"

lemma seed_records_member:
  "sum_list (map (has_member m) (seed_records idx ms)) \<le> of_bool (idx \<le> m)"
proof (induction idx ms rule: seed_records.induct)
  case (2 idx ms)
  have "(of_bool (Suc idx \<le> m) :: nat) \<le> of_bool (idx \<le> m)" by simp
  with 2 show ?case unfolding seed_records.simps by (rule order_trans)
next
  case (3 idx x ms)
  have "has_member m \<lparr>ex_member = idx, ex_range = usable_range x, ex_disposition = Free\<rparr>
      + of_bool (Suc idx \<le> m) \<le> of_bool (idx \<le> m)"
    by (simp add: has_member_def)
  with 3 show ?case unfolding seed_records.simps list.map sum_list.Cons by linarith
qed simp

lemma seed_records_Free: "r \<in> set (seed_records idx ms) \<Longrightarrow> ex_disposition r = Free
    \<and> (\<exists>i m. member_at ms i = Some m \<and> ex_range r = usable_range m)"
proof (induction idx ms rule: seed_records.induct)
  case (2 idx ms)
  then obtain i m where "member_at ms i = Some m" "ex_range r = usable_range m" by auto
  then have "member_at (None # ms) (Suc i) = Some m \<and> ex_range r = usable_range m"
    by (simp add: member_at_Cons)
  with 2 show ?case by (auto intro: exI [of _ "Suc i"])
next
  case (3 idx x ms)
  show ?case
  proof (cases "r \<in> set (seed_records (Suc idx) ms)")
    case True
    with 3 obtain i m where "member_at ms i = Some m" "ex_range r = usable_range m" "ex_disposition r = Free"
      by auto
    then show ?thesis by (intro conjI exI [of _ "Suc i"] exI [of _ m]) (simp_all add: member_at_Cons)
  next
    case False
    with "3.prems" show ?thesis by (auto simp: member_at_Cons)
  qed
qed simp

lemma coalesced_distinct_members:
  assumes "\<And>m. slot_sum (has_member m) xs \<le> 1"
  shows "coalesced xs"
  unfolding coalesced_except_def
proof (intro allI impI, elim conjE)
  fix i j r r'
  assume "i < length xs" "j < length xs" "i \<noteq> j" "xs ! i = Some r" "xs ! j = Some r'"
  then show "\<not> adjacent r r'"
    using slot_sum_two_le [of i xs j "has_member (ex_member r)"] assms [of "ex_member r"]
    by (auto simp: adjacent_def has_member_def)
qed

lemma from_builder_inv:
  assumes "from_builder n b = Ok p" and cap: "total_capacity (pl_members p) \<le> usize_max"
  shows "pool_inv p"
proof -
  from assms(1) have mem: "into_members (b_policy b) 0 (contributors b) = Ok (pl_members p)"
    and seed: "seed_members 0 (pl_members p) (pool_state_new n) = Ok (pl_state p)"
    by (auto simp: from_builder_def bind_result_Ok_iff split: if_splits)
  have mo: "members_ok (pl_members p)" using mem by (rule into_members_members_ok)
  let ?recs = "seed_records 0 (pl_members p)" and ?xs = "extents_of (pl_state p)"
  have sum: "slot_sum w ?xs = sum_list (map w ?recs)" for w
    using seed_members_spec [OF seed, of w] by (simp add: pool_state_new_def)
  have fb: "free_bytes (pl_state p) = total_capacity (pl_members p)" "leased_bytes (pl_state p) = 0"
      "next_lease_id (pl_state p) = 1"
    using seed_members_spec [OF seed] cap by (auto simp: pool_state_new_def total_capacity_def)
  have free: "ex_disposition r = Free \<and> 0 < r_len r" if "Some r \<in> set ?xs" for r
  proof -
    have "0 < slot_sum (\<lambda>x. of_bool (x = r)) ?xs" unfolding slot_sum_pos_iff using that by auto
    then have pos: "(0 :: nat) < sum_list (map (\<lambda>x. of_bool (x = r)) ?recs)" unfolding sum .
    have "r \<in> set ?recs"
    proof (rule ccontr)
      assume "r \<notin> set ?recs"
      then have "map (\<lambda>x. of_bool (x = r)) ?recs = map (\<lambda>_. 0 :: nat) ?recs" by auto
      with pos show False by simp
    qed
    then show ?thesis using seed_records_Free member_bounds(3) [OF mo] by metis
  qed
  have "table_inv (pl_members p) ?xs"
    using free by (simp add: table_inv_def sum seed_records_sum_cover)
  moreover have "coalesced ?xs"
    by (rule coalesced_distinct_members) (use seed_records_member [of _ 0 "pl_members p"] in \<open>simp add: sum\<close>)
  moreover have "slot_sum free_len ?xs = total_capacity (pl_members p)" "slot_sum leased_len ?xs = 0"
  proof -
    have "map free_len ?recs = map r_len ?recs" "map leased_len ?recs = map (\<lambda>_. 0) ?recs"
      using seed_records_Free by (auto simp: free_len_def leased_len_def)
    then show "slot_sum free_len ?xs = total_capacity (pl_members p)" "slot_sum leased_len ?xs = 0"
      unfolding sum total_capacity_def by (metis, simp)
  qed
  moreover have "slot_sum (holds_lease i) ?xs = 0" for i
    using free slot_sum_pos_iff [of "holds_lease i" ?xs] by (auto simp: holds_lease_def)
  ultimately show ?thesis using mo fb cap
    by (simp add: pool_inv_def state_inv_def lease_inv_def slot_sum_len u64_max_def)
qed

end
