(* ===== verification/Extent_Provider.thy ===== *)
theory Extent_Provider
  imports Mem_Resource
begin

text \<open>
  The interfaces between the memory layers. \<open>extent_provider\<close> is what the allocators rely on when
  they take exact extents from a pool; \<open>block_allocator\<close> is what the users of a slab or an arena
  rely on. Both are interpreted on the models of the components that provide them.
\<close>

definition region_disjoint :: "region \<Rightarrow> region \<Rightarrow> bool" where
  "region_disjoint r s \<longleftrightarrow> (\<forall>a. \<not> (rg_base r \<le> a \<and> a < rg_base r + rg_len r
     \<and> rg_base s \<le> a \<and> a < rg_base s + rg_len s))"

definition region_within :: "region \<Rightarrow> region \<Rightarrow> bool" where
  "region_within r s \<longleftrightarrow> rg_base s \<le> rg_base r \<and> rg_base r + rg_len r \<le> rg_base s + rg_len s"

lemma region_disjoint_sym: "region_disjoint r s \<longleftrightarrow> region_disjoint s r"
  by (auto simp: region_disjoint_def)

lemma region_disjoint_within:
  "region_disjoint r s \<Longrightarrow> region_within r' r \<Longrightarrow> region_within s' s \<Longrightarrow> region_disjoint r' s'"
  unfolding region_disjoint_def region_within_def by (meson le_trans less_le_trans)

datatype 'l provider_op = Get nat nat | Put 'l

locale extent_provider =
  fixes ok :: "'p \<Rightarrow> bool"
    and get :: "nat \<Rightarrow> nat \<Rightarrow> 'p \<Rightarrow> 'l option \<times> 'p"
    and put :: "'l \<Rightarrow> 'p \<Rightarrow> 'p"
    and held :: "'p \<Rightarrow> 'l \<Rightarrow> bool"
    and region_of :: "'p \<Rightarrow> 'l \<Rightarrow> region"
  assumes get_grants: "ok p \<Longrightarrow> get n a p = (Some l, p') \<Longrightarrow>
      \<not> held p l \<and> held p' l \<and> rg_len (region_of p' l) = n \<and> a dvd rg_base (region_of p' l)"
    and get_keeps: "ok p \<Longrightarrow> get n a p = (x, p') \<Longrightarrow>
      ok p' \<and> (\<forall>l. held p l \<longrightarrow> held p' l \<and> region_of p' l = region_of p l)"
    and put_keeps: "ok p \<Longrightarrow> held p l \<Longrightarrow>
      ok (put l p) \<and> (\<forall>l'. held p l' \<and> l' \<noteq> l \<longrightarrow> held (put l p) l' \<and> region_of (put l p) l' = region_of p l')"
    and held_apart: "ok p \<Longrightarrow> held p l \<Longrightarrow> held p l' \<Longrightarrow> l \<noteq> l' \<Longrightarrow>
      region_disjoint (region_of p l) (region_of p l')"
begin

text \<open>Objects placed in the extents of two different leases never overlap.\<close>

lemma objects_apart:
  assumes "ok p" "held p l" "held p l'" "l \<noteq> l'"
    and "region_within x (region_of p l)" "region_within y (region_of p l')"
  shows "region_disjoint x y"
  using region_disjoint_within held_apart assms by blast

text \<open>Other clients' calls, in any order, neither revoke nor move a lease.\<close>

fun run :: "'l provider_op list \<Rightarrow> 'p \<Rightarrow> 'p" where
  "run [] p = p"
| "run (Get n a # ops) p = run ops (snd (get n a p))"
| "run (Put l # ops) p = run ops (put l p)"

fun legal :: "'l provider_op list \<Rightarrow> 'p \<Rightarrow> bool" where
  "legal [] p = True"
| "legal (Get n a # ops) p = legal ops (snd (get n a p))"
| "legal (Put l # ops) p = (held p l \<and> legal ops (put l p))"

lemma lease_survives:
  assumes "ok p" "held p l" "legal ops p" "Put l \<notin> set ops"
  shows "ok (run ops p) \<and> held (run ops p) l \<and> region_of (run ops p) l = region_of p l"
  using assms
proof (induction ops p rule: run.induct)
  case (2 n a ops p)
  then show ?case using get_keeps [of p n a "fst (get n a p)" "snd (get n a p)"] by simp
next
  case (3 l' ops p)
  then show ?case using put_keeps [of p l'] by auto
qed simp

end

text \<open>
  A bounded allocator: live blocks lie between two bounds and do not overlap.
\<close>

definition block_region :: "nat \<times> nat \<Rightarrow> region" where
  "block_region b = \<lparr>rg_base = fst b, rg_len = snd b\<rparr>"

locale block_allocator =
  fixes inv :: "'s \<Rightarrow> bool"
    and blocks :: "'s \<Rightarrow> (nat \<times> nat) set"
    and arena_of :: "'s \<Rightarrow> region"
  assumes blocks_finite: "inv s \<Longrightarrow> finite (blocks s)"
    and blocks_within: "inv s \<Longrightarrow> b \<in> blocks s \<Longrightarrow> region_within (block_region b) (arena_of s)"
    and blocks_apart: "inv s \<Longrightarrow> b \<in> blocks s \<Longrightarrow> c \<in> blocks s \<Longrightarrow> b \<noteq> c \<Longrightarrow>
      region_disjoint (block_region b) (block_region c)"
begin

text \<open>The live blocks never add up to more than the reserved region.\<close>

lemma live_bytes_bounded:
  assumes "inv s"
  shows "(\<Sum>b\<in>blocks s. snd b) \<le> rg_len (arena_of s)"
proof -
  let ?bytes = "\<lambda>b :: nat \<times> nat. {fst b..<fst b + snd b}"
  have dis: "?bytes b \<inter> ?bytes c = {}" if "b \<in> blocks s" "c \<in> blocks s" "b \<noteq> c" for b c
    using blocks_apart [OF assms that] unfolding disjoint_iff
    by (auto simp: region_disjoint_def block_region_def)
  have "(\<Sum>b\<in>blocks s. snd b) = (\<Sum>b\<in>blocks s. card (?bytes b))" by simp
  also have "\<dots> = card (\<Union>b\<in>blocks s. ?bytes b)"
    using blocks_finite [OF assms] dis by (intro card_UN_disjoint [symmetric]) auto
  also have "\<dots> \<le> card {rg_base (arena_of s)..<rg_base (arena_of s) + rg_len (arena_of s)}"
    using blocks_within [OF assms]
    by (intro card_mono) (fastforce simp: region_within_def block_region_def)+
  finally show ?thesis by simp
qed

lemma blocks_of_disjoint_arenas:
  assumes "inv s" "inv t" "region_disjoint (arena_of s) (arena_of t)" "b \<in> blocks s" "c \<in> blocks t"
  shows "region_disjoint (block_region b) (block_region c)"
  using region_disjoint_within blocks_within assms by blast

end

end
