(* ===== verification/Mem_Pool_Props.thy ===== *)
theory Mem_Pool_Props
  imports Mem_Pool_Correct Extent_Provider
begin

text \<open>
  The pool as its callers see it: pools together with the leases handed out and not yet given
  back, stepped by every sequence of \<open>acquire_extent\<close> and \<open>release_extent\<close> calls, successful or
  not. The safety properties are read off the reachable states of this system.
\<close>

section \<open>Active leases\<close>

lemma lease_is_active_iff:
  "lease_is_active l xs \<longleftrightarrow> (\<exists>n < length xs. record_is_lease l (xs ! n))"
  by (auto simp: lease_is_active_def extent_slot_for_lease_def Bex_def in_set_conv_nth)

lemma record_is_lease_iff:
  "record_is_lease l x \<longleftrightarrow> x = Some \<lparr>ex_member = lease_member l, ex_range = lease_range l,
     ex_disposition = Leased (lease_id l)\<rparr>"
  by (cases x) (auto split: extent_disposition.splits)

lemma lease_same_id:
  assumes "lease_inv nxt xs" and "record_is_lease l (xs ! i)" "record_is_lease l' (xs ! j)"
    and "i < length xs" "j < length xs" "lease_id l = lease_id l'"
  shows "i = j"
proof (rule ccontr)
  assume "i \<noteq> j"
  have "slot_weight (holds_lease (lease_id l)) (xs ! i) = 1" "slot_weight (holds_lease (lease_id l)) (xs ! j) = 1"
    using assms(2,3,6) by (simp_all add: record_is_lease_iff holds_lease_def)
  then have "2 \<le> slot_sum (holds_lease (lease_id l)) xs"
    using slot_sum_two_le [OF assms(4,5) \<open>i \<noteq> j\<close>, of "holds_lease (lease_id l)"] by simp
  moreover have "slot_sum (holds_lease (lease_id l)) xs \<le> 1"
    using assms(1) order_trans [of _ "of_bool _" 1] unfolding lease_inv_def by (metis of_bool_less_eq_one)
  ultimately show False by simp
qed

lemma merge_keeps_leased:
  "n \<noteq> k \<Longrightarrow> n < length xs \<Longrightarrow> xs ! n = Some r \<Longrightarrow> ex_disposition r \<noteq> Free \<Longrightarrow>
     merge_free_extent_slot k xs ! n = Some r \<and> length (merge_free_extent_slot k xs) = length xs"
proof (induction k xs rule: merge_free_extent_slot.induct)
  case (1 k xs)
  show ?case
  proof (cases "k < length xs \<and> (\<exists>a i rng. xs ! k = Some a \<and> merge_scan k a 0 xs = ScanMerged i rng)")
    case False
    then have "merge_free_extent_slot k xs = xs"
      by (subst merge_free_extent_slot.simps) (auto split: option.split scan_result.split)
    then show ?thesis using "1.prems" by simp
  next
    case True
    then obtain a i rng where a: "k < length xs" "xs ! k = Some a" "merge_scan k a 0 xs = ScanMerged i rng"
      by blast
    let ?ys = "xs[k := Some (a\<lparr>ex_range := rng\<rparr>), i := None]"
    have eq: "merge_free_extent_slot k xs = merge_free_extent_slot k ?ys"
      using a by (subst merge_free_extent_slot.simps) simp
    have "n \<noteq> i" using merge_scan_MergedD [OF a(3)] "1.prems" by auto
    then have "?ys ! n = Some r" using "1.prems" by simp
    then show ?thesis using "1.IH" [OF _ a(2,3)] a(1) "1.prems" unfolding eq by simp
  qed
qed

lemma carved_active:
  assumes "carved p req l p'"
  shows "lease_is_active l (extents_of (pl_state p'))"
    and "lease_is_active l' (extents_of (pl_state p)) \<Longrightarrow> lease_is_active l' (extents_of (pl_state p'))"
proof -
  let ?xs = "extents_of (pl_state p)"
  obtain k f i j where sp: "split_slots k f (lease_range l) i j ?xs" and f: "ex_disposition f = Free"
    "lease_member l = ex_member f"
    and ys: "extents_of (pl_state p') = split_table k f (lease_range l) (lease_id l) i j ?xs"
    using assms unfolding carved_def Let_def by auto
  have "k < length ?xs" "split_table k f (lease_range l) (lease_id l) i j ?xs ! k
      = Some (lease_record f (lease_range l) (lease_id l))"
    using sp split_table_nth [OF sp, of k] by (auto simp: split_slots_def)
  then show "lease_is_active l (extents_of (pl_state p'))"
    unfolding lease_is_active_iff ys record_is_lease_iff
    by (intro exI [of _ k]) (simp add: f lease_record_def)
  assume "lease_is_active l' ?xs"
  then obtain n where n: "n < length ?xs" "record_is_lease l' (?xs ! n)" unfolding lease_is_active_iff by blast
  then have "n \<noteq> k" "i \<noteq> Some n" "j \<noteq> Some n"
    using sp f by (auto simp: record_is_lease_iff split_slots_def)
  then have "record_is_lease l' (split_table k f (lease_range l) (lease_id l) i j ?xs ! n)"
    using n split_table_nth [OF sp n(1)] by simp
  then show "lease_is_active l' (extents_of (pl_state p'))"
    unfolding lease_is_active_iff ys using n(1) by auto
qed

lemma given_back_active:
  assumes inv: "pool_inv p" and gb: "given_back p l p'"
    and act: "lease_is_active l' (extents_of (pl_state p))" and ne: "lease_id l' \<noteq> lease_id l"
  shows "lease_is_active l' (extents_of (pl_state p'))"
proof -
  let ?xs = "extents_of (pl_state p)"
  obtain k r where k: "k < length ?xs" "?xs ! k = Some r" "record_is_lease l (Some r)"
    and ys: "extents_of (pl_state p') = merge_free_extent_slot k (?xs[k := Some (freed r)])"
    using gb unfolding given_back_def Let_def by auto
  obtain n where n: "n < length ?xs" "record_is_lease l' (?xs ! n)" using act unfolding lease_is_active_iff by blast
  then have "n \<noteq> k" using k ne by (auto simp: record_is_lease_iff)
  then have "merge_free_extent_slot k (?xs[k := Some (freed r)]) ! n = ?xs ! n
      \<and> length (merge_free_extent_slot k (?xs[k := Some (freed r)])) = length ?xs"
    using merge_keeps_leased [of n k "?xs[k := Some (freed r)]"] n
    by (auto simp: record_is_lease_iff)
  then show ?thesis using n unfolding lease_is_active_iff ys by auto
qed

lemma given_back_inactive:
  assumes inv: "pool_inv p" and gb: "given_back p l p'" and l: "lease_id l' = lease_id l"
  shows "\<not> lease_is_active l' (extents_of (pl_state p'))"
proof
  assume act: "lease_is_active l' (extents_of (pl_state p'))"
  let ?xs = "extents_of (pl_state p)"
  obtain k r where k: "k < length ?xs" "?xs ! k = Some r" "record_is_lease l (Some r)"
    and ys: "extents_of (pl_state p') = merge_free_extent_slot k (?xs[k := Some (freed r)])"
    using gb unfolding given_back_def Let_def by auto
  have d: "ex_disposition r = Leased (lease_id l)" using record_is_leaseD [OF k(3)] by blast
  have "same_sums (?xs[k := Some (freed r)]) (extents_of (pl_state p'))"
    using merge_correct [OF freed_merge_pre [OF inv k(1,2) d]] ys by simp
  then have "slot_sum (holds_lease (lease_id l)) (extents_of (pl_state p')) + 1
      = slot_sum (holds_lease (lease_id l)) ?xs"
    using freed_sums(3) [OF k(1,2) d, of "lease_id l"] by (simp add: same_sums_def)
  moreover have "slot_sum (holds_lease (lease_id l)) ?xs \<le> 1"
    using inv order_trans [of _ "of_bool _" 1] unfolding pool_inv_def state_inv_def lease_inv_def
    by (metis of_bool_less_eq_one)
  ultimately have z: "slot_sum (holds_lease (lease_id l)) (extents_of (pl_state p')) = 0" by simp
  obtain n where "n < length (extents_of (pl_state p'))" "record_is_lease l' (extents_of (pl_state p') ! n)"
    using act unfolding lease_is_active_iff by blast
  then show False
    using z l slot_sum_nth_le [of n "extents_of (pl_state p')" "holds_lease (lease_id l)"]
    by (auto simp: record_is_lease_iff holds_lease_def)
qed

section \<open>Pools with their outstanding leases\<close>

record pool_world =
  w_pool :: memory_pool
  w_leases :: "pool_lease set"
  w_history :: "u64 list"

definition pool_built :: "pool_world \<Rightarrow> bool" where
  "pool_built w \<longleftrightarrow> (\<exists>n b. from_builder n b = Ok (w_pool w))
     \<and> total_capacity (pl_members (w_pool w)) \<le> usize_max \<and> w_leases w = {} \<and> w_history w = []"

text \<open>
  \<open>release_extent\<close> takes the lease by value: it is gone from the caller whatever the call
  returns.
\<close>

inductive pool_step :: "pool_world \<Rightarrow> pool_world \<Rightarrow> bool" where
  acquired: "acquire_extent lk req (w_pool w) = (Ok l, p') \<Longrightarrow>
     pool_step w (w\<lparr>w_pool := p', w_leases := insert l (w_leases w), w_history := lease_id l # w_history w\<rparr>)"
| refused: "acquire_extent lk req (w_pool w) = (Err e, p') \<Longrightarrow> pool_step w (w\<lparr>w_pool := p'\<rparr>)"
| released: "l \<in> w_leases w \<Longrightarrow> release_extent lk l (w_pool w) = (res, p') \<Longrightarrow>
     pool_step w (w\<lparr>w_pool := p', w_leases := w_leases w - {l}\<rparr>)"

inductive_cases pool_stepE: "pool_step w w'"

text \<open>
  \<open>Region::subrange\<close> checks the end of a range against the region's length only, so a region may
  run past the address space; a lease's own start address was checked when it was carved.
\<close>

definition addressable :: "pool_member option list \<Rightarrow> pool_lease \<Rightarrow> bool" where
  "addressable ms l = (case member_at ms (lease_member l) of None \<Rightarrow> False
     | Some m \<Rightarrow> handle_base (mem_handle m) + rr_offset (lease_range l) \<le> usize_max)"

definition world_inv :: "pool_world \<Rightarrow> bool" where
  "world_inv w \<longleftrightarrow> pool_inv (w_pool w)
     \<and> (\<forall>l \<in> w_leases w. lease_is_active l (extents_of (pl_state (w_pool w)))
          \<and> addressable (pl_members (w_pool w)) l)
     \<and> distinct (w_history w) \<and> (\<forall>i \<in> set (w_history w). issued (next_lease_id (pl_state (w_pool w))) i)"

lemma acquire_history:
  assumes "pool_inv p" "acquire_extent lk req p = (res, p')" "issued (next_lease_id (pl_state p)) i"
  shows "issued (next_lease_id (pl_state p')) i"
  using acquire_cases [OF assms(1,2)] assms(3) issued_next [of "next_lease_id (pl_state p)" i]
  by (auto simp: same_but_id_def carved_def allocate_lease_id_def Let_def)

lemma pool_world_acquired:
  assumes inv: "world_inv w" and run: "acquire_extent lk req (w_pool w) = (Ok l, p')"
  shows "world_inv (w\<lparr>w_pool := p', w_leases := insert l (w_leases w), w_history := lease_id l # w_history w\<rparr>)"
proof -
  have pi: "pool_inv (w_pool w)" using inv by (simp add: world_inv_def)
  have c: "carved (w_pool w) req l p'" using acquire_cases [OF pi run] by auto
  have id: "lease_id l = next_lease_id (pl_state (w_pool w))" "lease_id l \<noteq> 0" "lease_id l \<le> u64_max"
    using c pi by (auto simp: carved_def Let_def pool_inv_def state_inv_def lease_inv_def)
  have new: "issued (next_lease_id (pl_state p')) (lease_id l)"
    using c id by (auto simp: carved_def Let_def allocate_lease_id_def issued_def)
  have ms: "pl_members p' = pl_members (w_pool w)" "addressable (pl_members (w_pool w)) l"
    using c by (auto simp: carved_def Let_def addressable_def)
  have "lease_id l \<notin> set (w_history w)"
    using inv id by (auto simp: world_inv_def issued_def)
  then show ?thesis
    using inv new ms acquire_inv [OF pi run] carved_active [OF c] acquire_history [OF pi run]
    by (auto simp: world_inv_def)
qed

lemma active_id_unique:
  assumes "pool_inv p" "lease_is_active l (extents_of (pl_state p))"
    "lease_is_active l' (extents_of (pl_state p))" "lease_id l = lease_id l'"
  shows "l = l'"
proof -
  from assms(2,3) obtain i j where ij: "i < length (extents_of (pl_state p))" "j < length (extents_of (pl_state p))"
    "record_is_lease l (extents_of (pl_state p) ! i)" "record_is_lease l' (extents_of (pl_state p) ! j)"
    unfolding lease_is_active_iff by blast
  then have "i = j" using assms(1,4) lease_same_id unfolding pool_inv_def state_inv_def by blast
  with ij assms(4) show ?thesis by (cases l; cases l') (auto simp: record_is_lease_iff)
qed

lemma pool_world_released:
  assumes inv: "world_inv w" and l: "l \<in> w_leases w" and run: "release_extent lk l (w_pool w) = (res, p')"
  shows "world_inv (w\<lparr>w_pool := p', w_leases := w_leases w - {l}\<rparr>)"
proof -
  have pi: "pool_inv (w_pool w)" using inv by (simp add: world_inv_def)
  have keep: "lease_is_active l' (extents_of (pl_state p'))" if "l' \<in> w_leases w" "l' \<noteq> l" for l'
  proof -
    have "lease_id l' \<noteq> lease_id l"
      using active_id_unique [OF pi, of l' l] inv l that by (auto simp: world_inv_def)
    then show ?thesis
      using release_cases [OF run] given_back_active [OF pi] inv that by (auto simp: world_inv_def)
  qed
  have "next_lease_id (pl_state p') = next_lease_id (pl_state (w_pool w))"
    "pl_members p' = pl_members (w_pool w)"
    using release_cases [OF run] by (auto simp: given_back_def Let_def)
  then show ?thesis using inv keep release_inv [OF pi run] by (simp add: world_inv_def)
qed

lemma pool_world_step: "world_inv w \<Longrightarrow> pool_step w w' \<Longrightarrow> world_inv w'"
proof (erule pool_stepE)
  fix lk req e p'
  assume "world_inv w" "w' = w\<lparr>w_pool := p'\<rparr>" "acquire_extent lk req (w_pool w) = (Err e, p')"
  moreover from this have "pool_inv (w_pool w)" by (simp add: world_inv_def)
  moreover from calculation have "same_but_id (w_pool w) p'" using acquire_cases by fastforce
  moreover from this have "extents_of (pl_state p') = extents_of (pl_state (w_pool w))
      \<and> pl_members p' = pl_members (w_pool w)"
    by (auto simp: same_but_id_def allocate_lease_id_def)
  ultimately show "world_inv w'"
    using acquire_inv acquire_history by (auto simp: world_inv_def)
qed (simp_all add: pool_world_acquired pool_world_released)

interpretation pool_sys: inductive_invariant pool_built pool_step world_inv
proof unfold_locales
  show "world_inv w" if "pool_built w" for w
    using that from_builder_inv by (auto simp: pool_built_def world_inv_def)
qed (rule pool_world_step)

section \<open>Leases as seen by their holders\<close>

lemma active_leases_disjoint:
  assumes inv: "pool_inv p" and act: "lease_is_active l (extents_of (pl_state p))"
    "lease_is_active l' (extents_of (pl_state p))" and ne: "l \<noteq> l'" "lease_member l = lease_member l'"
  shows "\<not> (in_range (lease_range l) b \<and> in_range (lease_range l') b)"
proof -
  let ?xs = "extents_of (pl_state p)"
  obtain i j where ij: "i < length ?xs" "j < length ?xs" "record_is_lease l (?xs ! i)" "record_is_lease l' (?xs ! j)"
    using act unfolding lease_is_active_iff by blast
  then have "i \<noteq> j" using active_id_unique [OF inv act] ne(1) by (auto simp: record_is_lease_iff)
  have ti: "table_inv (pl_members p) ?xs" using inv by (simp add: pool_inv_def state_inv_def)
  show ?thesis
    using table_disjoint [OF ti ij(1,2) \<open>i \<noteq> j\<close> ij(3) [unfolded record_is_lease_iff]
        ij(4) [unfolded record_is_lease_iff]] ne(2)
    by (auto simp: in_range_def)
qed

lemma active_lease_member:
  assumes inv: "pool_inv p" and act: "lease_is_active l (extents_of (pl_state p))"
  obtains m where "member_at (pl_members p) (lease_member l) = Some m"
    and "rr_offset (usable_range m) \<le> rr_offset (lease_range l)"
    and "rr_offset (lease_range l) + rr_len (lease_range l) \<le> rr_offset (usable_range m) + rr_len (usable_range m)"
    and "0 < rr_len (lease_range l)"
proof -
  let ?xs = "extents_of (pl_state p)"
  let ?r = "\<lparr>ex_member = lease_member l, ex_range = lease_range l, ex_disposition = Leased (lease_id l)\<rparr>"
  have "Some ?r \<in> set ?xs" using act unfolding lease_is_active_iff by (metis nth_mem record_is_lease_iff)
  moreover have "table_inv (pl_members p) ?xs" using inv by (simp add: pool_inv_def state_inv_def)
  ultimately show thesis using table_record that by force
qed

lemma active_lease_view:
  assumes inv: "pool_inv p" and act: "lease_is_active l (extents_of (pl_state p))"
    and ad: "addressable (pl_members p) l"
  shows "\<exists>m. member_at (pl_members p) (lease_member l) = Some m
     \<and> lease_view (Ok ()) l p = Ok \<lparr>rg_base = handle_base (mem_handle m) + rr_offset (lease_range l),
          rg_len = rr_len (lease_range l)\<rparr>
     \<and> rr_offset (lease_range l) + rr_len (lease_range l) \<le> rg_len (inf_range (handle_info (mem_handle m)))"
proof -
  obtain m where m: "member_at (pl_members p) (lease_member l) = Some m"
    "rr_offset (usable_range m) \<le> rr_offset (lease_range l)"
    "rr_offset (lease_range l) + rr_len (lease_range l) \<le> rr_offset (usable_range m) + rr_len (usable_range m)"
    "0 < rr_len (lease_range l)"
    using active_lease_member [OF assms(1,2)] .
  have mo: "members_ok (pl_members p)" using inv by (simp add: pool_inv_def)
  then obtain reg where "handle_subview (mem_handle m) (usable_range m) = Ok reg"
    using m(1) by (auto simp: members_ok_def)
  then show ?thesis using m act ad
    by (auto simp: lease_view_def addressable_def handle_subview_def view_subrange_Ok_iff region_subrange_Ok_iff)
qed

lemma carved_leased:
  assumes inv: "pool_inv p" and c: "carved p req l p'"
  shows "leased_bytes (pl_state p') = leased_bytes (pl_state p) + rr_len (lease_range l)"
proof -
  let ?xs = "extents_of (pl_state p)" and ?a = "lease_range l"
  obtain k f i j where sp: "split_slots k f ?a i j ?xs" and f: "ex_disposition f = Free"
    and ys: "extents_of (pl_state p') = split_table k f ?a (lease_id l) i j ?xs"
    using c unfolding carved_def Let_def by auto
  have "slot_sum leased_len (extents_of (pl_state p')) = slot_sum leased_len ?xs + rr_len ?a"
    using split_table_sum [OF sp, of leased_len "lease_id l"] f
    by (simp add: ys leased_len_def split_records)
  then show ?thesis using inv carved_inv [OF inv c] by (simp add: pool_inv_def state_inv_def)
qed

section \<open>The byte map a pool implements\<close>

text \<open>
  The abstract pool is a map from bytes of members to their status. The concrete table
  implements \<open>acquire\<close> and \<open>release\<close> as updates of that map on the lease's range.
\<close>

type_synonym byte_status = "nat \<Rightarrow> nat \<Rightarrow> extent_disposition option"

definition byte_map :: "extents \<Rightarrow> byte_status" where
  "byte_map xs m b = map_option ex_disposition
     (find (\<lambda>r. ex_member r = m \<and> in_range (ex_range r) b) (flatten xs))"

definition set_status :: "pool_lease \<Rightarrow> extent_disposition \<Rightarrow> byte_status \<Rightarrow> byte_status" where
  "set_status l d M = (\<lambda>m b. if m = lease_member l \<and> in_range (lease_range l) b then Some d else M m b)"

abbreviation pool_bytes :: "memory_pool \<Rightarrow> byte_status" where
  "pool_bytes p \<equiv> byte_map (extents_of (pl_state p))"

lemma byte_map_SomeD:
  "byte_map xs m b = Some d \<Longrightarrow> 0 < slot_sum (status_cover m b d) xs"
  unfolding slot_sum_pos_iff by (auto simp: byte_map_def status_cover_def find_Some_iff) (metis nth_mem set_flatten mem_Collect_eq)

lemma status_unique:
  assumes "table_inv ms xs" "0 < slot_sum (status_cover m b d) xs" "0 < slot_sum (status_cover m b d') xs"
  shows "d = d'"
proof -
  from assms(2,3) obtain r r' where r: "Some r \<in> set xs" "Some r' \<in> set xs" "ex_member r = m" "ex_member r' = m"
    "in_range (ex_range r) b" "in_range (ex_range r') b" "ex_disposition r = d" "ex_disposition r' = d'"
    unfolding slot_sum_pos_iff by (auto simp: status_cover_def)
  then obtain i j where ij: "i < length xs" "xs ! i = Some r" "j < length xs" "xs ! j = Some r'"
    by (metis in_set_conv_nth)
  have "i = j"
  proof (rule ccontr)
    assume "i \<noteq> j"
    then show False using table_disjoint [OF assms(1) ij(1,3) _ ij(2,4)] r by (auto simp: in_range_def)
  qed
  with ij r show ?thesis by auto
qed

lemma byte_map_iff:
  assumes "table_inv ms xs"
  shows "byte_map xs m b = Some d \<longleftrightarrow> 0 < slot_sum (status_cover m b d) xs"
proof
  assume pos: "0 < slot_sum (status_cover m b d) xs"
  then obtain r where "Some r \<in> set xs" "ex_member r = m" "in_range (ex_range r) b"
    unfolding slot_sum_pos_iff by (auto simp: status_cover_def)
  then obtain d' where "byte_map xs m b = Some d'"
    by (cases "byte_map xs m b") (auto simp: byte_map_def find_None_iff)
  with status_unique [OF assms byte_map_SomeD pos] show "byte_map xs m b = Some d" by auto
qed (rule byte_map_SomeD)

lemma byte_map_eqI:
  assumes "table_inv ms xs" "table_inv ms' ys"
    and "\<And>d. 0 < slot_sum (status_cover m b d) xs \<longleftrightarrow> 0 < slot_sum (status_cover m b d) ys"
  shows "byte_map xs m b = byte_map ys m b"
  using assms byte_map_iff by (metis not_Some_eq)

lemma pool_inv_table: "pool_inv p \<Longrightarrow> table_inv (pl_members p) (extents_of (pl_state p))"
  by (simp add: pool_inv_def state_inv_def)

lemma carved_bytes:
  assumes inv: "pool_inv p" and c: "carved p req l p'"
  shows "pool_bytes p' = set_status l (Leased (lease_id l)) (pool_bytes p)"
    and "in_range (lease_range l) b \<Longrightarrow> pool_bytes p (lease_member l) b = Some Free"
proof -
  let ?xs = "extents_of (pl_state p)" and ?a = "lease_range l"
  obtain k f i j where sp: "split_slots k f ?a i j ?xs" and f: "ex_disposition f = Free" "0 < rr_len ?a"
    "lease_member l = ex_member f"
    and ys: "extents_of (pl_state p') = split_table k f ?a (lease_id l) i j ?xs"
    using c unfolding carved_def Let_def by auto
  note ti = pool_inv_table [OF inv]
  have ti': "table_inv (pl_members p) (extents_of (pl_state p'))"
    unfolding ys using split_table_inv [OF sp f(2) ti] .
  have k: "k < length ?xs" "?xs ! k = Some f" using sp by (auto simp: split_slots_def)
  show free: "pool_bytes p (lease_member l) b = Some Free" if "in_range ?a b" for b
    unfolding byte_map_iff [OF ti] slot_sum_pos_iff
    by (rule exI [of _ f]) (use k f that sp in \<open>auto simp: status_cover_def in_range_def split_slots_def
        in_set_conv_nth intro!: exI [of _ k]\<close>)
  show "pool_bytes p' = set_status l (Leased (lease_id l)) (pool_bytes p)"
  proof (intro ext)
    fix m b
    note s = split_table_sum [OF sp, of "status_cover m b d" "lease_id l" for d]
    show "pool_bytes p' m b = set_status l (Leased (lease_id l)) (pool_bytes p) m b"
    proof (cases "m = lease_member l \<and> in_range ?a b")
      case True
      have "0 < slot_sum (status_cover m b (Leased (lease_id l))) (extents_of (pl_state p'))"
        using s [of "Leased (lease_id l)"] True f ys by (auto simp: status_cover_def split_records)
      then show ?thesis using True by (simp add: byte_map_iff [OF ti'] set_status_def)
    next
      case False
      have "slot_sum (status_cover m b d) (extents_of (pl_state p')) = slot_sum (status_cover m b d) ?xs" for d
        using s [of d] False f sp ys
        by (auto simp: status_cover_def split_records in_range_def split_slots_def of_bool_def split: if_splits)
      then have "pool_bytes p' m b = pool_bytes p m b" by (intro byte_map_eqI [OF ti' ti]) simp
      with False show ?thesis by (auto simp: set_status_def)
    qed
  qed
qed

lemma freed_status:
  assumes "k < length xs" "xs ! k = Some r" "ex_disposition r = Leased n"
  shows "slot_sum (status_cover m b d) (xs[k := Some (freed r)]) + of_bool (ex_member r = m \<and> in_range (ex_range r) b \<and> d = Leased n)
     = slot_sum (status_cover m b d) xs + of_bool (ex_member r = m \<and> in_range (ex_range r) b \<and> d = Free)"
  using slot_sum_update [OF assms(1), of "status_cover m b d" "Some (freed r)"] assms
  by (auto simp: status_cover_def of_bool_def split: if_splits)

lemma given_back_bytes:
  assumes inv: "pool_inv p" and gb: "given_back p l p'"
  shows "pool_bytes p' = set_status l Free (pool_bytes p)"
    and "in_range (lease_range l) b \<Longrightarrow> pool_bytes p (lease_member l) b = Some (Leased (lease_id l))"
proof -
  let ?xs = "extents_of (pl_state p)" and ?a = "lease_range l"
  obtain k r where k: "k < length ?xs" "?xs ! k = Some r" "record_is_lease l (Some r)"
    and ys: "extents_of (pl_state p') = merge_free_extent_slot k (?xs[k := Some (freed r)])"
    using gb unfolding given_back_def Let_def by auto
  note d = record_is_leaseD [OF k(3)]
  note ti = pool_inv_table [OF inv]
  have mc: "merge_pre (pl_members p) k (extents_of (pl_state p'))"
    "same_sums (?xs[k := Some (freed r)]) (extents_of (pl_state p'))"
    using merge_correct [OF freed_merge_pre [OF inv k(1,2) conjunct1 [OF d]]] ys by auto
  have ti': "table_inv (pl_members p) (extents_of (pl_state p'))" using mc(1) by (simp add: merge_pre_def)
  show leased: "pool_bytes p (lease_member l) b = Some (Leased (lease_id l))" if "in_range ?a b" for b
    unfolding byte_map_iff [OF ti] slot_sum_pos_iff
    by (rule exI [of _ r]) (use k d that in \<open>auto simp: status_cover_def in_set_conv_nth intro!: exI [of _ k]\<close>)
  have st: "slot_sum (status_cover m b e) (extents_of (pl_state p'))
        + of_bool (lease_member l = m \<and> in_range ?a b \<and> e = Leased (lease_id l))
      = slot_sum (status_cover m b e) ?xs + of_bool (lease_member l = m \<and> in_range ?a b \<and> e = Free)" for m b e
    using freed_status [OF k(1,2) conjunct1 [OF d], of m b e] mc(2) d by (simp add: same_sums_def)
  show "pool_bytes p' = set_status l Free (pool_bytes p)"
  proof (intro ext)
    fix m b
    show "pool_bytes p' m b = set_status l Free (pool_bytes p) m b"
    proof (cases "m = lease_member l \<and> in_range ?a b")
      case True
      then have "0 < slot_sum (status_cover m b Free) (extents_of (pl_state p'))"
        using st [of m b Free] by simp
      then show ?thesis using True by (simp add: byte_map_iff [OF ti'] set_status_def)
    next
      case False
      then have "pool_bytes p' m b = pool_bytes p m b"
        using st [of m b] by (intro byte_map_eqI [OF ti' ti]) auto
      with False show ?thesis by (auto simp: set_status_def)
    qed
  qed
qed

section \<open>Member accounting\<close>

lemma card_in_range:
  assumes "rr_offset rng + rr_len rng \<le> N"
  shows "(\<Sum>b<N. of_bool (in_range rng b)) = rr_len rng"
proof -
  have "{..<N} \<inter> {b. in_range rng b} = {rr_offset rng..<rr_offset rng + rr_len rng}"
    using assms by (auto simp: in_range_def)
  then show ?thesis by (simp add: sum_of_bool_eq)
qed

definition member_len :: "nat \<Rightarrow> extent_record \<Rightarrow> nat" where
  "member_len m r = (if ex_member r = m then r_len r else 0)"

lemma member_len_sum:
  assumes "\<forall>r. Some r \<in> set xs \<longrightarrow> r_end r \<le> N"
  shows "slot_sum (member_len m) xs = (\<Sum>b<N. slot_sum (cover m b) xs)"
  using assms
proof (induction xs)
  case (Cons x xs)
  have "slot_weight (member_len m) x = (\<Sum>b<N. slot_weight (cover m b) x)"
  proof (cases x)
    case (Some r)
    then have "r_end r \<le> N" using Cons.prems by simp
    then show ?thesis using card_in_range [of "ex_range r" N] Some
      by (cases "ex_member r = m") (simp_all add: member_len_def cover_def)
  qed simp
  with Cons show ?case by (simp add: sum.distrib)
qed simp

text \<open>The records of one member add up to its usable length.\<close>

lemma member_extents_total:
  assumes mo: "members_ok ms" and ti: "table_inv ms xs" and m: "member_at ms m = Some x"
  shows "slot_sum (member_len m) xs = rr_len (usable_range x)"
proof -
  have "bounded_table xs" using mo ti by (rule bounded_table)
  then have "slot_sum (member_len m) xs = (\<Sum>b<usize_max. slot_sum (cover m b) xs)"
    by (intro member_len_sum) (simp add: bounded_table_def)
  also have "\<dots> = (\<Sum>b<usize_max. of_bool (in_range (usable_range x) b))"
    using ti m by (simp add: table_inv_def usable_at_def)
  also have "\<dots> = rr_len (usable_range x)" using member_bounds(1) [OF mo m] by (rule card_in_range)
  finally show ?thesis .
qed

lemma usage_fold:
  assumes "mu_free_bytes u + mu_leased_bytes u + sum_list (map (member_len m) rs) \<le> usize_max"
  shows "mu_free_bytes (fold (usage_step m) rs u) + mu_leased_bytes (fold (usage_step m) rs u)
     = mu_free_bytes u + mu_leased_bytes u + sum_list (map (member_len m) rs)"
  using assms
proof (induction rs arbitrary: u)
  case (Cons r rs)
  have "mu_free_bytes (usage_step m r u) + mu_leased_bytes (usage_step m r u)
      = mu_free_bytes u + mu_leased_bytes u + member_len m r"
    using Cons.prems by (auto simp: usage_step_def member_len_def saturating_add_def split: extent_disposition.split)
  with Cons show ?case by simp
qed simp

section \<open>When acquisition succeeds\<close>

lemma vacant_scan_complete:
  assumes "found < needed" "needed \<le> found + length (filter (\<lambda>x. x = None) xs)"
    and "\<forall>i < length xs. idx + i = k \<longrightarrow> xs ! i \<noteq> None"
  shows "vacant_scan needed (Some k) idx xs found slots \<noteq> None"
  using assms
proof (induction xs arbitrary: idx found slots)
  case (Cons x xs)
  have k: "idx = k \<Longrightarrow> x \<noteq> None" using Cons.prems(3) by (force dest: spec [of _ 0])
  have rest: "\<forall>i < length xs. Suc idx + i = k \<longrightarrow> xs ! i \<noteq> None" using Cons.prems(3) by force
  show ?case
  proof (cases "x = None")
    case True
    then show ?thesis using Cons.IH [of "Suc found" "Suc idx"] Cons.prems k rest
      by (auto simp: Let_def)
  next
    case False
    then show ?thesis using Cons.IH [of found "Suc idx" slots] Cons.prems rest by auto
  qed
qed simp

lemma vacant_slots_complete:
  assumes "needed \<le> length (filter (\<lambda>x. x = None) xs)" "xs ! k \<noteq> None"
  shows "vacant_slots_excluding needed (Some k) xs \<noteq> None"
  using vacant_scan_complete [of 0 needed xs 0 k "[None, None]"] assms
  by (auto simp: vacant_slots_excluding_def)

text \<open>A free extent of the table with an aligned stretch of the requested length.\<close>

definition fits :: "memory_pool \<Rightarrow> extent_request \<Rightarrow> bool" where
  "fits p req \<longleftrightarrow> (\<exists>r m off. Some r \<in> set (extents_of (pl_state p)) \<and> ex_disposition r = Free
     \<and> member_at (pl_members p) (ex_member r) = Some m
     \<and> handle_base (mem_handle m) + r_end r + req_align req \<le> usize_max + 1
     \<and> r_start r \<le> off \<and> off + req_len req \<le> r_end r
     \<and> req_align req dvd handle_base (mem_handle m) + off)"

lemma find_candidate_complete:
  assumes inv: "pool_inv p" and pw: "is_power_of_two (req_align req)" and fit: "fits p req"
  shows "find_candidate p (pl_state p) req \<noteq> None"
proof -
  let ?xs = "extents_of (pl_state p)"
  have b: "bounded_table ?xs" using inv by (auto simp: pool_inv_def state_inv_def intro: bounded_table)
  from fit obtain r m off where r: "Some r \<in> set ?xs" "ex_disposition r = Free"
    and m: "member_at (pl_members p) (ex_member r) = Some m"
      "handle_base (mem_handle m) + r_end r + req_align req \<le> usize_max + 1"
      "r_start r \<le> off" "off + req_len req \<le> r_end r" "req_align req dvd handle_base (mem_handle m) + off"
    unfolding fits_def by blast
  then obtain a where a: "aligned_allocation p (ex_member r) (ex_range r) req = Some a"
    using aligned_allocation_exists [OF m(1) pw _ m(3-5)] by (auto simp: add.assoc)
  obtain i where i: "i < length ?xs" "?xs ! i = Some r" using r(1) by (metis in_set_conv_nth)
  have "r_end r \<le> usize_max" using b r(1) by (simp add: bounded_table_def)
  then obtain c where "candidate_of i r a = Some c"
    using a by (metis aligned_allocation_SomeD candidate_of_total)
  then have "is_candidate p req 0 ?xs c" unfolding is_candidate_def using i r(2) a by auto
  then show ?thesis
    using find_candidate_loop_spec [OF b, of p req 0 None] unfolding find_candidate_def by fastforce
qed

lemma acquire_complete:
  assumes inv: "pool_inv p" and pw: "is_power_of_two (req_align req)" and len: "0 < req_len req"
    and fit: "fits p req" and id: "next_lease_id (pl_state p) \<noteq> 0"
    and vac: "2 \<le> length (filter (\<lambda>x. x = None) (extents_of (pl_state p)))"
  shows "is_ok (fst (acquire_extent (Ok ()) req p))"
proof -
  let ?s = "pl_state p" and ?xs = "extents_of (pl_state p)"
  obtain c where c: "find_candidate p ?s req = Some c" using find_candidate_complete [OF inv pw fit] by blast
  have mo: "members_ok (pl_members p)" and ti: "table_inv (pl_members p) ?xs"
    using inv by (auto simp: pool_inv_def state_inv_def)
  obtain f m where f: "slot_index c < length ?xs" "?xs ! slot_index c = Some f"
    "cand_member c = ex_member f" "member_at (pl_members p) (ex_member f) = Some m"
    "r_start f \<le> rr_offset (allocation c)" "rr_offset (allocation c) + rr_len (allocation c) \<le> r_end f"
    "r_end f \<le> usize_max"
    using find_candidate_SomeD [OF mo ti c] by metis
  obtain s1 where s1: "allocate_lease_id ?s = (Ok (next_lease_id ?s), s1)" "extents_of s1 = ?xs"
    using id by (simp add: allocate_lease_id_def)
  have v: "validate_extent_request req = Ok ()"
    using pw len is_power_of_two_pos [OF pw] by (simp add: validate_extent_request_def)
  obtain pl so sl where sp: "split_lengths (allocation c) (ex_range f) = Ok (pl, so, sl)"
    using f by (simp add: split_lengths_def checked_add_def checked_sub_def)
  have need: "of_bool (pl \<noteq> 0) + of_bool (sl \<noteq> 0) \<le> length (filter (\<lambda>x. x = None) ?xs)"
    using vac by (simp add: of_bool_def)
  obtain extra where vs: "vacant_slots_excluding (of_bool (pl \<noteq> 0) + of_bool (sl \<noteq> 0))
      (Some (slot_index c)) ?xs = Some extra"
    using vacant_slots_complete [OF need, of "slot_index c"] f(2) by auto
  obtain ys where ws: "write_split (slot_index c) f (allocation c) (next_lease_id ?s) pl so sl extra ?xs = (Ok (), ys)"
    using write_split_eq [OF sp vs f(1,2)] by metis
  have "pool_member_id p (cand_member c) = Ok (mem_id m)" using f(3,4) by (simp add: pool_member_id_def)
  then show ?thesis using v c s1 f sp vs ws by (simp add: acquire_extent_def Let_def)
qed

lemma release_active:
  assumes "lease_is_active l (extents_of (pl_state p))"
  shows "fst (release_extent (Ok ()) l p) = Ok ()"
proof -
  obtain k where k: "extent_slot_for_lease l (extents_of (pl_state p)) = Some k"
    using assms by (auto simp: lease_is_active_def)
  then have "record_is_lease l (extents_of (pl_state p) ! k)"
    unfolding extent_slot_for_lease_def by (auto dest: position_SomeD)
  then obtain r where "extents_of (pl_state p) ! k = Some r" by (auto simp: record_is_lease_iff)
  with k show ?thesis by (simp add: release_extent_def Let_def)
qed

lemma release_inactive:
  "\<not> lease_is_active l (extents_of (pl_state p)) \<Longrightarrow> release_extent (Ok ()) l p = (Err PoolUnknownLease, p)"
  by (simp add: release_extent_def lease_is_active_def Let_def)

section \<open>The pool as an extent provider\<close>

text \<open>The usable ranges of the members occupy different addresses.\<close>

definition member_region :: "pool_member \<Rightarrow> region" where
  "member_region m = \<lparr>rg_base = handle_base (mem_handle m) + rr_offset (usable_range m),
     rg_len = rr_len (usable_range m)\<rparr>"

definition members_apart :: "pool_member option list \<Rightarrow> bool" where
  "members_apart ms \<longleftrightarrow> (\<forall>i j m m'. i \<noteq> j \<and> member_at ms i = Some m \<and> member_at ms j = Some m'
     \<longrightarrow> region_disjoint (member_region m) (member_region m'))"

definition pool_region_of :: "memory_pool \<Rightarrow> pool_lease \<Rightarrow> region" where
  "pool_region_of p l = (case member_at (pl_members p) (lease_member l) of
     None \<Rightarrow> \<lparr>rg_base = 0, rg_len = 0\<rparr>
   | Some m \<Rightarrow> \<lparr>rg_base = handle_base (mem_handle m) + rr_offset (lease_range l),
                rg_len = rr_len (lease_range l)\<rparr>)"

definition pool_ok :: "memory_pool \<Rightarrow> bool" where
  "pool_ok p \<longleftrightarrow> pool_inv p \<and> members_apart (pl_members p)"

definition pool_held :: "memory_pool \<Rightarrow> pool_lease \<Rightarrow> bool" where
  "pool_held p l \<longleftrightarrow> lease_is_active l (extents_of (pl_state p)) \<and> addressable (pl_members p) l"

definition pool_get :: "nat \<Rightarrow> nat \<Rightarrow> memory_pool \<Rightarrow> pool_lease option \<times> memory_pool" where
  "pool_get n a p = (case acquire_extent (Ok ()) \<lparr>req_len = n, req_align = a\<rparr> p of
     (Ok l, p') \<Rightarrow> (Some l, p') | (Err e, p') \<Rightarrow> (None, p'))"

definition pool_put :: "pool_lease \<Rightarrow> memory_pool \<Rightarrow> memory_pool" where
  "pool_put l p = snd (release_extent (Ok ()) l p)"

lemma acquire_members: "pool_inv p \<Longrightarrow> acquire_extent lk req p = (res, p') \<Longrightarrow> pl_members p' = pl_members p"
  by (drule (1) acquire_cases) (auto simp: same_but_id_def carved_def Let_def)

lemma release_members: "release_extent lk l p = (res, p') \<Longrightarrow> pl_members p' = pl_members p"
  by (drule release_cases) (auto simp: given_back_def Let_def)

lemma pool_region_of_members: "pl_members p' = pl_members p \<Longrightarrow> pool_region_of p' l = pool_region_of p l"
  by (simp add: pool_region_of_def)

lemma allocate_lease_id_extents [simp]: "extents_of (snd (allocate_lease_id s)) = extents_of s"
  by (simp add: allocate_lease_id_def)

lemma same_but_id_active:
  "same_but_id p p' \<Longrightarrow> lease_is_active l (extents_of (pl_state p')) = lease_is_active l (extents_of (pl_state p))"
  by (auto simp: same_but_id_def)

lemma carved_fresh:
  assumes inv: "pool_inv p" and c: "carved p req l p'"
  shows "\<not> lease_is_active l (extents_of (pl_state p))"
proof
  assume "lease_is_active l (extents_of (pl_state p))"
  then obtain n where n: "n < length (extents_of (pl_state p))" "record_is_lease l (extents_of (pl_state p) ! n)"
    unfolding lease_is_active_iff by blast
  have "\<not> issued (next_lease_id (pl_state p)) (lease_id l)"
    using c by (auto simp: carved_def Let_def issued_def)
  then have "slot_sum (holds_lease (lease_id l)) (extents_of (pl_state p)) = 0"
    using inv by (auto simp: pool_inv_def state_inv_def lease_inv_def dest: spec [of _ "lease_id l"])
  then show False
    using n slot_sum_nth_le [of n "extents_of (pl_state p)" "holds_lease (lease_id l)"]
    by (auto simp: record_is_lease_iff holds_lease_def)
qed

lemma lease_in_member_region:
  assumes "pool_inv p" "lease_is_active l (extents_of (pl_state p))"
    "member_at (pl_members p) (lease_member l) = Some m"
  shows "region_within (pool_region_of p l) (member_region m)"
  using active_lease_member [OF assms(1,2)] assms(3)
  by (auto simp: region_within_def pool_region_of_def member_region_def)

interpretation pool_provider: extent_provider pool_ok pool_get pool_put pool_held pool_region_of
proof unfold_locales
  fix p n a l p'
  assume ok: "pool_ok p" and run: "pool_get n a p = (Some l, p')"
  have inv: "pool_inv p" using ok by (simp add: pool_ok_def)
  from run have acq: "acquire_extent (Ok ()) \<lparr>req_len = n, req_align = a\<rparr> p = (Ok l, p')"
    by (auto simp: pool_get_def split: prod.splits result.splits)
  then have c: "carved p \<lparr>req_len = n, req_align = a\<rparr> l p'" using acquire_cases [OF inv acq] by auto
  then show "\<not> pool_held p l \<and> pool_held p' l \<and> rg_len (pool_region_of p' l) = n \<and> a dvd rg_base (pool_region_of p' l)"
    using carved_fresh [OF inv c] carved_active(1) [OF c]
    by (auto simp: pool_held_def pool_region_of_def addressable_def carved_def Let_def)
next
  fix p n a x p'
  assume ok: "pool_ok p" and run: "pool_get n a p = (x, p')"
  have inv: "pool_inv p" using ok by (simp add: pool_ok_def)
  from run obtain res where acq: "acquire_extent (Ok ()) \<lparr>req_len = n, req_align = a\<rparr> p = (res, p')"
    by (auto simp: pool_get_def split: prod.splits result.splits)
  have "lease_is_active l (extents_of (pl_state p')) " if "lease_is_active l (extents_of (pl_state p))" for l
    using acquire_cases [OF inv acq] that same_but_id_active carved_active(2) by blast
  then show "pool_ok p' \<and> (\<forall>l. pool_held p l \<longrightarrow> pool_held p' l \<and> pool_region_of p' l = pool_region_of p l)"
    using ok acquire_inv [OF inv acq] acquire_members [OF inv acq]
    by (simp add: pool_ok_def pool_held_def pool_region_of_def)
next
  fix p l
  assume ok: "pool_ok p" and l: "pool_held p l"
  have inv: "pool_inv p" using ok by (simp add: pool_ok_def)
  obtain res p' where rel: "release_extent (Ok ()) l p = (res, p')" by fastforce
  have gb: "given_back p l p'"
    using release_cases [OF rel] release_active [of l p] l rel by (auto simp: pool_held_def)
  have "lease_is_active l' (extents_of (pl_state p'))" if "pool_held p l'" "l' \<noteq> l" for l'
    using given_back_active [OF inv gb] active_id_unique [OF inv] that l by (auto simp: pool_held_def)
  then show "pool_ok (pool_put l p) \<and> (\<forall>l'. pool_held p l' \<and> l' \<noteq> l \<longrightarrow>
      pool_held (pool_put l p) l' \<and> pool_region_of (pool_put l p) l' = pool_region_of p l')"
    using ok release_inv [OF inv rel] release_members [OF rel] rel
    by (simp add: pool_put_def pool_ok_def pool_held_def pool_region_of_def)
next
  fix p l l'
  assume a: "pool_ok p" "pool_held p l" "pool_held p l'" "l \<noteq> l'"
  then have inv: "pool_inv p" and act: "lease_is_active l (extents_of (pl_state p))"
    "lease_is_active l' (extents_of (pl_state p))" by (auto simp: pool_ok_def pool_held_def)
  obtain m m' where m: "member_at (pl_members p) (lease_member l) = Some m"
      "member_at (pl_members p) (lease_member l') = Some m'"
    using active_lease_member [OF inv act(1)] active_lease_member [OF inv act(2)] by metis
  show "region_disjoint (pool_region_of p l) (pool_region_of p l')"
  proof (cases "lease_member l = lease_member l'")
    case True
    have d: "\<not> (in_range (lease_range l) b \<and> in_range (lease_range l') b)" for b
      using active_leases_disjoint [OF inv act a(4) True] .
    have "m = m'" using m True by simp
    show ?thesis unfolding region_disjoint_def
    proof (intro allI notI, elim conjE)
      fix x
      assume "rg_base (pool_region_of p l) \<le> x" "x < rg_base (pool_region_of p l) + rg_len (pool_region_of p l)"
        "rg_base (pool_region_of p l') \<le> x" "x < rg_base (pool_region_of p l') + rg_len (pool_region_of p l')"
      then show False using d [of "x - handle_base (mem_handle m)"] m \<open>m = m'\<close>
        by (auto simp: pool_region_of_def in_range_def)
    qed
  next
    case False
    then have "region_disjoint (member_region m) (member_region m')"
      using a(1) m unfolding pool_ok_def members_apart_def by blast
    then show ?thesis
      using lease_in_member_region [OF inv act(1) m(1)] lease_in_member_region [OF inv act(2) m(2)]
        region_disjoint_within by blast
  qed
qed

section \<open>A concrete pool\<close>

text \<open>One static region of 256 bytes at address 4104, four extent slots.\<close>

definition sample_core :: resource_core where
  "sample_core = the_ok (static_allocatable_region \<lparr>rg_base = 4104, rg_len = 256\<rparr>)"

definition sample_builder :: pool_builder where
  "sample_builder = snd (add_contributor (explicit_ready (Bound sample_core)) (builder_new 2 ready_only))"

definition sample_pool :: memory_pool where
  "sample_pool = the_ok (from_builder 4 sample_builder)"

lemma sample_core_info [simp]:
  "res_info (resolved sample_core) = \<lparr>inf_range = \<lparr>rg_base = 4104, rg_len = 256\<rparr>,
     inf_domain = DomStaticRegion, inf_backing = BackStaticRegion,
     inf_attrs = A_ALLOCATABLE OR A_STATIC_REGION OR A_CACHEABLE OR A_COHERENT,
     inf_geometry = static_allocatable_geometry, inf_layout = exact_static,
     inf_contract = static_allocatable_contract, inf_support = static_allocatable_support,
     inf_hazards = 0\<rparr>"
  by (simp add: sample_core_def static_allocatable_region_def bound_new_def validate_bound_spec_def
      static_allocatable_support_def static_allocatable_state_def static_allocatable_contract_def
      static_state_def minus_flags_def contains_flags_def infer_resource_hazards_def core_new_def Let_def)

definition sample_member :: pool_member where
  "sample_member = \<lparr>mem_id = 0, mem_handle = Bound sample_core, usable_range = range_new 0 256,
     compatibility = envelope_from_resource_info (res_info (resolved sample_core)),
     topology_node = None, pool_class = None, mem_origin = Explicit\<rparr>"

lemma replicate_small: "replicate 2 x = [x, x]" "replicate 4 x = [x, x, x, x]"
  by (simp_all add: numeral_eq_Suc)

lemma sample_from_builder:
  "from_builder 4 sample_builder = Ok \<lparr>pl_policy = ready_only,
     pl_compatibility = envelope_from_resource_info (res_info (resolved sample_core)),
     pl_topology_node = None, pl_pool_class = None, pl_members = [Some sample_member, None],
     pl_state = \<lparr>extents_of = [Some \<lparr>ex_member = 0, ex_range = range_new 0 256, ex_disposition = Free\<rparr>,
        None, None, None], free_bytes = 256, leased_bytes = 0, next_lease_id = 1\<rparr>\<rparr>"
  by (simp add: sample_builder_def add_contributor_def builder_new_def from_builder_def ready_only_def
      replicate_small explicit_ready_def range_whole_def from_contributor_def handle_subview_def
      view_subrange_def region_subrange_def checked_add_def usize_max_def canonical_member_metadata_def
      sample_member_def pool_state_new_def first_vacant_slot_def saturating_add_def)

lemma sample_pool_eq: "from_builder 4 sample_builder = Ok sample_pool"
  by (simp add: sample_pool_def sample_from_builder)

lemma pow2_samples: "is_power_of_two 32"
  by (simp add: is_power_of_two_def count_ones.simps)

definition sample_request :: extent_request where
  "sample_request = \<lparr>req_len = 64, req_align = 32\<rparr>"

definition sample_lease :: pool_lease where
  "sample_lease = \<lparr>lease_id = 1, lease_member = 0, lease_range = range_new 24 64\<rparr>"

definition sample_pool1 :: memory_pool where
  "sample_pool1 = snd (acquire_extent (Ok ()) sample_request sample_pool)"

lemma sample_acquire_eq:
  "acquire_extent (Ok ()) sample_request sample_pool = (Ok sample_lease, sample_pool\<lparr>pl_state :=
     \<lparr>extents_of = [Some \<lparr>ex_member = 0, ex_range = range_new 24 64, ex_disposition = Leased 1\<rparr>,
        Some \<lparr>ex_member = 0, ex_range = range_new 0 24, ex_disposition = Free\<rparr>,
        Some \<lparr>ex_member = 0, ex_range = range_new 88 168, ex_disposition = Free\<rparr>, None],
      free_bytes = 192, leased_bytes = 64, next_lease_id = 2\<rparr>\<rparr>)"
  by (simp add: sample_pool_def sample_from_builder sample_request_def sample_lease_def
      acquire_extent_def validate_extent_request_def pow2_samples find_candidate_def
      aligned_allocation_def member_at_def sample_member_def align_up_eq checked_add_def checked_sub_def
      usize_max_def candidate_of_def is_better_candidate_def allocate_lease_id_def u64_max_def
      split_lengths_def vacant_slots_excluding_def write_split_def saturating_sub_def saturating_add_def
      pool_member_id_def Let_def)

lemma sample_acquire: "acquire_extent (Ok ()) sample_request sample_pool = (Ok sample_lease, sample_pool1)"
  by (simp add: sample_pool1_def sample_acquire_eq)

definition sample_world :: pool_world where
  "sample_world = \<lparr>w_pool = sample_pool, w_leases = {}, w_history = []\<rparr>"

definition sample_world1 :: pool_world where
  "sample_world1 = \<lparr>w_pool = sample_pool1, w_leases = {sample_lease}, w_history = [1]\<rparr>"

lemma sample_built: "pool_built sample_world"
proof -
  have "total_capacity (pl_members sample_pool) \<le> usize_max"
    by (simp add: sample_pool_def sample_from_builder total_capacity_def sample_member_def usize_max_def)
  then show ?thesis unfolding pool_built_def sample_world_def using sample_pool_eq by auto
qed

lemma sample_reaches: "reaches pool_step sample_world sample_world1"
  using pool_step.acquired [of "Ok ()" sample_request sample_world sample_lease sample_pool1] sample_acquire
  by (intro reaches_single) (simp add: sample_world_def sample_world1_def sample_lease_def)

lemma sample_inv: "pool_inv sample_pool" "pool_inv sample_pool1"
  using pool_sys.reachable_inv [OF sample_built reaches.base] pool_sys.reachable_inv [OF sample_built sample_reaches]
  by (simp_all add: world_inv_def sample_world_def sample_world1_def)

section \<open>Properties\<close>

text \<open>
  C3. In every state a pool can reach, whatever sequence of acquire and release calls it served,
  each byte of a member's usable range belongs to exactly one extent record and no record covers
  any other byte, the byte counters add up to the members' capacity, and no two free extents of a
  member are adjacent.
\<close>

theorem pool_extents_partition:
  assumes "pool_built w0" and "reaches pool_step w0 w"
  shows "slot_sum (cover m b) (extents_of (pl_state (w_pool w))) = of_bool (usable_at (pl_members (w_pool w)) m b)
    \<and> free_bytes (pl_state (w_pool w)) + leased_bytes (pl_state (w_pool w))
        = total_capacity (pl_members (w_pool w))
    \<and> coalesced (extents_of (pl_state (w_pool w)))"
  using pool_sys.reachable_inv [OF assms]
  by (auto simp: world_inv_def pool_inv_def state_inv_def table_inv_def slot_sum_len)

theorem pool_extents_partition_witness:
  "slot_sum (cover 0 30) (extents_of (pl_state sample_pool1)) = 1
    \<and> slot_sum (cover 0 256) (extents_of (pl_state sample_pool1)) = 0
    \<and> free_bytes (pl_state sample_pool1) + leased_bytes (pl_state sample_pool1) = 256"
  using pool_extents_partition [OF sample_built sample_reaches, of 0 30]
    pool_extents_partition [OF sample_built sample_reaches, of 0 256]
  by (simp add: sample_world1_def sample_pool1_def sample_acquire_eq)
    (simp add: sample_pool_def sample_from_builder usable_at_def member_at_def sample_member_def
      in_range_def total_capacity_def)

text \<open>
  C1. Leases that are out at the same time never overlap: two different outstanding leases of one
  member have disjoint ranges and different identifiers, every outstanding lease can be viewed,
  and its view is the leased range at the member's base address, inside the member's resource.
\<close>

theorem pool_leases_exclusive:
  assumes "pool_built w0" and "reaches pool_step w0 w" and "l \<in> w_leases w" and "l' \<in> w_leases w"
  shows "(l \<noteq> l' \<longrightarrow> lease_id l \<noteq> lease_id l' \<and> (lease_member l = lease_member l' \<longrightarrow>
            (\<forall>b. \<not> (in_range (lease_range l) b \<and> in_range (lease_range l') b))))
    \<and> (\<exists>m. member_at (pl_members (w_pool w)) (lease_member l) = Some m
        \<and> lease_view (Ok ()) l (w_pool w) = Ok \<lparr>rg_base = handle_base (mem_handle m) + rr_offset (lease_range l),
              rg_len = rr_len (lease_range l)\<rparr>
        \<and> rr_offset (lease_range l) + rr_len (lease_range l) \<le> rg_len (inf_range (handle_info (mem_handle m))))"
proof -
  have inv: "pool_inv (w_pool w)"
    and act: "lease_is_active l (extents_of (pl_state (w_pool w)))"
      "lease_is_active l' (extents_of (pl_state (w_pool w)))" and ad: "addressable (pl_members (w_pool w)) l"
    using pool_sys.reachable_inv [OF assms(1,2)] assms(3,4) by (auto simp: world_inv_def)
  show ?thesis
    using active_lease_view [OF inv act(1) ad] active_leases_disjoint [OF inv act] active_id_unique [OF inv act]
    by blast
qed

theorem pool_leases_exclusive_witness:
  "lease_view (Ok ()) sample_lease sample_pool1 = Ok \<lparr>rg_base = 4128, rg_len = 64\<rparr>"
  using pool_leases_exclusive [OF sample_built sample_reaches, of sample_lease sample_lease]
  by (simp add: sample_world1_def sample_lease_def sample_pool1_def sample_acquire_eq)
    (simp add: sample_pool_def sample_from_builder member_at_def sample_member_def)

text \<open>
  C6. A successful acquisition returns a lease of exactly the requested length at an address that
  is a multiple of the requested alignment. Every byte of it was free before; afterwards exactly
  those bytes are leased under the new identifier and no other byte changes, so the extent table
  implements the update of an abstract byte map.
\<close>

theorem acquire_extent_refines:
  assumes "pool_built w0" and "reaches pool_step w0 w" and "acquire_extent lk req (w_pool w) = (Ok l, p')"
  shows "rr_len (lease_range l) = req_len req
    \<and> (\<exists>m. member_at (pl_members (w_pool w)) (lease_member l) = Some m
          \<and> req_align req dvd handle_base (mem_handle m) + rr_offset (lease_range l))
    \<and> (\<forall>b. in_range (lease_range l) b \<longrightarrow> pool_bytes (w_pool w) (lease_member l) b = Some Free)
    \<and> pool_bytes p' = set_status l (Leased (lease_id l)) (pool_bytes (w_pool w))"
proof -
  have inv: "pool_inv (w_pool w)" using pool_sys.reachable_inv [OF assms(1,2)] by (simp add: world_inv_def)
  have c: "carved (w_pool w) req l p'" using acquire_cases [OF inv assms(3)] by auto
  then show ?thesis using carved_bytes [OF inv c] by (auto simp: carved_def Let_def)
qed

theorem acquire_extent_refines_witness:
  "rr_len (lease_range sample_lease) = 64 \<and> 32 dvd 4104 + rr_offset (lease_range sample_lease)
    \<and> pool_bytes sample_pool1 = set_status sample_lease (Leased 1) (pool_bytes sample_pool)"
proof -
  have run: "acquire_extent (Ok ()) sample_request (w_pool sample_world) = (Ok sample_lease, sample_pool1)"
    using sample_acquire by (simp add: sample_world_def)
  show ?thesis using acquire_extent_refines [OF sample_built reaches.base run]
    by (simp add: sample_lease_def sample_request_def sample_world_def)
qed

text \<open>
  A refused acquisition changes nothing a caller can observe in the table or the counters: at
  most the next lease identifier has moved on.
\<close>

theorem acquire_extent_failure_atomic:
  assumes "pool_built w0" and "reaches pool_step w0 w" and "acquire_extent lk req (w_pool w) = (Err e, p')"
  shows "extents_of (pl_state p') = extents_of (pl_state (w_pool w))
    \<and> free_bytes (pl_state p') = free_bytes (pl_state (w_pool w))
    \<and> leased_bytes (pl_state p') = leased_bytes (pl_state (w_pool w))
    \<and> pl_members p' = pl_members (w_pool w)"
proof -
  have inv: "pool_inv (w_pool w)" using pool_sys.reachable_inv [OF assms(1,2)] by (simp add: world_inv_def)
  then show ?thesis using acquire_cases [OF inv assms(3)]
    by (auto simp: same_but_id_def allocate_lease_id_def)
qed

theorem acquire_extent_failure_atomic_witness:
  "\<exists>p'. acquire_extent (Err SyncBusy) sample_request sample_pool = (Err (PoolSynchronizationFailure SyncBusy), p')
     \<and> extents_of (pl_state p') = extents_of (pl_state sample_pool)"
proof -
  have run: "acquire_extent (Err SyncBusy) sample_request (w_pool sample_world)
      = (Err (PoolSynchronizationFailure SyncBusy), sample_pool)"
    by (simp add: acquire_extent_def validate_extent_request_def sample_request_def pow2_samples sample_world_def)
  show ?thesis using acquire_extent_failure_atomic [OF sample_built reaches.base run] run
    by (auto simp: sample_world_def)
qed

text \<open>
  C37. Acquisition is complete: when some free extent contains an aligned stretch of the requested
  length (and rounding up cannot leave the address space), lease identifiers remain and two
  extent slots are vacant, a valid request is granted.
\<close>

theorem acquire_extent_complete:
  assumes "pool_built w0" and "reaches pool_step w0 w" and "is_power_of_two (req_align req)"
    and "0 < req_len req" and "fits (w_pool w) req" and "next_lease_id (pl_state (w_pool w)) \<noteq> 0"
    and "2 \<le> length (filter (\<lambda>x. x = None) (extents_of (pl_state (w_pool w))))"
  shows "\<exists>l p'. acquire_extent (Ok ()) req (w_pool w) = (Ok l, p')"
proof -
  have inv: "pool_inv (w_pool w)" using pool_sys.reachable_inv [OF assms(1,2)] by (simp add: world_inv_def)
  obtain r p' where run: "acquire_extent (Ok ()) req (w_pool w) = (r, p')" by fastforce
  then show ?thesis using acquire_complete [OF inv assms(3-7)] by (cases r) auto
qed

theorem acquire_extent_complete_witness:
  "\<exists>l p'. acquire_extent (Ok ()) sample_request sample_pool = (Ok l, p')"
proof -
  have "fits (w_pool sample_world) sample_request"
    unfolding fits_def sample_world_def
    by (rule exI [of _ "\<lparr>ex_member = 0, ex_range = range_new 0 256, ex_disposition = Free\<rparr>"],
        rule exI [of _ sample_member], rule exI [of _ 24])
      (simp add: sample_pool_def sample_from_builder member_at_def sample_member_def sample_request_def
        usize_max_def)
  then show ?thesis
    using acquire_extent_complete [OF sample_built reaches.base, of sample_request] pow2_samples
    by (simp add: sample_request_def sample_world_def sample_pool_def sample_from_builder)
qed

text \<open>
  The extent chosen is optimal: no other candidate of the table has a smaller key in the
  documented order (metadata cost, waste, span, padding, member, slot, or with the span and the
  padding first for DMA-visible, device-local and physically contiguous pools).
\<close>

theorem find_candidate_optimal:
  assumes "pool_built w0" and "reaches pool_step w0 w"
    and "find_candidate (w_pool w) (pl_state (w_pool w)) req = Some c"
    and "is_candidate (w_pool w) req 0 (extents_of (pl_state (w_pool w))) c'"
  shows "is_candidate (w_pool w) req 0 (extents_of (pl_state (w_pool w))) c
    \<and> candidate_key (prefers_tight_front_allocation (w_pool w)) c
        \<le> candidate_key (prefers_tight_front_allocation (w_pool w)) c'"
proof -
  have inv: "pool_inv (w_pool w)" using pool_sys.reachable_inv [OF assms(1,2)] by (simp add: world_inv_def)
  then have b: "bounded_table (extents_of (pl_state (w_pool w)))"
    by (auto simp: pool_inv_def state_inv_def intro: bounded_table)
  show ?thesis using find_candidate_loop_spec [OF b] assms(3,4) unfolding find_candidate_def by fastforce
qed

theorem find_candidate_optimal_witness:
  "\<exists>c. find_candidate sample_pool (pl_state sample_pool) sample_request = Some c
     \<and> is_candidate sample_pool sample_request 0 (extents_of (pl_state sample_pool)) c"
proof -
  obtain c where c: "find_candidate (w_pool sample_world) (pl_state (w_pool sample_world)) sample_request = Some c"
    by (simp add: sample_world_def sample_pool_def sample_from_builder sample_request_def find_candidate_def
      aligned_allocation_def member_at_def sample_member_def align_up_eq pow2_samples checked_add_def
      checked_sub_def usize_max_def candidate_of_def is_better_candidate_def)
  then have "is_candidate (w_pool sample_world) sample_request 0 (extents_of (pl_state (w_pool sample_world))) c"
    by (simp add: is_candidate_def exI [of _ 0] sample_world_def sample_pool_def sample_from_builder
      sample_request_def find_candidate_def aligned_allocation_def member_at_def sample_member_def align_up_eq
      pow2_samples checked_add_def checked_sub_def usize_max_def candidate_of_def is_better_candidate_def)
  from find_candidate_optimal [OF sample_built reaches.base c this] c show ?thesis by (auto simp: sample_world_def)
qed

text \<open>
  C7. Releasing an outstanding lease succeeds and frees exactly its bytes; releasing it a second
  time, or releasing anything else that is not a current lease, is refused as unknown and leaves
  the pool as it is.
\<close>

theorem release_extent_refines:
  assumes "pool_built w0" and "reaches pool_step w0 w" and "l \<in> w_leases w"
    and "release_extent (Ok ()) l (w_pool w) = (res, p')"
  shows "res = Ok () \<and> pool_bytes p' = set_status l Free (pool_bytes (w_pool w))
    \<and> release_extent (Ok ()) l p' = (Err PoolUnknownLease, p')"
proof -
  have inv: "pool_inv (w_pool w)" and act: "lease_is_active l (extents_of (pl_state (w_pool w)))"
    using pool_sys.reachable_inv [OF assms(1,2)] assms(3) by (auto simp: world_inv_def)
  have ok: "res = Ok ()" using release_active [OF act] assms(4) by simp
  then have gb: "given_back (w_pool w) l p'" using release_cases [OF assms(4)] by simp
  show ?thesis
    using ok given_back_bytes(1) [OF inv gb] release_inactive [OF given_back_inactive [OF inv gb refl]] by simp
qed

theorem release_extent_refines_witness:
  "\<exists>p'. release_extent (Ok ()) sample_lease sample_pool1 = (Ok (), p')
     \<and> pool_bytes p' = set_status sample_lease Free (pool_bytes sample_pool1)
     \<and> release_extent (Ok ()) sample_lease p' = (Err PoolUnknownLease, p')"
proof -
  obtain res p' where run: "release_extent (Ok ()) sample_lease (w_pool sample_world1) = (res, p')" by fastforce
  have "sample_lease \<in> w_leases sample_world1" by (simp add: sample_world1_def)
  from release_extent_refines [OF sample_built sample_reaches this run] run show ?thesis
    by (auto simp: sample_world1_def)
qed

lemma acquire_release_restores:
  assumes inv: "pool_inv p" and acq: "acquire_extent lk req p = (Ok l, p1)"
    and rel: "release_extent (Ok ()) l p1 = (res, p2)"
  shows "res = Ok ()" and "pool_bytes p2 = pool_bytes p" and "free_bytes (pl_state p2) = free_bytes (pl_state p)"
    and "leased_bytes (pl_state p2) = leased_bytes (pl_state p)" and "pool_inv p2"
proof -
  have c: "carved p req l p1" using acquire_cases [OF inv acq] by auto
  have inv1: "pool_inv p1" using carved_inv [OF inv c] .
  show ok: "res = Ok ()" using release_active [OF carved_active(1) [OF c]] rel by simp
  then have gb: "given_back p1 l p2" using release_cases [OF rel] by simp
  show inv2: "pool_inv p2" using given_back_inv [OF inv1 gb] .
  show "pool_bytes p2 = pool_bytes p"
    unfolding given_back_bytes(1) [OF inv1 gb] carved_bytes(1) [OF inv c]
    using carved_bytes(2) [OF inv c] by (auto simp: set_status_def fun_eq_iff)
  have "leased_bytes (pl_state p1) = leased_bytes (pl_state p) + rr_len (lease_range l)"
    using carved_leased [OF inv c] .
  moreover have "leased_bytes (pl_state p2) = saturating_sub (leased_bytes (pl_state p1)) (rr_len (lease_range l))"
    using gb by (auto simp: given_back_def Let_def record_is_lease_iff)
  ultimately show lb: "leased_bytes (pl_state p2) = leased_bytes (pl_state p)"
    by (simp add: saturating_sub_def)
  have "free_bytes (pl_state p2) + leased_bytes (pl_state p2) = free_bytes (pl_state p) + leased_bytes (pl_state p)"
    using inv inv2 c gb by (auto simp: pool_inv_def state_inv_def slot_sum_len carved_def given_back_def Let_def)
  then show "free_bytes (pl_state p2) = free_bytes (pl_state p)" using lb by simp
qed

text \<open>
  C38. Acquire followed by release is the identity on what the pool manages: the byte map and both
  byte counters are as before, and the table is again fully coalesced.
\<close>

theorem acquire_release_roundtrip:
  assumes "pool_built w0" and "reaches pool_step w0 w"
    and "acquire_extent lk req (w_pool w) = (Ok l, p1)" and "release_extent (Ok ()) l p1 = (res, p2)"
  shows "res = Ok () \<and> pool_bytes p2 = pool_bytes (w_pool w)
    \<and> free_bytes (pl_state p2) = free_bytes (pl_state (w_pool w))
    \<and> leased_bytes (pl_state p2) = leased_bytes (pl_state (w_pool w))
    \<and> coalesced (extents_of (pl_state p2))"
proof -
  have inv: "pool_inv (w_pool w)" using pool_sys.reachable_inv [OF assms(1,2)] by (simp add: world_inv_def)
  show ?thesis
    using acquire_release_restores [OF inv assms(3,4)] by (simp add: pool_inv_def state_inv_def)
qed

theorem acquire_release_roundtrip_witness:
  "\<exists>p2. release_extent (Ok ()) sample_lease sample_pool1 = (Ok (), p2)
     \<and> pool_bytes p2 = pool_bytes sample_pool \<and> free_bytes (pl_state p2) = free_bytes (pl_state sample_pool)"
proof -
  have run: "acquire_extent (Ok ()) sample_request (w_pool sample_world) = (Ok sample_lease, sample_pool1)"
    using sample_acquire by (simp add: sample_world_def)
  obtain res p2 where r: "release_extent (Ok ()) sample_lease sample_pool1 = (res, p2)" by fastforce
  from acquire_release_roundtrip [OF sample_built reaches.base run r] r show ?thesis
    by (auto simp: sample_world_def)
qed

text \<open>
  A lease identifier is never issued twice over the whole life of a pool, not even after its
  lease was released, because the counter stops at its maximum instead of wrapping.
\<close>

theorem lease_ids_never_reused:
  assumes "pool_built w0" and "reaches pool_step w0 w"
  shows "distinct (w_history w) \<and> 0 \<notin> set (w_history w)"
  using pool_sys.reachable_inv [OF assms] by (auto simp: world_inv_def issued_def)

theorem lease_ids_never_reused_witness:
  "reaches pool_step sample_world sample_world1 \<and> distinct (w_history sample_world1)"
  using lease_ids_never_reused [OF sample_built sample_reaches] sample_reaches by simp

text \<open>
  The usage reported for a member is exact: its free and leased bytes add up to the length of
  its usable range, and no saturating addition saturates.
\<close>

theorem member_usage_exact:
  assumes "pool_built w0" and "reaches pool_step w0 w"
    and "member_at (pl_members (w_pool w)) i = Some m"
  shows "let u = member_usage (extents_of (pl_state (w_pool w))) i in
     mu_free_bytes u + mu_leased_bytes u = rr_len (usable_range m)"
proof -
  have inv: "members_ok (pl_members (w_pool w))"
      "table_inv (pl_members (w_pool w)) (extents_of (pl_state (w_pool w)))"
    using pool_sys.reachable_inv [OF assms(1,2)] by (auto simp: world_inv_def pool_inv_def state_inv_def)
  have tot: "sum_list (map (member_len i) (flatten (extents_of (pl_state (w_pool w))))) = rr_len (usable_range m)"
    using member_extents_total [OF inv assms(3)] by (simp add: slot_sum_flatten)
  have "rr_len (usable_range m) \<le> usize_max" using member_bounds(1) [OF inv(1) assms(3)] by linarith
  then show ?thesis
    using usage_fold [of "\<lparr>mu_free_bytes = 0, mu_leased_bytes = 0, mu_largest_free_extent = 0\<rparr>" i
        "flatten (extents_of (pl_state (w_pool w)))"] tot
    by (simp add: member_usage_def)
qed

theorem member_usage_exact_witness:
  "mu_free_bytes (member_usage (extents_of (pl_state sample_pool1)) 0)
     + mu_leased_bytes (member_usage (extents_of (pl_state sample_pool1)) 0) = 256"
proof -
  have m: "member_at (pl_members (w_pool sample_world1)) 0 = Some sample_member"
    by (simp add: sample_world1_def sample_pool1_def sample_acquire_eq)
      (simp add: sample_pool_def sample_from_builder member_at_def)
  from member_usage_exact [OF sample_built sample_reaches m] show ?thesis
    by (simp add: sample_world1_def sample_member_def Let_def)
qed

text \<open>
  The pool statistics are consistent: the total never changes from the capacity of the
  members, used and vacant extent slots add up to the table size, and the largest free extent is
  the maximum over the free records.
\<close>

theorem pool_stats_consistent:
  assumes "pool_built w0" and "reaches pool_step w0 w" and "pool_stats_op (Ok ()) (w_pool w) = Ok st"
  shows "total_bytes st = total_capacity (pl_members (w_pool w))
    \<and> extent_slots_used st + extent_slots_free st = length (extents_of (pl_state (w_pool w)))
    \<and> extent_slots_used st = length (flatten (extents_of (pl_state (w_pool w))))"
proof -
  let ?s = "pl_state (w_pool w)"
  have inv: "state_inv (pl_members (w_pool w)) ?s"
    using pool_sys.reachable_inv [OF assms(1,2)] by (auto simp: world_inv_def pool_inv_def)
  have st: "st = state_stats ?s (member_count (w_pool w))" using assms(3) by (simp add: pool_stats_op_def)
  have "length (filter (\<lambda>r. ex_disposition r = Free) rs) + length (filter (\<lambda>r. ex_disposition r \<noteq> Free) rs)
      = length rs" for rs by (rule sum_length_filter_compl)
  then show ?thesis using inv length_flatten_le [of "extents_of ?s"] unfolding st
    by (auto simp: state_stats_def Let_def state_inv_def slot_sum_len saturating_add_def saturating_sub_def)
qed

theorem pool_stats_consistent_witness:
  "\<exists>st. pool_stats_op (Ok ()) sample_pool1 = Ok st \<and> total_bytes st = 256"
proof -
  obtain st where st: "pool_stats_op (Ok ()) (w_pool sample_world1) = Ok st"
    by (simp add: pool_stats_op_def)
  from pool_stats_consistent [OF sample_built sample_reaches st] st show ?thesis
    by (simp add: sample_world1_def sample_pool1_def sample_acquire_eq)
      (simp add: sample_pool_def sample_from_builder total_capacity_def sample_member_def)
qed

end
