(* ===== verification/Alloc_Layout.thy ===== *)
theory Alloc_Layout
  imports Mem_Pool_Props
begin

text \<open>
  The vocabulary shared by the allocators of \<open>fusion-sys/alloc/\<close>: errors and their conversions
  (\<open>error.rs\<close>), requests and results (\<open>alloc.rs\<close>), policies (\<open>policy.rs\<close>), the front-loaded
  metadata layout (\<open>metadata.rs\<close>), extents assigned from a pool and extent leases (\<open>alloc.rs\<close>),
  and reference-counted control leases (\<open>control.rs\<close>).

  \<open>size_of\<close> and \<open>align_of\<close> of the metadata types are chosen by the compiler; they are parameters
  of the definitions, and the hypotheses on them are Rust's layout guarantees (a non-zero size and
  a power-of-two alignment).
\<close>

datatype alloc_error_kind =
    AllocInvalidRequest
  | AllocInvalidDomain
  | AllocUnsupported
  | AllocPolicyDenied
  | AllocBusy
  | AllocMetadataExhausted
  | AllocCapacityExhausted
  | AllocOutOfMemory
  | AllocResourceFailure resource_error_kind
  | AllocPoolFailure pool_error_kind
  | AllocSynchronizationFailure sync_error_kind

fun alloc_from_resource_error :: "resource_error_kind \<Rightarrow> alloc_error_kind" where
  "alloc_from_resource_error ResOutOfMemory = AllocOutOfMemory"
| "alloc_from_resource_error k = AllocResourceFailure k"

fun alloc_from_pool_error :: "pool_error_kind \<Rightarrow> alloc_error_kind" where
  "alloc_from_pool_error PoolCapacityExhausted = AllocCapacityExhausted"
| "alloc_from_pool_error PoolMetadataExhausted = AllocCapacityExhausted"
| "alloc_from_pool_error k = AllocPoolFailure k"

record alloc_request =
  ar_len :: usize
  ar_align :: usize
  ar_zeroed :: bool

definition alloc_request_new :: "usize \<Rightarrow> alloc_request" where
  "alloc_request_new n = \<lparr>ar_len = n, ar_align = 1, ar_zeroed = False\<rparr>"

definition alloc_request_zeroed :: "usize \<Rightarrow> alloc_request" where
  "alloc_request_zeroed n = \<lparr>ar_len = n, ar_align = 1, ar_zeroed = True\<rparr>"

datatype allocation_backing =
    SlabSlot (ab_marker: usize) (ab_lease: u64) (ab_slot: usize)
  | ArenaBlock (ab_marker: usize) (ab_lease: u64) (ab_offset: usize) (ab_len: usize)

record alloc_result =
  res_ptr :: usize
  res_len :: usize
  res_align :: usize
  res_domain :: memory_domain
  res_attrs :: flags32
  res_hazards :: flags32
  res_geometry :: memory_geometry
  res_backing :: allocation_backing

definition alloc_align_up :: "usize \<Rightarrow> usize \<Rightarrow> (usize, alloc_error_kind) result" where
  "alloc_align_up v a =
     (if a = 0 \<or> \<not> is_power_of_two a then Err AllocInvalidRequest
      else ok_or AllocInvalidRequest (map_option (\<lambda>r. and_not r (a - 1)) (checked_add v (a - 1))))"

lemma alloc_align_up_eq: "alloc_align_up v a = ok_or AllocInvalidRequest (align_up v a)"
  by (auto simp: alloc_align_up_def align_up_def checked_sub_def split: option.split)

lemma alloc_align_up_Ok_iff: "alloc_align_up v a = Ok w \<longleftrightarrow> align_up v a = Some w"
  by (simp add: alloc_align_up_eq)

section \<open>Policies\<close>

text \<open>\<open>AllocModeSet\<close> and \<open>CriticalSafetyRequirements\<close> as 32-bit flag words.\<close>

abbreviation (input) MODE_SLAB :: flags32 where "MODE_SLAB \<equiv> 1"
abbreviation (input) MODE_ARENA :: flags32 where "MODE_ARENA \<equiv> 2"
abbreviation (input) MODE_HEAP :: flags32 where "MODE_HEAP \<equiv> 4"

record alloc_policy =
  modes :: flags32
  safety :: flags32

definition policy_allows :: "alloc_policy \<Rightarrow> flags32 \<Rightarrow> bool" where
  "policy_allows p m = contains_flags (modes p) m"

section \<open>Front-loaded metadata\<close>

datatype alloc_subsystem_kind = SubSlab | SubBoundedArena | SubArena | SubHeap | SubControl

record metadata_page_header =
  subsystem :: alloc_subsystem_kind
  metadata_len :: usize
  payload_offset :: usize
  payload_len :: usize
  overflow_next :: usize

definition metadata_page_header_new ::
    "alloc_subsystem_kind \<Rightarrow> usize \<Rightarrow> usize \<Rightarrow> usize \<Rightarrow> metadata_page_header" where
  "metadata_page_header_new k m off n = \<lparr>subsystem = k, metadata_len = m, payload_offset = off,
     payload_len = n, overflow_next = 0\<rparr>"

record front_metadata_layout =
  fl_metadata_len :: usize
  fl_payload_offset :: usize
  fl_payload_len :: usize
  fl_total_len :: usize
  fl_request_align :: usize

definition front_metadata_layout_with_policy ::
    "usize \<Rightarrow> usize \<Rightarrow> usize \<Rightarrow> usize \<Rightarrow> allocator_layout_policy \<Rightarrow>
     (front_metadata_layout, alloc_error_kind) result" where
  "front_metadata_layout_with_policy header_bytes header_align plen palign lp =
     (if header_bytes = 0 \<or> header_align = 0 \<or> plen = 0 \<or> palign = 0
         \<or> \<not> is_power_of_two header_align \<or> \<not> is_power_of_two palign
      then Err AllocInvalidRequest
      else
        let request_align = max (max (min_extent_align lp) header_align) palign in
        bind_result (alloc_align_up header_bytes (metadata_granule lp)) (\<lambda>mlen.
        bind_result (alloc_align_up mlen palign) (\<lambda>poff.
        bind_result (ok_or AllocInvalidRequest (checked_add poff plen)) (\<lambda>total.
          Ok \<lparr>fl_metadata_len = mlen, fl_payload_offset = poff, fl_payload_len = plen,
              fl_total_len = total, fl_request_align = request_align\<rparr>))))"

lemma front_metadata_layout_OkD:
  assumes "front_metadata_layout_with_policy hb ha plen pal lp = Ok l"
  shows "hb \<le> fl_metadata_len l" and "fl_metadata_len l \<le> fl_payload_offset l"
    and "pal dvd fl_payload_offset l" and "metadata_granule lp dvd fl_metadata_len l"
    and "fl_total_len l = fl_payload_offset l + plen" and "fl_total_len l \<le> usize_max"
    and "fl_payload_len l = plen" and "0 < plen" and "is_power_of_two pal" and "is_power_of_two ha"
    and "ha \<le> fl_request_align l" and "pal \<le> fl_request_align l"
    and "fl_request_align l = max (max (min_extent_align lp) ha) pal"
proof -
  obtain mlen poff where m: "align_up hb (metadata_granule lp) = Some mlen"
    and p: "align_up mlen pal = Some poff" and t: "poff + plen \<le> usize_max"
    and l: "l = \<lparr>fl_metadata_len = mlen, fl_payload_offset = poff, fl_payload_len = plen,
      fl_total_len = poff + plen, fl_request_align = max (max (min_extent_align lp) ha) pal\<rparr>"
    and g: "0 < plen" "is_power_of_two pal" "is_power_of_two ha"
    using assms
    by (auto simp: front_metadata_layout_with_policy_def Let_def bind_result_Ok_iff
        alloc_align_up_Ok_iff checked_iffs split: if_splits)
  note mm = align_up_SomeD [OF m] and pp = align_up_SomeD [OF p]
  show "hb \<le> fl_metadata_len l" "fl_metadata_len l \<le> fl_payload_offset l" "pal dvd fl_payload_offset l"
    "metadata_granule lp dvd fl_metadata_len l" "fl_total_len l = fl_payload_offset l + plen"
    "fl_total_len l \<le> usize_max" "fl_payload_len l = plen" "0 < plen" "is_power_of_two pal"
    "is_power_of_two ha" "ha \<le> fl_request_align l" "pal \<le> fl_request_align l"
    "fl_request_align l = max (max (min_extent_align lp) ha) pal"
    using mm pp t g l by auto
qed

text \<open>
  At a base that satisfies the requested alignment, the payload is aligned and lies behind the
  metadata.
\<close>

lemma front_layout_payload_aligned:
  assumes l: "front_metadata_layout_with_policy hb ha plen pal lp = Ok l"
    and me: "is_power_of_two (min_extent_align lp)" and b: "fl_request_align l dvd base"
  shows "pal dvd base + fl_payload_offset l" and "ha dvd base"
proof -
  note f = front_metadata_layout_OkD [OF l]
  have pw: "is_power_of_two (fl_request_align l)"
    unfolding f(13) by (intro is_power_of_two_max me f(9,10))
  have "pal dvd base" using dvd_trans [OF is_power_of_two_dvd [OF f(9) pw f(12)] b] .
  then show "pal dvd base + fl_payload_offset l" using f(3) by (rule dvd_add)
  show "ha dvd base" using dvd_trans [OF is_power_of_two_dvd [OF f(10) pw f(11)] b] .
qed

section \<open>Extents assigned from a pool\<close>

text \<open>
  \<open>assign\<close> makes three calls on the pool, each taking the state lock: \<open>lk1\<close>, \<open>lk2\<close> and \<open>lk3\<close>
  are their outcomes. \<open>MemoryPoolLease\<close> has no \<open>Drop\<close>, so a lease that goes out of scope on an
  error path stays recorded in the pool.
\<close>

record assigned_pool_extent =
  ape_pool_marker :: usize
  ape_lease :: "pool_lease option"
  ape_lease_id :: u64
  ape_region :: region
  ape_member :: member_info

definition lease_region :: "lock_outcome \<Rightarrow> pool_lease \<Rightarrow> memory_pool \<Rightarrow> (region, alloc_error_kind) result" where
  "lease_region lk l p = map_err alloc_from_pool_error (lease_view lk l p)"

definition assign :: "lock_outcome \<Rightarrow> lock_outcome \<Rightarrow> lock_outcome \<Rightarrow> usize \<Rightarrow> extent_request \<Rightarrow> memory_pool \<Rightarrow>
    (assigned_pool_extent, alloc_error_kind) result \<times> memory_pool" where
  "assign lk1 lk2 lk3 marker req p =
     (case acquire_extent lk1 req p of
        (Err e, p1) \<Rightarrow> (Err (alloc_from_pool_error e), p1)
      | (Ok lease, p1) \<Rightarrow>
         (bind_result (map_err alloc_from_pool_error (member_info_op lk2 (lease_member lease) p1)) (\<lambda>m.
          bind_result (lease_region lk3 lease p1) (\<lambda>r.
            Ok \<lparr>ape_pool_marker = marker, ape_lease = Some lease, ape_lease_id = lease_id lease,
                ape_region = r, ape_member = m\<rparr>)), p1))"

definition drop_assigned_extent :: "lock_outcome \<Rightarrow> assigned_pool_extent \<Rightarrow> memory_pool \<Rightarrow>
    assigned_pool_extent \<times> memory_pool" where
  "drop_assigned_extent lk e p =
     (case ape_lease e of
        None \<Rightarrow> (e, p)
      | Some l \<Rightarrow> (e\<lparr>ape_lease := None\<rparr>, snd (release_extent lk l p)))"

lemma assign_granted:
  assumes inv: "pool_inv p" and acq: "acquire_extent lk1 req p = (Ok l, p1)"
  shows "\<exists>m. assign lk1 (Ok ()) (Ok ()) marker req p =
       (Ok \<lparr>ape_pool_marker = marker, ape_lease = Some l, ape_lease_id = lease_id l,
            ape_region = pool_region_of p1 l, ape_member = m\<rparr>, p1)"
proof -
  have c: "carved p req l p1" using acquire_cases [OF inv acq] by auto
  have inv1: "pool_inv p1" using carved_inv [OF inv c] .
  have ad: "addressable (pl_members p1) l" using c by (auto simp: carved_def Let_def addressable_def)
  obtain m where m: "member_at (pl_members p1) (lease_member l) = Some m"
    "lease_view (Ok ()) l p1 = Ok \<lparr>rg_base = handle_base (mem_handle m) + rr_offset (lease_range l),
       rg_len = rr_len (lease_range l)\<rparr>"
    using active_lease_view [OF inv1 carved_active(1) [OF c] ad] by blast
  then show ?thesis using acq
    by (simp add: assign_def member_info_op_def lease_region_def pool_region_of_def)
qed

lemma assign_Ok_cases:
  assumes "assign lk1 lk2 lk3 marker req p = (Ok e, p1)"
  obtains l where "acquire_extent lk1 req p = (Ok l, p1)" and "ape_lease e = Some l"
    and "ape_lease_id e = lease_id l" and "lease_view lk3 l p1 = Ok (ape_region e)"
    and "ape_pool_marker e = marker"
proof (cases "fst (acquire_extent lk1 req p)")
  case (Ok l)
  obtain q where q: "acquire_extent lk1 req p = (Ok l, q)" using Ok by (metis prod.collapse)
  show thesis
  proof (rule that)
    show "acquire_extent lk1 req p = (Ok l, p1)" using assms q by (simp add: assign_def)
  qed (use assms q in \<open>auto simp: assign_def bind_result_Ok_iff lease_region_def\<close>)
next
  case (Err x)
  then show thesis using assms by (auto simp: assign_def split: prod.splits)
qed

section \<open>Control leases\<close>

text \<open>
  One control block in the memory of an extent: the shared header, the value and the extent it
  lives in. \<open>cb_size\<close> and \<open>cb_align\<close> are \<open>size_of\<close> and \<open>align_of\<close> of the block. A null base
  is refused by \<open>NonNull::new\<close>.
\<close>

record 'v control_block =
  cb_header :: shared_header
  cb_value :: 'v
  cb_extent :: assigned_pool_extent

definition control_extent_request :: "usize \<Rightarrow> usize \<Rightarrow> (extent_request, alloc_error_kind) result" where
  "control_extent_request cb_size cb_align =
     (if cb_size = 0 then Err AllocInvalidRequest else Ok \<lparr>req_len = cb_size, req_align = cb_align\<rparr>)"

text \<open>
  Constructors take their extent by value: on an error return it is dropped, which gives it back
  to its pool.
\<close>

definition drop_on_error :: "lock_outcome \<Rightarrow> assigned_pool_extent \<Rightarrow> memory_pool \<Rightarrow> ('a, 'e) result \<Rightarrow>
    ('a, 'e) result \<times> memory_pool" where
  "drop_on_error lk e p r = (r, if is_ok r then p else snd (drop_assigned_extent lk e p))"

definition control_place :: "usize \<Rightarrow> usize \<Rightarrow> assigned_pool_extent \<Rightarrow> 'v \<Rightarrow>
    ('v control_block, alloc_error_kind) result" where
  "control_place cb_size cb_align e v =
     (if rg_len (ape_region e) < cb_size then Err AllocInvalidRequest
      else if \<not> is_multiple_of (rg_base (ape_region e)) cb_align then Err AllocInvalidRequest
      else if rg_base (ape_region e) = 0 then Err AllocInvalidRequest
      else Ok \<lparr>cb_header = shared_header_new, cb_value = v, cb_extent = e\<rparr>)"

definition control_new :: "lock_outcome \<Rightarrow> usize \<Rightarrow> usize \<Rightarrow> assigned_pool_extent \<Rightarrow> 'v \<Rightarrow> memory_pool \<Rightarrow>
    ('v control_block, alloc_error_kind) result \<times> memory_pool" where
  "control_new lk cb_size cb_align e v p = drop_on_error lk e p (control_place cb_size cb_align e v)"

lemma drop_on_error_Ok_iff: "drop_on_error lk e p r = (Ok x, p') \<longleftrightarrow> r = Ok x \<and> p' = p"
  by (auto simp: drop_on_error_def)

definition control_try_clone :: "'v control_block \<Rightarrow> (unit, alloc_error_kind) result \<times> 'v control_block" where
  "control_try_clone b = (case try_retain (cb_header b) of
     (r, h) \<Rightarrow> (map_err AllocSynchronizationFailure r, b\<lparr>cb_header := h\<rparr>))"

definition control_drop :: "lock_outcome \<Rightarrow> 'v control_block \<Rightarrow> memory_pool \<Rightarrow> 'v control_block \<times> memory_pool" where
  "control_drop lk b p = (case shared_header_release (cb_header b) of
      (Err e, h) \<Rightarrow> (b\<lparr>cb_header := h\<rparr>, p)
    | (Ok Remaining, h) \<Rightarrow> (b\<lparr>cb_header := h\<rparr>, p)
    | (Ok Last, h) \<Rightarrow> (case drop_assigned_extent lk (cb_extent b) p of
         (e, p') \<Rightarrow> (b\<lparr>cb_header := h, cb_extent := e\<rparr>, p')))"

section \<open>Extent leases\<close>

record extent_lease_state =
  el_payload_offset :: usize
  el_len :: usize
  el_align :: usize

definition payload_offset_for_request :: "usize \<Rightarrow> usize \<Rightarrow> extent_request \<Rightarrow> (usize, alloc_error_kind) result" where
  "payload_offset_for_request cb_size cb_align req =
     bind_result (ok_or AllocInvalidRequest (checked_sub (max (req_align req) cb_align) 1)) (\<lambda>msk.
       ok_or AllocInvalidRequest (map_option (\<lambda>v. and_not v msk) (checked_add cb_size msk)))"

definition extent_lease_request :: "usize \<Rightarrow> usize \<Rightarrow> extent_request \<Rightarrow> (extent_request, alloc_error_kind) result" where
  "extent_lease_request cb_size cb_align req =
     (if req_len req = 0 \<or> req_align req = 0 \<or> \<not> is_power_of_two (req_align req)
      then Err AllocInvalidRequest
      else bind_result (payload_offset_for_request cb_size cb_align req) (\<lambda>off.
           bind_result (ok_or AllocInvalidRequest (checked_add off (req_len req))) (\<lambda>n.
             Ok \<lparr>req_len = n, req_align = max (req_align req) cb_align\<rparr>)))"

definition extent_lease_new :: "lock_outcome \<Rightarrow> usize \<Rightarrow> usize \<Rightarrow> assigned_pool_extent \<Rightarrow> extent_request \<Rightarrow>
    memory_pool \<Rightarrow> (extent_lease_state control_block, alloc_error_kind) result \<times> memory_pool" where
  "extent_lease_new lk cb_size cb_align e req p =
     drop_on_error lk e p
      (bind_result (payload_offset_for_request cb_size cb_align req) (\<lambda>off.
       bind_result (ok_or AllocInvalidRequest (checked_add (rg_base (ape_region e)) off)) (\<lambda>pb.
         if rg_len (ape_region e) < saturating_add off (req_len req) \<or> \<not> is_multiple_of pb (req_align req)
         then Err AllocInvalidRequest
         else control_place cb_size cb_align e \<lparr>el_payload_offset = off, el_len = req_len req,
                el_align = req_align req\<rparr>)))"

definition extent_lease_region :: "extent_lease_state control_block \<Rightarrow> region option" where
  "extent_lease_region b = map_option (\<lambda>a. \<lparr>rg_base = a, rg_len = el_len (cb_value b)\<rparr>)
     (checked_add (rg_base (ape_region (cb_extent b))) (el_payload_offset (cb_value b)))"

lemma payload_offset_eq:
  assumes "is_power_of_two (req_align req)" and "is_power_of_two cb_align"
  shows "payload_offset_for_request cb_size cb_align req
     = ok_or AllocInvalidRequest (align_up cb_size (max (req_align req) cb_align))"
proof -
  have "is_power_of_two (max (req_align req) cb_align)" "0 < max (req_align req) cb_align"
    using is_power_of_two_max [OF assms] is_power_of_two_pos by blast+
  then show ?thesis
    by (auto simp: payload_offset_for_request_def align_up_def checked_sub_def split: option.split)
qed

lemma control_drop_cases:
  "control_drop lk b p =
     (if refs (cb_header b) = 0 then (b, p)
      else if refs (cb_header b) = 1 then
        (b\<lparr>cb_header := \<lparr>refs = 0\<rparr>, cb_extent := fst (drop_assigned_extent lk (cb_extent b) p)\<rparr>,
         snd (drop_assigned_extent lk (cb_extent b) p))
      else (b\<lparr>cb_header := \<lparr>refs = refs (cb_header b) - 1\<rparr>\<rparr>, p))"
  by (cases "cb_header b") (auto simp: control_drop_def shared_header_release_eq split: prod.split)

lemma control_try_clone_eq:
  "control_try_clone b =
     (if refs (cb_header b) = 0 then (Err (AllocSynchronizationFailure SyncInvalid), b)
      else if refs (cb_header b) + 1 \<le> usize_max
      then (Ok (), b\<lparr>cb_header := \<lparr>refs = refs (cb_header b) + 1\<rparr>\<rparr>)
      else (Err (AllocSynchronizationFailure SyncOverflow), b))"
  by (cases "cb_header b") (auto simp: control_try_clone_def try_retain_eq)

text \<open>A control block with several owners: the clones and the drops that happen to it, in any order.\<close>

datatype control_op = CloneControl | DropControl lock_outcome

fun control_step :: "control_op \<Rightarrow> 'v control_block \<times> memory_pool \<Rightarrow> 'v control_block \<times> memory_pool" where
  "control_step CloneControl (b, p) = (snd (control_try_clone b), p)"
| "control_step (DropControl lk) (b, p) = control_drop lk b p"

lemma control_step_shared:
  assumes "1 < refs (cb_header b)" and "control_step a (b, p) = (b', p')"
  shows "p' = p \<and> cb_extent b' = cb_extent b \<and> cb_value b' = cb_value b \<and> 0 < refs (cb_header b')"
  using assms by (cases a) (auto simp: control_drop_cases control_try_clone_eq)

lemma drop_assigned_releases:
  assumes "ape_lease e = Some l"
  shows "drop_assigned_extent lk e p = (e\<lparr>ape_lease := None\<rparr>, snd (release_extent lk l p))"
  using assms by (simp add: drop_assigned_extent_def)

fun run_control :: "control_op list \<Rightarrow> 'v control_block \<times> memory_pool \<Rightarrow> 'v control_block \<times> memory_pool" where
  "run_control [] s = s"
| "run_control (a # as) s = run_control as (control_step a s)"

text \<open>Before its last owner drops it, a block and the pool under it stay as they are.\<close>

lemma run_control_kept:
  assumes "run_control as (b, p) = (b', p')" and "0 < refs (cb_header b')"
  shows "0 < refs (cb_header b) \<and> p' = p \<and> cb_extent b' = cb_extent b \<and> cb_value b' = cb_value b"
  using assms
proof (induction as arbitrary: b p)
  case (Cons a as)
  obtain b1 p1 where s: "control_step a (b, p) = (b1, p1)" by fastforce
  with Cons have r: "0 < refs (cb_header b1)" "p' = p1" "cb_extent b' = cb_extent b1" "cb_value b' = cb_value b1"
    by auto
  have "0 < refs (cb_header b) \<and> p1 = p \<and> cb_extent b1 = cb_extent b \<and> cb_value b1 = cb_value b"
    using s r(1) by (cases a) (auto simp: control_drop_cases control_try_clone_eq split: if_splits)
  with r show ?case by simp
qed simp

lemma run_control_dead:
  "refs (cb_header b) = 0 \<Longrightarrow> run_control as (b, p) = (b, p)"
proof (induction as)
  case (Cons a as)
  then show ?case by (cases a) (simp_all add: control_drop_cases control_try_clone_eq)
qed simp

lemma run_control_append: "run_control (as @ bs) s = run_control bs (run_control as s)"
  by (induction as arbitrary: s) simp_all

lemma run_control_ends:
  assumes "run_control as (b, p) = (b', p')" and "0 < refs (cb_header b)" and "refs (cb_header b') = 0"
    and "ape_lease (cb_extent b) = Some l"
  shows "\<exists>lk. p' = snd (release_extent lk l p) \<and> DropControl lk \<in> set as \<and> ape_lease (cb_extent b') = None"
  using assms
proof (induction as arbitrary: b p)
  case (Cons a as)
  obtain b1 p1 where s: "control_step a (b, p) = (b1, p1)" by fastforce
  show ?case
  proof (cases "refs (cb_header b1) = 0")
    case True
    then obtain lk where lk: "a = DropControl lk" "refs (cb_header b) = 1"
      using s Cons.prems(2) by (cases a) (auto simp: control_drop_cases control_try_clone_eq split: if_splits)
    have "(b', p') = (b1, p1)" using Cons.prems(1) s run_control_dead [OF True] by simp
    then show ?thesis
      using s lk drop_assigned_releases [OF Cons.prems(4), of lk p] by (auto simp: control_drop_cases)
  next
    case False
    then have "run_control [a] (b, p) = (b1, p1)" "0 < refs (cb_header b1)" using s by simp_all
    from run_control_kept [OF this] show ?thesis
      using Cons.IH [of b1 p1] Cons.prems s False by auto
  qed
qed simp

section \<open>Properties\<close>

text \<open>
  The extent behind a control block is returned to its pool exactly once, by the last owner.
  Whatever sequence of clones and drops runs on a block that was just created: while owners
  remain, the pool, the extent and the value are untouched; once none remains, the pool is the
  one that a single \<open>release_extent\<close> of the lease leaves, and every later call changes nothing.
\<close>

theorem control_extent_released_once:
  assumes "control_new lk0 cs ca e v p = (Ok b, p0)" and "ape_lease e = Some l"
    and "run_control as (b, p) = (b', p')"
  shows "if 0 < refs (cb_header b') then p' = p \<and> cb_extent b' = e \<and> cb_value b' = v
     else (\<exists>lk. p' = snd (release_extent lk l p) \<and> DropControl lk \<in> set as)
        \<and> (\<forall>bs. run_control (as @ bs) (b, p) = (b', p'))"
proof -
  have b: "refs (cb_header b) = 1" "cb_extent b = e" "cb_value b = v"
    using assms(1)
    by (auto simp: control_new_def drop_on_error_Ok_iff control_place_def shared_header_new_def split: if_splits)
  show ?thesis
    using run_control_kept [OF assms(3)] run_control_ends [OF assms(3)] run_control_dead [of b'] b assms(2,3)
    by (auto simp: run_control_append)
qed

text \<open>The extent that a sample pool assigns, and a control block on it.\<close>

definition sample_extent :: assigned_pool_extent where
  "sample_extent = the_ok (fst (assign (Ok ()) (Ok ()) (Ok ()) 7 sample_request sample_pool))"

lemma sample_assign:
  "assign (Ok ()) (Ok ()) (Ok ()) 7 sample_request sample_pool = (Ok sample_extent, sample_pool1)"
  "ape_lease sample_extent = Some sample_lease" "ape_lease_id sample_extent = 1"
  "ape_pool_marker sample_extent = 7"
  "ape_region sample_extent = \<lparr>rg_base = 4128, rg_len = 64\<rparr>"
proof -
  obtain m where m: "assign (Ok ()) (Ok ()) (Ok ()) 7 sample_request sample_pool =
     (Ok \<lparr>ape_pool_marker = 7, ape_lease = Some sample_lease, ape_lease_id = lease_id sample_lease,
       ape_region = pool_region_of sample_pool1 sample_lease, ape_member = m\<rparr>, sample_pool1)"
    using assign_granted [OF sample_inv(1) sample_acquire] by blast
  have "pool_region_of sample_pool1 sample_lease = \<lparr>rg_base = 4128, rg_len = 64\<rparr>"
    by (simp add: pool_region_of_def sample_pool1_def sample_acquire_eq)
      (simp add: sample_pool_def sample_from_builder member_at_def sample_member_def sample_lease_def)
  with m show "assign (Ok ()) (Ok ()) (Ok ()) 7 sample_request sample_pool = (Ok sample_extent, sample_pool1)"
    "ape_lease sample_extent = Some sample_lease" "ape_lease_id sample_extent = 1"
    "ape_pool_marker sample_extent = 7" "ape_region sample_extent = \<lparr>rg_base = 4128, rg_len = 64\<rparr>"
    by (simp_all add: sample_extent_def sample_lease_def)
qed

theorem control_extent_released_once_witness:
  "\<exists>b b' p'. control_new (Ok ()) 24 8 sample_extent () sample_pool1 = (Ok b, sample_pool1)
     \<and> run_control [CloneControl, DropControl (Ok ()), DropControl (Ok ())] (b, sample_pool1) = (b', p')
     \<and> p' = snd (release_extent (Ok ()) sample_lease sample_pool1)"
proof -
  let ?ops = "[CloneControl, DropControl (Ok ()), DropControl (Ok ())]"
  obtain b where b: "control_new (Ok ()) 24 8 sample_extent () sample_pool1 = (Ok b, sample_pool1)" "refs (cb_header b) = 1"
    by (simp add: control_new_def control_place_def drop_on_error_def sample_assign is_multiple_of_def shared_header_new_def)
  obtain b' p' where r: "run_control ?ops (b, sample_pool1) = (b', p')" by fastforce
  have "refs (cb_header b') = 0" using r b(2)
    by (auto simp: control_drop_cases control_try_clone_eq usize_max_def)
  then have "p' = snd (release_extent (Ok ()) sample_lease sample_pool1)"
    using control_extent_released_once [OF b(1) sample_assign(2) r] by auto
  with b(1) r show ?thesis by blast
qed

text \<open>
  An extent lease carved from a pool extent of the size and alignment that
  \<open>extent_request\<close> computed always succeeds. Its payload has the length and the alignment the
  caller asked for, starts behind the control block, and ends with the extent.
\<close>

theorem extent_lease_placed:
  assumes "pool_inv p" and "is_power_of_two cb_align"
    and req: "extent_lease_request cb_size cb_align req = Ok er"
    and asg: "assign lk1 (Ok ()) (Ok ()) marker er p = (Ok e, p1)"
    and addr: "0 < rg_base (ape_region e)" "rg_base (ape_region e) + rg_len (ape_region e) \<le> usize_max"
  shows "\<exists>b r. extent_lease_new lk cb_size cb_align e req p1 = (Ok b, p1) \<and> extent_lease_region b = Some r
     \<and> rg_len r = req_len req \<and> req_align req dvd rg_base r
     \<and> rg_base (ape_region e) + cb_size \<le> rg_base r
     \<and> rg_base r + rg_len r = rg_base (ape_region e) + rg_len (ape_region e)"
proof -
  let ?a = "max (req_align req) cb_align" and ?base = "rg_base (ape_region e)"
  have g: "is_power_of_two (req_align req)" using req by (auto simp: extent_lease_request_def split: if_splits)
  obtain off where off: "align_up cb_size ?a = Some off"
    and er: "er = \<lparr>req_len = off + req_len req, req_align = ?a\<rparr>"
    using req g assms(2)
    by (auto simp: extent_lease_request_def payload_offset_eq bind_result_Ok_iff checked_iffs split: if_splits)
  note al = align_up_SomeD [OF off]
  obtain l where l: "acquire_extent lk1 er p = (Ok l, p1)" "lease_view (Ok ()) l p1 = Ok (ape_region e)"
    using assign_Ok_cases [OF asg] by metis
  have c: "carved p er l p1" using acquire_cases [OF assms(1) l(1)] by auto
  have "addressable (pl_members p1) l" using c by (auto simp: carved_def Let_def addressable_def)
  from active_lease_view [OF carved_inv [OF assms(1) c] carved_active(1) [OF c] this] c l(2)
  have geo: "rg_len (ape_region e) = off + req_len req" "?a dvd ?base"
    by (auto simp: carved_def Let_def er)
  have d: "req_align req dvd ?a" "cb_align dvd ?a"
    by (rule is_power_of_two_dvd; use g assms(2) is_power_of_two_max in simp)+
  then have dvds: "req_align req dvd ?base" "cb_align dvd ?base" "req_align req dvd off"
    using geo(2) al(3) by (blast intro: dvd_trans)+
  have fits: "off + req_len req \<le> usize_max" using geo(1) addr(2) by linarith
  have "extent_lease_new lk cb_size cb_align e req p1 = (Ok \<lparr>cb_header = shared_header_new,
      cb_value = \<lparr>el_payload_offset = off, el_len = req_len req, el_align = req_align req\<rparr>, cb_extent = e\<rparr>, p1)"
    using g assms(2) off geo addr dvds al(4) fits
    by (auto simp: extent_lease_new_def payload_offset_eq control_place_def is_multiple_of_iff_dvd
        checked_add_def saturating_add_def drop_on_error_def)
  then show ?thesis
    using geo addr dvds al(4) by (auto simp: extent_lease_region_def checked_add_def)
qed

theorem extent_lease_placed_witness:
  "\<exists>b r. extent_lease_new (Ok ()) 24 8 sample_extent \<lparr>req_len = 32, req_align = 32\<rparr> sample_pool1 = (Ok b, sample_pool1)
     \<and> extent_lease_region b = Some r \<and> rg_len r = 32 \<and> 32 dvd rg_base r \<and> 4128 + 24 \<le> rg_base r"
proof -
  have p: "is_power_of_two 8" using is_power_of_two_power [of 3] by simp
  have req: "extent_lease_request 24 8 \<lparr>req_len = 32, req_align = 32\<rparr> = Ok sample_request"
    using p pow2_samples
    by (simp add: extent_lease_request_def payload_offset_eq align_up_eq checked_add_def usize_max_def
        sample_request_def)
  show ?thesis
    using extent_lease_placed [OF sample_inv(1) p req sample_assign(1), where lk = "Ok ()"]
    by (auto simp: sample_assign(5) usize_max_def)
qed

text \<open>
  When \<open>assign\<close> fails after the pool granted the extent (the second or the third critical
  section could not be entered), it returns the error and drops the lease without giving it
  back: the lease stays active in the pool and its bytes stay accounted as leased.
\<close>

theorem assign_error_keeps_lease:
  assumes "pool_inv p" and "acquire_extent lk1 req p = (Ok l, p1)"
    and "lk2 = Err k \<or> lk3 = Err k"
  shows "\<exists>err. assign lk1 lk2 lk3 marker req p = (Err err, p1)
     \<and> lease_is_active l (extents_of (pl_state p1))
     \<and> leased_bytes (pl_state p1) = leased_bytes (pl_state p) + req_len req"
proof -
  have c: "carved p req l p1" using acquire_cases [OF assms(1,2)] by auto
  have "rr_len (lease_range l) = req_len req" using c by (auto simp: carved_def Let_def)
  then have "lease_is_active l (extents_of (pl_state p1))"
    "leased_bytes (pl_state p1) = leased_bytes (pl_state p) + req_len req"
    using carved_active(1) [OF c] carved_leased [OF assms(1) c] by simp_all
  moreover have "\<not> is_ok (fst (assign lk1 lk2 lk3 marker req p))"
    using assms(2,3)
    by (auto simp: assign_def member_info_op_def lease_region_def lease_view_def bind_result_Ok_iff
        elim!: is_ok.elims)
  moreover have "snd (assign lk1 lk2 lk3 marker req p) = p1" using assms(2) by (simp add: assign_def)
  ultimately show ?thesis by (cases "assign lk1 lk2 lk3 marker req p") (auto elim: is_ok.elims)
qed

theorem assign_error_keeps_lease_witness:
  "\<exists>err. assign (Ok ()) (Err SyncBusy) (Ok ()) 7 sample_request sample_pool = (Err err, sample_pool1)
     \<and> lease_is_active sample_lease (extents_of (pl_state sample_pool1))"
  using assign_error_keeps_lease [OF sample_inv(1) sample_acquire, of "Err SyncBusy" SyncBusy "Ok ()" 7] by auto

end
