(* ===== verification/Alloc_Slab.thy ===== *)
theory Alloc_Slab
  imports Alloc_Layout
begin

text \<open>
  The slab allocator (\<open>fusion-sys/alloc/slab.rs\<close>): a stack of free slot indices and an occupancy
  array in the metadata at the front of one pool extent, fixed-size slots behind it.

  The const generics \<open>SIZE\<close> and \<open>COUNT\<close> and the lifetime typestate are fields of the model's
  record; \<open>md_size\<close> and \<open>md_align\<close> stand for \<open>size_of\<close> and \<open>align_of\<close> of \<open>SlabMetadata\<close>. The
  bytes behind the slots are a memory that allocation writes (zeroing, typed values). The two
  array accesses \<open>free[len]\<close> stay in bounds in every state that satisfies the invariant, so the
  panics of the source are unreachable.
\<close>

type_synonym byte_memory = "usize \<Rightarrow> 8 word"

definition write_bytes :: "usize \<Rightarrow> 8 word list \<Rightarrow> byte_memory \<Rightarrow> byte_memory" where
  "write_bytes a bs m = (\<lambda>x. if a \<le> x \<and> x < a + length bs then bs ! (x - a) else m x)"

lemma write_bytes_outside [simp]: "\<not> (a \<le> x \<and> x < a + length bs) \<Longrightarrow> write_bytes a bs m x = m x"
  by (auto simp: write_bytes_def)

record slab_state =
  free_slots :: "usize list"
  occupied :: "bool list"
  free_len :: usize

definition slab_state_new :: "usize \<Rightarrow> slab_state" where
  "slab_state_new count = \<lparr>free_slots = map (\<lambda>index. saturating_sub count (index + 1)) [0..<count],
     occupied = replicate count False, free_len = count\<rparr>"

definition allocate_slot :: "slab_state \<Rightarrow> usize option \<times> slab_state" where
  "allocate_slot st =
     (if free_len st = 0 then (None, st)
      else let st1 = st\<lparr>free_len := free_len st - 1\<rparr>; slot = free_slots st ! (free_len st - 1) in
        if \<not> slot < length (occupied st) then (None, st1)
        else if occupied st ! slot then (None, st1)
        else (Some slot, st1\<lparr>occupied := (occupied st)[slot := True]\<rparr>))"

definition release_slot :: "usize \<Rightarrow> usize \<Rightarrow> slab_state \<Rightarrow> (unit, alloc_error_kind) result \<times> slab_state" where
  "release_slot count slot st =
     (if \<not> slot < length (occupied st) then (Err AllocInvalidRequest, st)
      else if \<not> occupied st ! slot \<or> free_len st = count then (Err AllocInvalidRequest, st)
      else (Ok (), st\<lparr>occupied := (occupied st)[slot := False],
              free_slots := (free_slots st)[free_len st := slot], free_len := free_len st + 1\<rparr>))"

text \<open>
  The live part of the stack lists exactly the unoccupied slots, each once.
\<close>

definition slab_state_inv :: "usize \<Rightarrow> slab_state \<Rightarrow> bool" where
  "slab_state_inv count st \<longleftrightarrow> length (free_slots st) = count \<and> length (occupied st) = count
     \<and> free_len st \<le> count \<and> distinct (take (free_len st) (free_slots st))
     \<and> set (take (free_len st) (free_slots st)) = {i. i < count \<and> \<not> occupied st ! i}"

definition occupied_slots :: "slab_state \<Rightarrow> usize set" where
  "occupied_slots st = {i. i < length (occupied st) \<and> occupied st ! i}"

lemma slab_state_new_inv: "slab_state_inv count (slab_state_new count)"
proof -
  have "distinct (map (\<lambda>index. saturating_sub count (index + 1)) [0..<count])"
    by (auto simp: distinct_map inj_on_def saturating_sub_def)
  moreover have "set (map (\<lambda>index. saturating_sub count (index + 1)) [0..<count]) = {i. i < count}"
  proof (intro equalityI subsetI)
    fix i assume "i \<in> {i. i < count}"
    then have "i = saturating_sub count ((count - i - 1) + 1)" "count - i - 1 < count"
      by (auto simp: saturating_sub_def)
    then show "i \<in> set (map (\<lambda>index. saturating_sub count (index + 1)) [0..<count])"
      unfolding set_map set_upt by (intro image_eqI [of _ _ "count - i - 1"]) simp_all
  qed (auto simp: saturating_sub_def)
  ultimately show ?thesis
    unfolding slab_state_inv_def slab_state_new_def by (simp cong: conj_cong)
qed

lemma slab_state_new_occupied [simp]: "occupied_slots (slab_state_new count) = {}"
  by (auto simp: occupied_slots_def slab_state_new_def)

lemma occupied_slots_card:
  assumes "slab_state_inv count st"
  shows "card (occupied_slots st) + free_len st = count"
proof -
  let ?f = "{i. i < count \<and> \<not> occupied st ! i}"
  have i: "length (occupied st) = count" "distinct (take (free_len st) (free_slots st))"
    "set (take (free_len st) (free_slots st)) = ?f" "free_len st \<le> length (free_slots st)"
    using assms by (auto simp: slab_state_inv_def)
  have "card ?f = free_len st" using distinct_card [OF i(2)] i(3,4) by simp
  moreover have "occupied_slots st \<union> ?f = {..<count}" "occupied_slots st \<inter> ?f = {}"
    using i(1) by (auto simp: occupied_slots_def)
  moreover have "finite ?f" "finite (occupied_slots st)" by (auto simp: occupied_slots_def)
  ultimately show ?thesis using card_Un_disjoint [of "occupied_slots st" ?f] by simp
qed

lemma allocate_slot_cases:
  assumes inv: "slab_state_inv count st" and run: "allocate_slot st = (res, st')"
  obtains (exhausted) "res = None" "st' = st" "free_len st = 0"
    | (granted) slot where "res = Some slot" "slot < count" "slot \<notin> occupied_slots st"
        "slab_state_inv count st'" "occupied_slots st' = insert slot (occupied_slots st)"
        "free_len st = free_len st' + 1" "free_slots st' = free_slots st"
        "slot = free_slots st ! free_len st'" "occupied st' = (occupied st)[slot := True]"
proof (cases "free_len st")
  case 0
  then show thesis using run exhausted by (simp add: allocate_slot_def)
next
  case (Suc n)
  let ?fr = "free_slots st" and ?slot = "free_slots st ! n"
  have i: "length ?fr = count" "length (occupied st) = count" "n < count"
    "distinct (take (Suc n) ?fr)" "set (take (Suc n) ?fr) = {i. i < count \<and> \<not> occupied st ! i}"
    using inv Suc by (auto simp: slab_state_inv_def)
  have tk: "take (Suc n) ?fr = take n ?fr @ [?slot]" using i(1,3) by (simp add: take_Suc_conv_app_nth)
  then have "?slot \<in> {i. i < count \<and> \<not> occupied st ! i}" using i(5) by auto
  then have s: "?slot < count" "\<not> occupied st ! ?slot" by auto
  have r: "res = Some ?slot" "st' = st\<lparr>free_len := n, occupied := (occupied st)[?slot := True]\<rparr>"
    using run Suc s i(2) by (auto simp: allocate_slot_def Let_def)
  have "set (take n ?fr) = {i. i < count \<and> \<not> (occupied st)[?slot := True] ! i}"
    proof (intro set_eqI)
    fix x
    have "?slot \<notin> set (take n ?fr)" using i(4) tk by simp
    moreover have "x \<in> set (take n ?fr) \<or> x = ?slot \<longleftrightarrow> x < count \<and> \<not> occupied st ! x" using i(5) tk by auto
    ultimately show "x \<in> set (take n ?fr) \<longleftrightarrow> x \<in> {i. i < count \<and> \<not> (occupied st)[?slot := True] ! i}"
      using s(1) i(2) by (cases "x = ?slot") simp_all
  qed
  moreover have "distinct (take n ?fr)" using i(4) tk by simp
  ultimately have inv': "slab_state_inv count st'"
    using i(1-3) unfolding slab_state_inv_def r(2) by simp
  have occ: "occupied_slots st' = insert ?slot (occupied_slots st)"
    using s(1) i(2) unfolding r(2) by (intro set_eqI) (simp add: occupied_slots_def nth_list_update)
  show thesis
    by (rule granted [OF r(1) s(1) _ inv' occ]) (simp_all add: occupied_slots_def s(2) r(2) Suc)
qed

lemma release_slot_cases:
  assumes inv: "slab_state_inv count st" and run: "release_slot count slot st = (res, st')"
  obtains (rejected) "res = Err AllocInvalidRequest" "st' = st" "slot \<notin> occupied_slots st"
    | (released) "res = Ok ()" "slot \<in> occupied_slots st" "slab_state_inv count st'"
        "occupied_slots st' = occupied_slots st - {slot}" "free_len st' = free_len st + 1"
        "free_slots st' ! free_len st = slot" "occupied st' = (occupied st)[slot := False]"
        "\<forall>i<free_len st. free_slots st' ! i = free_slots st ! i"
proof (cases "slot \<in> occupied_slots st")
  case False
  then show thesis using run rejected by (auto simp: release_slot_def occupied_slots_def split: if_splits)
next
  case True
  let ?fr = "free_slots st" and ?n = "free_len st"
  have i: "length ?fr = count" "length (occupied st) = count"
    "distinct (take ?n ?fr)" "set (take ?n ?fr) = {i. i < count \<and> \<not> occupied st ! i}"
    using inv by (auto simp: slab_state_inv_def)
  have s: "slot < count" "occupied st ! slot" using True i(2) by (auto simp: occupied_slots_def)
  have "occupied_slots st \<noteq> {}" "finite (occupied_slots st)" using True by (auto simp: occupied_slots_def)
  then have n: "?n < count" using occupied_slots_card [OF inv] by (metis card_gt_0_iff less_add_same_cancel2)
  have r: "res = Ok ()" "st' = st\<lparr>occupied := (occupied st)[slot := False],
      free_slots := ?fr[?n := slot], free_len := ?n + 1\<rparr>"
    using run s n i(2) by (auto simp: release_slot_def)
  have tk: "take (?n + 1) (?fr[?n := slot]) = take ?n ?fr @ [slot]"
    using i(1) n by (simp add: take_Suc_conv_app_nth)
  have "set (take ?n ?fr @ [slot]) = {i. i < count \<and> \<not> (occupied st)[slot := False] ! i}"
    proof (intro set_eqI)
    fix x
    have "x \<in> set (take ?n ?fr) \<longleftrightarrow> x < count \<and> \<not> occupied st ! x" using i(4) by simp
    then show "x \<in> set (take ?n ?fr @ [slot]) \<longleftrightarrow> x \<in> {i. i < count \<and> \<not> (occupied st)[slot := False] ! i}"
      using s(1) i(2) by (cases "x = slot") simp_all
  qed
  moreover have "distinct (take ?n ?fr @ [slot])" using i(3,4) s(2) by simp
  ultimately have inv': "slab_state_inv count st'"
    using i(1,2) n tk unfolding slab_state_inv_def r(2) by simp
  have occ: "occupied_slots st' = occupied_slots st - {slot}"
    unfolding r(2) by (intro set_eqI, rename_tac x, case_tac "x = slot") (simp_all add: occupied_slots_def)
  show thesis
    by (rule released [OF r(1) True inv' occ]) (simp_all add: r(2) i(1) n)
qed

section \<open>The slab\<close>

record slab =
  sb_size :: usize
  sb_count :: usize
  sb_immortal :: bool
  sb_domain :: nat
  sb_policy :: alloc_policy
  sb_extent :: assigned_pool_extent
  sb_slot_align :: usize
  sb_header :: metadata_page_header
  sb_state :: slab_state

definition slab_slot_align :: "usize \<Rightarrow> (usize, alloc_error_kind) result" where
  "slab_slot_align sz = (if sz = 0 then Err AllocInvalidRequest else Ok (push_bit (trailing_zeros sz) 1))"

definition slab_extent_request :: "usize \<Rightarrow> usize \<Rightarrow> usize \<Rightarrow> usize \<Rightarrow> usize \<Rightarrow> allocator_layout_policy \<Rightarrow>
    (extent_request, alloc_error_kind) result" where
  "slab_extent_request md_size md_align sz count slot_align lp =
     (if sz = 0 \<or> count = 0 then Err AllocInvalidRequest
      else bind_result (ok_or AllocInvalidRequest (checked_mul sz count)) (\<lambda>plen.
           bind_result (front_metadata_layout_with_policy md_size md_align plen slot_align lp) (\<lambda>l.
             Ok \<lparr>req_len = fl_total_len l, req_align = fl_request_align l\<rparr>)))"

definition slab_place :: "usize \<Rightarrow> usize \<Rightarrow> usize \<Rightarrow> usize \<Rightarrow> bool \<Rightarrow> nat \<Rightarrow> alloc_policy \<Rightarrow> assigned_pool_extent \<Rightarrow>
    allocator_layout_policy \<Rightarrow> (slab, alloc_error_kind) result" where
  "slab_place md_size md_align sz count immortal domain policy e lp =
     (if sz = 0 \<or> count = 0 then Err AllocInvalidRequest
      else if \<not> policy_allows policy MODE_SLAB then Err AllocPolicyDenied
      else bind_result (slab_slot_align sz) (\<lambda>slot_align.
           bind_result (ok_or AllocInvalidRequest (checked_mul sz count)) (\<lambda>plen.
           bind_result (front_metadata_layout_with_policy md_size md_align plen slot_align lp) (\<lambda>l.
             if rg_len (ape_region e) < fl_total_len l \<or> \<not> is_multiple_of (rg_base (ape_region e)) md_align
             then Err AllocInvalidRequest
             else if rg_base (ape_region e) = 0 then Err AllocInvalidRequest
             else Ok \<lparr>sb_size = sz, sb_count = count, sb_immortal = immortal, sb_domain = domain,
                    sb_policy = policy, sb_extent = e, sb_slot_align = slot_align,
                    sb_header = metadata_page_header_new SubSlab (fl_metadata_len l)
                      (fl_payload_offset l) (fl_payload_len l),
                    sb_state = slab_state_new count\<rparr>))))"

definition slab_from_assigned_extent :: "lock_outcome \<Rightarrow> usize \<Rightarrow> usize \<Rightarrow> usize \<Rightarrow> usize \<Rightarrow> bool \<Rightarrow> nat \<Rightarrow>
    alloc_policy \<Rightarrow> assigned_pool_extent \<Rightarrow> allocator_layout_policy \<Rightarrow> memory_pool \<Rightarrow>
    (slab, alloc_error_kind) result \<times> memory_pool" where
  "slab_from_assigned_extent lk md_size md_align sz count immortal domain policy e lp p =
     drop_on_error lk e p (slab_place md_size md_align sz count immortal domain policy e lp)"

definition slab_payload_base :: "slab \<Rightarrow> (usize, alloc_error_kind) result" where
  "slab_payload_base s =
     ok_or AllocInvalidRequest (checked_add (rg_base (ape_region (sb_extent s))) (payload_offset (sb_header s)))"

text \<open>The address of a slot, with the source's checks for overflow and for null.\<close>

definition slab_slot_ptr :: "slab \<Rightarrow> usize \<Rightarrow> (usize, alloc_error_kind) result" where
  "slab_slot_ptr s slot =
     bind_result (slab_payload_base s) (\<lambda>base.
     bind_result (ok_or AllocInvalidRequest (checked_mul slot (sb_size s))) (\<lambda>off.
     bind_result (ok_or AllocInvalidRequest (checked_add base off)) (\<lambda>addr.
       if addr = 0 then Err AllocInvalidRequest else Ok addr)))"

definition slab_result :: "slab \<Rightarrow> usize \<Rightarrow> usize \<Rightarrow> alloc_result" where
  "slab_result s ptr slot = \<lparr>res_ptr = ptr, res_len = sb_size s, res_align = sb_slot_align s,
     res_domain = env_domain (mi_compatibility (ape_member (sb_extent s))),
     res_attrs = env_attrs (mi_compatibility (ape_member (sb_extent s))),
     res_hazards = env_hazards (mi_compatibility (ape_member (sb_extent s))),
     res_geometry = env_geometry (mi_compatibility (ape_member (sb_extent s))),
     res_backing = SlabSlot (ape_pool_marker (sb_extent s)) (ape_lease_id (sb_extent s)) slot\<rparr>"

text \<open>The critical section shared by both allocation paths.\<close>

definition slab_take_slot :: "lock_outcome \<Rightarrow> slab \<Rightarrow> (usize, alloc_error_kind) result \<times> slab" where
  "slab_take_slot lk s = (case lk of
      Err k \<Rightarrow> (Err (AllocSynchronizationFailure k), s)
    | Ok _ \<Rightarrow> (case allocate_slot (sb_state s) of
        (r, st) \<Rightarrow> (ok_or AllocCapacityExhausted r, s\<lparr>sb_state := st\<rparr>)))"

definition slab_allocate_untyped :: "lock_outcome \<Rightarrow> alloc_request \<Rightarrow> slab \<Rightarrow> byte_memory \<Rightarrow>
    (alloc_result, alloc_error_kind) result \<times> slab \<times> byte_memory" where
  "slab_allocate_untyped lk req s m =
     (if ar_len req = 0 \<or> ar_align req = 0 \<or> \<not> is_power_of_two (ar_align req)
      then (Err AllocInvalidRequest, s, m)
      else if sb_size s < ar_len req \<or> sb_slot_align s < ar_align req then (Err AllocInvalidRequest, s, m)
      else (case slab_take_slot lk s of
          (Err e, s1) \<Rightarrow> (Err e, s1, m)
        | (Ok slot, s1) \<Rightarrow> (case slab_slot_ptr s1 slot of
              Err e \<Rightarrow> (Err e, s1, m)
            | Ok ptr \<Rightarrow> (Ok (slab_result s1 ptr slot), s1,
                if ar_zeroed req then write_bytes ptr (replicate (sb_size s1) 0) m else m))))"

text \<open>A typed value is given by its bytes (\<open>size_of::<T>()\<close> of them) and its alignment.\<close>

definition slab_alloc_retained_value :: "lock_outcome \<Rightarrow> 8 word list \<Rightarrow> usize \<Rightarrow> slab \<Rightarrow> byte_memory \<Rightarrow>
    (usize, alloc_error_kind) result \<times> slab \<times> byte_memory" where
  "slab_alloc_retained_value lk v v_align s m =
     (if length v = 0 \<or> sb_size s < length v \<or> sb_slot_align s < v_align
      then (Err AllocInvalidRequest, s, m)
      else (case slab_take_slot lk s of
          (Err e, s1) \<Rightarrow> (Err e, s1, m)
        | (Ok slot, s1) \<Rightarrow> (case slab_slot_ptr s1 slot of
              Err e \<Rightarrow> (Err e, s1, m)
            | Ok ptr \<Rightarrow> (Ok ptr, s1, write_bytes ptr v m))))"

definition slab_release_allocation :: "lock_outcome \<Rightarrow> alloc_result \<Rightarrow> slab \<Rightarrow>
    (unit, alloc_error_kind) result \<times> slab" where
  "slab_release_allocation lk a s = (case res_backing a of
      SlabSlot marker lease slot \<Rightarrow>
        if marker = ape_pool_marker (sb_extent s) \<and> lease = ape_lease_id (sb_extent s)
        then (case lk of
            Err k \<Rightarrow> (Err (AllocSynchronizationFailure k), s)
          | Ok _ \<Rightarrow> (case release_slot (sb_count s) slot (sb_state s) of
              (r, st) \<Rightarrow> (r, s\<lparr>sb_state := st\<rparr>)))
        else (Err AllocInvalidRequest, s)
    | ArenaBlock _ _ _ _ \<Rightarrow> (Err AllocInvalidRequest, s))"

text \<open>The token \<open>SlabAllocation\<close> holds the result until it is released or dropped.\<close>

definition slab_token_try_release :: "lock_outcome \<Rightarrow> alloc_result option \<Rightarrow> slab \<Rightarrow>
    (unit, alloc_error_kind) result \<times> alloc_result option \<times> slab" where
  "slab_token_try_release lk t s = (case t of
      None \<Rightarrow> (Err AllocInvalidRequest, None, s)
    | Some a \<Rightarrow> (case slab_release_allocation lk a s of
        (Ok _, s') \<Rightarrow> (Ok (), None, s') | (Err e, s') \<Rightarrow> (Err e, Some a, s')))"

definition slab_token_drop :: "lock_outcome \<Rightarrow> alloc_result option \<Rightarrow> slab \<Rightarrow> alloc_result option \<times> slab" where
  "slab_token_drop lk t s = (case t of
      None \<Rightarrow> (None, s) | Some a \<Rightarrow> (None, snd (slab_release_allocation lk a s)))"

definition slab_drop :: "lock_outcome \<Rightarrow> slab \<Rightarrow> memory_pool \<Rightarrow> slab \<times> memory_pool" where
  "slab_drop lk s p = (if sb_immortal s then (s, p)
     else (case drop_assigned_extent lk (sb_extent s) p of (e, p') \<Rightarrow> (s\<lparr>sb_extent := e\<rparr>, p')))"

section \<open>Correctness\<close>

definition slab_base :: "slab \<Rightarrow> usize" where
  "slab_base s = rg_base (ape_region (sb_extent s)) + payload_offset (sb_header s)"

definition slab_slot_addr :: "slab \<Rightarrow> usize \<Rightarrow> usize" where
  "slab_slot_addr s i = slab_base s + i * sb_size s"

definition slab_payload :: "slab \<Rightarrow> region" where
  "slab_payload s = \<lparr>rg_base = slab_base s, rg_len = sb_size s * sb_count s\<rparr>"

definition slab_shape :: "usize \<Rightarrow> slab \<Rightarrow> bool" where
  "slab_shape md_size s \<longleftrightarrow> 0 < sb_size s \<and> 0 < sb_count s
     \<and> sb_slot_align s dvd sb_size s \<and> sb_slot_align s dvd slab_base s
     \<and> 0 < rg_base (ape_region (sb_extent s)) \<and> md_size \<le> payload_offset (sb_header s)
     \<and> region_within (slab_payload s) (ape_region (sb_extent s))
     \<and> rg_base (ape_region (sb_extent s)) + rg_len (ape_region (sb_extent s)) \<le> usize_max"

definition slab_inv :: "usize \<Rightarrow> slab \<Rightarrow> bool" where
  "slab_inv md_size s \<longleftrightarrow> slab_shape md_size s \<and> slab_state_inv (sb_count s) (sb_state s)"

lemma slab_static [simp]:
  "slab_base (s\<lparr>sb_state := st\<rparr>) = slab_base s" "slab_slot_addr (s\<lparr>sb_state := st\<rparr>) = slab_slot_addr s"
  "slab_result (s\<lparr>sb_state := st\<rparr>) = slab_result s" "slab_payload (s\<lparr>sb_state := st\<rparr>) = slab_payload s"
  "slab_shape md (s\<lparr>sb_state := st\<rparr>) = slab_shape md s"
  by (simp_all add: slab_base_def slab_slot_addr_def slab_result_def slab_payload_def slab_shape_def fun_eq_iff)

text \<open>A slab on an extent of the size and alignment it asked for starts out well-formed.\<close>

lemma slab_place_inv:
  assumes pl: "slab_place md_size md_align sz count imm domain pol e lp = Ok s"
    and rq: "slab_extent_request md_size md_align sz count (sb_slot_align s) lp = Ok er"
    and al: "req_align er dvd rg_base (ape_region e)"
    and me: "is_power_of_two (min_extent_align lp)"
    and top: "rg_base (ape_region e) + rg_len (ape_region e) \<le> usize_max"
  shows "slab_inv md_size s" and "sb_extent s = e" and "sb_size s = sz" and "sb_count s = count"
    and "occupied_slots (sb_state s) = {}" and "sb_immortal s = imm"
proof -
  let ?a = "push_bit (trailing_zeros sz) 1"
  obtain l where l: "front_metadata_layout_with_policy md_size md_align (sz * count) ?a lp = Ok l"
    and g: "0 < sz" "0 < count" "fl_total_len l \<le> rg_len (ape_region e)" "0 < rg_base (ape_region e)"
    and s: "s = \<lparr>sb_size = sz, sb_count = count, sb_immortal = imm, sb_domain = domain,
                    sb_policy = pol, sb_extent = e, sb_slot_align = ?a,
                    sb_header = metadata_page_header_new SubSlab (fl_metadata_len l)
                      (fl_payload_offset l) (fl_payload_len l), sb_state = slab_state_new count\<rparr>"
    using pl by (auto simp: slab_place_def slab_slot_align_def bind_result_Ok_iff checked_iffs not_less
        split: if_splits)
  have "req_align er = fl_request_align l"
    using rq l s by (auto simp: slab_extent_request_def bind_result_Ok_iff checked_iffs split: if_splits)
  with al have "fl_request_align l dvd rg_base (ape_region e)" by simp
  note lo = front_metadata_layout_OkD [OF l] and pa = front_layout_payload_aligned [OF l me this]
  have "?a dvd sz" using trailing_zeros_dvd [of sz] g(1) by (simp add: push_bit_eq_mult)
  then have "slab_shape md_size s"
    using g lo pa top by (simp add: slab_shape_def s slab_base_def slab_payload_def region_within_def
        metadata_page_header_new_def)
  then show "slab_inv md_size s" by (simp add: slab_inv_def s slab_state_new_inv)
  show "sb_extent s = e" "sb_size s = sz" "sb_count s = count" "occupied_slots (sb_state s) = {}"
    "sb_immortal s = imm"
    by (simp_all add: s)
qed

lemma slab_slot_bounds:
  assumes "slab_shape md s" and "i < sb_count s"
  shows "slab_slot_addr s i + sb_size s \<le> slab_base s + sb_size s * sb_count s"
    and "slab_base s + sb_size s * sb_count s \<le> usize_max"
    and "0 < slab_slot_addr s i" and "sb_slot_align s dvd slab_slot_addr s i"
proof -
  have "i * sb_size s + sb_size s = (i + 1) * sb_size s" by simp
  also have "\<dots> \<le> sb_count s * sb_size s" using assms(2) by (intro mult_right_mono) auto
  finally show "slab_slot_addr s i + sb_size s \<le> slab_base s + sb_size s * sb_count s"
    by (simp add: slab_slot_addr_def mult.commute)
  show "slab_base s + sb_size s * sb_count s \<le> usize_max"
    using assms(1) by (auto simp: slab_shape_def slab_payload_def region_within_def)
  show "0 < slab_slot_addr s i" using assms(1) by (auto simp: slab_shape_def slab_slot_addr_def slab_base_def)
  show "sb_slot_align s dvd slab_slot_addr s i"
    using assms(1) by (auto simp: slab_shape_def slab_slot_addr_def)
qed

lemma slab_slot_ptr_Ok:
  assumes "slab_shape md s" and "i < sb_count s"
  shows "slab_slot_ptr s i = Ok (slab_slot_addr s i)"
proof -
  note b = slab_slot_bounds [OF assms]
  have "slab_base s + i * sb_size s \<le> usize_max" "i * sb_size s \<le> usize_max"
    using b(1,2) by (simp_all add: slab_slot_addr_def)
  then show ?thesis
    using b(3) by (simp add: slab_slot_ptr_def slab_payload_base_def checked_add_def checked_mul_def
        slab_base_def slab_slot_addr_def)
qed

lemma slab_take_slot_cases:
  assumes inv: "slab_inv md s" and run: "slab_take_slot lk s = (res, s')"
  obtains (failed) e where "res = Err e" "s' = s"
      "e = AllocCapacityExhausted \<longrightarrow> free_len (sb_state s) = 0" "lk = Ok () \<longrightarrow> e = AllocCapacityExhausted"
    | (granted) slot st where "res = Ok slot" "s' = s\<lparr>sb_state := st\<rparr>" "slot < sb_count s"
      "slot \<notin> occupied_slots (sb_state s)" "occupied_slots st = insert slot (occupied_slots (sb_state s))"
      "slab_inv md s'" "slab_slot_ptr s' slot = Ok (slab_slot_addr s slot)"
      "free_len (sb_state s) = free_len st + 1" "free_slots st = free_slots (sb_state s)"
      "slot = free_slots (sb_state s) ! free_len st"
proof (cases lk)
  case (Err k)
  then show thesis using run failed [of "AllocSynchronizationFailure k"] by (simp add: slab_take_slot_def)
next
  case (Ok u)
  obtain r st where a: "allocate_slot (sb_state s) = (r, st)" by fastforce
  have si: "slab_state_inv (sb_count s) (sb_state s)" "slab_shape md s" using inv by (simp_all add: slab_inv_def)
  from si(1) a show thesis
  proof (cases rule: allocate_slot_cases)
    case exhausted
    then show thesis using run Ok a failed by (simp add: slab_take_slot_def)
  next
    case (granted slot)
    have s': "res = result.Ok slot" "s' = s\<lparr>sb_state := st\<rparr>" using run Ok a granted(1) by (auto simp: slab_take_slot_def)
    have "slab_slot_ptr s' slot = result.Ok (slab_slot_addr s slot)"
      using slab_slot_ptr_Ok [of md s' slot] si(2) granted(2) by (simp add: s'(2))
    then show thesis
      using that(2) [OF s'] granted si(2) by (simp add: slab_inv_def s'(2))
  qed
qed

lemma slab_allocate_cases:
  assumes inv: "slab_inv md s" and run: "slab_allocate_untyped lk req s m = (res, s', m')"
  obtains (failed) e where "res = Err e" "s' = s" "m' = m"
      "e = AllocCapacityExhausted \<longrightarrow> free_len (sb_state s) = 0"
    | (granted) slot st where "res = Ok (slab_result s (slab_slot_addr s slot) slot)"
      "s' = s\<lparr>sb_state := st\<rparr>" "slot < sb_count s" "slot \<notin> occupied_slots (sb_state s)"
      "occupied_slots st = insert slot (occupied_slots (sb_state s))" "slab_inv md s'"
      "slot = free_slots (sb_state s) ! (free_len (sb_state s) - 1)"
      "m' = (if ar_zeroed req then write_bytes (slab_slot_addr s slot) (replicate (sb_size s) 0) m else m)"
      "0 < ar_len req" "ar_len req \<le> sb_size s" "ar_align req \<le> sb_slot_align s" "is_power_of_two (ar_align req)"
proof -
  obtain r1 s1 where t: "slab_take_slot lk s = (r1, s1)" by fastforce
  show thesis
  proof (cases "ar_len req = 0 \<or> ar_align req = 0 \<or> \<not> is_power_of_two (ar_align req)
      \<or> sb_size s < ar_len req \<or> sb_slot_align s < ar_align req")
    case True
    then show thesis using run failed [of AllocInvalidRequest]
      by (auto simp: slab_allocate_untyped_def split: if_splits)
  next
    case False
    from inv t show thesis
    proof (cases rule: slab_take_slot_cases)
      case failed: (failed e)
      then show thesis using run False t that(1) [of e] by (auto simp: slab_allocate_untyped_def)
    next
      case g: (granted slot st)
      show thesis
        by (rule granted [of slot st]) (use g run False t in \<open>auto simp: slab_allocate_untyped_def\<close>)
    qed
  qed
qed

lemma slab_retained_cases:
  assumes inv: "slab_inv md s" and run: "slab_alloc_retained_value lk v a s m = (res, s', m')"
  obtains (failed) e where "res = Err e" "s' = s" "m' = m"
    | (granted) slot st where "res = Ok (slab_slot_addr s slot)"
      "s' = s\<lparr>sb_state := st\<rparr>" "slot < sb_count s" "slot \<notin> occupied_slots (sb_state s)"
      "occupied_slots st = insert slot (occupied_slots (sb_state s))" "slab_inv md s'"
      "m' = write_bytes (slab_slot_addr s slot) v m" "length v \<le> sb_size s"
proof -
  obtain r1 s1 where t: "slab_take_slot lk s = (r1, s1)" by fastforce
  show thesis
  proof (cases "length v = 0 \<or> sb_size s < length v \<or> sb_slot_align s < a")
    case True
    then show thesis using run failed [of AllocInvalidRequest]
      by (auto simp: slab_alloc_retained_value_def split: if_splits)
  next
    case False
    from inv t show thesis
    proof (cases rule: slab_take_slot_cases)
      case failed: (failed e)
      then show thesis using run False t that(1) [of e] by (auto simp: slab_alloc_retained_value_def)
    next
      case g: (granted slot st)
      show thesis
        by (rule granted [of slot st]) (use g run False t in \<open>auto simp: slab_alloc_retained_value_def\<close>)
    qed
  qed
qed

lemma slab_release_cases:
  assumes inv: "slab_inv md s" and run: "slab_release_allocation lk a s = (res, s')"
  obtains (failed) e where "res = Err e" "s' = s"
    | (released) slot st where "res = Ok ()" "lk = Ok ()" "s' = s\<lparr>sb_state := st\<rparr>"
      "res_backing a = SlabSlot (ape_pool_marker (sb_extent s)) (ape_lease_id (sb_extent s)) slot"
      "slot \<in> occupied_slots (sb_state s)" "occupied_slots st = occupied_slots (sb_state s) - {slot}"
      "slab_inv md s'" "free_slots st ! (free_len st - 1) = slot" "0 < free_len st"
proof (cases "\<exists>slot. res_backing a = SlabSlot (ape_pool_marker (sb_extent s)) (ape_lease_id (sb_extent s)) slot
    \<and> lk = Ok ()")
  case False
  then show thesis using run that(1) [of AllocInvalidRequest] that(1) [of "AllocSynchronizationFailure (the_err lk)"]
    by (cases "res_backing a"; cases lk) (auto simp: slab_release_allocation_def split: if_splits)
next
  case True
  then obtain slot where b: "res_backing a = SlabSlot (ape_pool_marker (sb_extent s)) (ape_lease_id (sb_extent s)) slot"
    "lk = Ok ()" by blast
  obtain r st where c: "release_slot (sb_count s) slot (sb_state s) = (r, st)" by fastforce
  have si: "slab_state_inv (sb_count s) (sb_state s)" "slab_shape md s" using inv by (simp_all add: slab_inv_def)
  have s': "res = r" "s' = s\<lparr>sb_state := st\<rparr>" using run b c by (simp_all add: slab_release_allocation_def)
  from si(1) c show thesis
  proof (cases rule: release_slot_cases)
    case rejected
    then show thesis using that(1) [of AllocInvalidRequest] s' by simp
  next
    case rel: released
    show thesis
      by (rule that(2) [OF _ b(2) s'(2) b(1) rel(2,4)]) (use s' rel si(2) in \<open>simp_all add: slab_inv_def\<close>)
  qed
qed

section \<open>Tokens and retained values\<close>

text \<open>
  A slab and what its clients hold: the live \<open>SlabAllocation\<close> tokens and the addresses of the
  retained values. A token that is dropped when the lock cannot be taken is gone, and its slot stays
  occupied.
\<close>

record slab_world =
  sw_slab :: slab
  sw_mem :: byte_memory
  sw_live :: "alloc_result list"
  sw_kept :: "usize list"

inductive slab_step :: "slab_world \<Rightarrow> slab_world \<Rightarrow> bool" where
  allocated: "slab_allocate_untyped lk req (sw_slab w) (sw_mem w) = (Ok r, s', m') \<Longrightarrow>
     slab_step w (w\<lparr>sw_slab := s', sw_mem := m', sw_live := r # sw_live w\<rparr>)"
| refused: "slab_allocate_untyped lk req (sw_slab w) (sw_mem w) = (Err e, s', m') \<Longrightarrow>
     slab_step w (w\<lparr>sw_slab := s', sw_mem := m'\<rparr>)"
| tried: "r \<in> set (sw_live w) \<Longrightarrow> slab_token_try_release lk (Some r) (sw_slab w) = (res, t, s') \<Longrightarrow>
     slab_step w (w\<lparr>sw_slab := s', sw_live := (if t = None then remove1 r (sw_live w) else sw_live w)\<rparr>)"
| dropped: "r \<in> set (sw_live w) \<Longrightarrow> slab_token_drop lk (Some r) (sw_slab w) = (t, s') \<Longrightarrow>
     slab_step w (w\<lparr>sw_slab := s', sw_live := remove1 r (sw_live w)\<rparr>)"
| retained: "slab_alloc_retained_value lk v a (sw_slab w) (sw_mem w) = (Ok k, s', m') \<Longrightarrow>
     slab_step w (w\<lparr>sw_slab := s', sw_mem := m', sw_kept := k # sw_kept w\<rparr>)"
| unretained: "slab_alloc_retained_value lk v a (sw_slab w) (sw_mem w) = (Err e, s', m') \<Longrightarrow>
     slab_step w (w\<lparr>sw_slab := s', sw_mem := m'\<rparr>)"

inductive_cases slab_stepE: "slab_step w w'"

definition slot_of :: "alloc_result \<Rightarrow> usize" where
  "slot_of r = ab_slot (res_backing r)"

definition slab_issued :: "slab \<Rightarrow> alloc_result \<Rightarrow> bool" where
  "slab_issued s r \<longleftrightarrow> r = slab_result s (slab_slot_addr s (slot_of r)) (slot_of r)"

definition slab_world_inv :: "usize \<Rightarrow> slab_world \<Rightarrow> bool" where
  "slab_world_inv md w \<longleftrightarrow> slab_inv md (sw_slab w) \<and> (\<forall>r \<in> set (sw_live w). slab_issued (sw_slab w) r)
     \<and> (\<exists>ks. sw_kept w = map (slab_slot_addr (sw_slab w)) ks \<and> distinct (map slot_of (sw_live w) @ ks)
          \<and> set (map slot_of (sw_live w) @ ks) \<subseteq> occupied_slots (sb_state (sw_slab w)))"

lemma remove1_slots:
  assumes "distinct (map f xs @ ks)" and "r \<in> set xs"
  shows "distinct (map f (remove1 r xs) @ ks)"
    and "set (map f (remove1 r xs) @ ks) = set (map f xs @ ks) - {f r}"
proof -
  obtain us vs where sp: "xs = us @ r # vs" "r \<notin> set us" using split_list_first [OF assms(2)] by blast
  then have eq: "remove1 r xs = us @ vs" by (simp add: remove1_append)
  show "distinct (map f (remove1 r xs) @ ks)" unfolding eq using assms(1) sp(1) by auto
  show "set (map f (remove1 r xs) @ ks) = set (map f xs @ ks) - {f r}"
    unfolding eq using assms(1) sp(1) by auto
qed

lemma slab_world_static:
  "slab_issued (s\<lparr>sb_state := st\<rparr>) r = slab_issued s r"
  by (simp add: slab_issued_def)

lemma slab_world_grow:
  assumes inv: "slab_world_inv md w" and s': "s' = (sw_slab w)\<lparr>sb_state := st\<rparr>" "slab_inv md s'"
    and slot: "slot \<notin> occupied_slots (sb_state (sw_slab w))"
      "occupied_slots st = insert slot (occupied_slots (sb_state (sw_slab w)))"
  shows "slab_world_inv md (w\<lparr>sw_slab := s', sw_mem := m', sw_live :=
      slab_result (sw_slab w) (slab_slot_addr (sw_slab w) slot) slot # sw_live w\<rparr>)" (is ?live)
    and "slab_world_inv md (w\<lparr>sw_slab := s', sw_mem := m',
      sw_kept := slab_slot_addr (sw_slab w) slot # sw_kept w\<rparr>)" (is ?kept)
proof -
  obtain ks where k: "sw_kept w = map (slab_slot_addr (sw_slab w)) ks" "distinct (map slot_of (sw_live w) @ ks)"
      "set (map slot_of (sw_live w) @ ks) \<subseteq> occupied_slots (sb_state (sw_slab w))"
    and iss: "\<forall>r \<in> set (sw_live w). slab_issued (sw_slab w) r"
    using inv by (auto simp: slab_world_inv_def)
  have so: "slot_of (slab_result s ptr slot) = slot" for s ptr by (simp add: slot_of_def slab_result_def)
  have fresh: "slot \<notin> set (map slot_of (sw_live w) @ ks)" using k(3) slot(1) by blast
  have sub: "set (map slot_of (sw_live w) @ ks) \<subseteq> occupied_slots st" using k(3) slot(2) by blast
  show ?live unfolding slab_world_inv_def
    using k(1,2) iss slot(2) s' fresh sub
    by (intro conjI exI [of _ ks]) (simp_all add: so slab_world_static slab_issued_def)
  show ?kept unfolding slab_world_inv_def
    using k(1,2) iss slot(2) s' fresh sub
    by (intro conjI exI [of _ "slot # ks"]) (auto simp: slab_world_static)
qed

lemma slab_world_released:
  assumes inv: "slab_world_inv md w" and r: "r \<in> set (sw_live w)"
    and run: "slab_release_allocation lk r (sw_slab w) = (res, s')"
  shows "slab_world_inv md (w\<lparr>sw_slab := s', sw_live := remove1 r (sw_live w)\<rparr>)"
    and "\<not> is_ok res \<Longrightarrow> s' = sw_slab w"
proof -
  obtain ks where k: "sw_kept w = map (slab_slot_addr (sw_slab w)) ks" "distinct (map slot_of (sw_live w) @ ks)"
      "set (map slot_of (sw_live w) @ ks) \<subseteq> occupied_slots (sb_state (sw_slab w))"
    and iss: "\<forall>r \<in> set (sw_live w). slab_issued (sw_slab w) r" and si: "slab_inv md (sw_slab w)"
    using inv by (auto simp: slab_world_inv_def)
  note rm = remove1_slots [OF k(2) r]
  have iss': "\<forall>x \<in> set (remove1 r (sw_live w)). slab_issued (sw_slab w) x"
    using iss by (meson notin_set_remove1)
  have "slab_world_inv md (w\<lparr>sw_slab := s', sw_live := remove1 r (sw_live w)\<rparr>) \<and> (\<not> is_ok res \<longrightarrow> s' = sw_slab w)"
    using si run
  proof (cases rule: slab_release_cases)
    case (failed e)
    have "set (map slot_of (remove1 r (sw_live w)) @ ks) \<subseteq> occupied_slots (sb_state (sw_slab w))"
      unfolding rm(2) using k(3) by blast
    with failed show ?thesis unfolding slab_world_inv_def using k(1) rm(1) iss' si by (auto intro!: exI [of _ ks])
  next
    case (released slot st)
    then have "slot = slot_of r" by (simp add: slot_of_def)
    then have "set (map slot_of (remove1 r (sw_live w)) @ ks) \<subseteq> occupied_slots st"
      unfolding rm(2) released(6) using k(3) by blast
    then show ?thesis unfolding slab_world_inv_def using k(1) rm(1) iss' released
      by (auto simp: slab_world_static intro!: exI [of _ ks])
  qed
  then show "slab_world_inv md (w\<lparr>sw_slab := s', sw_live := remove1 r (sw_live w)\<rparr>)"
    "\<not> is_ok res \<Longrightarrow> s' = sw_slab w" by blast+
qed

lemma slab_world_step:
  assumes inv: "slab_world_inv md w" and st: "slab_step w w'"
  shows "slab_world_inv md w'"
proof -
  have si: "slab_inv md (sw_slab w)" using inv by (simp add: slab_world_inv_def)
  from st show ?thesis
  proof (cases rule: slab_step.cases)
    case (allocated lk req r s' m')
    show ?thesis using si allocated(2)
      by (cases rule: slab_allocate_cases) (use allocated(1) slab_world_grow(1) [OF inv] in auto)
  next
    case (refused lk req e s' m')
    show ?thesis using si refused(2) by (cases rule: slab_allocate_cases) (use refused(1) inv in auto)
  next
    case (tried r lk res t s')
    obtain rr s1 where rel: "slab_release_allocation lk r (sw_slab w) = (rr, s1)" by fastforce
    have "t = None \<and> s' = s1 \<or> t \<noteq> None \<and> s' = sw_slab w"
      using tried(3) rel slab_world_released(2) [OF inv tried(2) rel]
      by (cases rr) (auto simp: slab_token_try_release_def)
    then show ?thesis
      using slab_world_released(1) [OF inv tried(2) rel] inv tried(1) by (auto simp: slab_world_inv_def)
  next
    case (dropped r lk t s')
    obtain rr where "slab_release_allocation lk r (sw_slab w) = (rr, s')"
      using dropped(3) by (cases "slab_release_allocation lk r (sw_slab w)") (auto simp: slab_token_drop_def)
    then show ?thesis using slab_world_released(1) [OF inv dropped(2)] dropped(1) by simp
  next
    case (retained lk v a k s' m')
    show ?thesis using si retained(2)
      by (cases rule: slab_retained_cases) (use retained(1) slab_world_grow(2) [OF inv] in auto)
  next
    case (unretained lk v a e s' m')
    show ?thesis using si unretained(2) by (cases rule: slab_retained_cases) (use unretained(1) inv in auto)
  qed
qed

text \<open>
  The slabs that the constructor builds, on an extent with the alignment of its own request and
  inside the address space.
\<close>

definition slab_built :: "usize \<Rightarrow> slab_world \<Rightarrow> bool" where
  "slab_built md_size w \<longleftrightarrow> (\<exists>lk md_align sz count imm domain pol e lp p er.
     slab_from_assigned_extent lk md_size md_align sz count imm domain pol e lp p = (Ok (sw_slab w), p)
     \<and> slab_extent_request md_size md_align sz count (sb_slot_align (sw_slab w)) lp = Ok er
     \<and> req_align er dvd rg_base (ape_region e) \<and> is_power_of_two (min_extent_align lp)
     \<and> rg_base (ape_region e) + rg_len (ape_region e) \<le> usize_max
     \<and> sw_live w = [] \<and> sw_kept w = [])"

lemma slab_built_inv:
  assumes "slab_built md w"
  shows "slab_world_inv md w" and "occupied_slots (sb_state (sw_slab w)) = {}"
proof -
  obtain lk md_align sz count imm domain pol e lp p er where
    b: "slab_place md md_align sz count imm domain pol e lp = Ok (sw_slab w)"
    "slab_extent_request md md_align sz count (sb_slot_align (sw_slab w)) lp = Ok er"
    "req_align er dvd rg_base (ape_region e)" "is_power_of_two (min_extent_align lp)"
    "rg_base (ape_region e) + rg_len (ape_region e) \<le> usize_max" "sw_live w = []" "sw_kept w = []"
    using assms by (auto simp: slab_built_def slab_from_assigned_extent_def drop_on_error_Ok_iff)
  note i = slab_place_inv [OF b(1-5)]
  show "slab_world_inv md w" using i(1) b(6,7) by (simp add: slab_world_inv_def)
  show "occupied_slots (sb_state (sw_slab w)) = {}" by (rule i(5))
qed

interpretation slab_sys: inductive_invariant "slab_built md" slab_step "slab_world_inv md" for md
  by unfold_locales (auto intro: slab_built_inv slab_world_step)

section \<open>The slab as a block allocator\<close>

definition slab_blocks :: "slab_world \<Rightarrow> (usize \<times> usize) set" where
  "slab_blocks w = (\<lambda>r. (res_ptr r, res_len r)) ` set (sw_live w) \<union> (\<lambda>k. (k, sb_size (sw_slab w))) ` set (sw_kept w)"

lemma slab_block_slot:
  assumes "slab_world_inv md w" and "b \<in> slab_blocks w"
  shows "\<exists>i < sb_count (sw_slab w). b = (slab_slot_addr (sw_slab w) i, sb_size (sw_slab w))"
proof -
  let ?s = "sw_slab w"
  obtain ks where k: "sw_kept w = map (slab_slot_addr ?s) ks"
      "set (map slot_of (sw_live w) @ ks) \<subseteq> occupied_slots (sb_state ?s)"
    and iss: "\<forall>r \<in> set (sw_live w). slab_issued ?s r" and si: "slab_inv md ?s"
    using assms(1) by (auto simp: slab_world_inv_def)
  have lt: "occupied_slots (sb_state ?s) \<subseteq> {..<sb_count ?s}"
    using si by (auto simp: slab_inv_def slab_state_inv_def occupied_slots_def)
  consider r where "r \<in> set (sw_live w)" "b = (res_ptr r, res_len r)"
    | i where "i \<in> set ks" "b = (slab_slot_addr ?s i, sb_size ?s)"
    using assms(2) k(1) by (auto simp: slab_blocks_def)
  then show ?thesis
  proof cases
    case 1
    then have "r = slab_result ?s (slab_slot_addr ?s (slot_of r)) (slot_of r)" using iss by (simp add: slab_issued_def)
    then have "b = (slab_slot_addr ?s (slot_of r), sb_size ?s)"
      using 1(2) by (metis slab_result_def alloc_result.select_convs(1,2))
    then show ?thesis using 1(1) k(2) lt by auto
  qed (use k(2) lt in auto)
qed

lemma slots_apart:
  fixes i j sz :: nat
  assumes "i < j"
  shows "i * sz + sz \<le> j * sz"
proof -
  have "i * sz + sz = (i + 1) * sz" by simp
  also have "\<dots> \<le> j * sz" using assms by (intro mult_right_mono) auto
  finally show ?thesis .
qed

interpretation slab_alloc: block_allocator "slab_world_inv md" slab_blocks "\<lambda>w. slab_payload (sw_slab w)" for md
proof unfold_locales
  fix w b
  assume w: "slab_world_inv md w"
  show "finite (slab_blocks w)" by (simp add: slab_blocks_def)
  assume b: "b \<in> slab_blocks w"
  then obtain i where i: "i < sb_count (sw_slab w)" "b = (slab_slot_addr (sw_slab w) i, sb_size (sw_slab w))"
    using slab_block_slot [OF w] by blast
  have sh: "slab_shape md (sw_slab w)" using w by (simp add: slab_world_inv_def slab_inv_def)
  then show "region_within (block_region b) (slab_payload (sw_slab w))"
    using slab_slot_bounds(1) [OF sh i(1)] i(2)
    by (simp add: region_within_def block_region_def slab_payload_def slab_slot_addr_def)
  fix c
  assume "c \<in> slab_blocks w" and ne: "b \<noteq> c"
  then obtain j where j: "c = (slab_slot_addr (sw_slab w) j, sb_size (sw_slab w))"
    using slab_block_slot [OF w] by blast
  then have "i < j \<or> j < i" using ne i(2) by (metis linorder_neqE_nat)
  then show "region_disjoint (block_region b) (block_region c)"
    using slots_apart [of i j "sb_size (sw_slab w)"] slots_apart [of j i "sb_size (sw_slab w)"]
    by (auto simp: region_disjoint_def block_region_def i(2) j slab_slot_addr_def)
qed

section \<open>Sequences of allocations\<close>

definition slab_request_ok :: "slab \<Rightarrow> alloc_request \<Rightarrow> bool" where
  "slab_request_ok s req \<longleftrightarrow> 0 < ar_len req \<and> ar_len req \<le> sb_size s \<and> is_power_of_two (ar_align req)
     \<and> ar_align req \<le> sb_slot_align s"

lemma slab_allocate_ok:
  assumes inv: "slab_inv md s" and rq: "slab_request_ok s req"
  shows "0 < free_len (sb_state s) \<Longrightarrow> is_ok (fst (slab_allocate_untyped (Ok ()) req s m))"
    and "free_len (sb_state s) = 0 \<Longrightarrow> slab_allocate_untyped (Ok ()) req s m = (Err AllocCapacityExhausted, s, m)"
proof -
  obtain r1 s1 where t: "slab_take_slot (Ok ()) s = (r1, s1)" by fastforce
  have g: "\<not> (ar_len req = 0 \<or> ar_align req = 0 \<or> \<not> is_power_of_two (ar_align req))"
    "\<not> (sb_size s < ar_len req \<or> sb_slot_align s < ar_align req)"
    using rq is_power_of_two_pos [of "ar_align req"] by (auto simp: slab_request_ok_def)
  note e = slab_allocate_untyped_def [of "Ok ()" req s m, unfolded if_not_P [OF g(1)] if_not_P [OF g(2)] t]
  show "0 < free_len (sb_state s) \<Longrightarrow> is_ok (fst (slab_allocate_untyped (Ok ()) req s m))"
    using inv t by (cases rule: slab_take_slot_cases) (simp_all add: e)
  show "free_len (sb_state s) = 0 \<Longrightarrow> slab_allocate_untyped (Ok ()) req s m = (Err AllocCapacityExhausted, s, m)"
    using inv t by (cases rule: slab_take_slot_cases) (simp_all add: e)
qed

fun slab_alloc_many :: "nat \<Rightarrow> alloc_request \<Rightarrow> slab \<Rightarrow> byte_memory \<Rightarrow>
    (alloc_result list \<times> slab \<times> byte_memory) option" where
  "slab_alloc_many 0 req s m = Some ([], s, m)"
| "slab_alloc_many (Suc n) req s m = (case slab_allocate_untyped (Ok ()) req s m of
      (Err e, s1, m1) \<Rightarrow> None
    | (Ok r, s1, m1) \<Rightarrow> map_option (\<lambda>(rs, s2, m2). (r # rs, s2, m2)) (slab_alloc_many n req s1 m1))"

lemma slab_alloc_many_ok:
  assumes "slab_inv md s" and "slab_request_ok s req" and "n \<le> free_len (sb_state s)"
  shows "\<exists>rs st m'. slab_alloc_many n req s m = Some (rs, s\<lparr>sb_state := st\<rparr>, m') \<and> length rs = n
     \<and> slab_inv md (s\<lparr>sb_state := st\<rparr>) \<and> distinct (map slot_of rs) \<and> free_len st = free_len (sb_state s) - n
     \<and> set (map slot_of rs) \<inter> occupied_slots (sb_state s) = {}
     \<and> occupied_slots st = set (map slot_of rs) \<union> occupied_slots (sb_state s)"
  using assms
proof (induction n arbitrary: s m)
  case 0
  then show ?case by (auto intro!: exI [of _ "sb_state s"])
next
  case (Suc n)
  obtain res s1 m1 where a: "slab_allocate_untyped (Ok ()) req s m = (res, s1, m1)" by (metis prod_cases3)
  have ok: "is_ok res" using slab_allocate_ok(1) [OF Suc.prems(1,2), of m] Suc.prems(3) a by simp
  from Suc.prems(1) a show ?case
  proof (cases rule: slab_allocate_cases)
    case (granted slot st)
    have card: "card (occupied_slots st) + free_len st = sb_count s"
      "card (occupied_slots (sb_state s)) + free_len (sb_state s) = sb_count s"
      using occupied_slots_card granted(6) Suc.prems(1) by (auto simp: slab_inv_def granted(2))
    have "finite (occupied_slots (sb_state s))" by (simp add: occupied_slots_def)
    then have fl: "free_len (sb_state s) = free_len st + 1" using card granted(4,5) by simp
    have rq: "slab_request_ok s1 req" using Suc.prems(2) granted(2) by (simp add: slab_request_ok_def)
    have n: "n \<le> free_len (sb_state s1)" using fl Suc.prems(3) granted(2) by simp
    have so: "slot_of (slab_result s ptr slot) = slot" for ptr by (simp add: slot_of_def slab_result_def)
    obtain rs st2 m2 where ih: "slab_alloc_many n req s1 m1 = Some (rs, s1\<lparr>sb_state := st2\<rparr>, m2)" "length rs = n"
      "slab_inv md (s1\<lparr>sb_state := st2\<rparr>)" "distinct (map slot_of rs)" "free_len st2 = free_len (sb_state s1) - n"
      "set (map slot_of rs) \<inter> occupied_slots (sb_state s1) = {}"
      "occupied_slots st2 = set (map slot_of rs) \<union> occupied_slots (sb_state s1)"
      using Suc.IH [OF granted(6) rq n, of m1] by blast
    have occ: "occupied_slots (sb_state s1) = insert slot (occupied_slots (sb_state s))" using granted(2,5) by simp
    have run: "slab_alloc_many (Suc n) req s m
        = Some (slab_result s (slab_slot_addr s slot) slot # rs, s\<lparr>sb_state := st2\<rparr>, m2)"
      using a granted(1,2) ih(1) by simp
    have fresh: "slot \<notin> set (map slot_of rs)" "set (map slot_of rs) \<inter> occupied_slots (sb_state s) = {}"
      using ih(6) occ by blast+
    show ?thesis
      using ih(2-5,7) granted(2,4) fl fresh occ run
      by (intro exI [of _ "slab_result s (slab_slot_addr s slot) slot # rs"] exI [of _ st2] exI [of _ m2])
        (simp add: so)
  qed (use ok in auto)
qed

text \<open>A sample slab of two slots of 16 bytes, in the extent that the sample pool assigned.\<close>

definition sample_policy :: alloc_policy where
  "sample_policy = \<lparr>modes = 3, safety = 0\<rparr>"

definition sample_slab :: slab where
  "sample_slab = the_ok (slab_place 24 8 16 2 False 0 sample_policy sample_extent exact_static)"

definition sample_slab_world :: slab_world where
  "sample_slab_world = \<lparr>sw_slab = sample_slab, sw_mem = (\<lambda>_. 255), sw_live = [], sw_kept = []\<rparr>"

lemma pow2_more: "is_power_of_two 8" "is_power_of_two 16" "is_power_of_two 1" "is_power_of_two (Suc 0)"
  using is_power_of_two_power [of 3] is_power_of_two_power [of 4] is_power_of_two_power [of 0] by simp_all

lemma exact_static_min: "min_extent_align exact_static = 1"
  by (simp add: exact_static_def)

lemma trailing_zeros_16: "trailing_zeros 16 = 4"
  by (simp add: trailing_zeros_def trailing_zeros_nz.simps)

lemma sample_layout:
  "front_metadata_layout_with_policy 24 8 32 16 exact_static = Ok \<lparr>fl_metadata_len = 24,
     fl_payload_offset = 32, fl_payload_len = 32, fl_total_len = 64, fl_request_align = 16\<rparr>"
  by (simp add: front_metadata_layout_with_policy_def pow2_more exact_static_def alloc_align_up_eq align_up_eq
      usize_max_def checked_add_def)

lemma sample_slab_eq:
  "slab_place 24 8 16 2 False 0 sample_policy sample_extent exact_static = Ok \<lparr>sb_size = 16, sb_count = 2,
     sb_immortal = False, sb_domain = 0, sb_policy = sample_policy, sb_extent = sample_extent,
     sb_slot_align = 16, sb_header = metadata_page_header_new SubSlab 24 32 32, sb_state = slab_state_new 2\<rparr>"
  by (simp add: slab_place_def sample_policy_def policy_allows_def contains_flags_def slab_slot_align_def
      trailing_zeros_16 push_bit_eq_mult checked_mul_def usize_max_def sample_layout sample_assign is_multiple_of_def)

lemma sample_slab_simps [simp]:
  "sb_size sample_slab = 16" "sb_count sample_slab = 2" "sb_slot_align sample_slab = 16"
  "sb_extent sample_slab = sample_extent" "payload_offset (sb_header sample_slab) = 32"
  "sb_state sample_slab = slab_state_new 2" "sb_immortal sample_slab = False"
  by (simp_all add: sample_slab_def sample_slab_eq metadata_page_header_new_def)

lemma sample_slab_built: "slab_built 24 sample_slab_world"
proof -
  have p: "slab_place 24 8 16 2 False 0 sample_policy sample_extent exact_static = Ok sample_slab"
    by (simp add: sample_slab_def sample_slab_eq)
  have r: "slab_extent_request 24 8 16 2 16 exact_static = Ok \<lparr>req_len = 64, req_align = 16\<rparr>"
    by (simp add: slab_extent_request_def checked_mul_def usize_max_def sample_layout)
  show ?thesis unfolding slab_built_def slab_from_assigned_extent_def drop_on_error_Ok_iff
    by (rule exI [of _ "Ok ()"], rule exI [of _ 8], rule exI [of _ 16], rule exI [of _ 2], rule exI [of _ False],
        rule exI [of _ 0], rule exI [of _ sample_policy], rule exI [of _ sample_extent], rule exI [of _ exact_static],
        rule exI, rule exI [of _ "\<lparr>req_len = 64, req_align = 16\<rparr>"])
      (simp add: sample_slab_world_def p r sample_assign usize_max_def exact_static_min pow2_more)
qed

definition sample_alloc_request :: alloc_request where
  "sample_alloc_request = \<lparr>ar_len = 10, ar_align = 8, ar_zeroed = True\<rparr>"

definition sample_slab_world1 :: slab_world where
  "sample_slab_world1 = (case slab_allocate_untyped (Ok ()) sample_alloc_request sample_slab (\<lambda>_. 255) of
     (r, s, m) \<Rightarrow> \<lparr>sw_slab = s, sw_mem = m, sw_live = [the_ok r], sw_kept = []\<rparr>)"

lemma sample_slab_alloc:
  "slab_allocate_untyped (Ok ()) sample_alloc_request sample_slab (\<lambda>_. 255)
     = (Ok (slab_result sample_slab 4160 0), sample_slab\<lparr>sb_state :=
         \<lparr>free_slots = [1, 0], occupied = [True, False], free_len = 1\<rparr>\<rparr>,
        write_bytes 4160 (replicate 16 0) (\<lambda>_. 255))"
proof -
  have n: "slab_state_new 2 = \<lparr>free_slots = [1, 0], occupied = [False, False], free_len = 2\<rparr>"
    by (simp add: slab_state_new_def saturating_sub_def upt_rec replicate_small)
  show ?thesis
    by (simp add: slab_allocate_untyped_def sample_alloc_request_def pow2_more slab_take_slot_def allocate_slot_def
        n slab_slot_ptr_def slab_payload_base_def sample_assign checked_add_def checked_mul_def usize_max_def
        slab_result_def)
qed

lemma sample_slab_reaches: "reaches slab_step sample_slab_world sample_slab_world1"
proof -
  have "slab_step sample_slab_world (sample_slab_world\<lparr>sw_slab := sw_slab sample_slab_world1,
      sw_mem := sw_mem sample_slab_world1, sw_live := slab_result sample_slab 4160 0 # sw_live sample_slab_world\<rparr>)"
    by (rule slab_step.allocated [of "Ok ()" sample_alloc_request])
      (simp add: sample_slab_world_def sample_slab_world1_def sample_slab_alloc)
  then show ?thesis
    by (intro reaches_single) (simp add: sample_slab_world_def sample_slab_world1_def sample_slab_alloc)
qed

lemma sample_slab_live [simp]:
  "sw_live sample_slab_world1 = [slab_result sample_slab 4160 0]"
  "sw_slab sample_slab_world1 = sample_slab\<lparr>sb_state :=
     \<lparr>free_slots = [1, 0], occupied = [True, False], free_len = 1\<rparr>\<rparr>" "sw_kept sample_slab_world1 = []"
  by (simp_all add: sample_slab_world1_def sample_slab_alloc)

lemma sample_slab_request_ok: "slab_request_ok (sample_slab\<lparr>sb_state := st\<rparr>) sample_alloc_request"
  "slab_request_ok sample_slab sample_alloc_request"
  by (simp_all add: slab_request_ok_def sample_alloc_request_def pow2_more)

section \<open>Properties\<close>

text \<open>
  C10. Slab allocations are exclusive. In every state reached from a slab built on an extent of its
  own request, by any sequence of allocations, early releases, token drops (with a failing
  lock too) and retained values: every live token has the slab's slot size, is aligned to the
  slot alignment, starts behind the metadata and ends inside the extent; no two holders have the
  same address; different blocks do not overlap; and the blocks together fit into the payload.
\<close>

theorem slab_blocks_exclusive:
  assumes "slab_built md w0" and "reaches slab_step w0 w"
  shows "(\<forall>r \<in> set (sw_live w). res_len r = sb_size (sw_slab w) \<and> res_align r dvd res_ptr r
       \<and> rg_base (ape_region (sb_extent (sw_slab w))) + md \<le> res_ptr r
       \<and> res_ptr r + res_len r
         \<le> rg_base (ape_region (sb_extent (sw_slab w))) + rg_len (ape_region (sb_extent (sw_slab w))))
     \<and> distinct (map res_ptr (sw_live w) @ sw_kept w)
     \<and> (\<forall>b \<in> slab_blocks w. \<forall>c \<in> slab_blocks w. b \<noteq> c \<longrightarrow> region_disjoint (block_region b) (block_region c))
     \<and> (\<Sum>b\<in>slab_blocks w. snd b) \<le> sb_size (sw_slab w) * sb_count (sw_slab w)"
proof -
  let ?s = "sw_slab w"
  have inv: "slab_world_inv md w" using slab_sys.reachable_inv [OF assms] .
  then obtain ks where k: "sw_kept w = map (slab_slot_addr ?s) ks" "distinct (map slot_of (sw_live w) @ ks)"
      "set (map slot_of (sw_live w) @ ks) \<subseteq> occupied_slots (sb_state ?s)"
    and iss: "\<forall>r \<in> set (sw_live w). slab_issued ?s r" and si: "slab_inv md ?s"
    by (auto simp: slab_world_inv_def)
  have sh: "slab_shape md ?s" and lt: "occupied_slots (sb_state ?s) \<subseteq> {..<sb_count ?s}"
    using si by (auto simp: slab_inv_def slab_state_inv_def occupied_slots_def)
  have ptr: "res_ptr r = slab_slot_addr ?s (slot_of r) \<and> res_len r = sb_size ?s \<and> res_align r = sb_slot_align ?s"
    if "r \<in> set (sw_live w)" for r
    using iss that unfolding slab_issued_def by (metis slab_result_def alloc_result.select_convs(1-3))
  have "inj (slab_slot_addr ?s)" using sh by (auto simp: inj_def slab_slot_addr_def slab_shape_def)
  then have "distinct (map (slab_slot_addr ?s) (map slot_of (sw_live w) @ ks))"
    using k(2) unfolding distinct_map [of "slab_slot_addr ?s"] by (blast intro: inj_on_subset)
  moreover have "map res_ptr (sw_live w) @ sw_kept w = map (slab_slot_addr ?s) (map slot_of (sw_live w) @ ks)"
    using ptr k(1) by simp
  ultimately have dis: "distinct (map res_ptr (sw_live w) @ sw_kept w)" by (simp only:)
  have pt: "res_len r = sb_size ?s \<and> res_align r dvd res_ptr r
       \<and> rg_base (ape_region (sb_extent ?s)) + md \<le> res_ptr r
       \<and> res_ptr r + res_len r \<le> rg_base (ape_region (sb_extent ?s)) + rg_len (ape_region (sb_extent ?s))"
    if r: "r \<in> set (sw_live w)" for r
  proof -
    have "slot_of r < sb_count ?s" using r k(3) lt by auto
    note b = slab_slot_bounds [OF sh this]
    show ?thesis using ptr [OF r] b sh
      by (auto simp: slab_shape_def slab_payload_def region_within_def slab_slot_addr_def slab_base_def)
  qed
  have "(\<Sum>b\<in>slab_blocks w. snd b) \<le> sb_size ?s * sb_count ?s"
    using slab_alloc.live_bytes_bounded [OF inv] by (simp add: slab_payload_def)
  then show ?thesis using pt dis slab_alloc.blocks_apart [OF inv] by blast
qed

theorem slab_blocks_exclusive_witness:
  "16 dvd res_ptr (hd (sw_live sample_slab_world1)) \<and> 4128 + 24 \<le> res_ptr (hd (sw_live sample_slab_world1))"
  using slab_blocks_exclusive [OF sample_slab_built sample_slab_reaches]
  by (simp add: slab_result_def sample_assign)

text \<open>
  C13. A fresh slab serves exactly \<open>COUNT\<close> allocations: that many admissible requests succeed one
  after the other, they receive all the slots, each once, and the next request is refused with
  \<open>CapacityExhausted\<close> and changes nothing.
\<close>

theorem slab_capacity_exact:
  assumes "slab_built md w" and "slab_request_ok (sw_slab w) req"
  shows "\<exists>rs s m. slab_alloc_many (sb_count (sw_slab w)) req (sw_slab w) (sw_mem w) = Some (rs, s, m)
     \<and> distinct (map slot_of rs) \<and> set (map slot_of rs) = {..<sb_count (sw_slab w)}
     \<and> slab_allocate_untyped (Ok ()) req s m = (Err AllocCapacityExhausted, s, m)"
proof -
  let ?s = "sw_slab w"
  have inv: "slab_inv md ?s" using slab_built_inv(1) [OF assms(1)] by (simp add: slab_world_inv_def)
  have occ: "occupied_slots (sb_state ?s) = {}" using slab_built_inv(2) [OF assms(1)] .
  have "free_len (sb_state ?s) = sb_count ?s"
    using occupied_slots_card [of "sb_count ?s" "sb_state ?s"] inv occ by (simp add: slab_inv_def)
  with slab_alloc_many_ok [OF inv assms(2), of "sb_count ?s" "sw_mem w"] obtain rs st m where
    m: "slab_alloc_many (sb_count ?s) req ?s (sw_mem w) = Some (rs, ?s\<lparr>sb_state := st\<rparr>, m)"
    "slab_inv md (?s\<lparr>sb_state := st\<rparr>)" "distinct (map slot_of rs)" "free_len st = 0"
    "occupied_slots st = set (map slot_of rs)" "length rs = sb_count ?s"
    using occ by auto
  have "length (occupied st) = sb_count ?s" using m(2) by (simp add: slab_inv_def slab_state_inv_def)
  then have "set (map slot_of rs) \<subseteq> {..<sb_count ?s}" using m(5) by (auto simp: occupied_slots_def)
  moreover have "card (set (map slot_of rs)) = sb_count ?s" using distinct_card [OF m(3)] m(6) by simp
  ultimately have "set (map slot_of rs) = {..<sb_count ?s}" by (intro card_subset_eq) auto
  moreover have "slab_request_ok (?s\<lparr>sb_state := st\<rparr>) req" using assms(2) by (simp add: slab_request_ok_def)
  ultimately show ?thesis using m slab_allocate_ok(2) [OF m(2)] by auto
qed

theorem slab_capacity_exact_witness:
  "\<exists>rs s m. slab_alloc_many 2 sample_alloc_request sample_slab (\<lambda>_. 255) = Some (rs, s, m)
     \<and> set (map slot_of rs) = {..<2}
     \<and> slab_allocate_untyped (Ok ()) sample_alloc_request s m = (Err AllocCapacityExhausted, s, m)"
  using slab_capacity_exact [OF sample_slab_built, of sample_alloc_request] sample_slab_request_ok(2)
  by (auto simp: sample_slab_world_def)

text \<open>
  Releasing a live token succeeds; releasing it again is refused and changes nothing, so a slot
  cannot be freed twice; and the next allocation returns the very block that was released.
\<close>

theorem slab_release_reuse:
  assumes "slab_built md w0" and "reaches slab_step w0 w" and "r \<in> set (sw_live w)"
    and "slab_release_allocation (Ok ()) r (sw_slab w) = (res, s')" and "slab_request_ok (sw_slab w) req"
  shows "res = Ok () \<and> slab_release_allocation (Ok ()) r s' = (Err AllocInvalidRequest, s')
     \<and> fst (slab_allocate_untyped (Ok ()) req s' m) = Ok r"
proof -
  let ?s = "sw_slab w"
  have inv: "slab_world_inv md w" using slab_sys.reachable_inv [OF assms(1,2)] .
  then have si: "slab_inv md ?s" and iss: "slab_issued ?s r" and occ: "slot_of r \<in> occupied_slots (sb_state ?s)"
    using assms(3) by (auto simp: slab_world_inv_def)
  have bk: "res_backing r = SlabSlot (ape_pool_marker (sb_extent ?s)) (ape_lease_id (sb_extent ?s)) (slot_of r)"
    using iss unfolding slab_issued_def by (metis slab_result_def alloc_result.select_convs(8))
  obtain r1 st where c: "release_slot (sb_count ?s) (slot_of r) (sb_state ?s) = (r1, st)" by fastforce
  have s': "res = r1" "s' = ?s\<lparr>sb_state := st\<rparr>" using assms(4) bk c by (simp_all add: slab_release_allocation_def)
  have "slab_state_inv (sb_count ?s) (sb_state ?s)" using si by (simp add: slab_inv_def)
  from this c show ?thesis
  proof (cases rule: release_slot_cases)
    case released
    have inv': "slab_inv md s'" using si released(3) by (simp add: slab_inv_def s'(2))
    have again: "release_slot (sb_count ?s) (slot_of r) st = (Err AllocInvalidRequest, st)"
      using released(4) by (auto simp: release_slot_def occupied_slots_def)
    obtain res2 s2 m2 where a: "slab_allocate_untyped (Ok ()) req s' m = (res2, s2, m2)" by (metis prod_cases3)
    have "slab_request_ok s' req" using assms(5) by (simp add: slab_request_ok_def s'(2))
    from slab_allocate_ok(1) [OF inv' this, of m] have ok: "is_ok res2" using a released(5) by (simp add: s'(2))
    from inv' a have "res2 = Ok r"
    proof (cases rule: slab_allocate_cases)
      case (granted slot st2)
      then have "slot = slot_of r" using released(5,6) by (simp add: s'(2))
      then show ?thesis using granted(1) iss by (simp add: s'(2) slab_issued_def)
    qed (use ok in auto)
    then show ?thesis using a released(1) s' bk again by (simp add: slab_release_allocation_def)
  qed (use occ in auto)
qed

theorem slab_release_reuse_witness:
  "\<exists>s'. slab_release_allocation (Ok ()) (slab_result sample_slab 4160 0) (sw_slab sample_slab_world1) = (Ok (), s')
     \<and> fst (slab_allocate_untyped (Ok ()) sample_alloc_request s' (\<lambda>_. 255)) = Ok (slab_result sample_slab 4160 0)"
proof -
  let ?r = "slab_result sample_slab 4160 0"
  obtain res s' where run: "slab_release_allocation (Ok ()) ?r (sw_slab sample_slab_world1) = (res, s')" by fastforce
  have "?r \<in> set (sw_live sample_slab_world1)" "slab_request_ok (sw_slab sample_slab_world1) sample_alloc_request"
    using sample_slab_request_ok(1) by simp_all
  from slab_release_reuse [OF sample_slab_built sample_slab_reaches this(1) run this(2)] run show ?thesis by auto
qed

text \<open>
  A zeroed allocation hands out zero bytes and writes nowhere else: after it, every byte of
  the block is zero, and the metadata and the blocks of all other holders are as before.
\<close>

theorem slab_zeroed_allocation:
  assumes "slab_built md w0" and "reaches slab_step w0 w"
    and "slab_allocate_untyped lk req (sw_slab w) (sw_mem w) = (Ok r, s', m')" and "ar_zeroed req"
  shows "(\<forall>x. res_ptr r \<le> x \<and> x < res_ptr r + res_len r \<longrightarrow> m' x = 0)
     \<and> (\<forall>x < rg_base (ape_region (sb_extent (sw_slab w))) + md. m' x = sw_mem w x)
     \<and> (\<forall>b \<in> slab_blocks w. \<forall>x. fst b \<le> x \<and> x < fst b + snd b \<longrightarrow> m' x = sw_mem w x)"
proof -
  let ?s = "sw_slab w" and ?w' = "w\<lparr>sw_slab := s', sw_mem := m', sw_live := r # sw_live w\<rparr>"
  have inv: "slab_world_inv md w" using slab_sys.reachable_inv [OF assms(1,2)] .
  then have si: "slab_inv md ?s" by (simp add: slab_world_inv_def)
  have r2: "reaches slab_step w0 ?w'" using reaches.more [OF assms(2) slab_step.allocated [OF assms(3)]] .
  have inv': "slab_world_inv md ?w'" using slab_sys.reachable_inv [OF assms(1) r2] .
  from si assms(3) show ?thesis
  proof (cases rule: slab_allocate_cases)
    case (granted slot st)
    have rp: "res_ptr r = slab_slot_addr ?s slot" "res_len r = sb_size ?s"
      using granted(1) by (simp_all add: slab_result_def)
    have m': "m' = write_bytes (res_ptr r) (replicate (res_len r) 0) (sw_mem w)"
      using granted(8) assms(4) rp by simp
    have zero: "m' x = 0" if "res_ptr r \<le> x" "x < res_ptr r + res_len r" for x
      using that by (simp add: m' write_bytes_def)
    have md: "rg_base (ape_region (sb_extent ?s)) + md \<le> res_ptr r"
      using si rp by (simp add: slab_inv_def slab_shape_def slab_slot_addr_def slab_base_def)
    have other: "m' x = sw_mem w x" if b: "b \<in> slab_blocks w" and x: "fst b \<le> x" "x < fst b + snd b" for b x
    proof -
      obtain ks where k: "sw_kept w = map (slab_slot_addr ?s) ks"
          "set (map slot_of (sw_live w) @ ks) \<subseteq> occupied_slots (sb_state ?s)"
        and iss: "\<forall>r \<in> set (sw_live w). slab_issued ?s r"
        using inv by (auto simp: slab_world_inv_def)
      have "(res_ptr r, res_len r) \<noteq> b"
      proof
        assume eq: "(res_ptr r, res_len r) = b"
        have inj: "slab_slot_addr ?s i = slab_slot_addr ?s slot \<Longrightarrow> i = slot" for i
          using si by (auto simp: slab_inv_def slab_shape_def slab_slot_addr_def)
        have "res_ptr q = slab_slot_addr ?s (slot_of q)" if "q \<in> set (sw_live w)" for q
          using iss that unfolding slab_issued_def by (metis slab_result_def alloc_result.select_convs(1))
        then have "slot \<in> set (map slot_of (sw_live w) @ ks)"
          using b eq rp k(1) inj unfolding slab_blocks_def by fastforce
        then show False using k(2) granted(4) by blast
      qed
      moreover have "(res_ptr r, res_len r) \<in> slab_blocks ?w'" "b \<in> slab_blocks ?w'"
        using b granted(2) by (auto simp: slab_blocks_def)
      ultimately have "region_disjoint (block_region (res_ptr r, res_len r)) (block_region b)"
        using slab_alloc.blocks_apart [OF inv'] by blast
      then show ?thesis using x by (auto simp: m' region_disjoint_def block_region_def)
    qed
    show ?thesis using zero md other by (auto simp: m')
  qed auto
qed

theorem slab_zeroed_allocation_witness:
  "sw_mem sample_slab_world1 4160 = 0 \<and> sw_mem sample_slab_world1 4128 = 255"
proof -
  have run: "slab_allocate_untyped (Ok ()) sample_alloc_request (sw_slab sample_slab_world) (sw_mem sample_slab_world)
      = (Ok (slab_result sample_slab 4160 0), sw_slab sample_slab_world1, sw_mem sample_slab_world1)"
    by (simp add: sample_slab_world_def sample_slab_alloc sample_slab_world1_def)
  have "ar_zeroed sample_alloc_request" by (simp add: sample_alloc_request_def)
  from slab_zeroed_allocation [OF sample_slab_built reaches.base run this] show ?thesis
    by (simp add: slab_result_def sample_slab_world_def sample_assign)
qed

text \<open>
  A slab never costs its pool an extent. When the constructor fails, the extent it was given is
  back in the pool; when it succeeds, the pool is untouched until a mortal slab is dropped, which
  restores the pool's byte map; an immortal slab keeps its extent.
\<close>

theorem slab_extent_returned:
  assumes "pool_inv p" and "assign lk1 lk2 lk3 marker er p = (Ok e, p1)"
    and "slab_from_assigned_extent (Ok ()) md_size md_align sz count imm domain pol e lp p1 = (res, p2)"
  shows "case res of Err k \<Rightarrow> pool_bytes p2 = pool_bytes p
     | Ok s \<Rightarrow> p2 = p1 \<and> pool_bytes (snd (slab_drop (Ok ()) s p1)) = (if imm then pool_bytes p1 else pool_bytes p)"
proof -
  obtain l where l: "acquire_extent lk1 er p = (Ok l, p1)" "ape_lease e = Some l"
    using assign_Ok_cases [OF assms(2)] by metis
  have whole: "pool_bytes (snd (drop_assigned_extent (Ok ()) e p1)) = pool_bytes p"
    unfolding drop_assigned_releases [OF l(2)]
    using acquire_release_restores(2) [OF assms(1) l(1), of "fst (release_extent (Ok ()) l p1)"] by simp
  have r: "res = slab_place md_size md_align sz count imm domain pol e lp"
    "p2 = (if is_ok res then p1 else snd (drop_assigned_extent (Ok ()) e p1))"
    using assms(3) by (auto simp: slab_from_assigned_extent_def drop_on_error_def)
  show ?thesis
  proof (cases res)
    case (Ok s)
    then have "sb_extent s = e" "sb_immortal s = imm"
      using r(1) by (auto simp: slab_place_def bind_result_Ok_iff split: if_splits)
    then show ?thesis using Ok r(2) whole by (auto simp: slab_drop_def split: prod.split)
  next
    case (Err k)
    then show ?thesis using r(2) whole by simp
  qed
qed

theorem slab_extent_returned_witness:
  "slab_from_assigned_extent (Ok ()) 24 8 16 2 False 0 sample_policy sample_extent exact_static sample_pool1
     = (Ok sample_slab, sample_pool1)
   \<and> pool_bytes (snd (slab_drop (Ok ()) sample_slab sample_pool1)) = pool_bytes sample_pool"
proof -
  have run: "slab_from_assigned_extent (Ok ()) 24 8 16 2 False 0 sample_policy sample_extent exact_static sample_pool1
     = (Ok sample_slab, sample_pool1)"
    by (simp add: slab_from_assigned_extent_def drop_on_error_def sample_slab_def sample_slab_eq)
  show ?thesis using slab_extent_returned [OF sample_inv(1) sample_assign(1) run] run by simp
qed

end
