(* ===== verification/Alloc_Arena.thy ===== *)
theory Alloc_Arena
  imports Alloc_Slab
begin

text \<open>
  The bounded arena (\<open>fusion-sys/alloc/arena.rs\<close>): a cursor that moves through the payload of one
  pool extent, with counts of the live typed slices and of the live untyped tokens. The arena
  and every slice own one reference to the control block at the front of the extent; tokens
  borrow the arena.

  \<open>cb_size\<close> and \<open>cb_align\<close> stand for the size and alignment of \<open>ControlBlock<ArenaControl>\<close>. A
  typed value is given by its bytes. \<open>lk\<close> is the outcome of the arena's own lock, \<open>lkd\<close> that of
  the pool lock when dropping a control lease releases the extent.
\<close>

record arena_state =
  cursor :: usize
  live_slices :: usize
  live_allocations :: usize

record arena_control =
  ac_header :: metadata_page_header
  ac_max_align :: usize
  ac_domain :: nat
  ac_policy :: alloc_policy
  ac_state :: arena_state

type_synonym arena_block = "arena_control control_block"

datatype 'e arena_init_error = InitAlloc alloc_error_kind | InitFailed 'e

abbreviation arena_st :: "arena_block \<Rightarrow> arena_state" where
  "arena_st b \<equiv> ac_state (cb_value b)"

definition set_arena_state :: "arena_state \<Rightarrow> arena_block \<Rightarrow> arena_block" where
  "set_arena_state st b = b\<lparr>cb_value := (cb_value b)\<lparr>ac_state := st\<rparr>\<rparr>"

definition arena_extent_request :: "usize \<Rightarrow> usize \<Rightarrow> usize \<Rightarrow> usize \<Rightarrow> allocator_layout_policy \<Rightarrow>
    (extent_request, alloc_error_kind) result" where
  "arena_extent_request cb_size cb_align capacity max_align lp =
     (if capacity = 0 \<or> max_align = 0 \<or> \<not> is_power_of_two max_align then Err AllocInvalidRequest
      else bind_result (front_metadata_layout_with_policy cb_size cb_align capacity max_align lp) (\<lambda>l.
             Ok \<lparr>req_len = fl_total_len l, req_align = fl_request_align l\<rparr>))"

definition arena_place :: "usize \<Rightarrow> usize \<Rightarrow> nat \<Rightarrow> usize \<Rightarrow> usize \<Rightarrow> alloc_policy \<Rightarrow> assigned_pool_extent \<Rightarrow>
    allocator_layout_policy \<Rightarrow> (arena_block, alloc_error_kind) result" where
  "arena_place cb_size cb_align domain capacity max_align policy e lp =
     (if capacity = 0 \<or> max_align = 0 \<or> \<not> is_power_of_two max_align then Err AllocInvalidRequest
      else if \<not> policy_allows policy MODE_ARENA then Err AllocPolicyDenied
      else bind_result (front_metadata_layout_with_policy cb_size cb_align capacity max_align lp) (\<lambda>l.
           bind_result (ok_or AllocInvalidRequest
               (checked_add (rg_base (ape_region e)) (fl_payload_offset l))) (\<lambda>usable_base.
             if rg_len (ape_region e) < fl_total_len l \<or> \<not> is_multiple_of usable_base max_align
                \<or> \<not> is_multiple_of (rg_base (ape_region e)) cb_align
             then Err AllocInvalidRequest
             else control_place cb_size cb_align e
               \<lparr>ac_header = metadata_page_header_new SubBoundedArena (fl_metadata_len l)
                  (fl_payload_offset l) (fl_payload_len l),
                ac_max_align = max_align, ac_domain = domain, ac_policy = policy,
                ac_state = \<lparr>cursor = 0, live_slices = 0, live_allocations = 0\<rparr>\<rparr>)))"

definition arena_from_assigned_extent :: "lock_outcome \<Rightarrow> usize \<Rightarrow> usize \<Rightarrow> nat \<Rightarrow> usize \<Rightarrow> usize \<Rightarrow> alloc_policy \<Rightarrow>
    assigned_pool_extent \<Rightarrow> allocator_layout_policy \<Rightarrow> memory_pool \<Rightarrow>
    (arena_block, alloc_error_kind) result \<times> memory_pool" where
  "arena_from_assigned_extent lkd cb_size cb_align domain capacity max_align policy e lp p =
     drop_on_error lkd e p (arena_place cb_size cb_align domain capacity max_align policy e lp)"

definition arena_payload_base :: "arena_block \<Rightarrow> (usize, alloc_error_kind) result" where
  "arena_payload_base b = ok_or AllocInvalidRequest
     (checked_add (rg_base (ape_region (cb_extent b))) (payload_offset (ac_header (cb_value b))))"

definition typed_request :: "usize \<Rightarrow> usize \<Rightarrow> usize \<Rightarrow> (alloc_request, alloc_error_kind) result" where
  "typed_request t_size t_align n =
     (if n = 0 \<or> t_size = 0 then Err AllocInvalidRequest
      else bind_result (ok_or AllocInvalidRequest (checked_mul t_size n)) (\<lambda>bytes.
             Ok \<lparr>ar_len = bytes, ar_align = t_align, ar_zeroed = False\<rparr>))"

text \<open>
  The common core of the four allocation functions, with the lock held: the aligned start address,
  its offset in the payload and the end offset, or the error.
\<close>

definition arena_reserve :: "usize \<Rightarrow> alloc_request \<Rightarrow> arena_block \<Rightarrow>
    (usize \<times> usize \<times> usize, alloc_error_kind) result" where
  "arena_reserve base req b =
     bind_result (ok_or AllocInvalidRequest (checked_add base (cursor (arena_st b)))) (\<lambda>here.
     bind_result (alloc_align_up here (ar_align req)) (\<lambda>start.
     bind_result (ok_or AllocInvalidRequest (checked_sub start base)) (\<lambda>off.
     bind_result (ok_or AllocInvalidRequest (checked_add off (ar_len req))) (\<lambda>fin.
       if payload_len (ac_header (cb_value b)) < fin then Err AllocCapacityExhausted
       else Ok (start, off, fin)))))"

definition arena_prepare :: "lock_outcome \<Rightarrow> alloc_request \<Rightarrow> arena_block \<Rightarrow>
    (usize \<times> usize \<times> usize, alloc_error_kind) result" where
  "arena_prepare lk req b =
     (if ac_max_align (cb_value b) < ar_align req then Err AllocInvalidRequest
      else bind_result (arena_payload_base b) (\<lambda>base.
           bind_result (map_err AllocSynchronizationFailure lk) (\<lambda>_. arena_reserve base req b)))"

definition arena_result :: "arena_block \<Rightarrow> usize \<Rightarrow> usize \<Rightarrow> alloc_request \<Rightarrow> alloc_result" where
  "arena_result b start off req = \<lparr>res_ptr = start, res_len = ar_len req, res_align = ar_align req,
     res_domain = env_domain (mi_compatibility (ape_member (cb_extent b))),
     res_attrs = env_attrs (mi_compatibility (ape_member (cb_extent b))),
     res_hazards = env_hazards (mi_compatibility (ape_member (cb_extent b))),
     res_geometry = env_geometry (mi_compatibility (ape_member (cb_extent b))),
     res_backing = ArenaBlock (ape_pool_marker (cb_extent b)) (ape_lease_id (cb_extent b)) off (ar_len req)\<rparr>"

definition arena_allocate_untyped :: "lock_outcome \<Rightarrow> alloc_request \<Rightarrow> arena_block \<Rightarrow> byte_memory \<Rightarrow>
    (alloc_result, alloc_error_kind) result \<times> arena_block \<times> byte_memory" where
  "arena_allocate_untyped lk req b m =
     (if ar_len req = 0 \<or> ar_align req = 0 \<or> \<not> is_power_of_two (ar_align req)
      then (Err AllocInvalidRequest, b, m)
      else (case arena_prepare lk req b of
          Err e \<Rightarrow> (Err e, b, m)
        | Ok (start, off, fin) \<Rightarrow>
            let st1 = (arena_st b)\<lparr>cursor := fin\<rparr> in
            (case checked_add (live_allocations st1) 1 of
                None \<Rightarrow> (Err AllocCapacityExhausted, set_arena_state st1 b, m)
              | Some n \<Rightarrow>
                  let b2 = set_arena_state (st1\<lparr>live_allocations := n\<rparr>) b in
                  if start = 0 then (Err AllocInvalidRequest, b2, m)
                  else (Ok (arena_result b2 start off req), b2,
                        if ar_zeroed req then write_bytes start (replicate (ar_len req) 0) m else m))))"

text \<open>
  A typed slice: a clone of the control lease, the cursor, the count. When a later check fails, the
  clone is dropped and the cursor stays where it was put.
\<close>

definition arena_reserve_slice :: "lock_outcome \<Rightarrow> lock_outcome \<Rightarrow> usize \<Rightarrow> usize \<Rightarrow> usize \<Rightarrow> arena_block \<Rightarrow>
    memory_pool \<Rightarrow> (usize \<times> usize, alloc_error_kind) result \<times> arena_block \<times> memory_pool" where
  "arena_reserve_slice lk lkd t_size t_align n b p =
     (case bind_result (typed_request t_size t_align n) (\<lambda>req. arena_prepare lk req b) of
        Err e \<Rightarrow> (Err e, b, p)
      | Ok (start, off, fin) \<Rightarrow> (case control_try_clone b of
            (Err e, b1) \<Rightarrow> (Err e, b1, p)
          | (Ok _, b1) \<Rightarrow>
              let st1 = (arena_st b1)\<lparr>cursor := fin\<rparr> in
              (case checked_add (live_slices st1) 1 of
                  None \<Rightarrow> (case control_drop lkd (set_arena_state st1 b1) p of
                     (b2, p2) \<Rightarrow> (Err AllocCapacityExhausted, b2, p2))
                | Some k \<Rightarrow>
                    let b2 = set_arena_state (st1\<lparr>live_slices := k\<rparr>) b1 in
                    if start = 0 then (case control_drop lkd b2 p of (b3, p3) \<Rightarrow> (Err AllocInvalidRequest, b3, p3))
                    else (Ok (start, off), b2, p))))"

text \<open>An \<open>ArenaSlice\<close> is its address and its length in bytes.\<close>

definition arena_alloc_value :: "lock_outcome \<Rightarrow> lock_outcome \<Rightarrow> 8 word list \<Rightarrow> usize \<Rightarrow> arena_block \<Rightarrow> byte_memory \<Rightarrow>
    memory_pool \<Rightarrow> (usize \<times> usize, alloc_error_kind) result \<times> arena_block \<times> byte_memory \<times> memory_pool" where
  "arena_alloc_value lk lkd v t_align b m p =
     (case arena_reserve_slice lk lkd (length v) t_align 1 b p of
        (Err e, b1, p1) \<Rightarrow> (Err e, b1, m, p1)
      | (Ok (start, off), b1, p1) \<Rightarrow> (Ok (start, length v), b1, write_bytes start v m, p1))"

text \<open>
  The initialiser is called with the indices in order, at most once each, so its outcomes are a
  function of the index. The loop returns the number of initialised elements with an error.
\<close>

fun arena_init_loop :: "(nat \<Rightarrow> (8 word list, 'e) result) \<Rightarrow> usize \<Rightarrow> usize \<Rightarrow> nat \<Rightarrow> nat \<Rightarrow> byte_memory \<Rightarrow>
    ('e \<times> nat) option \<times> byte_memory" where
  "arena_init_loop init t_size ptr index 0 m = (None, m)"
| "arena_init_loop init t_size ptr index (Suc left) m = (case init index of
      Ok v \<Rightarrow> arena_init_loop init t_size ptr (Suc index) left (write_bytes (ptr + index * t_size) (take t_size v) m)
    | Err e \<Rightarrow> (Some (e, index), m))"

text \<open>The fourth component of the result lists the addresses of the elements dropped in place.\<close>

definition arena_try_alloc_array_with :: "lock_outcome \<Rightarrow> lock_outcome \<Rightarrow> usize \<Rightarrow> usize \<Rightarrow> usize \<Rightarrow>
    (nat \<Rightarrow> (8 word list, 'e) result) \<Rightarrow> arena_block \<Rightarrow> byte_memory \<Rightarrow> memory_pool \<Rightarrow>
    (usize \<times> usize, 'e arena_init_error) result \<times> arena_block \<times> byte_memory \<times> memory_pool \<times> usize list" where
  "arena_try_alloc_array_with lk lkd t_size t_align n init b m p =
     (case arena_reserve_slice lk lkd t_size t_align n b p of
        (Err e, b1, p1) \<Rightarrow> (Err (InitAlloc e), b1, m, p1, [])
      | (Ok (start, off), b1, p1) \<Rightarrow> (case arena_init_loop init t_size start 0 n m of
            (None, m1) \<Rightarrow> (Ok (start, t_size * n), b1, m1, p1, [])
          | (Some (e, k), m1) \<Rightarrow>
              let st = arena_st b1;
                  b2 = set_arena_state (st\<lparr>cursor := off, live_slices := saturating_sub (live_slices st) 1\<rparr>) b1
              in (case control_drop lkd b2 p1 of
                    (b3, p3) \<Rightarrow> (Err (InitFailed e), b3, m1, p3, map (\<lambda>i. start + i * t_size) [0..<k]))))"

definition arena_alloc_array_with :: "lock_outcome \<Rightarrow> lock_outcome \<Rightarrow> usize \<Rightarrow> usize \<Rightarrow> usize \<Rightarrow>
    (nat \<Rightarrow> 8 word list) \<Rightarrow> arena_block \<Rightarrow> byte_memory \<Rightarrow> memory_pool \<Rightarrow>
    (usize \<times> usize, alloc_error_kind) result \<times> arena_block \<times> byte_memory \<times> memory_pool" where
  "arena_alloc_array_with lk lkd t_size t_align n init b m p =
     (case arena_try_alloc_array_with lk lkd t_size t_align n (\<lambda>i. Ok (init i) :: (8 word list, unit) result) b m p of
        (Ok s, b1, m1, p1, _) \<Rightarrow> (Ok s, b1, m1, p1)
      | (Err (InitAlloc e), b1, m1, p1, _) \<Rightarrow> (Err e, b1, m1, p1)
      | (Err (InitFailed _), b1, m1, p1, _) \<Rightarrow> (Err AllocInvalidRequest, b1, m1, p1))"

definition arena_alloc_retained_value :: "lock_outcome \<Rightarrow> 8 word list \<Rightarrow> usize \<Rightarrow> arena_block \<Rightarrow> byte_memory \<Rightarrow>
    (usize, alloc_error_kind) result \<times> arena_block \<times> byte_memory" where
  "arena_alloc_retained_value lk v t_align b m =
     (case bind_result (typed_request (length v) t_align 1) (\<lambda>req. arena_prepare lk req b) of
        Err e \<Rightarrow> (Err e, b, m)
      | Ok (start, off, fin) \<Rightarrow>
          let b1 = set_arena_state ((arena_st b)\<lparr>cursor := fin\<rparr>) b in
          if start = 0 then (Err AllocInvalidRequest, b1, m) else (Ok start, b1, write_bytes start v m))"

definition arena_release_allocation :: "lock_outcome \<Rightarrow> alloc_result \<Rightarrow> bool \<Rightarrow> arena_block \<Rightarrow>
    (unit, alloc_error_kind) result \<times> arena_block" where
  "arena_release_allocation lk a require_top b = (case res_backing a of
      SlabSlot _ _ _ \<Rightarrow> (Err AllocInvalidRequest, b)
    | ArenaBlock marker lease off n \<Rightarrow>
        if marker \<noteq> ape_pool_marker (cb_extent b) \<or> lease \<noteq> ape_lease_id (cb_extent b)
        then (Err AllocInvalidRequest, b)
        else (case lk of
            Err k \<Rightarrow> (Err (AllocSynchronizationFailure k), b)
          | Ok _ \<Rightarrow>
              if live_allocations (arena_st b) = 0 then (Err AllocInvalidRequest, b)
              else (case checked_add off n of
                  None \<Rightarrow> (Err AllocInvalidRequest, b)
                | Some fin \<Rightarrow>
                    if fin \<noteq> cursor (arena_st b) \<and> require_top then (Err AllocInvalidRequest, b)
                    else (Ok (), set_arena_state ((arena_st b)
                      \<lparr>cursor := (if fin = cursor (arena_st b) then off else cursor (arena_st b)),
                       live_allocations := live_allocations (arena_st b) - 1\<rparr>) b))))"

definition arena_reset :: "lock_outcome \<Rightarrow> arena_block \<Rightarrow> (unit, alloc_error_kind) result \<times> arena_block" where
  "arena_reset lk b = (case lk of
      Err k \<Rightarrow> (Err (AllocSynchronizationFailure k), b)
    | Ok _ \<Rightarrow> if live_slices (arena_st b) \<noteq> 0 \<or> live_allocations (arena_st b) \<noteq> 0 then (Err AllocBusy, b)
        else (Ok (), set_arena_state ((arena_st b)\<lparr>cursor := 0\<rparr>) b))"

text \<open>Dropping a slice: the count under the lock if it can be taken, then the control lease.\<close>

definition arena_slice_drop :: "lock_outcome \<Rightarrow> lock_outcome \<Rightarrow> arena_block \<Rightarrow> memory_pool \<Rightarrow> arena_block \<times> memory_pool" where
  "arena_slice_drop lk lkd b p =
     control_drop lkd
       (if is_ok lk then set_arena_state ((arena_st b)\<lparr>live_slices := saturating_sub (live_slices (arena_st b)) 1\<rparr>) b
        else b) p"

definition arena_token_try_release :: "lock_outcome \<Rightarrow> alloc_result option \<Rightarrow> arena_block \<Rightarrow>
    (unit, alloc_error_kind) result \<times> alloc_result option \<times> arena_block" where
  "arena_token_try_release lk t b = (case t of
      None \<Rightarrow> (Err AllocInvalidRequest, None, b)
    | Some a \<Rightarrow> (case arena_release_allocation lk a True b of
        (Ok _, b') \<Rightarrow> (Ok (), None, b') | (Err e, b') \<Rightarrow> (Err e, Some a, b')))"

definition arena_token_drop :: "lock_outcome \<Rightarrow> alloc_result option \<Rightarrow> arena_block \<Rightarrow> alloc_result option \<times> arena_block" where
  "arena_token_drop lk t b = (case t of
      None \<Rightarrow> (None, b) | Some a \<Rightarrow> (None, snd (arena_release_allocation lk a False b)))"

definition arena_drop :: "bool \<Rightarrow> lock_outcome \<Rightarrow> arena_block \<Rightarrow> memory_pool \<Rightarrow> arena_block \<times> memory_pool" where
  "arena_drop immortal lkd b p = (if immortal then (b, p) else control_drop lkd b p)"

end
