(* ===== verification/Alloc_Arena_Props.thy ===== *)
theory Alloc_Arena_Props
  imports Alloc_Arena
begin

text \<open>
  Correctness of the bounded arena: what each operation does on every branch, the invariant that
  relates the cursor and the counts to the blocks its clients hold, the arena as a block
  allocator, and the properties read off them.
\<close>

section \<open>Blocks below a cursor\<close>

type_synonym block = "usize \<times> usize"

definition apart :: "block \<Rightarrow> block \<Rightarrow> bool" where
  "apart b c \<longleftrightarrow> fst b + snd b \<le> fst c \<or> fst c + snd c \<le> fst b"

definition blocks_ok :: "usize \<Rightarrow> usize \<Rightarrow> block list \<Rightarrow> bool" where
  "blocks_ok lo hi bs \<longleftrightarrow> (\<forall>b \<in> set bs. 0 < snd b \<and> lo \<le> fst b \<and> fst b + snd b \<le> hi) \<and> sorted_wrt apart bs"

lemma apart_sym: "apart b c \<longleftrightarrow> apart c b"
  by (auto simp: apart_def)

lemma apart_disjoint: "apart b c \<Longrightarrow> region_disjoint (block_region b) (block_region c)"
  by (auto simp: apart_def region_disjoint_def block_region_def)

lemma blocks_ok_Nil [simp]: "blocks_ok lo hi []"
  by (simp add: blocks_ok_def)

lemma blocks_ok_member:
  "blocks_ok lo hi bs \<Longrightarrow> b \<in> set bs \<Longrightarrow> 0 < snd b \<and> lo \<le> fst b \<and> fst b + snd b \<le> hi"
  by (simp add: blocks_ok_def)

lemma blocks_ok_mono: "blocks_ok lo hi bs \<Longrightarrow> hi \<le> hi' \<Longrightarrow> blocks_ok lo hi' bs"
  by (auto simp: blocks_ok_def)

lemma blocks_ok_push:
  "blocks_ok lo hi bs \<Longrightarrow> lo \<le> a \<Longrightarrow> hi \<le> a \<Longrightarrow> 0 < n \<Longrightarrow> blocks_ok lo (a + n) ((a, n) # bs)"
  by (fastforce simp: blocks_ok_def apart_def)

lemma blocks_ok_remove:
  assumes "blocks_ok lo hi (us @ b # vs)"
  shows "blocks_ok lo hi (us @ vs)"
  using assms by (auto simp: blocks_ok_def sorted_wrt_append)

lemma blocks_ok_front:
  assumes "blocks_ok lo hi (us @ b # vs)"
  shows "blocks_ok lo hi (b # us @ vs)"
  using assms apart_sym by (auto simp: blocks_ok_def sorted_wrt_append)

text \<open>Taking away the block that ends at the cursor lets the cursor move back to its start.\<close>

lemma blocks_ok_pop:
  assumes "blocks_ok lo hi (us @ b # vs)" and "fst b + snd b = hi"
  shows "blocks_ok lo (fst b) (us @ vs)"
proof -
  have front: "blocks_ok lo hi (b # us @ vs)" using blocks_ok_front [OF assms(1)] .
  have "fst c + snd c \<le> fst b" if "c \<in> set (us @ vs)" for c
  proof -
    have "apart b c" "0 < snd c" "fst c + snd c \<le> hi" using front that by (auto simp: blocks_ok_def)
    then show ?thesis using assms(2) by (auto simp: apart_def)
  qed
  then show ?thesis using blocks_ok_remove [OF assms(1)] by (auto simp: blocks_ok_def)
qed

lemma blocks_ok_count:
  assumes "blocks_ok lo hi bs"
  shows "length bs \<le> hi - lo"
proof -
  have "distinct (map fst bs)" using assms
  proof (induction bs)
    case (Cons b bs)
    have "fst b \<noteq> fst c" if "c \<in> set bs" for c
      using Cons.prems that by (fastforce simp: blocks_ok_def apart_def)
    moreover have "blocks_ok lo hi bs" using blocks_ok_remove [of lo hi "[]" b bs] Cons.prems by simp
    ultimately show ?case using Cons.IH by auto
  qed simp
  moreover have "set (map fst bs) \<subseteq> {lo..<hi}" using assms by (fastforce simp: blocks_ok_def)
  ultimately show ?thesis using card_mono [of "{lo..<hi}" "set (map fst bs)"] distinct_card by fastforce
qed

section \<open>Shape and single operations\<close>

definition arena_base :: "arena_block \<Rightarrow> usize" where
  "arena_base b = rg_base (ape_region (cb_extent b)) + payload_offset (ac_header (cb_value b))"

definition arena_cap :: "arena_block \<Rightarrow> usize" where
  "arena_cap b = payload_len (ac_header (cb_value b))"

definition arena_payload :: "arena_block \<Rightarrow> region" where
  "arena_payload b = \<lparr>rg_base = arena_base b, rg_len = arena_cap b\<rparr>"

definition arena_shape :: "usize \<Rightarrow> arena_block \<Rightarrow> bool" where
  "arena_shape cb_size b \<longleftrightarrow> 0 < rg_base (ape_region (cb_extent b))
     \<and> cb_size \<le> payload_offset (ac_header (cb_value b))
     \<and> arena_base b + arena_cap b \<le> rg_base (ape_region (cb_extent b)) + rg_len (ape_region (cb_extent b))
     \<and> rg_base (ape_region (cb_extent b)) + rg_len (ape_region (cb_extent b)) \<le> usize_max"

text \<open>Every operation replaces the arena state and the reference count; the rest is fixed.\<close>

definition arena_upd :: "arena_state \<Rightarrow> usize \<Rightarrow> arena_block \<Rightarrow> arena_block" where
  "arena_upd st r b = set_arena_state st (b\<lparr>cb_header := \<lparr>refs = r\<rparr>\<rparr>)"

abbreviation arena_refs :: "arena_block \<Rightarrow> usize" where
  "arena_refs b \<equiv> refs (cb_header b)"

lemma set_arena_state_upd: "set_arena_state st b = arena_upd st (arena_refs b) b"
  by (cases "cb_header b") (simp add: arena_upd_def set_arena_state_def)

lemma arena_upd_simps [simp]:
  "arena_st (arena_upd st r b) = st" "arena_refs (arena_upd st r b) = r" "cb_extent (arena_upd st r b) = cb_extent b"
  "arena_base (arena_upd st r b) = arena_base b" "arena_cap (arena_upd st r b) = arena_cap b"
  "arena_payload (arena_upd st r b) = arena_payload b" "arena_shape cs (arena_upd st r b) = arena_shape cs b"
  "ac_max_align (cb_value (arena_upd st r b)) = ac_max_align (cb_value b)"
  "arena_upd st' r' (arena_upd st r b) = arena_upd st' r' b"
  "arena_upd (arena_st b) (arena_refs b) b = b"
  by (cases b; simp add: arena_upd_def set_arena_state_def arena_base_def arena_cap_def arena_shape_def arena_payload_def)+

lemma control_drop_arena:
  "1 < arena_refs b \<Longrightarrow> control_drop lkd b p = (arena_upd (arena_st b) (arena_refs b - 1) b, p)"
  by (simp add: control_drop_cases arena_upd_def set_arena_state_def)

lemma arena_shape_cap:
  "arena_shape cs b \<Longrightarrow> arena_base b + arena_cap b \<le> usize_max"
  "arena_shape cs b \<Longrightarrow> arena_cap b < usize_max"
  "arena_shape cs b \<Longrightarrow> 0 < arena_base b"
  by (auto simp: arena_shape_def arena_base_def)

lemma arena_prepare_Ok:
  assumes sh: "arena_shape cs b" and cur: "cursor (arena_st b) \<le> arena_cap b"
    and run: "arena_prepare lk req b = Ok (start, off, fin)"
  shows "lk = Ok ()" and "start = arena_base b + off" and "ar_align req dvd start" and "cursor (arena_st b) \<le> off"
    and "off < cursor (arena_st b) + ar_align req" and "fin = off + ar_len req" and "fin \<le> arena_cap b"
    and "0 < start" and "is_power_of_two (ar_align req)"
proof -
  have base: "arena_payload_base b = Ok (arena_base b)"
    using arena_shape_cap(1) [OF sh] by (auto simp: arena_payload_base_def arena_base_def checked_add_def)
  have lk: "lk = Ok ()" and r: "arena_reserve (arena_base b) req b = Ok (start, off, fin)"
    using run base by (auto simp: arena_prepare_def bind_result_Ok_iff split: if_splits)
  have a: "align_up (arena_base b + cursor (arena_st b)) (ar_align req) = Some start"
    and o: "off = start - arena_base b" "arena_base b \<le> start" and f: "fin = off + ar_len req" "fin \<le> arena_cap b"
    using r by (auto simp: arena_reserve_def bind_result_Ok_iff checked_iffs alloc_align_up_Ok_iff arena_cap_def
        split: if_splits)
  note al = align_up_SomeD [OF a]
  show "lk = Ok ()" "start = arena_base b + off" "ar_align req dvd start" "fin = off + ar_len req"
    "fin \<le> arena_cap b" "is_power_of_two (ar_align req)"
    using lk o al f by auto
  show "cursor (arena_st b) \<le> off" using o al(4) by linarith
  show "off < cursor (arena_st b) + ar_align req" using o al(5) by linarith
  show "0 < start" using arena_shape_cap(3) [OF sh] o(2) by linarith
qed

text \<open>
  When it succeeds: exactly when the next aligned block still fits.
\<close>

lemma arena_prepare_total:
  assumes sh: "arena_shape cs b" and cur: "cursor (arena_st b) \<le> arena_cap b"
    and al: "is_power_of_two (ar_align req)" "ar_align req \<le> ac_max_align (cb_value b)"
    and up: "align_up (arena_base b + cursor (arena_st b)) (ar_align req) = Some start"
    and fit: "start + ar_len req \<le> usize_max"
  shows "arena_prepare (Ok ()) req b =
     (if start + ar_len req \<le> arena_base b + arena_cap b
      then Ok (start, start - arena_base b, start - arena_base b + ar_len req) else Err AllocCapacityExhausted)"
proof -
  have base: "arena_payload_base b = Ok (arena_base b)"
    using arena_shape_cap(1) [OF sh] by (auto simp: arena_payload_base_def arena_base_def checked_add_def)
  have "arena_base b + cursor (arena_st b) \<le> usize_max" using arena_shape_cap(1) [OF sh] cur by linarith
  moreover have "arena_base b \<le> start" using align_up_SomeD(4) [OF up] by linarith
  ultimately show ?thesis using al fit
    by (auto simp: arena_prepare_def base arena_reserve_def checked_add_def checked_sub_def
        alloc_align_up_eq up arena_cap_def)
qed

definition arena_ready :: "usize \<Rightarrow> arena_block \<Rightarrow> bool" where
  "arena_ready cs b \<longleftrightarrow> arena_shape cs b \<and> cursor (arena_st b) \<le> arena_cap b
     \<and> live_allocations (arena_st b) < usize_max \<and> live_slices (arena_st b) < usize_max \<and> 0 < arena_refs b"

lemma arena_allocate_cases:
  assumes rd: "arena_ready cs b" and run: "arena_allocate_untyped lk req b m = (res, b', m')"
  obtains (failed) e where "res = Err e" "b' = b" "m' = m"
    | (granted) off where "res = Ok (arena_result b (arena_base b + off) off req)"
      "b' = arena_upd ((arena_st b)\<lparr>cursor := off + ar_len req, live_allocations := live_allocations (arena_st b) + 1\<rparr>)
         (arena_refs b) b"
      "cursor (arena_st b) \<le> off" "off + ar_len req \<le> arena_cap b" "0 < ar_len req"
      "ar_align req dvd arena_base b + off"
      "m' = (if ar_zeroed req then write_bytes (arena_base b + off) (replicate (ar_len req) 0) m else m)"
proof (cases "ar_len req = 0 \<or> ar_align req = 0 \<or> \<not> is_power_of_two (ar_align req)")
  case True
  then show thesis using run failed [of AllocInvalidRequest] by (auto simp: arena_allocate_untyped_def)
next
  case False
  have sh: "arena_shape cs b" "cursor (arena_st b) \<le> arena_cap b" and lt: "live_allocations (arena_st b) < usize_max"
    using rd by (auto simp: arena_ready_def)
  show thesis
  proof (cases "arena_prepare lk req b")
    case (Err e)
    then show thesis using run False failed [of e] by (auto simp: arena_allocate_untyped_def)
  next
    case (Ok x)
    obtain start off fin where p: "arena_prepare lk req b = Ok (start, off, fin)" using Ok by (cases x) auto
    note q = arena_prepare_Ok [OF sh p]
    show thesis
      by (rule granted [of off])
        (use run False p q lt in \<open>auto simp: arena_allocate_untyped_def Let_def checked_add_def set_arena_state_upd
           arena_result_def\<close>)
  qed
qed

lemma arena_reserve_slice_cases:
  assumes rd: "arena_ready cs b" and run: "arena_reserve_slice lk lkd ts ta n b p = (res, b', p')"
  obtains (failed) e where "res = Err e" "b' = b" "p' = p"
    | (granted) off where "res = Ok (arena_base b + off, off)" "p' = p"
      "b' = arena_upd ((arena_st b)\<lparr>cursor := off + ts * n, live_slices := live_slices (arena_st b) + 1\<rparr>)
         (arena_refs b + 1) b"
      "cursor (arena_st b) \<le> off" "off + ts * n \<le> arena_cap b" "0 < ts * n" "ta dvd arena_base b + off"
proof -
  have sh: "arena_shape cs b" "cursor (arena_st b) \<le> arena_cap b" and lt: "live_slices (arena_st b) < usize_max"
    using rd by (auto simp: arena_ready_def)
  let ?r = "bind_result (typed_request ts ta n) (\<lambda>req. arena_prepare lk req b)"
  show thesis
  proof (cases "?r")
    case (Err e)
    then show thesis using run failed [of e] by (auto simp: arena_reserve_slice_def)
  next
    case (Ok x)
    obtain start off fin where r: "?r = result.Ok (start, off, fin)" using Ok by (cases x) auto
    have nz: "0 < ts * n" and p: "arena_prepare lk \<lparr>ar_len = ts * n, ar_align = ta, ar_zeroed = False\<rparr> b
        = result.Ok (start, off, fin)"
      using r by (auto simp: bind_result_Ok_iff typed_request_def checked_iffs split: if_splits)
    note q = arena_prepare_Ok [OF sh p, simplified]
    show thesis
    proof (cases "control_try_clone b")
      case (Pair c b1)
      show thesis
      proof (cases c)
        case (Err e)
        then have "b1 = b" using Pair by (auto simp: control_try_clone_eq split: if_splits)
        then show thesis using run r Pair Err failed [of e] by (auto simp: arena_reserve_slice_def)
      next
        case (Ok u)
        then have b1: "b1 = arena_upd (arena_st b) (arena_refs b + 1) b"
          using Pair by (auto simp: control_try_clone_eq arena_upd_def set_arena_state_def split: if_splits)
        show thesis
          by (rule granted [of off])
            (use run r Pair Ok b1 q nz lt in \<open>auto simp: arena_reserve_slice_def Let_def checked_add_def
               set_arena_state_upd\<close>)
      qed
    qed
  qed
qed

lemma arena_alloc_value_cases:
  assumes rd: "arena_ready cs b" and run: "arena_alloc_value lk lkd v ta b m p = (res, b', m', p')"
  obtains (failed) e where "res = Err e" "b' = b" "m' = m" "p' = p"
    | (granted) off where "res = Ok (arena_base b + off, length v)" "p' = p"
      "b' = arena_upd ((arena_st b)\<lparr>cursor := off + length v, live_slices := live_slices (arena_st b) + 1\<rparr>)
         (arena_refs b + 1) b"
      "cursor (arena_st b) \<le> off" "off + length v \<le> arena_cap b" "0 < length v" "ta dvd arena_base b + off"
      "m' = write_bytes (arena_base b + off) v m"
proof -
  obtain r b1 p1 where s: "arena_reserve_slice lk lkd (length v) ta 1 b p = (r, b1, p1)" by (metis prod_cases3)
  from rd s show thesis
  proof (cases rule: arena_reserve_slice_cases)
    case (failed e)
    then show thesis using run s that(1) [of e] by (simp add: arena_alloc_value_def)
  next
    case (granted off)
    then show thesis using run s that(2) [of off] by (simp add: arena_alloc_value_def)
  qed
qed

text \<open>
  A failed initialiser drops the elements initialised so far and takes back the reservation and
  the cloned reference. Only bytes of the reserved range are written.
\<close>

lemma arena_init_loop_writes:
  "arena_init_loop init ts ptr i n m = (r, m') \<Longrightarrow> x < ptr \<or> ptr + (i + n) * ts \<le> x \<Longrightarrow> m' x = m x"
proof (induction init ts ptr i n m rule: arena_init_loop.induct)
  case (2 init ts ptr i left m)
  show ?case
  proof (cases "init i")
    case (Ok v)
    have "ptr + i * ts + length (take ts v) \<le> ptr + (i + Suc left) * ts"
      by (simp add: algebra_simps min_le_iff_disj)
    then have "write_bytes (ptr + i * ts) (take ts v) m x = m x" using 2(3) by (intro write_bytes_outside) auto
    then show ?thesis using 2 Ok by (simp add: algebra_simps)
  qed (use 2 in simp)
qed simp

lemma arena_init_loop_result:
  "arena_init_loop init ts ptr i n m = (r, m') \<Longrightarrow>
     (case r of None \<Rightarrow> \<forall>j. i \<le> j \<and> j < i + n \<longrightarrow> is_ok (init j)
      | Some (e, k) \<Rightarrow> i \<le> k \<and> k < i + n \<and> init k = Err e \<and> (\<forall>j. i \<le> j \<and> j < k \<longrightarrow> is_ok (init j)))"
proof (induction init ts ptr i n m rule: arena_init_loop.induct)
  case (2 init ts ptr i left m)
  show ?case
  proof (cases "init i")
    case (Ok v)
    with 2 have ih: "case r of None \<Rightarrow> \<forall>j. Suc i \<le> j \<and> j < Suc i + left \<longrightarrow> is_ok (init j)
      | Some (e, k) \<Rightarrow> Suc i \<le> k \<and> k < Suc i + left \<and> init k = Err e \<and> (\<forall>j. Suc i \<le> j \<and> j < k \<longrightarrow> is_ok (init j))"
      by simp
    have "is_ok (init j)" if "i \<le> j" "Suc i \<le> j \<longrightarrow> is_ok (init j)" for j
      using that Ok by (cases "j = i") auto
    then show ?thesis using ih by (auto split: option.splits)
  qed (use 2 in auto)
qed auto

lemma arena_array_cases:
  assumes rd: "arena_ready cs b" and run: "arena_try_alloc_array_with lk lkd ts ta n init b m p = (res, b', m', p', ds)"
  obtains (failed) e where "res = Err (InitAlloc e)" "b' = b" "m' = m" "p' = p" "ds = []"
    | (undone) e off k where "res = Err (InitFailed e)" "p' = p"
      "b' = arena_upd ((arena_st b)\<lparr>cursor := off\<rparr>) (arena_refs b) b"
      "cursor (arena_st b) \<le> off" "off + ts * n \<le> arena_cap b"
      "\<forall>x. x < arena_base b + off \<or> arena_base b + off + ts * n \<le> x \<longrightarrow> m' x = m x"
      "k < n" "init k = Err e" "\<forall>j<k. is_ok (init j)" "ds = map (\<lambda>i. arena_base b + off + i * ts) [0..<k]"
    | (granted) off where "res = Ok (arena_base b + off, ts * n)" "p' = p" "ds = []"
      "b' = arena_upd ((arena_st b)\<lparr>cursor := off + ts * n, live_slices := live_slices (arena_st b) + 1\<rparr>)
         (arena_refs b + 1) b"
      "cursor (arena_st b) \<le> off" "off + ts * n \<le> arena_cap b" "0 < ts * n" "ta dvd arena_base b + off"
      "\<forall>x. x < arena_base b + off \<or> arena_base b + off + ts * n \<le> x \<longrightarrow> m' x = m x"
proof -
  obtain r b1 p1 where s: "arena_reserve_slice lk lkd ts ta n b p = (r, b1, p1)" by (metis prod_cases3)
  from rd s show thesis
  proof (cases rule: arena_reserve_slice_cases)
    case (failed e)
    then show thesis using run s that(1) [of e] by (simp add: arena_try_alloc_array_with_def)
  next
    case g: (granted off)
    obtain q m1 where l: "arena_init_loop init ts (arena_base b + off) 0 n m = (q, m1)" by fastforce
    have w: "\<forall>x. x < arena_base b + off \<or> arena_base b + off + ts * n \<le> x \<longrightarrow> m1 x = m x"
      using arena_init_loop_writes [OF l] by (simp add: mult.commute)
    show thesis
    proof (cases q)
      case None
      then show thesis using run s g l w that(3) [of off] by (simp add: arena_try_alloc_array_with_def)
    next
      case (Some ek)
      obtain e k where q: "q = Some (e, k)" using Some by (cases ek) auto
      note fl = arena_init_loop_result [OF l, unfolded q, simplified]
      have rf: "1 < arena_refs b1" using rd g by (simp add: arena_ready_def)
      show thesis
        by (rule undone [of e off k])
          (use run s g l q w fl rf in \<open>auto simp: arena_try_alloc_array_with_def Let_def set_arena_state_upd
             control_drop_arena saturating_sub_def\<close>)
    qed
  qed
qed

lemma arena_retained_cases:
  assumes rd: "arena_ready cs b" and run: "arena_alloc_retained_value lk v ta b m = (res, b', m')"
  obtains (failed) e where "res = Err e" "b' = b" "m' = m"
    | (granted) off where "res = Ok (arena_base b + off)"
      "b' = arena_upd ((arena_st b)\<lparr>cursor := off + length v\<rparr>) (arena_refs b) b"
      "cursor (arena_st b) \<le> off" "off + length v \<le> arena_cap b" "0 < length v" "ta dvd arena_base b + off"
      "m' = write_bytes (arena_base b + off) v m"
proof -
  have sh: "arena_shape cs b" "cursor (arena_st b) \<le> arena_cap b" using rd by (auto simp: arena_ready_def)
  let ?r = "bind_result (typed_request (length v) ta 1) (\<lambda>req. arena_prepare lk req b)"
  show thesis
  proof (cases "?r")
    case (Err e)
    then show thesis using run failed [of e] by (auto simp: arena_alloc_retained_value_def)
  next
    case (Ok x)
    obtain start off fin where r: "?r = result.Ok (start, off, fin)" using Ok by (cases x) auto
    have nz: "0 < length v" and p: "arena_prepare lk \<lparr>ar_len = length v, ar_align = ta, ar_zeroed = False\<rparr> b
        = result.Ok (start, off, fin)"
      using r by (auto simp: bind_result_Ok_iff typed_request_def checked_iffs split: if_splits)
    note q = arena_prepare_Ok [OF sh p, simplified]
    show thesis
      by (rule granted [of off])
        (use run r q nz in \<open>auto simp: arena_alloc_retained_value_def Let_def set_arena_state_upd\<close>)
  qed
qed

lemma arena_release_cases:
  assumes run: "arena_release_allocation lk a tp b = (res, b')"
  obtains (failed) e where "res = Err e" "b' = b"
    | (released) off n where "res = Ok ()" "lk = Ok ()" "0 < live_allocations (arena_st b)"
      "res_backing a = ArenaBlock (ape_pool_marker (cb_extent b)) (ape_lease_id (cb_extent b)) off n"
      "tp \<longrightarrow> off + n = cursor (arena_st b)"
      "b' = arena_upd ((arena_st b)\<lparr>cursor := (if off + n = cursor (arena_st b) then off else cursor (arena_st b)),
         live_allocations := live_allocations (arena_st b) - 1\<rparr>) (arena_refs b) b"
proof (cases "is_ok res")
  case False
  then have "b' = b" using run
    by (auto simp: arena_release_allocation_def split: allocation_backing.splits result.splits option.splits if_splits)
  then show thesis using False failed by (cases res) auto
next
  case True
  then obtain off n where "res_backing a = ArenaBlock (ape_pool_marker (cb_extent b)) (ape_lease_id (cb_extent b)) off n"
    using run by (cases "res_backing a") (auto simp: arena_release_allocation_def split: if_splits)
  with run True show thesis
    by (intro released [of off n])
      (auto simp: arena_release_allocation_def set_arena_state_upd checked_iffs
        split: result.splits option.splits if_splits)
qed

section \<open>What the clients of an arena hold\<close>

text \<open>
  The blocks that still count: live tokens and typed slices, retained values, and the blocks of
  tokens and slices that were dropped while the lock could not be taken, which the arena keeps
  counting. The last component of each is the alignment its caller asked for.
\<close>

datatype arena_holder =
    HToken alloc_result
  | HSlice usize usize usize
  | HKept usize usize usize
  | HLostToken usize usize usize
  | HLostSlice usize usize usize

fun holder_block :: "arena_holder \<Rightarrow> block" where
  "holder_block (HToken r) = (res_ptr r, res_len r)"
| "holder_block (HSlice a n al) = (a, n)"
| "holder_block (HKept a n al) = (a, n)"
| "holder_block (HLostToken a n al) = (a, n)"
| "holder_block (HLostSlice a n al) = (a, n)"

fun holder_align :: "arena_holder \<Rightarrow> usize" where
  "holder_align (HToken r) = res_align r"
| "holder_align (HSlice a n al) = al"
| "holder_align (HKept a n al) = al"
| "holder_align (HLostToken a n al) = al"
| "holder_align (HLostSlice a n al) = al"

fun counts_token :: "arena_holder \<Rightarrow> bool" where
  "counts_token (HToken _) = True" | "counts_token (HLostToken _ _ _) = True" | "counts_token _ = False"

fun counts_slice :: "arena_holder \<Rightarrow> bool" where
  "counts_slice (HSlice _ _ _) = True" | "counts_slice (HLostSlice _ _ _) = True" | "counts_slice _ = False"

fun owns_control :: "arena_holder \<Rightarrow> bool" where
  "owns_control (HSlice _ _ _) = True" | "owns_control _ = False"

fun needs_arena :: "arena_holder \<Rightarrow> bool" where
  "needs_arena (HToken _) = True" | "needs_arena _ = False"

fun is_kept :: "arena_holder \<Rightarrow> bool" where
  "is_kept (HKept _ _ _) = True" | "is_kept _ = False"

record arena_world =
  aw_block :: arena_block
  aw_mem :: byte_memory
  aw_pool :: memory_pool
  aw_immortal :: bool
  aw_owner :: bool
  aw_holders :: "arena_holder list"

text \<open>
  \<open>aw_owner\<close> says that the arena value has not been dropped; its methods need it. Tokens borrow the
  arena, so it is dropped only when none is live. \<open>reset\<close> exists on mortal arenas only and
  \<open>alloc_retained_value\<close> on immortal ones only.
\<close>

inductive arena_step :: "arena_world \<Rightarrow> arena_world \<Rightarrow> bool" where
  allocated: "aw_owner w \<Longrightarrow> arena_allocate_untyped lk req (aw_block w) (aw_mem w) = (Ok r, b', m') \<Longrightarrow>
     arena_step w (w\<lparr>aw_block := b', aw_mem := m', aw_holders := HToken r # aw_holders w\<rparr>)"
| refused: "aw_owner w \<Longrightarrow> arena_allocate_untyped lk req (aw_block w) (aw_mem w) = (Err e, b', m') \<Longrightarrow>
     arena_step w (w\<lparr>aw_block := b', aw_mem := m'\<rparr>)"
| tried: "HToken r \<in> set (aw_holders w) \<Longrightarrow> arena_token_try_release lk (Some r) (aw_block w) = (res, t, b') \<Longrightarrow>
     arena_step w (w\<lparr>aw_block := b',
       aw_holders := (if t = None then remove1 (HToken r) (aw_holders w) else aw_holders w)\<rparr>)"
| dropped: "HToken r \<in> set (aw_holders w) \<Longrightarrow> arena_token_drop lk (Some r) (aw_block w) = (t, b') \<Longrightarrow>
     arena_step w (w\<lparr>aw_block := b', aw_holders := (if is_ok lk then [] else [HLostToken (res_ptr r) (res_len r) (res_align r)])
       @ remove1 (HToken r) (aw_holders w)\<rparr>)"
| valued: "aw_owner w \<Longrightarrow> arena_alloc_value lk lkd v ta (aw_block w) (aw_mem w) (aw_pool w) = (Ok (a, n), b', m', p') \<Longrightarrow>
     arena_step w (w\<lparr>aw_block := b', aw_mem := m', aw_pool := p', aw_holders := HSlice a n ta # aw_holders w\<rparr>)"
| unvalued: "aw_owner w \<Longrightarrow> arena_alloc_value lk lkd v ta (aw_block w) (aw_mem w) (aw_pool w) = (Err e, b', m', p') \<Longrightarrow>
     arena_step w (w\<lparr>aw_block := b', aw_mem := m', aw_pool := p'\<rparr>)"
| arrayed: "aw_owner w \<Longrightarrow> arena_try_alloc_array_with lk lkd ts ta n
       (init :: nat \<Rightarrow> (8 word list, unit) result) (aw_block w) (aw_mem w) (aw_pool w)
     = (Ok (a, k), b', m', p', ds) \<Longrightarrow>
     arena_step w (w\<lparr>aw_block := b', aw_mem := m', aw_pool := p', aw_holders := HSlice a k ta # aw_holders w\<rparr>)"
| unarrayed: "aw_owner w \<Longrightarrow> arena_try_alloc_array_with lk lkd ts ta n
       (init :: nat \<Rightarrow> (8 word list, unit) result) (aw_block w) (aw_mem w) (aw_pool w)
     = (Err err, b', m', p', ds) \<Longrightarrow>
     arena_step w (w\<lparr>aw_block := b', aw_mem := m', aw_pool := p'\<rparr>)"
| retained: "aw_owner w \<Longrightarrow> aw_immortal w \<Longrightarrow>
     arena_alloc_retained_value lk v ta (aw_block w) (aw_mem w) = (Ok a, b', m') \<Longrightarrow>
     arena_step w (w\<lparr>aw_block := b', aw_mem := m', aw_holders := HKept a (length v) ta # aw_holders w\<rparr>)"
| unretained: "aw_owner w \<Longrightarrow> aw_immortal w \<Longrightarrow>
     arena_alloc_retained_value lk v ta (aw_block w) (aw_mem w) = (Err e, b', m') \<Longrightarrow>
     arena_step w (w\<lparr>aw_block := b', aw_mem := m'\<rparr>)"
| slice_dropped: "HSlice a n al \<in> set (aw_holders w) \<Longrightarrow>
     arena_slice_drop lk lkd (aw_block w) (aw_pool w) = (b', p') \<Longrightarrow>
     arena_step w (w\<lparr>aw_block := b', aw_pool := p', aw_holders :=
       (if is_ok lk then [] else [HLostSlice a n al]) @ remove1 (HSlice a n al) (aw_holders w)\<rparr>)"
| reset: "aw_owner w \<Longrightarrow> \<not> aw_immortal w \<Longrightarrow> arena_reset lk (aw_block w) = (res, b') \<Longrightarrow>
     arena_step w (w\<lparr>aw_block := b'\<rparr>)"
| arena_dropped: "aw_owner w \<Longrightarrow> \<not> (\<exists>h \<in> set (aw_holders w). needs_arena h) \<Longrightarrow>
     arena_drop (aw_immortal w) lkd (aw_block w) (aw_pool w) = (b', p') \<Longrightarrow>
     arena_step w (w\<lparr>aw_block := b', aw_pool := p', aw_owner := False\<rparr>)"

definition count_by :: "('a \<Rightarrow> bool) \<Rightarrow> 'a list \<Rightarrow> nat" where
  "count_by P xs = length (filter P xs)"

lemma count_by_simps [simp]:
  "count_by P [] = 0" "count_by P (x # xs) = of_bool (P x) + count_by P xs"
  "count_by P (xs @ ys) = count_by P xs + count_by P ys"
  by (auto simp: count_by_def)

lemma count_by_le: "count_by P xs \<le> length xs"
  by (simp add: count_by_def)

lemma count_by_0_iff: "count_by P xs = 0 \<longleftrightarrow> (\<forall>x \<in> set xs. \<not> P x)"
  by (auto simp: count_by_def filter_empty_conv)

lemma count_by_mono: "(\<And>x. P x \<Longrightarrow> Q x) \<Longrightarrow> count_by P xs \<le> count_by Q xs"
  by (induction xs) auto

definition arena_issued :: "arena_block \<Rightarrow> alloc_result \<Rightarrow> bool" where
  "arena_issued b r \<longleftrightarrow> res_align r dvd res_ptr r \<and> (\<exists>off. res_ptr r = arena_base b + off
     \<and> res_backing r = ArenaBlock (ape_pool_marker (cb_extent b)) (ape_lease_id (cb_extent b)) off (res_len r))"

text \<open>The arena while somebody still refers to its control block.\<close>

definition arena_live_inv :: "usize \<Rightarrow> bool \<Rightarrow> bool \<Rightarrow> arena_holder list \<Rightarrow> arena_block \<Rightarrow> bool" where
  "arena_live_inv cs imm owner hs b \<longleftrightarrow> arena_shape cs b \<and> cursor (arena_st b) \<le> arena_cap b
     \<and> arena_refs b = of_bool (owner \<or> imm) + count_by owns_control hs
     \<and> live_allocations (arena_st b) = count_by counts_token hs \<and> live_slices (arena_st b) = count_by counts_slice hs
     \<and> blocks_ok (arena_base b) (arena_base b + cursor (arena_st b)) (map holder_block hs)
     \<and> (\<forall>r. HToken r \<in> set hs \<longrightarrow> arena_issued b r) \<and> (\<forall>h \<in> set hs. holder_align h dvd fst (holder_block h))
     \<and> (imm \<or> \<not> (\<exists>h \<in> set hs. is_kept h)) \<and> (owner \<or> \<not> (\<exists>h \<in> set hs. needs_arena h))"

text \<open>
  With it: the pool is untouched and the extent still leased while a reference is left, and
  afterwards the pool is the one that a single release of the lease leaves.
\<close>

definition arena_world_inv :: "usize \<Rightarrow> pool_lease \<Rightarrow> memory_pool \<Rightarrow> arena_world \<Rightarrow> bool" where
  "arena_world_inv cs l p0 w \<longleftrightarrow>
     arena_live_inv cs (aw_immortal w) (aw_owner w) (aw_holders w) (aw_block w)
     \<and> (if 0 < arena_refs (aw_block w) then aw_pool w = p0 \<and> ape_lease (cb_extent (aw_block w)) = Some l
        else \<exists>lk. aw_pool w = snd (release_extent lk l p0))"

lemma arena_live_counts:
  assumes "arena_live_inv cs imm owner hs b"
  shows "length hs \<le> cursor (arena_st b)" and "owner \<Longrightarrow> arena_ready cs b"
proof -
  have sh: "arena_shape cs b" "cursor (arena_st b) \<le> arena_cap b" using assms by (auto simp: arena_live_inv_def)
  have "length (map holder_block hs) \<le> (arena_base b + cursor (arena_st b)) - arena_base b"
    using assms blocks_ok_count unfolding arena_live_inv_def by blast
  then show le: "length hs \<le> cursor (arena_st b)" by simp
  have lt: "length hs < usize_max" using le sh arena_shape_cap(2) [OF sh(1)] by linarith
  show "arena_ready cs b" if owner
    using assms that lt count_by_le [of counts_token hs] count_by_le [of counts_slice hs] sh
    unfolding arena_live_inv_def arena_ready_def by auto
qed

lemma arena_issued_upd [simp]: "arena_issued (arena_upd st r b) x = arena_issued b x"
  by (simp add: arena_issued_def)

lemma arena_live_grow:
  assumes inv: "arena_live_inv cs imm owner hs b" and off: "cursor (arena_st b) \<le> off" "off + n \<le> arena_cap b" "0 < n"
    and h: "holder_block h = (arena_base b + off, n)" "owner \<or> \<not> needs_arena h" "imm \<or> \<not> is_kept h"
      "\<And>r. h = HToken r \<Longrightarrow> arena_issued b r" "holder_align h dvd fst (holder_block h)"
  shows "arena_live_inv cs imm owner (h # hs) (arena_upd \<lparr>cursor = off + n,
      live_slices = of_bool (counts_slice h) + live_slices (arena_st b),
      live_allocations = of_bool (counts_token h) + live_allocations (arena_st b)\<rparr>
      (of_bool (owns_control h) + arena_refs b) b)"
proof -
  have "blocks_ok (arena_base b) (arena_base b + off + n) ((arena_base b + off, n) # map holder_block hs)"
    using inv off by (intro blocks_ok_push) (auto simp: arena_live_inv_def)
  then show ?thesis using inv off(2) h by (auto simp: arena_live_inv_def add.assoc)
qed

lemma map_remove1_split:
  assumes "h \<in> set hs"
  obtains us vs where "hs = us @ h # vs" "remove1 h hs = us @ vs"
  using split_list_first [OF assms] by (metis remove1_append remove1.simps(2))

text \<open>Giving up a block, with the cursor where it is or moved back to the start of the block.\<close>

lemma arena_live_shrink:
  assumes inv: "arena_live_inv cs imm owner hs b" and h: "h \<in> set hs"
    and c: "c = cursor (arena_st b) \<or> arena_base b + c = fst (holder_block h)
        \<and> fst (holder_block h) + snd (holder_block h) = arena_base b + cursor (arena_st b)"
  shows "arena_live_inv cs imm owner (remove1 h hs) (arena_upd \<lparr>cursor = c,
      live_slices = live_slices (arena_st b) - of_bool (counts_slice h),
      live_allocations = live_allocations (arena_st b) - of_bool (counts_token h)\<rparr>
      (arena_refs b - of_bool (owns_control h)) b)"
proof -
  obtain us vs where sp: "hs = us @ h # vs" "remove1 h hs = us @ vs" using map_remove1_split [OF h] .
  have ok: "blocks_ok (arena_base b) (arena_base b + cursor (arena_st b))
      (map holder_block us @ holder_block h # map holder_block vs)"
    using inv sp(1) by (simp add: arena_live_inv_def)
  have "blocks_ok (arena_base b) (arena_base b + c) (map holder_block us @ map holder_block vs)"
    using c blocks_ok_remove [OF ok] blocks_ok_pop [OF ok] by auto
  moreover have "c \<le> arena_cap b"
  proof -
    have "snd (holder_block h) > 0" using ok by (simp add: blocks_ok_def)
    then show ?thesis using c inv unfolding arena_live_inv_def by linarith
  qed
  ultimately show ?thesis using inv sp by (auto simp: arena_live_inv_def)
qed

text \<open>A holder whose count the arena could not take back.\<close>

lemma arena_live_lose:
  assumes inv: "arena_live_inv cs imm owner hs b" and h: "h \<in> set hs"
    and h': "holder_block h' = holder_block h" "counts_token h' = counts_token h" "counts_slice h' = counts_slice h" "holder_align h' = holder_align h"
      "\<not> owns_control h'" "\<not> needs_arena h'" "\<not> is_kept h'"
  shows "arena_live_inv cs imm owner (h' # remove1 h hs)
     (arena_upd (arena_st b) (arena_refs b - of_bool (owns_control h)) b)"
proof -
  obtain us vs where sp: "hs = us @ h # vs" "remove1 h hs = us @ vs" using map_remove1_split [OF h] .
  have "blocks_ok (arena_base b) (arena_base b + cursor (arena_st b))
      (map holder_block us @ holder_block h # map holder_block vs)"
    using inv sp(1) by (simp add: arena_live_inv_def)
  from blocks_ok_front [OF this] show ?thesis
    using inv sp h' by (auto simp: arena_live_inv_def)
qed

lemma arena_state_eq:
  "st\<lparr>cursor := c, live_slices := k\<rparr> = \<lparr>cursor = c, live_slices = k, live_allocations = live_allocations st\<rparr>"
  "st\<lparr>cursor := c, live_allocations := k\<rparr> = \<lparr>cursor = c, live_slices = live_slices st, live_allocations = k\<rparr>"
  "st\<lparr>cursor := c\<rparr> = \<lparr>cursor = c, live_slices = live_slices st, live_allocations = live_allocations st\<rparr>"
  "st\<lparr>live_slices := k\<rparr> = \<lparr>cursor = cursor st, live_slices = k, live_allocations = live_allocations st\<rparr>"
  for st :: arena_state
  by simp_all

lemma arena_world_grow:
  assumes inv: "arena_world_inv cs l p0 w" and own: "aw_owner w"
    and off: "cursor (arena_st (aw_block w)) \<le> off" "off + n \<le> arena_cap (aw_block w)" "0 < n"
    and h: "holder_block h = (arena_base (aw_block w) + off, n)" "aw_immortal w \<or> \<not> is_kept h"
      "\<And>r. h = HToken r \<Longrightarrow> arena_issued (aw_block w) r" "holder_align h dvd fst (holder_block h)"
    and b': "b' = arena_upd \<lparr>cursor = off + n,
      live_slices = of_bool (counts_slice h) + live_slices (arena_st (aw_block w)),
      live_allocations = of_bool (counts_token h) + live_allocations (arena_st (aw_block w))\<rparr>
      (of_bool (owns_control h) + arena_refs (aw_block w)) (aw_block w)"
  shows "arena_world_inv cs l p0 (w\<lparr>aw_block := b', aw_mem := m', aw_holders := h # aw_holders w\<rparr>)"
proof -
  have li: "arena_live_inv cs (aw_immortal w) (aw_owner w) (aw_holders w) (aw_block w)"
    using inv by (simp add: arena_world_inv_def)
  have "0 < arena_refs (aw_block w)" using li own by (simp add: arena_live_inv_def)
  then show ?thesis
    using inv arena_live_grow [OF li off h(1) _ h(2-4)] own by (simp add: arena_world_inv_def b')
qed

lemma arena_world_token_gone:
  assumes inv: "arena_world_inv cs l p0 w" and r: "HToken r \<in> set (aw_holders w)"
    and run: "arena_release_allocation lk r tp (aw_block w) = (res, b')"
  shows "\<not> is_ok res \<Longrightarrow> b' = aw_block w"
    and "is_ok res \<Longrightarrow> arena_world_inv cs l p0 (w\<lparr>aw_block := b', aw_holders := remove1 (HToken r) (aw_holders w)\<rparr>)"
    and "\<not> tp \<Longrightarrow> is_ok res = is_ok lk"
proof -
  let ?b = "aw_block w"
  have li: "arena_live_inv cs (aw_immortal w) (aw_owner w) (aw_holders w) ?b"
    using inv by (simp add: arena_world_inv_def)
  then have iss: "arena_issued ?b r" using r by (auto simp: arena_live_inv_def)
  then obtain off where o: "res_ptr r = arena_base ?b + off"
    "res_backing r = ArenaBlock (ape_pool_marker (cb_extent ?b)) (ape_lease_id (cb_extent ?b)) off (res_len r)"
    by (auto simp: arena_issued_def)
  show "\<not> is_ok res \<Longrightarrow> b' = ?b" using run by (cases rule: arena_release_cases) auto
  show "arena_world_inv cs l p0 (w\<lparr>aw_block := b', aw_holders := remove1 (HToken r) (aw_holders w)\<rparr>)" if "is_ok res"
    using run
  proof (cases rule: arena_release_cases)
    case (released off' n)
    then have eq: "off' = off" "n = res_len r" using o(2) by auto
    define c where "c = (if off + res_len r = cursor (arena_st ?b) then off else cursor (arena_st ?b))"
    have c: "c = cursor (arena_st ?b) \<or> arena_base ?b + c = fst (holder_block (HToken r))
        \<and> fst (holder_block (HToken r)) + snd (holder_block (HToken r)) = arena_base ?b + cursor (arena_st ?b)"
      using o(1) by (auto simp: c_def)
    have "b' = arena_upd \<lparr>cursor = c, live_slices = live_slices (arena_st ?b),
        live_allocations = live_allocations (arena_st ?b) - 1\<rparr> (arena_refs ?b) ?b"
      unfolding released(6) eq c_def by (simp add: arena_state_eq)
    then show ?thesis
      using arena_live_shrink [OF li r c] inv by (simp add: arena_world_inv_def)
  qed (use that in auto)
  have pos: "0 < live_allocations (arena_st ?b)"
    using li r count_by_0_iff [of counts_token "aw_holders w"] unfolding arena_live_inv_def by fastforce
  have "blocks_ok (arena_base ?b) (arena_base ?b + cursor (arena_st ?b)) (map holder_block (aw_holders w))"
    using li by (simp add: arena_live_inv_def)
  from blocks_ok_member [OF this, of "holder_block (HToken r)"] imageI [OF r, of holder_block]
  have "res_ptr r + res_len r \<le> arena_base ?b + cursor (arena_st ?b)" by simp
  then have "off + res_len r \<le> usize_max"
    using o(1) li arena_shape_cap(1) [of cs ?b] unfolding arena_live_inv_def by linarith
  then show "\<not> tp \<Longrightarrow> is_ok res = is_ok lk"
    using run o(2) pos by (cases lk) (auto simp: arena_release_allocation_def checked_add_def)
qed

lemma arena_world_slice_gone:
  assumes inv: "arena_world_inv cs l p0 w" and h: "HSlice a n al \<in> set (aw_holders w)"
    and run: "arena_slice_drop lk lkd (aw_block w) (aw_pool w) = (b', p')"
  shows "arena_world_inv cs l p0 (w\<lparr>aw_block := b', aw_pool := p', aw_holders :=
       (if is_ok lk then [] else [HLostSlice a n al]) @ remove1 (HSlice a n al) (aw_holders w)\<rparr>)"
proof -
  let ?b = "aw_block w" and ?h = "HSlice a n al" and ?hs = "(if is_ok lk then [] else [HLostSlice a n al]) @ remove1 (HSlice a n al) (aw_holders w)"
  have li: "arena_live_inv cs (aw_immortal w) (aw_owner w) (aw_holders w) ?b"
    using inv by (simp add: arena_world_inv_def)
  obtain us vs where sp: "aw_holders w = us @ ?h # vs" "remove1 ?h (aw_holders w) = us @ vs"
    using map_remove1_split [OF h] .
  have rf: "0 < arena_refs ?b" and sl: "0 < live_slices (arena_st ?b)"
    using li by (auto simp: arena_live_inv_def sp(1))
  have pool: "aw_pool w = p0" "ape_lease (cb_extent ?b) = Some l" using inv rf by (auto simp: arena_world_inv_def)
  define st where "st = (if is_ok lk then (arena_st ?b)\<lparr>live_slices := live_slices (arena_st ?b) - 1\<rparr> else arena_st ?b)"
  have live: "arena_live_inv cs (aw_immortal w) (aw_owner w) ?hs (arena_upd st (arena_refs ?b - 1) ?b)"
    using arena_live_shrink [OF li h, of "cursor (arena_st ?b)"] arena_live_lose [OF li h, of "HLostSlice a n al"]
    by (auto simp: st_def arena_state_eq)
  have b: "control_drop lkd (arena_upd st (arena_refs ?b) ?b) p0 = (b', p')"
    using run sl pool(1) by (auto simp: arena_slice_drop_def st_def set_arena_state_upd saturating_sub_def)
  show ?thesis
  proof (cases "arena_refs ?b = 1")
    case False
    then have "1 < arena_refs ?b" using rf by linarith
    then have "b' = arena_upd st (arena_refs ?b - 1) ?b" "p' = p0"
      using b control_drop_arena [of "arena_upd st (arena_refs ?b) ?b"] by auto
    then show ?thesis using live pool \<open>1 < arena_refs ?b\<close> by (simp add: arena_world_inv_def)
  next
    case True
    have e: "ape_lease (cb_extent (arena_upd st (arena_refs ?b) ?b)) = Some l" using pool(2) by simp
    have r: "b' = (arena_upd st 0 ?b)\<lparr>cb_extent := (cb_extent ?b)\<lparr>ape_lease := None\<rparr>\<rparr>"
      "p' = snd (release_extent lkd l p0)"
      using b True drop_assigned_releases [OF e, of lkd p0]
      by (auto simp: control_drop_cases arena_upd_def set_arena_state_def)
    have "arena_live_inv cs (aw_immortal w) (aw_owner w) ?hs b'"
      using live True by (auto simp: r(1) arena_live_inv_def arena_shape_def arena_base_def arena_cap_def
          arena_issued_def)
    then show ?thesis using r by (auto simp: arena_world_inv_def)
  qed
qed

lemma arena_world_dropped:
  assumes inv: "arena_world_inv cs l p0 w" and own: "aw_owner w"
    and none: "\<not> (\<exists>h \<in> set (aw_holders w). needs_arena h)"
    and run: "arena_drop (aw_immortal w) lkd (aw_block w) (aw_pool w) = (b', p')"
  shows "arena_world_inv cs l p0 (w\<lparr>aw_block := b', aw_pool := p', aw_owner := False\<rparr>)"
proof (cases "aw_immortal w")
  case True
  then show ?thesis using run inv own none by (auto simp: arena_drop_def arena_world_inv_def arena_live_inv_def)
next
  case False
  let ?b = "aw_block w"
  have li: "arena_live_inv cs False True (aw_holders w) ?b"
    using inv False own by (simp add: arena_world_inv_def)
  have rf: "arena_refs ?b = 1 + count_by owns_control (aw_holders w)" using li by (simp add: arena_live_inv_def)
  have live: "arena_live_inv cs False False (aw_holders w) (arena_upd (arena_st ?b) (arena_refs ?b - 1) ?b)"
    using li none rf by (auto simp: arena_live_inv_def)
  have pool: "aw_pool w = p0" "ape_lease (cb_extent ?b) = Some l" using inv rf by (auto simp: arena_world_inv_def)
  have b: "control_drop lkd ?b p0 = (b', p')" using run False pool(1) by (simp add: arena_drop_def)
  show ?thesis
  proof (cases "arena_refs ?b = 1")
    case one: False
    then have "1 < arena_refs ?b" using rf by linarith
    then have "b' = arena_upd (arena_st ?b) (arena_refs ?b - 1) ?b" "p' = p0"
      using b control_drop_arena [of ?b] by auto
    then show ?thesis using live pool \<open>1 < arena_refs ?b\<close> False by (simp add: arena_world_inv_def)
  next
    case True
    have r: "b' = (arena_upd (arena_st ?b) 0 ?b)\<lparr>cb_extent := (cb_extent ?b)\<lparr>ape_lease := None\<rparr>\<rparr>"
      "p' = snd (release_extent lkd l p0)"
      using b True drop_assigned_releases [OF pool(2), of lkd p0]
      by (auto simp: control_drop_cases arena_upd_def set_arena_state_def)
    have "arena_live_inv cs False False (aw_holders w) b'"
      using live True by (auto simp: r(1) arena_live_inv_def arena_shape_def arena_base_def arena_cap_def
          arena_issued_def)
    then show ?thesis using r False by (auto simp: arena_world_inv_def)
  qed
qed

lemma arena_world_reset:
  assumes inv: "arena_world_inv cs l p0 w" and own: "aw_owner w" and imm: "\<not> aw_immortal w"
    and run: "arena_reset lk (aw_block w) = (res, b')"
  shows "arena_world_inv cs l p0 (w\<lparr>aw_block := b'\<rparr>)"
    and "res = Ok () \<Longrightarrow> aw_holders w = []"
proof -
  let ?b = "aw_block w"
  have li: "arena_live_inv cs (aw_immortal w) (aw_owner w) (aw_holders w) ?b"
    using inv by (simp add: arena_world_inv_def)
  show none: "aw_holders w = []" if "res = Ok ()"
  proof -
    have z: "count_by counts_token (aw_holders w) = 0" "count_by counts_slice (aw_holders w) = 0"
      using that run li by (auto simp: arena_reset_def arena_live_inv_def split: result.splits if_splits)
    have "\<not> is_kept h \<and> \<not> counts_token h \<and> \<not> counts_slice h" if "h \<in> set (aw_holders w)" for h
      using z imm li that unfolding arena_live_inv_def count_by_0_iff by blast
    then have "h \<notin> set (aw_holders w)" for h by (cases h) fastforce+
    then show ?thesis by (metis list.set_intros(1) neq_Nil_conv)
  qed
  show "arena_world_inv cs l p0 (w\<lparr>aw_block := b'\<rparr>)"
  proof (cases res)
    case (Ok u)
    then have "b' = arena_upd ((arena_st ?b)\<lparr>cursor := 0\<rparr>) (arena_refs ?b) ?b"
      using run by (auto simp: arena_reset_def set_arena_state_upd split: result.splits if_splits)
    then show ?thesis using inv none Ok by (auto simp: arena_world_inv_def arena_live_inv_def)
  next
    case (Err e)
    then have "b' = ?b" using run by (auto simp: arena_reset_def split: result.splits if_splits)
    then show ?thesis using inv by (simp add: arena_world_inv_def)
  qed
qed

lemma arena_world_moved:
  assumes "arena_world_inv cs l p0 w" and "cursor (arena_st (aw_block w)) \<le> off" "off \<le> arena_cap (aw_block w)"
  shows "arena_world_inv cs l p0 (w\<lparr>aw_block := arena_upd ((arena_st (aw_block w))\<lparr>cursor := off\<rparr>)
      (arena_refs (aw_block w)) (aw_block w), aw_mem := m'\<rparr>)"
  using assms blocks_ok_mono [of "arena_base (aw_block w)" "arena_base (aw_block w) + cursor (arena_st (aw_block w))" _
      "arena_base (aw_block w) + off"]
  by (auto simp: arena_world_inv_def arena_live_inv_def)

lemma arena_world_mem: "arena_world_inv cs l p0 (w\<lparr>aw_mem := m\<rparr>) = arena_world_inv cs l p0 w"
  by (simp add: arena_world_inv_def)

lemma arena_world_step:
  assumes inv: "arena_world_inv cs l p0 w" and st: "arena_step w w'"
  shows "arena_world_inv cs l p0 w'"
proof -
  have rd: "arena_ready cs (aw_block w)" if "aw_owner w"
    using arena_live_counts(2) [of cs "aw_immortal w" "aw_owner w" "aw_holders w" "aw_block w"] inv that
    by (simp add: arena_world_inv_def)
  from st show ?thesis
  proof (cases rule: arena_step.cases)
    case (allocated lk req r b' m')
    from rd [OF allocated(2)] allocated(3) show ?thesis
    proof (cases rule: arena_allocate_cases)
      case (granted off)
      then have "r = arena_result (aw_block w) (arena_base (aw_block w) + off) off req" by simp
      then show ?thesis unfolding allocated(1)
        using granted
        by (intro arena_world_grow [OF inv allocated(2) granted(3,4,5)])
          (auto simp: arena_result_def arena_issued_def arena_state_eq)
    qed simp
  next
    case (refused lk req e b' m')
    from rd [OF refused(2)] refused(3) show ?thesis
      by (cases rule: arena_allocate_cases) (use refused(1) inv in simp_all)
  next
    case (tried r lk res t b')
    obtain rr b1 where rel: "arena_release_allocation lk r True (aw_block w) = (rr, b1)" by fastforce
    note g = arena_world_token_gone [OF inv tried(2) rel]
    have "t = None \<and> b' = b1 \<and> is_ok rr \<or> t \<noteq> None \<and> b' = aw_block w"
      using tried(3) rel g(1) by (cases rr) (auto simp: arena_token_try_release_def)
    then show ?thesis using g(2) inv tried(1) by (auto simp: arena_world_inv_def)
  next
    case (dropped r lk t b')
    obtain rr where rel: "arena_release_allocation lk r False (aw_block w) = (rr, b')"
      using dropped(3) by (cases "arena_release_allocation lk r False (aw_block w)") (auto simp: arena_token_drop_def)
    note g = arena_world_token_gone [OF inv dropped(2) rel]
    show ?thesis
    proof (cases "is_ok lk")
      case True
      then show ?thesis using g(2,3) dropped(1) by simp
    next
      case False
      then have b': "b' = aw_block w" using g(1,3) by simp
      have li: "arena_live_inv cs (aw_immortal w) (aw_owner w) (aw_holders w) (aw_block w)"
        using inv by (simp add: arena_world_inv_def)
      show ?thesis
        using arena_live_lose [OF li dropped(2), of "HLostToken (res_ptr r) (res_len r) (res_align r)"] inv False
        by (simp add: arena_world_inv_def dropped(1) b')
    qed
  next
    case (valued lk lkd v ta a n b' m' p')
    from rd [OF valued(2)] valued(3) show ?thesis
    proof (cases rule: arena_alloc_value_cases)
      case (granted off)
      then have "arena_world_inv cs l p0 (w\<lparr>aw_block := b', aw_mem := m', aw_holders := HSlice a n ta # aw_holders w\<rparr>)"
        by (intro arena_world_grow [OF inv valued(2) granted(4-6)]) (auto simp: arena_state_eq)
      then show ?thesis using valued(1) granted(2) by simp
    qed simp
  next
    case (unvalued lk lkd v ta e b' m' p')
    from rd [OF unvalued(2)] unvalued(3) show ?thesis
      by (cases rule: arena_alloc_value_cases) (use unvalued(1) inv in simp_all)
  next
    case (arrayed lk lkd ts ta n "init" a k b' m' p' ds)
    from rd [OF arrayed(2)] arrayed(3) show ?thesis
    proof (cases rule: arena_array_cases)
      case (granted off)
      then have "arena_world_inv cs l p0 (w\<lparr>aw_block := b', aw_mem := m', aw_holders := HSlice a k ta # aw_holders w\<rparr>)"
        by (intro arena_world_grow [OF inv arrayed(2) granted(5-7)]) (auto simp: arena_state_eq)
      then show ?thesis using arrayed(1) granted(2) by simp
    qed simp_all
  next
    case (unarrayed lk lkd ts ta n "init" err b' m' p' ds)
    from rd [OF unarrayed(2)] unarrayed(3) show ?thesis
    proof (cases rule: arena_array_cases)
      case (undone e off k)
      then show ?thesis using unarrayed(1) arena_world_moved [OF inv undone(4), of m'] by simp
    qed (use unarrayed(1) inv in simp_all)
  next
    case (retained lk v ta a b' m')
    from rd [OF retained(2)] retained(4) show ?thesis
    proof (cases rule: arena_retained_cases)
      case (granted off)
      then show ?thesis unfolding retained(1)
        using retained(3) by (intro arena_world_grow [OF inv retained(2) granted(3-5)]) (auto simp: arena_state_eq)
    qed simp
  next
    case (unretained lk v ta e b' m')
    from rd [OF unretained(2)] unretained(4) show ?thesis
      by (cases rule: arena_retained_cases) (use unretained(1) inv in simp_all)
  next
    case (slice_dropped a n al lk lkd b' p')
    then show ?thesis using arena_world_slice_gone [OF inv] by blast
  next
    case (reset lk res b')
    then show ?thesis using arena_world_reset(1) [OF inv] by blast
  next
    case (arena_dropped lkd b' p')
    then show ?thesis using arena_world_dropped [OF inv] by blast
  qed
qed

text \<open>
  An arena that its constructor built on the extent \<open>e\<close> of the lease \<open>l\<close>, inside the address
  space.
\<close>

definition arena_built :: "usize \<Rightarrow> pool_lease \<Rightarrow> memory_pool \<Rightarrow> arena_world \<Rightarrow> bool" where
  "arena_built cb_size l p0 w \<longleftrightarrow> (\<exists>lkd cb_align domain capacity max_align pol e lp.
     arena_from_assigned_extent lkd cb_size cb_align domain capacity max_align pol e lp p0 = (Ok (aw_block w), aw_pool w)
     \<and> ape_lease e = Some l \<and> rg_base (ape_region e) + rg_len (ape_region e) \<le> usize_max
     \<and> aw_owner w \<and> aw_holders w = [])"

lemma arena_place_OkD:
  assumes "arena_place cs ca domain capacity ma pol e lp = Ok b"
  shows "cb_extent b = e" and "arena_refs b = 1" and "arena_cap b = capacity" and "ac_max_align (cb_value b) = ma"
    and "arena_st b = \<lparr>cursor = 0, live_slices = 0, live_allocations = 0\<rparr>"
    and "rg_base (ape_region e) + rg_len (ape_region e) \<le> usize_max \<Longrightarrow> arena_shape cs b"
    and "ma dvd arena_base b" and "is_power_of_two ma"
proof -
  obtain l where l: "front_metadata_layout_with_policy cs ca capacity ma lp = Ok l"
    and g: "fl_total_len l \<le> rg_len (ape_region e)" "0 < rg_base (ape_region e)"
      "ma dvd rg_base (ape_region e) + fl_payload_offset l" "is_power_of_two ma"
    and b: "b = \<lparr>cb_header = shared_header_new, cb_value =
       \<lparr>ac_header = metadata_page_header_new SubBoundedArena (fl_metadata_len l)
                  (fl_payload_offset l) (fl_payload_len l),
                ac_max_align = ma, ac_domain = domain, ac_policy = pol,
                ac_state = \<lparr>cursor = 0, live_slices = 0, live_allocations = 0\<rparr>\<rparr>, cb_extent = e\<rparr>"
    using assms by (auto simp: arena_place_def control_place_def bind_result_Ok_iff checked_iffs is_multiple_of_iff_dvd
        split: if_splits)
  note lo = front_metadata_layout_OkD [OF l]
  show "cb_extent b = e" "arena_refs b = 1" "arena_cap b = capacity" "ac_max_align (cb_value b) = ma"
    "arena_st b = \<lparr>cursor = 0, live_slices = 0, live_allocations = 0\<rparr>" "ma dvd arena_base b" "is_power_of_two ma"
    using g lo by (simp_all add: b shared_header_new_def metadata_page_header_new_def arena_cap_def arena_base_def)
  show "rg_base (ape_region e) + rg_len (ape_region e) \<le> usize_max \<Longrightarrow> arena_shape cs b"
    using g lo by (simp add: b arena_shape_def arena_base_def arena_cap_def metadata_page_header_new_def)
qed

lemma arena_built_inv: "arena_built cs l p0 w \<Longrightarrow> arena_world_inv cs l p0 w"
  unfolding arena_built_def arena_from_assigned_extent_def drop_on_error_Ok_iff
  by (auto simp: arena_world_inv_def arena_live_inv_def arena_place_OkD)

interpretation arena_sys: inductive_invariant "arena_built cs l p0" arena_step "arena_world_inv cs l p0" for cs l p0
  by unfold_locales (auto intro: arena_built_inv arena_world_step)

definition arena_blocks :: "arena_world \<Rightarrow> block set" where
  "arena_blocks w = holder_block ` set (aw_holders w)"

lemma sorted_wrt_apart:
  assumes "sorted_wrt apart bs" "b \<in> set bs" "c \<in> set bs" "b \<noteq> c"
  shows "apart b c"
  using assms by (induction bs) (auto simp: apart_def)

interpretation arena_alloc: block_allocator "arena_world_inv cs l p0" arena_blocks "\<lambda>w. arena_payload (aw_block w)"
  for cs l p0
proof unfold_locales
  fix w b
  assume "arena_world_inv cs l p0 w"
  then have li: "blocks_ok (arena_base (aw_block w)) (arena_base (aw_block w) + cursor (arena_st (aw_block w)))
      (map holder_block (aw_holders w))" and cap: "cursor (arena_st (aw_block w)) \<le> arena_cap (aw_block w)"
    by (auto simp: arena_world_inv_def arena_live_inv_def)
  show "finite (arena_blocks w)" by (simp add: arena_blocks_def)
  assume b: "b \<in> arena_blocks w"
  show "region_within (block_region b) (arena_payload (aw_block w))"
    using blocks_ok_member [OF li, of b] b cap
    by (auto simp: region_within_def block_region_def arena_payload_def arena_blocks_def)
  fix c
  assume "c \<in> arena_blocks w" "b \<noteq> c"
  then show "region_disjoint (block_region b) (block_region c)"
    using b li by (intro apart_disjoint sorted_wrt_apart [of "map holder_block (aw_holders w)"])
      (auto simp: blocks_ok_def arena_blocks_def)
qed

section \<open>Properties\<close>

text \<open>A sample arena of 32 bytes in the extent that the sample pool assigned.\<close>

definition sample_arena :: arena_block where
  "sample_arena = the_ok (arena_place 24 8 0 32 16 sample_policy sample_extent exact_static)"

lemma sample_arena_eq:
  "arena_place 24 8 0 32 16 sample_policy sample_extent exact_static = Ok \<lparr>cb_header = \<lparr>refs = 1\<rparr>, cb_value =
     \<lparr>ac_header = metadata_page_header_new SubBoundedArena 24 32 32, ac_max_align = 16, ac_domain = 0,
      ac_policy = sample_policy, ac_state = \<lparr>cursor = 0, live_slices = 0, live_allocations = 0\<rparr>\<rparr>,
     cb_extent = sample_extent\<rparr>"
  by (simp add: arena_place_def sample_policy_def policy_allows_def contains_flags_def pow2_more sample_layout
      sample_assign checked_add_def usize_max_def is_multiple_of_def control_place_def shared_header_new_def)

definition sample_arena_world :: arena_world where
  "sample_arena_world = \<lparr>aw_block = sample_arena, aw_mem = (\<lambda>_. 255), aw_pool = sample_pool1,
     aw_immortal = False, aw_owner = True, aw_holders = []\<rparr>"

lemma sample_arena_built: "arena_built 24 sample_lease sample_pool1 sample_arena_world"
  unfolding arena_built_def arena_from_assigned_extent_def drop_on_error_Ok_iff
  by (rule exI, rule exI [of _ 8], rule exI [of _ 0], rule exI [of _ 32], rule exI [of _ 16],
      rule exI [of _ sample_policy], rule exI [of _ sample_extent], rule exI [of _ exact_static])
    (simp add: sample_arena_world_def sample_arena_def sample_arena_eq sample_assign usize_max_def)

lemma sample_arena_simps [simp]:
  "arena_base sample_arena = 4160" "arena_cap sample_arena = 32" "arena_refs sample_arena = 1"
  "cb_extent sample_arena = sample_extent" "ac_max_align (cb_value sample_arena) = 16"
  "arena_st sample_arena = \<lparr>cursor = 0, live_slices = 0, live_allocations = 0\<rparr>"
  by (simp_all add: sample_arena_def sample_arena_eq arena_base_def arena_cap_def metadata_page_header_new_def sample_assign)

definition sample_arena_block1 :: arena_block where
  "sample_arena_block1 = arena_upd \<lparr>cursor = 10, live_slices = 0, live_allocations = 1\<rparr> 1 sample_arena"

lemma sample_arena_alloc:
  "arena_allocate_untyped (Ok ()) sample_alloc_request sample_arena (\<lambda>_. 255)
     = (Ok (arena_result sample_arena 4160 0 sample_alloc_request), sample_arena_block1,
        write_bytes 4160 (replicate 10 0) (\<lambda>_. 255))"
proof -
  have "arena_payload_base sample_arena = Ok 4160" "payload_len (ac_header (cb_value sample_arena)) = 32"
    by (simp_all add: sample_arena_def sample_arena_eq arena_payload_base_def metadata_page_header_new_def
        sample_assign checked_add_def usize_max_def)
  then show ?thesis
    by (simp add: arena_allocate_untyped_def sample_alloc_request_def pow2_more arena_prepare_def arena_reserve_def
        checked_add_def checked_sub_def usize_max_def alloc_align_up_eq align_up_eq Let_def set_arena_state_upd
        sample_arena_block1_def arena_result_def)
qed

definition sample_arena_world1 :: arena_world where
  "sample_arena_world1 = sample_arena_world\<lparr>aw_block := sample_arena_block1,
     aw_mem := write_bytes 4160 (replicate 10 0) (\<lambda>_. 255),
     aw_holders := [HToken (arena_result sample_arena 4160 0 sample_alloc_request)]\<rparr>"

lemma sample_arena_reaches: "reaches arena_step sample_arena_world sample_arena_world1"
proof -
  have "arena_step sample_arena_world (sample_arena_world\<lparr>aw_block := sample_arena_block1,
     aw_mem := write_bytes 4160 (replicate 10 0) (\<lambda>_. 255),
     aw_holders := HToken (arena_result sample_arena 4160 0 sample_alloc_request) # aw_holders sample_arena_world\<rparr>)"
    by (rule arena_step.allocated [of _ "Ok ()" sample_alloc_request])
      (simp_all add: sample_arena_world_def sample_arena_alloc)
  then show ?thesis by (intro reaches_single) (simp add: sample_arena_world1_def sample_arena_world_def)
qed

text \<open>
  C11. Arena blocks are exclusive. In every state reached from a freshly built arena, by any sequence
  of allocations, releases, drops (with failing locks too), resets, failing initialisers and the
  drop of the arena itself: every held block is non-empty, starts behind the control block and
  ends inside the extent; it starts at a multiple of the alignment that was asked for, in the request
  of a token and by the type of a slice or a retained value; no two holders' blocks overlap; and
  together they fit into the capacity.
\<close>

theorem arena_blocks_exclusive:
  assumes "arena_built cs l p0 w0" and "reaches arena_step w0 w"
  shows "(\<forall>h \<in> set (aw_holders w). 0 < snd (holder_block h)
        \<and> rg_base (ape_region (cb_extent (aw_block w))) + cs \<le> fst (holder_block h)
        \<and> fst (holder_block h) + snd (holder_block h) \<le> rg_base (ape_region (cb_extent (aw_block w)))
            + rg_len (ape_region (cb_extent (aw_block w))))
     \<and> (\<forall>h \<in> set (aw_holders w). holder_align h dvd fst (holder_block h))
     \<and> (\<forall>i j. i < j \<and> j < length (aw_holders w) \<longrightarrow>
          region_disjoint (block_region (holder_block (aw_holders w ! i))) (block_region (holder_block (aw_holders w ! j))))
     \<and> (\<Sum>b\<in>arena_blocks w. snd b) \<le> arena_cap (aw_block w)"
proof -
  let ?b = "aw_block w"
  have inv: "arena_world_inv cs l p0 w" using arena_sys.reachable_inv [OF assms] .
  then have ok: "blocks_ok (arena_base ?b) (arena_base ?b + cursor (arena_st ?b)) (map holder_block (aw_holders w))"
    and cur: "cursor (arena_st ?b) \<le> arena_cap ?b" and sh: "arena_shape cs ?b"
    and al: "\<forall>h \<in> set (aw_holders w). holder_align h dvd fst (holder_block h)"
    by (simp_all add: arena_world_inv_def arena_live_inv_def)
  have blk: "0 < snd (holder_block h) \<and> rg_base (ape_region (cb_extent ?b)) + cs \<le> fst (holder_block h)
        \<and> fst (holder_block h) + snd (holder_block h) \<le> rg_base (ape_region (cb_extent ?b))
            + rg_len (ape_region (cb_extent ?b))" if "h \<in> set (aw_holders w)" for h
    using blocks_ok_member [OF ok, of "holder_block h"] imageI [OF that, of holder_block] cur sh
    by (auto simp: arena_shape_def arena_base_def)
  have dis: "region_disjoint (block_region (holder_block (aw_holders w ! i))) (block_region (holder_block (aw_holders w ! j)))"
    if "i < j" "j < length (aw_holders w)" for i j
    using ok that by (intro apart_disjoint) (auto simp: blocks_ok_def sorted_wrt_iff_nth_less)
  have "(\<Sum>b\<in>arena_blocks w. snd b) \<le> arena_cap ?b"
    using arena_alloc.live_bytes_bounded [OF inv] by (simp add: arena_payload_def)
  then show ?thesis using blk dis al by blast
qed

theorem arena_blocks_exclusive_witness:
  "4128 + 24 \<le> fst (holder_block (hd (aw_holders sample_arena_world1)))
   \<and> fst (holder_block (hd (aw_holders sample_arena_world1))) + 10 \<le> 4128 + 64"
  using arena_blocks_exclusive [OF sample_arena_built sample_arena_reaches]
  by (simp add: sample_arena_world1_def sample_arena_world_def sample_arena_block1_def sample_assign
      arena_result_def sample_alloc_request_def)

text \<open>
  Untyped allocation is exact. With the lock taken and an admissible request, the arena returns
  the least aligned address at or above its cursor if the block still ends inside the payload;
  otherwise it reports \<open>CapacityExhausted\<close> and changes nothing. No other outcome exists: neither the
  counters nor the address arithmetic can overflow in a reachable state.
\<close>

theorem arena_allocate_exact:
  assumes "arena_built cs l p0 w0" and "reaches arena_step w0 w" and "aw_owner w"
    and "0 < ar_len req" and "is_power_of_two (ar_align req)" and "ar_align req \<le> ac_max_align (cb_value (aw_block w))"
    and "align_up (arena_base (aw_block w) + cursor (arena_st (aw_block w))) (ar_align req) = Some start"
    and "start + ar_len req \<le> usize_max"
  shows "if start + ar_len req \<le> arena_base (aw_block w) + arena_cap (aw_block w)
     then \<exists>r b' m'. arena_allocate_untyped (Ok ()) req (aw_block w) (aw_mem w) = (Ok r, b', m')
        \<and> res_ptr r = start \<and> res_len r = ar_len req
        \<and> arena_base b' + cursor (arena_st b') = start + ar_len req
     else arena_allocate_untyped (Ok ()) req (aw_block w) (aw_mem w) = (Err AllocCapacityExhausted, aw_block w, aw_mem w)"
proof -
  let ?b = "aw_block w"
  have inv: "arena_world_inv cs l p0 w" using arena_sys.reachable_inv [OF assms(1,2)] .
  then have rd: "arena_ready cs ?b"
    using arena_live_counts(2) [of cs "aw_immortal w" "aw_owner w" "aw_holders w" ?b] assms(3)
    by (simp add: arena_world_inv_def)
  then have sh: "arena_shape cs ?b" "cursor (arena_st ?b) \<le> arena_cap ?b" by (auto simp: arena_ready_def)
  note prep = arena_prepare_total [OF sh assms(5,6,7,8)]
  obtain res b' m' where run: "arena_allocate_untyped (Ok ()) req ?b (aw_mem w) = (res, b', m')" by (metis prod_cases3)
  have ge: "arena_base ?b \<le> start" using align_up_SomeD(4) [OF assms(7)] by linarith
  have g: "\<not> (ar_len req = 0 \<or> ar_align req = 0 \<or> \<not> is_power_of_two (ar_align req))"
    using assms(4,5) is_power_of_two_pos by auto
  note e = arena_allocate_untyped_def [of "Ok ()" req ?b "aw_mem w", unfolded if_not_P [OF g] prep]
  show ?thesis
  proof (cases "start + ar_len req \<le> arena_base ?b + arena_cap ?b")
    case True
    have "live_allocations (arena_st ?b) + 1 \<le> usize_max" "start \<noteq> 0"
      using rd ge arena_shape_cap(3) [OF sh(1)] by (auto simp: arena_ready_def)
    then show ?thesis using True ge
      by (auto simp: e Let_def checked_add_def arena_result_def set_arena_state_upd)
  next
    case False
    then show ?thesis by (simp add: e)
  qed
qed

theorem arena_allocate_exact_witness:
  "\<exists>r b' m'. arena_allocate_untyped (Ok ()) sample_alloc_request sample_arena_block1 (aw_mem sample_arena_world1) = (Ok r, b', m')
     \<and> res_ptr r = 4176"
proof -
  have up: "align_up (arena_base (aw_block sample_arena_world1) + cursor (arena_st (aw_block sample_arena_world1)))
      (ar_align sample_alloc_request) = Some 4176"
    by (simp add: sample_arena_world1_def sample_arena_block1_def sample_alloc_request_def align_up_eq pow2_more usize_max_def)
  show ?thesis
    using arena_allocate_exact [OF sample_arena_built sample_arena_reaches _ _ _ _ up]
    by (auto simp: sample_arena_world1_def sample_arena_world_def sample_arena_block1_def sample_alloc_request_def
        pow2_more usize_max_def)
qed

text \<open>
  Stack discipline. A block that was just allocated can be released early; that moves the cursor
  back to the start of the block and restores both counts. Once another block has been allocated
  above it, the early release is refused and changes nothing.
\<close>

theorem arena_lifo_roundtrip:
  assumes "arena_built cs l p0 w0" and "reaches arena_step w0 w" and "aw_owner w"
    and "arena_allocate_untyped (Ok ()) req (aw_block w) (aw_mem w) = (Ok r, b1, m1)"
  shows "(\<exists>b2. arena_release_allocation (Ok ()) r True b1 = (Ok (), b2)
       \<and> arena_base b2 + cursor (arena_st b2) = res_ptr r
       \<and> live_allocations (arena_st b2) = live_allocations (arena_st (aw_block w))
       \<and> live_slices (arena_st b2) = live_slices (arena_st (aw_block w)))
    \<and> (\<forall>req2 r2 b3 m3. arena_allocate_untyped (Ok ()) req2 b1 m1 = (Ok r2, b3, m3) \<longrightarrow>
       arena_release_allocation (Ok ()) r True b3 = (Err AllocInvalidRequest, b3))"
proof -
  let ?b = "aw_block w"
  have inv: "arena_world_inv cs l p0 w" using arena_sys.reachable_inv [OF assms(1,2)] .
  then have rd: "arena_ready cs ?b"
    using arena_live_counts(2) [of cs "aw_immortal w" "aw_owner w" "aw_holders w" ?b] assms(3)
    by (simp add: arena_world_inv_def)
  have st: "arena_step w (w\<lparr>aw_block := b1, aw_mem := m1, aw_holders := HToken r # aw_holders w\<rparr>)"
    using arena_step.allocated [OF assms(3,4)] .
  have "arena_world_inv cs l p0 (w\<lparr>aw_block := b1, aw_mem := m1, aw_holders := HToken r # aw_holders w\<rparr>)"
    using arena_world_step [OF inv st] .
  then have rd1: "arena_ready cs b1"
    using arena_live_counts(2) [of cs "aw_immortal w" "aw_owner w" "HToken r # aw_holders w" b1] assms(3)
    by (simp add: arena_world_inv_def)
  from rd assms(4) obtain off where g: "r = arena_result ?b (arena_base ?b + off) off req"
    "b1 = arena_upd ((arena_st ?b)\<lparr>cursor := off + ar_len req, live_allocations := live_allocations (arena_st ?b) + 1\<rparr>)
         (arena_refs ?b) ?b" "off + ar_len req \<le> arena_cap ?b"
    by (cases rule: arena_allocate_cases) auto
  have le: "off + ar_len req \<le> usize_max" using g(3) arena_shape_cap(2) [of cs ?b] rd by (auto simp: arena_ready_def)
  have top: "\<exists>b2. arena_release_allocation (Ok ()) r True b1 = (Ok (), b2)
       \<and> arena_base b2 + cursor (arena_st b2) = res_ptr r
       \<and> live_allocations (arena_st b2) = live_allocations (arena_st ?b)
       \<and> live_slices (arena_st b2) = live_slices (arena_st ?b)"
    using le by (auto simp: g(1,2) arena_release_allocation_def arena_result_def checked_add_def set_arena_state_upd)
  have buried: "arena_release_allocation (Ok ()) r True b3 = (Err AllocInvalidRequest, b3)"
    if "arena_allocate_untyped (Ok ()) req2 b1 m1 = (Ok r2, b3, m3)" for req2 r2 b3 m3
  proof -
    from rd1 that obtain off2 where
      "b3 = arena_upd ((arena_st b1)\<lparr>cursor := off2 + ar_len req2, live_allocations := live_allocations (arena_st b1) + 1\<rparr>)
         (arena_refs b1) b1" "cursor (arena_st b1) \<le> off2" "0 < ar_len req2"
      by (cases rule: arena_allocate_cases) auto
    then show ?thesis using le
      by (auto simp: g(1,2) arena_release_allocation_def arena_result_def checked_add_def)
  qed
  show ?thesis using top buried by blast
qed

theorem arena_lifo_roundtrip_witness:
  "\<exists>b2. arena_release_allocation (Ok ()) (arena_result sample_arena 4160 0 sample_alloc_request) True sample_arena_block1
       = (Ok (), b2) \<and> arena_base b2 + cursor (arena_st b2) = 4160"
  using arena_lifo_roundtrip [OF sample_arena_built reaches.base, of sample_alloc_request
      "arena_result sample_arena 4160 0 sample_alloc_request" sample_arena_block1]
  by (auto simp: sample_arena_world_def sample_arena_alloc arena_result_def)

text \<open>
  \<open>reset\<close> never pulls memory from under a holder. On a mortal arena it succeeds only when no
  token and no slice is live, nor was lost to a failing lock, and then rewinds the cursor; while
  one is, it reports \<open>Busy\<close> and changes nothing.
\<close>

theorem arena_reset_guarded:
  assumes "arena_built cs l p0 w0" and "reaches arena_step w0 w" and "aw_owner w" and "\<not> aw_immortal w"
  shows "arena_reset (Ok ()) (aw_block w) =
     (if aw_holders w = [] then (Ok (), arena_upd ((arena_st (aw_block w))\<lparr>cursor := 0\<rparr>) (arena_refs (aw_block w)) (aw_block w))
      else (Err AllocBusy, aw_block w))"
proof -
  let ?b = "aw_block w"
  have inv: "arena_world_inv cs l p0 w" using arena_sys.reachable_inv [OF assms(1,2)] .
  obtain res b' where run: "arena_reset (Ok ()) ?b = (res, b')" by fastforce
  have "live_allocations (arena_st ?b) = count_by counts_token (aw_holders w)"
    "live_slices (arena_st ?b) = count_by counts_slice (aw_holders w)"
    using inv by (auto simp: arena_world_inv_def arena_live_inv_def)
  then show ?thesis
    using arena_world_reset(2) [OF inv assms(3,4) run] run
    by (auto simp: arena_reset_def set_arena_state_upd split: if_splits)
qed

theorem arena_reset_guarded_witness:
  "arena_reset (Ok ()) sample_arena_block1 = (Err AllocBusy, sample_arena_block1)"
  using arena_reset_guarded [OF sample_arena_built sample_arena_reaches]
  by (simp add: sample_arena_world1_def sample_arena_world_def)

text \<open>
  A failing initialiser leaves no trace but padding. \<open>try_alloc_array_with\<close> calls the
  initialiser up to its first error, drops exactly the elements initialised before it, keeps both
  counts, the references and the pool, moves the cursor at most to the start of the abandoned
  block, and does not touch a byte of any held block.
\<close>

theorem arena_init_failure_undone:
  fixes "init" :: "nat \<Rightarrow> (8 word list, 'e) result"
  assumes "arena_built cs l p0 w0" and "reaches arena_step w0 w" and "aw_owner w"
    and "arena_try_alloc_array_with lk lkd ts ta n init (aw_block w) (aw_mem w) (aw_pool w)
       = (Err (InitFailed e), b', m', p', ds)"
  shows "\<exists>k < n. init k = Err e \<and> (\<forall>j < k. is_ok (init j)) \<and> length ds = k
     \<and> p' = aw_pool w \<and> arena_refs b' = arena_refs (aw_block w)
     \<and> live_slices (arena_st b') = live_slices (arena_st (aw_block w))
     \<and> live_allocations (arena_st b') = live_allocations (arena_st (aw_block w))
     \<and> cursor (arena_st (aw_block w)) \<le> cursor (arena_st b')
     \<and> cursor (arena_st b') + ts * n \<le> arena_cap (aw_block w)
     \<and> (\<forall>i < k. ds ! i = arena_base b' + cursor (arena_st b') + i * ts)
     \<and> (\<forall>h \<in> set (aw_holders w). \<forall>x. fst (holder_block h) \<le> x
          \<and> x < fst (holder_block h) + snd (holder_block h) \<longrightarrow> m' x = aw_mem w x)"
proof -
  let ?b = "aw_block w"
  have inv: "arena_world_inv cs l p0 w" using arena_sys.reachable_inv [OF assms(1,2)] .
  then have li: "arena_live_inv cs (aw_immortal w) (aw_owner w) (aw_holders w) ?b" by (simp add: arena_world_inv_def)
  have ok: "blocks_ok (arena_base ?b) (arena_base ?b + cursor (arena_st ?b)) (map holder_block (aw_holders w))"
    using li by (simp add: arena_live_inv_def)
  from arena_live_counts(2) [OF li assms(3)] assms(4) show ?thesis
  proof (cases rule: arena_array_cases)
    case (undone e' off k)
    have "m' x = aw_mem w x" if "h \<in> set (aw_holders w)" "x < fst (holder_block h) + snd (holder_block h)" for h x
      using blocks_ok_member [OF ok, of "holder_block h"] imageI [OF that(1), of holder_block] that(2) undone(4,6) by auto
    then show ?thesis using undone by (intro exI [of _ k]) auto
  qed auto
qed

theorem arena_init_failure_undone_witness:
  "\<exists>b' m' p' ds. arena_try_alloc_array_with (Ok ()) (Ok ()) 2 2 3 (\<lambda>i. if i = 1 then Err () else Ok [0, 0])
       sample_arena_block1 (aw_mem sample_arena_world1) sample_pool1 = (Err (InitFailed ()), b', m', p', ds)
     \<and> length ds = 1 \<and> p' = sample_pool1 \<and> live_slices (arena_st b') = 0"
proof -
  let ?init = "\<lambda>i :: nat. if i = 1 then Err () else Ok [0 :: 8 word, 0]"
  have pb: "arena_payload_base sample_arena_block1 = Ok 4160" "payload_len (ac_header (cb_value sample_arena_block1)) = 32"
    by (simp_all add: sample_arena_block1_def arena_upd_def set_arena_state_def sample_arena_def sample_arena_eq
        arena_payload_base_def metadata_page_header_new_def sample_assign checked_add_def usize_max_def)
  have p2: "is_power_of_two 2" using is_power_of_two_power [of 1] by simp
  have rs: "\<exists>b1 p1. arena_reserve_slice (Ok ()) (Ok ()) 2 2 3 sample_arena_block1 sample_pool1 = (Ok (4170, 10), b1, p1)"
    using pb by (simp add: arena_reserve_slice_def typed_request_def checked_mul_def usize_max_def arena_prepare_def
        arena_reserve_def checked_add_def checked_sub_def alloc_align_up_eq align_up_eq p2 control_try_clone_eq
        Let_def sample_arena_block1_def)
  obtain res b' m' p' ds where run: "arena_try_alloc_array_with (Ok ()) (Ok ()) 2 2 3 ?init
      sample_arena_block1 (aw_mem sample_arena_world1) sample_pool1 = (res, b', m', p', ds)" by (metis prod_cases5)
  have "arena_init_loop ?init 2 4170 0 3 (aw_mem sample_arena_world1)
      = (Some ((), 1), write_bytes 4170 [0, 0] (aw_mem sample_arena_world1))"
    by (simp add: eval_nat_numeral)
  then have res: "res = Err (InitFailed ())"
    using run rs by (auto simp: arena_try_alloc_array_with_def Let_def split: prod.splits)
  have run': "arena_try_alloc_array_with (Ok ()) (Ok ()) 2 2 3 ?init (aw_block sample_arena_world1)
      (aw_mem sample_arena_world1) (aw_pool sample_arena_world1) = (Err (InitFailed ()), b', m', p', ds)"
    using run res by (simp add: sample_arena_world1_def sample_arena_world_def)
  have own: "aw_owner sample_arena_world1" by (simp add: sample_arena_world1_def sample_arena_world_def)
  from arena_init_failure_undone [OF sample_arena_built sample_arena_reaches own run']
  have "length ds = 1 \<and> p' = sample_pool1 \<and> live_slices (arena_st b') = 0"
    by (auto simp: sample_arena_world1_def sample_arena_world_def sample_arena_block1_def split: if_splits)
  then show ?thesis using run res by blast
qed



end
