(* ===== verification/Sync_Left_Right.thy ===== *)
theory Sync_Left_Right
  imports Sync_Shared
begin

text \<open>
  The left-right table (\<open>fusion-sys/sync/left_right.rs\<close>): two replicas, a selector, one counter per
  reader slot, one writer at a time. The interleaving of readers and writers is a step relation
  whose steps are the atomic accesses of the source, in program order.

  The selector is written with a \<open>Release\<close> store and read with an \<open>Acquire\<close> load. A release store
  may become visible to other threads only after later loads of the same thread have been
  performed, as with a hardware store buffer. The model therefore has two store disciplines:
  \<open>Buffered\<close> is what the source asks for, \<open>Sequential\<close> what a sequentially consistent store (or a
  fence behind the store) would give. Taking the writer's lock is an atomic read-modify-write and
  waits for the buffer to drain.
\<close>

abbreviation (input) LEFT :: usize where "LEFT \<equiv> 0"
abbreviation (input) RIGHT :: usize where "RIGHT \<equiv> 1"

definition alternate_side :: "usize \<Rightarrow> usize" where
  "alternate_side side = (if side = LEFT then RIGHT else LEFT)"

section \<open>The table\<close>

record 'v left_right =
  active_side :: usize
  left_replica :: 'v
  right_replica :: 'v
  reader_counters :: "usize list"

definition with_replicas :: "nat \<Rightarrow> 'v \<Rightarrow> 'v \<Rightarrow> 'v left_right" where
  "with_replicas readers l r = \<lparr>active_side = LEFT, left_replica = l, right_replica = r,
     reader_counters = replicate readers 0\<rparr>"

definition left_right_new :: "nat \<Rightarrow> 'v \<Rightarrow> 'v left_right" where
  "left_right_new readers v = with_replicas readers v v"

definition replica_ptr :: "usize \<Rightarrow> 'v left_right \<Rightarrow> 'v" where
  "replica_ptr side t = (if side = LEFT then left_replica t else right_replica t)"

definition write_replica :: "usize \<Rightarrow> 'v \<Rightarrow> 'v left_right \<Rightarrow> 'v left_right" where
  "write_replica side v t = (if side = LEFT then t\<lparr>left_replica := v\<rparr> else t\<lparr>right_replica := v\<rparr>)"

text \<open>
  \<open>begin\<close> repeats a compare-exchange; its effect is the one successful exchange, or the error when
  the counter is seen odd. \<open>finish\<close> is one wrapping increment.
\<close>

definition counter_begin :: "usize \<Rightarrow> (usize, sync_error_kind) result" where
  "counter_begin c = (if c AND 1 \<noteq> 0 then Err SyncBusy else Ok (wrapping_add c 1))"

definition counter_finish :: "usize \<Rightarrow> usize" where
  "counter_finish c = wrapping_add c 1"

definition is_quiescent :: "usize \<Rightarrow> bool" where
  "is_quiescent c \<longleftrightarrow> c AND 1 = 0"

text \<open>The first half of \<open>read\<close>: the slot check and the start of the read.\<close>

definition read_begin :: "usize \<Rightarrow> 'v left_right \<Rightarrow> (unit, sync_error_kind) result \<times> 'v left_right" where
  "read_begin slot t =
     (if \<not> slot < length (reader_counters t) then (Err SyncInvalid, t)
      else (case counter_begin (reader_counters t ! slot) of
          Err e \<Rightarrow> (Err e, t)
        | Ok c \<Rightarrow> (Ok (), t\<lparr>reader_counters := (reader_counters t)[slot := c]\<rparr>)))"

definition read_finish :: "usize \<Rightarrow> 'v left_right \<Rightarrow> 'v left_right" where
  "read_finish slot t =
     t\<lparr>reader_counters := (reader_counters t)[slot := counter_finish (reader_counters t ! slot)]\<rparr>"

section \<open>Interleaved readers and writers\<close>

text \<open>
  Where a reader slot is: not in use, counted but before the load of the selector, or holding a
  guard on one replica. The value is what the guard saw first.
\<close>

datatype 'v lr_reader = RIdle | RBegun | RReading usize 'v

text \<open>
  Where the writer is: none, in \<open>update\<close> or \<open>replace\<close> before the write (the side is the inactive
  one it chose), after the write, or waiting for quiescence with the next slot to look at.
\<close>

datatype lr_writer = WIdle | WLocked | WWriting usize | WWritten usize | WScan nat

datatype store_order = Sequential | Buffered

record 'v lr_world =
  lr_table :: "'v left_right"
  lr_readers :: "'v lr_reader list"
  lr_writer :: lr_writer
  lr_pending :: "usize option"

definition publish :: "store_order \<Rightarrow> usize \<Rightarrow> 'v lr_world \<Rightarrow> 'v lr_world" where
  "publish ord side w = (case ord of
      Sequential \<Rightarrow> w\<lparr>lr_table := (lr_table w)\<lparr>active_side := side\<rparr>\<rparr>
    | Buffered \<Rightarrow> w\<lparr>lr_pending := Some side\<rparr>)"

inductive lr_step :: "store_order \<Rightarrow> 'v lr_world \<Rightarrow> 'v lr_world \<Rightarrow> bool" for ord where
  reader_begins: "read_begin slot (lr_table w) = (Ok (), t) \<Longrightarrow>
     lr_step ord w (w\<lparr>lr_table := t, lr_readers := (lr_readers w)[slot := RBegun]\<rparr>)"
| reader_refused: "read_begin slot (lr_table w) = (Err e, t) \<Longrightarrow> lr_step ord w (w\<lparr>lr_table := t\<rparr>)"
| reader_loads: "slot < length (lr_readers w) \<Longrightarrow> lr_readers w ! slot = RBegun \<Longrightarrow>
     lr_step ord w (w\<lparr>lr_readers := (lr_readers w)[slot := RReading (active_side (lr_table w))
       (replica_ptr (active_side (lr_table w)) (lr_table w))]\<rparr>)"
| reader_ends: "slot < length (lr_readers w) \<Longrightarrow> lr_readers w ! slot = RReading s v \<Longrightarrow>
     lr_step ord w (w\<lparr>lr_table := read_finish slot (lr_table w), lr_readers := (lr_readers w)[slot := RIdle]\<rparr>)"
| writer_locks: "lr_writer w = WIdle \<Longrightarrow> lr_pending w = None \<Longrightarrow> lr_step ord w (w\<lparr>lr_writer := WLocked\<rparr>)"
| writer_chooses: "lr_writer w = WLocked \<Longrightarrow>
     lr_step ord w (w\<lparr>lr_writer := WWriting (alternate_side (active_side (lr_table w)))\<rparr>)"
| writer_writes: "lr_writer w = WWriting s \<Longrightarrow>
     lr_step ord w (w\<lparr>lr_table := write_replica s (f (replica_ptr (alternate_side s) (lr_table w))) (lr_table w),
       lr_writer := WWritten s\<rparr>)"
| writer_publishes: "lr_writer w = WWritten s \<Longrightarrow> lr_step ord w ((publish ord s w)\<lparr>lr_writer := WScan 0\<rparr>)"
| writer_scans: "lr_writer w = WScan i \<Longrightarrow> i < length (reader_counters (lr_table w)) \<Longrightarrow>
     lr_step ord w (w\<lparr>lr_writer := (if is_quiescent (reader_counters (lr_table w) ! i) then WScan (Suc i) else WScan 0)\<rparr>)"
| writer_done: "lr_writer w = WScan i \<Longrightarrow> i = length (reader_counters (lr_table w)) \<Longrightarrow>
     lr_step ord w (w\<lparr>lr_writer := WIdle\<rparr>)"
| flushed: "lr_pending w = Some s \<Longrightarrow>
     lr_step ord w (w\<lparr>lr_table := (lr_table w)\<lparr>active_side := s\<rparr>, lr_pending := None\<rparr>)"

definition lr_start :: "nat \<Rightarrow> 'v \<Rightarrow> 'v lr_world" where
  "lr_start n v = \<lparr>lr_table = left_right_new n v, lr_readers = replicate n RIdle, lr_writer = WIdle, lr_pending = None\<rparr>"

section \<open>The invariant under a sequentially consistent publication\<close>

definition lr_stale_ok :: "lr_writer \<Rightarrow> nat \<Rightarrow> bool" where
  "lr_stale_ok wr slot \<longleftrightarrow> (\<exists>i. wr = WScan i \<and> i \<le> slot)"

definition lr_reader_ok :: "'v lr_world \<Rightarrow> nat \<Rightarrow> bool" where
  "lr_reader_ok w slot \<longleftrightarrow> (case lr_readers w ! slot of
      RIdle \<Rightarrow> even (reader_counters (lr_table w) ! slot)
    | RBegun \<Rightarrow> odd (reader_counters (lr_table w) ! slot)
    | RReading s v \<Rightarrow> odd (reader_counters (lr_table w) ! slot) \<and> replica_ptr s (lr_table w) = v
        \<and> s \<in> {0, 1} \<and> (s = active_side (lr_table w) \<or> lr_stale_ok (lr_writer w) slot))"

fun lr_writer_ok :: "usize \<Rightarrow> lr_writer \<Rightarrow> bool" where
  "lr_writer_ok a (WWriting s) = (s = alternate_side a)"
| "lr_writer_ok a (WWritten s) = (s = alternate_side a)"
| "lr_writer_ok a _ = True"

definition lr_inv :: "'v lr_world \<Rightarrow> bool" where
  "lr_inv w \<longleftrightarrow> length (lr_readers w) = length (reader_counters (lr_table w)) \<and> lr_pending w = None
     \<and> active_side (lr_table w) \<in> {0, 1} \<and> lr_writer_ok (active_side (lr_table w)) (lr_writer w)
     \<and> (\<forall>slot < length (lr_readers w). lr_reader_ok w slot)"

lemma wrapping_add_parity: "even (wrapping_add c 1) \<longleftrightarrow> odd c" "even (wrapping_add c (Suc 0)) \<longleftrightarrow> odd c"
proof -
  have "even ((c + 1) mod (usize_max + 1)) \<longleftrightarrow> even (c + 1)"
    by (rule dvd_mod_iff) (simp add: usize_max_def)
  then show "even (wrapping_add c 1) \<longleftrightarrow> odd c" "even (wrapping_add c (Suc 0)) \<longleftrightarrow> odd c"
    by (simp_all add: wrapping_add_def)
qed

lemma is_quiescent_even: "is_quiescent c \<longleftrightarrow> even c"
  by (simp add: is_quiescent_def and_one_eq mod_2_eq_odd)

lemma counter_begin_iff: "counter_begin c = (if odd c then Err SyncBusy else Ok (wrapping_add c 1))"
  by (simp add: counter_begin_def and_one_eq mod_2_eq_odd)

lemma alternate_side_simps [simp]: "alternate_side a \<noteq> a" "alternate_side a \<in> {0, 1}"
  "alternate_side a = 0 \<or> alternate_side a = 1"
  by (auto simp: alternate_side_def)

lemma alternate_side_twice: "a \<in> {0, 1} \<Longrightarrow> alternate_side (alternate_side a) = a"
  by (auto simp: alternate_side_def)

lemma replica_write_other: "s \<in> {0, 1} \<Longrightarrow> s' \<in> {0, 1} \<Longrightarrow> s \<noteq> s' \<Longrightarrow> replica_ptr s (write_replica s' v t) = replica_ptr s t"
  by (auto simp: replica_ptr_def write_replica_def)

lemma replica_write_same: "replica_ptr s (write_replica s v t) = v"
  by (simp add: replica_ptr_def write_replica_def)

lemma table_frame [simp]:
  "reader_counters (write_replica s v t) = reader_counters t" "active_side (write_replica s v t) = active_side t"
  "replica_ptr s (t\<lparr>reader_counters := cs\<rparr>) = replica_ptr s t" "replica_ptr s (t\<lparr>active_side := a\<rparr>) = replica_ptr s t"
  "active_side (read_finish slot t) = active_side t" "replica_ptr s (read_finish slot t) = replica_ptr s t"
  by (simp_all add: write_replica_def replica_ptr_def read_finish_def)

lemma lr_inv_slot:
  assumes inv: "lr_inv w" and slot: "slot < length (lr_readers w)"
    and frame: "length (reader_counters t) = length (reader_counters (lr_table w))"
      "active_side t = active_side (lr_table w)" "\<And>s. replica_ptr s t = replica_ptr s (lr_table w)"
      "\<forall>j. j \<noteq> slot \<longrightarrow> reader_counters t ! j = reader_counters (lr_table w) ! j"
    and new: "lr_reader_ok (w\<lparr>lr_table := t, lr_readers := (lr_readers w)[slot := x]\<rparr>) slot"
  shows "lr_inv (w\<lparr>lr_table := t, lr_readers := (lr_readers w)[slot := x]\<rparr>)"
proof -
  let ?w = "w\<lparr>lr_table := t, lr_readers := (lr_readers w)[slot := x]\<rparr>"
  have "lr_reader_ok ?w j" if j: "j < length (lr_readers w)" for j
  proof (cases "j = slot")
    case False
    have "lr_reader_ok w j" using inv j by (simp add: lr_inv_def)
    then show ?thesis using False frame(2-4) by (simp add: lr_reader_ok_def split: lr_reader.splits)
  qed (use new in simp)
  then show ?thesis using inv frame(1,2) by (simp add: lr_inv_def)
qed

lemma lr_step_inv:
  assumes inv: "lr_inv w" and st: "lr_step Sequential w w'"
  shows "lr_inv w'"
  using st
proof (cases rule: lr_step.cases)
  case (reader_begins slot t)
  then have sl: "slot < length (reader_counters (lr_table w))" "even (reader_counters (lr_table w) ! slot)"
    "t = (lr_table w)\<lparr>reader_counters := (reader_counters (lr_table w))[slot := wrapping_add (reader_counters (lr_table w) ! slot) 1]\<rparr>"
    by (auto simp: read_begin_def counter_begin_iff split: if_splits)
  have "slot < length (lr_readers w)" using sl(1) inv by (simp add: lr_inv_def)
  then show ?thesis unfolding reader_begins(1)
    by (intro lr_inv_slot [OF inv]) (use sl in \<open>simp_all add: lr_reader_ok_def wrapping_add_parity\<close>)
next
  case (reader_refused slot e t)
  then have "t = lr_table w" by (auto simp: read_begin_def split: if_splits result.splits)
  then show ?thesis using reader_refused inv by simp
next
  case (reader_loads slot)
  have ok: "lr_reader_ok w slot" "active_side (lr_table w) \<in> {0, 1}" using inv reader_loads(2) by (auto simp: lr_inv_def)
  have "lr_inv (w\<lparr>lr_table := lr_table w, lr_readers := (lr_readers w)[slot := RReading (active_side (lr_table w))
       (replica_ptr (active_side (lr_table w)) (lr_table w))]\<rparr>)"
    by (intro lr_inv_slot [OF inv reader_loads(2)])
      (use ok reader_loads(2,3) in \<open>simp_all add: lr_reader_ok_def\<close>)
  then show ?thesis using reader_loads(1) by simp
next
  case (reader_ends slot s v)
  have ok: "lr_reader_ok w slot" and len: "slot < length (reader_counters (lr_table w))"
    using inv reader_ends(2) by (auto simp: lr_inv_def)
  then show ?thesis unfolding reader_ends(1)
    by (intro lr_inv_slot [OF inv reader_ends(2)])
      (use reader_ends(2,3) in \<open>simp_all add: lr_reader_ok_def read_finish_def counter_finish_def wrapping_add_parity\<close>)
next
  case writer_locks
  then show ?thesis using inv by (auto simp: lr_inv_def lr_reader_ok_def lr_stale_ok_def split: lr_reader.splits)
next
  case writer_chooses
  then show ?thesis using inv by (auto simp: lr_inv_def lr_reader_ok_def lr_stale_ok_def split: lr_reader.splits)
next
  case (writer_writes s f)
  have s: "s = alternate_side (active_side (lr_table w))" "active_side (lr_table w) \<in> {0, 1}"
    using inv writer_writes(2) by (auto simp: lr_inv_def)
  have "lr_reader_ok w' slot" if slot: "slot < length (lr_readers w)" for slot
  proof -
    have ok: "lr_reader_ok w slot" using inv slot by (simp add: lr_inv_def)
    show ?thesis
    proof (cases "lr_readers w ! slot")
      case (RReading r v)
      then have r: "r = active_side (lr_table w)" "replica_ptr r (lr_table w) = v"
        using ok writer_writes(2) by (auto simp: lr_reader_ok_def lr_stale_ok_def)
      then have "replica_ptr r (write_replica s x (lr_table w)) = v" for x
        using s by (auto simp: alternate_side_def replica_ptr_def write_replica_def)
      then show ?thesis using ok RReading r writer_writes(1) by (simp add: lr_reader_ok_def)
    qed (use ok writer_writes(1) in \<open>simp_all add: lr_reader_ok_def\<close>)
  qed
  then show ?thesis using inv writer_writes s by (simp add: lr_inv_def)
next
  case (writer_publishes s)
  have "s = alternate_side (active_side (lr_table w))" using inv writer_publishes(2) by (simp add: lr_inv_def)
  then have "s \<in> {0, 1}" by (simp only: alternate_side_simps)
  then show ?thesis using inv writer_publishes
    by (auto simp: lr_inv_def publish_def lr_reader_ok_def lr_stale_ok_def split: lr_reader.splits)
next
  case (writer_scans i)
  have "lr_reader_ok w' slot" if slot: "slot < length (lr_readers w)" for slot
  proof -
    have ok: "lr_reader_ok w slot" using inv slot by (simp add: lr_inv_def)
    have "lr_stale_ok (lr_writer w') slot"
      if "lr_readers w ! slot = RReading s v" "s \<noteq> active_side (lr_table w)" for s v
    proof -
      have "i \<le> slot" "odd (reader_counters (lr_table w) ! slot)"
        using ok that writer_scans(2) by (auto simp: lr_reader_ok_def lr_stale_ok_def)
      then show ?thesis using writer_scans(1)
        by (cases "i = slot") (auto simp: lr_stale_ok_def is_quiescent_even)
    qed
    moreover have "lr_table w' = lr_table w" "lr_readers w' = lr_readers w" using writer_scans(1) by simp_all
    ultimately show ?thesis using ok
      by (cases "lr_readers w ! slot") (simp_all add: lr_reader_ok_def, blast)
  qed
  then show ?thesis using inv writer_scans(1) by (simp add: lr_inv_def)
next
  case (writer_done i)
  have "lr_reader_ok w' slot" if slot: "slot < length (lr_readers w)" for slot
  proof -
    have "lr_reader_ok w slot" "slot < i" using inv slot writer_done(3) by (simp_all add: lr_inv_def)
    then show ?thesis using writer_done(1,2)
      by (auto simp: lr_reader_ok_def lr_stale_ok_def split: lr_reader.splits)
  qed
  then show ?thesis using inv writer_done(1) by (simp add: lr_inv_def)
next
  case (flushed s)
  then show ?thesis using inv by (simp add: lr_inv_def)
qed

lemma lr_step_slots:
  "lr_step ord w w' \<Longrightarrow> length (reader_counters (lr_table w')) = length (reader_counters (lr_table w))"
  by (erule lr_step.cases)
    (auto simp: publish_def read_begin_def read_finish_def split: if_splits result.splits store_order.splits)

lemma lr_slots_fixed:
  "reaches (lr_step ord) w w' \<Longrightarrow> length (reader_counters (lr_table w')) = length (reader_counters (lr_table w))"
  by (induction rule: reaches.induct) (simp_all add: lr_step_slots)

interpretation lr_sys: inductive_invariant "\<lambda>w. \<exists>n v. w = lr_start n v" "lr_step Sequential" lr_inv
proof unfold_locales
  show "lr_inv w" if "\<exists>n v. w = lr_start n v" for w :: "'a lr_world"
    using that by (auto simp: lr_inv_def lr_start_def left_right_new_def with_replicas_def lr_reader_ok_def)
qed (rule lr_step_inv)

section \<open>Properties\<close>

text \<open>
  With a sequentially consistent publication, which is not the one of the source, the table would
  keep its promise, for any number of reader slots and any interleaving: the writer never mutates a
  replica on which a guard is live, and what a guard shows does not change from its first look to
  its drop.
\<close>

theorem left_right_guards_stable:
  assumes "reaches (lr_step Sequential) (lr_start n v0) w"
    and "slot < n" and "lr_readers w ! slot = RReading s v"
  shows "replica_ptr s (lr_table w) = v \<and> lr_writer w \<noteq> WWriting s"
proof -
  have inv: "lr_inv w" using lr_sys.reachable_inv [OF _ assms(1)] by blast
  have "length (reader_counters (lr_table w)) = n"
    using lr_slots_fixed [OF assms(1)] by (simp add: lr_start_def left_right_new_def with_replicas_def)
  then have "lr_reader_ok w slot" using inv assms(2) by (simp add: lr_inv_def)
  then have ok: "replica_ptr s (lr_table w) = v" "s = active_side (lr_table w) \<or> lr_stale_ok (lr_writer w) slot"
    using assms(3) by (simp_all add: lr_reader_ok_def)
  have "lr_writer_ok (active_side (lr_table w)) (lr_writer w)" using inv by (simp add: lr_inv_def)
  then show ?thesis using ok by (cases "lr_writer w") (auto simp: lr_stale_ok_def)
qed

text \<open>A run with one slot: an update is published, a reader begins before it and ends after it.\<close>

definition lr_demo :: "store_order \<Rightarrow> nat lr_world" where
  "lr_demo ord = (case ord of
      Sequential \<Rightarrow> \<lparr>lr_table = \<lparr>active_side = 1, left_replica = 5, right_replica = 6, reader_counters = [1]\<rparr>,
        lr_readers = [RReading 0 5], lr_writer = WScan 0, lr_pending = None\<rparr>
    | Buffered \<Rightarrow> \<lparr>lr_table = \<lparr>active_side = 1, left_replica = 5, right_replica = 6, reader_counters = [1]\<rparr>,
        lr_readers = [RReading 0 5], lr_writer = WWriting 0, lr_pending = None\<rparr>)"

lemma lr_demo_sequential: "reaches (lr_step Sequential) (lr_start 1 5) (lr_demo Sequential)"
proof -
  let ?t0 = "\<lparr>active_side = 0, left_replica = 5, right_replica = 5, reader_counters = [0]\<rparr> :: nat left_right"
  let ?t1 = "?t0\<lparr>reader_counters := [1]\<rparr>" and ?t2 = "?t0\<lparr>reader_counters := [1], right_replica := 6\<rparr>"
  let ?w = "\<lambda>t r wr. \<lparr>lr_table = t, lr_readers = [r], lr_writer = wr, lr_pending = None\<rparr> :: nat lr_world"
  have "reaches (lr_step Sequential) (lr_start 1 5) (?w ?t0 RIdle WIdle)"
    by (simp add: lr_start_def left_right_new_def with_replicas_def reaches.base)
  also have "lr_step Sequential (?w ?t0 RIdle WIdle) (?w ?t1 RBegun WIdle)"
    using lr_step.reader_begins [of 0 "?w ?t0 RIdle WIdle" ?t1]
    by (simp add: read_begin_def counter_begin_def wrapping_add_def usize_max_def)
  also have "lr_step Sequential (?w ?t1 RBegun WIdle) (?w ?t1 (RReading 0 5) WIdle)"
    using lr_step.reader_loads [of 0 "?w ?t1 RBegun WIdle"] by (simp add: replica_ptr_def)
  also have "lr_step Sequential (?w ?t1 (RReading 0 5) WIdle) (?w ?t1 (RReading 0 5) WLocked)"
    using lr_step.writer_locks [of "?w ?t1 (RReading 0 5) WIdle"] by simp
  also have "lr_step Sequential (?w ?t1 (RReading 0 5) WLocked) (?w ?t1 (RReading 0 5) (WWriting 1))"
    using lr_step.writer_chooses [of "?w ?t1 (RReading 0 5) WLocked"] by (simp add: alternate_side_def)
  also have "lr_step Sequential (?w ?t1 (RReading 0 5) (WWriting 1)) (?w ?t2 (RReading 0 5) (WWritten 1))"
    using lr_step.writer_writes [of "?w ?t1 (RReading 0 5) (WWriting 1)" 1 _ "\<lambda>_. 6"] by (simp add: write_replica_def)
  also have "lr_step Sequential (?w ?t2 (RReading 0 5) (WWritten 1)) (lr_demo Sequential)"
    using lr_step.writer_publishes [of "?w ?t2 (RReading 0 5) (WWritten 1)" 1 Sequential]
    by (simp add: publish_def lr_demo_def)
  finally show ?thesis .
qed

theorem left_right_guards_stable_witness:
  "replica_ptr 0 (lr_table (lr_demo Sequential)) = 5 \<and> lr_writer (lr_demo Sequential) \<noteq> WWriting 0"
  using left_right_guards_stable [OF lr_demo_sequential, of 0 0 5] by (simp add: lr_demo_def)

text \<open>
  The release store of the source is not enough. When the publication may stay in a store buffer
  while the writer already looks at the counters, there is a run in which the writer finds every
  slot quiescent, a reader then takes a guard on the replica that is about to be retired, and the
  next update mutates that replica while the guard is live.
\<close>

theorem left_right_release_store_insufficient:
  "\<exists>w. reaches (lr_step Buffered) (lr_start 1 (5 :: nat)) w
     \<and> lr_readers w ! 0 = RReading 0 5 \<and> lr_writer w = WWriting 0"
proof -
  let ?t0 = "\<lparr>active_side = 0, left_replica = 5, right_replica = 5, reader_counters = [0]\<rparr> :: nat left_right"
  let ?t2 = "?t0\<lparr>right_replica := 6\<rparr>" and ?t3 = "?t0\<lparr>right_replica := 6, reader_counters := [1]\<rparr>"
  let ?t4 = "?t3\<lparr>active_side := 1\<rparr>"
  let ?w = "\<lambda>t r wr p. \<lparr>lr_table = t, lr_readers = [r], lr_writer = wr, lr_pending = p\<rparr> :: nat lr_world"
  have "reaches (lr_step Buffered) (lr_start 1 5) (?w ?t0 RIdle WIdle None)"
    by (simp add: lr_start_def left_right_new_def with_replicas_def reaches.base)
  also have "lr_step Buffered (?w ?t0 RIdle WIdle None) (?w ?t0 RIdle WLocked None)"
    using lr_step.writer_locks [of "?w ?t0 RIdle WIdle None"] by simp
  also have "lr_step Buffered (?w ?t0 RIdle WLocked None) (?w ?t0 RIdle (WWriting 1) None)"
    using lr_step.writer_chooses [of "?w ?t0 RIdle WLocked None"] by (simp add: alternate_side_def)
  also have "lr_step Buffered (?w ?t0 RIdle (WWriting 1) None) (?w ?t2 RIdle (WWritten 1) None)"
    using lr_step.writer_writes [of "?w ?t0 RIdle (WWriting 1) None" 1 _ "\<lambda>_. 6"] by (simp add: write_replica_def)
  also have "lr_step Buffered (?w ?t2 RIdle (WWritten 1) None) (?w ?t2 RIdle (WScan 0) (Some 1))"
    using lr_step.writer_publishes [of "?w ?t2 RIdle (WWritten 1) None" 1 Buffered] by (simp add: publish_def)
  also have "lr_step Buffered (?w ?t2 RIdle (WScan 0) (Some 1)) (?w ?t2 RIdle (WScan 1) (Some 1))"
    using lr_step.writer_scans [of "?w ?t2 RIdle (WScan 0) (Some 1)" 0] by (simp add: is_quiescent_def)
  also have "lr_step Buffered (?w ?t2 RIdle (WScan 1) (Some 1)) (?w ?t3 RBegun (WScan 1) (Some 1))"
    using lr_step.reader_begins [of 0 "?w ?t2 RIdle (WScan 1) (Some 1)" ?t3]
    by (simp add: read_begin_def counter_begin_def wrapping_add_def usize_max_def)
  also have "lr_step Buffered (?w ?t3 RBegun (WScan 1) (Some 1)) (?w ?t3 (RReading 0 5) (WScan 1) (Some 1))"
    using lr_step.reader_loads [of 0 "?w ?t3 RBegun (WScan 1) (Some 1)"] by (simp add: replica_ptr_def)
  also have "lr_step Buffered (?w ?t3 (RReading 0 5) (WScan 1) (Some 1)) (?w ?t4 (RReading 0 5) (WScan 1) None)"
    using lr_step.flushed [of "?w ?t3 (RReading 0 5) (WScan 1) (Some 1)" 1] by simp
  also have "lr_step Buffered (?w ?t4 (RReading 0 5) (WScan 1) None) (?w ?t4 (RReading 0 5) WIdle None)"
    using lr_step.writer_done [of "?w ?t4 (RReading 0 5) (WScan 1) None" 1] by simp
  also have "lr_step Buffered (?w ?t4 (RReading 0 5) WIdle None) (?w ?t4 (RReading 0 5) WLocked None)"
    using lr_step.writer_locks [of "?w ?t4 (RReading 0 5) WIdle None"] by simp
  also have "lr_step Buffered (?w ?t4 (RReading 0 5) WLocked None) (?w ?t4 (RReading 0 5) (WWriting 0) None)"
    using lr_step.writer_chooses [of "?w ?t4 (RReading 0 5) WLocked None"] by (simp add: alternate_side_def)
  finally have "reaches (lr_step Buffered) (lr_start 1 5) (?w ?t4 (RReading 0 5) (WWriting 0) None)" .
  then show ?thesis by (intro exI [of _ "?w ?t4 (RReading 0 5) (WWriting 0) None"]) simp
qed

end
