(* ===== verification/Sync_Futex.thy ===== *)
theory Sync_Futex
  imports Sync_Shared
begin

text \<open>
  The futex-backed primitives of the Linux backend (\<open>fusion-pal/pal/hosted/linux/sync/sync.rs\<close>) and
  the one-time cell built on them (\<open>fusion-sys/sync/once.rs\<close>).

  Each primitive is a word (or a few) that threads access one atomic operation at a time. A thread
  is a program counter; the functions \<open>..._next\<close> give the effect of its next access, and the step
  relations interleave the threads. The kernel's part is the documented behaviour of \<open>futex\<close>: a
  wait puts the thread to sleep exactly if the word still has the expected value, sleeping threads
  may be interrupted at any time, and a wake of \<open>n\<close> resumes up to \<open>n\<close> sleeping threads, all of
  them if there are no more than \<open>n\<close>. With \<open>may_fail\<close>, a wait may also return an error, which the
  source passes on to its caller.
\<close>

section \<open>Sleeping and waking\<close>

text \<open>
  Where a primitive wakes more than one thread its threads are a list of program counters. A wake
  whose count lets the kernel resume \<open>n\<close> threads resumes a set of sleeping threads of its choice: \<open>n\<close>
  of them, or all if there are fewer.
\<close>

definition sleepers :: "'pc \<Rightarrow> 'pc list \<Rightarrow> nat set" where
  "sleepers asleep pcs = {i. i < length pcs \<and> pcs ! i = asleep}"

definition resume :: "nat set \<Rightarrow> 'pc \<Rightarrow> 'pc list \<Rightarrow> 'pc list" where
  "resume S awake pcs = map (\<lambda>i. if i \<in> S then awake else pcs ! i) [0..<length pcs]"

definition wakes_up_to :: "nat \<Rightarrow> 'pc \<Rightarrow> 'pc list \<Rightarrow> nat set \<Rightarrow> bool" where
  "wakes_up_to n asleep pcs S \<longleftrightarrow> S \<subseteq> sleepers asleep pcs \<and> card S = min n (card (sleepers asleep pcs))"

text \<open>
  What the manual of \<open>futex\<close> says of the count of a wake, with \<open>wc n\<close> the number of threads a count
  of \<open>n\<close> lets the kernel resume: a count between 1 and \<open>INT_MAX\<close> is a number of threads.
\<close>

abbreviation i32_max :: u32 where "i32_max \<equiv> 0x7FFFFFFF"

definition futex_wake_law :: "(u32 \<Rightarrow> nat) \<Rightarrow> bool" where
  "futex_wake_law wc \<longleftrightarrow> (\<forall>n. 0 < n \<longrightarrow> n \<le> i32_max \<longrightarrow> wc n = unat n)"

lemma futex_wake_law_unat: "futex_wake_law unat"
  by (simp add: futex_wake_law_def)

lemma sleepers_finite [simp]: "finite (sleepers a pcs)"
  by (simp add: sleepers_def)

lemma length_resume [simp]: "length (resume S a pcs) = length pcs"
  by (simp add: resume_def)

lemma resume_nth [simp]: "i < length pcs \<Longrightarrow> resume S a pcs ! i = (if i \<in> S then a else pcs ! i)"
  by (simp add: resume_def)

lemma wakes_finite: "wakes_up_to n a pcs S \<Longrightarrow> finite S"
  by (auto simp: wakes_up_to_def intro: finite_subset [OF _ sleepers_finite])

lemma wakes_all:
  assumes "wakes_up_to n asleep pcs S" "card (sleepers asleep pcs) \<le> n"
  shows "S = sleepers asleep pcs"
  using assms by (intro card_subset_eq) (simp_all add: wakes_up_to_def)

lemma card_sleepers_le: "card (sleepers a pcs) \<le> length pcs"
proof -
  have "sleepers a pcs \<subseteq> {..<length pcs}" by (auto simp: sleepers_def)
  then show ?thesis using card_mono [of "{..<length pcs}"] by fastforce
qed

lemma resume_all:
  assumes "awake \<noteq> asleep"
  shows "sleepers asleep (resume (sleepers asleep pcs) awake pcs) = {}"
  using assms by (auto simp: sleepers_def)

lemma sleepers_update:
  "t < length pcs \<Longrightarrow> sleepers a (pcs[t := pc]) = (if pc = a then insert t (sleepers a pcs) else sleepers a pcs - {t})"
  by (auto simp: sleepers_def nth_list_update)

text \<open>What a wake adds to a weight that counts the awake threads.\<close>

lemma weight_resume:
  fixes weight :: "'pc \<Rightarrow> nat"
  assumes "S \<subseteq> sleepers asleep pcs" "weight asleep = 0"
  shows "sum_list (map weight (resume S awake pcs)) = sum_list (map weight pcs) + card S * weight awake"
proof -
  let ?I = "{..<length pcs}"
  have S: "S \<subseteq> ?I" "finite S" using assms(1) finite_subset by (fastforce simp: sleepers_def)+
  have "sum_list (map weight (resume S awake pcs)) = (\<Sum>i \<in> ?I. weight (resume S awake pcs ! i))"
    by (simp add: sum_list_sum_nth atLeast0LessThan)
  also have "\<dots> = (\<Sum>i \<in> ?I. weight (pcs ! i) + (if i \<in> S then weight awake else 0))"
    using assms by (intro sum.cong) (auto simp: sleepers_def)
  also have "\<dots> = (\<Sum>i \<in> ?I. weight (pcs ! i)) + card S * weight awake"
    using S by (simp add: sum.distrib sum.If_cases Int_absorb1)
  finally show ?thesis by (simp add: sum_list_sum_nth atLeast0LessThan)
qed

lemma weight_update:
  fixes weight :: "'pc \<Rightarrow> nat"
  assumes "t < length pcs"
  shows "sum_list (map weight (pcs[t := pc])) + weight (pcs ! t) = sum_list (map weight pcs) + weight pc"
  using assms
proof (induction pcs arbitrary: t)
  case (Cons x pcs)
  then show ?case by (cases t) auto
qed simp

lemma weight_nth_le:
  fixes weight :: "'pc \<Rightarrow> nat"
  shows "t < length pcs \<Longrightarrow> weight (pcs ! t) \<le> sum_list (map weight pcs)"
  by (simp add: member_le_sum_list)

section \<open>The mutex\<close>

abbreviation (input) UNLOCKED :: u32 where "UNLOCKED \<equiv> 0"
abbreviation (input) LOCKED :: u32 where "LOCKED \<equiv> 1"
abbreviation (input) CONTENDED :: u32 where "CONTENDED \<equiv> 2"

text \<open>
  The places of \<open>lock\<close>: before the fast exchange, before the load that starts \<open>lock_contended\<close>, at
  the top of its loop with the value in the local variable, before the futex wait, asleep. \<open>MWaking\<close>
  is the place in \<open>unlock_unchecked\<close> between the swap that saw \<open>CONTENDED\<close> and the wake. The weak
  exchanges of the loop may also fail for no reason; the local variable then has the word's value.
\<close>

datatype mutex_pc = MIdle | MFast | MLoad | MLoop u32 | MWait | MAsleep | MHolds | MWaking

fun mutex_lock_next :: "u32 \<Rightarrow> mutex_pc \<Rightarrow> mutex_pc \<times> u32" where
  "mutex_lock_next word MFast = (if word = UNLOCKED then (MHolds, LOCKED) else (MLoad, word))"
| "mutex_lock_next word MLoad = (MLoop word, word)"
| "mutex_lock_next word (MLoop s) =
     (if s = UNLOCKED then (if word = UNLOCKED then (MHolds, CONTENDED) else (MLoop word, word))
      else if s \<noteq> CONTENDED then (if word = LOCKED then (MWait, CONTENDED) else (MLoop word, word))
      else (MWait, word))"
| "mutex_lock_next word MWait = (if word = CONTENDED then (MAsleep, word) else (MLoad, word))"
| "mutex_lock_next word pc = (pc, word)"

definition mutex_try_lock :: "u32 \<Rightarrow> mutex_pc \<times> u32" where
  "mutex_try_lock word = (if word = UNLOCKED then (MHolds, LOCKED) else (MIdle, word))"

definition mutex_unlock_next :: "u32 \<Rightarrow> mutex_pc \<times> u32" where
  "mutex_unlock_next word = (if word = CONTENDED then (MWaking, UNLOCKED) else (MIdle, UNLOCKED))"

record mutex_world =
  mx_word :: u32
  mx_pc :: "nat \<Rightarrow> mutex_pc"

definition mutex_start :: mutex_world where
  "mutex_start = \<lparr>mx_word = UNLOCKED, mx_pc = (\<lambda>_. MIdle)\<rparr>"

abbreviation mutex_put :: "nat \<Rightarrow> mutex_pc \<times> u32 \<Rightarrow> mutex_world \<Rightarrow> mutex_world" where
  "mutex_put t r w \<equiv> w\<lparr>mx_pc := (mx_pc w)(t := fst r), mx_word := snd r\<rparr>"

inductive mutex_step :: "bool \<Rightarrow> mutex_world \<Rightarrow> mutex_world \<Rightarrow> bool" for may_fail where
  call: "mx_pc w t = MIdle \<Longrightarrow> mutex_step may_fail w (mutex_put t (MFast, mx_word w) w)"
| locking: "mutex_step may_fail w (mutex_put t (mutex_lock_next (mx_word w) (mx_pc w t)) w)"
| spurious: "mx_pc w t = MLoop s \<Longrightarrow> s \<noteq> CONTENDED \<Longrightarrow>
     mutex_step may_fail w (mutex_put t (MLoop (mx_word w), mx_word w) w)"
| trying: "mx_pc w t = MIdle \<Longrightarrow> mutex_step may_fail w (mutex_put t (mutex_try_lock (mx_word w)) w)"
| wait_error: "may_fail \<Longrightarrow> mx_pc w t = MWait \<Longrightarrow> mutex_step may_fail w (mutex_put t (MIdle, mx_word w) w)"
| interrupted: "mx_pc w t = MAsleep \<Longrightarrow> mutex_step may_fail w (mutex_put t (MLoad, mx_word w) w)"
| unlocking: "mx_pc w t = MHolds \<Longrightarrow> mutex_step may_fail w (mutex_put t (mutex_unlock_next (mx_word w)) w)"
| wake_one: "mx_pc w t = MWaking \<Longrightarrow> mx_pc w s = MAsleep \<Longrightarrow>
     mutex_step may_fail w (w\<lparr>mx_pc := (mx_pc w)(t := MIdle, s := MLoad)\<rparr>)"
| wake_none: "mx_pc w t = MWaking \<Longrightarrow> (\<forall>s. mx_pc w s \<noteq> MAsleep) \<Longrightarrow>
     mutex_step may_fail w (w\<lparr>mx_pc := (mx_pc w)(t := MIdle)\<rparr>)"

definition mutex_inv :: "mutex_world \<Rightarrow> bool" where
  "mutex_inv w \<longleftrightarrow> (if mx_word w = UNLOCKED then \<forall>t. mx_pc w t \<noteq> MHolds
     else \<exists>t. mx_pc w t = MHolds \<and> (\<forall>u. mx_pc w u = MHolds \<longrightarrow> u = t))"

text \<open>A thread that will look at the word again without being woken.\<close>

fun mutex_awake :: "mutex_pc \<Rightarrow> bool" where
  "mutex_awake MLoad = True" | "mutex_awake (MLoop s) = True" | "mutex_awake MWait = True"
| "mutex_awake MWaking = True" | "mutex_awake _ = False"

definition mutex_wake_inv :: "mutex_world \<Rightarrow> bool" where
  "mutex_wake_inv w \<longleftrightarrow> (\<exists>t. mx_pc w t = MAsleep) \<longrightarrow> mx_word w = CONTENDED \<or> (\<exists>t. mutex_awake (mx_pc w t))"

lemma mutex_next_holds:
  assumes "mutex_lock_next word pc = (pc', word')"
  shows "(pc' = pc \<or> pc \<noteq> MHolds \<and> pc' \<noteq> MHolds) \<and> (word' = word \<or> word \<noteq> UNLOCKED \<and> word' \<noteq> UNLOCKED)
     \<or> pc \<noteq> MHolds \<and> pc' = MHolds \<and> word = UNLOCKED \<and> word' \<noteq> UNLOCKED"
  using assms by (cases pc) (auto split: if_splits)

lemma mutex_inv_put:
  assumes "mutex_inv w"
    and "(pc' = mx_pc w t \<or> mx_pc w t \<noteq> MHolds \<and> pc' \<noteq> MHolds) \<and> (word' = mx_word w \<or> mx_word w \<noteq> UNLOCKED \<and> word' \<noteq> UNLOCKED)
     \<or> mx_pc w t \<noteq> MHolds \<and> pc' = MHolds \<and> mx_word w = UNLOCKED \<and> word' \<noteq> UNLOCKED
     \<or> mx_pc w t = MHolds \<and> pc' \<noteq> MHolds \<and> word' = UNLOCKED"
  shows "mutex_inv (mutex_put t (pc', word') w)"
  using assms unfolding mutex_inv_def by (auto split: if_splits)

lemma mutex_inv_pc:
  assumes "mutex_inv w" "mx_pc w t \<noteq> MHolds" "pc' \<noteq> MHolds"
  shows "mutex_inv (w\<lparr>mx_pc := (mx_pc w)(t := pc')\<rparr>)"
  using mutex_inv_put [OF assms(1), of pc' t "mx_word w"] assms(2,3) by simp

lemma mutex_step_inv:
  assumes inv: "mutex_inv w" and st: "mutex_step mf w w'"
  shows "mutex_inv w'"
  using st
proof (cases rule: mutex_step.cases)
  case (locking t)
  obtain pc' word' where n: "mutex_lock_next (mx_word w) (mx_pc w t) = (pc', word')" by fastforce
  have "mutex_inv (mutex_put t (pc', word') w)" using mutex_next_holds [OF n] by (intro mutex_inv_put [OF inv]) blast
  then show ?thesis using locking n by simp
next
  case (wake_one t s)
  have "mutex_inv (mutex_put s (MLoad, mx_word w) (mutex_put t (MIdle, mx_word w) w))"
    using wake_one(2,3) by (intro mutex_inv_put inv) auto
  then show ?thesis using wake_one by simp
next
  case (trying t)
  obtain pc' word' where n: "mutex_try_lock (mx_word w) = (pc', word')" by fastforce
  have "mutex_inv (mutex_put t (pc', word') w)"
    using n trying(2) by (intro mutex_inv_put [OF inv]) (auto simp: mutex_try_lock_def split: if_splits)
  then show ?thesis using trying n by simp
next
  case (unlocking t)
  obtain pc' word' where n: "mutex_unlock_next (mx_word w) = (pc', word')" by fastforce
  have "mutex_inv (mutex_put t (pc', word') w)"
    using n unlocking(2) by (intro mutex_inv_put [OF inv]) (auto simp: mutex_unlock_next_def split: if_splits)
  then show ?thesis using unlocking n by simp
qed (use inv in \<open>simp_all add: mutex_inv_pc\<close>)

text \<open>
  One step of one thread keeps the wake invariant when it leaves the word contended, leaves the
  thread awake, or neither puts it to sleep nor loses an awake thread.
\<close>

lemma mutex_wake_put:
  assumes "mutex_wake_inv w"
    and "word' = CONTENDED \<or> mutex_awake pc' \<or> (mx_word w \<noteq> CONTENDED \<or> word' = mx_word w) \<and> pc' \<noteq> MAsleep
       \<and> \<not> mutex_awake (mx_pc w t)"
  shows "mutex_wake_inv (mutex_put t (pc', word') w)"
proof -
  have "\<exists>u. mutex_awake (((mx_pc w)(t := pc')) u)"
    if "word' \<noteq> CONTENDED" "((mx_pc w)(t := pc')) s = MAsleep" for s
  proof (cases "mutex_awake pc'")
    case False
    then have f: "mx_word w \<noteq> CONTENDED" "pc' \<noteq> MAsleep" "\<not> mutex_awake (mx_pc w t)"
      using assms(2) that(1) by auto
    then have "mx_pc w s = MAsleep" using that(2) by (auto split: if_splits)
    then obtain u where "mutex_awake (mx_pc w u)" using assms(1) f(1) unfolding mutex_wake_inv_def by blast
    then show ?thesis using f(3) by (metis fun_upd_apply)
  qed (auto intro: exI [of _ t])
  then show ?thesis unfolding mutex_wake_inv_def by (simp del: fun_upd_apply) blast
qed

lemma mutex_next_wake:
  assumes "mutex_lock_next word pc = (pc', word')"
  shows "pc' = pc \<and> word' = word \<or> word' = CONTENDED \<or> mutex_awake pc'
    \<or> word \<noteq> CONTENDED \<and> pc' \<noteq> MAsleep \<and> \<not> mutex_awake pc"
  using assms by (cases pc) (auto split: if_splits)

lemma mutex_step_wake_inv:
  assumes inv: "mutex_wake_inv w" and st: "mutex_step False w w'"
  shows "mutex_wake_inv w'"
  using st
proof (cases rule: mutex_step.cases)
  case (locking t)
  obtain pc' word' where n: "mutex_lock_next (mx_word w) (mx_pc w t) = (pc', word')" by fastforce
  show ?thesis
  proof (cases "pc' = mx_pc w t \<and> word' = mx_word w")
    case True
    then show ?thesis using locking n inv by simp
  next
    case False
    then have "mutex_wake_inv (mutex_put t (pc', word') w)"
      using mutex_next_wake [OF n] by (intro mutex_wake_put [OF inv]) auto
    then show ?thesis using locking n by simp
  qed
next
  case (trying t)
  obtain pc' word' where n: "mutex_try_lock (mx_word w) = (pc', word')" by fastforce
  have "mutex_wake_inv (mutex_put t (pc', word') w)"
    using n trying(2) by (intro mutex_wake_put [OF inv]) (auto simp: mutex_try_lock_def split: if_splits)
  then show ?thesis using trying n by simp
next
  case (unlocking t)
  obtain pc' word' where n: "mutex_unlock_next (mx_word w) = (pc', word')" by fastforce
  have "mutex_wake_inv (mutex_put t (pc', word') w)"
    using n unlocking(2) by (intro mutex_wake_put [OF inv]) (auto simp: mutex_unlock_next_def split: if_splits)
  then show ?thesis using unlocking n by simp
next
  case (wake_one t s)
  then have "mutex_awake (mx_pc w' s)" by simp
  then show ?thesis unfolding mutex_wake_inv_def by blast
next
  case (wake_none t)
  then have "mx_pc w' u \<noteq> MAsleep" for u by simp
  then show ?thesis unfolding mutex_wake_inv_def by blast
next
  case (call t)
  then show ?thesis using mutex_wake_put [OF inv, of "mx_word w" MFast t] by simp
next
  case (spurious t s)
  then show ?thesis using mutex_wake_put [OF inv, of "mx_word w" "MLoop (mx_word w)" t] by simp
next
  case (interrupted t)
  then show ?thesis using mutex_wake_put [OF inv, of "mx_word w" MLoad t] by simp
qed simp

interpretation futex_mutex: inductive_invariant "\<lambda>w. w = mutex_start" "mutex_step mf" mutex_inv for mf
proof unfold_locales
  show "mutex_inv w" if "w = mutex_start" for w using that by (simp add: mutex_inv_def mutex_start_def)
qed (rule mutex_step_inv)

interpretation futex_mutex_wake: inductive_invariant "\<lambda>w. w = mutex_start" "mutex_step False" mutex_wake_inv
proof unfold_locales
  show "mutex_wake_inv w" if "w = mutex_start" for w using that by (simp add: mutex_wake_inv_def mutex_start_def)
qed (rule mutex_step_wake_inv)

subsection \<open>Properties of the mutex\<close>

text \<open>
  C18. At most one thread holds the futex mutex, and a thread holds it exactly while the word is not
  \<open>UNLOCKED\<close>, in every interleaving of lock, try_lock and unlock calls and whatever errors and
  interruptions the futex calls report.
\<close>

theorem futex_mutex_exclusive:
  assumes "reaches (mutex_step mf) mutex_start w"
  shows "(mx_pc w t = MHolds \<longrightarrow> mx_pc w u = MHolds \<longrightarrow> t = u)
    \<and> (mx_word w = UNLOCKED \<longleftrightarrow> (\<forall>s. mx_pc w s \<noteq> MHolds))"
proof -
  have inv: "mutex_inv w" using futex_mutex.reachable_inv [OF _ assms] by blast
  then have "mx_word w = UNLOCKED \<longleftrightarrow> (\<forall>s. mx_pc w s \<noteq> MHolds)" by (auto simp: mutex_inv_def split: if_splits)
  moreover have "mx_pc w t = MHolds \<longrightarrow> mx_pc w u = MHolds \<longrightarrow> t = u"
    using inv unfolding mutex_inv_def by (metis (full_types))
  ultimately show ?thesis by blast
qed

text \<open>Thread 0 takes the free lock; thread 1 finds it taken, marks it contended and sleeps.\<close>

definition mutex_demo :: mutex_world where
  "mutex_demo = \<lparr>mx_word = CONTENDED, mx_pc = (\<lambda>_. MIdle)(0 := MHolds, 1 := MAsleep)\<rparr>"

lemma mutex_demo_reached: "reaches (mutex_step mf) mutex_start mutex_demo"
proof -
  let ?w = "\<lambda>x p q. \<lparr>mx_word = x, mx_pc = (\<lambda>_. MIdle)(0 := p, 1 := q)\<rparr>"
  have "reaches (mutex_step mf) mutex_start (?w 0 MIdle MIdle)"
  proof -
    have "mutex_start = ?w 0 MIdle MIdle" by (simp add: mutex_start_def fun_eq_iff)
    then show ?thesis by (simp only: reaches.base)
  qed
  also have "mutex_step mf (?w 0 MIdle MIdle) (?w 0 MFast MIdle)"
    using mutex_step.call [of "?w 0 MIdle MIdle" 0] by (simp add: fun_upd_twist)
  also have "mutex_step mf (?w 0 MFast MIdle) (?w 1 MHolds MIdle)"
    using mutex_step.locking [of mf "?w 0 MFast MIdle" 0] by (simp add: fun_upd_twist)
  also have "mutex_step mf (?w 1 MHolds MIdle) (?w 1 MHolds MFast)"
    using mutex_step.call [of "?w 1 MHolds MIdle" 1] by simp
  also have "mutex_step mf (?w 1 MHolds MFast) (?w 1 MHolds MLoad)"
    using mutex_step.locking [of mf "?w 1 MHolds MFast" 1] by simp
  also have "mutex_step mf (?w 1 MHolds MLoad) (?w 1 MHolds (MLoop 1))"
    using mutex_step.locking [of mf "?w 1 MHolds MLoad" 1] by simp
  also have "mutex_step mf (?w 1 MHolds (MLoop 1)) (?w 2 MHolds MWait)"
    using mutex_step.locking [of mf "?w 1 MHolds (MLoop 1)" 1] by simp
  also have "mutex_step mf (?w 2 MHolds MWait) mutex_demo"
    using mutex_step.locking [of mf "?w 2 MHolds MWait" 1] by (simp add: mutex_demo_def)
  finally show ?thesis .
qed

theorem futex_mutex_exclusive_witness:
  "mx_pc mutex_demo 0 = MHolds \<and> mx_pc mutex_demo 1 \<noteq> MHolds \<and> mx_word mutex_demo \<noteq> UNLOCKED"
proof -
  have "mx_pc mutex_demo 0 = MHolds" by (simp add: mutex_demo_def)
  then show ?thesis using futex_mutex_exclusive [OF mutex_demo_reached, of 0 1] by auto
qed

text \<open>
  C19. No wakeup of the futex mutex is lost: while the futex waits themselves do not fail, a thread is
  asleep only if either the lock is held and marked \<open>CONTENDED\<close>, so that the unlock will wake a
  sleeper, or some thread is still on its way to look at the word again or to wake a sleeper. So
  once every running lock and unlock call has come to rest, a sleeper implies a holder.
\<close>

theorem futex_mutex_no_lost_wakeup:
  assumes "reaches (mutex_step False) mutex_start w" and "mx_pc w s = MAsleep"
  shows "(mx_word w = CONTENDED \<and> (\<exists>t. mx_pc w t = MHolds)) \<or> (\<exists>t. mutex_awake (mx_pc w t))"
proof -
  have "mutex_wake_inv w" using futex_mutex_wake.reachable_inv [OF _ assms(1)] by blast
  moreover have "mutex_inv w" using futex_mutex.reachable_inv [OF _ assms(1)] by blast
  ultimately show ?thesis using assms(2) by (auto simp: mutex_wake_inv_def mutex_inv_def)
qed

theorem futex_mutex_no_lost_wakeup_witness:
  "mx_pc mutex_demo 1 = MAsleep \<and> (mx_word mutex_demo = CONTENDED \<and> (\<exists>t. mx_pc mutex_demo t = MHolds)
     \<or> (\<exists>t. mutex_awake (mx_pc mutex_demo t)))"
proof -
  have "mx_pc mutex_demo 1 = MAsleep" by (simp add: mutex_demo_def)
  then show ?thesis using futex_mutex_no_lost_wakeup [OF mutex_demo_reached] by blast
qed

end
