(* ===== verification/Sync_Semaphore.thy ===== *)
theory Sync_Semaphore
  imports Sync_Futex
begin

text \<open>
  The counting semaphore of the Linux backend (\<open>LinuxSemaphore\<close> in
  \<open>fusion-pal/pal/hosted/linux/sync/sync.rs\<close>, wrapped without change by
  \<open>fusion-sys/sync/semaphore.rs\<close>).

  Threads interleave one atomic access at a time; \<open>sm_acquired\<close> counts the acquires that succeeded
  since construction and \<open>sm_released\<close> adds up the arguments of the releases that did. Both follow the
  places of the threads alone, never the permit word, and are read by no operation.
\<close>

section \<open>Model\<close>

record semaphore =
  sm_permits :: u32
  sm_max :: u32

definition semaphore_new :: "u32 \<Rightarrow> u32 \<Rightarrow> (semaphore, sync_error_kind) result" where
  "semaphore_new initial mx =
     (if mx = 0 \<or> initial > mx then Err SyncInvalid else Ok \<lparr>sm_permits = initial, sm_max = mx\<rparr>)"

text \<open>
  The places of \<open>acquire\<close> (\<open>SAcqLoad\<close>, \<open>SAcqTry\<close>, \<open>SAcqWait\<close>, \<open>SAsleep\<close>), of \<open>try_acquire\<close>
  (\<open>STryLoad\<close>, \<open>STry\<close>) and of \<open>release\<close> (\<open>SRelLoad\<close>, \<open>SRelTry\<close>, \<open>SWaking\<close>); \<open>SDone\<close> carries what the
  call returned, with \<open>True\<close> for a permit.
\<close>

datatype sem_pc = SIdle | SAcqLoad | SAcqTry u32 | SAcqWait | SAsleep | STryLoad | STry u32
  | SRelLoad u32 | SRelTry u32 u32 | SWaking u32 | SDone "(bool, sync_error_kind) result"

definition u32_checked_add :: "u32 \<Rightarrow> u32 \<Rightarrow> u32 option" where
  "u32_checked_add a b = (if unat a + unat b < 2 ^ 32 then Some (a + b) else None)"

definition release_call :: "u32 \<Rightarrow> sem_pc" where
  "release_call n = (if n = 0 then SDone (Err SyncInvalid) else SRelLoad n)"

text \<open>\<open>release_next\<close> is the top of the loop of \<open>release\<close>: the two overflow checks, then the exchange.\<close>

definition release_next :: "semaphore \<Rightarrow> u32 \<Rightarrow> u32 \<Rightarrow> sem_pc \<times> semaphore" where
  "release_next s n current = (case u32_checked_add current n of
      None \<Rightarrow> (SDone (Err SyncOverflow), s)
    | Some next \<Rightarrow> if next > sm_max s then (SDone (Err SyncOverflow), s)
        else if sm_permits s = current then (SWaking n, s\<lparr>sm_permits := next\<rparr>)
        else (SRelTry n (sm_permits s), s))"

fun sem_next :: "semaphore \<Rightarrow> sem_pc \<Rightarrow> sem_pc \<times> semaphore" where
  "sem_next s SAcqLoad = (if sm_permits s = 0 then SAcqWait else SAcqTry (sm_permits s), s)"
| "sem_next s (SAcqTry current) = (if sm_permits s = current
     then (SDone (Ok True), s\<lparr>sm_permits := current - 1\<rparr>) else (SAcqLoad, s))"
| "sem_next s SAcqWait = (if sm_permits s = 0 then SAsleep else SAcqLoad, s)"
| "sem_next s STryLoad = (if sm_permits s = 0 then SDone (Ok False) else STry (sm_permits s), s)"
| "sem_next s (STry current) = (if sm_permits s = current
     then (SDone (Ok True), s\<lparr>sm_permits := current - 1\<rparr>)
     else (if sm_permits s = 0 then SDone (Ok False) else STry (sm_permits s), s))"
| "sem_next s (SRelLoad n) = (SRelTry n (sm_permits s), s)"
| "sem_next s (SRelTry n current) = release_next s n current"
| "sem_next s pc = (pc, s)"

text \<open>A weak exchange that fails for no reason.\<close>

fun sem_spurious :: "semaphore \<Rightarrow> sem_pc \<Rightarrow> sem_pc" where
  "sem_spurious s (SAcqTry current) = SAcqLoad"
| "sem_spurious s (STry current) = (if sm_permits s = 0 then SDone (Ok False) else STry (sm_permits s))"
| "sem_spurious s (SRelTry n current) = SRelTry n (sm_permits s)"
| "sem_spurious s pc = pc"

record sem_world =
  sem_state :: semaphore
  sem_pcs :: "sem_pc list"
  sm_acquired :: nat
  sm_released :: nat

text \<open>
  The step of a thread that turns its \<open>acquire\<close> or \<open>try_acquire\<close> into a success, and the one that does
  so for its \<open>release\<close>, with the argument of that call.
\<close>

fun acquires :: "sem_pc \<Rightarrow> sem_pc \<Rightarrow> nat" where
  "acquires (SAcqTry c) pc = of_bool (pc = SDone (Ok True))"
| "acquires (STry c) pc = of_bool (pc = SDone (Ok True))"
| "acquires pc pc' = 0"

fun releases :: "sem_pc \<Rightarrow> sem_pc \<Rightarrow> nat" where
  "releases (SRelTry n c) (SWaking k) = unat n"
| "releases pc pc' = 0"

definition sem_start :: "nat \<Rightarrow> semaphore \<Rightarrow> sem_world" where
  "sem_start n s = \<lparr>sem_state = s, sem_pcs = replicate n SIdle, sm_acquired = 0, sm_released = 0\<rparr>"

definition sem_put :: "nat \<Rightarrow> sem_pc \<times> semaphore \<Rightarrow> sem_world \<Rightarrow> sem_world" where
  "sem_put t r w = w\<lparr>sem_pcs := (sem_pcs w)[t := fst r], sem_state := snd r,
     sm_acquired := sm_acquired w + acquires (sem_pcs w ! t) (fst r),
     sm_released := sm_released w + releases (sem_pcs w ! t) (fst r)\<rparr>"

inductive sem_step :: "(u32 \<Rightarrow> nat) \<Rightarrow> bool \<Rightarrow> sem_world \<Rightarrow> sem_world \<Rightarrow> bool" for wc may_fail where
  acquire: "t < length (sem_pcs w) \<Longrightarrow> sem_pcs w ! t = SIdle \<Longrightarrow>
     sem_step wc may_fail w (sem_put t (SAcqLoad, sem_state w) w)"
| try_acquire: "t < length (sem_pcs w) \<Longrightarrow> sem_pcs w ! t = SIdle \<Longrightarrow>
     sem_step wc may_fail w (sem_put t (STryLoad, sem_state w) w)"
| release: "t < length (sem_pcs w) \<Longrightarrow> sem_pcs w ! t = SIdle \<Longrightarrow>
     sem_step wc may_fail w (sem_put t (release_call n, sem_state w) w)"
| running: "t < length (sem_pcs w) \<Longrightarrow>
     sem_step wc may_fail w (sem_put t (sem_next (sem_state w) (sem_pcs w ! t)) w)"
| spurious: "t < length (sem_pcs w) \<Longrightarrow>
     sem_step wc may_fail w (sem_put t (sem_spurious (sem_state w) (sem_pcs w ! t), sem_state w) w)"
| wait_error: "may_fail \<Longrightarrow> t < length (sem_pcs w) \<Longrightarrow> sem_pcs w ! t = SAcqWait \<Longrightarrow>
     sem_step wc may_fail w (sem_put t (SDone (Err e), sem_state w) w)"
| interrupted: "t < length (sem_pcs w) \<Longrightarrow> sem_pcs w ! t = SAsleep \<Longrightarrow>
     sem_step wc may_fail w (sem_put t (SAcqLoad, sem_state w) w)"
| waking: "t < length (sem_pcs w) \<Longrightarrow> sem_pcs w ! t = SWaking n \<Longrightarrow>
     wakes_up_to (wc n) SAsleep (sem_pcs w) S \<Longrightarrow>
     sem_step wc may_fail w (w\<lparr>sem_pcs := (resume S SAcqLoad (sem_pcs w))[t := SDone (Ok True)]\<rparr>)"
| returned: "t < length (sem_pcs w) \<Longrightarrow> sem_pcs w ! t = SDone r \<Longrightarrow>
     sem_step wc may_fail w (sem_put t (SIdle, sem_state w) w)"

section \<open>Invariants\<close>

text \<open>
  Every value a thread carries is within the maximum, the word is, and the permits add up.
\<close>

fun sem_pc_ok :: "u32 \<Rightarrow> sem_pc \<Rightarrow> bool" where
  "sem_pc_ok mx (SAcqTry c) = (c \<noteq> 0)"
| "sem_pc_ok mx (STry c) = (c \<noteq> 0)"
| "sem_pc_ok mx (SRelLoad n) = (n \<noteq> 0)"
| "sem_pc_ok mx (SRelTry n c) = (n \<noteq> 0)"
| "sem_pc_ok mx (SWaking n) = (n \<noteq> 0 \<and> n \<le> mx)"
| "sem_pc_ok mx pc = True"

definition sem_inv :: "semaphore \<Rightarrow> sem_world \<Rightarrow> bool" where
  "sem_inv s0 w \<longleftrightarrow> sm_max (sem_state w) = sm_max s0 \<and> sm_permits (sem_state w) \<le> sm_max s0
     \<and> unat (sm_permits (sem_state w)) + sm_acquired w = unat (sm_permits s0) + sm_released w
     \<and> (\<forall>pc \<in> set (sem_pcs w). sem_pc_ok (sm_max s0) pc)"

text \<open>
  How many permits the threads that are not asleep will still look at: one for each thread in
  \<open>acquire\<close>, the count of every wake that is still to be issued.
\<close>

fun sem_weight :: "sem_pc \<Rightarrow> nat" where
  "sem_weight SAcqLoad = 1" | "sem_weight (SAcqTry c) = 1" | "sem_weight SAcqWait = 1"
| "sem_weight (SWaking n) = unat n" | "sem_weight pc = 0"

definition sem_wake_inv :: "sem_world \<Rightarrow> bool" where
  "sem_wake_inv w \<longleftrightarrow> sleepers SAsleep (sem_pcs w) = {}
     \<or> unat (sm_permits (sem_state w)) \<le> sum_list (map sem_weight (sem_pcs w))"

lemma u32_checked_add_Some:
  "u32_checked_add a b = Some c \<longleftrightarrow> unat a + unat b < 2 ^ 32 \<and> c = a + b"
  by (auto simp: u32_checked_add_def)

lemma u32_checked_add_unat: "u32_checked_add a b = Some c \<Longrightarrow> unat c = unat a + unat b"
  by (auto simp: u32_checked_add_Some unat_word_ariths)

lemma unat_pred: "c \<noteq> (0 :: u32) \<Longrightarrow> unat (c - 1) + 1 = unat c"
  by (simp add: unat_minus_one unat_gt_0 Suc_leI)

text \<open>What one access does to the word: nothing, take one permit, or put \<open>n\<close> back.\<close>

lemma sem_next_cases:
  assumes "sem_next s pc = (pc', s')" "sem_pc_ok (sm_max s) pc"
  obtains (same) "s' = s" "sem_pc_ok (sm_max s) pc'"
      "sem_weight pc \<le> sem_weight pc' \<or> sm_permits s = 0" "pc' = SAsleep \<longrightarrow> pc = SAsleep \<or> sm_permits s = 0"
      "acquires pc pc' = 0" "releases pc pc' = 0"
    | (take) "pc' = SDone (Ok True)" "s' = s\<lparr>sm_permits := sm_permits s - 1\<rparr>" "sm_permits s \<noteq> 0" "sem_weight pc \<le> 1"
        "acquires pc pc' = 1" "releases pc pc' = 0"
    | (put) n where "pc' = SWaking n" "s' = s\<lparr>sm_permits := sm_permits s + n\<rparr>" "n \<noteq> 0"
        "unat (sm_permits s + n) = unat (sm_permits s) + unat n" "sm_permits s + n \<le> sm_max s" "sem_weight pc = 0"
        "acquires pc pc' = 0" "releases pc pc' = unat n"
proof (cases "\<exists>n c. pc = SRelTry n c")
  case True
  then obtain n c where pc: "pc = SRelTry n c" by blast
  show thesis
  proof (cases "pc' = SWaking n")
    case True
    then obtain m where m: "u32_checked_add c n = Some m" "m \<le> sm_max s" "sm_permits s = c" "s' = s\<lparr>sm_permits := m\<rparr>"
      using assms(1) pc by (auto simp: release_next_def not_less split: option.splits if_splits)
    have "m = sm_permits s + n" using m(1,3) by (simp add: u32_checked_add_Some)
    then show thesis using put [OF True] m assms(2) pc True u32_checked_add_unat [OF m(1)] by simp
  next
    case False
    then show thesis using same assms pc by (auto simp: release_next_def split: option.splits if_splits)
  qed
next
  case False
  show thesis
  proof (cases "pc' = SDone (Ok True) \<and> pc \<noteq> pc'")
    case True
    then show thesis using take assms False by (cases pc) (auto split: if_splits)
  next
    case n: False
    then show thesis using same assms False by (cases pc) (auto split: if_splits)
  qed
qed

lemma sem_put_simps [simp]:
  "sem_state (sem_put t r w) = snd r" "sem_pcs (sem_put t r w) = (sem_pcs w)[t := fst r]"
  "sm_acquired (sem_put t r w) = sm_acquired w + acquires (sem_pcs w ! t) (fst r)"
  "sm_released (sem_put t r w) = sm_released w + releases (sem_pcs w ! t) (fst r)"
  by (simp_all add: sem_put_def)

lemma sem_inv_pcs:
  assumes "sem_inv s0 w" "sem_pc_ok (sm_max s0) pc" "acquires (sem_pcs w ! t) pc = 0" "releases (sem_pcs w ! t) pc = 0"
  shows "sem_inv s0 (sem_put t (pc, sem_state w) w)"
  using assms set_update_subset_insert [of "sem_pcs w" t pc] unfolding sem_inv_def by auto

lemma sem_inv_nth:
  assumes "sem_inv s0 w" "t < length (sem_pcs w)"
  shows "sem_pc_ok (sm_max (sem_state w)) (sem_pcs w ! t)"
  using assms unfolding sem_inv_def by auto

lemma sem_next_inv:
  assumes inv: "sem_inv s0 w" and t: "t < length (sem_pcs w)"
  shows "sem_inv s0 (sem_put t (sem_next (sem_state w) (sem_pcs w ! t)) w)"
proof -
  obtain pc' s' where n: "sem_next (sem_state w) (sem_pcs w ! t) = (pc', s')" by fastforce
  have mx: "sm_max (sem_state w) = sm_max s0" "sm_permits (sem_state w) \<le> sm_max s0"
    "unat (sm_permits (sem_state w)) + sm_acquired w = unat (sm_permits s0) + sm_released w"
    and ok: "\<forall>pc \<in> set (sem_pcs w). sem_pc_ok (sm_max s0) pc"
    using inv by (simp_all add: sem_inv_def)
  have ok': "\<forall>pc \<in> set ((sem_pcs w)[t := pc']). sem_pc_ok (sm_max s0) pc" if "sem_pc_ok (sm_max s0) pc'"
    using ok that set_update_subset_insert [of "sem_pcs w" t pc'] by blast
  from n sem_inv_nth [OF inv t] show ?thesis
  proof (cases rule: sem_next_cases)
    case same
    then show ?thesis using n mx ok' by (simp add: sem_inv_def)
  next
    case take
    have p: "unat (sm_permits (sem_state w) - 1) + 1 = unat (sm_permits (sem_state w))" using unat_pred take(3) by simp
    then have "sm_permits (sem_state w) - 1 \<le> sm_max s0" using mx(2) by (simp add: word_le_nat_alt)
    then show ?thesis using n mx ok' p take by (simp add: sem_inv_def)
  next
    case (put k)
    have "k \<le> sm_max s0" using put(4,5) mx(1) by (simp add: word_le_nat_alt)
    then show ?thesis using n mx ok' put by (simp add: sem_inv_def)
  qed
qed

lemma sem_spurious_ok:
  "sem_pc_ok mx pc \<Longrightarrow> sem_pc_ok mx (sem_spurious s pc)"
  "acquires pc (sem_spurious s pc) = 0" "releases pc (sem_spurious s pc) = 0"
  by (cases pc; auto)+

lemma sem_step_inv:
  assumes inv: "sem_inv s0 w" and st: "sem_step wc mf w w'"
  shows "sem_inv s0 w'"
  using st
proof (cases rule: sem_step.cases)
  case (running t)
  then show ?thesis using sem_next_inv [OF inv] by simp
next
  case (spurious t)
  have "sem_pc_ok (sm_max s0) (sem_pcs w ! t)" using sem_inv_nth [OF inv spurious(2)] inv by (simp add: sem_inv_def)
  then show ?thesis using spurious(1) sem_inv_pcs [OF inv] sem_spurious_ok by simp
next
  case (waking t n S)
  have "set ((resume S SAcqLoad (sem_pcs w))[t := SDone (Ok True)]) \<subseteq> insert (SDone (Ok True)) (insert SAcqLoad (set (sem_pcs w)))"
    by (rule order.trans [OF set_update_subset_insert]) (auto simp: resume_def)
  then show ?thesis using inv waking(1) unfolding sem_inv_def by fastforce
qed (use inv in \<open>simp_all add: sem_inv_pcs release_call_def\<close>)

lemma sem_wake_put:
  assumes inv: "sem_wake_inv w" and t: "t < length (sem_pcs w)"
    and "sem_weight (sem_pcs w ! t) \<le> sem_weight pc" "pc \<noteq> SAsleep"
  shows "sem_wake_inv (sem_put t (pc, sem_state w) w)"
proof -
  have "sum_list (map sem_weight (sem_pcs w)) \<le> sum_list (map sem_weight ((sem_pcs w)[t := pc]))"
    using weight_update [OF t, of sem_weight pc] assms(3) by linarith
  then show ?thesis using inv assms(4) t by (auto simp: sem_wake_inv_def sleepers_update)
qed

lemma sem_next_wake:
  assumes inv: "sem_inv s0 w" and wake: "sem_wake_inv w" and t: "t < length (sem_pcs w)"
  shows "sem_wake_inv (sem_put t (sem_next (sem_state w) (sem_pcs w ! t)) w)"
proof -
  obtain pc' s' where n: "sem_next (sem_state w) (sem_pcs w ! t) = (pc', s')" by fastforce
  note up = weight_update [OF t, of sem_weight pc']
  have emp: "sleepers SAsleep ((sem_pcs w)[t := pc']) = {}" if "sleepers SAsleep (sem_pcs w) = {}" "pc' \<noteq> SAsleep"
    using that t by (simp add: sleepers_update)
  from n sem_inv_nth [OF inv t] show ?thesis
  proof (cases rule: sem_next_cases)
    case same
    show ?thesis
    proof (cases "sm_permits (sem_state w) = 0")
      case True
      then show ?thesis using n same(1) by (simp add: sem_wake_inv_def)
    next
      case False
      have "sum_list (map sem_weight (sem_pcs w)) \<le> sum_list (map sem_weight ((sem_pcs w)[t := pc']))"
        using up same(3) False by linarith
      moreover have "sleepers SAsleep ((sem_pcs w)[t := pc']) = {}" if e: "sleepers SAsleep (sem_pcs w) = {}"
      proof -
        have "sem_pcs w ! t \<noteq> SAsleep" using e t by (auto simp: sleepers_def)
        then show ?thesis using emp e same(4) False by blast
      qed
      ultimately show ?thesis using n same(1) wake by (auto simp: sem_wake_inv_def)
    qed
  next
    case take
    have p: "unat (sm_permits (sem_state w) - 1) + 1 = unat (sm_permits (sem_state w))" using unat_pred take(3) by simp
    then show ?thesis using n wake emp take up by (auto simp: sem_wake_inv_def)
  next
    case (put k)
    then show ?thesis using n wake emp up by (auto simp: sem_wake_inv_def)
  qed
qed

lemma sem_waking_wake:
  assumes inv: "sem_inv s0 w" and wake: "sem_wake_inv w" and t: "t < length (sem_pcs w)"
    and pc: "sem_pcs w ! t = SWaking n" and S: "wakes_up_to (wc n) SAsleep (sem_pcs w) S"
    and law: "futex_wake_law wc" "sm_max s0 \<le> i32_max"
  shows "sem_wake_inv (w\<lparr>sem_pcs := (resume S SAcqLoad (sem_pcs w))[t := SDone (Ok True)]\<rparr>)"
proof -
  let ?p = "resume S SAcqLoad (sem_pcs w)"
  have "n \<noteq> 0" "n \<le> i32_max" using sem_inv_nth [OF inv t] inv law(2) pc by (auto simp: sem_inv_def)
  then have n: "wc n = unat n" using law(1) by (simp add: futex_wake_law_def word_gt_0)
  have sub: "S \<subseteq> sleepers SAsleep (sem_pcs w)" and tS: "t \<notin> S"
    using S pc by (auto simp: wakes_up_to_def sleepers_def)
  show ?thesis
  proof (cases "card (sleepers SAsleep (sem_pcs w)) \<le> unat n")
    case True
    then have "S = sleepers SAsleep (sem_pcs w)" using wakes_all [OF S] n by simp
    then have "sleepers SAsleep ?p = {}" using resume_all [of SAcqLoad SAsleep] by simp
    then show ?thesis using t by (simp add: sem_wake_inv_def sleepers_update)
  next
    case False
    then have card: "card S = unat n" "sleepers SAsleep (sem_pcs w) \<noteq> {}" using S n by (auto simp: wakes_up_to_def)
    have "sum_list (map sem_weight (?p[t := SDone (Ok True)])) + unat n = sum_list (map sem_weight ?p)"
      using weight_update [of t ?p sem_weight "SDone (Ok True)"] t tS pc by simp
    moreover have "sum_list (map sem_weight ?p) = sum_list (map sem_weight (sem_pcs w)) + unat n"
      using weight_resume [OF sub, of sem_weight SAcqLoad] card(1) by simp
    ultimately show ?thesis using wake card(2) by (simp add: sem_wake_inv_def)
  qed
qed

lemma sem_step_wake_inv:
  assumes inv: "sem_inv s0 w" and wake: "sem_wake_inv w" and st: "sem_step wc False w w'"
    and law: "futex_wake_law wc" "sm_max s0 \<le> i32_max"
  shows "sem_wake_inv w'"
  using st
proof (cases rule: sem_step.cases)
  case (running t)
  then show ?thesis using sem_next_wake [OF inv wake] by simp
next
  case (waking t n S)
  then show ?thesis using sem_waking_wake [OF inv wake _ _ _ law] by simp
next
  case (spurious t)
  then show ?thesis
  proof (cases "sem_pcs w ! t = SAsleep")
    case True
    then have "(sem_pcs w)[t := SAsleep] = sem_pcs w" by (metis list_update_id)
    then show ?thesis using spurious True wake by (simp add: sem_wake_inv_def)
  next
    case False
    then have "sem_weight (sem_pcs w ! t) \<le> sem_weight (sem_spurious (sem_state w) (sem_pcs w ! t))"
      "sem_spurious (sem_state w) (sem_pcs w ! t) \<noteq> SAsleep" by (cases "sem_pcs w ! t"; simp)+
    then show ?thesis using spurious sem_wake_put [OF wake] by simp
  qed
qed (use sem_wake_put [OF wake] in \<open>simp_all add: release_call_def\<close>)

interpretation sem_sys: inductive_invariant "\<lambda>w. \<exists>n. w = sem_start n s0 \<and> sm_permits s0 \<le> sm_max s0" "sem_step wc mf" "sem_inv s0" for s0 wc mf
proof unfold_locales
  show "sem_inv s0 w" if "\<exists>n. w = sem_start n s0 \<and> sm_permits s0 \<le> sm_max s0" for w
    using that by (auto simp: sem_inv_def sem_start_def)
qed (rule sem_step_inv)

interpretation sem_wake_sys: inductive_invariant
  "\<lambda>w. \<exists>n. w = sem_start n s0 \<and> sm_permits s0 \<le> sm_max s0" "sem_step wc False"
  "\<lambda>w. sem_inv s0 w \<and> (futex_wake_law wc \<longrightarrow> sm_max s0 \<le> i32_max \<longrightarrow> sem_wake_inv w)" for s0 wc
proof unfold_locales
  fix w assume w: "\<exists>n. w = sem_start n s0 \<and> sm_permits s0 \<le> sm_max s0"
  then have "sem_wake_inv w" by (auto simp: sem_wake_inv_def sem_start_def sleepers_def)
  then show "sem_inv s0 w \<and> (futex_wake_law wc \<longrightarrow> sm_max s0 \<le> i32_max \<longrightarrow> sem_wake_inv w)"
    using sem_sys.init_inv w by blast
qed (use sem_step_inv sem_step_wake_inv in blast)

section \<open>Properties\<close>

text \<open>
  C31. A semaphore never holds more permits than its maximum and never loses or invents one: in
  every interleaving of acquires, try_acquires and releases of any counts, the word holds what it
  started with, less one for every acquire or try_acquire that succeeded, plus the argument of every
  release that succeeded, whatever the futex calls report and however a wake chooses among the
  sleepers. The two sums follow the calls, not the word.
\<close>

theorem semaphore_permits_conserved:
  assumes "semaphore_new initial mx = Ok s0" and "reaches (sem_step wc mf) (sem_start n s0) w"
  shows "sm_permits (sem_state w) \<le> mx \<and> unat (sm_permits (sem_state w)) + sm_acquired w = unat initial + sm_released w"
proof -
  have s0: "sm_permits s0 = initial" "sm_max s0 = mx" "initial \<le> mx"
    using assms(1) by (auto simp: semaphore_new_def split: if_splits)
  then have "sem_inv s0 w" using sem_sys.reachable_inv [OF _ assms(2)] by blast
  then show ?thesis using s0 by (simp add: sem_inv_def)
qed

text \<open>One thread acquires the only permit; the other finds none and goes to sleep.\<close>

definition sem_demo_start :: semaphore where
  "sem_demo_start = \<lparr>sm_permits = 1, sm_max = 2\<rparr>"

definition sem_demo :: sem_world where
  "sem_demo = \<lparr>sem_state = \<lparr>sm_permits = 0, sm_max = 2\<rparr>, sem_pcs = [SDone (Ok True), SAsleep],
     sm_acquired = 1, sm_released = 0\<rparr>"

lemma sem_demo_reached: "reaches (sem_step wc mf) (sem_start 2 sem_demo_start) sem_demo"
proof -
  let ?w = "\<lambda>k p q a. \<lparr>sem_state = \<lparr>sm_permits = k, sm_max = 2\<rparr>, sem_pcs = [p, q], sm_acquired = a, sm_released = 0\<rparr>"
  have "reaches (sem_step wc mf) (sem_start 2 sem_demo_start) (?w 1 SIdle SIdle 0)"
    by (simp add: sem_start_def sem_demo_start_def numeral_2_eq_2 reaches.base)
  also have "sem_step wc mf (?w 1 SIdle SIdle 0) (?w 1 SAcqLoad SIdle 0)"
    using sem_step.acquire [of 0 "?w 1 SIdle SIdle 0"] by (simp add: sem_put_def)
  also have "sem_step wc mf (?w 1 SAcqLoad SIdle 0) (?w 1 (SAcqTry 1) SIdle 0)"
    using sem_step.running [of 0 "?w 1 SAcqLoad SIdle 0"] by (simp add: sem_put_def)
  also have "sem_step wc mf (?w 1 (SAcqTry 1) SIdle 0) (?w 0 (SDone (Ok True)) SIdle 1)"
    using sem_step.running [of 0 "?w 1 (SAcqTry 1) SIdle 0"] by (simp add: sem_put_def)
  also have "sem_step wc mf (?w 0 (SDone (Ok True)) SIdle 1) (?w 0 (SDone (Ok True)) SAcqLoad 1)"
    using sem_step.acquire [of 1 "?w 0 (SDone (Ok True)) SIdle 1"] by (simp add: sem_put_def)
  also have "sem_step wc mf (?w 0 (SDone (Ok True)) SAcqLoad 1) (?w 0 (SDone (Ok True)) SAcqWait 1)"
    using sem_step.running [of 1 "?w 0 (SDone (Ok True)) SAcqLoad 1"] by (simp add: sem_put_def)
  also have "sem_step wc mf (?w 0 (SDone (Ok True)) SAcqWait 1) sem_demo"
    using sem_step.running [of 1 "?w 0 (SDone (Ok True)) SAcqWait 1"] by (simp add: sem_put_def sem_demo_def)
  finally show ?thesis .
qed

theorem semaphore_permits_conserved_witness:
  "semaphore_new 1 2 = Ok sem_demo_start
   \<and> sm_permits (sem_state sem_demo) \<le> 2 \<and> unat (sm_permits (sem_state sem_demo)) + sm_acquired sem_demo = 1"
proof -
  have new: "semaphore_new 1 2 = Ok sem_demo_start" by (simp add: semaphore_new_def sem_demo_start_def)
  show ?thesis using semaphore_permits_conserved [OF new sem_demo_reached [of unat False]] new
    by (simp add: sem_demo_def)
qed

text \<open>
  C32. No wakeup of the semaphore is lost: when the kernel resumes as many sleepers as a wake asks for
  and the waits do not fail, a thread is asleep in \<open>acquire\<close> only while every permit in the word is
  matched by a thread of \<open>acquire\<close> that is still running or by a wake still to be issued. So a permit
  is never left in the word beside sleepers when everything else has come to rest.
\<close>

theorem semaphore_no_lost_wakeup:
  assumes "semaphore_new initial mx = Ok s0" and "mx \<le> i32_max" and "futex_wake_law wc"
    and "reaches (sem_step wc False) (sem_start n s0) w"
    and "t < length (sem_pcs w)" and "sem_pcs w ! t = SAsleep"
  shows "unat (sm_permits (sem_state w)) \<le> sum_list (map sem_weight (sem_pcs w))"
proof -
  have s0: "sm_permits s0 = initial" "sm_max s0 = mx" "initial \<le> mx"
    using assms(1) by (auto simp: semaphore_new_def split: if_splits)
  then have "sem_wake_inv w" using sem_wake_sys.reachable_inv [OF _ assms(4)] assms(2,3) by blast
  moreover have "sleepers SAsleep (sem_pcs w) \<noteq> {}" using assms(5,6) by (auto simp: sleepers_def)
  ultimately show ?thesis by (simp add: sem_wake_inv_def)
qed

text \<open>The run above, with the permit released again: the wake is still to be issued.\<close>

definition sem_demo_release :: sem_world where
  "sem_demo_release = \<lparr>sem_state = \<lparr>sm_permits = 1, sm_max = 2\<rparr>, sem_pcs = [SWaking 1, SAsleep],
     sm_acquired = 1, sm_released = 1\<rparr>"

lemma sem_demo_release_reached: "reaches (sem_step wc mf) (sem_start 2 sem_demo_start) sem_demo_release"
proof -
  let ?w = "\<lambda>k p r. \<lparr>sem_state = \<lparr>sm_permits = k, sm_max = 2\<rparr>, sem_pcs = [p, SAsleep], sm_acquired = 1, sm_released = r\<rparr>"
  have "reaches (sem_step wc mf) (sem_start 2 sem_demo_start) (?w 0 (SDone (Ok True)) 0)"
    using sem_demo_reached by (simp add: sem_demo_def)
  also have "sem_step wc mf (?w 0 (SDone (Ok True)) 0) (?w 0 SIdle 0)"
    using sem_step.returned [of 0 "?w 0 (SDone (Ok True)) 0"] by (simp add: sem_put_def)
  also have "sem_step wc mf (?w 0 SIdle 0) (?w 0 (SRelLoad 1) 0)"
    using sem_step.release [of 0 "?w 0 SIdle 0" wc mf 1] by (simp add: sem_put_def release_call_def)
  also have "sem_step wc mf (?w 0 (SRelLoad 1) 0) (?w 0 (SRelTry 1 0) 0)"
    using sem_step.running [of 0 "?w 0 (SRelLoad 1) 0"] by (simp add: sem_put_def)
  also have "sem_step wc mf (?w 0 (SRelTry 1 0) 0) sem_demo_release"
    using sem_step.running [of 0 "?w 0 (SRelTry 1 0) 0"]
    by (simp add: sem_put_def release_next_def u32_checked_add_def sem_demo_release_def)
  finally show ?thesis .
qed

theorem semaphore_no_lost_wakeup_witness:
  "unat (sm_permits (sem_state sem_demo_release)) = 1
   \<and> 1 \<le> sum_list (map sem_weight (sem_pcs sem_demo_release))"
proof -
  have new: "semaphore_new 1 2 = Ok sem_demo_start" by (simp add: semaphore_new_def sem_demo_start_def)
  show ?thesis
    using semaphore_no_lost_wakeup [OF new _ futex_wake_law_unat sem_demo_release_reached, of 1]
    by (simp add: sem_demo_release_def)
qed

end
