(* ===== verification/Sync_Once.thy ===== *)
theory Sync_Once
  imports Sync_Futex
begin

text \<open>
  One-time initialisation: the raw once of the Linux backend (\<open>LinuxRawOnce\<close> in
  \<open>fusion-pal/pal/hosted/linux/sync/sync.rs\<close>) and \<open>Once\<close>, \<open>OnceInitGuard\<close> and \<open>OnceLock\<close> of
  \<open>fusion-sys/sync/once.rs\<close>, as threads that call \<open>get_or_try_init\<close> on one cell.

  The value cell is \<open>None\<close> while its memory is uninitialised. What a caller's initializer does is the
  environment's choice: a value, an error, or (\<open>Err None\<close>) a panic, which runs the guard's drop.
\<close>

section \<open>Model\<close>

abbreviation (input) ONCE_UNINITIALIZED :: u32 where "ONCE_UNINITIALIZED \<equiv> 0"
abbreviation (input) ONCE_RUNNING :: u32 where "ONCE_RUNNING \<equiv> 1"
abbreviation (input) ONCE_COMPLETE :: u32 where "ONCE_COMPLETE \<equiv> 2"
abbreviation u32_max :: u32 where "u32_max \<equiv> 0xFFFFFFFF"

datatype 'e once_init_error = OnceSync sync_error_kind | OnceInit 'e

datatype once_begin_result = BeginInitialize | BeginInProgress | BeginComplete

record 'a once_lock =
  on_state :: u32
  on_value :: "'a option"

definition once_lock_new :: "'a once_lock" where
  "once_lock_new = \<lparr>on_state = ONCE_UNINITIALIZED, on_value = None\<rparr>"

text \<open>\<open>get\<close>: the value is read only when the state is complete; \<open>Some None\<close> reads uninitialised memory.\<close>

definition once_get :: "'a once_lock \<Rightarrow> 'a option option" where
  "once_get c = (if on_state c = ONCE_COMPLETE then Some (on_value c) else None)"

text \<open>
  The places of \<open>get_or_try_init\<close>: the first \<open>get\<close>; the load and the exchange of \<open>begin\<close>; the
  initializer; the stores and wakes of \<open>complete_unchecked\<close> and \<open>reset_unchecked\<close>; the load and the
  wait of \<open>wait\<close>; the last \<open>get\<close>.
\<close>

datatype ('a, 'e) once_pc = OIdle | OGet | OBegin | OTry | OInit | OComplete | OReset "'e option"
  | OWakeDone | OWakeReset "'e option" | OWaitLoad | OWaitFutex | OAsleep | OFinal
  | ODone "('a option, 'e once_init_error) result" | OPanicked

text \<open>The load of \<open>begin\<close>; \<open>None\<close> goes on to the exchange.\<close>

definition once_begin_load :: "u32 \<Rightarrow> (once_begin_result, sync_error_kind) result option" where
  "once_begin_load s = (if s = ONCE_COMPLETE then Some (Ok BeginComplete)
     else if s = ONCE_RUNNING then Some (Ok BeginInProgress)
     else if s = ONCE_UNINITIALIZED then None else Some (Err SyncInvalid))"

text \<open>What \<open>call_once_try\<close> does with the outcome of \<open>begin\<close>.\<close>

fun once_begun :: "(once_begin_result, sync_error_kind) result \<Rightarrow> ('a, 'e) once_pc" where
  "once_begun (Ok BeginComplete) = OFinal"
| "once_begun (Ok BeginInProgress) = OWaitLoad"
| "once_begun (Ok BeginInitialize) = OInit"
| "once_begun (Err e) = ODone (Err (OnceSync e))"

fun once_next :: "('a, 'e option) result \<Rightarrow> 'a once_lock \<Rightarrow> ('a, 'e) once_pc \<Rightarrow> ('a, 'e) once_pc \<times> 'a once_lock" where
  "once_next ini c OGet = (case once_get c of Some v \<Rightarrow> ODone (Ok v) | None \<Rightarrow> OBegin, c)"
| "once_next ini c OBegin = (case once_begin_load (on_state c) of Some r \<Rightarrow> once_begun r | None \<Rightarrow> OTry, c)"
| "once_next ini c OTry = (if on_state c = ONCE_UNINITIALIZED
     then (once_begun (Ok BeginInitialize), c\<lparr>on_state := ONCE_RUNNING\<rparr>) else (OBegin, c))"
| "once_next ini c OInit = (case ini of
      Ok v \<Rightarrow> (OComplete, c\<lparr>on_value := Some v\<rparr>) | Err e \<Rightarrow> (OReset e, c))"
| "once_next ini c OComplete = (OWakeDone, c\<lparr>on_state := ONCE_COMPLETE\<rparr>)"
| "once_next ini c (OReset e) = (OWakeReset e, c\<lparr>on_state := ONCE_UNINITIALIZED\<rparr>)"
| "once_next ini c OWaitLoad = (if on_state c = ONCE_COMPLETE \<or> on_state c = ONCE_UNINITIALIZED then OBegin
     else if on_state c = ONCE_RUNNING then OWaitFutex else ODone (Err (OnceSync SyncInvalid)), c)"
| "once_next ini c OWaitFutex = (if on_state c = ONCE_RUNNING then OAsleep else OWaitLoad, c)"
| "once_next ini c OFinal = (case once_get c of
      Some v \<Rightarrow> ODone (Ok v) | None \<Rightarrow> ODone (Err (OnceSync SyncInvalid)), c)"
| "once_next ini c pc = (pc, c)"

text \<open>What the initializing thread goes on to after its wake.\<close>

fun once_woken :: "('a, 'e) once_pc \<Rightarrow> ('a, 'e) once_pc option" where
  "once_woken OWakeDone = Some OFinal"
| "once_woken (OWakeReset (Some e)) = Some (ODone (Err (OnceInit e)))"
| "once_woken (OWakeReset None) = Some OPanicked"
| "once_woken pc = None"

record ('a, 'e) once_world =
  once_cell :: "'a once_lock"
  once_pcs :: "('a, 'e) once_pc list"

definition once_start :: "nat \<Rightarrow> ('a, 'e) once_world" where
  "once_start n = \<lparr>once_cell = once_lock_new, once_pcs = replicate n OIdle\<rparr>"

abbreviation once_put :: "nat \<Rightarrow> ('a, 'e) once_pc \<times> 'a once_lock \<Rightarrow> ('a, 'e) once_world \<Rightarrow> ('a, 'e) once_world" where
  "once_put t r w \<equiv> w\<lparr>once_pcs := (once_pcs w)[t := fst r], once_cell := snd r\<rparr>"

inductive once_step :: "(u32 \<Rightarrow> nat) \<Rightarrow> bool \<Rightarrow> ('a, 'e) once_world \<Rightarrow> ('a, 'e) once_world \<Rightarrow> bool" for wc may_fail where
  call: "t < length (once_pcs w) \<Longrightarrow> once_pcs w ! t = OIdle \<Longrightarrow>
     once_step wc may_fail w (once_put t (OGet, once_cell w) w)"
| running: "t < length (once_pcs w) \<Longrightarrow>
     once_step wc may_fail w (once_put t (once_next ini (once_cell w) (once_pcs w ! t)) w)"
| wait_error: "may_fail \<Longrightarrow> t < length (once_pcs w) \<Longrightarrow> once_pcs w ! t = OWaitFutex \<Longrightarrow>
     once_step wc may_fail w (once_put t (ODone (Err (OnceSync e)), once_cell w) w)"
| interrupted: "t < length (once_pcs w) \<Longrightarrow> once_pcs w ! t = OAsleep \<Longrightarrow>
     once_step wc may_fail w (once_put t (OWaitLoad, once_cell w) w)"
| waking: "t < length (once_pcs w) \<Longrightarrow> once_woken (once_pcs w ! t) = Some pc \<Longrightarrow>
     wakes_up_to (wc u32_max) OAsleep (once_pcs w) S \<Longrightarrow>
     once_step wc may_fail w (w\<lparr>once_pcs := (resume S OWaitLoad (once_pcs w))[t := pc]\<rparr>)"
| returned: "t < length (once_pcs w) \<Longrightarrow> once_pcs w ! t = ODone r \<Longrightarrow>
     once_step wc may_fail w (once_put t (OIdle, once_cell w) w)"

section \<open>Invariants\<close>

text \<open>The thread that runs the initializer or is about to publish its outcome.\<close>

fun once_owner :: "('a, 'e) once_pc \<Rightarrow> bool" where
  "once_owner OInit = True" | "once_owner OComplete = True" | "once_owner (OReset e) = True" | "once_owner pc = False"

abbreviation once_owners :: "('a, 'e) once_pc list \<Rightarrow> nat" where
  "once_owners pcs \<equiv> sum_list (map (\<lambda>pc. of_bool (once_owner pc)) pcs)"

fun once_pc_ok :: "'a once_lock \<Rightarrow> ('a, 'e) once_pc \<Rightarrow> bool" where
  "once_pc_ok c OComplete = (on_value c \<noteq> None)"
| "once_pc_ok c OWakeDone = (on_state c = ONCE_COMPLETE)"
| "once_pc_ok c OFinal = (on_state c = ONCE_COMPLETE)"
| "once_pc_ok c (ODone (Ok v)) = (on_state c = ONCE_COMPLETE \<and> v = on_value c)"
| "once_pc_ok c (ODone (Err (OnceSync e))) = True"
| "once_pc_ok c pc = True"

definition once_inv :: "('a, 'e) once_world \<Rightarrow> bool" where
  "once_inv w \<longleftrightarrow> on_state (once_cell w) \<in> {ONCE_UNINITIALIZED, ONCE_RUNNING, ONCE_COMPLETE}
     \<and> once_owners (once_pcs w) = of_bool (on_state (once_cell w) = ONCE_RUNNING)
     \<and> (on_state (once_cell w) = ONCE_COMPLETE \<longrightarrow> on_value (once_cell w) \<noteq> None)
     \<and> (\<forall>pc \<in> set (once_pcs w). once_pc_ok (once_cell w) pc)"

definition once_wake_inv :: "('a, 'e) once_world \<Rightarrow> bool" where
  "once_wake_inv w \<longleftrightarrow> sleepers OAsleep (once_pcs w) = {} \<or> on_state (once_cell w) = ONCE_RUNNING
     \<or> (\<exists>pc \<in> set (once_pcs w). once_woken pc \<noteq> None)"

lemma once_pc_ok_mono:
  assumes "once_pc_ok c pc" "on_state c \<noteq> ONCE_COMPLETE" "on_value c \<noteq> None \<longrightarrow> on_value c' \<noteq> None"
  shows "once_pc_ok c' pc"
  using assms by (cases "(c, pc)" rule: once_pc_ok.cases) auto

text \<open>The four kinds of step a thread can take, by what they do to the cell.\<close>

lemma once_next_cases:
  assumes "once_next ini c pc = (pc', c')" "once_pc_ok c pc"
  obtains (same) "c' = c" "once_owner pc' = once_owner pc" "once_pc_ok c pc'"
      "once_woken pc \<noteq> None \<longrightarrow> pc' = pc" "pc' = OAsleep \<longrightarrow> pc = OAsleep \<or> on_state c = ONCE_RUNNING"
    | (win) "pc = OTry" "pc' = OInit" "on_state c = ONCE_UNINITIALIZED" "c' = c\<lparr>on_state := ONCE_RUNNING\<rparr>"
    | (wrote) v where "pc = OInit" "pc' = OComplete" "c' = c\<lparr>on_value := Some v\<rparr>"
    | (complete) "pc = OComplete" "pc' = OWakeDone" "c' = c\<lparr>on_state := ONCE_COMPLETE\<rparr>" "on_value c \<noteq> None"
    | (reset) e where "pc = OReset e" "pc' = OWakeReset e" "c' = c\<lparr>on_state := ONCE_UNINITIALIZED\<rparr>"
proof (cases pc)
  case OInit
  then show thesis using assms same wrote by (cases ini) auto
next
  case OComplete
  then show thesis using assms complete by auto
next
  case (OReset e)
  then show thesis using assms reset by auto
next
  case OTry
  then show thesis using assms same win by (auto split: if_splits)
next
  case (OWakeReset e)
  then show thesis using assms same by auto
qed (use assms same in \<open>auto simp: once_begin_load_def once_get_def split: if_splits\<close>)

lemma once_pcs_ok_update:
  assumes "\<forall>pc \<in> set pcs. once_pc_ok c pc" "once_pc_ok c' pc'"
    and "c' = c \<or> on_state c \<noteq> ONCE_COMPLETE \<and> (on_value c \<noteq> None \<longrightarrow> on_value c' \<noteq> None)"
  shows "\<forall>pc \<in> set (pcs[t := pc']). once_pc_ok c' pc"
proof
  fix pc assume "pc \<in> set (pcs[t := pc'])"
  then have "pc = pc' \<or> pc \<in> set pcs" using set_update_subset_insert [of pcs t pc'] by blast
  then show "once_pc_ok c' pc" using assms once_pc_ok_mono by blast
qed

lemma once_owner_running:
  assumes "once_inv w" "t < length (once_pcs w)" "once_owner (once_pcs w ! t)"
  shows "on_state (once_cell w) = ONCE_RUNNING"
proof (rule ccontr)
  assume "on_state (once_cell w) \<noteq> ONCE_RUNNING"
  then have "once_owners (once_pcs w) = 0" using assms(1) by (simp add: once_inv_def)
  then show False using assms(2,3) by simp
qed

lemma once_next_inv:
  assumes inv: "once_inv w" and t: "t < length (once_pcs w)"
  shows "once_inv (once_put t (once_next ini (once_cell w) (once_pcs w ! t)) w)"
proof -
  obtain pc' c' where n: "once_next ini (once_cell w) (once_pcs w ! t) = (pc', c')" by fastforce
  let ?c = "once_cell w"
  have ok: "\<forall>pc \<in> set (once_pcs w). once_pc_ok ?c pc" and own: "once_owners (once_pcs w) = of_bool (on_state ?c = ONCE_RUNNING)"
    and st: "on_state ?c \<in> {ONCE_UNINITIALIZED, ONCE_RUNNING, ONCE_COMPLETE}" "on_state ?c = ONCE_COMPLETE \<longrightarrow> on_value ?c \<noteq> None"
    using inv by (simp_all add: once_inv_def)
  note up = weight_update [OF t, of "\<lambda>pc. of_bool (once_owner pc)" pc']
  have "once_pc_ok ?c (once_pcs w ! t)" using ok t by simp
  note run = once_owner_running [OF inv t]
  note upd = once_pcs_ok_update [OF ok, of c' pc' t]
  from n \<open>once_pc_ok ?c (once_pcs w ! t)\<close> show ?thesis
  proof (cases rule: once_next_cases)
    case same
    then show ?thesis using n up upd own st by (simp add: once_inv_def)
  next
    case win
    then show ?thesis using n up upd own st by (simp add: once_inv_def)
  next
    case (wrote v)
    then show ?thesis using n up upd own st run by (simp add: once_inv_def)
  next
    case complete
    then show ?thesis using n up upd own st run by (simp add: once_inv_def)
  next
    case (reset e)
    then show ?thesis using n up upd own st run by (simp add: once_inv_def)
  qed
qed

lemma once_inv_pcs:
  assumes "once_inv w" "t < length (once_pcs w)" "once_owner pc = once_owner (once_pcs w ! t)" "once_pc_ok (once_cell w) pc"
  shows "once_inv (once_put t (pc, once_cell w) w)"
  using assms weight_update [OF assms(2), of "\<lambda>pc. of_bool (once_owner pc)" pc]
    once_pcs_ok_update [of "once_pcs w" "once_cell w" "once_cell w" pc t]
  by (simp add: once_inv_def)

lemma once_resume_inv:
  assumes "once_inv w" "wakes_up_to n OAsleep (once_pcs w) S"
  shows "once_inv (w\<lparr>once_pcs := resume S OWaitLoad (once_pcs w)\<rparr>)"
proof -
  have "set (resume S OWaitLoad (once_pcs w)) \<subseteq> insert OWaitLoad (set (once_pcs w))" by (auto simp: resume_def)
  moreover have "once_owners (resume S OWaitLoad (once_pcs w)) = once_owners (once_pcs w)"
    using assms(2) weight_resume [of S OAsleep "once_pcs w" "\<lambda>pc. of_bool (once_owner pc)" OWaitLoad]
    by (simp add: wakes_up_to_def)
  ultimately show ?thesis using assms(1) by (auto simp: once_inv_def)
qed

lemma once_woken_cases:
  assumes "once_woken pc = Some pc'" "once_pc_ok c pc"
  shows "\<not> once_owner pc \<and> \<not> once_owner pc' \<and> once_pc_ok c pc' \<and> pc \<noteq> OAsleep \<and> pc' \<noteq> OAsleep"
  using assms by (cases pc rule: once_woken.cases) auto

lemma once_step_inv:
  assumes inv: "once_inv w" and step: "once_step wc mf w w'"
  shows "once_inv w'"
  using step
proof (cases rule: once_step.cases)
  case (running t ini)
  then show ?thesis using once_next_inv [OF inv] by simp
next
  case (waking t pc S)
  have "once_pc_ok (once_cell w) (once_pcs w ! t)" using inv waking(2) by (simp add: once_inv_def)
  note wk = once_woken_cases [OF waking(3) this]
  have "t \<notin> S" using waking(4) wk by (auto simp: wakes_up_to_def sleepers_def)
  then show ?thesis
    using once_inv_pcs [OF once_resume_inv [OF inv waking(4)], of t pc] wk waking(1,2) by simp
next
  case (wait_error t e)
  then show ?thesis using once_inv_pcs [OF inv, of t "ODone (Err (OnceSync e))"] by simp
next
  case (call t)
  then show ?thesis using once_inv_pcs [OF inv, of t OGet] by simp
next
  case (interrupted t)
  then show ?thesis using once_inv_pcs [OF inv, of t OWaitLoad] by simp
next
  case (returned t r)
  then show ?thesis using once_inv_pcs [OF inv, of t OIdle] by simp
qed

interpretation once_sys: inductive_invariant "\<lambda>w. \<exists>n. w = once_start n" "once_step wc mf" once_inv for wc mf
proof unfold_locales
  show "once_inv w" if "\<exists>n. w = once_start n" for w :: "('a, 'e) once_world"
    using that by (auto simp: once_inv_def once_start_def once_lock_new_def sum_list_replicate)
qed (rule once_step_inv)

text \<open>Completion is final, and so is the value.\<close>

lemma once_step_complete:
  assumes "once_inv w" "once_step wc mf w w'" "on_state (once_cell w) = ONCE_COMPLETE"
  shows "once_cell w' = once_cell w"
  using assms(2)
proof (cases rule: once_step.cases)
  case (running t ini)
  obtain pc' c' where n: "once_next ini (once_cell w) (once_pcs w ! t) = (pc', c')" by fastforce
  have "once_owners (once_pcs w) = 0" using assms(1,3) by (simp add: once_inv_def)
  then have own: "\<not> once_owner (once_pcs w ! t)" using running(2) by simp
  have "once_pc_ok (once_cell w) (once_pcs w ! t)" using assms(1) running(2) by (simp add: once_inv_def)
  with n have "c' = once_cell w" by (cases rule: once_next_cases) (use own assms(3) in simp_all)
  then show ?thesis using running n by simp
qed simp_all

lemma once_complete_final:
  assumes "reaches (once_step wc mf) w w'" "once_inv w" "on_state (once_cell w) = ONCE_COMPLETE"
  shows "once_inv w' \<and> once_cell w' = once_cell w"
  using assms
proof (induction rule: reaches.induct)
  case (more s t u)
  then show ?case using once_step_inv once_step_complete by metis
qed simp

lemma once_wake_put:
  assumes wake: "once_wake_inv w" and t: "t < length (once_pcs w)"
    and "on_state c = ONCE_RUNNING \<or> once_woken pc \<noteq> None \<or>
       on_state (once_cell w) \<noteq> ONCE_RUNNING \<and> once_woken (once_pcs w ! t) = None \<and> pc \<noteq> OAsleep"
  shows "once_wake_inv (once_put t (pc, c) w)"
proof -
  consider "on_state c = ONCE_RUNNING" | "once_woken pc \<noteq> None"
    | "on_state (once_cell w) \<noteq> ONCE_RUNNING" "once_woken (once_pcs w ! t) = None" "pc \<noteq> OAsleep"
    using assms(3) by (elim disjE conjE)
  then show ?thesis
  proof cases
    case 2
    moreover have "pc \<in> set ((once_pcs w)[t := pc])" using t by (simp add: set_update_memI)
    ultimately show ?thesis unfolding once_wake_inv_def by auto
  next
    case 3
    show ?thesis
    proof (cases "sleepers OAsleep (once_pcs w) = {}")
      case True
      then show ?thesis using t 3(3) by (simp add: once_wake_inv_def sleepers_update)
    next
      case False
      then have "\<exists>q \<in> set (once_pcs w). once_woken q \<noteq> None" using wake 3(1) unfolding once_wake_inv_def by argo
      then obtain i where i: "i < length (once_pcs w)" "once_woken (once_pcs w ! i) \<noteq> None"
        by (metis in_set_conv_nth)
      then have "(once_pcs w)[t := pc] ! i = once_pcs w ! i" using 3(2) by (metis nth_list_update_neq)
      then have "once_pcs w ! i \<in> set ((once_pcs w)[t := pc])" using i(1) by (metis length_list_update nth_mem)
      then show ?thesis using i(2) by (auto simp: once_wake_inv_def)
    qed
  qed (simp add: once_wake_inv_def)
qed

lemma once_wake_same:
  assumes "once_wake_inv w" "t < length (once_pcs w)" "once_woken (once_pcs w ! t) = None" "pc \<noteq> OAsleep"
  shows "once_wake_inv (w\<lparr>once_pcs := (once_pcs w)[t := pc]\<rparr>)"
  using once_wake_put [OF assms(1,2), of "once_cell w" pc] assms(3,4) by auto

lemma once_next_wake:
  assumes inv: "once_inv w" and wake: "once_wake_inv w" and t: "t < length (once_pcs w)"
  shows "once_wake_inv (once_put t (once_next ini (once_cell w) (once_pcs w ! t)) w)"
proof -
  obtain pc' c' where n: "once_next ini (once_cell w) (once_pcs w ! t) = (pc', c')" by fastforce
  note own = once_owner_running [OF inv t]
  have "once_pc_ok (once_cell w) (once_pcs w ! t)" using inv t by (simp add: once_inv_def)
  with n have "once_wake_inv (once_put t (pc', c') w)"
  proof (cases rule: once_next_cases)
    case same
    show ?thesis
    proof (cases "pc' = once_pcs w ! t")
      case True
      then show ?thesis using wake same(1) by simp
    next
      case False
      then show ?thesis using same by (intro once_wake_put [OF wake t]) auto
    qed
  next
    case (wrote v)
    then show ?thesis using own by (intro once_wake_put [OF wake t]) simp
  next
    case (reset e)
    then show ?thesis by (intro once_wake_put [OF wake t]) (cases e; simp)
  qed (intro once_wake_put [OF wake t]; simp)+
  then show ?thesis using n by simp
qed

lemma once_step_wake_inv:
  assumes inv: "once_inv w" and wake: "once_wake_inv w" and step: "once_step wc mf w w'"
    and all: "length (once_pcs w) \<le> wc u32_max"
  shows "once_wake_inv w'"
  using step
proof (cases rule: once_step.cases)
  case (running t ini)
  then show ?thesis using once_next_wake [OF inv wake] by simp
next
  case (waking t pc S)
  have "once_pc_ok (once_cell w) (once_pcs w ! t)" using inv waking(2) by (simp add: once_inv_def)
  note wk = once_woken_cases [OF waking(3) this]
  have "S = sleepers OAsleep (once_pcs w)"
    using wakes_all [OF waking(4)] card_sleepers_le [of OAsleep "once_pcs w"] all by linarith
  then have "sleepers OAsleep (resume S OWaitLoad (once_pcs w)) = {}"
    using resume_all [of OWaitLoad OAsleep "once_pcs w"] by simp
  then show ?thesis using waking(1,2) wk by (simp add: once_wake_inv_def sleepers_update)
qed (use once_wake_same [OF wake] in simp_all)

lemma once_step_length: "once_step wc mf w w' \<Longrightarrow> length (once_pcs w') = length (once_pcs w)"
  by (erule once_step.cases) simp_all

interpretation once_wake_sys: inductive_invariant "\<lambda>w. w = once_start n" "once_step wc mf"
  "\<lambda>w. once_inv w \<and> length (once_pcs w) = n \<and> (n \<le> wc u32_max \<longrightarrow> once_wake_inv w)" for n wc mf
proof unfold_locales
  fix w :: "('a, 'e) once_world" assume w: "w = once_start n"
  then have "once_wake_inv w" by (auto simp: once_wake_inv_def once_start_def sleepers_def)
  then show "once_inv w \<and> length (once_pcs w) = n \<and> (n \<le> wc u32_max \<longrightarrow> once_wake_inv w)"
    using once_sys.init_inv w by (auto simp: once_start_def)
qed (metis once_step_inv once_step_wake_inv once_step_length)

section \<open>Properties\<close>

text \<open>
  C20. A \<open>OnceLock\<close> is initialised once. In every interleaving of \<open>get_or_try_init\<close> calls, with
  initializers that return values, return errors or panic, at most one thread is between winning
  \<open>begin\<close> and publishing its outcome; every reference a call returned is to the initialised value
  of the cell; and once complete, the cell keeps that value and no initializer runs on it again.
\<close>

theorem once_lock_initialised_once:
  assumes "reaches (once_step wc mf) (once_start n) w"
  shows "once_owners (once_pcs w) \<le> 1
    \<and> (\<forall>r. ODone (Ok r) \<in> set (once_pcs w) \<longrightarrow> r \<noteq> None \<and> once_get (once_cell w) = Some r)
    \<and> (\<forall>w'. on_state (once_cell w) = ONCE_COMPLETE \<longrightarrow> reaches (once_step wc mf) w w' \<longrightarrow>
          once_cell w' = once_cell w \<and> once_owners (once_pcs w') = 0)"
proof -
  have inv: "once_inv w" using once_sys.reachable_inv [OF _ assms] by blast
  have "r \<noteq> None \<and> once_get (once_cell w) = Some r" if "ODone (Ok r) \<in> set (once_pcs w)" for r
    using inv that by (auto simp: once_inv_def once_get_def)
  moreover have "once_cell w' = once_cell w \<and> once_owners (once_pcs w') = 0"
    if "on_state (once_cell w) = ONCE_COMPLETE" "reaches (once_step wc mf) w w'" for w'
    using once_complete_final [OF that(2) inv that(1)] that(1) by (simp add: once_inv_def)
  moreover have "once_owners (once_pcs w) \<le> 1" using inv by (simp add: once_inv_def)
  ultimately show ?thesis by blast
qed

text \<open>
  Three threads: the first wins, the other two go to sleep, the first completes. The wake then
  resumes both sleepers or, if the kernel resumes one thread for the count \<open>u32::MAX\<close>, only one.
\<close>

definition once_demo :: "(nat, nat) once_pc list \<Rightarrow> (nat, nat) once_world" where
  "once_demo pcs = \<lparr>once_cell = \<lparr>on_state = ONCE_COMPLETE, on_value = Some 7\<rparr>, once_pcs = pcs\<rparr>"

lemma once_run_next:
  assumes "reaches (once_step wc mf) w0 \<lparr>once_cell = c, once_pcs = pcs\<rparr>" "t < length pcs"
    and "once_next ini c (pcs ! t) = (pc, c')"
  shows "reaches (once_step wc mf) w0 \<lparr>once_cell = c', once_pcs = pcs[t := pc]\<rparr>"
  using reaches.more [OF assms(1) once_step.running [of t _ wc mf ini]] assms(2,3) by simp

lemma once_run_call:
  assumes "reaches (once_step wc mf) w0 \<lparr>once_cell = c, once_pcs = pcs\<rparr>" "t < length pcs" "pcs ! t = OIdle"
  shows "reaches (once_step wc mf) w0 \<lparr>once_cell = c, once_pcs = pcs[t := OGet]\<rparr>"
  using reaches.more [OF assms(1) once_step.call [of t _ wc mf]] assms(2,3) by simp

lemma once_demo_published:
  "reaches (once_step wc mf) (once_start 3) (once_demo [OWakeDone, OAsleep, OAsleep])"
proof -
  let ?R = "\<lambda>s v pcs. reaches (once_step wc mf) (once_start 3) \<lparr>once_cell = \<lparr>on_state = s, on_value = v\<rparr>, once_pcs = pcs\<rparr>"
  have "?R 0 None [OIdle, OIdle, OIdle]"
    by (simp add: once_start_def once_lock_new_def numeral_3_eq_3 reaches.base)
  from once_run_call [OF this, of 0] have "?R 0 None [OGet, OIdle, OIdle]" by simp
  from once_run_next [OF this, of 0] have "?R 0 None [OBegin, OIdle, OIdle]" by (simp add: once_get_def)
  from once_run_next [OF this, of 0] have "?R 0 None [OTry, OIdle, OIdle]" by (simp add: once_begin_load_def)
  from once_run_next [OF this, of 0] have "?R 1 None [OInit, OIdle, OIdle]" by simp
  from once_run_call [OF this, of 1] have "?R 1 None [OInit, OGet, OIdle]" by simp
  from once_run_next [OF this, of 1] have "?R 1 None [OInit, OBegin, OIdle]" by (simp add: once_get_def)
  from once_run_next [OF this, of 1] have "?R 1 None [OInit, OWaitLoad, OIdle]" by (simp add: once_begin_load_def)
  from once_run_next [OF this, of 1] have "?R 1 None [OInit, OWaitFutex, OIdle]" by simp
  from once_run_next [OF this, of 1] have "?R 1 None [OInit, OAsleep, OIdle]" by simp
  from once_run_call [OF this, of 2] have "?R 1 None [OInit, OAsleep, OGet]" by simp
  from once_run_next [OF this, of 2] have "?R 1 None [OInit, OAsleep, OBegin]" by (simp add: once_get_def)
  from once_run_next [OF this, of 2] have "?R 1 None [OInit, OAsleep, OWaitLoad]" by (simp add: once_begin_load_def)
  from once_run_next [OF this, of 2] have "?R 1 None [OInit, OAsleep, OWaitFutex]" by simp
  from once_run_next [OF this, of 2] have "?R 1 None [OInit, OAsleep, OAsleep]" by simp
  from once_run_next [OF this, of 0 "Ok 7"] have "?R 1 (Some 7) [OComplete, OAsleep, OAsleep]" by simp
  from once_run_next [OF this, of 0] show ?thesis by (simp add: once_demo_def)
qed

lemma once_demo_interrupted:
  "reaches (once_step wc mf) (once_demo [OWakeDone, OAsleep, OAsleep]) (once_demo [OWakeDone, OWaitLoad, OAsleep])"
  using once_step.interrupted [of 1 "once_demo [OWakeDone, OAsleep, OAsleep]" wc mf]
  by (intro reaches_single) (simp add: once_demo_def)

theorem once_lock_initialised_once_witness:
  "once_owners (once_pcs (once_demo [OWakeDone, OAsleep, OAsleep])) \<le> 1
   \<and> once_cell (once_demo [OWakeDone, OWaitLoad, OAsleep]) = once_cell (once_demo [OWakeDone, OAsleep, OAsleep])
   \<and> once_owners (once_pcs (once_demo [OWakeDone, OWaitLoad, OAsleep])) = 0"
proof -
  have "on_state (once_cell (once_demo [OWakeDone, OAsleep, OAsleep])) = ONCE_COMPLETE" by (simp add: once_demo_def)
  then show ?thesis
    using once_lock_initialised_once [OF once_demo_published [of unat False]] once_demo_interrupted [of unat False] by blast
qed

text \<open>
  Completion and reset wake the waiters, if the kernel resumes every sleeper for the count
  \<open>u32::MAX\<close>: a thread then sleeps in \<open>wait\<close> only while some thread runs the initializer, or has
  published its outcome and is about to wake.
\<close>

theorem once_no_lost_wakeup:
  assumes "reaches (once_step wc mf) (once_start n) w" and "n \<le> wc u32_max"
    and "t < length (once_pcs w)" and "once_pcs w ! t = OAsleep"
  shows "\<exists>pc \<in> set (once_pcs w). once_owner pc \<or> once_woken pc \<noteq> None"
proof -
  have inv: "once_inv w" and wake: "once_wake_inv w"
    using once_wake_sys.reachable_inv [OF refl assms(1)] assms(2) by blast+
  have "t \<in> sleepers OAsleep (once_pcs w)" using assms(3,4) by (simp add: sleepers_def)
  then consider "on_state (once_cell w) = ONCE_RUNNING" | "\<exists>pc \<in> set (once_pcs w). once_woken pc \<noteq> None"
    using wake unfolding once_wake_inv_def by auto
  then show ?thesis
  proof cases
    case 1
    then have "once_owners (once_pcs w) \<noteq> 0" using inv by (simp add: once_inv_def)
    then show ?thesis by auto
  qed blast
qed

theorem once_no_lost_wakeup_witness:
  "\<exists>pc \<in> set (once_pcs (once_demo [OWakeDone, OAsleep, OAsleep])). once_owner pc \<or> once_woken pc \<noteq> None"
proof -
  have "(3 :: nat) \<le> unat u32_max" by simp
  then show ?thesis using once_no_lost_wakeup [OF once_demo_published, of unat 1] by (simp add: once_demo_def)
qed

text \<open>
  What the futex manual promises of the count is not enough for \<open>complete_unchecked\<close>: \<open>u32::MAX\<close> is
  outside the range \<open>1..=INT_MAX\<close>. A kernel that keeps the promise but, reading the count as a signed
  number, resumes a single thread for it (as Linux does) leaves a waiter asleep on a completed
  cell: every other call has returned and nothing will wake it.
\<close>

theorem once_wake_count_out_of_range:
  assumes "wc u32_max = 1"
  shows "\<exists>w. reaches (once_step wc False) (once_start 3) w
     \<and> on_state (once_cell w) = ONCE_COMPLETE \<and> once_pcs w = ([ODone (Ok (Some 7)), ODone (Ok (Some 7)), OAsleep] :: (nat, nat) once_pc list)"
proof -
  let ?R = "\<lambda>pcs. reaches (once_step wc False) (once_start 3) (once_demo pcs)"
  let ?Q = "\<lambda>pcs. reaches (once_step wc False) (once_start 3)
      (\<lparr>once_cell = \<lparr>on_state = 2, on_value = Some 7\<rparr>, once_pcs = pcs\<rparr> :: (nat, nat) once_world)"
  have sl: "sleepers OAsleep [OWakeDone, OAsleep, OAsleep :: (nat, nat) once_pc] = {1, 2}"
    by (auto simp: sleepers_def less_Suc_eq nth_Cons')
  have one: "wakes_up_to (wc u32_max) OAsleep [OWakeDone, OAsleep, OAsleep :: (nat, nat) once_pc] {1}"
    using assms by (simp add: wakes_up_to_def sl)
  have res: "resume {1} OWaitLoad [OWakeDone, OAsleep, OAsleep :: (nat, nat) once_pc] = [OWakeDone, OWaitLoad, OAsleep]"
    by (simp add: resume_def upt_rec)
  have "once_step wc False (once_demo [OWakeDone, OAsleep, OAsleep]) (once_demo [OFinal, OWaitLoad, OAsleep])"
    using once_step.waking [of 0 "once_demo [OWakeDone, OAsleep, OAsleep]" OFinal wc "{1}" False] one res
    by (simp add: once_demo_def)
  with once_demo_published have "?R [OFinal, OWaitLoad, OAsleep]" by (rule reaches.more)
  then have "?Q [OFinal, OWaitLoad, OAsleep]" by (simp add: once_demo_def)
  from once_run_next [OF this, of 0] have "?Q [ODone (Ok (Some 7)), OWaitLoad, OAsleep]" by (simp add: once_get_def)
  from once_run_next [OF this, of 1] have "?Q [ODone (Ok (Some 7)), OBegin, OAsleep]" by simp
  from once_run_next [OF this, of 1] have "?Q [ODone (Ok (Some 7)), OFinal, OAsleep]" by (simp add: once_begin_load_def)
  from once_run_next [OF this, of 1] have "?R [ODone (Ok (Some 7)), ODone (Ok (Some 7)), OAsleep]"
    by (simp add: once_get_def once_demo_def)
  then show ?thesis
    by (intro exI [of _ "once_demo [ODone (Ok (Some 7)), ODone (Ok (Some 7)), OAsleep]"]) (simp add: once_demo_def)
qed

text \<open>The count Linux computes from \<open>u32::MAX\<close>, which keeps what the manual promises.\<close>

definition signed_wake_count :: "u32 \<Rightarrow> nat" where
  "signed_wake_count n = (if n \<le> i32_max then unat n else 1)"

theorem once_wake_count_out_of_range_witness:
  "futex_wake_law signed_wake_count \<and> (\<exists>w. reaches (once_step signed_wake_count False) (once_start 3) w
     \<and> on_state (once_cell w) = ONCE_COMPLETE \<and> once_pcs w = ([ODone (Ok (Some 7)), ODone (Ok (Some 7)), OAsleep] :: (nat, nat) once_pc list))"
proof -
  have "futex_wake_law signed_wake_count" by (simp add: futex_wake_law_def signed_wake_count_def)
  moreover have "signed_wake_count u32_max = 1" by (simp add: signed_wake_count_def)
  ultimately show ?thesis using once_wake_count_out_of_range [of signed_wake_count] by blast
qed

end
