(* ===== verification/Sync_Rwlock.thy ===== *)
theory Sync_Rwlock
  imports Sync_Futex
begin

text \<open>
  The reader/writer lock of the Linux backend (\<open>LinuxRawRwLock\<close> in
  \<open>fusion-pal/pal/hosted/linux/sync/sync.rs\<close>, wrapped by \<open>fusion-sys/sync/rwlock.rs\<close>).

  A section under the gate mutex is one step; the waits on the epoch word and \<open>wake_waiters\<close> run
  outside it, one access at a time. With \<open>may_fail\<close>, taking the gate in an acquire path and a futex
  wait may report errors; the release paths take the gate infallibly, as the source assumes.
  \<open>rw_wakes\<close> counts the calls of \<open>wake_waiters\<close> and is read by no operation.
\<close>

section \<open>Model\<close>

record rwlock =
  rw_epoch :: u32
  rw_readers :: u32
  rw_waiting_writers :: u32
  rw_writer_active :: u32

definition rwlock_new :: rwlock where
  "rwlock_new = \<lparr>rw_epoch = 0, rw_readers = 0, rw_waiting_writers = 0, rw_writer_active = 0\<rparr>"

text \<open>
  The places of \<open>read_lock\<close> and \<open>write_lock\<close>: before the gate, before the wait with the epoch that was
  observed, asleep. \<open>QDrop\<close> is the drop of \<open>WaitingWriterGuard\<close> after a wait, \<open>QDropErr\<close> the same
  after a wait that failed. \<open>QWakeAdd\<close> and \<open>QWakeCall\<close> are the two accesses of \<open>wake_waiters\<close>.
\<close>

datatype rw_pc = QIdle | QRead | QReadWait u32 | QReadAsleep | QReading
  | QWrite | QWriteWait u32 | QWriteAsleep | QDrop | QDropErr | QWriting | QWakeAdd | QWakeCall

definition read_section :: "rw_pc \<Rightarrow> rwlock \<Rightarrow> rw_pc \<times> rwlock" where
  "read_section blocked l = (if rw_writer_active l = 0 \<and> rw_waiting_writers l = 0
     then (QReading, l\<lparr>rw_readers := rw_readers l + 1\<rparr>) else (blocked, l))"

definition write_available :: "rwlock \<Rightarrow> bool" where
  "write_available l \<longleftrightarrow> rw_writer_active l = 0 \<and> rw_readers l = 0"

definition write_section :: "rwlock \<Rightarrow> rw_pc \<times> rwlock" where
  "write_section l = (if write_available l then (QWriting, l\<lparr>rw_writer_active := 1\<rparr>)
     else (QWriteWait (rw_epoch l), l\<lparr>rw_waiting_writers := rw_waiting_writers l + 1\<rparr>))"

definition try_write_section :: "rwlock \<Rightarrow> rw_pc \<times> rwlock" where
  "try_write_section l = (if write_available l then (QWriting, l\<lparr>rw_writer_active := 1\<rparr>) else (QIdle, l))"

definition read_unlock_section :: "rwlock \<Rightarrow> rw_pc \<times> rwlock" where
  "read_unlock_section l = (let remaining = (if rw_readers l = 0 then 0 else rw_readers l - 1) in
     (if remaining = 0 \<and> rw_waiting_writers l \<noteq> 0 then QWakeAdd else QIdle, l\<lparr>rw_readers := rw_readers l - 1\<rparr>))"

definition write_unlock_section :: "rwlock \<Rightarrow> rw_pc \<times> rwlock" where
  "write_unlock_section l = (QWakeAdd, l\<lparr>rw_writer_active := 0\<rparr>)"

definition drop_waiting :: "rwlock \<Rightarrow> rwlock" where
  "drop_waiting l = l\<lparr>rw_waiting_writers := rw_waiting_writers l - 1\<rparr>"

fun rw_next :: "rwlock \<Rightarrow> rw_pc \<Rightarrow> rw_pc \<times> rwlock" where
  "rw_next l QRead = read_section (QReadWait (rw_epoch l)) l"
| "rw_next l (QReadWait e) = (if rw_epoch l = e then QReadAsleep else QRead, l)"
| "rw_next l QWrite = write_section l"
| "rw_next l (QWriteWait e) = (if rw_epoch l = e then QWriteAsleep else QDrop, l)"
| "rw_next l QDrop = (QWrite, drop_waiting l)"
| "rw_next l QDropErr = (QIdle, drop_waiting l)"
| "rw_next l QWakeAdd = (QWakeCall, l\<lparr>rw_epoch := rw_epoch l + 1\<rparr>)"
| "rw_next l pc = (pc, l)"

record rw_world =
  rw_lock :: rwlock
  rw_pcs :: "rw_pc list"
  rw_wakes :: nat

definition rw_start :: "nat \<Rightarrow> rw_world" where
  "rw_start n = \<lparr>rw_lock = rwlock_new, rw_pcs = replicate n QIdle, rw_wakes = 0\<rparr>"

definition rw_put :: "nat \<Rightarrow> rw_pc \<times> rwlock \<Rightarrow> rw_world \<Rightarrow> rw_world" where
  "rw_put t r w = w\<lparr>rw_pcs := (rw_pcs w)[t := fst r], rw_lock := snd r,
     rw_wakes := rw_wakes w + of_bool (rw_pcs w ! t = QWakeAdd \<and> fst r = QWakeCall)\<rparr>"

text \<open>A wake resumes readers before the gate and writers in the drop of their guard.\<close>

definition rw_sleepers :: "rw_pc list \<Rightarrow> nat set" where
  "rw_sleepers pcs = sleepers QReadAsleep pcs \<union> sleepers QWriteAsleep pcs"

definition rw_resume :: "nat set \<Rightarrow> rw_pc list \<Rightarrow> rw_pc list" where
  "rw_resume S pcs = map (\<lambda>i. if i \<in> S then (if pcs ! i = QWriteAsleep then QDrop else QRead) else pcs ! i) [0..<length pcs]"

inductive rw_step :: "(u32 \<Rightarrow> nat) \<Rightarrow> bool \<Rightarrow> rw_world \<Rightarrow> rw_world \<Rightarrow> bool" for wc may_fail where
  call_read: "t < length (rw_pcs w) \<Longrightarrow> rw_pcs w ! t = QIdle \<Longrightarrow> rw_step wc may_fail w (rw_put t (QRead, rw_lock w) w)"
| call_write: "t < length (rw_pcs w) \<Longrightarrow> rw_pcs w ! t = QIdle \<Longrightarrow> rw_step wc may_fail w (rw_put t (QWrite, rw_lock w) w)"
| try_read: "t < length (rw_pcs w) \<Longrightarrow> rw_pcs w ! t = QIdle \<Longrightarrow>
     rw_step wc may_fail w (rw_put t (read_section QIdle (rw_lock w)) w)"
| try_write: "t < length (rw_pcs w) \<Longrightarrow> rw_pcs w ! t = QIdle \<Longrightarrow>
     rw_step wc may_fail w (rw_put t (try_write_section (rw_lock w)) w)"
| running: "t < length (rw_pcs w) \<Longrightarrow> rw_step wc may_fail w (rw_put t (rw_next (rw_lock w) (rw_pcs w ! t)) w)"
| read_unlock: "t < length (rw_pcs w) \<Longrightarrow> rw_pcs w ! t = QReading \<Longrightarrow>
     rw_step wc may_fail w (rw_put t (read_unlock_section (rw_lock w)) w)"
| write_unlock: "t < length (rw_pcs w) \<Longrightarrow> rw_pcs w ! t = QWriting \<Longrightarrow>
     rw_step wc may_fail w (rw_put t (write_unlock_section (rw_lock w)) w)"
| interrupted_reader: "t < length (rw_pcs w) \<Longrightarrow> rw_pcs w ! t = QReadAsleep \<Longrightarrow>
     rw_step wc may_fail w (rw_put t (QRead, rw_lock w) w)"
| interrupted_writer: "t < length (rw_pcs w) \<Longrightarrow> rw_pcs w ! t = QWriteAsleep \<Longrightarrow>
     rw_step wc may_fail w (rw_put t (QDrop, rw_lock w) w)"
| gate_error: "may_fail \<Longrightarrow> t < length (rw_pcs w) \<Longrightarrow> rw_pcs w ! t \<in> {QRead, QWrite} \<Longrightarrow>
     rw_step wc may_fail w (rw_put t (QIdle, rw_lock w) w)"
| wait_error: "may_fail \<Longrightarrow> t < length (rw_pcs w) \<Longrightarrow> rw_pcs w ! t = QReadWait e \<Longrightarrow>
     rw_step wc may_fail w (rw_put t (QIdle, rw_lock w) w)"
| write_wait_error: "may_fail \<Longrightarrow> t < length (rw_pcs w) \<Longrightarrow> rw_pcs w ! t = QWriteWait e \<Longrightarrow>
     rw_step wc may_fail w (rw_put t (QDropErr, rw_lock w) w)"
| waking: "t < length (rw_pcs w) \<Longrightarrow> rw_pcs w ! t = QWakeCall \<Longrightarrow> S \<subseteq> rw_sleepers (rw_pcs w) \<Longrightarrow>
     card S = min (wc 0xFFFFFFFF) (card (rw_sleepers (rw_pcs w))) \<Longrightarrow>
     rw_step wc may_fail w (w\<lparr>rw_pcs := (rw_resume S (rw_pcs w))[t := QIdle]\<rparr>)"

section \<open>Counting threads\<close>

definition num :: "('pc \<Rightarrow> bool) \<Rightarrow> 'pc list \<Rightarrow> nat" where
  "num P pcs = sum_list (map (\<lambda>pc. of_bool (P pc)) pcs)"

lemma num_update: "t < length pcs \<Longrightarrow> num P (pcs[t := pc]) + of_bool (P (pcs ! t)) = num P pcs + of_bool (P pc)"
  unfolding num_def by (rule weight_update)

lemma num_0_iff: "num P pcs = 0 \<longleftrightarrow> (\<forall>pc \<in> set pcs. \<not> P pc)"
  by (simp add: num_def)

lemma num_pos: "t < length pcs \<Longrightarrow> P (pcs ! t) \<Longrightarrow> 0 < num P pcs"
  using num_0_iff [of P pcs] by fastforce

lemma num_le_length: "num P pcs \<le> length pcs"
  unfolding num_def by (induction pcs) auto

definition writer_waits :: "rw_pc \<Rightarrow> bool" where
  "writer_waits pc \<longleftrightarrow> (\<exists>e. pc = QWriteWait e) \<or> pc \<in> {QWriteAsleep, QDrop, QDropErr}"

lemma writer_waits_simps [simp]:
  "writer_waits (QWriteWait e)" "writer_waits QWriteAsleep" "writer_waits QDrop" "writer_waits QDropErr"
  "\<not> writer_waits QIdle" "\<not> writer_waits QRead" "\<not> writer_waits (QReadWait e)" "\<not> writer_waits QReadAsleep"
  "\<not> writer_waits QReading" "\<not> writer_waits QWrite" "\<not> writer_waits QWriting" "\<not> writer_waits QWakeAdd"
  "\<not> writer_waits QWakeCall"
  by (simp_all add: writer_waits_def)

abbreviation readers_num where "readers_num \<equiv> num (\<lambda>pc. pc = QReading)"
abbreviation writers_num where "writers_num \<equiv> num (\<lambda>pc. pc = QWriting)"
abbreviation waiting_num where "waiting_num \<equiv> num writer_waits"

definition rw_inv :: "rw_world \<Rightarrow> bool" where
  "rw_inv w \<longleftrightarrow> length (rw_pcs w) < 2 ^ 32
     \<and> unat (rw_readers (rw_lock w)) = readers_num (rw_pcs w)
     \<and> unat (rw_waiting_writers (rw_lock w)) = waiting_num (rw_pcs w)
     \<and> unat (rw_writer_active (rw_lock w)) = writers_num (rw_pcs w)
     \<and> writers_num (rw_pcs w) \<le> 1 \<and> (writers_num (rw_pcs w) = 1 \<longrightarrow> readers_num (rw_pcs w) = 0)"

lemma unat_inc: "unat c + 1 < 2 ^ 32 \<Longrightarrow> unat (c + 1 :: u32) = unat c + 1"
  by (simp add: unat_word_ariths)

lemma unat_dec: "c \<noteq> (0 :: u32) \<Longrightarrow> unat (c - 1) = unat c - 1"
  by (simp add: unat_minus_one)

text \<open>
  One thread moves from the place it is at to another, and the lock follows its counts.
\<close>

lemma rw_inv_put:
  assumes inv: "rw_inv w" and t: "t < length (rw_pcs w)" and r: "r = (pc, l)"
    and "unat (rw_readers l) + of_bool (rw_pcs w ! t = QReading) = unat (rw_readers (rw_lock w)) + of_bool (pc = QReading)"
    and "unat (rw_waiting_writers l) + of_bool (writer_waits (rw_pcs w ! t))
       = unat (rw_waiting_writers (rw_lock w)) + of_bool (writer_waits pc)"
    and "unat (rw_writer_active l) + of_bool (rw_pcs w ! t = QWriting)
       = unat (rw_writer_active (rw_lock w)) + of_bool (pc = QWriting)"
    and "unat (rw_writer_active l) \<le> 1" and "unat (rw_writer_active l) = 1 \<longrightarrow> unat (rw_readers l) = 0"
  shows "rw_inv (rw_put t r w)"
proof -
  let ?p = "(rw_pcs w)[t := pc]"
  have old: "length (rw_pcs w) < 2 ^ 32" "unat (rw_readers (rw_lock w)) = readers_num (rw_pcs w)"
    "unat (rw_waiting_writers (rw_lock w)) = waiting_num (rw_pcs w)"
    "unat (rw_writer_active (rw_lock w)) = writers_num (rw_pcs w)"
    using inv by (simp_all add: rw_inv_def)
  have "unat (rw_readers l) = readers_num ?p"
    using num_update [OF t, of "\<lambda>pc. pc = QReading" pc] assms(4) old(2) by linarith
  moreover have "unat (rw_waiting_writers l) = waiting_num ?p"
    using num_update [OF t, of writer_waits pc] assms(5) old(3) by linarith
  moreover have "unat (rw_writer_active l) = writers_num ?p"
    using num_update [OF t, of "\<lambda>pc. pc = QWriting" pc] assms(6) old(4) by linarith
  ultimately show ?thesis using assms(7,8) old(1) r by (simp add: rw_inv_def rw_put_def)
qed

text \<open>A thread that is in a counted place has been counted.\<close>

lemma rw_counted:
  assumes "rw_inv w" "t < length (rw_pcs w)"
  shows "rw_pcs w ! t = QReading \<Longrightarrow> rw_readers (rw_lock w) \<noteq> 0"
    and "writer_waits (rw_pcs w ! t) \<Longrightarrow> rw_waiting_writers (rw_lock w) \<noteq> 0"
    and "rw_pcs w ! t = QWriting \<Longrightarrow> rw_writer_active (rw_lock w) = 1"
    and "rw_pcs w ! t \<noteq> QReading \<Longrightarrow> unat (rw_readers (rw_lock w)) + 1 < 2 ^ 32"
    and "\<not> writer_waits (rw_pcs w ! t) \<Longrightarrow> unat (rw_waiting_writers (rw_lock w)) + 1 < 2 ^ 32"
proof -
  have inv: "unat (rw_readers (rw_lock w)) = readers_num (rw_pcs w)"
    "unat (rw_waiting_writers (rw_lock w)) = waiting_num (rw_pcs w)"
    "unat (rw_writer_active (rw_lock w)) = writers_num (rw_pcs w)" "writers_num (rw_pcs w) \<le> 1"
    "length (rw_pcs w) < 2 ^ 32"
    using assms(1) by (simp_all add: rw_inv_def)
  have room: "num P (rw_pcs w) < length (rw_pcs w)" if "\<not> P (rw_pcs w ! t)" "P pc" for P and pc :: rw_pc
    using num_update [OF assms(2), of P pc] num_le_length [of P "(rw_pcs w)[t := pc]"] that by simp
  show "rw_readers (rw_lock w) \<noteq> 0" if "rw_pcs w ! t = QReading"
    using num_pos [OF assms(2), of "\<lambda>pc. pc = QReading"] that inv(1) by auto
  show "rw_waiting_writers (rw_lock w) \<noteq> 0" if "writer_waits (rw_pcs w ! t)"
    using num_pos [OF assms(2), of writer_waits] that inv(2) by auto
  show "rw_writer_active (rw_lock w) = 1" if "rw_pcs w ! t = QWriting"
  proof -
    have "unat (rw_writer_active (rw_lock w)) = 1"
      using num_pos [OF assms(2), of "\<lambda>pc. pc = QWriting"] that inv(3,4) by simp
    then show ?thesis by (simp add: word_unat_eq_iff)
  qed
  show "unat (rw_readers (rw_lock w)) + 1 < 2 ^ 32" if "rw_pcs w ! t \<noteq> QReading"
    using room [of "\<lambda>pc. pc = QReading" QReading] that inv(1,5) by simp
  show "unat (rw_waiting_writers (rw_lock w)) + 1 < 2 ^ 32" if "\<not> writer_waits (rw_pcs w ! t)"
    using room [of writer_waits QDrop] that inv(2,5) by simp
qed

lemma rw_inv_active:
  assumes "rw_inv w"
  shows "unat (rw_writer_active (rw_lock w)) \<le> 1"
    and "unat (rw_writer_active (rw_lock w)) = 1 \<longrightarrow> unat (rw_readers (rw_lock w)) = 0"
  using assms by (simp_all add: rw_inv_def)

lemma read_section_inv:
  assumes inv: "rw_inv w" and t: "t < length (rw_pcs w)"
    and pc: "rw_pcs w ! t \<noteq> QReading" "rw_pcs w ! t \<noteq> QWriting" "\<not> writer_waits (rw_pcs w ! t)"
    and b: "b \<noteq> QReading" "b \<noteq> QWriting" "\<not> writer_waits b"
  shows "rw_inv (rw_put t (read_section b (rw_lock w)) w)"
proof (cases "rw_writer_active (rw_lock w) = 0 \<and> rw_waiting_writers (rw_lock w) = 0")
  case True
  then have "read_section b (rw_lock w) = (QReading, (rw_lock w)\<lparr>rw_readers := rw_readers (rw_lock w) + 1\<rparr>)"
    by (simp add: read_section_def)
  then show ?thesis
    by (rule rw_inv_put [OF inv t]) (use rw_inv_active [OF inv] pc b True unat_inc [OF rw_counted(4) [OF inv t pc(1)]] in simp_all)
next
  case False
  then have "read_section b (rw_lock w) = (b, rw_lock w)" by (auto simp: read_section_def)
  then show ?thesis by (rule rw_inv_put [OF inv t]) (use rw_inv_active [OF inv] pc b in simp_all)
qed

lemma write_available_unat: "write_available l \<longleftrightarrow> unat (rw_writer_active l) = 0 \<and> unat (rw_readers l) = 0"
  by (simp add: write_available_def unat_eq_zero)

lemma write_section_inv:
  assumes inv: "rw_inv w" and t: "t < length (rw_pcs w)"
    and pc: "rw_pcs w ! t \<noteq> QReading" "rw_pcs w ! t \<noteq> QWriting" "\<not> writer_waits (rw_pcs w ! t)"
  shows "rw_inv (rw_put t (write_section (rw_lock w)) w)" and "rw_inv (rw_put t (try_write_section (rw_lock w)) w)"
proof -
  note act = rw_inv_active [OF inv] write_available_unat
  have inc: "unat (rw_waiting_writers (rw_lock w) + 1) = unat (rw_waiting_writers (rw_lock w)) + 1"
    using unat_inc [OF rw_counted(5) [OF inv t pc(3)]] .
  have taken: "rw_inv (rw_put t (QWriting, (rw_lock w)\<lparr>rw_writer_active := 1\<rparr>) w)" if "write_available (rw_lock w)"
    by (rule rw_inv_put [OF inv t refl]) (use that act pc in simp_all)
  have waits: "rw_inv (rw_put t (QWriteWait (rw_epoch (rw_lock w)),
      (rw_lock w)\<lparr>rw_waiting_writers := rw_waiting_writers (rw_lock w) + 1\<rparr>) w)"
    by (rule rw_inv_put [OF inv t refl]) (use act(1,2) pc inc in simp_all)
  have idle: "rw_inv (rw_put t (QIdle, rw_lock w) w)"
    by (rule rw_inv_put [OF inv t refl]) (use act(1,2) pc in simp_all)
  show "rw_inv (rw_put t (write_section (rw_lock w)) w)" using taken waits by (simp add: write_section_def)
  show "rw_inv (rw_put t (try_write_section (rw_lock w)) w)" using taken idle by (simp add: try_write_section_def)
qed

lemma unlock_sections_inv:
  assumes inv: "rw_inv w" and t: "t < length (rw_pcs w)"
  shows "rw_pcs w ! t = QReading \<Longrightarrow> rw_inv (rw_put t (read_unlock_section (rw_lock w)) w)"
    and "rw_pcs w ! t = QWriting \<Longrightarrow> rw_inv (rw_put t (write_unlock_section (rw_lock w)) w)"
proof -
  note act = rw_inv_active [OF inv]
  assume pc: "rw_pcs w ! t = QReading"
  have r: "rw_readers (rw_lock w) \<noteq> 0" using rw_counted(1) [OF inv t pc] .
  then have d: "unat (rw_readers (rw_lock w) - 1) = unat (rw_readers (rw_lock w)) - 1" "0 < unat (rw_readers (rw_lock w))"
    by (simp_all add: unat_dec unat_gt_0)
  obtain q where q: "read_unlock_section (rw_lock w) = (q, (rw_lock w)\<lparr>rw_readers := rw_readers (rw_lock w) - 1\<rparr>)"
    "q = QWakeAdd \<or> q = QIdle" by (auto simp: read_unlock_section_def Let_def)
  show "rw_inv (rw_put t (read_unlock_section (rw_lock w)) w)"
    by (rule rw_inv_put [OF inv t q(1)]) (use act q(2) pc d in auto)
next
  note act = rw_inv_active [OF inv]
  assume pc: "rw_pcs w ! t = QWriting"
  show "rw_inv (rw_put t (write_unlock_section (rw_lock w)) w)"
    by (rule rw_inv_put [OF inv t write_unlock_section_def]) (use act rw_counted(3) [OF inv t pc] pc in simp_all)
qed

lemma rw_move_inv:
  assumes inv: "rw_inv w" and t: "t < length (rw_pcs w)"
    and "(pc = QReading) = (rw_pcs w ! t = QReading)" "(pc = QWriting) = (rw_pcs w ! t = QWriting)"
      "writer_waits pc = writer_waits (rw_pcs w ! t)"
    and "rw_readers l = rw_readers (rw_lock w)" "rw_waiting_writers l = rw_waiting_writers (rw_lock w)"
      "rw_writer_active l = rw_writer_active (rw_lock w)"
  shows "rw_inv (rw_put t (pc, l) w)"
  by (rule rw_inv_put [OF inv t refl]) (use rw_inv_active [OF inv] assms(3-) in simp_all)

lemma rw_drop_inv:
  assumes inv: "rw_inv w" and t: "t < length (rw_pcs w)" and pc: "writer_waits (rw_pcs w ! t)"
    and q: "q \<noteq> QReading" "q \<noteq> QWriting" "\<not> writer_waits q"
  shows "rw_inv (rw_put t (q, drop_waiting (rw_lock w)) w)"
proof -
  have "rw_waiting_writers (rw_lock w) \<noteq> 0" using rw_counted(2) [OF inv t pc] .
  then have "unat (rw_waiting_writers (rw_lock w) - 1) + 1 = unat (rw_waiting_writers (rw_lock w))"
    by (simp add: unat_dec unat_gt_0 Suc_leI)
  moreover have "rw_pcs w ! t \<noteq> QReading" "rw_pcs w ! t \<noteq> QWriting" using pc by auto
  ultimately show ?thesis
    using rw_inv_active [OF inv] q pc by (intro rw_inv_put [OF inv t refl]) (simp_all add: drop_waiting_def)
qed

lemma rw_next_inv:
  assumes inv: "rw_inv w" and t: "t < length (rw_pcs w)"
  shows "rw_inv (rw_put t (rw_next (rw_lock w) (rw_pcs w ! t)) w)"
proof (cases "rw_pcs w ! t")
  case QRead
  then show ?thesis using read_section_inv [OF inv t] by simp
next
  case QWrite
  then show ?thesis using write_section_inv(1) [OF inv t] by simp
next
  case QDrop
  then show ?thesis using rw_drop_inv [OF inv t, of QWrite] by simp
next
  case QDropErr
  then show ?thesis using rw_drop_inv [OF inv t, of QIdle] by simp
qed (use rw_move_inv [OF inv t] in simp_all)

lemma rw_resume_num:
  assumes "S \<subseteq> rw_sleepers pcs" "P QDrop = P QWriteAsleep" "P QRead = P QReadAsleep"
  shows "num P (rw_resume S pcs) = num P pcs"
proof -
  have "map (\<lambda>pc. of_bool (P pc) :: nat) (rw_resume S pcs) = map (\<lambda>pc. of_bool (P pc)) pcs"
    using assms by (intro nth_equalityI) (auto simp: rw_resume_def rw_sleepers_def sleepers_def)
  then show ?thesis by (simp add: num_def)
qed

lemma length_rw_resume [simp]: "length (rw_resume S pcs) = length pcs"
  by (simp add: rw_resume_def)

lemma rw_resume_other: "t < length pcs \<Longrightarrow> t \<notin> S \<Longrightarrow> rw_resume S pcs ! t = pcs ! t"
  by (simp add: rw_resume_def)

lemma rw_step_inv:
  assumes inv: "rw_inv w" and step: "rw_step wc mf w w'"
  shows "rw_inv w'"
  using step
proof (cases rule: rw_step.cases)
  case (waking t S)
  have "t \<notin> S" using waking(3,4) by (auto simp: rw_sleepers_def sleepers_def)
  then have t: "rw_resume S (rw_pcs w) ! t = QWakeCall" using rw_resume_other waking(2,3) by simp
  have "rw_inv (w\<lparr>rw_pcs := rw_resume S (rw_pcs w)\<rparr>)"
    using inv rw_resume_num [OF waking(4)] by (simp add: rw_inv_def)
  then show ?thesis
    using rw_move_inv [of "w\<lparr>rw_pcs := rw_resume S (rw_pcs w)\<rparr>" t QIdle "rw_lock w"] waking(1,2) t
    by (simp add: rw_put_def)
next
  case (running t)
  then show ?thesis using rw_next_inv [OF inv] by simp
next
  case (try_read t)
  then show ?thesis using read_section_inv [OF inv] by simp
next
  case (try_write t)
  then show ?thesis using write_section_inv(2) [OF inv] by simp
next
  case (gate_error t)
  then show ?thesis using rw_move_inv [OF inv] by auto
qed (use rw_move_inv [OF inv] unlock_sections_inv [OF inv] in simp_all)

interpretation rw_sys: inductive_invariant "\<lambda>w. \<exists>n < 2 ^ 32. w = rw_start n" "rw_step wc mf" rw_inv for wc mf
proof unfold_locales
  show "rw_inv w" if "\<exists>n < 2 ^ 32. w = rw_start n" for w
    using that by (auto simp: rw_inv_def rw_start_def rwlock_new_def num_def sum_list_replicate)
qed (rule rw_step_inv)

section \<open>Waking\<close>

text \<open>
  A thread that is about to sleep on the current epoch, a thread asleep, and a writer that will
  look at the lock again without being woken.
\<close>

definition waits_on :: "u32 \<Rightarrow> rw_pc \<Rightarrow> bool" where
  "waits_on ep pc \<longleftrightarrow> pc = QReadWait ep \<or> pc = QWriteWait ep"

definition rw_asleep :: "rw_pc \<Rightarrow> bool" where
  "rw_asleep pc \<longleftrightarrow> pc = QReadAsleep \<or> pc = QWriteAsleep"

definition awake_writer :: "u32 \<Rightarrow> rw_pc \<Rightarrow> bool" where
  "awake_writer ep pc \<longleftrightarrow> pc = QWrite \<or> pc = QDrop \<or> (\<exists>e. pc = QWriteWait e \<and> e \<noteq> ep)"

text \<open>
  Why a thread may go to sleep: a writer holds the lock and will wake everybody; a wake is about to
  advance the epoch; the last reader will wake the waiting writers; a writer is on its way; or a
  wake is about to resume a writer.
\<close>

definition justified :: "rwlock \<Rightarrow> rw_pc list \<Rightarrow> bool" where
  "justified l pcs \<longleftrightarrow> rw_writer_active l \<noteq> 0 \<or> 0 < num (\<lambda>pc. pc = QWakeAdd) pcs
     \<or> (rw_readers l \<noteq> 0 \<and> rw_waiting_writers l \<noteq> 0) \<or> 0 < num (awake_writer (rw_epoch l)) pcs
     \<or> (0 < num (\<lambda>pc. pc = QWakeCall) pcs \<and> 0 < num (\<lambda>pc. pc = QWriteAsleep) pcs)"

definition rw_wake_inv :: "rw_world \<Rightarrow> bool" where
  "rw_wake_inv w \<longleftrightarrow> num (\<lambda>pc. pc = QDropErr) (rw_pcs w) = 0 \<and> rw_epoch (rw_lock w) = of_nat (rw_wakes w)
     \<and> (\<forall>e. QReadWait e \<in> set (rw_pcs w) \<or> QWriteWait e \<in> set (rw_pcs w) \<longrightarrow> (\<exists>k \<le> rw_wakes w. e = of_nat k))
     \<and> (0 < num (waits_on (rw_epoch (rw_lock w))) (rw_pcs w) \<longrightarrow> justified (rw_lock w) (rw_pcs w))
     \<and> (0 < num rw_asleep (rw_pcs w) \<longrightarrow>
          justified (rw_lock w) (rw_pcs w) \<or> 0 < num (\<lambda>pc. pc = QWakeCall) (rw_pcs w))"

lemma waking_simps [simp]:
  "\<not> waits_on ep QIdle" "\<not> waits_on ep QRead" "\<not> waits_on ep QReading" "\<not> waits_on ep QWrite" "\<not> waits_on ep QDrop"
  "\<not> waits_on ep QWriting" "\<not> waits_on ep QWakeAdd" "\<not> waits_on ep QWakeCall" "\<not> waits_on ep QReadAsleep"
  "\<not> waits_on ep QWriteAsleep" "waits_on ep (QReadWait e) = (e = ep)" "waits_on ep (QWriteWait e) = (e = ep)"
  "\<not> rw_asleep QIdle" "\<not> rw_asleep QRead" "\<not> rw_asleep QReading" "\<not> rw_asleep QWrite" "\<not> rw_asleep QDrop"
  "\<not> rw_asleep QWriting" "\<not> rw_asleep QWakeAdd" "\<not> rw_asleep QWakeCall" "rw_asleep QReadAsleep" "rw_asleep QWriteAsleep"
  "\<not> rw_asleep (QReadWait e)" "\<not> rw_asleep (QWriteWait e)"
  "\<not> awake_writer ep QIdle" "\<not> awake_writer ep QRead" "\<not> awake_writer ep QReading" "awake_writer ep QWrite"
  "awake_writer ep QDrop" "\<not> awake_writer ep QWriting" "\<not> awake_writer ep QWakeAdd" "\<not> awake_writer ep QWakeCall"
  "\<not> awake_writer ep QReadAsleep" "\<not> awake_writer ep QWriteAsleep" "\<not> awake_writer ep (QReadWait e)"
  "awake_writer ep (QWriteWait e) = (e \<noteq> ep)"
  by (auto simp: waits_on_def rw_asleep_def awake_writer_def)

lemma num_update_pos: "t < length pcs \<Longrightarrow> P pc \<Longrightarrow> 0 < num P (pcs[t := pc])"
  using num_update [of t pcs P pc] num_pos [of t "pcs[t := pc]" P] by simp

lemma num_keep: "t < length pcs \<Longrightarrow> \<not> P (pcs ! t) \<Longrightarrow> 0 < num P pcs \<Longrightarrow> 0 < num P (pcs[t := pc])"
  using num_update [of t pcs P pc] by simp

lemma num_new: "t < length pcs \<Longrightarrow> 0 < num P (pcs[t := pc]) \<Longrightarrow> P pc \<or> 0 < num P pcs"
  using num_update [of t pcs P pc] by (cases "P pc") auto

lemma justified_new:
  assumes "t < length pcs" "pc \<in> {QWakeAdd, QWrite, QDrop}"
  shows "justified l (pcs[t := pc])"
proof -
  consider "pc = QWakeAdd" | "awake_writer (rw_epoch l) pc" using assms(2) by auto
  then show ?thesis
    using num_update_pos [OF assms(1), of "\<lambda>pc. pc = QWakeAdd" pc]
      num_update_pos [OF assms(1), of "awake_writer (rw_epoch l)" pc]
    by cases (simp_all add: justified_def)
qed

text \<open>A thread that is no reason itself moves, and the lock's words keep theirs.\<close>

lemma justified_keep:
  assumes j: "justified l pcs" and t: "t < length pcs"
    and "pcs ! t \<notin> {QWakeAdd, QWakeCall, QWriteAsleep}" "\<not> awake_writer (rw_epoch l) (pcs ! t)"
    and "rw_epoch l' = rw_epoch l" "rw_writer_active l \<noteq> 0 \<longrightarrow> rw_writer_active l' \<noteq> 0"
      "rw_readers l \<noteq> 0 \<and> rw_waiting_writers l \<noteq> 0 \<longrightarrow> rw_readers l' \<noteq> 0 \<and> rw_waiting_writers l' \<noteq> 0"
  shows "justified l' (pcs[t := pc])"
proof -
  note keep = num_keep [OF t, of _ pc]
  show ?thesis using j keep [of "\<lambda>pc. pc = QWakeAdd"] keep [of "\<lambda>pc. pc = QWakeCall"]
      keep [of "\<lambda>pc. pc = QWriteAsleep"] keep [of "awake_writer (rw_epoch l)"] assms(3-)
    unfolding justified_def by auto
qed

lemma rw_wake_put:
  assumes wake: "rw_wake_inv w" and t: "t < length (rw_pcs w)" and r: "r = (pc, l)"
    and ep: "rw_epoch l = rw_epoch (rw_lock w)" and pc: "pc \<noteq> QDropErr" "rw_pcs w ! t \<notin> {QWakeCall, QWakeAdd}"
    and e: "\<And>e. pc = QReadWait e \<or> pc = QWriteWait e \<Longrightarrow> e = rw_epoch l \<or> rw_pcs w ! t = pc"
    and keep: "justified (rw_lock w) (rw_pcs w) \<Longrightarrow> justified l ((rw_pcs w)[t := pc])"
    and wait: "waits_on (rw_epoch l) pc \<Longrightarrow> justified l ((rw_pcs w)[t := pc]) \<or> waits_on (rw_epoch l) (rw_pcs w ! t)"
    and sleep: "rw_asleep pc \<Longrightarrow> rw_asleep (rw_pcs w ! t) \<or> waits_on (rw_epoch l) (rw_pcs w ! t)"
  shows "rw_wake_inv (rw_put t r w)"
proof -
  let ?p = "(rw_pcs w)[t := pc]" and ?call = "\<lambda>pc. pc = QWakeCall"
  have w: "num (\<lambda>pc. pc = QDropErr) (rw_pcs w) = 0" "rw_epoch (rw_lock w) = of_nat (rw_wakes w)"
    "\<And>e. QReadWait e \<in> set (rw_pcs w) \<or> QWriteWait e \<in> set (rw_pcs w) \<Longrightarrow> \<exists>k \<le> rw_wakes w. e = of_nat k"
    "0 < num (waits_on (rw_epoch l)) (rw_pcs w) \<Longrightarrow> justified (rw_lock w) (rw_pcs w)"
    "0 < num rw_asleep (rw_pcs w) \<Longrightarrow> justified (rw_lock w) (rw_pcs w) \<or> 0 < num ?call (rw_pcs w)"
    using wake ep by (auto simp: rw_wake_inv_def)
  have old: "justified (rw_lock w) (rw_pcs w)" if "waits_on (rw_epoch l) (rw_pcs w ! t)"
    using num_pos [OF t, of "waits_on (rw_epoch l)"] that w(4) by blast
  have olds: "justified (rw_lock w) (rw_pcs w) \<or> 0 < num ?call (rw_pcs w)" if "rw_asleep (rw_pcs w ! t)"
    using num_pos [OF t, of rw_asleep] that w(5) by simp
  have call: "0 < num ?call ?p" if "0 < num ?call (rw_pcs w)" using num_keep [OF t _ that] pc(2) by simp
  have "justified l ?p" if "0 < num (waits_on (rw_epoch l)) ?p"
    using num_new [OF t that] wait old keep w(4) by blast
  moreover have "justified l ?p \<or> 0 < num ?call ?p" if "0 < num rw_asleep ?p"
  proof -
    have "rw_asleep pc \<or> 0 < num rw_asleep (rw_pcs w)" using num_new [OF t that] .
    then have "justified (rw_lock w) (rw_pcs w) \<or> 0 < num ?call (rw_pcs w)" using sleep old olds w(5) by auto
    then show ?thesis using keep call by auto
  qed
  moreover have "num (\<lambda>pc. pc = QDropErr) ?p = 0" using num_update [OF t, of "\<lambda>pc. pc = QDropErr" pc] w(1) pc(1) by simp
  moreover have "\<exists>k \<le> rw_wakes w. e' = of_nat k" if "QReadWait e' \<in> set ?p \<or> QWriteWait e' \<in> set ?p" for e'
  proof -
    have "pc = QReadWait e' \<or> pc = QWriteWait e' \<or> QReadWait e' \<in> set (rw_pcs w) \<or> QWriteWait e' \<in> set (rw_pcs w)"
      using that set_update_subset_insert [of "rw_pcs w" t pc] by blast
    moreover have "e' = of_nat (rw_wakes w) \<or> QReadWait e' \<in> set (rw_pcs w) \<or> QWriteWait e' \<in> set (rw_pcs w)"
      if "pc = QReadWait e' \<or> pc = QWriteWait e'" using e [OF that] that nth_mem [OF t] ep w(2) by auto
    ultimately show ?thesis using w(3) by blast
  qed
  ultimately show ?thesis using r ep w(2) pc(2) by (auto simp: rw_wake_inv_def rw_put_def)
qed

lemma num_ex: "0 < num P pcs \<longleftrightarrow> (\<exists>i < length pcs. P (pcs ! i))"
  using num_0_iff [of P pcs] by (metis in_set_conv_nth neq0_conv)

text \<open>Waiting writers are a reason of their own.\<close>

lemma waiting_justified:
  assumes inv: "rw_inv w" and wake: "rw_wake_inv w" and wt: "rw_waiting_writers (rw_lock w) \<noteq> 0"
  shows "justified (rw_lock w) (rw_pcs w)"
proof -
  have "0 < waiting_num (rw_pcs w)" using inv wt by (simp add: rw_inv_def unat_gt_0 flip: unat_eq_zero)
  then obtain i where i: "i < length (rw_pcs w)" "writer_waits (rw_pcs w ! i)" unfolding num_ex by blast
  have "rw_pcs w ! i \<noteq> QDropErr"
    using wake i(1) num_pos [of i "rw_pcs w" "\<lambda>pc. pc = QDropErr"] by (auto simp: rw_wake_inv_def)
  then consider "awake_writer (rw_epoch (rw_lock w)) (rw_pcs w ! i)" | "waits_on (rw_epoch (rw_lock w)) (rw_pcs w ! i)"
    | "rw_pcs w ! i = QWriteAsleep" using i(2) by (cases "rw_pcs w ! i") auto
  then show ?thesis
  proof cases
    case 1
    then show ?thesis using num_pos [OF i(1), of "awake_writer (rw_epoch (rw_lock w))"] by (simp add: justified_def)
  next
    case 2
    then show ?thesis using num_pos [OF i(1), of "waits_on (rw_epoch (rw_lock w))"] wake by (simp add: rw_wake_inv_def)
  next
    case 3
    then have "0 < num rw_asleep (rw_pcs w)" "0 < num (\<lambda>pc. pc = QWriteAsleep) (rw_pcs w)"
      using num_pos [OF i(1), of rw_asleep] num_pos [OF i(1), of "\<lambda>pc. pc = QWriteAsleep"] by simp_all
    then show ?thesis using wake by (auto simp: rw_wake_inv_def justified_def)
  qed
qed

lemma read_section_wake:
  assumes inv: "rw_inv w" and wake: "rw_wake_inv w" and t: "t < length (rw_pcs w)"
    and pc: "rw_pcs w ! t \<in> {QIdle, QRead}" and b: "b = QIdle \<or> b = QReadWait (rw_epoch (rw_lock w))"
  shows "rw_wake_inv (rw_put t (read_section b (rw_lock w)) w)"
proof (cases "rw_writer_active (rw_lock w) = 0 \<and> rw_waiting_writers (rw_lock w) = 0")
  case True
  then have r: "read_section b (rw_lock w) = (QReading, (rw_lock w)\<lparr>rw_readers := rw_readers (rw_lock w) + 1\<rparr>)"
    by (simp add: read_section_def)
  show ?thesis
    by (rule rw_wake_put [OF wake t r]) (use pc True justified_keep [OF _ t] in auto)
next
  case False
  then have r: "read_section b (rw_lock w) = (b, rw_lock w)" by (auto simp: read_section_def)
  have j: "justified (rw_lock w) (rw_pcs w)"
    using False waiting_justified [OF inv wake] by (auto simp: justified_def)
  have k: "justified (rw_lock w) ((rw_pcs w)[t := b])" by (rule justified_keep [OF j t]) (use pc in auto)
  show ?thesis by (rule rw_wake_put [OF wake t r]) (use pc b k in auto)
qed

lemma write_section_wake:
  assumes inv: "rw_inv w" and wake: "rw_wake_inv w" and t: "t < length (rw_pcs w)"
  shows "rw_pcs w ! t = QWrite \<Longrightarrow> rw_wake_inv (rw_put t (write_section (rw_lock w)) w)"
    and "rw_pcs w ! t = QIdle \<Longrightarrow> rw_wake_inv (rw_put t (try_write_section (rw_lock w)) w)"
proof -
  have taken: "rw_wake_inv (rw_put t (QWriting, (rw_lock w)\<lparr>rw_writer_active := 1\<rparr>) w)" if "rw_pcs w ! t \<in> {QWrite, QIdle}"
    by (rule rw_wake_put [OF wake t refl]) (use that in \<open>auto simp: justified_def\<close>)
  have idle: "rw_wake_inv (rw_put t (QIdle, rw_lock w) w)" if "rw_pcs w ! t = QIdle"
    by (rule rw_wake_put [OF wake t refl]) (use that justified_keep [OF _ t] in auto)
  show "rw_wake_inv (rw_put t (try_write_section (rw_lock w)) w)" if "rw_pcs w ! t = QIdle"
    using that taken idle by (simp add: try_write_section_def)
  show "rw_wake_inv (rw_put t (write_section (rw_lock w)) w)" if pc: "rw_pcs w ! t = QWrite"
  proof (cases "write_available (rw_lock w)")
    case True
    then show ?thesis using taken pc by (simp add: write_section_def)
  next
    case False
    let ?l = "(rw_lock w)\<lparr>rw_waiting_writers := rw_waiting_writers (rw_lock w) + 1\<rparr>"
    have "unat (rw_waiting_writers (rw_lock w) + 1) = unat (rw_waiting_writers (rw_lock w)) + 1"
      using unat_inc [OF rw_counted(5) [OF inv t]] pc by simp
    then have "rw_waiting_writers (rw_lock w) + 1 \<noteq> 0" by (metis add_eq_0_iff_both_eq_0 unat_0 zero_neq_one)
    then have j: "justified ?l pcs" for pcs using False by (auto simp: justified_def write_available_def)
    have "rw_wake_inv (rw_put t (QWriteWait (rw_epoch (rw_lock w)), ?l) w)"
      by (rule rw_wake_put [OF wake t refl]) (use pc j in auto)
    then show ?thesis using False by (simp add: write_section_def)
  qed
qed

lemma unlock_sections_wake:
  assumes inv: "rw_inv w" and wake: "rw_wake_inv w" and t: "t < length (rw_pcs w)"
  shows "rw_pcs w ! t = QReading \<Longrightarrow> rw_wake_inv (rw_put t (read_unlock_section (rw_lock w)) w)"
    and "rw_pcs w ! t = QWriting \<Longrightarrow> rw_wake_inv (rw_put t (write_unlock_section (rw_lock w)) w)"
proof -
  show "rw_wake_inv (rw_put t (write_unlock_section (rw_lock w)) w)" if "rw_pcs w ! t = QWriting"
    by (rule rw_wake_put [OF wake t write_unlock_section_def]) (use that justified_new [OF t] in auto)
  assume pc: "rw_pcs w ! t = QReading"
  let ?l = "(rw_lock w)\<lparr>rw_readers := rw_readers (rw_lock w) - 1\<rparr>"
  have r: "rw_readers (rw_lock w) \<noteq> 0" using rw_counted(1) [OF inv t pc] .
  show "rw_wake_inv (rw_put t (read_unlock_section (rw_lock w)) w)"
  proof (cases "rw_readers (rw_lock w) - 1 = 0 \<and> rw_waiting_writers (rw_lock w) \<noteq> 0")
    case True
    then have q: "read_unlock_section (rw_lock w) = (QWakeAdd, ?l)" using r by (simp add: read_unlock_section_def)
    show ?thesis by (rule rw_wake_put [OF wake t q]) (use pc justified_new [OF t] in auto)
  next
    case False
    then have q: "read_unlock_section (rw_lock w) = (QIdle, ?l)" using r by (auto simp: read_unlock_section_def)
    show ?thesis by (rule rw_wake_put [OF wake t q]) (use pc justified_keep [OF _ t, of "rw_lock w" ?l QIdle] False in auto)
  qed
qed

text \<open>The first access of \<open>wake_waiters\<close>: whoever was about to sleep on the old epoch no longer will.\<close>

lemma wake_add_wake:
  assumes wake: "rw_wake_inv w" and t: "t < length (rw_pcs w)" and pc: "rw_pcs w ! t = QWakeAdd"
    and small: "rw_wakes w + 1 < 2 ^ 32"
  shows "rw_wake_inv (rw_put t (QWakeCall, (rw_lock w)\<lparr>rw_epoch := rw_epoch (rw_lock w) + 1\<rparr>) w)"
proof -
  let ?p = "(rw_pcs w)[t := QWakeCall]"
  have w: "num (\<lambda>pc. pc = QDropErr) (rw_pcs w) = 0" "rw_epoch (rw_lock w) = of_nat (rw_wakes w)"
    "\<And>e. QReadWait e \<in> set (rw_pcs w) \<or> QWriteWait e \<in> set (rw_pcs w) \<Longrightarrow> \<exists>k \<le> rw_wakes w. e = of_nat k"
    using wake by (auto simp: rw_wake_inv_def)
  have mem: "pc \<in> set (rw_pcs w)" if "pc \<in> set ?p" "pc \<noteq> QWakeCall" for pc
    using that set_update_subset_insert [of "rw_pcs w" t QWakeCall] by blast
  have ne: "of_nat k \<noteq> (of_nat (rw_wakes w) + 1 :: u32)" if "k \<le> rw_wakes w" for k
  proof
    assume "of_nat k = (of_nat (rw_wakes w) + 1 :: u32)"
    then have "(of_nat k :: u32) = of_nat (rw_wakes w + 1)" by simp
    then have "k mod 2 ^ 32 = (rw_wakes w + 1) mod 2 ^ 32" unfolding word_of_nat_eq_iff by (simp add: take_bit_eq_mod)
    then show False using that small by simp
  qed
  have "\<not> waits_on (of_nat (rw_wakes w) + 1) pc" if "pc \<in> set ?p" for pc
  proof
    assume a: "waits_on (of_nat (rw_wakes w) + 1) pc"
    then have "pc \<noteq> QWakeCall" by auto
    then have "pc \<in> set (rw_pcs w)" using mem [OF that] by simp
    then have "\<exists>k \<le> rw_wakes w. of_nat (rw_wakes w) + 1 = (of_nat k :: u32)"
      using a w(3) [of "of_nat (rw_wakes w) + 1"] unfolding waits_on_def by auto
    then show False using ne by metis
  qed
  then have "num (waits_on (of_nat (rw_wakes w) + 1)) ?p = 0" unfolding num_0_iff by blast
  moreover have "num (\<lambda>pc. pc = QDropErr) ?p = 0" using num_update [OF t, of "\<lambda>pc. pc = QDropErr" QWakeCall] w(1) by simp
  moreover have "0 < num (\<lambda>pc. pc = QWakeCall) ?p" using num_update_pos [OF t] by simp
  moreover have "\<exists>k \<le> Suc (rw_wakes w). e = of_nat k" if "QReadWait e \<in> set ?p \<or> QWriteWait e \<in> set ?p" for e
    using mem [of "QReadWait e"] mem [of "QWriteWait e"] that w(3) [of e] le_SucI by blast
  ultimately show ?thesis using w(2) pc by (simp add: rw_wake_inv_def rw_put_def ac_simps)
qed

text \<open>The second: nobody stays asleep, and the writers among the sleepers are on their way.\<close>

lemma rw_sleepers_iff: "i \<in> rw_sleepers pcs \<longleftrightarrow> i < length pcs \<and> rw_asleep (pcs ! i)"
  by (auto simp: rw_sleepers_def sleepers_def rw_asleep_def)

lemma rw_resume_nth:
  "i < length pcs \<Longrightarrow> rw_resume (rw_sleepers pcs) pcs ! i =
     (if pcs ! i = QWriteAsleep then QDrop else if pcs ! i = QReadAsleep then QRead else pcs ! i)"
  by (auto simp: rw_resume_def rw_sleepers_iff rw_asleep_def)

lemma resume_justified:
  assumes j: "justified l pcs" and t: "t < length pcs" "pcs ! t = QWakeCall"
  shows "justified l ((rw_resume (rw_sleepers pcs) pcs)[t := QIdle])"
proof -
  let ?p = "(rw_resume (rw_sleepers pcs) pcs)[t := QIdle]"
  have nth: "?p ! i = (if i = t then QIdle else if pcs ! i = QWriteAsleep then QDrop
      else if pcs ! i = QReadAsleep then QRead else pcs ! i)" if "i < length pcs" for i
    using that by (simp add: rw_resume_nth nth_list_update)
  have keep: "0 < num P ?p" if pos: "0 < num P pcs" and off: "\<And>pc. P pc \<Longrightarrow> pc \<noteq> QWakeCall \<and> \<not> rw_asleep pc" for P
  proof -
    obtain i where i: "i < length pcs" "P (pcs ! i)" using pos unfolding num_ex by blast
    then have "i \<noteq> t" "\<not> rw_asleep (pcs ! i)" using off t(2) by auto
    then have "?p ! i = pcs ! i" using nth [OF i(1)] by (simp add: rw_asleep_def)
    then show ?thesis using i num_ex [of P ?p] by (metis length_list_update length_rw_resume)
  qed
  have drop: "0 < num (awake_writer (rw_epoch l)) ?p" if pos: "0 < num (\<lambda>pc. pc = QWriteAsleep) pcs"
  proof -
    obtain i where i: "i < length pcs" "pcs ! i = QWriteAsleep" using pos unfolding num_ex by blast
    then have "?p ! i = QDrop" using nth t(2) by auto
    then show ?thesis using i num_pos [of i ?p "awake_writer (rw_epoch l)"] by simp
  qed
  have "awake_writer (rw_epoch l) pc \<Longrightarrow> pc \<noteq> QWakeCall \<and> \<not> rw_asleep pc" for pc by (auto simp: awake_writer_def)
  then show ?thesis using j keep [of "\<lambda>pc. pc = QWakeAdd"] keep [of "awake_writer (rw_epoch l)"] drop
    unfolding justified_def by auto
qed

lemma wake_call_wake:
  assumes wake: "rw_wake_inv w" and t: "t < length (rw_pcs w)" "rw_pcs w ! t = QWakeCall"
  shows "rw_wake_inv (w\<lparr>rw_pcs := (rw_resume (rw_sleepers (rw_pcs w)) (rw_pcs w))[t := QIdle]\<rparr>)"
proof -
  let ?p = "(rw_resume (rw_sleepers (rw_pcs w)) (rw_pcs w))[t := QIdle]"
  have nth: "?p ! i = (if i = t then QIdle else if rw_pcs w ! i = QWriteAsleep then QDrop
      else if rw_pcs w ! i = QReadAsleep then QRead else rw_pcs w ! i)" if "i < length (rw_pcs w)" for i
    using that by (simp add: rw_resume_nth nth_list_update)
  have prev: "pc \<in> set (rw_pcs w)" if mem: "pc \<in> set ?p" and off: "pc \<notin> {QIdle, QDrop, QRead}" for pc
  proof -
    obtain i where i: "i < length (rw_pcs w)" "?p ! i = pc" using mem by (auto simp: in_set_conv_nth)
    then have "rw_pcs w ! i = pc" using nth [OF i(1)] off by (auto split: if_splits)
    then show ?thesis using nth_mem [OF i(1)] by simp
  qed
  have w: "num (\<lambda>pc. pc = QDropErr) (rw_pcs w) = 0" "rw_epoch (rw_lock w) = of_nat (rw_wakes w)"
    "\<And>e. QReadWait e \<in> set (rw_pcs w) \<or> QWriteWait e \<in> set (rw_pcs w) \<Longrightarrow> \<exists>k \<le> rw_wakes w. e = of_nat k"
    "0 < num (waits_on (rw_epoch (rw_lock w))) (rw_pcs w) \<Longrightarrow> justified (rw_lock w) (rw_pcs w)"
    using wake by (auto simp: rw_wake_inv_def)
  have "num rw_asleep ?p = 0" unfolding num_0_iff
  proof
    fix pc assume "pc \<in> set ?p"
    then obtain i where i: "i < length (rw_pcs w)" "?p ! i = pc" by (auto simp: in_set_conv_nth)
    then show "\<not> rw_asleep pc" using nth [OF i(1)] by (auto simp: rw_asleep_def split: if_splits)
  qed
  moreover have "num (\<lambda>pc. pc = QDropErr) ?p = 0"
    using prev [of QDropErr] w(1) unfolding num_0_iff by auto
  moreover have "\<exists>k \<le> rw_wakes w. e = of_nat k" if "QReadWait e \<in> set ?p \<or> QWriteWait e \<in> set ?p" for e
    using prev [of "QReadWait e"] prev [of "QWriteWait e"] that w(3) [of e] by auto
  moreover have "justified (rw_lock w) ?p" if pos: "0 < num (waits_on (rw_epoch (rw_lock w))) ?p"
  proof -
    obtain pc where pc: "pc \<in> set ?p" "waits_on (rw_epoch (rw_lock w)) pc"
      using pos num_0_iff [of "waits_on (rw_epoch (rw_lock w))" ?p] by (metis less_numeral_extra(3))
    then have "pc \<notin> {QIdle, QDrop, QRead}" by auto
    then have "pc \<in> set (rw_pcs w)" using prev [OF pc(1)] by blast
    then have "0 < num (waits_on (rw_epoch (rw_lock w))) (rw_pcs w)"
      using pc(2) num_0_iff [of "waits_on (rw_epoch (rw_lock w))" "rw_pcs w"] by auto
    then show ?thesis using resume_justified [OF w(4) t] by blast
  qed
  ultimately show ?thesis using w(2) by (simp add: rw_wake_inv_def)
qed

lemma rw_next_wake:
  assumes inv: "rw_inv w" and wake: "rw_wake_inv w" and t: "t < length (rw_pcs w)"
    and small: "rw_wakes (rw_put t (rw_next (rw_lock w) (rw_pcs w ! t)) w) < 2 ^ 32"
  shows "rw_wake_inv (rw_put t (rw_next (rw_lock w) (rw_pcs w ! t)) w)"
proof (cases "rw_pcs w ! t")
  case QRead
  then show ?thesis using read_section_wake [OF inv wake t] by simp
next
  case QWrite
  then show ?thesis using write_section_wake(1) [OF inv wake t] by simp
next
  case (QReadWait e)
  then show ?thesis
    using justified_keep [OF _ t, of "rw_lock w" "rw_lock w"] by (auto intro!: rw_wake_put [OF wake t refl])
next
  case (QWriteWait e)
  then show ?thesis
    using justified_keep [OF _ t, of "rw_lock w" "rw_lock w"] justified_new [OF t, of QDrop "rw_lock w"]
    by (auto intro!: rw_wake_put [OF wake t refl])
next
  case QDrop
  then show ?thesis
    using justified_new [OF t, of QWrite "drop_waiting (rw_lock w)"]
    by (auto simp: drop_waiting_def intro!: rw_wake_put [OF wake t refl])
next
  case QDropErr
  then show ?thesis using wake num_pos [OF t, of "\<lambda>pc. pc = QDropErr"] by (auto simp: rw_wake_inv_def)
next
  case QWakeAdd
  then show ?thesis using wake_add_wake [OF wake t] small by (simp add: rw_put_def)
qed (use wake list_update_id [of "rw_pcs w" t] in \<open>simp_all add: rw_put_def\<close>)

lemma rw_step_wake:
  assumes inv: "rw_inv w" and wake: "rw_wake_inv w" and step: "rw_step wc False w w'"
    and all: "length (rw_pcs w) \<le> wc 0xFFFFFFFF" and small: "rw_wakes w' < 2 ^ 32"
  shows "rw_wake_inv w'"
  using step
proof (cases rule: rw_step.cases)
  case (running t)
  then show ?thesis using rw_next_wake [OF inv wake] small by simp
next
  case (call_read t)
  then show ?thesis
    using justified_keep [OF _ call_read(2), of "rw_lock w" "rw_lock w"]
    by (auto intro!: rw_wake_put [OF wake call_read(2) refl])
next
  case (call_write t)
  then show ?thesis
    using justified_new [OF call_write(2), of QWrite] by (auto intro!: rw_wake_put [OF wake call_write(2) refl])
next
  case (try_read t)
  then show ?thesis using read_section_wake [OF inv wake] by simp
next
  case (try_write t)
  then show ?thesis using write_section_wake(2) [OF inv wake] by simp
next
  case (read_unlock t)
  then show ?thesis using unlock_sections_wake(1) [OF inv wake] by simp
next
  case (write_unlock t)
  then show ?thesis using unlock_sections_wake(2) [OF inv wake] by simp
next
  case (interrupted_reader t)
  then show ?thesis
    using justified_keep [OF _ interrupted_reader(2), of "rw_lock w" "rw_lock w"]
    by (auto intro!: rw_wake_put [OF wake interrupted_reader(2) refl])
next
  case (interrupted_writer t)
  then show ?thesis
    using justified_new [OF interrupted_writer(2), of QDrop]
    by (auto intro!: rw_wake_put [OF wake interrupted_writer(2) refl])
next
  case (waking t S)
  have "finite (rw_sleepers (rw_pcs w))" by (simp add: rw_sleepers_def)
  moreover have "rw_sleepers (rw_pcs w) \<subseteq> {..<length (rw_pcs w)}" by (auto simp: rw_sleepers_iff)
  then have "card (rw_sleepers (rw_pcs w)) \<le> length (rw_pcs w)"
    using card_mono [of "{..<length (rw_pcs w)}" "rw_sleepers (rw_pcs w)"] by simp
  then have "card (rw_sleepers (rw_pcs w)) \<le> wc 0xFFFFFFFF" using all by linarith
  then have "card S = card (rw_sleepers (rw_pcs w))" using waking(5) by simp
  ultimately have "S = rw_sleepers (rw_pcs w)" using waking(4) by (intro card_subset_eq)
  then show ?thesis using wake_call_wake [OF wake waking(2,3)] waking(1) by simp
qed simp_all

lemma rw_wakes_mono: "rw_step wc mf w w' \<Longrightarrow> rw_wakes w \<le> rw_wakes w'"
  by (erule rw_step.cases) (simp_all add: rw_put_def)

lemma rw_length: "rw_step wc mf w w' \<Longrightarrow> length (rw_pcs w') = length (rw_pcs w)"
  by (erule rw_step.cases) (simp_all add: rw_put_def)

lemma rw_length_fixed: "reaches (rw_step wc mf) w w' \<Longrightarrow> length (rw_pcs w') = length (rw_pcs w)"
  by (induction rule: reaches.induct) (simp_all add: rw_length)

interpretation rw_wake_sys: inductive_invariant "\<lambda>w. w = rw_start n \<and> n < 2 ^ 32" "rw_step wc False"
  "\<lambda>w. rw_inv w \<and> length (rw_pcs w) = n \<and> (n \<le> wc 0xFFFFFFFF \<longrightarrow> rw_wakes w < 2 ^ 32 \<longrightarrow> rw_wake_inv w)" for n wc
proof unfold_locales
  fix w assume w: "w = rw_start n \<and> n < 2 ^ 32"
  then have "rw_inv w" using rw_sys.init_inv by blast
  moreover have "rw_wake_inv w"
    using w by (auto simp: rw_wake_inv_def rw_start_def rwlock_new_def num_def sum_list_replicate)
  ultimately show "rw_inv w \<and> length (rw_pcs w) = n \<and> (n \<le> wc 0xFFFFFFFF \<longrightarrow> rw_wakes w < 2 ^ 32 \<longrightarrow> rw_wake_inv w)"
    using w by (simp add: rw_start_def)
next
  fix w w'
  assume inv: "rw_inv w \<and> length (rw_pcs w) = n \<and> (n \<le> wc 0xFFFFFFFF \<longrightarrow> rw_wakes w < 2 ^ 32 \<longrightarrow> rw_wake_inv w)"
    and step: "rw_step wc False w w'"
  have "rw_wake_inv w'" if "n \<le> wc 0xFFFFFFFF" "rw_wakes w' < 2 ^ 32"
    using inv that rw_wakes_mono [OF step] rw_step_wake [OF _ _ step] by simp
  then show "rw_inv w' \<and> length (rw_pcs w') = n \<and> (n \<le> wc 0xFFFFFFFF \<longrightarrow> rw_wakes w' < 2 ^ 32 \<longrightarrow> rw_wake_inv w')"
    using inv rw_step_inv [OF _ step] rw_length [OF step] by simp
qed

text \<open>The counts of the invariant, read as exclusion between any two threads.\<close>

lemma rw_inv_excludes:
  assumes inv: "rw_inv w" and len: "i < length (rw_pcs w)" "j < length (rw_pcs w)" and i: "rw_pcs w ! i = QWriting"
  shows "rw_pcs w ! j \<noteq> QReading \<and> (rw_pcs w ! j = QWriting \<longrightarrow> i = j)"
proof -
  have one: "num (\<lambda>pc. pc = QWriting) (rw_pcs w) = 1"
    using inv num_pos [OF len(1), of "\<lambda>pc. pc = QWriting"] i by (simp add: rw_inv_def)
  then have "num (\<lambda>pc. pc = QReading) (rw_pcs w) = 0" using inv by (simp add: rw_inv_def)
  then have "rw_pcs w ! j \<noteq> QReading" using len unfolding num_0_iff by (metis nth_mem)
  moreover have "i = j" if "rw_pcs w ! j = QWriting"
  proof (rule ccontr)
    assume "i \<noteq> j"
    have "num (\<lambda>pc. pc = QWriting) ((rw_pcs w)[i := QIdle]) = 0"
      using num_update [OF len(1), of "\<lambda>pc. pc = QWriting" QIdle] one i by simp
    moreover have "0 < num (\<lambda>pc. pc = QWriting) ((rw_pcs w)[i := QIdle])"
      using num_pos [of j "(rw_pcs w)[i := QIdle]" "\<lambda>pc. pc = QWriting"] that len \<open>i \<noteq> j\<close> by simp
    ultimately show False by simp
  qed
  ultimately show ?thesis by simp
qed

section \<open>Properties\<close>

text \<open>
  C33. The rwlock excludes: with fewer than \<open>2 ^ 32\<close> threads, in every interleaving of blocking and
  trying acquires and of unlocks, whatever the gate and the futex calls report, \<open>readers\<close>,
  \<open>waiting_writers\<close> and \<open>writer_active\<close> count exactly the threads that read, the writers that wait and
  the writers that hold the lock, without wrapping; and a writer that holds the lock is the only
  holder.
\<close>

theorem rwlock_exclusive:
  assumes "n < 2 ^ 32" and "reaches (rw_step wc mf) (rw_start n) w"
  shows "unat (rw_readers (rw_lock w)) = num (\<lambda>pc. pc = QReading) (rw_pcs w)
    \<and> unat (rw_waiting_writers (rw_lock w)) = num writer_waits (rw_pcs w)
    \<and> unat (rw_writer_active (rw_lock w)) = num (\<lambda>pc. pc = QWriting) (rw_pcs w)
    \<and> (\<forall>i < n. \<forall>j < n. rw_pcs w ! i = QWriting \<longrightarrow>
          rw_pcs w ! j \<noteq> QReading \<and> (rw_pcs w ! j = QWriting \<longrightarrow> i = j))"
proof -
  have inv: "rw_inv w" using rw_sys.reachable_inv [OF _ assms(2)] assms(1) by blast
  have "length (rw_pcs w) = n"
    using rw_length_fixed [OF assms(2)] by (simp add: rw_start_def)
  then show ?thesis using rw_inv_excludes [OF inv] inv by (simp add: rw_inv_def)
qed

text \<open>Thread 0 takes the lock to write; thread 1 finds it taken and sleeps.\<close>

definition rw_demo :: rw_world where
  "rw_demo = \<lparr>rw_lock = \<lparr>rw_epoch = 0, rw_readers = 0, rw_waiting_writers = 0, rw_writer_active = 1\<rparr>,
     rw_pcs = [QWriting, QReadAsleep], rw_wakes = 0\<rparr>"

lemma rw_demo_reached: "reaches (rw_step wc mf) (rw_start 2) rw_demo"
proof -
  let ?w = "\<lambda>a p q. \<lparr>rw_lock = \<lparr>rw_epoch = 0, rw_readers = 0, rw_waiting_writers = 0, rw_writer_active = a\<rparr>,
     rw_pcs = [p, q], rw_wakes = 0\<rparr>"
  have "reaches (rw_step wc mf) (rw_start 2) (?w 0 QIdle QIdle)"
    by (simp add: rw_start_def rwlock_new_def numeral_2_eq_2 reaches.base)
  also have "rw_step wc mf (?w 0 QIdle QIdle) (?w 0 QWrite QIdle)"
    using rw_step.call_write [of 0 "?w 0 QIdle QIdle"] by (simp add: rw_put_def)
  also have "rw_step wc mf (?w 0 QWrite QIdle) (?w 1 QWriting QIdle)"
    using rw_step.running [of 0 "?w 0 QWrite QIdle"] by (simp add: rw_put_def write_section_def write_available_def)
  also have "rw_step wc mf (?w 1 QWriting QIdle) (?w 1 QWriting QRead)"
    using rw_step.call_read [of 1 "?w 1 QWriting QIdle"] by (simp add: rw_put_def)
  also have "rw_step wc mf (?w 1 QWriting QRead) (?w 1 QWriting (QReadWait 0))"
    using rw_step.running [of 1 "?w 1 QWriting QRead"] by (simp add: rw_put_def read_section_def)
  also have "rw_step wc mf (?w 1 QWriting (QReadWait 0)) rw_demo"
    using rw_step.running [of 1 "?w 1 QWriting (QReadWait 0)"] by (simp add: rw_put_def rw_demo_def)
  finally show ?thesis .
qed

theorem rwlock_exclusive_witness:
  "rw_pcs rw_demo ! 0 = QWriting \<and> rw_pcs rw_demo ! 1 \<noteq> QReading
   \<and> unat (rw_writer_active (rw_lock rw_demo)) = num (\<lambda>pc. pc = QWriting) (rw_pcs rw_demo)"
  using rwlock_exclusive [OF _ rw_demo_reached] by (simp add: rw_demo_def)

text \<open>
  No wakeup of the rwlock would be lost if the kernel took the count \<open>u32::MAX\<close> at its word, which Linux
  does not document: if the kernel resumes every sleeper for the count \<open>u32::MAX\<close>,
  the waits and the gate do not fail and fewer than \<open>2 ^ 32\<close> wakes were issued (the epoch word has
  not wrapped), a thread sleeps only while a writer holds the lock, a reader holds it beside a
  waiting writer, a wake is under way, or a writer is on its way to look at the lock. So with
  every call at rest a sleeper implies a holder.
\<close>

theorem rwlock_no_lost_wakeup:
  assumes "n < 2 ^ 32" and "n \<le> wc 0xFFFFFFFF" and "reaches (rw_step wc False) (rw_start n) w"
    and "rw_wakes w < 2 ^ 32" and "i < n" and "rw_pcs w ! i = QReadAsleep \<or> rw_pcs w ! i = QWriteAsleep"
  shows "(\<exists>pc \<in> set (rw_pcs w). pc \<in> {QWriting, QWakeAdd, QWakeCall} \<or> awake_writer (rw_epoch (rw_lock w)) pc)
     \<or> (QReading \<in> set (rw_pcs w) \<and> (\<exists>pc \<in> set (rw_pcs w). writer_waits pc))"
proof -
  have inv: "rw_inv w" and len: "length (rw_pcs w) = n" and wake: "rw_wake_inv w"
    using rw_wake_sys.reachable_inv [OF _ assms(3), of n] assms(1,2,4) by auto
  have "0 < num rw_asleep (rw_pcs w)" using num_pos [of i "rw_pcs w" rw_asleep] assms(5,6) len by auto
  then have j: "justified (rw_lock w) (rw_pcs w) \<or> 0 < num (\<lambda>pc. pc = QWakeCall) (rw_pcs w)"
    using wake by (simp add: rw_wake_inv_def)
  have ex: "\<exists>pc \<in> set (rw_pcs w). P pc" if "0 < num P (rw_pcs w)" for P
    using that num_0_iff [of P "rw_pcs w"] by auto
  have words: "rw_writer_active (rw_lock w) \<noteq> 0 \<Longrightarrow> 0 < writers_num (rw_pcs w)"
    "rw_readers (rw_lock w) \<noteq> 0 \<Longrightarrow> 0 < readers_num (rw_pcs w)"
    "rw_waiting_writers (rw_lock w) \<noteq> 0 \<Longrightarrow> 0 < waiting_num (rw_pcs w)"
    using inv unat_gt_0 [of "rw_writer_active (rw_lock w)"] unat_gt_0 [of "rw_readers (rw_lock w)"]
      unat_gt_0 [of "rw_waiting_writers (rw_lock w)"] by (simp_all add: rw_inv_def)
  from j consider "rw_writer_active (rw_lock w) \<noteq> 0" | "0 < num (\<lambda>pc. pc = QWakeAdd) (rw_pcs w)"
    | "rw_readers (rw_lock w) \<noteq> 0" "rw_waiting_writers (rw_lock w) \<noteq> 0"
    | "0 < num (awake_writer (rw_epoch (rw_lock w))) (rw_pcs w)" | "0 < num (\<lambda>pc. pc = QWakeCall) (rw_pcs w)"
    unfolding justified_def by auto
  then show ?thesis
  proof cases
    case 3
    then show ?thesis using ex [OF words(2)] ex [OF words(3)] by auto
  qed (use ex [OF words(1)] ex in \<open>blast+\<close>)
qed

theorem rwlock_no_lost_wakeup_witness:
  "(\<exists>pc \<in> set (rw_pcs rw_demo). pc \<in> {QWriting, QWakeAdd, QWakeCall} \<or> awake_writer (rw_epoch (rw_lock rw_demo)) pc)
   \<or> (QReading \<in> set (rw_pcs rw_demo) \<and> (\<exists>pc \<in> set (rw_pcs rw_demo). writer_waits pc))"
proof -
  have "(2 :: nat) \<le> unat (0xFFFFFFFF :: u32)" by simp
  then show ?thesis using rwlock_no_lost_wakeup [OF _ _ rw_demo_reached, of unat 1] by (simp add: rw_demo_def)
qed

end
