(* ===== verification/Channel_Local.thy ===== *)
theory Channel_Local
  imports Sync_Shared
begin

text \<open>
  The local channel of \<open>fusion-sys/channel/channel.rs\<close> with the transport, protocol and channel
  vocabulary of \<open>fusion-pal/contract/pal/interconnect/\<close>: one producer, up to \<open>MAX_CONSUMERS\<close>
  consumers, a ring buffer of \<open>CAPACITY\<close> slots.

  Every operation runs under \<open>try_lock\<close>, whose outcome is an argument. \<open>CAPACITY\<close> and
  \<open>MAX_CONSUMERS\<close> are the lengths of the two arrays of the state.
\<close>

unbundle bit_operations_syntax

section \<open>Vocabulary\<close>

datatype transport_error_kind = TransportUnsupported | TransportInvalid | TransportBusy | TransportPermissionDenied
  | TransportResourceExhausted | TransportStateConflict | TransportNotAttached | TransportPlatform int

datatype channel_error_kind = ChannelUnsupported | ChannelInvalid | ChannelBusy | ChannelPermissionDenied
  | ChannelResourceExhausted | ChannelStateConflict | ChannelProtocolMismatch | ChannelTransportDenied
  | ChannelPlatform int

datatype protocol_error_kind = ProtocolUnsupported | ProtocolInvalid | ProtocolTransportMismatch

datatype implementation_kind = Native | Emulated | ImplUnsupported
datatype transport_direction = Unidirectional
datatype transport_topology = TopologySpsc | TopologySpmc | TopologyMpsc | TopologyMpmc
datatype transport_framing = FramingMessage | FramingStream | FramingPacket
datatype transport_ordering = OrderPreserved | OrderUnordered
datatype transport_reliability = Reliable | BestEffort
datatype transport_backpressure = RejectWhenFull | YieldUntilSpace | BlockUntilSpace
datatype transport_attachment_model = ScopedHandles | FixedEndpoints
datatype transport_wake_model = ExplicitPoll | Readiness | Completion
datatype attachment_law = ExclusiveSpsc | PromotableSpmc | SharedSpmc
datatype attachment_scope = SameCourier | CrossCourier | CrossDomain
datatype access_requirement = AccessUnsupported | AccessAvailable
datatype channel_mode = ModeSpsc | ModeSpmc

abbreviation ATTACH_PRODUCER :: u32 where "ATTACH_PRODUCER \<equiv> 1"
abbreviation ATTACH_CONSUMER :: u32 where "ATTACH_CONSUMER \<equiv> 2"
abbreviation DETACH_PRODUCER :: u32 where "DETACH_PRODUCER \<equiv> 4"
abbreviation DETACH_CONSUMER :: u32 where "DETACH_CONSUMER \<equiv> 8"
abbreviation TOPOLOGY_PROMOTION :: u32 where "TOPOLOGY_PROMOTION \<equiv> 16"
abbreviation CROSS_COURIER_ATTACH :: u32 where "CROSS_COURIER_ATTACH \<equiv> 32"
abbreviation TRANSPORT_BUFFERED :: u32 where "TRANSPORT_BUFFERED \<equiv> 128"

record attachment_request =
  scope :: attachment_scope
  requested_law :: "attachment_law option"

record transport_support =
  ts_caps :: u32
  ts_implementation :: implementation_kind
  ts_direction :: transport_direction
  ts_topology :: transport_topology
  ts_framing :: transport_framing
  ts_ordering :: transport_ordering
  ts_reliability :: transport_reliability
  ts_backpressure :: transport_backpressure
  ts_attachment :: transport_attachment_model
  ts_attachment_law :: attachment_law
  ts_wake :: transport_wake_model
  ts_same_courier_attach :: access_requirement
  ts_cross_courier_attach :: access_requirement
  ts_cross_domain_attach :: access_requirement

record protocol_requirements =
  pr_direction :: transport_direction
  pr_framing :: transport_framing
  pr_requires_ordering :: bool
  pr_requires_reliability :: bool

text \<open>The parts of a protocol descriptor that \<open>validate_transport\<close> reads.\<close>

record protocol_descriptor =
  pd_implementation :: implementation_kind
  pd_transport :: protocol_requirements

definition validate_transport :: "protocol_descriptor \<Rightarrow> transport_support \<Rightarrow> (unit, protocol_error_kind) result" where
  "validate_transport d t =
     (if pd_implementation d = ImplUnsupported then Err ProtocolUnsupported
      else if pr_direction (pd_transport d) \<noteq> ts_direction t then Err ProtocolTransportMismatch
      else if pr_framing (pd_transport d) \<noteq> ts_framing t then Err ProtocolTransportMismatch
      else if pr_requires_ordering (pd_transport d) \<and> ts_ordering t \<noteq> OrderPreserved then Err ProtocolTransportMismatch
      else if pr_requires_reliability (pd_transport d) \<and> ts_reliability t \<noteq> Reliable then Err ProtocolTransportMismatch
      else Ok ())"

fun channel_error_from_protocol :: "protocol_error_kind \<Rightarrow> channel_error_kind" where
  "channel_error_from_protocol ProtocolUnsupported = ChannelUnsupported"
| "channel_error_from_protocol ProtocolInvalid = ChannelInvalid"
| "channel_error_from_protocol ProtocolTransportMismatch = ChannelProtocolMismatch"

fun channel_error_from_sync :: "sync_error_kind \<Rightarrow> channel_error_kind" where
  "channel_error_from_sync SyncUnsupported = ChannelUnsupported"
| "channel_error_from_sync SyncInvalid = ChannelInvalid"
| "channel_error_from_sync SyncOverflow = ChannelInvalid"
| "channel_error_from_sync SyncBusy = ChannelBusy"
| "channel_error_from_sync SyncPermissionDenied = ChannelPermissionDenied"
| "channel_error_from_sync (SyncPlatform code) = ChannelPlatform code"

fun transport_error_from_sync :: "sync_error_kind \<Rightarrow> transport_error_kind" where
  "transport_error_from_sync SyncUnsupported = TransportUnsupported"
| "transport_error_from_sync SyncInvalid = TransportInvalid"
| "transport_error_from_sync SyncOverflow = TransportInvalid"
| "transport_error_from_sync SyncBusy = TransportBusy"
| "transport_error_from_sync SyncPermissionDenied = TransportPermissionDenied"
| "transport_error_from_sync (SyncPlatform code) = TransportPlatform code"

section \<open>The channel\<close>

record 'm local_channel =
  buffer :: "'m option list"
  head :: usize
  tail :: usize
  queue_len :: usize
  channel_law :: attachment_law
  next_attachment :: usize
  producer :: "usize option"
  consumers :: "usize option list"

definition local_channel_state_new :: "usize \<Rightarrow> usize \<Rightarrow> attachment_law \<Rightarrow> 'm local_channel" where
  "local_channel_state_new capacity max_consumers law =
     \<lparr>buffer = replicate capacity None, head = 0, tail = 0, queue_len = 0, channel_law = law,
      next_attachment = 1, producer = None, consumers = replicate max_consumers None\<rparr>"

definition consumer_count :: "'m local_channel \<Rightarrow> usize" where
  "consumer_count s = length (filter (\<lambda>token. token \<noteq> None) (consumers s))"

definition mode :: "'m local_channel \<Rightarrow> channel_mode" where
  "mode s = (if channel_law s \<in> {PromotableSpmc, SharedSpmc} \<and> consumer_count s > 1 then ModeSpmc else ModeSpsc)"

definition transport_support_of :: "channel_mode \<Rightarrow> attachment_law \<Rightarrow> transport_support" where
  "transport_support_of m law = \<lparr>
     ts_caps = (let caps = ATTACH_PRODUCER OR ATTACH_CONSUMER OR DETACH_PRODUCER OR DETACH_CONSUMER
                  OR CROSS_COURIER_ATTACH OR TRANSPORT_BUFFERED
                in if law = PromotableSpmc then caps OR TOPOLOGY_PROMOTION else caps),
     ts_implementation = Native, ts_direction = Unidirectional,
     ts_topology = (case m of ModeSpsc \<Rightarrow> TopologySpsc | ModeSpmc \<Rightarrow> TopologySpmc),
     ts_framing = FramingMessage, ts_ordering = OrderPreserved, ts_reliability = Reliable,
     ts_backpressure = RejectWhenFull, ts_attachment = ScopedHandles, ts_attachment_law = law,
     ts_wake = ExplicitPoll, ts_same_courier_attach = AccessAvailable,
     ts_cross_courier_attach = AccessAvailable, ts_cross_domain_attach = AccessUnsupported\<rparr>"

definition new_with_attachment_law ::
    "protocol_descriptor \<Rightarrow> usize \<Rightarrow> usize \<Rightarrow> attachment_law \<Rightarrow> ('m local_channel, channel_error_kind) result" where
  "new_with_attachment_law d capacity max_consumers law =
     bind_result (map_err channel_error_from_protocol (validate_transport d (transport_support_of ModeSpsc law)))
       (\<lambda>_. Ok (local_channel_state_new capacity max_consumers law))"

fun validate_attach_request :: "attachment_scope \<Rightarrow> (unit, transport_error_kind) result" where
  "validate_attach_request SameCourier = Ok ()"
| "validate_attach_request CrossCourier = Ok ()"
| "validate_attach_request CrossDomain = Err TransportUnsupported"

text \<open>The opening of every operation: \<open>try_lock\<close>, a failed lock call, a lock that is taken.\<close>

definition with_try_lock ::
    "(sync_error_kind \<Rightarrow> 'e) \<Rightarrow> 'e \<Rightarrow> try_lock_outcome \<Rightarrow> ('s \<Rightarrow> ('a, 'e) result \<times> 's) \<Rightarrow> 's \<Rightarrow> ('a, 'e) result \<times> 's" where
  "with_try_lock conv busy lk body s = (case lk of
      Err e \<Rightarrow> (Err (conv e), s)
    | Ok False \<Rightarrow> (Err busy, s)
    | Ok True \<Rightarrow> body s)"

abbreviation transport_locked where "transport_locked \<equiv> with_try_lock transport_error_from_sync TransportBusy"
abbreviation channel_locked where "channel_locked \<equiv> with_try_lock channel_error_from_sync ChannelBusy"

definition law_refused :: "attachment_request \<Rightarrow> 'm local_channel \<Rightarrow> bool" where
  "law_refused request s = (case requested_law request of None \<Rightarrow> False | Some law \<Rightarrow> law \<noteq> channel_law s)"

definition attach_producer :: "try_lock_outcome \<Rightarrow> attachment_request \<Rightarrow> 'm local_channel \<Rightarrow>
    (usize, transport_error_kind) result \<times> 'm local_channel" where
  "attach_producer lk request s = (case validate_attach_request (scope request) of
      Err e \<Rightarrow> (Err e, s)
    | Ok _ \<Rightarrow> transport_locked lk (\<lambda>s.
        if law_refused request s then (Err TransportPermissionDenied, s)
        else if producer s \<noteq> None then (Err TransportBusy, s)
        else (Ok (next_attachment s), s\<lparr>next_attachment := wrapping_add (next_attachment s) 1,
                producer := Some (next_attachment s)\<rparr>)) s)"

definition attach_consumer :: "try_lock_outcome \<Rightarrow> attachment_request \<Rightarrow> 'm local_channel \<Rightarrow>
    (usize, transport_error_kind) result \<times> 'm local_channel" where
  "attach_consumer lk request s = (case validate_attach_request (scope request) of
      Err e \<Rightarrow> (Err e, s)
    | Ok _ \<Rightarrow> transport_locked lk (\<lambda>s.
        if law_refused request s then (Err TransportPermissionDenied, s)
        else if channel_law s = ExclusiveSpsc \<and> consumer_count s \<ge> 1 then (Err TransportStateConflict, s)
        else case position (\<lambda>slot. slot = None) (consumers s) of
            None \<Rightarrow> (Err TransportResourceExhausted, s)
          | Some slot_index \<Rightarrow> (Ok (next_attachment s), s\<lparr>next_attachment := wrapping_add (next_attachment s) 1,
                consumers := (consumers s)[slot_index := Some (next_attachment s)]\<rparr>)) s)"

definition detach_producer :: "try_lock_outcome \<Rightarrow> usize \<Rightarrow> 'm local_channel \<Rightarrow>
    (unit, transport_error_kind) result \<times> 'm local_channel" where
  "detach_producer lk attachment = transport_locked lk (\<lambda>s.
     if producer s = Some attachment then (Ok (), s\<lparr>producer := None\<rparr>) else (Err TransportNotAttached, s))"

definition detach_consumer :: "try_lock_outcome \<Rightarrow> usize \<Rightarrow> 'm local_channel \<Rightarrow>
    (unit, transport_error_kind) result \<times> 'm local_channel" where
  "detach_consumer lk attachment = transport_locked lk (\<lambda>s.
     case position (\<lambda>slot. slot = Some attachment) (consumers s) of
        None \<Rightarrow> (Err TransportNotAttached, s)
      | Some i \<Rightarrow> (Ok (), s\<lparr>consumers := (consumers s)[i := None]\<rparr>))"

text \<open>The ring buffer operations inside \<open>try_send\<close> and \<open>try_receive\<close>.\<close>

definition ring_push :: "'m \<Rightarrow> 'm local_channel \<Rightarrow> 'm local_channel option" where
  "ring_push m s = (if queue_len s = length (buffer s) then None
     else Some (s\<lparr>buffer := (buffer s)[tail s := Some m], tail := (tail s + 1) mod length (buffer s),
             queue_len := queue_len s + 1\<rparr>))"

definition ring_pop :: "'m local_channel \<Rightarrow> 'm option \<times> 'm local_channel" where
  "ring_pop s = (if queue_len s = 0 then (None, s)
     else (buffer s ! head s, s\<lparr>buffer := (buffer s)[head s := None], head := (head s + 1) mod length (buffer s),
             queue_len := queue_len s - 1\<rparr>))"

definition try_send :: "try_lock_outcome \<Rightarrow> usize \<Rightarrow> 'm \<Rightarrow> 'm local_channel \<Rightarrow>
    (unit, channel_error_kind) result \<times> 'm local_channel" where
  "try_send lk p m = channel_locked lk (\<lambda>s.
     if producer s \<noteq> Some p then (Err ChannelTransportDenied, s)
     else case ring_push m s of None \<Rightarrow> (Err ChannelBusy, s) | Some s' \<Rightarrow> (Ok (), s'))"

definition try_receive :: "try_lock_outcome \<Rightarrow> usize \<Rightarrow> 'm local_channel \<Rightarrow>
    ('m option, channel_error_kind) result \<times> 'm local_channel" where
  "try_receive lk c = channel_locked lk (\<lambda>s.
     if Some c \<notin> set (consumers s) then (Err ChannelTransportDenied, s)
     else case ring_pop s of (m, s') \<Rightarrow> (Ok m, s'))"

definition clear_pending_messages :: "try_lock_outcome \<Rightarrow> 'm local_channel \<Rightarrow>
    (usize, channel_error_kind) result \<times> 'm local_channel" where
  "clear_pending_messages lk = channel_locked lk (\<lambda>s.
     if queue_len s = 0 then (Ok 0, s)
     else (Ok (queue_len s), s\<lparr>buffer := map (\<lambda>_. None) (buffer s), head := 0, tail := 0, queue_len := 0\<rparr>))"

record local_channel_debug_state =
  pending_len :: usize
  debug_head :: usize
  debug_tail :: usize
  head_occupied :: bool
  debug_consumer_count :: usize
  producer_attached :: bool

text \<open>\<open>debug_state\<close> indexes the buffer at the head; \<open>None\<close> is the panic of an index out of bounds.\<close>

definition debug_state :: "try_lock_outcome \<Rightarrow> 'm local_channel \<Rightarrow>
    (local_channel_debug_state, channel_error_kind) result option" where
  "debug_state lk s = (case lk of
      Err e \<Rightarrow> Some (Err (channel_error_from_sync e))
    | Ok False \<Rightarrow> Some (Err ChannelBusy)
    | Ok True \<Rightarrow> if head s < length (buffer s)
        then Some (Ok \<lparr>pending_len = queue_len s, debug_head = head s, debug_tail = tail s,
               head_occupied = (buffer s ! head s \<noteq> None), debug_consumer_count = consumer_count s,
               producer_attached = (producer s \<noteq> None)\<rparr>)
        else None)"

text \<open>Calls in the order in which the lock admits them.\<close>

datatype 'm channel_op = AttachProducer try_lock_outcome attachment_request
  | AttachConsumer try_lock_outcome attachment_request | DetachProducer try_lock_outcome usize
  | DetachConsumer try_lock_outcome usize | TrySend try_lock_outcome usize 'm
  | TryReceive try_lock_outcome usize | ClearPending try_lock_outcome

datatype 'm channel_out = Attached "(usize, transport_error_kind) result" | Detached "(unit, transport_error_kind) result"
  | Sent 'm "(unit, channel_error_kind) result" | Received "('m option, channel_error_kind) result"
  | Cleared "(usize, channel_error_kind) result"

fun channel_step :: "'m channel_op \<Rightarrow> 'm local_channel \<Rightarrow> 'm channel_out \<times> 'm local_channel" where
  "channel_step (AttachProducer lk r) s = (let (x, s') = attach_producer lk r s in (Attached x, s'))"
| "channel_step (AttachConsumer lk r) s = (let (x, s') = attach_consumer lk r s in (Attached x, s'))"
| "channel_step (DetachProducer lk a) s = (let (x, s') = detach_producer lk a s in (Detached x, s'))"
| "channel_step (DetachConsumer lk a) s = (let (x, s') = detach_consumer lk a s in (Detached x, s'))"
| "channel_step (TrySend lk p m) s = (let (x, s') = try_send lk p m s in (Sent m x, s'))"
| "channel_step (TryReceive lk c) s = (let (x, s') = try_receive lk c s in (Received x, s'))"
| "channel_step (ClearPending lk) s = (let (x, s') = clear_pending_messages lk s in (Cleared x, s'))"

fun channel_run :: "'m channel_op list \<Rightarrow> 'm local_channel \<Rightarrow> 'm channel_out list \<times> 'm local_channel" where
  "channel_run [] s = ([], s)"
| "channel_run (a # as) s = (let (x, s1) = channel_step a s; (xs, s2) = channel_run as s1 in (x # xs, s2))"

end
