(* ===== verification/Channel_Local_Props.thy ===== *)
theory Channel_Local_Props
  imports Channel_Local
begin

text \<open>
  The local channel keeps a first-in first-out queue of what was sent: the ring buffer implements
  the \<open>bounded_fifo\<close> contract, and the channel's calls are calls on that queue behind the
  attachment checks.
\<close>

section \<open>The contract of a bounded queue\<close>

locale bounded_fifo =
  fixes inv :: "'s \<Rightarrow> bool"
    and contents :: "'s \<Rightarrow> 'm list"
    and capacity :: "'s \<Rightarrow> nat"
    and push :: "'m \<Rightarrow> 's \<Rightarrow> 's option"
    and pop :: "'s \<Rightarrow> 'm option \<times> 's"
  assumes fits: "inv s \<Longrightarrow> length (contents s) \<le> capacity s"
    and push_full: "inv s \<Longrightarrow> push m s = None \<longleftrightarrow> length (contents s) = capacity s"
    and push_some: "inv s \<Longrightarrow> push m s = Some s' \<Longrightarrow>
          inv s' \<and> contents s' = contents s @ [m] \<and> capacity s' = capacity s"
    and pop_none: "inv s \<Longrightarrow> contents s = [] \<Longrightarrow> pop s = (None, s)"
    and pop_some: "inv s \<Longrightarrow> contents s = m # ms \<Longrightarrow>
          \<exists>s'. pop s = (Some m, s') \<and> inv s' \<and> contents s' = ms \<and> capacity s' = capacity s"
begin

lemma pop_cases:
  assumes "inv s" "pop s = (x, s')"
  shows "inv s' \<and> capacity s' = capacity s \<and>
     contents s = (case x of None \<Rightarrow> [] | Some m \<Rightarrow> [m]) @ contents s' \<and> (x = None \<longleftrightarrow> contents s = [])"
proof (cases "contents s")
  case Nil
  then show ?thesis using pop_none [OF assms(1)] assms by simp
next
  case (Cons m ms)
  then show ?thesis using pop_some [OF assms(1) Cons] assms(2) by auto
qed

lemma push_accepted:
  assumes "inv s" "length (contents s) < capacity s"
  shows "\<exists>s'. push m s = Some s' \<and> inv s' \<and> contents s' = contents s @ [m] \<and> capacity s' = capacity s"
  using assms push_full [OF assms(1), of m] push_some [OF assms(1), of m] by (cases "push m s") auto

text \<open>What is pushed into an empty queue with room for it is popped next.\<close>

lemma push_pop_empty:
  assumes "inv s" "contents s = []" "push m s = Some s'"
  shows "fst (pop s') = Some m"
  using push_some [OF assms(1,3)] assms(2) pop_some [of s' m "[]"] by auto

end

section \<open>The ring buffer\<close>

definition ring_slot :: "'m local_channel \<Rightarrow> nat \<Rightarrow> nat" where
  "ring_slot s i = (head s + i) mod length (buffer s)"

definition pending :: "'m local_channel \<Rightarrow> 'm list" where
  "pending s = map (\<lambda>i. the (buffer s ! ring_slot s i)) [0..<queue_len s]"

definition ring_inv :: "'m local_channel \<Rightarrow> bool" where
  "ring_inv s \<longleftrightarrow> queue_len s \<le> length (buffer s) \<and> (buffer s \<noteq> [] \<longrightarrow> head s < length (buffer s))
     \<and> (buffer s \<noteq> [] \<longrightarrow> tail s = ring_slot s (queue_len s))
     \<and> (\<forall>i < queue_len s. buffer s ! ring_slot s i \<noteq> None)"

abbreviation ring_capacity :: "'m local_channel \<Rightarrow> nat" where
  "ring_capacity s \<equiv> length (buffer s)"

lemma mod_add_inject:
  fixes h :: nat
  assumes "i < c" "j < c" "(h + i) mod c = (h + j) mod c"
  shows "i = j"
proof -
  have "i mod c = j mod c" if "i \<le> j" "(h + j) mod c = (h + i) mod c" for i j
  proof -
    have "c dvd j - i" using that mod_eq_dvd_iff_nat [of "h + i" "h + j" c] by simp
    then show ?thesis using that(1) mod_eq_dvd_iff_nat [of i j c] by simp
  qed
  from this [of i j] this [of j i] show ?thesis using assms by (cases "i \<le> j") auto
qed

lemma length_pending [simp]: "length (pending s) = queue_len s"
  by (simp add: pending_def)

lemma pending_Nil: "pending s = [] \<longleftrightarrow> queue_len s = 0"
  by (simp add: pending_def)

lemma ring_push_ok:
  assumes inv: "ring_inv s" and p: "ring_push m s = Some s'"
  shows "ring_inv s' \<and> pending s' = pending s @ [m] \<and> ring_capacity s' = ring_capacity s"
proof -
  let ?c = "length (buffer s)"
  have len: "queue_len s < ?c" using inv p by (auto simp: ring_inv_def ring_push_def split: if_splits)
  then have ne: "buffer s \<noteq> []" by auto
  have h: "head s < ?c" and t: "tail s = ring_slot s (queue_len s)" and occ: "\<forall>i < queue_len s. buffer s ! ring_slot s i \<noteq> None"
    using inv ne by (simp_all add: ring_inv_def)
  have s': "s' = s\<lparr>buffer := (buffer s)[tail s := Some m], tail := (tail s + 1) mod ?c, queue_len := queue_len s + 1\<rparr>"
    using p len by (auto simp: ring_push_def split: if_splits)
  have slot: "ring_slot s' i = ring_slot s i" for i by (simp add: ring_slot_def s')
  have lt: "ring_slot s i < ?c" for i using ne by (simp add: ring_slot_def)
  have old: "buffer s' ! ring_slot s i = buffer s ! ring_slot s i" if "i < queue_len s" for i
  proof -
    have "ring_slot s i \<noteq> tail s"
      using that len mod_add_inject [of i ?c "queue_len s" "head s"] by (auto simp: t ring_slot_def)
    then show ?thesis by (simp add: s')
  qed
  have new: "buffer s' ! ring_slot s (queue_len s) = Some m" using lt by (simp add: s' t)
  have "pending s' = map (\<lambda>i. the (buffer s' ! ring_slot s i)) [0..<queue_len s] @ [m]"
    using new by (simp add: pending_def slot) (simp add: s')
  also have "map (\<lambda>i. the (buffer s' ! ring_slot s i)) [0..<queue_len s] = pending s"
    unfolding pending_def using old by simp
  finally have c: "pending s' = pending s @ [m]" .
  have "\<forall>i < queue_len s'. buffer s' ! ring_slot s' i \<noteq> None"
  proof (intro allI impI)
    fix i assume "i < queue_len s'"
    then have "i < queue_len s \<or> i = queue_len s" by (auto simp: s')
    then show "buffer s' ! ring_slot s' i \<noteq> None" using old occ new by (auto simp: slot)
  qed
  moreover have "tail s' = ring_slot s' (queue_len s')"
    by (simp add: s' ring_slot_def t mod_Suc_eq)
  ultimately have "ring_inv s'" using len h by (simp add: ring_inv_def s')
  then show ?thesis using c by (simp add: s')
qed

lemma ring_pop_ok:
  assumes inv: "ring_inv s" and c: "pending s = m # ms"
  shows "\<exists>s'. ring_pop s = (Some m, s') \<and> ring_inv s' \<and> pending s' = ms \<and> ring_capacity s' = ring_capacity s"
proof -
  let ?c = "length (buffer s)"
  have len: "0 < queue_len s" "queue_len s \<le> ?c" using inv c length_pending [of s] by (auto simp: ring_inv_def simp del: length_pending)
  then have ne: "buffer s \<noteq> []" by auto
  have h: "head s < ?c" and t: "tail s = ring_slot s (queue_len s)" and occ: "\<forall>i < queue_len s. buffer s ! ring_slot s i \<noteq> None"
    using inv ne by (simp_all add: ring_inv_def)
  define s' where "s' = s\<lparr>buffer := (buffer s)[head s := None], head := (head s + 1) mod ?c, queue_len := queue_len s - 1\<rparr>"
  have hd: "ring_slot s 0 = head s" using h by (simp add: ring_slot_def)
  have slot: "ring_slot s' i = ring_slot s (Suc i)" for i
    by (simp add: ring_slot_def s'_def mod_simps)
  have old: "buffer s' ! ring_slot s (Suc i) = buffer s ! ring_slot s (Suc i)" if "Suc i < queue_len s" for i
  proof -
    have "ring_slot s (Suc i) \<noteq> head s"
      using that len h ne mod_add_inject [of "Suc i" ?c 0 "head s"] by (auto simp: ring_slot_def)
    then show ?thesis by (simp add: s'_def)
  qed
  have "pending s = the (buffer s ! ring_slot s 0) # map (\<lambda>i. the (buffer s ! ring_slot s (Suc i))) [0..<queue_len s - 1]"
    using len by (cases "queue_len s") (simp_all add: pending_def upt_conv_Cons map_Suc_upt [symmetric] del: upt_Suc)
  then have m: "m = the (buffer s ! head s)" and ms: "ms = map (\<lambda>i. the (buffer s ! ring_slot s (Suc i))) [0..<queue_len s - 1]"
    using c hd by simp_all
  have "pending s' = map (\<lambda>i. the (buffer s' ! ring_slot s (Suc i))) [0..<queue_len s - 1]"
    by (simp add: pending_def slot) (simp add: s'_def)
  then have p: "pending s' = ms" using old ms by simp
  have "ring_pop s = (Some m, s')"
    using len occ hd m by (auto simp: ring_pop_def s'_def)
  moreover have "ring_inv s'"
  proof -
    have "\<forall>i < queue_len s'. buffer s' ! ring_slot s' i \<noteq> None"
      using old occ len by (simp add: slot) (simp add: s'_def)
    moreover have "tail s' = ring_slot s' (queue_len s')"
      using len t by (simp add: slot) (simp add: s'_def)
    moreover have "head s' < ?c" using ne by (simp add: s'_def)
    ultimately show ?thesis using len by (simp add: ring_inv_def) (simp add: s'_def)
  qed
  ultimately show ?thesis using p by (auto simp: s'_def)
qed

interpretation ring: bounded_fifo ring_inv pending ring_capacity ring_push ring_pop
proof unfold_locales
  fix s s' :: "'m local_channel" and m ms assume inv: "ring_inv s"
  show "length (pending s) \<le> ring_capacity s" using inv by (simp add: ring_inv_def)
  show "ring_push m s = None \<longleftrightarrow> length (pending s) = ring_capacity s" by (simp add: ring_push_def)
  show "ring_pop s = (None, s)" if "pending s = []" using that by (simp add: ring_pop_def pending_Nil)
  show "ring_inv s' \<and> pending s' = pending s @ [m] \<and> ring_capacity s' = ring_capacity s" if "ring_push m s = Some s'"
    using ring_push_ok [OF inv that] .
  show "\<exists>s'. ring_pop s = (Some m, s') \<and> ring_inv s' \<and> pending s' = ms \<and> ring_capacity s' = ring_capacity s"
    if "pending s = m # ms" using ring_pop_ok [OF inv that] .
qed

section \<open>Calls on the channel\<close>

text \<open>
  The specification: a bounded list. \<open>fifo_spec\<close> says which outcomes a queue of capacity \<open>cap\<close> that
  holds \<open>q\<close> may report and what it then holds.
\<close>

fun fifo_spec :: "nat \<Rightarrow> 'm channel_out \<Rightarrow> 'm list \<Rightarrow> 'm list option" where
  "fifo_spec cap (Sent m (Ok u)) q = (if length q < cap then Some (q @ [m]) else None)"
| "fifo_spec cap (Received (Ok None)) q = (if q = [] then Some [] else None)"
| "fifo_spec cap (Received (Ok (Some m))) q = (case q of [] \<Rightarrow> None | m' # q' \<Rightarrow> if m' = m then Some q' else None)"
| "fifo_spec cap (Cleared (Ok n)) q = (if n = length q then Some [] else None)"
| "fifo_spec cap x q = Some q"

fun fifo_run :: "nat \<Rightarrow> 'm channel_out list \<Rightarrow> 'm list \<Rightarrow> 'm list option" where
  "fifo_run cap [] q = Some q"
| "fifo_run cap (x # xs) q = (case fifo_spec cap x q of None \<Rightarrow> None | Some q' \<Rightarrow> fifo_run cap xs q')"

fun accepted :: "'m channel_out list \<Rightarrow> 'm list" where
  "accepted [] = []"
| "accepted (Sent m (Ok u) # xs) = m # accepted xs"
| "accepted (x # xs) = accepted xs"

fun delivered :: "'m channel_out list \<Rightarrow> 'm list" where
  "delivered [] = []"
| "delivered (Received (Ok (Some m)) # xs) = m # delivered xs"
| "delivered (x # xs) = delivered xs"

fun tokens_issued :: "'m channel_out list \<Rightarrow> usize list" where
  "tokens_issued [] = []"
| "tokens_issued (Attached (Ok t) # xs) = t # tokens_issued xs"
| "tokens_issued (x # xs) = tokens_issued xs"

lemma fifo_run_order:
  "fifo_run cap xs q = Some q' \<Longrightarrow> (\<And>n. Cleared (Ok n) \<notin> set xs) \<Longrightarrow> q @ accepted xs = delivered xs @ q'"
proof (induction xs arbitrary: q)
  case (Cons x xs)
  then obtain q1 where x: "fifo_spec cap x q = Some q1" and r: "fifo_run cap xs q1 = Some q'" by (auto split: option.splits)
  have "q1 @ accepted xs = delivered xs @ q'" using Cons.IH [OF r] Cons.prems(2) by auto
  moreover have "\<nexists>n. x = Cleared (Ok n)" using Cons.prems(2) by auto
  ultimately show ?case using x
    by (cases "(cap, x, q)" rule: fifo_spec.cases) (auto split: if_splits list.splits)
qed simp

text \<open>Calls that leave the queue alone.\<close>

definition same_queue :: "'m local_channel \<Rightarrow> 'm local_channel \<Rightarrow> bool" where
  "same_queue s s' \<longleftrightarrow> buffer s' = buffer s \<and> head s' = head s \<and> tail s' = tail s \<and> queue_len s' = queue_len s"

lemma same_queue_pending:
  assumes "same_queue s s'"
  shows "pending s' = pending s" "ring_inv s' = ring_inv s" "ring_capacity s' = ring_capacity s"
  using assms by (simp_all add: same_queue_def pending_def ring_inv_def ring_slot_def)

lemma same_queue_self [simp]: "same_queue s s"
  by (simp add: same_queue_def)

lemma with_try_lock_cases:
  assumes "with_try_lock conv busy lk body s = (x, s')"
  obtains (failed) e where "lk = Err e" "x = Err (conv e)" "s' = s"
    | (taken) "lk = Ok False" "x = Err busy" "s' = s"
    | (held) "lk = Ok True" "body s = (x, s')"
  using assms that by (auto simp: with_try_lock_def split: result.splits bool.splits)

lemma attach_producer_cases:
  assumes "attach_producer lk r s = (x, s')"
  obtains (refused) e where "x = Err e" "s' = s"
    | (ok) "x = Ok (next_attachment s)" "producer s = None"
        "s' = s\<lparr>next_attachment := wrapping_add (next_attachment s) 1, producer := Some (next_attachment s)\<rparr>"
proof (cases "validate_attach_request (scope r)")
  case (Ok u)
  then have "transport_locked lk (\<lambda>s.
        if law_refused r s then (Err TransportPermissionDenied, s)
        else if producer s \<noteq> None then (Err TransportBusy, s)
        else (Ok (next_attachment s), s\<lparr>next_attachment := wrapping_add (next_attachment s) 1,
                producer := Some (next_attachment s)\<rparr>)) s = (x, s')"
    using assms by (simp add: attach_producer_def)
  then show thesis
  proof (cases rule: with_try_lock_cases)
    case held
    show thesis
    proof (cases "law_refused r s \<or> producer s \<noteq> None")
      case True
      then have "\<exists>e. x = Err e \<and> s' = s" using held(2) by (auto split: if_splits)
      then show thesis using refused by blast
    next
      case False
      then have "x = Ok (next_attachment s) \<and> producer s = None \<and>
          s' = s\<lparr>next_attachment := wrapping_add (next_attachment s) 1, producer := Some (next_attachment s)\<rparr>"
        using held(2) by auto
      then show thesis by (intro ok) (elim conjE, assumption)+
    qed
  qed (rule refused; assumption)+
next
  case (Err e)
  then have "x = Err e" "s' = s" using assms by (simp_all add: attach_producer_def)
  then show thesis by (rule refused)
qed

lemma attach_consumer_cases:
  assumes "attach_consumer lk r s = (x, s')"
  obtains (refused) e where "x = Err e" "s' = s"
    | (ok) i where "x = Ok (next_attachment s)" "position (\<lambda>slot. slot = None) (consumers s) = Some i"
        "channel_law s = ExclusiveSpsc \<longrightarrow> consumer_count s = 0"
        "s' = s\<lparr>next_attachment := wrapping_add (next_attachment s) 1, consumers := (consumers s)[i := Some (next_attachment s)]\<rparr>"
proof (cases "validate_attach_request (scope r)")
  case (Ok u)
  then have "transport_locked lk (\<lambda>s.
        if law_refused r s then (Err TransportPermissionDenied, s)
        else if channel_law s = ExclusiveSpsc \<and> consumer_count s \<ge> 1 then (Err TransportStateConflict, s)
        else case position (\<lambda>slot. slot = None) (consumers s) of
            None \<Rightarrow> (Err TransportResourceExhausted, s)
          | Some slot_index \<Rightarrow> (Ok (next_attachment s), s\<lparr>next_attachment := wrapping_add (next_attachment s) 1,
                consumers := (consumers s)[slot_index := Some (next_attachment s)]\<rparr>)) s = (x, s')"
    using assms by (simp add: attach_consumer_def)
  then show thesis
  proof (cases rule: with_try_lock_cases)
    case held
    show thesis
    proof (cases "law_refused r s \<or> (channel_law s = ExclusiveSpsc \<and> consumer_count s \<ge> 1)
        \<or> position (\<lambda>slot. slot = None) (consumers s) = None")
      case True
      then have "\<exists>e. x = Err e \<and> s' = s" using held(2) by (auto simp del: position_None_iff split: if_splits option.splits)
      then show thesis using refused by blast
    next
      case False
      then obtain i where i: "position (\<lambda>slot. slot = None) (consumers s) = Some i" by blast
      have law: "channel_law s = ExclusiveSpsc \<longrightarrow> consumer_count s = 0" using False by auto
      have "x = Ok (next_attachment s) \<and> s' = s\<lparr>next_attachment := wrapping_add (next_attachment s) 1,
          consumers := (consumers s)[i := Some (next_attachment s)]\<rparr>"
        using held(2) False i by (auto split: if_splits)
      then show thesis using ok i law by blast
    qed
  qed (rule refused; assumption)+
next
  case (Err e)
  then have "x = Err e" "s' = s" using assms by (simp_all add: attach_consumer_def)
  then show thesis by (rule refused)
qed

lemma detach_producer_cases:
  assumes "detach_producer lk a s = (x, s')"
  obtains (refused) e where "x = Err e" "s' = s" | (ok) "x = Ok ()" "producer s = Some a" "s' = s\<lparr>producer := None\<rparr>"
  using assms unfolding detach_producer_def
proof (cases rule: with_try_lock_cases)
  case held
  show thesis
  proof (cases "producer s = Some a")
    case True
    then show thesis using held(2) by (intro ok) auto
  next
    case False
    then show thesis using held(2) by (intro refused) auto
  qed
qed (rule refused; assumption)+

lemma detach_consumer_cases:
  assumes "detach_consumer lk a s = (x, s')"
  obtains (refused) e where "x = Err e" "s' = s"
    | (ok) i where "x = Ok ()" "i < length (consumers s)" "consumers s ! i = Some a" "s' = s\<lparr>consumers := (consumers s)[i := None]\<rparr>"
  using assms unfolding detach_consumer_def
proof (cases rule: with_try_lock_cases)
  case held
  show thesis
  proof (cases "position (\<lambda>slot. slot = Some a) (consumers s)")
    case (Some i)
    then show thesis using held position_SomeD [OF Some] by (intro ok [of i]) auto
  next
    case None
    then show thesis using held(2) refused by (simp only: option.case prod.inject) blast
  qed
qed (rule refused; assumption)+

text \<open>Each call is a move of the specification.\<close>

lemma try_send_refines:
  assumes "try_send lk p m s = (x, s')" "ring_inv s"
  shows "ring_inv s' \<and> ring_capacity s' = ring_capacity s
    \<and> fifo_spec (ring_capacity s) (Sent m x) (pending s) = Some (pending s')"
  using assms(1) unfolding try_send_def
proof (cases rule: with_try_lock_cases)
  case held
  show ?thesis
  proof (cases "producer s = Some p \<and> ring_push m s \<noteq> None")
    case True
    then obtain s1 where s1: "ring_push m s = Some s1" by auto
    then have "x = Ok ()" "s' = s1" using held True by simp_all
    moreover have "length (pending s) < ring_capacity s"
      using ring.push_full [OF assms(2), of m] ring.fits [OF assms(2)] s1 by (simp del: length_pending)
    ultimately show ?thesis using ring.push_some [OF assms(2) s1] by simp
  next
    case False
    then show ?thesis using held assms(2) by (cases "producer s = Some p") auto
  qed
qed (use assms(2) in simp_all)

lemma try_receive_refines:
  assumes "try_receive lk c s = (x, s')" "ring_inv s"
  shows "ring_inv s' \<and> ring_capacity s' = ring_capacity s
    \<and> fifo_spec (ring_capacity s) (Received x) (pending s) = Some (pending s')"
  using assms(1) unfolding try_receive_def
proof (cases rule: with_try_lock_cases)
  case held
  show ?thesis
  proof (cases "Some c \<in> set (consumers s)")
    case True
    obtain y s1 where y: "ring_pop s = (y, s1)" by fastforce
    then have "x = Ok y" "s' = s1" using held True by simp_all
    then show ?thesis using ring.pop_cases [OF assms(2) y] by (cases y) auto
  next
    case False
    then show ?thesis using held assms(2) by auto
  qed
qed (use assms(2) in simp_all)

lemma clear_refines:
  assumes "clear_pending_messages lk s = (x, s')" "ring_inv s"
  shows "ring_inv s' \<and> ring_capacity s' = ring_capacity s
    \<and> fifo_spec (ring_capacity s) (Cleared x) (pending s) = Some (pending s')"
  using assms(1) unfolding clear_pending_messages_def
proof (cases rule: with_try_lock_cases)
  case held
  show ?thesis
  proof (cases "queue_len s = 0")
    case True
    then show ?thesis using held assms(2) by (auto simp: pending_Nil [THEN iffD2])
  next
    case False
    then show ?thesis using held by (auto simp: ring_inv_def ring_slot_def pending_def)
  qed
qed (use assms(2) in simp_all)

lemma channel_step_refines:
  assumes "channel_step a s = (x, s')" "ring_inv s"
  shows "ring_inv s' \<and> ring_capacity s' = ring_capacity s
    \<and> fifo_spec (ring_capacity s) x (pending s) = Some (pending s')"
proof (cases a)
  case (AttachProducer lk r)
  then obtain y where y: "attach_producer lk r s = (y, s')" "x = Attached y" using assms(1) by (auto split: prod.splits)
  from y(1) have "same_queue s s'" by (cases rule: attach_producer_cases) (auto simp: same_queue_def)
  then show ?thesis using same_queue_pending assms(2) y(2) by auto
next
  case (AttachConsumer lk r)
  then obtain y where y: "attach_consumer lk r s = (y, s')" "x = Attached y" using assms(1) by (auto split: prod.splits)
  from y(1) have "same_queue s s'" by (cases rule: attach_consumer_cases) (auto simp: same_queue_def)
  then show ?thesis using same_queue_pending assms(2) y(2) by auto
next
  case (DetachProducer lk t)
  then obtain y where y: "detach_producer lk t s = (y, s')" "x = Detached y" using assms(1) by (auto split: prod.splits)
  from y(1) have "same_queue s s'" by (cases rule: detach_producer_cases) (auto simp: same_queue_def)
  then show ?thesis using same_queue_pending assms(2) y(2) by auto
next
  case (DetachConsumer lk t)
  then obtain y where y: "detach_consumer lk t s = (y, s')" "x = Detached y" using assms(1) by (auto split: prod.splits)
  from y(1) have "same_queue s s'" by (cases rule: detach_consumer_cases) (auto simp: same_queue_def)
  then show ?thesis using same_queue_pending assms(2) y(2) by auto
next
  case (TrySend lk p m)
  then obtain y where y: "try_send lk p m s = (y, s')" "x = Sent m y" using assms(1) by (auto split: prod.splits)
  then show ?thesis using try_send_refines [OF y(1) assms(2)] by simp
next
  case (TryReceive lk c)
  then obtain y where y: "try_receive lk c s = (y, s')" "x = Received y" using assms(1) by (auto split: prod.splits)
  then show ?thesis using try_receive_refines [OF y(1) assms(2)] by simp
next
  case (ClearPending lk)
  then obtain y where y: "clear_pending_messages lk s = (y, s')" "x = Cleared y" using assms(1) by (auto split: prod.splits)
  then show ?thesis using clear_refines [OF y(1) assms(2)] by simp
qed

lemma channel_run_refines:
  "channel_run as s = (xs, s') \<Longrightarrow> ring_inv s \<Longrightarrow>
     ring_inv s' \<and> ring_capacity s' = ring_capacity s \<and> fifo_run (ring_capacity s) xs (pending s) = Some (pending s')"
proof (induction as arbitrary: s xs)
  case (Cons a as)
  obtain x s1 where x: "channel_step a s = (x, s1)" by fastforce
  obtain ys s2 where ys: "channel_run as s1 = (ys, s2)" by fastforce
  have eq: "xs = x # ys" "s' = s2" using Cons.prems(1) x ys by simp_all
  note st = channel_step_refines [OF x Cons.prems(2)]
  then show ?case using Cons.IH [of s1 ys] ys eq by simp
qed simp

section \<open>Attachments\<close>

text \<open>The tokens in force: the producer's and the consumers'.\<close>

definition live_tokens :: "'m local_channel \<Rightarrow> usize list" where
  "live_tokens s = (case producer s of None \<Rightarrow> [] | Some t \<Rightarrow> [t]) @ flatten (consumers s)"

definition token_inv :: "'m local_channel \<Rightarrow> bool" where
  "token_inv s \<longleftrightarrow> distinct (live_tokens s) \<and> (\<forall>t \<in> set (live_tokens s). t < next_attachment s)
     \<and> (channel_law s = ExclusiveSpsc \<longrightarrow> length (flatten (consumers s)) \<le> 1)"

lemma flatten_fill:
  assumes "i < length xs" "xs ! i = None"
  obtains ys zs where "flatten xs = ys @ zs" "flatten (xs[i := Some t]) = ys @ t # zs"
proof
  show "flatten xs = flatten (take i xs) @ flatten (drop (Suc i) xs)"
    using id_take_nth_drop [OF assms(1)] assms(2) by (metis flatten_Cons_None flatten_append)
  show "flatten (xs[i := Some t]) = flatten (take i xs) @ t # flatten (drop (Suc i) xs)"
    using assms(1) by (simp add: upd_conv_take_nth_drop)
qed

lemma flatten_empty:
  assumes "i < length xs" "xs ! i = Some t"
  obtains ys zs where "flatten xs = ys @ t # zs" "flatten (xs[i := None]) = ys @ zs"
proof
  show "flatten xs = flatten (take i xs) @ t # flatten (drop (Suc i) xs)"
    using id_take_nth_drop [OF assms(1)] assms(2) by (metis flatten_Cons_Some flatten_append)
  show "flatten (xs[i := None]) = flatten (take i xs) @ flatten (drop (Suc i) xs)"
    using assms(1) by (simp add: upd_conv_take_nth_drop)
qed

lemma consumer_count_flatten: "consumer_count s = length (flatten (consumers s))"
  unfolding consumer_count_def flatten_def by simp

text \<open>Calls that leave the attachments alone.\<close>

definition same_tokens :: "'m local_channel \<Rightarrow> 'm local_channel \<Rightarrow> bool" where
  "same_tokens s s' \<longleftrightarrow> producer s' = producer s \<and> consumers s' = consumers s
     \<and> next_attachment s' = next_attachment s \<and> channel_law s' = channel_law s"

lemma same_tokens_self [simp]: "same_tokens s s"
  by (simp add: same_tokens_def)

lemma ring_ops_tokens:
  "ring_push m s = Some s' \<Longrightarrow> same_tokens s s'" "ring_pop s = (x, s') \<Longrightarrow> same_tokens s s'"
  by (auto simp: ring_push_def ring_pop_def same_tokens_def split: if_splits)

lemma message_ops_tokens:
  "try_send lk p m s = (x, s') \<Longrightarrow> same_tokens s s'"
  "try_receive lk c s = (y, s') \<Longrightarrow> same_tokens s s'"
  "clear_pending_messages lk s = (z, s') \<Longrightarrow> same_tokens s s'"
proof -
  show "same_tokens s s'" if "try_send lk p m s = (x, s')"
    using that unfolding try_send_def
    by (cases rule: with_try_lock_cases) (auto split: if_splits option.splits intro: ring_ops_tokens)
  show "same_tokens s s'" if "try_receive lk c s = (y, s')"
    using that unfolding try_receive_def
    by (cases rule: with_try_lock_cases) (auto split: if_splits prod.splits intro: ring_ops_tokens)
  show "same_tokens s s'" if "clear_pending_messages lk s = (z, s')"
    using that unfolding clear_pending_messages_def
    by (cases rule: with_try_lock_cases) (auto simp: same_tokens_def split: if_splits)
qed

text \<open>What a call does to the tokens: it issues the next one, retires one, or leaves them.\<close>

lemma channel_step_tokens:
  assumes step: "channel_step a s = (x, s')" and inv: "token_inv s" and room: "next_attachment s < usize_max"
  shows "token_inv s' \<and> channel_law s' = channel_law s
    \<and> (x = Attached (Ok (next_attachment s)) \<and> next_attachment s' = next_attachment s + 1
       \<or> tokens_issued [x] = [] \<and> next_attachment s' = next_attachment s)"
proof -
  have fresh: "next_attachment s \<notin> set (live_tokens s)" using inv by (auto simp: token_inv_def)
  have wrap: "wrapping_add (next_attachment s) 1 = next_attachment s + 1" using room wrapping_add_small by simp
  have same: ?thesis if "same_tokens s s'" "tokens_issued [x] = []"
    using that inv by (simp add: same_tokens_def token_inv_def live_tokens_def)
  show ?thesis
  proof (cases a)
    case (AttachProducer lk r)
    then obtain y where y: "attach_producer lk r s = (y, s')" "x = Attached y" using step by (auto split: prod.splits)
    from y(1) show ?thesis
    proof (cases rule: attach_producer_cases)
      case ok
      then show ?thesis using y(2) fresh inv wrap by (auto simp: token_inv_def live_tokens_def)
    next
      case refused
      then show ?thesis using same y(2) by simp
    qed
  next
    case (AttachConsumer lk r)
    then obtain y where y: "attach_consumer lk r s = (y, s')" "x = Attached y" using step by (auto split: prod.splits)
    from y(1) show ?thesis
    proof (cases rule: attach_consumer_cases)
      case (ok i)
      have "i < length (consumers s)" "consumers s ! i = None" using position_SomeD [OF ok(2)] by simp_all
      then obtain ys zs where f: "flatten (consumers s) = ys @ zs"
        "flatten ((consumers s)[i := Some (next_attachment s)]) = ys @ next_attachment s # zs"
        by (rule flatten_fill)
      have "ys = [] \<and> zs = []" if "channel_law s = ExclusiveSpsc" using ok(3) that f(1) by (simp add: consumer_count_flatten)
      then show ?thesis using ok(1,4) y(2) fresh inv wrap f
        by (auto simp: token_inv_def live_tokens_def intro: less_SucI split: option.splits)
    next
      case refused
      then show ?thesis using same y(2) by simp
    qed
  next
    case (DetachProducer lk t)
    then obtain y where y: "detach_producer lk t s = (y, s')" "x = Detached y" using step by (auto split: prod.splits)
    from y(1) show ?thesis
    proof (cases rule: detach_producer_cases)
      case ok
      then show ?thesis using y(2) inv by (auto simp: token_inv_def live_tokens_def)
    next
      case refused
      then show ?thesis using same y(2) by simp
    qed
  next
    case (DetachConsumer lk t)
    then obtain y where y: "detach_consumer lk t s = (y, s')" "x = Detached y" using step by (auto split: prod.splits)
    from y(1) show ?thesis
    proof (cases rule: detach_consumer_cases)
      case (ok i)
      obtain ys zs where f: "flatten (consumers s) = ys @ t # zs" "flatten ((consumers s)[i := None]) = ys @ zs"
        using flatten_empty [OF ok(2,3)] .
      then show ?thesis using ok(1,4) y(2) inv by (auto simp: token_inv_def live_tokens_def split: option.splits)
    next
      case refused
      then show ?thesis using same y(2) by simp
    qed
  next
    case (TrySend lk p m)
    then show ?thesis using step same message_ops_tokens(1) [of lk p m s] by (auto split: prod.splits)
  next
    case (TryReceive lk c)
    then show ?thesis using step same message_ops_tokens(2) [of lk c s] by (auto split: prod.splits)
  next
    case (ClearPending lk)
    then show ?thesis using step same message_ops_tokens(3) [of lk s] by (auto split: prod.splits)
  qed
qed

lemma tokens_issued_Cons: "tokens_issued (x # xs) = tokens_issued [x] @ tokens_issued xs"
  by (cases "x # xs" rule: tokens_issued.cases) simp_all

lemma channel_run_tokens:
  "channel_run as s = (xs, s') \<Longrightarrow> token_inv s \<Longrightarrow> next_attachment s + length as \<le> usize_max \<Longrightarrow>
     token_inv s' \<and> channel_law s' = channel_law s \<and> next_attachment s \<le> next_attachment s'
     \<and> tokens_issued xs = [next_attachment s..<next_attachment s']"
proof (induction as arbitrary: s xs)
  case (Cons a as)
  obtain x s1 where x: "channel_step a s = (x, s1)" by fastforce
  obtain ys s2 where ys: "channel_run as s1 = (ys, s2)" by fastforce
  have eq: "xs = x # ys" "s' = s2" using Cons.prems(1) x ys by simp_all
  have "next_attachment s < usize_max" using Cons.prems(3) by simp
  note st = channel_step_tokens [OF x Cons.prems(2) this]
  then have "next_attachment s1 + length as \<le> usize_max" using Cons.prems(3) by auto
  with Cons.IH [of s1 ys] ys st have ih: "token_inv s' \<and> channel_law s' = channel_law s1
      \<and> next_attachment s1 \<le> next_attachment s' \<and> tokens_issued ys = [next_attachment s1..<next_attachment s']" using eq by simp
  from st show ?case
  proof (elim conjE disjE)
    assume "x = Attached (Ok (next_attachment s))" "next_attachment s1 = next_attachment s + 1" "channel_law s1 = channel_law s"
    then show ?thesis using ih eq(1) by (simp add: upt_rec [of "next_attachment s"])
  next
    assume "tokens_issued [x] = []" "next_attachment s1 = next_attachment s" "channel_law s1 = channel_law s"
    then show ?thesis using ih eq(1) tokens_issued_Cons [of x ys] by simp
  qed
qed simp

section \<open>Properties\<close>

lemma channel_new_simps [simp]:
  "ring_inv (local_channel_state_new c n law)" "token_inv (local_channel_state_new c n law)"
  "pending (local_channel_state_new c n law) = []" "ring_capacity (local_channel_state_new c n law) = c"
  "next_attachment (local_channel_state_new c n law) = 1" "channel_law (local_channel_state_new c n law) = law"
  by (simp_all add: local_channel_state_new_def ring_inv_def token_inv_def live_tokens_def pending_def ring_slot_def)

text \<open>
  C15. The channel implements a bounded first-in first-out queue: for every sequence of calls, with
  any outcomes of the lock, any tokens and any capacity (zero included), the results the callers
  see are those of a list of at most \<open>CAPACITY\<close> messages (a send is accepted only when there is
  room, a receive returns the oldest message, or \<open>None\<close> only when there is none, a clear reports
  how many it dropped), and the ring buffer then holds exactly that list.
\<close>

theorem channel_refines_fifo:
  "fifo_run c (fst (channel_run as (local_channel_state_new c n law))) []
     = Some (pending (snd (channel_run as (local_channel_state_new c n law))))"
proof -
  obtain xs s where r: "channel_run as (local_channel_state_new c n law) = (xs, s)" by fastforce
  then show ?thesis using channel_run_refines [OF r] by simp
qed

text \<open>
  No message is lost, repeated or reordered: as long as pending messages are not cleared, the
  messages accepted from producers are, in order, the messages delivered to consumers followed by
  the ones still in the buffer, of which there are at most \<open>CAPACITY\<close>.
\<close>

theorem channel_delivers_in_order:
  assumes "channel_run as (local_channel_state_new c n law) = (xs, s)" and "\<And>k. Cleared (Ok k) \<notin> set xs"
  shows "accepted xs = delivered xs @ pending s \<and> length (pending s) \<le> c"
proof -
  have r: "ring_inv s" "ring_capacity s = c" "fifo_run c xs [] = Some (pending s)"
    using channel_run_refines [OF assms(1)] by simp_all
  have "accepted xs = delivered xs @ pending s" using fifo_run_order [OF r(3) assms(2)] by simp
  then show ?thesis using ring.fits [OF r(1)] r(2) by simp
qed

abbreviation demo_request :: attachment_request where
  "demo_request \<equiv> \<lparr>scope = SameCourier, requested_law = None\<rparr>"

definition channel_demo_ops :: "nat channel_op list" where
  "channel_demo_ops = [AttachProducer (Ok True) demo_request, AttachConsumer (Ok True) demo_request,
     TrySend (Ok True) 1 10, TrySend (Ok True) 1 11, TrySend (Ok True) 1 12, TryReceive (Ok True) 2,
     TrySend (Ok True) 1 13, TrySend (Ok True) 2 14]"

definition channel_demo_outs :: "nat channel_out list" where
  "channel_demo_outs = [Attached (Ok 1), Attached (Ok 2), Sent 10 (Ok ()), Sent 11 (Ok ()),
     Sent 12 (Err ChannelBusy), Received (Ok (Some 10)), Sent 13 (Ok ()), Sent 14 (Err ChannelTransportDenied)]"

definition channel_demo_end :: "nat local_channel" where
  "channel_demo_end = \<lparr>buffer = [Some 13, Some 11], head = 1, tail = 1, queue_len = 2,
     channel_law = PromotableSpmc, next_attachment = 3, producer = Some 1, consumers = [Some 2, None]\<rparr>"

lemma channel_demo_run:
  "channel_run channel_demo_ops (local_channel_state_new 2 2 PromotableSpmc) = (channel_demo_outs, channel_demo_end)"
  by (simp add: channel_demo_ops_def channel_demo_outs_def channel_demo_end_def local_channel_state_new_def
      attach_producer_def attach_consumer_def try_send_def try_receive_def with_try_lock_def law_refused_def
      ring_push_def ring_pop_def wrapping_add_def usize_max_def numeral_2_eq_2)

theorem channel_delivers_in_order_witness:
  "accepted channel_demo_outs = [10, 11, 13] \<and> delivered channel_demo_outs = [10] \<and> pending channel_demo_end = [11, 13]"
proof -
  have a: "accepted channel_demo_outs = [10, 11, 13]" and d: "delivered channel_demo_outs = [10]"
    and n: "Cleared (Ok k) \<notin> set channel_demo_outs" for k
    by (simp_all add: channel_demo_outs_def)
  show ?thesis using channel_delivers_in_order [OF channel_demo_run n] a d by simp
qed

text \<open>
  Attachment tokens are never reissued: while fewer than \<open>usize::MAX\<close> calls were made, the tokens
  handed out are distinct, so a token that was detached never becomes valid for someone else; the
  tokens in force were all handed out and belong to one endpoint each, and under \<open>ExclusiveSpsc\<close>
  there is at most one consumer.
\<close>

theorem channel_tokens_never_reused:
  assumes "channel_run as (local_channel_state_new c n law) = (xs, s)" and "length as < usize_max"
  shows "distinct (tokens_issued xs) \<and> distinct (live_tokens s) \<and> (\<forall>t. t \<in> set (live_tokens s) \<longrightarrow> t < next_attachment s)
    \<and> tokens_issued xs = [1..<next_attachment s] \<and> (law = ExclusiveSpsc \<longrightarrow> consumer_count s \<le> 1)"
proof -
  have "token_inv s \<and> channel_law s = law \<and> tokens_issued xs = [1..<next_attachment s]"
    using channel_run_tokens [OF assms(1)] assms(2) by simp
  then show ?thesis by (simp add: token_inv_def consumer_count_flatten)
qed

theorem channel_tokens_never_reused_witness:
  "tokens_issued channel_demo_outs = [1, 2] \<and> distinct (live_tokens channel_demo_end)"
proof -
  have i: "tokens_issued channel_demo_outs = [1, 2]" by (simp add: channel_demo_outs_def)
  have "length channel_demo_ops < usize_max" by (simp add: channel_demo_ops_def usize_max_def)
  then show ?thesis using channel_tokens_never_reused [OF channel_demo_run] i by blast
qed

text \<open>
  The debug snapshot panics for a channel of capacity zero, which \<open>new\<close> accepts, and for no other.
\<close>

lemma channel_debug_state_panics:
  assumes "channel_run as (local_channel_state_new c n law) = (xs, s)"
  shows "debug_state lk s = None \<longleftrightarrow> lk = Ok True \<and> c = 0"
proof -
  have "ring_inv s" "ring_capacity s = c" using channel_run_refines [OF assms] by simp_all
  then have "head s < length (buffer s) \<longleftrightarrow> c \<noteq> 0" by (auto simp: ring_inv_def)
  then show ?thesis by (auto simp: debug_state_def split: result.splits bool.splits)
qed

end
