(* ===== verification/Aml_Name.thy ===== *)
theory Aml_Name
  imports Fusion_Prelude
begin

text \<open>
  The AML decoder's vocabulary (\<open>src/Crates/fusion-firmware/aml/\<close>): errors (\<open>error.rs\<close>), byte
  slices, package lengths and code spans (\<open>bytecode.rs\<close>), name segments, resolved namespace paths
  and encoded name strings (\<open>name.rs\<close>).

  The input is firmware-supplied bytes, so a slice expression that runs past its end matters:
  \<open>bytes[i]\<close> and \<open>&bytes[n..]\<close> abort the program (\<open>Panic\<close>), \<open>bytes.get(..)\<close> returns \<open>None\<close>. An
  operation therefore stops in one of three ways: it returns an \<open>AmlError\<close> (\<open>Fail\<close>), it panics, or
  the fuel of the model's outermost loop is used up (\<open>Diverge\<close>, shown never to happen in
  \<open>Aml_Loader_Props\<close>). A slice is at most \<open>isize::MAX\<close> bytes long and a package length at most
  \<open>2\<^sup>2\<^sup>8\<close>, so \<open>usize\<close> additions on offsets do not wrap and are written on natural numbers;
  \<open>u32\<close> offsets and node ids stay 32-bit words. \<open>u8\<close> counters that the code keeps below 256 by an
  explicit check or saturation are natural numbers.
\<close>

section \<open>Errors and outcomes\<close>

datatype AmlErrorKind =
    Truncated | InvalidBytecode | InvalidDefinitionBlock | InvalidName | InvalidNamespace
  | InvalidState | NamespaceConflict | UndefinedObject | Unsupported | HostFailure | Overflow

datatype AmlError = AmlError (err_kind: AmlErrorKind) (err_detail: string)

definition truncated :: AmlError where
  "truncated = AmlError Truncated ''aml input truncated''"

definition invalid_bytecode :: AmlError where
  "invalid_bytecode = AmlError InvalidBytecode ''invalid aml bytecode''"

definition invalid_definition_block :: AmlError where
  "invalid_definition_block = AmlError InvalidDefinitionBlock ''invalid aml definition block''"

definition invalid_name :: AmlError where
  "invalid_name = AmlError InvalidName ''invalid aml name''"

definition invalid_namespace :: AmlError where
  "invalid_namespace = AmlError InvalidNamespace ''invalid aml namespace state''"

definition invalid_state :: AmlError where
  "invalid_state = AmlError InvalidState ''invalid aml vm state''"

definition namespace_conflict :: AmlError where
  "namespace_conflict = AmlError NamespaceConflict ''aml namespace conflict''"

definition unsupported :: AmlError where
  "unsupported = AmlError Unsupported ''aml feature unsupported''"

definition overflow :: AmlError where
  "overflow = AmlError Overflow ''aml integer or buffer overflow''"

lemmas aml_error_defs = truncated_def invalid_bytecode_def invalid_definition_block_def
  invalid_name_def invalid_namespace_def invalid_state_def namespace_conflict_def
  unsupported_def overflow_def

datatype stop = Fail AmlError | Panic | Diverge

type_synonym 'a aml = "('a, stop) result"

section \<open>Byte slices\<close>

type_synonym u8 = "8 word"
type_synonym bytes = "u8 list"

text \<open>\<open>bytes.get(i)\<close>, \<open>bytes.get(a..b)\<close>, \<open>bytes.get(n..)\<close>, \<open>&bytes[n..]\<close> and \<open>bytes[i]\<close>.\<close>

definition slice_get :: "'a list \<Rightarrow> usize \<Rightarrow> 'a option" where
  "slice_get bs i = (if i < length bs then Some (bs ! i) else None)"

definition get_range :: "'a list \<Rightarrow> usize \<Rightarrow> usize \<Rightarrow> 'a list option" where
  "get_range bs a b = (if a \<le> b \<and> b \<le> length bs then Some (take (b - a) (drop a bs)) else None)"

definition get_from :: "'a list \<Rightarrow> usize \<Rightarrow> 'a list option" where
  "get_from bs n = (if n \<le> length bs then Some (drop n bs) else None)"

definition slice_from :: "'a list \<Rightarrow> usize \<Rightarrow> 'a list aml" where
  "slice_from bs n = (if n \<le> length bs then Ok (drop n bs) else Err Panic)"

definition slice_index :: "'a list \<Rightarrow> usize \<Rightarrow> 'a aml" where
  "slice_index bs i = (if i < length bs then Ok (bs ! i) else Err Panic)"

text \<open>\<open>x.ok_or_else(AmlError::e)?\<close>\<close>

definition or_fail :: "AmlError \<Rightarrow> 'a option \<Rightarrow> 'a aml" where
  "or_fail e m = ok_or (Fail e) m"

text \<open>Which bind, slice and lookup expressions return a value, and with which one.\<close>

named_theorems ok_iff \<open>when an operation returns a value\<close>

declare bind_result_Ok_iff [ok_iff]

lemma or_fail_Ok_iff [ok_iff]: "or_fail e m = Ok x \<longleftrightarrow> m = Some x"
  by (simp add: or_fail_def)

lemma slice_get_Some_iff [ok_iff]: "slice_get bs i = Some b \<longleftrightarrow> i < length bs \<and> b = bs ! i"
  by (auto simp: slice_get_def)

lemma get_range_Some_iff [ok_iff]:
  "get_range bs a b = Some r \<longleftrightarrow> a \<le> b \<and> b \<le> length bs \<and> r = take (b - a) (drop a bs)"
  by (auto simp: get_range_def)

lemma get_from_Some_iff [ok_iff]: "get_from bs n = Some r \<longleftrightarrow> n \<le> length bs \<and> r = drop n bs"
  by (auto simp: get_from_def)

lemma slice_from_Ok_iff [ok_iff]: "slice_from bs n = Ok r \<longleftrightarrow> n \<le> length bs \<and> r = drop n bs"
  by (auto simp: slice_from_def)

lemma slice_index_Ok_iff [ok_iff]: "slice_index bs i = Ok b \<longleftrightarrow> i < length bs \<and> b = bs ! i"
  by (auto simp: slice_index_def)

text \<open>Where an operation can stop, and that a bounded read does not panic.\<close>

lemma bind_result_Err_iff:
  "bind_result r f = Err e \<longleftrightarrow> r = Err e \<or> (\<exists>x. r = Ok x \<and> f x = Err e)"
  by (cases r) auto

lemma bind_result_cong [fundef_cong]:
  "r = r' \<Longrightarrow> (\<And>x. r' = Ok x \<Longrightarrow> f x = g x) \<Longrightarrow> bind_result r f = bind_result r' g"
  by (cases r') auto

lemma or_fail_Err_iff [simp]: "or_fail e m = Err s \<longleftrightarrow> m = None \<and> s = Fail e"
  by (cases m) (auto simp: or_fail_def)

lemma slice_from_Err_iff [simp]: "slice_from bs n = Err s \<longleftrightarrow> length bs < n \<and> s = Panic"
  by (auto simp: slice_from_def)

lemma slice_index_Err_iff [simp]: "slice_index bs i = Err s \<longleftrightarrow> length bs \<le> i \<and> s = Panic"
  by (auto simp: slice_index_def)

section \<open>Definition blocks, code spans and package lengths (bytecode.rs)\<close>

datatype AmlDefinitionBlockKind = Dsdt | Ssdt | Psdt | Other bytes

definition from_signature :: "bytes \<Rightarrow> AmlDefinitionBlockKind" where
  "from_signature signature =
     (if signature = [0x44, 0x53, 0x44, 0x54] then Dsdt
      else if signature = [0x53, 0x53, 0x44, 0x54] then Ssdt
      else if signature = [0x50, 0x53, 0x44, 0x54] then Psdt
      else Other signature)"

definition is_definition_block :: "AmlDefinitionBlockKind \<Rightarrow> bool" where
  "is_definition_block k = (case k of Other _ \<Rightarrow> False | _ \<Rightarrow> True)"

record AmlBytecodeSpan =
  span_offset :: u32
  span_length :: u32

definition end_offset :: "AmlBytecodeSpan \<Rightarrow> u32" where
  "end_offset s =
     (if uint (span_offset s) + uint (span_length s) < 2 ^ 32
      then span_offset s + span_length s else - 1)"

definition span_contains :: "AmlBytecodeSpan \<Rightarrow> u32 \<Rightarrow> bool" where
  "span_contains s off \<longleftrightarrow> span_offset s \<le> off \<and> off < end_offset s"

record AmlCodeLocation =
  block_index :: "16 word"
  span :: AmlBytecodeSpan

record AmlPkgLength =
  pkg_value :: u32
  encoded_bytes :: u8

text \<open>The \<open>while index <= follow_count\<close> loop of \<open>AmlPkgLength::parse\<close>.\<close>

function pkg_length_loop :: "bytes \<Rightarrow> nat \<Rightarrow> nat \<Rightarrow> nat \<Rightarrow> u32 \<Rightarrow> u32 aml" where
  "pkg_length_loop bs follow_count index shift val =
     (if index \<le> follow_count
      then bind_result (slice_index bs index) (\<lambda>b.
             pkg_length_loop bs follow_count (index + 1) (shift + 8)
               (val OR push_bit shift (ucast b)))
      else Ok val)"
  by auto
termination by (relation "measure (\<lambda>(_, follow_count, index, _, _). Suc follow_count - index)") auto

declare pkg_length_loop.simps [simp del]

definition parse_pkg_length :: "bytes \<Rightarrow> AmlPkgLength aml" where
  "parse_pkg_length bs =
     bind_result (or_fail truncated (slice_get bs 0)) (\<lambda>lead.
       let follow_count = drop_bit 6 lead AND 3;
           enc = follow_count + 1
       in if length bs < unat enc then Err (Fail truncated)
          else bind_result
                 (if follow_count = 0 then Ok (ucast (lead AND 0x3f))
                  else pkg_length_loop bs (unat follow_count) 1 4 (ucast (lead AND 0x0f)))
                 (\<lambda>v. Ok \<lparr>pkg_value = v, encoded_bytes = enc\<rparr>))"

definition payload_span :: "AmlPkgLength \<Rightarrow> u32 \<Rightarrow> AmlBytecodeSpan" where
  "payload_span p off =
     \<lparr>span_offset = off + ucast (encoded_bytes p),
      span_length = (if pkg_value p < ucast (encoded_bytes p) then 0
                     else pkg_value p - ucast (encoded_bytes p))\<rparr>"

section \<open>Name segments (name.rs)\<close>

definition AML_MAX_PATH_SEGMENTS :: usize where
  "AML_MAX_PATH_SEGMENTS = 16"

definition is_ascii_uppercase :: "u8 \<Rightarrow> bool" where
  "is_ascii_uppercase b \<longleftrightarrow> 0x41 \<le> b \<and> b \<le> 0x5a"

definition is_ascii_digit :: "u8 \<Rightarrow> bool" where
  "is_ascii_digit b \<longleftrightarrow> 0x30 \<le> b \<and> b \<le> 0x39"

definition name_byte :: "u8 \<Rightarrow> bool" where
  "name_byte b \<longleftrightarrow> is_ascii_uppercase b \<or> is_ascii_digit b \<or> b = 0x5f"

text \<open>\<open>AmlNameSeg([u8; 4])\<close>: the array is a list of length four.\<close>

datatype AmlNameSeg = AmlNameSeg (seg_bytes: bytes)

definition BLANK :: AmlNameSeg where
  "BLANK = AmlNameSeg [0x5f, 0x5f, 0x5f, 0x5f]"

definition from_bytes :: "bytes \<Rightarrow> AmlNameSeg aml" where
  "from_bytes bs = (if list_all name_byte bs then Ok (AmlNameSeg bs) else Err (Fail invalid_name))"

section \<open>Resolved namespace paths\<close>

record AmlResolvedNamePath =
  segment_count :: nat
  segments :: "AmlNameSeg list"

definition root_path :: AmlResolvedNamePath where
  "root_path = \<lparr>segment_count = 0, segments = replicate AML_MAX_PATH_SEGMENTS BLANK\<rparr>"

definition path_segment :: "AmlResolvedNamePath \<Rightarrow> nat \<Rightarrow> AmlNameSeg option" where
  "path_segment p index =
     (if segment_count p \<le> index then None else Some (segments p ! index))"

definition last_segment :: "AmlResolvedNamePath \<Rightarrow> AmlNameSeg option" where
  "last_segment p = (if segment_count p = 0 then None else path_segment p (segment_count p - 1))"

definition push :: "AmlResolvedNamePath \<Rightarrow> AmlNameSeg \<Rightarrow> AmlResolvedNamePath aml" where
  "push p seg =
     (if AML_MAX_PATH_SEGMENTS \<le> segment_count p then Err (Fail overflow)
      else Ok (p\<lparr>segments := (segments p)[segment_count p := seg],
                 segment_count := segment_count p + 1\<rparr>))"

definition pop :: "AmlResolvedNamePath \<Rightarrow> AmlResolvedNamePath aml" where
  "pop p =
     (if segment_count p = 0 then Err (Fail invalid_name)
      else Ok (p\<lparr>segment_count := segment_count p - 1,
                 segments := (segments p)[segment_count p - 1 := BLANK]\<rparr>))"

definition path_parent :: "AmlResolvedNamePath \<Rightarrow> AmlResolvedNamePath option" where
  "path_parent p =
     (if segment_count p = 0 then None
      else (case pop p of Ok q \<Rightarrow> Some q | Err _ \<Rightarrow> None))"

text \<open>The \<open>while index < segment_count\<close> loop of \<open>prefix\<close>; \<open>?\<close> and \<open>.ok()?\<close> both return \<open>None\<close>.\<close>

fun prefix_loop :: "AmlResolvedNamePath \<Rightarrow> nat \<Rightarrow> nat \<Rightarrow> AmlResolvedNamePath \<Rightarrow> AmlResolvedNamePath option" where
  "prefix_loop self index 0 path = Some path"
| "prefix_loop self index (Suc remaining) path =
     (case path_segment self index of
        None \<Rightarrow> None
      | Some seg \<Rightarrow> (case push path seg of
          Err _ \<Rightarrow> None
        | Ok path' \<Rightarrow> prefix_loop self (index + 1) remaining path'))"

definition path_prefix :: "AmlResolvedNamePath \<Rightarrow> nat \<Rightarrow> AmlResolvedNamePath option" where
  "path_prefix p count =
     (if segment_count p < count then None else prefix_loop p 0 count root_path)"

section \<open>Encoded name strings\<close>

datatype AmlNameAnchor = Root | ParentPrefix | Local

record AmlEncodedNameString =
  anchor :: AmlNameAnchor
  parent_prefixes :: nat
  name_segment_count :: nat
  is_null :: bool
  raw_segments :: bytes
  consumed_bytes :: nat

text \<open>\<open>chunks_exact(4)\<close> over the validated bytes, each checked by \<open>from_bytes\<close>.\<close>

fun validate_chunks :: "bytes \<Rightarrow> unit aml" where
  "validate_chunks (a # b # c # d # rest) =
     bind_result (from_bytes [a, b, c, d]) (\<lambda>_. validate_chunks rest)"
| "validate_chunks _ = Ok ()"

definition validate_namesegs :: "bytes \<Rightarrow> unit aml" where
  "validate_namesegs bs =
     (if length bs mod 4 \<noteq> 0 then Err (Fail invalid_name) else validate_chunks bs)"

text \<open>The \<open>^\<close> prefix loop: the saturating count and the number of bytes passed.\<close>

fun parent_prefix_loop :: "bytes \<Rightarrow> nat \<Rightarrow> nat \<Rightarrow> nat \<times> nat" where
  "parent_prefix_loop [] prefixes off = (prefixes, off)"
| "parent_prefix_loop (b # bs) prefixes off =
     (if b = 0x5e then parent_prefix_loop bs (min 255 (prefixes + 1)) (off + 1) else (prefixes, off))"

definition parse_anchor :: "bytes \<Rightarrow> AmlNameAnchor \<times> nat \<times> nat" where
  "parse_anchor bs =
     (if bs ! 0 = 0x5c then (Root, 0, 1)
      else let (prefixes, off) = parent_prefix_loop bs 0 0
           in (if off = 0 then Local else ParentPrefix, prefixes, off))"

text \<open>The \<open>match opcode\<close>: segment count, raw segments, consumed tail, null flag.\<close>

definition parse_name_tail :: "bytes \<Rightarrow> nat \<Rightarrow> (nat \<times> bytes \<times> nat \<times> bool) aml" where
  "parse_name_tail bs off =
     bind_result (or_fail truncated (slice_get bs off)) (\<lambda>opcode.
       if opcode = 0x00 then Ok (0, [], 1, True)
       else if opcode = 0x2e then
         bind_result (or_fail truncated (get_range bs (off + 1) (off + 1 + 8))) (\<lambda>raw.
         bind_result (validate_namesegs raw) (\<lambda>_.
           Ok (2, raw, 9, False)))
       else if opcode = 0x2f then
         bind_result (or_fail truncated (slice_get bs (off + 1))) (\<lambda>count.
         bind_result (or_fail truncated
                        (get_range bs (off + 2) (off + 2 + unat count * 4))) (\<lambda>raw.
         bind_result (validate_namesegs raw) (\<lambda>_.
           Ok (unat count, raw, 2 + length raw, False))))
       else
         bind_result (or_fail truncated (get_range bs off (off + 4))) (\<lambda>raw.
         bind_result (validate_namesegs raw) (\<lambda>_.
           Ok (1, raw, 4, False))))"

definition parse_encoded_name :: "bytes \<Rightarrow> AmlEncodedNameString aml" where
  "parse_encoded_name bs =
     (if bs = [] then Err (Fail truncated)
      else let (anch, prefixes, off) = parse_anchor bs
           in bind_result (parse_name_tail bs off) (\<lambda>(count, raw, consumed_tail, null).
                if 255 < off + consumed_tail then Err (Fail overflow)
                else Ok \<lparr>anchor = anch, parent_prefixes = prefixes, name_segment_count = count,
                         is_null = null, raw_segments = raw,
                         consumed_bytes = off + consumed_tail\<rparr>))"

definition name_segment :: "AmlEncodedNameString \<Rightarrow> nat \<Rightarrow> AmlNameSeg option aml" where
  "name_segment n index =
     (if name_segment_count n \<le> index then Ok None
      else let start = index * 4; raw = raw_segments n
           in bind_result (slice_index raw start) (\<lambda>a.
              bind_result (slice_index raw (start + 1)) (\<lambda>b.
              bind_result (slice_index raw (start + 2)) (\<lambda>c.
              bind_result (slice_index raw (start + 3)) (\<lambda>d.
                Ok (case from_bytes [a, b, c, d] of Ok s \<Rightarrow> Some s | Err _ \<Rightarrow> None))))))"

section \<open>Resolving and parsing paths\<close>

fun pop_loop :: "nat \<Rightarrow> AmlResolvedNamePath \<Rightarrow> AmlResolvedNamePath aml" where
  "pop_loop 0 path = Ok path"
| "pop_loop (Suc remaining) path = bind_result (pop path) (pop_loop remaining)"

fun push_loop :: "AmlEncodedNameString \<Rightarrow> nat \<Rightarrow> nat \<Rightarrow> AmlResolvedNamePath \<Rightarrow> AmlResolvedNamePath aml" where
  "push_loop encoded index 0 path = Ok path"
| "push_loop encoded index (Suc remaining) path =
     bind_result (name_segment encoded index) (\<lambda>m.
     bind_result (or_fail invalid_name m) (\<lambda>seg.
     bind_result (push path seg) (\<lambda>path'. push_loop encoded (index + 1) remaining path')))"

definition resolve :: "AmlResolvedNamePath \<Rightarrow> AmlEncodedNameString \<Rightarrow> AmlResolvedNamePath aml" where
  "resolve self encoded =
     (if is_null encoded then Ok self
      else let path = (case anchor encoded of Root \<Rightarrow> root_path | ParentPrefix \<Rightarrow> self | Local \<Rightarrow> self)
           in bind_result
                (if anchor encoded = ParentPrefix then pop_loop (parent_prefixes encoded) path
                 else Ok path)
                (push_loop encoded 0 (name_segment_count encoded)))"

definition is_ascii :: "bytes \<Rightarrow> bool" where
  "is_ascii raw \<longleftrightarrow> list_all (\<lambda>b. b < 0x80) raw"

text \<open>\<open>bytes[index] = byte\<close> over \<open>raw.bytes().enumerate()\<close>, starting from \<open>[b'_'; 4]\<close>.\<close>

fun parse_text_bytes :: "bytes \<Rightarrow> nat \<Rightarrow> bytes \<Rightarrow> bytes aml" where
  "parse_text_bytes [] index buf = Ok buf"
| "parse_text_bytes (b # raw) index buf =
     (if \<not> is_ascii_uppercase b \<and> \<not> is_ascii_digit b \<and> b \<noteq> 0x5f then Err (Fail invalid_name)
      else if index < length buf then parse_text_bytes raw (index + 1) (buf[index := b])
      else Err Panic)"

definition parse_text_segment :: "bytes \<Rightarrow> AmlNameSeg aml" where
  "parse_text_segment raw =
     (if raw = [] \<or> 4 < length raw then Err (Fail invalid_name)
      else bind_result (parse_text_bytes raw 0 [0x5f, 0x5f, 0x5f, 0x5f]) from_bytes)"

text \<open>\<open>body.split('.')\<close>\<close>

fun split_dots :: "bytes \<Rightarrow> bytes list" where
  "split_dots [] = [[]]"
| "split_dots (b # bs) =
     (if b = 0x2e then [] # split_dots bs
      else (case split_dots bs of [] \<Rightarrow> [[b]] | s # ss \<Rightarrow> (b # s) # ss))"

fun parse_text_loop :: "bytes list \<Rightarrow> AmlResolvedNamePath \<Rightarrow> AmlResolvedNamePath aml" where
  "parse_text_loop [] path = Ok path"
| "parse_text_loop (raw # rest) path =
     bind_result (parse_text_segment raw) (\<lambda>seg.
     bind_result (push path seg) (parse_text_loop rest))"

definition parse_text :: "bytes \<Rightarrow> AmlResolvedNamePath aml" where
  "parse_text raw =
     (if \<not> is_ascii raw \<or> raw = [] then Err (Fail invalid_name)
      else if hd raw = 0x5c then
        (let body = tl raw in
         if body = [] then Ok root_path else parse_text_loop (split_dots body) root_path)
      else Err (Fail invalid_name))"

record AmlNameString =
  name_anchor :: AmlNameAnchor
  name_raw :: bytes

definition name_string_new :: "bytes \<Rightarrow> AmlNameString aml" where
  "name_string_new raw =
     (if raw = [] \<or> \<not> is_ascii raw then Err (Fail invalid_name)
      else Ok \<lparr>name_anchor = (if hd raw = 0x5c then Root else if hd raw = 0x5e then ParentPrefix else Local),
               name_raw = raw\<rparr>)"

definition is_absolute :: "AmlNameString \<Rightarrow> bool" where
  "is_absolute n \<longleftrightarrow> name_anchor n = Root"

end
