(* ===== verification/Aml_Name_Props.thy ===== *)
theory Aml_Name_Props
  imports Aml_Name
begin

text \<open>
  Correctness of the AML name and length decoders: package lengths against an encoder, resolved
  paths against plain lists of segments (\<open>of_segs\<close>), name strings against an encoder, and the
  textual path syntax against a printer. Decoding never panics, whatever the input.
\<close>

section \<open>Package lengths\<close>

text \<open>
  The encoding the format prescribes: \<open>n\<close> follow bytes, their number in the two top bits of the
  lead byte, the value in little-endian groups of 4 and 8 bits (6 bits when there is no follow byte).
\<close>

definition pkg_encode :: "nat \<Rightarrow> u32 \<Rightarrow> bytes" where
  "pkg_encode n v =
     (if n = 0 then [ucast v]
      else (push_bit 6 (of_nat n) OR ucast (v AND 0x0f))
             # map (\<lambda>i. ucast (drop_bit (4 + 8 * i) v)) [0..<n])"

definition pkg_fits :: "nat \<Rightarrow> u32 \<Rightarrow> bool" where
  "pkg_fits n v \<longleftrightarrow> n \<le> 3 \<and> unat v < (if n = 0 then 2 ^ 6 else 2 ^ (4 + 8 * n))"

lemma bit_less_exp:
  fixes v :: u32
  assumes "unat v < 2 ^ m" and "bit v k"
  shows "k < m"
proof -
  have "v = take_bit m v" using assms(1) by (metis unsigned_take_bit_eq take_bit_nat_eq_self word_unat_eq_iff)
  then show ?thesis using assms(2) by (metis bit_take_bit_iff)
qed

lemma pkg_roundtrip_0:
  assumes "unat v < 2 ^ 6"
  shows "parse_pkg_length (pkg_encode 0 v @ rest) = Ok \<lparr>pkg_value = v, encoded_bytes = 1\<rparr>"
proof -
  have top: "drop_bit 6 (ucast v :: u8) AND 3 = 0"
  proof (rule bit_word_eqI)
    fix k
    show "bit (drop_bit 6 (ucast v :: u8) AND 3) k = bit (0 :: u8) k"
      using bit_less_exp [OF assms, of "6 + k"] by (auto simp: bit_simps)
  qed
  have m: "(0x3f :: u8) = mask 6" by (simp add: mask_eq_exp_minus_1)
  have val: "ucast ((ucast v :: u8) AND 0x3f) = v"
    unfolding m by (intro bit_word_eqI) (auto simp: bit_simps dest: bit_less_exp [OF assms])
  show ?thesis
    using top val by (simp add: parse_pkg_length_def pkg_encode_def or_fail_def slice_get_def Let_def)
qed

lemma pkg_lead:
  assumes "n \<le> 3"
  shows "drop_bit 6 (push_bit 6 (of_nat n) OR ucast (v AND 0x0f) :: u8) AND 3 = of_nat n"
    and "(push_bit 6 (of_nat n) OR ucast (v AND 0x0f) :: u8) AND 0x0f = ucast ((v :: u32) AND 0x0f)"
proof -
  have m: "(0x0f :: u8) = mask 4" "(0x0f :: u32) = mask 4" "(3 :: u8) = mask 2"
    by (simp_all add: mask_eq_exp_minus_1)
  have lt: "k < 2" if "bit n k" for k
  proof -
    have "take_bit 2 n = n" using assms by (intro take_bit_nat_eq_self) simp
    then show ?thesis using that by (metis bit_take_bit_iff)
  qed
  show "drop_bit 6 (push_bit 6 (of_nat n) OR ucast (v AND 0x0f) :: u8) AND 3 = of_nat n"
    unfolding m by (intro bit_word_eqI) (auto simp: bit_simps dest: lt)
  show "(push_bit 6 (of_nat n) OR ucast (v AND 0x0f) :: u8) AND 0x0f = ucast ((v :: u32) AND 0x0f)"
    unfolding m by (intro bit_word_eqI) (auto simp: bit_simps)
qed

text \<open>After \<open>i\<close> follow bytes the accumulator holds the low \<open>4 + 8i\<close> bits of the value.\<close>

lemma pkg_loop_acc:
  "take_bit (4 + 8 * i) v OR push_bit (4 + 8 * i) (ucast (ucast (drop_bit (4 + 8 * i) v) :: u8))
     = take_bit (4 + 8 * Suc i) (v :: u32)"
  by (intro bit_word_eqI) (auto simp: bit_simps)

lemma pkg_loop_decodes:
  assumes "i \<le> n" and "length bs = Suc n"
    and "\<And>j. j < n \<Longrightarrow> bs ! Suc j = ucast (drop_bit (4 + 8 * j) (v :: u32))"
  shows "pkg_length_loop (bs @ rest) n (Suc i) (4 + 8 * i) (take_bit (4 + 8 * i) v)
           = Ok (take_bit (4 + 8 * n) v)"
  using assms(1)
proof (induction rule: inc_induct)
  case base
  show ?case by (subst pkg_length_loop.simps) simp
next
  case (step i)
  have "slice_index (bs @ rest) (Suc i) = Ok (ucast (drop_bit (4 + 8 * i) v))"
    using assms(2,3) step.hyps by (simp add: slice_index_def nth_append)
  then show ?case
    using step.IH step.hyps pkg_loop_acc [of i v] by (subst pkg_length_loop.simps) (simp add: algebra_simps)
qed

lemma pkg_roundtrip_Suc:
  assumes "0 < n" and "n \<le> 3" and "unat v < 2 ^ (4 + 8 * n)"
  shows "parse_pkg_length (pkg_encode n v @ rest)
           = Ok \<lparr>pkg_value = v, encoded_bytes = of_nat n + 1\<rparr>"
proof -
  let ?bs = "pkg_encode n v"
  have bs: "length ?bs = Suc n" "\<And>j. j < n \<Longrightarrow> ?bs ! Suc j = ucast (drop_bit (4 + 8 * j) v)"
    using assms(1) by (simp_all add: pkg_encode_def)
  obtain lead :: u8 where lead: "slice_get (?bs @ rest) 0 = Some lead"
    and top: "drop_bit 6 lead AND 3 = of_nat n" and bottom: "lead AND 0x0f = ucast (v AND 0x0f)"
    using assms(1) pkg_lead [OF assms(2), of v] by (simp add: pkg_encode_def slice_get_def)
  have m: "(0x0f :: u32) = mask 4" by (simp add: mask_eq_exp_minus_1)
  have low: "ucast (ucast (v AND 0x0f) :: u8) = take_bit 4 v"
    unfolding m by (intro bit_word_eqI) (auto simp: bit_simps)
  have all: "take_bit (4 + 8 * n) v = v"
    using bit_less_exp [OF assms(3)] by (intro bit_word_eqI) (auto simp: bit_simps)
  have "n = 1 \<or> n = 2 \<or> n = 3" using assms(1,2) by linarith
  then have small: "unat (of_nat n :: u8) = n" "(of_nat n :: u8) \<noteq> 0" "unat (of_nat n + 1 :: u8) = Suc n"
    by auto
  show ?thesis
    using pkg_loop_decodes [of 0 n ?bs v rest] bs lead top bottom low all small
    by (simp add: parse_pkg_length_def or_fail_def Let_def)
qed

text \<open>
  Package lengths round trip: for every number of follow bytes the format allows and every value
  that fits in them, parsing the encoding returns that value and the number of bytes it occupies,
  whatever follows it in the stream.
\<close>
theorem pkg_length_roundtrip:
  assumes "pkg_fits n v"
  shows "parse_pkg_length (pkg_encode n v @ rest)
           = Ok \<lparr>pkg_value = v, encoded_bytes = of_nat n + 1\<rparr>"
  using assms pkg_roundtrip_0 [of v rest] pkg_roundtrip_Suc [of n v rest]
  by (cases "n = 0") (auto simp: pkg_fits_def)

theorem pkg_length_roundtrip_witness:
  "parse_pkg_length [0x4a, 0x23, 0xff] = Ok \<lparr>pkg_value = 0x23a, encoded_bytes = 2\<rparr>"
proof -
  have "pkg_encode 1 0x23a = [0x4a, 0x23]" by (simp add: pkg_encode_def drop_bit_eq_div)
  moreover have "pkg_fits 1 0x23a" by (simp add: pkg_fits_def)
  ultimately show ?thesis using pkg_length_roundtrip [of 1 "0x23a" "[0xff]"] by simp
qed

text \<open>Whatever the bytes: no panic, at least one and at most four bytes consumed, all of them present.\<close>

lemma pkg_loop_total:
  "n < length bs \<Longrightarrow> \<exists>v. pkg_length_loop bs n i sh w = Ok v"
proof (induction bs n i sh w rule: pkg_length_loop.induct)
  case (1 bs n i sh w)
  show ?case
  proof (cases "i \<le> n")
    case True
    then have "slice_index bs i = Ok (bs ! i)" using "1.prems" by (simp add: slice_index_def)
    with "1.IH" [OF True this "1.prems"] True show ?thesis by (subst pkg_length_loop.simps) simp
  qed (subst pkg_length_loop.simps, simp)
qed

lemma pkg_loop_bits:
  "pkg_length_loop bs n i sh w = Ok v \<Longrightarrow> (\<And>k. bit w k \<Longrightarrow> k < sh) \<Longrightarrow> bit v k
     \<Longrightarrow> k < sh + 8 * (Suc n - i)"
proof (induction bs n i sh w rule: pkg_length_loop.induct)
  case (1 bs n i sh w)
  show ?case
  proof (cases "i \<le> n")
    case True
    let ?w = "w OR push_bit sh (ucast (bs ! i))"
    have len: "i < length bs" and rest: "pkg_length_loop bs n (i + 1) (sh + 8) ?w = Ok v"
      using "1.prems"(1) True by (auto simp: pkg_length_loop.simps [of bs n i] ok_iff)
    have si: "slice_index bs i = Ok (bs ! i)" using len by (simp add: slice_index_def)
    have "j < sh + 8" if "bit ?w j" for j
      using that "1.prems"(2) [of j] bit_imp_le_length [of "bs ! i" "j - sh"] by (auto simp: bit_simps)
    from "1.IH" [OF True si rest this "1.prems"(3)] True show ?thesis by (simp add: algebra_simps)
  next
    case False
    with "1.prems"(1) have "v = w" by (simp add: pkg_length_loop.simps [of bs n i])
    with "1.prems"(2,3) show ?thesis by (simp add: trans_less_add1)
  qed
qed

lemma pkg_follow_less: "unat (drop_bit 6 (b :: u8) AND 3) < 4"
proof -
  have "drop_bit 6 b AND 3 = take_bit 2 (drop_bit 6 b)"
    by (simp add: take_bit_eq_mask mask_eq_exp_minus_1)
  then show ?thesis using take_bit_nat_less_exp [of 2 "unat (drop_bit 6 b)"]
    by (simp add: unsigned_take_bit_eq)
qed

lemma unat_less_by_bits:
  fixes v :: u32
  assumes "\<And>k. bit v k \<Longrightarrow> k < m"
  shows "unat v < 2 ^ m"
proof -
  have "take_bit m v = v" using assms by (intro bit_word_eqI) (auto simp: bit_simps)
  then have "unat v = take_bit m (unat v)" by (metis unsigned_take_bit_eq)
  then show ?thesis by (metis take_bit_nat_less_exp)
qed

lemma pkg_value_bits:
  assumes "(if f = 0 then Ok (ucast ((lead :: u8) AND 0x3f))
            else pkg_length_loop bs (unat f) 1 4 (ucast (lead AND 0x0f))) = Ok (v :: u32)"
    and "unat (f :: u8) < 4"
  shows "unat v < 2 ^ 28"
proof (rule unat_less_by_bits)
  fix k
  assume k: "bit v k"
  have m: "(0x0f :: u8) = mask 4" "(0x3f :: u8) = mask 6" by (simp_all add: mask_eq_exp_minus_1)
  show "k < 28"
  proof (cases "f = 0")
    case True
    then show ?thesis using assms(1) k unfolding m by (auto simp: bit_simps)
  next
    case False
    then have "pkg_length_loop bs (unat f) 1 4 (ucast (lead AND 0x0f)) = Ok v" using assms(1) by simp
    then have "k < 4 + 8 * (Suc (unat f) - 1)"
      by (rule pkg_loop_bits [OF _ _ k]) (auto simp: m bit_simps)
    then show ?thesis using assms(2) by simp
  qed
qed

lemma unat_Suc_u8: "unat (f :: u8) < 4 \<Longrightarrow> unat (f + 1) = Suc (unat f)"
  by (simp add: unat_word_ariths)

lemma pkg_length_Ok:
  assumes "parse_pkg_length bs = Ok p"
  shows "0 < unat (encoded_bytes p)" and "unat (encoded_bytes p) \<le> 4"
    and "unat (encoded_bytes p) \<le> length bs" and "unat (pkg_value p) < 2 ^ 28"
proof -
  let ?f = "drop_bit 6 (bs ! 0) AND 3"
  have enc: "encoded_bytes p = ?f + 1" and le: "unat (?f + 1) \<le> length bs"
    and v: "(if ?f = 0 then Ok (ucast (bs ! 0 AND 0x3f))
             else pkg_length_loop bs (unat ?f) 1 4 (ucast (bs ! 0 AND 0x0f))) = Ok (pkg_value p)"
    using assms by (auto simp: parse_pkg_length_def Let_def ok_iff split: if_splits)
  have f: "unat ?f < 4" by (rule pkg_follow_less)
  show "0 < unat (encoded_bytes p)" "unat (encoded_bytes p) \<le> 4" "unat (encoded_bytes p) \<le> length bs"
    using enc le f unat_Suc_u8 [OF f] by simp_all
  show "unat (pkg_value p) < 2 ^ 28" by (rule pkg_value_bits [OF v f])
qed

lemma pkg_length_Err:
  assumes "parse_pkg_length bs = Err s"
  shows "s = Fail truncated"
proof (rule ccontr)
  assume s: "s \<noteq> Fail truncated"
  let ?f = "drop_bit 6 (bs ! 0) AND 3"
  have f: "unat ?f < 4" by (rule pkg_follow_less)
  have ne: "bs \<noteq> []"
    using assms s by (auto simp: parse_pkg_length_def slice_get_def or_fail_def)
  then have le: "unat (?f + 1) \<le> length bs" and l: "pkg_length_loop bs (unat ?f) 1 4 (ucast (bs ! 0 AND 0x0f)) = Err s"
    using assms s by (auto simp: parse_pkg_length_def Let_def slice_get_def bind_result_Err_iff or_fail_def split: if_splits)
  have "unat ?f < length bs" using le unat_Suc_u8 [OF f] by simp
  from pkg_loop_total [OF this] l show False by (metis result.distinct(1))
qed

section \<open>Paths as lists of segments\<close>

text \<open>
  The fixed array of a path is canonical: the unused tail is blank, so the derived equality of two
  paths is equality of their segment lists. Every operation is the list operation on \<open>of_segs\<close>.
\<close>

definition of_segs :: "AmlNameSeg list \<Rightarrow> AmlResolvedNamePath" where
  "of_segs ss = \<lparr>segment_count = length ss,
                 segments = ss @ replicate (AML_MAX_PATH_SEGMENTS - length ss) BLANK\<rparr>"

definition path_segs :: "AmlResolvedNamePath \<Rightarrow> AmlNameSeg list" where
  "path_segs p = take (segment_count p) (segments p)"

definition path_wf :: "AmlResolvedNamePath \<Rightarrow> bool" where
  "path_wf p \<longleftrightarrow> p = of_segs (path_segs p) \<and> segment_count p \<le> AML_MAX_PATH_SEGMENTS"

lemma path_segs_of_segs [simp]: "path_segs (of_segs ss) = ss"
  by (simp add: path_segs_def of_segs_def)

lemma of_segs_inject [simp]: "of_segs a = of_segs b \<longleftrightarrow> a = b"
  by (metis path_segs_of_segs)

lemma segment_count_of_segs [simp]: "segment_count (of_segs ss) = length ss"
  by (simp add: of_segs_def)

lemma path_wf_of_segs [simp]: "path_wf (of_segs ss) \<longleftrightarrow> length ss \<le> AML_MAX_PATH_SEGMENTS"
  by (simp add: path_wf_def)

lemma path_wfE:
  assumes "path_wf p"
  obtains ss where "p = of_segs ss" and "length ss \<le> AML_MAX_PATH_SEGMENTS"
  using assms by (metis path_wf_def segment_count_of_segs)

lemma root_path_of_segs: "root_path = of_segs []"
  by (simp add: root_path_def of_segs_def)

lemma path_segment_of_segs:
  "path_segment (of_segs ss) i = (if i < length ss then Some (ss ! i) else None)"
  by (simp add: path_segment_def of_segs_def nth_append)

lemma last_segment_of_segs:
  "last_segment (of_segs ss) = (if ss = [] then None else Some (last ss))"
  by (simp add: last_segment_def path_segment_of_segs last_conv_nth)

lemma push_of_segs:
  "push (of_segs ss) s =
     (if length ss < AML_MAX_PATH_SEGMENTS then Ok (of_segs (ss @ [s])) else Err (Fail overflow))"
proof (cases "length ss < AML_MAX_PATH_SEGMENTS")
  case True
  then obtain k where "AML_MAX_PATH_SEGMENTS - length ss = Suc k" by (metis Suc_diff_Suc)
  then show ?thesis using True by (simp add: push_def of_segs_def list_update_append)
qed (simp add: push_def)

lemma pop_of_segs:
  assumes "length ss \<le> AML_MAX_PATH_SEGMENTS"
  shows "pop (of_segs ss) = (if ss = [] then Err (Fail invalid_name) else Ok (of_segs (butlast ss)))"
proof (cases ss rule: rev_cases)
  case (snoc ts t)
  have "AML_MAX_PATH_SEGMENTS - length ts = Suc (AML_MAX_PATH_SEGMENTS - length ss)"
    using assms snoc by simp
  then show ?thesis by (simp add: pop_def of_segs_def snoc)
qed (simp add: pop_def)

lemma path_parent_of_segs:
  "length ss \<le> AML_MAX_PATH_SEGMENTS \<Longrightarrow>
   path_parent (of_segs ss) = (if ss = [] then None else Some (of_segs (butlast ss)))"
  by (simp add: path_parent_def pop_of_segs)

lemma prefix_loop_of_segs:
  "i + k \<le> length ss \<Longrightarrow> length ss \<le> AML_MAX_PATH_SEGMENTS \<Longrightarrow>
   prefix_loop (of_segs ss) i k (of_segs (take i ss)) = Some (of_segs (take (i + k) ss))"
proof (induction k arbitrary: i)
  case (Suc k)
  have "push (of_segs (take i ss)) (ss ! i) = Ok (of_segs (take (Suc i) ss))"
    using Suc.prems by (simp add: push_of_segs take_Suc_conv_app_nth)
  then show ?case
    using Suc.prems Suc.IH [of "Suc i"] by (simp add: path_segment_of_segs)
qed simp

lemma path_prefix_of_segs:
  "length ss \<le> AML_MAX_PATH_SEGMENTS \<Longrightarrow>
   path_prefix (of_segs ss) k = (if k \<le> length ss then Some (of_segs (take k ss)) else None)"
  using prefix_loop_of_segs [of 0 k ss] by (simp add: path_prefix_def root_path_of_segs)

lemma pop_loop_of_segs:
  "length ss \<le> AML_MAX_PATH_SEGMENTS \<Longrightarrow>
   pop_loop k (of_segs ss) =
     (if k \<le> length ss then Ok (of_segs (take (length ss - k) ss)) else Err (Fail invalid_name))"
proof (induction k arbitrary: ss)
  case (Suc k)
  show ?case
  proof (cases ss rule: rev_cases)
    case (snoc ts t)
    then show ?thesis using Suc.IH [of ts] Suc.prems by (simp add: pop_of_segs)
  qed (simp add: pop_of_segs)
qed simp

lemmas path_of_segs = push_of_segs pop_of_segs path_parent_of_segs path_prefix_of_segs
  pop_loop_of_segs last_segment_of_segs root_path_of_segs

section \<open>Encoded names\<close>

text \<open>A decoded name is well formed when its raw bytes are its segments, each one valid.\<close>

definition seg_ok :: "AmlNameSeg \<Rightarrow> bool" where
  "seg_ok s \<longleftrightarrow> length (seg_bytes s) = 4 \<and> list_all name_byte (seg_bytes s)"

fun raw_segs :: "bytes \<Rightarrow> AmlNameSeg list" where
  "raw_segs (a # b # c # d # rest) = AmlNameSeg [a, b, c, d] # raw_segs rest"
| "raw_segs _ = []"

definition name_wf :: "AmlEncodedNameString \<Rightarrow> bool" where
  "name_wf n \<longleftrightarrow> length (raw_segments n) = 4 * name_segment_count n
                 \<and> list_all name_byte (raw_segments n)"

definition name_segs :: "AmlEncodedNameString \<Rightarrow> AmlNameSeg list" where
  "name_segs n = raw_segs (raw_segments n)"

lemma raw_segs_nth:
  "4 * i + 3 < length bs \<Longrightarrow>
   raw_segs bs ! i = AmlNameSeg [bs ! (4 * i), bs ! (4 * i + 1), bs ! (4 * i + 2), bs ! (4 * i + 3)]"
proof (induction bs arbitrary: i rule: raw_segs.induct)
  case (1 a b c d rest)
  then show ?case by (cases i) (auto simp: add.commute)
qed auto

lemma length_raw_segs: "length (raw_segs bs) = length bs div 4"
  by (induction bs rule: raw_segs.induct) auto

lemma length_name_segs [simp]: "name_wf n \<Longrightarrow> length (name_segs n) = name_segment_count n"
  by (simp add: name_segs_def name_wf_def length_raw_segs)

lemma name_segment_spec:
  assumes "name_wf n"
  shows "name_segment n i = Ok (if i < name_segment_count n then Some (name_segs n ! i) else None)"
proof (cases "i < name_segment_count n")
  case True
  let ?r = "raw_segments n"
  have len: "4 * i + 3 < length ?r" using assms True by (simp add: name_wf_def)
  have "name_byte (?r ! j)" if "j < length ?r" for j
    using assms that by (simp add: name_wf_def list_all_length)
  then have "list_all name_byte [?r ! (4 * i), ?r ! (4 * i + 1), ?r ! (4 * i + 2), ?r ! (4 * i + 3)]"
    using len by simp
  then show ?thesis
    using True len raw_segs_nth [OF len]
    by (simp add: name_segment_def Let_def slice_index_def from_bytes_def name_segs_def mult.commute)
qed (simp add: name_segment_def)

lemma push_loop_of_segs:
  assumes "name_wf n"
  shows "i + k \<le> name_segment_count n \<Longrightarrow> length ss \<le> AML_MAX_PATH_SEGMENTS \<Longrightarrow>
    push_loop n i k (of_segs ss) =
      (if length ss + k \<le> AML_MAX_PATH_SEGMENTS
       then Ok (of_segs (ss @ take k (drop i (name_segs n)))) else Err (Fail overflow))"
proof (induction k arbitrary: i ss)
  case (Suc k)
  have seg: "name_segment n i = Ok (Some (name_segs n ! i))"
    using Suc.prems name_segment_spec [OF assms, of i] by simp
  have split: "take (Suc k) (drop i (name_segs n)) = name_segs n ! i # take k (drop (Suc i) (name_segs n))"
    using Suc.prems assms by (simp add: Cons_nth_drop_Suc [symmetric])
  show ?case
  proof (cases "length ss < AML_MAX_PATH_SEGMENTS")
    case True
    then show ?thesis
      using Suc.IH [of "Suc i" "ss @ [name_segs n ! i]"] Suc.prems
      by (simp add: seg or_fail_def push_of_segs split)
  qed (simp add: seg or_fail_def push_of_segs)
qed simp

text \<open>What resolving a name against a scope means, on segment lists.\<close>

definition resolve_spec :: "AmlNameSeg list \<Rightarrow> AmlEncodedNameString \<Rightarrow> AmlNameSeg list aml" where
  "resolve_spec ss n =
     (if is_null n then Ok ss
      else if anchor n = ParentPrefix \<and> length ss < parent_prefixes n then Err (Fail invalid_name)
      else let base = (case anchor n of Root \<Rightarrow> []
                       | ParentPrefix \<Rightarrow> take (length ss - parent_prefixes n) ss | Local \<Rightarrow> ss)
           in if length base + name_segment_count n \<le> AML_MAX_PATH_SEGMENTS
              then Ok (base @ name_segs n) else Err (Fail overflow))"

text \<open>
  C35. Resolving a decoded name against a scope refines list concatenation: a rooted name is itself,
  a local one is appended to the scope, each leading \<open>^\<close> removes one trailing segment of the scope
  (an error when none is left), the null name is the scope, and a result of more than sixteen
  segments is an overflow error. The result is again canonical.
\<close>
theorem resolve_refines:
  assumes "name_wf n" and "length ss \<le> AML_MAX_PATH_SEGMENTS"
  shows "resolve (of_segs ss) n = bind_result (resolve_spec ss n) (\<lambda>ts. Ok (of_segs ts))"
  using assms push_loop_of_segs [OF assms(1), of 0 "name_segment_count n"]
  by (cases "anchor n") (auto simp: resolve_def resolve_spec_def path_of_segs Let_def)

theorem resolve_refines_witness:
  "resolve (of_segs [AmlNameSeg [0x5f, 0x53, 0x42, 0x5f]])
     \<lparr>anchor = ParentPrefix, parent_prefixes = 1, name_segment_count = 1, is_null = False,
      raw_segments = [0x57, 0x58, 0x59, 0x5a], consumed_bytes = 5\<rparr>
     = Ok (of_segs [AmlNameSeg [0x57, 0x58, 0x59, 0x5a]])"
  by (subst resolve_refines)
     (simp_all add: name_wf_def name_byte_def is_ascii_uppercase_def AML_MAX_PATH_SEGMENTS_def
        resolve_spec_def name_segs_def)

section \<open>Decoding name strings\<close>

lemma validate_chunks_Ok_iff:
  "length bs mod 4 = 0 \<Longrightarrow> validate_chunks bs = Ok u \<longleftrightarrow> list_all name_byte bs"
proof (induction bs rule: validate_chunks.induct)
  case (1 a b c d rest)
  have "length rest mod 4 = 0" using 1(2) by simp
  with 1(1) show ?case by (auto simp: from_bytes_def bind_result_Ok_iff)
qed auto

lemma validate_namesegs_Ok_iff [ok_iff]:
  "validate_namesegs bs = Ok u \<longleftrightarrow> length bs mod 4 = 0 \<and> list_all name_byte bs"
  using validate_chunks_Ok_iff [of bs u] by (auto simp: validate_namesegs_def)

lemma validate_chunks_Err: "validate_chunks bs = Err s \<Longrightarrow> s = Fail invalid_name"
  by (induction bs rule: validate_chunks.induct)
     (auto simp: from_bytes_def bind_result_Err_iff split: if_splits)

lemma validate_namesegs_Err: "validate_namesegs bs = Err s \<Longrightarrow> s = Fail invalid_name"
  using validate_chunks_Err [of bs s] by (auto simp: validate_namesegs_def split: if_splits)

lemma parse_name_tail_Ok:
  assumes "parse_name_tail bs off = Ok (count, raw, tail, null)"
  shows "length raw = 4 * count" and "list_all name_byte raw" and "0 < tail"
    and "off + tail \<le> length bs"
  using assms by (auto simp: parse_name_tail_def ok_iff split: if_splits)

lemma parse_name_tail_Err:
  "parse_name_tail bs off = Err s \<Longrightarrow> s = Fail truncated \<or> s = Fail invalid_name"
  by (auto simp: parse_name_tail_def bind_result_Err_iff dest: validate_namesegs_Err split: if_splits)

lemma parse_encoded_name_Ok:
  assumes "parse_encoded_name bs = Ok n"
  shows "name_wf n" and "0 < consumed_bytes n" and "consumed_bytes n \<le> length bs"
    and "consumed_bytes n \<le> 255"
proof -
  obtain anch prefixes off where an: "parse_anchor bs = (anch, prefixes, off)" by (metis prod_cases3)
  obtain count raw tail null where tl: "parse_name_tail bs off = Ok (count, raw, tail, null)"
    and n: "n = \<lparr>anchor = anch, parent_prefixes = prefixes, name_segment_count = count,
                 is_null = null, raw_segments = raw, consumed_bytes = off + tail\<rparr>"
    and le: "off + tail \<le> 255"
    using assms by (auto simp: parse_encoded_name_def an ok_iff split: if_splits)
  show "name_wf n" "0 < consumed_bytes n" "consumed_bytes n \<le> length bs" "consumed_bytes n \<le> 255"
    using parse_name_tail_Ok [OF tl] le by (simp_all add: n name_wf_def)
qed

lemma parse_encoded_name_Err:
  assumes "parse_encoded_name bs = Err s"
  shows "s \<in> {Fail truncated, Fail invalid_name, Fail overflow}"
proof -
  obtain anch prefixes off where an: "parse_anchor bs = (anch, prefixes, off)" by (metis prod_cases3)
  show ?thesis
    using assms by (auto simp: parse_encoded_name_def an bind_result_Err_iff
        dest!: parse_name_tail_Err split: if_splits)
qed

text \<open>The encoding the format prescribes for a name of any shape.\<close>

definition anchor_bytes :: "AmlNameAnchor \<Rightarrow> nat \<Rightarrow> bytes" where
  "anchor_bytes a k = (case a of Root \<Rightarrow> [0x5c] | ParentPrefix \<Rightarrow> replicate k 0x5e | Local \<Rightarrow> [])"

definition segs_bytes :: "AmlNameSeg list \<Rightarrow> bytes" where
  "segs_bytes ss = concat (map seg_bytes ss)"

definition name_path_bytes :: "AmlNameSeg list \<Rightarrow> bytes" where
  "name_path_bytes ss =
     (if ss = [] then [0x00]
      else if length ss = 1 then segs_bytes ss
      else if length ss = 2 then 0x2e # segs_bytes ss
      else 0x2f # of_nat (length ss) # segs_bytes ss)"

lemma length_segs_bytes: "list_all seg_ok ss \<Longrightarrow> length (segs_bytes ss) = 4 * length ss"
  by (induction ss) (auto simp: segs_bytes_def seg_ok_def)

lemma name_byte_segs_bytes: "list_all seg_ok ss \<Longrightarrow> list_all name_byte (segs_bytes ss)"
  by (induction ss) (auto simp: segs_bytes_def seg_ok_def)

lemma raw_segs_segs_bytes: "list_all seg_ok ss \<Longrightarrow> raw_segs (segs_bytes ss) = ss"
proof (induction ss)
  case (Cons s ss)
  obtain a b c d where "seg_bytes s = [a, b, c, d]"
    using Cons.prems by (auto simp: seg_ok_def length_Suc_conv eval_nat_numeral)
  moreover have "s = AmlNameSeg (seg_bytes s)" by simp
  ultimately show ?case using Cons by (simp add: segs_bytes_def)
qed (simp add: segs_bytes_def)

lemma name_byte_not_special:
  "name_byte b \<Longrightarrow> b \<noteq> 0 \<and> b \<noteq> 0x2e \<and> b \<noteq> 0x2f \<and> b \<noteq> 0x5c \<and> b \<noteq> 0x5e"
  by (auto simp: name_byte_def is_ascii_uppercase_def is_ascii_digit_def)

lemma segs_bytes_Cons_first:
  "list_all seg_ok ss \<Longrightarrow> ss \<noteq> [] \<Longrightarrow> name_byte ((segs_bytes ss @ rest) ! 0)"
  using length_segs_bytes [of ss] name_byte_segs_bytes [of ss]
  by (cases "segs_bytes ss") auto

lemma validate_segs_bytes: "list_all seg_ok ss \<Longrightarrow> validate_namesegs (segs_bytes ss) = Ok ()"
  by (simp add: validate_namesegs_Ok_iff length_segs_bytes name_byte_segs_bytes)

lemma parse_name_tail_encoded:
  assumes ok: "list_all seg_ok ss" and len: "length ss < 256"
  shows "parse_name_tail (pre @ name_path_bytes ss @ rest) (length pre)
           = Ok (length ss, segs_bytes ss, length (name_path_bytes ss), ss = [])"
proof -
  let ?bs = "pre @ name_path_bytes ss @ rest"
  note simps = parse_name_tail_def name_path_bytes_def slice_get_def get_range_def or_fail_def
    length_segs_bytes [OF ok] validate_segs_bytes [OF ok] nth_append
  consider "ss = []" | "length ss = 1" | "length ss = 2" | "2 < length ss"
    by (metis One_nat_def Suc_1 le_neq_implies_less length_0_conv less_Suc_eq_le not_less_eq linorder_neqE_nat less_one)
  then show ?thesis
  proof cases
    case 2
    then have ne: "ss \<noteq> []" and l4: "length (segs_bytes ss) = 4"
      using length_segs_bytes [OF ok] by auto
    have np: "name_path_bytes ss = segs_bytes ss" using 2 ne by (simp add: name_path_bytes_def)
    have "slice_get ?bs (length pre) = Some (segs_bytes ss ! 0)"
      and "get_range ?bs (length pre) (length pre + 4) = Some (segs_bytes ss)"
      by (simp_all add: slice_get_def get_range_def np l4 nth_append)
    moreover have "name_byte (segs_bytes ss ! 0)"
      using segs_bytes_Cons_first [OF ok ne, of "[]"] by simp
    ultimately show ?thesis
      using name_byte_not_special [of "segs_bytes ss ! 0"] 2 ne l4
      by (simp add: parse_name_tail_def or_fail_def np validate_segs_bytes [OF ok])
  next
    case 4
    then have "unat (of_nat (length ss) :: u8) = length ss" using len by (simp add: unat_of_nat)
    with 4 show ?thesis by (auto simp: simps)
  next
    case 3
    then show ?thesis by (auto simp: simps)
  qed (simp add: simps segs_bytes_def)
qed

lemma parent_prefix_loop_replicate:
  assumes "bs ! 0 \<noteq> 0x5e" and "bs \<noteq> []"
  shows "p + k \<le> 255 \<Longrightarrow> parent_prefix_loop (replicate k 0x5e @ bs) p off = (p + k, off + k)"
proof (induction k arbitrary: p off)
  case 0
  with assms show ?case by (cases bs) auto
qed (simp add: min_def)

lemma name_path_bytes_first:
  assumes "list_all seg_ok ss"
  shows "name_path_bytes ss @ rest \<noteq> []"
    and "(name_path_bytes ss @ rest) ! 0 \<noteq> 0x5c" and "(name_path_bytes ss @ rest) ! 0 \<noteq> 0x5e"
proof -
  have "(name_path_bytes ss @ rest) ! 0 \<noteq> 0x5c \<and> (name_path_bytes ss @ rest) ! 0 \<noteq> 0x5e"
    using name_byte_not_special [OF segs_bytes_Cons_first [OF assms, of rest]]
    by (auto simp: name_path_bytes_def)
  then show "(name_path_bytes ss @ rest) ! 0 \<noteq> 0x5c" "(name_path_bytes ss @ rest) ! 0 \<noteq> 0x5e"
    by auto
  show "name_path_bytes ss @ rest \<noteq> []"
    using length_segs_bytes [OF assms] by (auto simp: name_path_bytes_def)
qed

lemma parse_anchor_encoded:
  assumes "list_all seg_ok ss" and "k \<le> 255" and "a = ParentPrefix \<longleftrightarrow> 0 < k"
  shows "parse_anchor (anchor_bytes a k @ name_path_bytes ss @ rest)
           = (a, k, length (anchor_bytes a k))"
proof (cases a)
  case ParentPrefix
  then obtain j where "k = Suc j" using assms(3) by (cases k) auto
  then show ?thesis
    using ParentPrefix parent_prefix_loop_replicate [OF name_path_bytes_first(3,1) [OF assms(1)], of 0 k rest 0] assms(2)
    by (simp add: parse_anchor_def anchor_bytes_def)
next
  case Local
  then show ?thesis
    using assms(3) name_path_bytes_first [OF assms(1), of rest]
      parent_prefix_loop_replicate [OF name_path_bytes_first(3,1) [OF assms(1)], of 0 0 rest 0]
    by (simp add: parse_anchor_def anchor_bytes_def)
qed (use assms(3) in \<open>simp_all add: parse_anchor_def anchor_bytes_def\<close>)

text \<open>
  C36. Name strings round trip: for every anchor, number of parent prefixes and list of valid segments
  whose encoding takes at most 255 bytes, decoding the encoding (whatever follows it) returns that
  anchor, those prefixes and those segments, and consumes exactly the encoding.
\<close>
theorem encoded_name_roundtrip:
  assumes "list_all seg_ok ss" and "a = ParentPrefix \<longleftrightarrow> 0 < k"
    and "length (anchor_bytes a k @ name_path_bytes ss) \<le> 255"
  shows "\<exists>n. parse_encoded_name (anchor_bytes a k @ name_path_bytes ss @ rest) = Ok n
             \<and> anchor n = a \<and> parent_prefixes n = k \<and> name_segs n = ss \<and> name_wf n
             \<and> (is_null n \<longleftrightarrow> ss = [])
             \<and> consumed_bytes n = length (anchor_bytes a k @ name_path_bytes ss)"
proof -
  let ?bs = "anchor_bytes a k @ name_path_bytes ss @ rest"
  have "length (anchor_bytes a k) \<le> 255" and ls: "length ss < 256"
    using assms(3) length_segs_bytes [OF assms(1)]
    by (auto simp: name_path_bytes_def split: if_splits)
  then have k: "k \<le> 255" using assms(2) by (cases a) (auto simp: anchor_bytes_def)
  have ne: "?bs \<noteq> []" using name_path_bytes_first(1) [OF assms(1), of rest] by simp
  show ?thesis
    using assms(3) ne parse_name_tail_encoded [OF assms(1) ls, of "anchor_bytes a k" rest]
      parse_anchor_encoded [OF assms(1) k assms(2), of rest]
    by (auto simp: parse_encoded_name_def name_segs_def name_wf_def raw_segs_segs_bytes [OF assms(1)]
        length_segs_bytes [OF assms(1)] name_byte_segs_bytes [OF assms(1)])
qed

theorem encoded_name_roundtrip_witness:
  "\<exists>n. parse_encoded_name [0x5e, 0x5e, 0x41, 0x42, 0x43, 0x44, 0xff] = Ok n
       \<and> parent_prefixes n = 2 \<and> name_segs n = [AmlNameSeg [0x41, 0x42, 0x43, 0x44]] \<and> consumed_bytes n = 6"
proof -
  have "anchor_bytes ParentPrefix 2 = [0x5e, 0x5e]" by (simp add: anchor_bytes_def numeral_2_eq_2)
  then show ?thesis
    using encoded_name_roundtrip [of "[AmlNameSeg [0x41, 0x42, 0x43, 0x44]]" ParentPrefix 2 "[0xff]"]
    by (auto simp: seg_ok_def name_byte_def is_ascii_uppercase_def name_path_bytes_def segs_bytes_def)
qed

text \<open>
  A rooted or parent-prefixed null name (\<open>\\<close> or \<open>^\<close> followed by the null name, which is how the
  format spells the root and the parent themselves) resolves to the current scope: \<open>resolve\<close> tests
  the null flag before it looks at the anchor.
\<close>

lemma null_name_ignores_anchor: "is_null n \<Longrightarrow> resolve p n = Ok p"
  by (simp add: resolve_def)

section \<open>The textual syntax\<close>

definition print_text :: "AmlNameSeg list \<Rightarrow> bytes" where
  "print_text ss = 0x5c # (case ss of [] \<Rightarrow> [] | s # ts \<Rightarrow> seg_bytes s @ concat (map (\<lambda>t. 0x2e # seg_bytes t) ts))"

lemma name_byte_no_dot: "list_all name_byte bs \<Longrightarrow> 0x2e \<notin> set bs"
  using name_byte_not_special by (auto simp: list_all_iff)

lemma split_dots_append:
  "0x2e \<notin> set bs \<Longrightarrow> split_dots (bs @ 0x2e # rest) = bs # split_dots rest"
  by (induction bs) auto

lemma split_dots_plain: "0x2e \<notin> set bs \<Longrightarrow> split_dots bs = [bs]"
  by (induction bs) auto

lemma split_dots_segs:
  "list_all seg_ok (s # ts) \<Longrightarrow>
   split_dots (seg_bytes s @ concat (map (\<lambda>t. 0x2e # seg_bytes t) ts)) = map seg_bytes (s # ts)"
proof (induction ts arbitrary: s)
  case Nil
  then show ?case using name_byte_no_dot [of "seg_bytes s"] by (simp add: seg_ok_def split_dots_plain)
next
  case (Cons t ts)
  then have "0x2e \<notin> set (seg_bytes s)" using name_byte_no_dot by (simp add: seg_ok_def)
  with Cons show ?case by (simp add: split_dots_append)
qed

lemma parse_text_segment_seg: "seg_ok s \<Longrightarrow> parse_text_segment (seg_bytes s) = Ok s"
proof -
  assume ok: "seg_ok s"
  then obtain a b c d where s: "seg_bytes s = [a, b, c, d]"
    by (auto simp: seg_ok_def length_Suc_conv eval_nat_numeral)
  moreover have "s = AmlNameSeg (seg_bytes s)" by simp
  ultimately show ?thesis
    using ok by (auto simp: parse_text_segment_def seg_ok_def from_bytes_def name_byte_def)
qed

lemma parse_text_loop_segs:
  "list_all seg_ok ts \<Longrightarrow> length ss + length ts \<le> AML_MAX_PATH_SEGMENTS \<Longrightarrow>
   parse_text_loop (map seg_bytes ts) (of_segs ss) = Ok (of_segs (ss @ ts))"
  by (induction ts arbitrary: ss) (auto simp: parse_text_segment_seg push_of_segs)

lemma name_byte_ascii: "name_byte b \<Longrightarrow> b < 0x80"
  by (auto simp: name_byte_def is_ascii_uppercase_def is_ascii_digit_def word_less_nat_alt word_le_nat_alt)

lemma is_ascii_print_text: "list_all seg_ok ss \<Longrightarrow> is_ascii (print_text ss)"
  using name_byte_ascii
  by (auto simp: is_ascii_def print_text_def seg_ok_def list_all_iff split: list.splits)

text \<open>
  Textual paths round trip: parsing the printed form of any list of at most sixteen valid
  segments returns the canonical path with exactly those segments.
\<close>
theorem text_path_roundtrip:
  assumes "list_all seg_ok ss" and "length ss \<le> AML_MAX_PATH_SEGMENTS"
  shows "parse_text (print_text ss) = Ok (of_segs ss)"
proof (cases ss)
  case Nil
  then show ?thesis by (simp add: parse_text_def print_text_def is_ascii_def root_path_of_segs)
next
  case (Cons s ts)
  have "seg_bytes s \<noteq> []" using assms(1) Cons by (auto simp: seg_ok_def)
  then show ?thesis
    using assms is_ascii_print_text [OF assms(1)] split_dots_segs [of s ts] parse_text_loop_segs [of ss "[]"]
    by (simp add: parse_text_def print_text_def Cons root_path_of_segs)
qed

theorem text_path_roundtrip_witness:
  "parse_text [0x5c, 0x5f, 0x53, 0x42, 0x5f, 0x2e, 0x41, 0x43, 0x30, 0x31]
     = Ok (of_segs [AmlNameSeg [0x5f, 0x53, 0x42, 0x5f], AmlNameSeg [0x41, 0x43, 0x30, 0x31]])"
  using text_path_roundtrip [of "[AmlNameSeg [0x5f, 0x53, 0x42, 0x5f], AmlNameSeg [0x41, 0x43, 0x30, 0x31]]"]
  by (simp add: print_text_def seg_ok_def name_byte_def is_ascii_uppercase_def is_ascii_digit_def
      AML_MAX_PATH_SEGMENTS_def)

end
