(* ===== verification/Aml_Namespace.thy ===== *)
theory Aml_Namespace
  imports Aml_Name_Props
begin

text \<open>
  The loaded AML namespace (\<open>aml/namespace.rs\<close> with the descriptors of \<open>object.rs\<close>, \<open>method.rs\<close>,
  \<open>field.rs\<close>, \<open>opregion.rs\<close>, \<open>value.rs\<close> and the block set of \<open>loader.rs\<close>): node records in load
  order, lookup by id and by path, the upward search of a local name, and reading the bytes a code
  location names.
\<close>

section \<open>Descriptors\<close>

datatype AmlObjectKind =
    KScope | KDevice | KMethod | KName | KOpRegion | KField | KBufferField | KMutex | KEvent
  | KProcessor | KThermalZone | KPowerResource | KAlias | KExternal

type_synonym AmlNamespaceNodeId = u32

datatype AmlMethodKind =
    Ordinary | Initialize | Status | RegionAvailability | NotificationQuery | EventHandler

datatype AmlMethodSerialization = NotSerialized | Serialized

record AmlMethodDescriptor =
  method_node :: AmlNamespaceNodeId
  arg_count :: u8
  serialization :: AmlMethodSerialization
  sync_level :: u8
  method_kind :: AmlMethodKind
  method_body :: AmlCodeLocation

datatype AmlAddressSpaceId =
    SystemMemory | SystemIo | PciConfig | EmbeddedControl | SmBus | Cmos | PciBarTarget | Ipmi | Gpio
  | GenericSerialBus | PlatformCommChannel | FunctionalFixedHardware | Oem u8

record AmlOpRegionDescriptor =
  region_node :: AmlNamespaceNodeId
  region_space :: AmlAddressSpaceId
  region_offset :: "64 word option"
  region_length :: "64 word option"

datatype AmlFieldAccessKind = AccessAny | AccessByte | AccessWord | AccessDWord | AccessQWord | AccessBuffer
datatype AmlFieldUpdateKind = Preserve | WriteAsOnes | WriteAsZeros

record AmlFieldDescriptor =
  field_node :: AmlNamespaceNodeId
  field_region :: "AmlNamespaceNodeId option"
  bit_offset :: u32
  bit_width :: u32
  field_access :: AmlFieldAccessKind
  field_update :: AmlFieldUpdateKind

record AmlNamespaceNodeDescriptor =
  node_id :: AmlNamespaceNodeId
  node_parent :: "AmlNamespaceNodeId option"
  node_kind :: AmlObjectKind
  node_path :: AmlResolvedNamePath

datatype AmlNamespaceNodePayload =
    PayloadNone
  | NameInteger "64 word"
  | PayloadMethod AmlMethodDescriptor
  | PayloadOpRegion AmlOpRegionDescriptor
  | PayloadField AmlFieldDescriptor

record AmlNamespaceLoadRecord =
  descriptor :: AmlNamespaceNodeDescriptor
  body :: "AmlCodeLocation option"
  payload :: AmlNamespaceNodePayload

section \<open>Blocks and the loaded namespace\<close>

datatype AmlIntegerWidth = Bits32 | Bits64

definition from_definition_block_revision :: "u8 \<Rightarrow> AmlIntegerWidth" where
  "from_definition_block_revision revision = (if revision < 2 then Bits32 else Bits64)"

record AmlDefinitionBlockHeader =
  signature :: bytes
  revision :: u8
  oem_id :: bytes
  oem_table_id :: bytes
  oem_revision :: u32

record AmlDefinitionBlock =
  block_kind :: AmlDefinitionBlockKind
  header :: AmlDefinitionBlockHeader
  block_bytes :: bytes

record AmlDefinitionBlockSet =
  dsdt :: AmlDefinitionBlock
  ssdts :: "AmlDefinitionBlock list"

definition total_block_count :: "AmlDefinitionBlockSet \<Rightarrow> usize" where
  "total_block_count s = 1 + length (ssdts s)"

definition block_at :: "AmlDefinitionBlockSet \<Rightarrow> 16 word \<Rightarrow> AmlDefinitionBlock option" where
  "block_at s index = (if index = 0 then Some (dsdt s) else slice_get (ssdts s) (unat (index - 1)))"

datatype AmlNamespaceState = Empty | DefinitionBlocksLoaded | RegionsRegistered | Initialized

record AmlNamespace =
  ns_state :: AmlNamespaceState
  node_count :: u32

record AmlLoadedNamespace =
  namespace :: AmlNamespace
  records :: "AmlNamespaceLoadRecord list"
  blocks :: AmlDefinitionBlockSet

definition record_of :: "AmlLoadedNamespace \<Rightarrow> AmlNamespaceNodeId \<Rightarrow> AmlNamespaceLoadRecord option" where
  "record_of ns node = find (\<lambda>r. node_id (descriptor r) = node) (records ns)"

definition record_by_path :: "AmlLoadedNamespace \<Rightarrow> AmlResolvedNamePath \<Rightarrow> AmlNamespaceLoadRecord option" where
  "record_by_path ns path = find (\<lambda>r. node_path (descriptor r) = path) (records ns)"

lemma path_parent_smaller: "path_parent p = Some q \<Longrightarrow> segment_count q < segment_count p"
  by (auto simp: path_parent_def pop_def split: if_splits)

text \<open>The \<open>loop\<close> of \<open>resolve_lookup_path\<close>: try the scope, then its parent, up to the root.\<close>

function lookup_loop :: "AmlLoadedNamespace \<Rightarrow> AmlEncodedNameString \<Rightarrow> AmlResolvedNamePath \<Rightarrow> AmlResolvedNamePath aml" where
  "lookup_loop ns encoded scope =
     bind_result (resolve scope encoded) (\<lambda>candidate.
       if record_by_path ns candidate \<noteq> None then Ok candidate
       else (case path_parent scope of
               Some parent \<Rightarrow> lookup_loop ns encoded parent
             | None \<Rightarrow> Ok candidate))"
  by auto
termination
  by (relation "measure (\<lambda>(_, _, scope). segment_count scope)") (auto dest: path_parent_smaller)

declare lookup_loop.simps [simp del]

definition resolve_lookup_path ::
  "AmlLoadedNamespace \<Rightarrow> AmlResolvedNamePath \<Rightarrow> AmlEncodedNameString \<Rightarrow> AmlResolvedNamePath aml" where
  "resolve_lookup_path ns current_scope_path encoded =
     (case anchor encoded of
        Root \<Rightarrow> resolve current_scope_path encoded
      | ParentPrefix \<Rightarrow> resolve current_scope_path encoded
      | Local \<Rightarrow> lookup_loop ns encoded current_scope_path)"

definition code_bytes :: "AmlLoadedNamespace \<Rightarrow> AmlCodeLocation \<Rightarrow> bytes option" where
  "code_bytes ns location =
     (case block_at (blocks ns) (block_index location) of
        None \<Rightarrow> None
      | Some b \<Rightarrow>
          let start = unat (span_offset (span location)) in
          (case checked_add start (unat (span_length (span location))) of
             None \<Rightarrow> None
           | Some end' \<Rightarrow> get_range (block_bytes b) start end'))"

section \<open>The upward search\<close>

text \<open>
  The scopes a local name is tried in, innermost first: the current scope and then every shorter
  prefix of it, the root last.
\<close>

definition search_scopes :: "AmlNameSeg list \<Rightarrow> AmlNameSeg list list" where
  "search_scopes ss = map (\<lambda>k. take (length ss - k) ss) [0..<Suc (length ss)]"

definition declared :: "AmlLoadedNamespace \<Rightarrow> AmlNameSeg list \<Rightarrow> bool" where
  "declared ns ss \<longleftrightarrow> (\<exists>r \<in> set (records ns). node_path (descriptor r) = of_segs ss)"

lemma record_by_path_declared: "record_by_path ns (of_segs ss) \<noteq> None \<longleftrightarrow> declared ns ss"
  by (auto simp: record_by_path_def declared_def find_None_iff)

lemma search_scopes_Nil [simp]: "search_scopes [] = [[]]"
  by (simp add: search_scopes_def)

lemma search_scopes_snoc [simp]: "search_scopes (ss @ [s]) = (ss @ [s]) # search_scopes ss"
proof -
  have "map (\<lambda>k. take (length (ss @ [s]) - k) (ss @ [s])) [1..<Suc (length (ss @ [s]))]
          = map (\<lambda>k. take (length ss - k) ss) [0..<Suc (length ss)]"
    by (rule nth_equalityI) (auto simp: nth_append simp del: upt_Suc)
  then show ?thesis
    unfolding search_scopes_def by (subst upt_conv_Cons) (simp_all del: upt_Suc)
qed

lemma search_scopes_nonempty: "search_scopes ss \<noteq> []"
  by (simp add: search_scopes_def)

text \<open>
  The search as a specification: the first enclosing scope in which the name is declared, or the
  name in the root scope when it is declared in none.
\<close>

definition lookup_spec :: "AmlLoadedNamespace \<Rightarrow> AmlNameSeg list \<Rightarrow> AmlNameSeg list \<Rightarrow> AmlNameSeg list" where
  "lookup_spec ns ss name =
     (case find (\<lambda>sc. declared ns (sc @ name)) (search_scopes ss) of
        Some sc \<Rightarrow> sc @ name
      | None \<Rightarrow> name)"

lemma lookup_loop_spec:
  assumes n: "name_wf n" "anchor n = Local" "\<not> is_null n"
  shows "length ss + name_segment_count n \<le> AML_MAX_PATH_SEGMENTS \<Longrightarrow>
         lookup_loop ns n (of_segs ss) = Ok (of_segs (lookup_spec ns ss (name_segs n)))"
proof (induction ss rule: rev_induct)
  case Nil
  then show ?case
    using resolve_refines [OF n(1), of "[]"] n record_by_path_declared [of ns "name_segs n"]
    by (subst lookup_loop.simps) (simp add: resolve_spec_def lookup_spec_def path_parent_of_segs)
next
  case (snoc s ss)
  have r: "resolve (of_segs (ss @ [s])) n = Ok (of_segs (ss @ [s] @ name_segs n))"
    using resolve_refines [OF n(1), of "ss @ [s]"] n snoc.prems by (simp add: resolve_spec_def)
  have p: "path_parent (of_segs (ss @ [s])) = Some (of_segs ss)"
    using snoc.prems by (simp add: path_parent_of_segs)
  show ?case
    using snoc.IH snoc.prems r p record_by_path_declared [of ns "ss @ [s] @ name_segs n"]
    by (subst lookup_loop.simps) (simp add: lookup_spec_def)
qed

lemma set_search_scopes: "set (search_scopes ss) = {take k ss |k. k \<le> length ss}"
proof -
  have "take k ss \<in> (\<lambda>j. take (length ss - j) ss) ` {0..<Suc (length ss)}" if "k \<le> length ss" for k
    using that by (intro image_eqI [of _ _ "length ss - k"]) auto
  then show ?thesis unfolding search_scopes_def by (auto simp del: upt_Suc)
qed

lemma lookup_spec_declared:
  "declared ns (lookup_spec ns ss name) \<longleftrightarrow> (\<exists>k \<le> length ss. declared ns (take k ss @ name))"
proof (cases "find (\<lambda>sc. declared ns (sc @ name)) (search_scopes ss)")
  case None
  then have none: "\<not> declared ns (take k ss @ name)" if "k \<le> length ss" for k
    using that by (auto simp: find_None_iff set_search_scopes)
  from none [of 0] none None show ?thesis by (auto simp: lookup_spec_def)
next
  case (Some sc)
  then have "sc \<in> set (search_scopes ss)" and "declared ns (sc @ name)"
    by (auto simp: find_Some_iff)
  with Some show ?thesis by (auto simp: lookup_spec_def set_search_scopes)
qed

text \<open>
  A local name is found by the upward search rule: the result is the name in the innermost
  enclosing scope that declares it, and the name in the root when no enclosing scope does; so the
  result is declared exactly when some enclosing scope declares the name. The loop always returns.
\<close>
theorem lookup_finds_innermost:
  assumes "name_wf n" and "anchor n = Local" and "\<not> is_null n"
    and "length ss + name_segment_count n \<le> AML_MAX_PATH_SEGMENTS"
  shows "resolve_lookup_path ns (of_segs ss) n = Ok (of_segs (lookup_spec ns ss (name_segs n)))
         \<and> (declared ns (lookup_spec ns ss (name_segs n)) \<longleftrightarrow>
              (\<exists>k \<le> length ss. declared ns (take k ss @ name_segs n)))"
  using lookup_loop_spec [OF assms] assms(2) lookup_spec_declared [of ns ss "name_segs n"]
  by (simp add: resolve_lookup_path_def)

end
