(* ===== verification/Aml_Loader.thy ===== *)
theory Aml_Loader
  imports Aml_Namespace
begin

text \<open>
  The AML namespace loader (\<open>aml/loader.rs\<close>): it walks the term lists of the DSDT and of every SSDT
  and appends one record per named object to caller-provided storage. The loader is consumed by
  \<open>load\<close>, so its state after an error is not observable and an operation returns the new loader
  only when it returns \<open>Ok\<close>.

  \<open>walk_term_list\<close> and the operations that recurse into it (\<open>Scope\<close>, \<open>If\<close>/\<open>Else\<close>, \<open>Device\<close>,
  \<open>Processor\<close>, ...) take the walker as an argument; the walker itself recurses on fuel, one unit per
  loop iteration or nesting level. \<open>load\<close> gives each block one unit more than its length, which is
  always enough (\<open>Aml_Loader_Props\<close>). Call-stack exhaustion is not modelled.
\<close>

section \<open>Plan and storage\<close>

record AmlNamespaceLoadPlan =
  plan_blocks :: AmlDefinitionBlockSet
  integer_width :: AmlIntegerWidth

datatype AmlLoadPhase = DefinitionBlocks | RegionRegistration | DeviceInitialization

definition from_definition_blocks :: "AmlDefinitionBlockSet \<Rightarrow> AmlNamespaceLoadPlan" where
  "from_definition_blocks bset =
     \<lparr>plan_blocks = bset,
      integer_width = from_definition_block_revision (revision (header (dsdt bset)))\<rparr>"

definition initial_namespace :: "AmlNamespaceLoadPlan \<Rightarrow> AmlNamespace" where
  "initial_namespace p = \<lparr>ns_state = DefinitionBlocksLoaded, node_count = 1\<rparr>"

definition phase_order :: "AmlLoadPhase list" where
  "phase_order = [DefinitionBlocks, RegionRegistration, DeviceInitialization]"

text \<open>
  \<open>storage[..len]\<close> is the list \<open>stored\<close>; the slots from \<open>len\<close> on are uninitialised and never read.
\<close>

record AmlNamespaceLoader =
  plan :: AmlNamespaceLoadPlan
  storage_len :: usize
  stored :: "AmlNamespaceLoadRecord list"
  next_id :: u32

definition ROOT_NODE_ID :: AmlNamespaceNodeId where
  "ROOT_NODE_ID = 0"

definition saturating_succ :: "u32 \<Rightarrow> u32" where
  "saturating_succ x = (if x = - 1 then - 1 else x + 1)"

definition push_record ::
  "AmlNamespaceNodeDescriptor \<Rightarrow> AmlCodeLocation option \<Rightarrow> AmlNamespaceNodePayload
     \<Rightarrow> AmlNamespaceLoader \<Rightarrow> (AmlNamespaceNodeId \<times> AmlNamespaceLoader) aml" where
  "push_record d b p ld =
     (if storage_len ld \<le> length (stored ld) then Err (Fail overflow)
      else Ok (node_id d,
               ld\<lparr>stored := stored ld @ [\<lparr>descriptor = d, body = b, payload = p\<rparr>],
                  next_id := max (next_id ld) (saturating_succ (node_id d))\<rparr>))"

definition insert_record_with_id ::
  "AmlNamespaceNodeDescriptor \<Rightarrow> AmlCodeLocation option \<Rightarrow> AmlNamespaceNodePayload
     \<Rightarrow> AmlNamespaceLoader \<Rightarrow> AmlNamespaceLoader aml" where
  "insert_record_with_id d b p ld = bind_result (push_record d b p ld) (\<lambda>(_, ld'). Ok ld')"

definition next_node_id :: "AmlNamespaceLoader \<Rightarrow> AmlNamespaceNodeId \<times> AmlNamespaceLoader" where
  "next_node_id ld = (next_id ld, ld\<lparr>next_id := next_id ld + 1\<rparr>)"

definition find_record :: "AmlNamespaceLoader \<Rightarrow> AmlResolvedNamePath \<Rightarrow> AmlNamespaceLoadRecord option" where
  "find_record ld path = find (\<lambda>r. node_path (descriptor r) = path) (stored ld)"

definition find_node_id :: "AmlNamespaceLoader \<Rightarrow> AmlResolvedNamePath \<Rightarrow> AmlNamespaceNodeId option" where
  "find_node_id ld path = map_option (\<lambda>r. node_id (descriptor r)) (find_record ld path)"

definition insert_unique_record ::
  "AmlResolvedNamePath \<Rightarrow> AmlNamespaceNodeId option \<Rightarrow> AmlObjectKind \<Rightarrow> AmlCodeLocation option
     \<Rightarrow> AmlNamespaceNodePayload \<Rightarrow> AmlNamespaceLoader
     \<Rightarrow> (AmlNamespaceNodeId \<times> AmlNamespaceLoader) aml" where
  "insert_unique_record path parent kind b p ld =
     (if find_record ld path \<noteq> None then Err (Fail namespace_conflict)
      else let (id, ld1) = next_node_id ld in
        bind_result (insert_record_with_id
            \<lparr>node_id = id, node_parent = parent, node_kind = kind, node_path = path\<rparr> b p ld1)
          (\<lambda>ld2. Ok (id, ld2)))"

definition loader_new :: "AmlNamespaceLoadPlan \<Rightarrow> usize \<Rightarrow> AmlNamespaceLoader aml" where
  "loader_new pl capacity =
     bind_result
       (push_record
          \<lparr>node_id = ROOT_NODE_ID, node_parent = None, node_kind = KScope, node_path = root_path\<rparr>
          None PayloadNone
          \<lparr>plan = pl, storage_len = capacity, stored = [], next_id = 0\<rparr>)
       (\<lambda>(_, ld). Ok ld)"

definition loaded_namespace :: "AmlNamespaceLoader \<Rightarrow> AmlLoadedNamespace" where
  "loaded_namespace ld =
     \<lparr>namespace = \<lparr>ns_state = DefinitionBlocksLoaded, node_count = of_nat (length (stored ld))\<rparr>,
      records = stored ld, blocks = plan_blocks (plan ld)\<rparr>"

section \<open>Scopes created on demand\<close>

definition scope_capable :: "AmlObjectKind \<Rightarrow> bool" where
  "scope_capable kind \<longleftrightarrow> kind \<in> {KScope, KDevice, KProcessor, KPowerResource, KThermalZone}"

lemma prefix_loop_count: "prefix_loop self i k p = Some q \<Longrightarrow> segment_count q = segment_count p + k"
proof (induction k arbitrary: i p)
  case (Suc k)
  then show ?case by (force simp: push_def split: option.splits result.splits if_splits)
qed simp

lemma path_prefix_count: "path_prefix p k = Some q \<Longrightarrow> segment_count q = k \<and> k \<le> segment_count p"
  using prefix_loop_count [of p 0 k root_path q] by (auto simp: path_prefix_def root_path_def split: if_splits)

function ensure_scope_path ::
    "AmlResolvedNamePath option \<Rightarrow> AmlNamespaceLoader \<Rightarrow> (AmlNamespaceNodeId option \<times> AmlNamespaceLoader) aml"
  and ensure_scope_like_path ::
    "AmlResolvedNamePath \<Rightarrow> AmlNamespaceLoader \<Rightarrow> (AmlNamespaceNodeId \<times> AmlNamespaceLoader) aml"
  and ensure_scope_loop ::
    "AmlResolvedNamePath \<Rightarrow> nat \<Rightarrow> AmlNamespaceNodeId \<Rightarrow> AmlNamespaceLoader
       \<Rightarrow> (AmlNamespaceNodeId \<times> AmlNamespaceLoader) aml" where
  "ensure_scope_path m ld =
     (case m of
        None \<Rightarrow> Ok (Some ROOT_NODE_ID, ld)
      | Some path \<Rightarrow>
          if segment_count path = 0 then Ok (Some ROOT_NODE_ID, ld)
          else bind_result (ensure_scope_like_path path ld) (\<lambda>(id, ld'). Ok (Some id, ld')))"
| "ensure_scope_like_path path ld =
     (if segment_count path = 0 then Ok (ROOT_NODE_ID, ld)
      else ensure_scope_loop path 1 ROOT_NODE_ID ld)"
| "ensure_scope_loop path depth current_id ld =
     (if depth \<le> segment_count path then
        (case path_prefix path depth of
           None \<Rightarrow> Err (Fail invalid_name)
         | Some prefix \<Rightarrow>
             (case find_record ld prefix of
                Some existing \<Rightarrow>
                  if \<not> scope_capable (node_kind (descriptor existing)) then Err (Fail namespace_conflict)
                  else ensure_scope_loop path (depth + 1) (node_id (descriptor existing)) ld
              | None \<Rightarrow>
                  bind_result (ensure_scope_path (path_parent prefix) ld) (\<lambda>(parent, ld1).
                  bind_result (insert_unique_record prefix parent KScope None PayloadNone ld1) (\<lambda>(id, ld2).
                    ensure_scope_loop path (depth + 1) id ld2))))
      else Ok (current_id, ld))"
  by pat_completeness auto
termination
  by (relation "measures
        [\<lambda>x. case x of Inl (m, _) \<Rightarrow> (case m of None \<Rightarrow> 0 | Some p \<Rightarrow> Suc (segment_count p))
                   | Inr (Inl (p, _)) \<Rightarrow> Suc (segment_count p)
                   | Inr (Inr (p, _, _, _)) \<Rightarrow> Suc (segment_count p),
         \<lambda>x. case x of Inl (m, _) \<Rightarrow> (case m of None \<Rightarrow> 0 | Some p \<Rightarrow> segment_count p + 3)
                   | Inr (Inl (p, _)) \<Rightarrow> segment_count p + 2
                   | Inr (Inr (p, d, _, _)) \<Rightarrow> Suc (segment_count p) - d]")
     (auto split: option.splits dest!: path_prefix_count path_parent_smaller)

declare ensure_scope_path.simps [simp del] ensure_scope_like_path.simps [simp del]
  ensure_scope_loop.simps [simp del]

section \<open>Term arguments\<close>

text \<open>\<open>b'\\' | b'^' | b'_' | b'A'..=b'Z'\<close> and \<open>uN::from_le_bytes\<close> widened to \<open>u64\<close>.\<close>

definition name_lead :: "u8 \<Rightarrow> bool" where
  "name_lead b \<longleftrightarrow> b = 0x5c \<or> b = 0x5e \<or> b = 0x5f \<or> is_ascii_uppercase b"

fun from_le_bytes :: "bytes \<Rightarrow> 64 word" where
  "from_le_bytes [] = 0"
| "from_le_bytes (b # bs) = ucast b + 256 * from_le_bytes bs"

text \<open>The \<open>n\<close> low bytes of a number, lowest first, give its low bits back.\<close>

lemma from_le_bytes_take:
  assumes "n \<le> 8"
  shows "from_le_bytes (map (\<lambda>i. ucast (drop_bit (8 * i) v)) [0..<n]) = take_bit (8 * n) v"
proof -
  have r: "from_le_bytes (map (\<lambda>i. ucast (drop_bit (8 * i) v)) [k..<k + n]) = take_bit (8 * n) (drop_bit (8 * k) v)"
    if "k + n \<le> 8" for k n
    using that
  proof (induction n arbitrary: k)
    case (Suc n)
    have "from_le_bytes (map (\<lambda>i. ucast (drop_bit (8 * i) v)) [k..<k + Suc n])
        = ucast (ucast (drop_bit (8 * k) v) :: u8) + 256 * take_bit (8 * n) (drop_bit (8 * Suc k) v)"
      using Suc.IH [of "Suc k"] Suc.prems by (simp add: upt_rec)
    also have "\<dots> = take_bit 8 (drop_bit (8 * k) v) OR push_bit 8 (take_bit (8 * n) (drop_bit (8 * Suc k) v))"
    proof -
      have "ucast (ucast x :: u8) = take_bit 8 x" for x :: "64 word" by (rule bit_word_eqI) (auto simp: bit_simps)
      moreover have "256 * y = push_bit 8 y" for y :: "64 word" by (simp add: push_bit_eq_mult)
      moreover have "take_bit 8 x + push_bit 8 y = take_bit 8 x OR push_bit 8 y" for x y :: "64 word"
        by (rule disjunctive_add) (auto simp: bit_simps)
      ultimately show ?thesis by metis
    qed
    also have "\<dots> = take_bit (8 * Suc n) (drop_bit (8 * k) v)"
      by (rule bit_word_eqI) (auto simp: bit_simps)
    finally show ?case .
  qed simp
  show ?thesis using r [of 0 n] assms by simp
qed

definition unsupported_with :: "string \<Rightarrow> stop" where
  "unsupported_with d = Fail (AmlError Unsupported d)"

definition parse_term_arg_value :: "bytes \<Rightarrow> (64 word option \<times> usize) aml" where
  "parse_term_arg_value bs =
     bind_result (or_fail truncated (slice_get bs 0)) (\<lambda>opcode.
       if opcode = 0x00 then Ok (Some 0, 1)
       else if opcode = 0x01 then Ok (Some 1, 1)
       else if opcode = 0xff then Ok (Some (- 1), 1)
       else if opcode = 0x0a then
         bind_result (or_fail truncated (slice_get bs 1)) (\<lambda>b. Ok (Some (ucast b), 2))
       else if opcode = 0x0b then
         bind_result (or_fail truncated (get_range bs 1 3)) (\<lambda>raw. Ok (Some (from_le_bytes raw), 3))
       else if opcode = 0x0c then
         bind_result (or_fail truncated (get_range bs 1 5)) (\<lambda>raw. Ok (Some (from_le_bytes raw), 5))
       else if opcode = 0x0e then
         bind_result (or_fail truncated (get_range bs 1 9)) (\<lambda>raw. Ok (Some (from_le_bytes raw), 9))
       else if name_lead opcode then
         bind_result (parse_encoded_name bs) (\<lambda>n. Ok (None, consumed_bytes n))
       else Err (unsupported_with ''unsupported aml constant/name term arg''))"

text \<open>The string scan is \<open>bytes[1..].iter().position(|byte| *byte == 0)\<close>.\<close>

definition parse_data_object :: "bytes \<Rightarrow> (64 word option \<times> usize) aml" where
  "parse_data_object bs =
     bind_result (or_fail truncated (slice_get bs 0)) (\<lambda>opcode.
       if opcode = 0x0d then
         bind_result (slice_from bs 1) (\<lambda>rest.
           case position (\<lambda>b. b = 0) rest of
             None \<Rightarrow> Err (Fail truncated)
           | Some len \<Rightarrow> Ok (None, 2 + len))
       else if 0x11 \<le> opcode \<and> opcode \<le> 0x13 then
         bind_result (slice_from bs 1) (\<lambda>rest.
         bind_result (parse_pkg_length rest) (\<lambda>pkg. Ok (None, 1 + unat (pkg_value pkg))))
       else Err (unsupported_with ''unsupported aml name initializer''))"

definition parse_target :: "bytes \<Rightarrow> usize aml" where
  "parse_target bs =
     bind_result (or_fail truncated (slice_get bs 0)) (\<lambda>opcode.
       if opcode = 0x00 then Ok 1
       else if 0x60 \<le> opcode \<and> opcode \<le> 0x6e then Ok 1
       else if opcode = 0x5b then
         bind_result (or_fail truncated (slice_get bs 1)) (\<lambda>sub.
           if sub = 0x31 then Ok 2 else Err (unsupported_with ''unsupported aml target form''))
       else if name_lead opcode then
         bind_result (parse_encoded_name bs) (\<lambda>n. Ok (consumed_bytes n))
       else Err (unsupported_with ''unsupported aml target form''))"

function parse_term_arg :: "bytes \<Rightarrow> (64 word option \<times> usize) aml" where
  "parse_term_arg bs =
     (case parse_term_arg_value bs of
        Ok parsed \<Rightarrow> Ok parsed
      | Err (Fail error) \<Rightarrow>
          if err_kind error = Unsupported then
            bind_result (or_fail truncated (slice_get bs 0)) (\<lambda>opcode.
              if (0x11 \<le> opcode \<and> opcode \<le> 0x13) \<or> opcode = 0x0d then parse_data_object bs
              else if opcode = 0x70 then
                bind_result (slice_from bs 1) (\<lambda>r1.
                bind_result (parse_term_arg r1) (\<lambda>(_, value_consumed).
                bind_result (or_fail truncated (get_from bs (1 + value_consumed))) (\<lambda>r2.
                bind_result (parse_target r2) (\<lambda>target_consumed.
                  Ok (None, 1 + value_consumed + target_consumed)))))
              else if opcode \<in> {0x72, 0x74, 0x79, 0x7a, 0x7b, 0x7d, 0x7f} then
                bind_result (slice_from bs 1) (\<lambda>r1.
                bind_result (parse_term_arg r1) (\<lambda>(_, lhs_consumed).
                bind_result (or_fail truncated (get_from bs (1 + lhs_consumed))) (\<lambda>r2.
                bind_result (parse_term_arg r2) (\<lambda>(_, rhs_consumed).
                bind_result (or_fail truncated (get_from bs (1 + lhs_consumed + rhs_consumed))) (\<lambda>r3.
                bind_result (parse_target r3) (\<lambda>target_consumed.
                  Ok (None, 1 + lhs_consumed + rhs_consumed + target_consumed)))))))
              else if 0x93 \<le> opcode \<and> opcode \<le> 0x95 then
                bind_result (slice_from bs 1) (\<lambda>r1.
                bind_result (parse_term_arg r1) (\<lambda>(_, lhs_consumed).
                bind_result (or_fail truncated (get_from bs (1 + lhs_consumed))) (\<lambda>r2.
                bind_result (parse_term_arg r2) (\<lambda>(_, rhs_consumed).
                  Ok (None, 1 + lhs_consumed + rhs_consumed)))))
              else if opcode = 0x75 \<or> opcode = 0x76 then
                bind_result (slice_from bs 1) (\<lambda>r1.
                bind_result (parse_target r1) (\<lambda>target_consumed. Ok (None, 1 + target_consumed)))
              else if opcode = 0x80 \<or> opcode = 0x92 then
                bind_result (slice_from bs 1) (\<lambda>r1.
                bind_result (parse_term_arg r1) (\<lambda>(_, consumed). Ok (None, 1 + consumed)))
              else Err (unsupported_with ''unsupported aml composite term arg''))
          else Err (Fail error)
      | Err s \<Rightarrow> Err s)"
  by auto
termination
  by (relation "measure length") (auto simp: ok_iff)

declare parse_term_arg.simps [simp del]

definition parse_name_initializer :: "bytes \<Rightarrow> (64 word option \<times> usize) aml" where
  "parse_name_initializer bs = parse_term_arg bs"

text \<open>The load-time evaluator of \<open>If\<close> predicates.\<close>

function evaluate_load_time_term_arg ::
  "AmlNamespaceLoader \<Rightarrow> bytes \<Rightarrow> AmlResolvedNamePath \<Rightarrow> (64 word \<times> usize) aml" where
  "evaluate_load_time_term_arg ld bs scope =
     bind_result (or_fail truncated (slice_get bs 0)) (\<lambda>opcode.
       if opcode = 0x00 then Ok (0, 1)
       else if opcode = 0x01 then Ok (1, 1)
       else if opcode = 0xff then Ok (- 1, 1)
       else if opcode = 0x0a then
         bind_result (or_fail truncated (slice_get bs 1)) (\<lambda>b. Ok (ucast b, 2))
       else if opcode = 0x0b then
         bind_result (or_fail truncated (get_range bs 1 3)) (\<lambda>raw. Ok (from_le_bytes raw, 3))
       else if opcode = 0x0c then
         bind_result (or_fail truncated (get_range bs 1 5)) (\<lambda>raw. Ok (from_le_bytes raw, 5))
       else if opcode = 0x0e then
         bind_result (or_fail truncated (get_range bs 1 9)) (\<lambda>raw. Ok (from_le_bytes raw, 9))
       else if opcode = 0x92 then
         bind_result (slice_from bs 1) (\<lambda>r1.
         bind_result (evaluate_load_time_term_arg ld r1 scope) (\<lambda>(v, consumed).
           Ok (of_bool (v = 0), 1 + consumed)))
       else if 0x93 \<le> opcode \<and> opcode \<le> 0x95 then
         bind_result (slice_from bs 1) (\<lambda>r1.
         bind_result (evaluate_load_time_term_arg ld r1 scope) (\<lambda>(lhs, lhs_consumed).
         bind_result (or_fail truncated (get_from bs (1 + lhs_consumed))) (\<lambda>r2.
         bind_result (evaluate_load_time_term_arg ld r2 scope) (\<lambda>(rhs, rhs_consumed).
           Ok (of_bool (if opcode = 0x93 then lhs = rhs
                        else if opcode = 0x94 then rhs < lhs
                        else if opcode = 0x95 then lhs < rhs else False),
               1 + lhs_consumed + rhs_consumed)))))
       else if name_lead opcode then
         bind_result (parse_encoded_name bs) (\<lambda>encoded.
         bind_result (resolve_lookup_path (loaded_namespace ld) scope encoded) (\<lambda>path.
           case map_option payload (find_record ld path) of
             Some (NameInteger v) \<Rightarrow> Ok (v, consumed_bytes encoded)
           | _ \<Rightarrow> Err (Fail unsupported)))
       else Err (Fail unsupported))"
  by auto
termination
  by (relation "measure (\<lambda>(_, bs, _). length bs)") (auto simp: ok_iff)

declare evaluate_load_time_term_arg.simps [simp del]

section \<open>Small decoders\<close>

definition is_ascii_hexdigit :: "u8 \<Rightarrow> bool" where
  "is_ascii_hexdigit b \<longleftrightarrow> is_ascii_digit b \<or> (0x41 \<le> b \<and> b \<le> 0x46) \<or> (0x61 \<le> b \<and> b \<le> 0x66)"

definition classify_method_kind :: "AmlResolvedNamePath \<Rightarrow> AmlMethodKind" where
  "classify_method_kind path =
     (case last_segment path of
        None \<Rightarrow> Ordinary
      | Some seg \<Rightarrow>
          let bs = seg_bytes seg in
          if bs = [0x5f, 0x49, 0x4e, 0x49] then Initialize
          else if bs = [0x5f, 0x53, 0x54, 0x41] then Status
          else if bs = [0x5f, 0x52, 0x45, 0x47] then RegionAvailability
          else if bs ! 0 = 0x5f \<and> bs ! 1 = 0x51 then NotificationQuery
          else if bs ! 0 = 0x5f \<and> (bs ! 1 = 0x4c \<or> bs ! 1 = 0x45)
                  \<and> is_ascii_hexdigit (bs ! 2) \<and> is_ascii_hexdigit (bs ! 3) then EventHandler
          else Ordinary)"

definition map_address_space :: "u8 \<Rightarrow> AmlAddressSpaceId" where
  "map_address_space v =
     (if v = 0x00 then SystemMemory else if v = 0x01 then SystemIo else if v = 0x02 then PciConfig
      else if v = 0x03 then EmbeddedControl else if v = 0x04 then SmBus else if v = 0x05 then Cmos
      else if v = 0x06 then PciBarTarget else if v = 0x07 then Ipmi else if v = 0x08 then Gpio
      else if v = 0x09 then GenericSerialBus else if v = 0x0a then PlatformCommChannel
      else if v = 0x7f then FunctionalFixedHardware else Oem v)"

definition decode_field_access :: "u8 \<Rightarrow> AmlFieldAccessKind" where
  "decode_field_access flags =
     (let a = flags AND 0x0f in
      if a = 0x00 then AccessAny else if a = 0x01 then AccessByte else if a = 0x02 then AccessWord
      else if a = 0x03 then AccessDWord else if a = 0x04 then AccessQWord
      else if a = 0x05 then AccessBuffer else AccessAny)"

definition decode_field_update :: "u8 \<Rightarrow> AmlFieldUpdateKind" where
  "decode_field_update flags =
     (let u = drop_bit 5 flags AND 3 in
      if u = 1 then WriteAsOnes else if u = 2 then WriteAsZeros else Preserve)"

definition saturating_add_u32 :: "u32 \<Rightarrow> u32 \<Rightarrow> u32" where
  "saturating_add_u32 a b = (if uint a + uint b < 2 ^ 32 then a + b else - 1)"

section \<open>Leaf objects\<close>

definition parse_alias_op :: "bytes \<Rightarrow> AmlResolvedNamePath \<Rightarrow> AmlNamespaceLoader \<Rightarrow> (usize \<times> AmlNamespaceLoader) aml" where
  "parse_alias_op bs scope ld =
     bind_result (slice_from bs 1) (\<lambda>r1.
     bind_result (parse_encoded_name r1) (\<lambda>source.
     bind_result (slice_from bs (1 + consumed_bytes source)) (\<lambda>r2.
     bind_result (parse_encoded_name r2) (\<lambda>target.
     bind_result (resolve scope target) (\<lambda>target_path.
     bind_result (ensure_scope_path (path_parent target_path) ld) (\<lambda>(parent_id, ld1).
     bind_result (insert_unique_record target_path parent_id KAlias None PayloadNone ld1) (\<lambda>(_, ld2).
       Ok (1 + consumed_bytes source + consumed_bytes target, ld2))))))))"

definition parse_name_op ::
  "bytes \<Rightarrow> u32 \<Rightarrow> 16 word \<Rightarrow> AmlResolvedNamePath \<Rightarrow> AmlNamespaceLoader \<Rightarrow> (usize \<times> AmlNamespaceLoader) aml" where
  "parse_name_op bs aoff blk scope ld =
     bind_result (slice_from bs 1) (\<lambda>r1.
     bind_result (parse_encoded_name r1) (\<lambda>name.
     bind_result (resolve scope name) (\<lambda>path.
     bind_result (ensure_scope_path (path_parent path) ld) (\<lambda>(parent_id, ld1).
     let data_offset = 1 + consumed_bytes name in
     bind_result (slice_from bs data_offset) (\<lambda>r2.
     bind_result (parse_name_initializer r2) (\<lambda>(name_value, data_consumed).
     bind_result (insert_unique_record path parent_id KName
         (Some \<lparr>block_index = blk,
                span = \<lparr>span_offset = aoff + of_nat data_offset, span_length = of_nat data_consumed\<rparr>\<rparr>)
         (case name_value of Some v \<Rightarrow> NameInteger v | None \<Rightarrow> PayloadNone) ld1) (\<lambda>(_, ld2).
       Ok (data_offset + data_consumed, ld2))))))))"

definition parse_external_op :: "bytes \<Rightarrow> AmlResolvedNamePath \<Rightarrow> AmlNamespaceLoader \<Rightarrow> (usize \<times> AmlNamespaceLoader) aml" where
  "parse_external_op bs scope ld =
     bind_result (slice_from bs 1) (\<lambda>r1.
     bind_result (parse_encoded_name r1) (\<lambda>name.
     bind_result (resolve scope name) (\<lambda>path.
     bind_result (ensure_scope_path (path_parent path) ld) (\<lambda>(parent_id, ld1).
     bind_result
       (if find_record ld1 path = None
        then bind_result (insert_unique_record path parent_id KExternal None PayloadNone ld1)
               (\<lambda>(_, ld2). Ok ld2)
        else Ok ld1) (\<lambda>ld2.
     let object_type_index = 1 + consumed_bytes name in
     bind_result (or_fail truncated (slice_get bs object_type_index)) (\<lambda>_.
     bind_result (or_fail truncated (slice_get bs (object_type_index + 1))) (\<lambda>_.
       Ok (object_type_index + 2, ld2))))))))"

text \<open>The \<open>while remaining != 0\<close> loop over the operands of a \<open>Create...Field\<close>.\<close>

fun skip_term_args :: "nat \<Rightarrow> bytes \<Rightarrow> usize \<Rightarrow> usize aml" where
  "skip_term_args 0 bs cursor = Ok cursor"
| "skip_term_args (Suc remaining) bs cursor =
     bind_result (slice_from bs cursor) (\<lambda>r.
     bind_result (parse_term_arg r) (\<lambda>(_, consumed).
       skip_term_args remaining bs (cursor + consumed)))"

definition parse_create_field_like_op ::
  "bytes \<Rightarrow> AmlResolvedNamePath \<Rightarrow> nat \<Rightarrow> AmlNamespaceLoader \<Rightarrow> (usize \<times> AmlNamespaceLoader) aml" where
  "parse_create_field_like_op bs scope term_arg_count ld =
     bind_result (skip_term_args term_arg_count bs (if slice_get bs 0 = Some 0x5b then 2 else 1)) (\<lambda>cursor.
     bind_result (slice_from bs cursor) (\<lambda>r.
     bind_result (parse_encoded_name r) (\<lambda>name.
     bind_result (resolve scope name) (\<lambda>path.
     bind_result (ensure_scope_path (path_parent path) ld) (\<lambda>(parent_id, ld1).
     bind_result (insert_unique_record path parent_id KBufferField None PayloadNone ld1) (\<lambda>(_, ld2).
       Ok (cursor + consumed_bytes name, ld2)))))))"

text \<open>\<open>bytes.get(..object_end)\<close> and the package that delimits an object of \<open>lead\<close> opcode bytes.\<close>

definition object_package :: "bytes \<Rightarrow> usize \<Rightarrow> (AmlPkgLength \<times> usize \<times> bytes) aml" where
  "object_package bs lead =
     bind_result (slice_from bs lead) (\<lambda>r.
     bind_result (parse_pkg_length r) (\<lambda>pkg.
     let object_end = lead + unat (pkg_value pkg) in
     bind_result (or_fail truncated (get_range bs 0 object_end)) (\<lambda>object_bytes.
       Ok (pkg, object_end, object_bytes))))"

definition parse_method_op ::
  "bytes \<Rightarrow> u32 \<Rightarrow> 16 word \<Rightarrow> AmlResolvedNamePath \<Rightarrow> AmlNamespaceLoader \<Rightarrow> (usize \<times> AmlNamespaceLoader) aml" where
  "parse_method_op bs aoff blk scope ld =
     bind_result (object_package bs 1) (\<lambda>(pkg, object_end, object_bytes).
     let name_offset = 1 + unat (encoded_bytes pkg) in
     bind_result (slice_from object_bytes name_offset) (\<lambda>r.
     bind_result (parse_encoded_name r) (\<lambda>name.
     bind_result (resolve scope name) (\<lambda>path.
     bind_result (ensure_scope_path (path_parent path) ld) (\<lambda>(parent_id, ld1).
     let flags_index = name_offset + consumed_bytes name in
     bind_result (or_fail truncated (slice_get object_bytes flags_index)) (\<lambda>flags.
     let body_start = flags_index + 1;
         (method_id, ld2) = next_node_id ld1;
         loc = \<lparr>block_index = blk,
                span = \<lparr>span_offset = aoff + of_nat body_start,
                        span_length = of_nat (object_end - body_start)\<rparr>\<rparr>;
         desc = \<lparr>method_node = method_id, arg_count = flags AND 7,
                 serialization = (if flags AND 8 \<noteq> 0 then Serialized else NotSerialized),
                 sync_level = drop_bit 4 flags, method_kind = classify_method_kind path,
                 method_body = loc\<rparr> in
     bind_result (insert_record_with_id
         \<lparr>node_id = method_id, node_parent = parent_id, node_kind = KMethod, node_path = path\<rparr>
         (Some loc) (PayloadMethod desc) ld2) (\<lambda>ld3.
       Ok (object_end, ld3))))))))"

definition parse_mutex_op :: "bytes \<Rightarrow> AmlResolvedNamePath \<Rightarrow> AmlNamespaceLoader \<Rightarrow> (usize \<times> AmlNamespaceLoader) aml" where
  "parse_mutex_op bs scope ld =
     bind_result (slice_from bs 2) (\<lambda>r.
     bind_result (parse_encoded_name r) (\<lambda>name.
     bind_result (resolve scope name) (\<lambda>path.
     bind_result (ensure_scope_path (path_parent path) ld) (\<lambda>(parent_id, ld1).
     let sync_index = 2 + consumed_bytes name in
     bind_result (or_fail truncated (slice_get bs sync_index)) (\<lambda>_.
     bind_result (insert_unique_record path parent_id KMutex None PayloadNone ld1) (\<lambda>(_, ld2).
       Ok (sync_index + 1, ld2)))))))"

definition parse_event_op :: "bytes \<Rightarrow> AmlResolvedNamePath \<Rightarrow> AmlNamespaceLoader \<Rightarrow> (usize \<times> AmlNamespaceLoader) aml" where
  "parse_event_op bs scope ld =
     bind_result (slice_from bs 2) (\<lambda>r.
     bind_result (parse_encoded_name r) (\<lambda>name.
     bind_result (resolve scope name) (\<lambda>path.
     bind_result (ensure_scope_path (path_parent path) ld) (\<lambda>(parent_id, ld1).
     bind_result (insert_unique_record path parent_id KEvent None PayloadNone ld1) (\<lambda>(_, ld2).
       Ok (2 + consumed_bytes name, ld2))))))"

definition parse_opregion_op :: "bytes \<Rightarrow> AmlResolvedNamePath \<Rightarrow> AmlNamespaceLoader \<Rightarrow> (usize \<times> AmlNamespaceLoader) aml" where
  "parse_opregion_op bs scope ld =
     bind_result (slice_from bs 2) (\<lambda>r.
     bind_result (parse_encoded_name r) (\<lambda>name.
     bind_result (resolve scope name) (\<lambda>path.
     bind_result (ensure_scope_path (path_parent path) ld) (\<lambda>(parent_id, ld1).
     let space_index = 2 + consumed_bytes name in
     bind_result (or_fail truncated (slice_get bs space_index)) (\<lambda>space.
     bind_result (slice_from bs (space_index + 1)) (\<lambda>r2.
     bind_result (parse_term_arg r2) (\<lambda>(offset_value, offset_consumed).
     let length_index = space_index + 1 + offset_consumed in
     bind_result (slice_from bs length_index) (\<lambda>r3.
     bind_result (parse_term_arg r3) (\<lambda>(length_value, length_consumed).
     let (node, ld2) = next_node_id ld1 in
     bind_result (insert_record_with_id
         \<lparr>node_id = node, node_parent = parent_id, node_kind = KOpRegion, node_path = path\<rparr> None
         (PayloadOpRegion \<lparr>region_node = node, region_space = map_address_space space,
                           region_offset = offset_value, region_length = length_value\<rparr>) ld2) (\<lambda>ld3.
       Ok (length_index + length_consumed, ld3)))))))))))"

section \<open>Field lists\<close>

definition insert_field ::
  "AmlResolvedNamePath \<Rightarrow> AmlNamespaceNodeId \<Rightarrow> AmlNamespaceNodeId option \<Rightarrow> u8 \<Rightarrow> u32 \<Rightarrow> AmlNameSeg \<Rightarrow> u32
     \<Rightarrow> AmlNamespaceLoader \<Rightarrow> AmlNamespaceLoader aml" where
  "insert_field scope scope_id region_id flags bit_off seg width ld =
     bind_result (push scope seg) (\<lambda>field_path.
       let (node, ld1) = next_node_id ld in
       insert_record_with_id
         \<lparr>node_id = node, node_parent = Some scope_id, node_kind = KField, node_path = field_path\<rparr> None
         (PayloadField \<lparr>field_node = node, field_region = region_id, bit_offset = bit_off,
                        bit_width = width, field_access = decode_field_access flags,
                        field_update = decode_field_update flags\<rparr>) ld1)"

function parse_field_entries ::
  "bytes \<Rightarrow> usize \<Rightarrow> usize \<Rightarrow> AmlResolvedNamePath \<Rightarrow> AmlNamespaceNodeId \<Rightarrow> AmlNamespaceNodeId option \<Rightarrow> u8
     \<Rightarrow> u32 \<Rightarrow> AmlNamespaceLoader \<Rightarrow> AmlNamespaceLoader aml" where
  "parse_field_entries object_bytes cursor object_end scope scope_id region_id flags bit_off ld =
     (if cursor < object_end then
        bind_result (slice_index object_bytes cursor) (\<lambda>opcode.
          if opcode = 0x00 then
            bind_result (slice_from object_bytes (cursor + 1)) (\<lambda>r.
            bind_result (parse_pkg_length r) (\<lambda>skip.
              parse_field_entries object_bytes (cursor + (1 + unat (encoded_bytes skip))) object_end
                scope scope_id region_id flags (saturating_add_u32 bit_off (pkg_value skip)) ld))
          else if opcode = 0x01 then
            parse_field_entries object_bytes (cursor + 3) object_end scope scope_id region_id flags bit_off ld
          else if opcode = 0x02 then
            bind_result (slice_from object_bytes (cursor + 1)) (\<lambda>r.
            bind_result (parse_encoded_name r) (\<lambda>name.
              parse_field_entries object_bytes (cursor + (1 + consumed_bytes name)) object_end
                scope scope_id region_id flags bit_off ld))
          else if opcode = 0x03 then
            parse_field_entries object_bytes (cursor + 4) object_end scope scope_id region_id flags bit_off ld
          else
            bind_result (or_fail truncated (slice_get object_bytes (cursor + 1))) (\<lambda>b1.
            bind_result (or_fail truncated (slice_get object_bytes (cursor + 2))) (\<lambda>b2.
            bind_result (or_fail truncated (slice_get object_bytes (cursor + 3))) (\<lambda>b3.
            bind_result (from_bytes [opcode, b1, b2, b3]) (\<lambda>seg.
            bind_result (slice_from object_bytes (cursor + 4)) (\<lambda>r.
            bind_result (parse_pkg_length r) (\<lambda>width.
            bind_result (insert_field scope scope_id region_id flags bit_off seg (pkg_value width) ld) (\<lambda>ld'.
              parse_field_entries object_bytes (cursor + (4 + unat (encoded_bytes width))) object_end
                scope scope_id region_id flags (saturating_add_u32 bit_off (pkg_value width)) ld'))))))))
      else Ok ld)"
  by auto
termination
  by (relation "measure (\<lambda>(_, cursor, object_end, _, _, _, _, _, _). object_end - cursor)") auto

declare parse_field_entries.simps [simp del]

definition parse_field_op ::
  "bytes \<Rightarrow> AmlResolvedNamePath \<Rightarrow> AmlNamespaceNodeId \<Rightarrow> AmlNamespaceLoader \<Rightarrow> (usize \<times> AmlNamespaceLoader) aml" where
  "parse_field_op bs scope scope_id ld =
     bind_result (object_package bs 2) (\<lambda>(pkg, object_end, object_bytes).
     let region_name_offset = 2 + unat (encoded_bytes pkg) in
     bind_result (slice_from object_bytes region_name_offset) (\<lambda>r.
     bind_result (parse_encoded_name r) (\<lambda>region_name.
     bind_result (resolve scope region_name) (\<lambda>region_path.
     let region_id = find_node_id ld region_path;
         flags_index = region_name_offset + consumed_bytes region_name in
     bind_result (or_fail truncated (slice_get object_bytes flags_index)) (\<lambda>flags.
     bind_result (parse_field_entries object_bytes (flags_index + 1) object_end scope scope_id
                    region_id flags 0 ld) (\<lambda>ld'.
       Ok (object_end, ld')))))))"

definition parse_index_field_op ::
  "bytes \<Rightarrow> AmlResolvedNamePath \<Rightarrow> AmlNamespaceNodeId \<Rightarrow> AmlNamespaceLoader \<Rightarrow> (usize \<times> AmlNamespaceLoader) aml" where
  "parse_index_field_op bs scope scope_id ld =
     bind_result (object_package bs 2) (\<lambda>(pkg, object_end, object_bytes).
     let index_name_offset = 2 + unat (encoded_bytes pkg) in
     bind_result (slice_from object_bytes index_name_offset) (\<lambda>r.
     bind_result (parse_encoded_name r) (\<lambda>index_name.
     let data_name_offset = index_name_offset + consumed_bytes index_name in
     bind_result (slice_from object_bytes data_name_offset) (\<lambda>r2.
     bind_result (parse_encoded_name r2) (\<lambda>data_name.
     let flags_index = data_name_offset + consumed_bytes data_name in
     bind_result (or_fail truncated (slice_get object_bytes flags_index)) (\<lambda>flags.
     bind_result (parse_field_entries object_bytes (flags_index + 1) object_end scope scope_id
                    None flags 0 ld) (\<lambda>ld'.
       Ok (object_end, ld'))))))))"

section \<open>Objects with a body\<close>

text \<open>
  A walker processes the term list \<open>bytes\<close>, which starts at \<open>base_offset\<close> of block \<open>block_index\<close>,
  in the scope with the given path and node id.
\<close>

type_synonym walker =
  "bytes \<Rightarrow> u32 \<Rightarrow> 16 word \<Rightarrow> AmlResolvedNamePath \<Rightarrow> AmlNamespaceNodeId \<Rightarrow> AmlNamespaceLoader
     \<Rightarrow> AmlNamespaceLoader aml"

definition parse_scope_op ::
  "walker \<Rightarrow> bytes \<Rightarrow> u32 \<Rightarrow> 16 word \<Rightarrow> AmlResolvedNamePath \<Rightarrow> AmlNamespaceLoader
     \<Rightarrow> (usize \<times> AmlNamespaceLoader) aml" where
  "parse_scope_op walk bs aoff blk scope ld =
     bind_result (object_package bs 1) (\<lambda>(pkg, object_end, object_bytes).
     let name_offset = 1 + unat (encoded_bytes pkg) in
     bind_result (slice_from object_bytes name_offset) (\<lambda>r.
     bind_result (parse_encoded_name r) (\<lambda>name.
     bind_result (resolve scope name) (\<lambda>path.
     bind_result (ensure_scope_like_path path ld) (\<lambda>(scope_id, ld1).
     let body_start = name_offset + consumed_bytes name in
     bind_result (slice_from object_bytes body_start) (\<lambda>term_list.
     bind_result (walk term_list (aoff + of_nat body_start) blk path scope_id ld1) (\<lambda>ld2.
       Ok (object_end, ld2))))))))"

text \<open>
  \<open>object_end - (...)\<close> wraps in the release profile when the fixed prefix runs past the object;
  the slice of the body then panics, so the wrapped length is never stored in a result.
\<close>

definition parse_pkg_scoped_named_object ::
  "walker \<Rightarrow> bytes \<Rightarrow> u32 \<Rightarrow> 16 word \<Rightarrow> AmlResolvedNamePath \<Rightarrow> AmlObjectKind \<Rightarrow> usize \<Rightarrow> AmlNamespaceLoader
     \<Rightarrow> (usize \<times> AmlNamespaceLoader) aml" where
  "parse_pkg_scoped_named_object walk bs aoff blk scope kind fixed_prefix_bytes ld =
     bind_result (object_package bs 2) (\<lambda>(pkg, object_end, object_bytes).
     let name_offset = 2 + unat (encoded_bytes pkg) in
     bind_result (slice_from object_bytes name_offset) (\<lambda>r.
     bind_result (parse_encoded_name r) (\<lambda>name.
     bind_result (resolve scope name) (\<lambda>path.
     bind_result (ensure_scope_path (path_parent path) ld) (\<lambda>(parent_id, ld1).
     let body_start = name_offset + consumed_bytes name + fixed_prefix_bytes in
     bind_result (insert_unique_record path parent_id kind
         (Some \<lparr>block_index = blk,
                span = \<lparr>span_offset = aoff + of_nat body_start,
                        span_length = of_int (int object_end - int body_start)\<rparr>\<rparr>)
         PayloadNone ld1) (\<lambda>(node, ld2).
     bind_result (slice_from object_bytes body_start) (\<lambda>term_list.
     bind_result (walk term_list (aoff + of_nat body_start) blk path node ld2) (\<lambda>ld3.
       Ok (object_end, ld3)))))))))"

definition parse_else ::
  "walker \<Rightarrow> bytes \<Rightarrow> u32 \<Rightarrow> 16 word \<Rightarrow> AmlResolvedNamePath \<Rightarrow> AmlNamespaceNodeId \<Rightarrow> usize \<Rightarrow> bool
     \<Rightarrow> AmlNamespaceLoader \<Rightarrow> (usize \<times> AmlNamespaceLoader) aml" where
  "parse_else walk bs aoff blk scope scope_id object_end taken ld =
     bind_result (slice_from bs (object_end + 1)) (\<lambda>r.
     bind_result (parse_pkg_length r) (\<lambda>else_pkg.
     let else_end = object_end + 1 + unat (pkg_value else_pkg) in
     bind_result (or_fail truncated (get_range bs object_end else_end)) (\<lambda>else_bytes.
     let else_body_start = 1 + unat (encoded_bytes else_pkg) in
     bind_result
       (if \<not> taken then
          bind_result (slice_from else_bytes else_body_start) (\<lambda>term_list.
            walk term_list (aoff + of_nat object_end + of_nat else_body_start) blk scope scope_id ld)
        else Ok ld) (\<lambda>ld1.
       Ok (else_end, ld1)))))"

definition parse_if_op ::
  "walker \<Rightarrow> bytes \<Rightarrow> u32 \<Rightarrow> 16 word \<Rightarrow> AmlResolvedNamePath \<Rightarrow> AmlNamespaceNodeId \<Rightarrow> AmlNamespaceLoader
     \<Rightarrow> (usize \<times> AmlNamespaceLoader) aml" where
  "parse_if_op walk bs aoff blk scope scope_id ld =
     bind_result (object_package bs 1) (\<lambda>(pkg, object_end, object_bytes).
     let predicate_offset = 1 + unat (encoded_bytes pkg) in
     bind_result (slice_from object_bytes predicate_offset) (\<lambda>r.
     bind_result (evaluate_load_time_term_arg ld r scope) (\<lambda>(predicate, predicate_consumed).
     let body_start = predicate_offset + predicate_consumed in
     bind_result
       (if predicate \<noteq> 0 then
          bind_result (slice_from object_bytes body_start) (\<lambda>term_list.
            walk term_list (aoff + of_nat body_start) blk scope scope_id ld)
        else Ok ld) (\<lambda>ld1.
       if slice_get bs object_end = Some 0xa1
       then parse_else walk bs aoff blk scope scope_id object_end (predicate \<noteq> 0) ld1
       else Ok (object_end, ld1)))))"

definition parse_ext_op ::
  "walker \<Rightarrow> bytes \<Rightarrow> u32 \<Rightarrow> 16 word \<Rightarrow> AmlResolvedNamePath \<Rightarrow> AmlNamespaceNodeId \<Rightarrow> AmlNamespaceLoader
     \<Rightarrow> (usize \<times> AmlNamespaceLoader) aml" where
  "parse_ext_op walk bs aoff blk scope scope_id ld =
     bind_result (or_fail truncated (slice_get bs 1)) (\<lambda>sub.
       if sub = 0x01 then parse_mutex_op bs scope ld
       else if sub = 0x02 then parse_event_op bs scope ld
       else if sub = 0x13 then parse_create_field_like_op bs scope 3 ld
       else if sub = 0x80 then parse_opregion_op bs scope ld
       else if sub = 0x81 then parse_field_op bs scope scope_id ld
       else if sub = 0x86 then parse_index_field_op bs scope scope_id ld
       else if sub = 0x82 then parse_pkg_scoped_named_object walk bs aoff blk scope KDevice 0 ld
       else if sub = 0x83 then parse_pkg_scoped_named_object walk bs aoff blk scope KProcessor 6 ld
       else if sub = 0x84 then parse_pkg_scoped_named_object walk bs aoff blk scope KPowerResource 3 ld
       else if sub = 0x85 then parse_pkg_scoped_named_object walk bs aoff blk scope KThermalZone 0 ld
       else Err (unsupported_with ''unsupported aml namespace ext op''))"

definition parse_term_object ::
  "walker \<Rightarrow> bytes \<Rightarrow> u32 \<Rightarrow> 16 word \<Rightarrow> AmlResolvedNamePath \<Rightarrow> AmlNamespaceNodeId \<Rightarrow> AmlNamespaceLoader
     \<Rightarrow> (usize \<times> AmlNamespaceLoader) aml" where
  "parse_term_object walk bs aoff blk scope scope_id ld =
     bind_result (or_fail truncated (slice_get bs 0)) (\<lambda>opcode.
       if opcode = 0x06 then parse_alias_op bs scope ld
       else if opcode = 0x08 then parse_name_op bs aoff blk scope ld
       else if opcode = 0x10 then parse_scope_op walk bs aoff blk scope ld
       else if opcode = 0x14 then parse_method_op bs aoff blk scope ld
       else if opcode = 0x15 then parse_external_op bs scope ld
       else if opcode = 0xa0 then parse_if_op walk bs aoff blk scope scope_id ld
       else if (0x8a \<le> opcode \<and> opcode \<le> 0x8d) \<or> opcode = 0x8f then parse_create_field_like_op bs scope 2 ld
       else if opcode = 0x5b then parse_ext_op walk bs aoff blk scope scope_id ld
       else Err (unsupported_with ''unsupported aml namespace term object''))"

text \<open>The \<open>while offset < bytes.len()\<close> loop; a nested list is walked from offset 0.\<close>

fun walk_from :: "nat \<Rightarrow> usize \<Rightarrow> walker" where
  "walk_from 0 off bs base blk scope scope_id ld = Err Diverge"
| "walk_from (Suc fuel) off bs base blk scope scope_id ld =
     (if off < length bs then
        bind_result (slice_from bs off) (\<lambda>rest.
        bind_result (parse_term_object (walk_from fuel 0) rest (base + of_nat off) blk scope scope_id ld)
          (\<lambda>(consumed, ld').
            if consumed = 0 then Err (Fail invalid_bytecode)
            else walk_from fuel (off + consumed) bs base blk scope scope_id ld'))
      else Ok ld)"

definition walk_term_list :: "walker" where
  "walk_term_list bs = walk_from (Suc (length bs)) 0 bs"

section \<open>Loading\<close>

fun load_ssdts :: "nat \<Rightarrow> AmlDefinitionBlock list \<Rightarrow> AmlNamespaceLoader \<Rightarrow> AmlNamespaceLoader aml" where
  "load_ssdts index [] ld = Ok ld"
| "load_ssdts index (b # bs) ld =
     (if 65535 < index + 1 then Err (Fail overflow)
      else bind_result
             (walk_term_list (block_bytes b) 0 (of_nat (index + 1)) root_path ROOT_NODE_ID ld)
             (load_ssdts (index + 1) bs))"

definition load :: "AmlNamespaceLoader \<Rightarrow> AmlLoadedNamespace aml" where
  "load ld =
     bind_result (walk_term_list (block_bytes (dsdt (plan_blocks (plan ld)))) 0 0 root_path ROOT_NODE_ID ld) (\<lambda>ld1.
     bind_result (load_ssdts 0 (ssdts (plan_blocks (plan ld))) ld1) (\<lambda>ld2.
       Ok (loaded_namespace ld2)))"

definition load_into :: "AmlNamespaceLoadPlan \<Rightarrow> usize \<Rightarrow> AmlLoadedNamespace aml" where
  "load_into pl capacity = bind_result (loader_new pl capacity) load"

end
