(* ===== verification/Aml_Loader_Tree.thy ===== *)
theory Aml_Loader_Tree
  imports Aml_Loader_Props
begin

text \<open>
  What a load leaves behind. Node ids are the record positions, every record but the root names an
  earlier scope-capable record as its parent, whose path is the record's path without its last
  segment, and the bodies of methods, devices, processors, power resources and thermal zones are
  slices of the blocks they came from. Each parse operation keeps this invariant and only appends.
\<close>

section \<open>The invariant\<close>

definition is_scope :: "AmlNamespaceLoadRecord list \<Rightarrow> AmlResolvedNamePath \<Rightarrow> AmlNamespaceNodeId \<Rightarrow> bool" where
  "is_scope rs path nid \<longleftrightarrow>
     (\<exists>q \<in> set rs. node_id (descriptor q) = nid \<and> node_path (descriptor q) = path
                  \<and> scope_capable (node_kind (descriptor q)))"

text \<open>\<open>bs\<close> is what block \<open>blk\<close> holds from offset \<open>base\<close> on.\<close>

definition located :: "AmlDefinitionBlockSet \<Rightarrow> 16 word \<Rightarrow> u32 \<Rightarrow> bytes \<Rightarrow> bool" where
  "located bset blk base bs \<longleftrightarrow>
     (\<exists>b. block_at bset blk = Some b \<and> length (block_bytes b) < 2 ^ 32
          \<and> unat base + length bs \<le> length (block_bytes b)
          \<and> take (length bs) (drop (unat base) (block_bytes b)) = bs)"

definition has_body :: "AmlObjectKind \<Rightarrow> bool" where
  "has_body k \<longleftrightarrow> k \<in> {KMethod, KDevice, KProcessor, KPowerResource, KThermalZone}"

definition enclosing :: "AmlResolvedNamePath \<Rightarrow> AmlResolvedNamePath" where
  "enclosing path = (case path_parent path of None \<Rightarrow> root_path | Some p \<Rightarrow> p)"

definition parent_ok :: "AmlNamespaceLoadRecord list \<Rightarrow> AmlResolvedNamePath \<Rightarrow> AmlNamespaceNodeId option \<Rightarrow> bool" where
  "parent_ok rs path m \<longleftrightarrow> (\<exists>pid. m = Some pid \<and> is_scope rs (enclosing path) pid)"

definition body_ok :: "AmlDefinitionBlockSet \<Rightarrow> AmlObjectKind \<Rightarrow> AmlCodeLocation option \<Rightarrow> bool" where
  "body_ok bset kind m \<longleftrightarrow>
     (has_body kind \<longrightarrow>
        (\<exists>loc bs. m = Some loc \<and> located bset (block_index loc) (span_offset (span loc)) bs
                  \<and> span_length (span loc) = of_nat (length bs)))"

definition payload_ok :: "AmlNamespaceLoadRecord list \<Rightarrow> AmlNamespaceLoadRecord \<Rightarrow> bool" where
  "payload_ok rs r \<longleftrightarrow>
     (case payload r of
        PayloadNone \<Rightarrow> True
      | NameInteger _ \<Rightarrow> node_kind (descriptor r) = KName
      | PayloadMethod m \<Rightarrow> node_kind (descriptor r) = KMethod
          \<and> method_node m = node_id (descriptor r) \<and> body r = Some (method_body m)
      | PayloadOpRegion g \<Rightarrow> node_kind (descriptor r) = KOpRegion
          \<and> region_node g = node_id (descriptor r)
      | PayloadField f \<Rightarrow> node_kind (descriptor r) = KField
          \<and> field_node f = node_id (descriptor r)
          \<and> (\<forall>g. field_region f = Some g \<longrightarrow> (\<exists>q \<in> set rs. node_id (descriptor q) = g)))"

definition rec_ok :: "AmlDefinitionBlockSet \<Rightarrow> AmlNamespaceLoadRecord list \<Rightarrow> AmlNamespaceLoadRecord \<Rightarrow> bool" where
  "rec_ok bset rs r \<longleftrightarrow>
     path_wf (node_path (descriptor r))
     \<and> parent_ok rs (node_path (descriptor r)) (node_parent (descriptor r))
     \<and> body_ok bset (node_kind (descriptor r)) (body r)
     \<and> payload_ok rs r"

definition tree_ok :: "AmlDefinitionBlockSet \<Rightarrow> AmlNamespaceLoadRecord list \<Rightarrow> bool" where
  "tree_ok bset rs \<longleftrightarrow>
     rs \<noteq> []
     \<and> descriptor (rs ! 0) = \<lparr>node_id = ROOT_NODE_ID, node_parent = None, node_kind = KScope, node_path = root_path\<rparr>
     \<and> payload (rs ! 0) = PayloadNone
     \<and> (\<forall>i < length rs. node_id (descriptor (rs ! i)) = of_nat i)
     \<and> (\<forall>i < length rs. 0 < i \<longrightarrow> rec_ok bset (take i rs) (rs ! i))"

definition ns_inv :: "AmlNamespaceLoader \<Rightarrow> bool" where
  "ns_inv ld \<longleftrightarrow>
     storage_len ld < 2 ^ 32 \<and> length (stored ld) \<le> storage_len ld
     \<and> next_id ld = of_nat (length (stored ld))
     \<and> tree_ok (plan_blocks (plan ld)) (stored ld)"

definition keeps :: "AmlNamespaceLoader \<Rightarrow> AmlNamespaceLoader \<Rightarrow> bool" where
  "keeps ld ld' \<longleftrightarrow>
     ns_inv ld' \<and> plan ld' = plan ld \<and> storage_len ld' = storage_len ld
     \<and> (\<exists>rs. stored ld' = stored ld @ rs)"

lemma keeps_refl: "ns_inv ld \<Longrightarrow> keeps ld ld"
  by (simp add: keeps_def)

lemma keeps_trans [trans]: "keeps a b \<Longrightarrow> keeps b c \<Longrightarrow> keeps a c"
  by (auto simp: keeps_def)

lemma keeps_inv: "keeps a b \<Longrightarrow> ns_inv b"
  by (simp add: keeps_def)

lemma is_scope_keeps: "keeps a b \<Longrightarrow> is_scope (stored a) p i \<Longrightarrow> is_scope (stored b) p i"
  by (auto simp: keeps_def is_scope_def)

lemma is_scope_root: "ns_inv ld \<Longrightarrow> is_scope (stored ld) root_path ROOT_NODE_ID"
  by (auto simp: ns_inv_def tree_ok_def is_scope_def scope_capable_def intro!: bexI [of _ "stored ld ! 0"])

lemma tree_ok_append:
  assumes "tree_ok bset rs" and "node_id (descriptor r) = of_nat (length rs)" and "rec_ok bset rs r"
  shows "tree_ok bset (rs @ [r])"
  using assms by (auto simp: tree_ok_def nth_append less_Suc_eq)

section \<open>Insertion\<close>

lemma next_id_succ:
  assumes "Suc n < 2 ^ 32"
  shows "max (of_nat n + 1) (saturating_succ (of_nat n)) = (of_nat (Suc n) :: u32)"
proof -
  have "(of_nat n :: u32) \<noteq> - 1"
  proof
    assume "(of_nat n :: u32) = - 1"
    then have "unat (of_nat n :: u32) = unat (- 1 :: u32)" by simp
    then show False using assms by (simp add: unat_of_nat unsigned_minus_1_eq_mask mask_eq_exp_minus_1)
  qed
  then show ?thesis by (simp add: saturating_succ_def add.commute)
qed

lemma insert_record_keeps:
  assumes "ns_inv ld" and "next_node_id ld = (nid, ld1)"
    and "insert_record_with_id d b p ld1 = Ok ld2" and "node_id d = nid"
    and "rec_ok (plan_blocks (plan ld)) (stored ld) \<lparr>descriptor = d, body = b, payload = p\<rparr>"
  shows "keeps ld ld2" and "\<lparr>descriptor = d, body = b, payload = p\<rparr> \<in> set (stored ld2)"
proof -
  let ?r = "\<lparr>descriptor = d, body = b, payload = p\<rparr>"
  have id: "nid = next_id ld" and ld1: "ld1 = ld\<lparr>next_id := next_id ld + 1\<rparr>"
    using assms(2) by (auto simp: next_node_id_def)
  have lt: "length (stored ld) < storage_len ld"
    and ld2: "ld2 = ld\<lparr>next_id := max (next_id ld + 1) (saturating_succ (next_id ld)),
                      stored := stored ld @ [?r]\<rparr>"
    using assms(3,4) id ld1
    by (auto simp: insert_record_with_id_def push_record_def ok_iff split: if_splits)
  have inv: "storage_len ld < 2 ^ 32" "next_id ld = of_nat (length (stored ld))"
    "tree_ok (plan_blocks (plan ld)) (stored ld)"
    using assms(1) by (simp_all add: ns_inv_def)
  have "tree_ok (plan_blocks (plan ld)) (stored ld @ [?r])"
    using tree_ok_append [OF inv(3) _ assms(5)] inv(2) assms(4) id by simp
  then show "keeps ld ld2" "?r \<in> set (stored ld2)"
    using lt inv next_id_succ [of "length (stored ld)"]
    by (auto simp: keeps_def ns_inv_def ld2)
qed

lemma insert_unique_keeps:
  assumes "ns_inv ld" and "insert_unique_record path parent kind b p ld = Ok (nid, ld')"
    and "\<And>i. rec_ok (plan_blocks (plan ld)) (stored ld)
           \<lparr>descriptor = \<lparr>node_id = i, node_parent = parent, node_kind = kind, node_path = path\<rparr>,
            body = b, payload = p\<rparr>"
  shows "keeps ld ld'" and "scope_capable kind \<Longrightarrow> is_scope (stored ld') path nid"
proof -
  obtain ld1 where n: "next_node_id ld = (nid, ld1)"
    and ins: "insert_record_with_id
        \<lparr>node_id = nid, node_parent = parent, node_kind = kind, node_path = path\<rparr> b p ld1 = Ok ld'"
    using assms(2) by (auto simp: insert_unique_record_def ok_iff split: if_splits prod.splits)
  note k = insert_record_keeps [OF assms(1) n ins _ assms(3)]
  show "keeps ld ld'" using k by simp
  show "is_scope (stored ld') path nid" if "scope_capable kind"
    using k(2) that by (force simp: is_scope_def)
qed

text \<open>Objects without a body and with a trivial payload.\<close>

lemma rec_ok_plain:
  assumes "path_wf path" and "parent_ok rs path parent" and "\<not> has_body kind"
  shows "rec_ok bset rs \<lparr>descriptor = \<lparr>node_id = i, node_parent = parent, node_kind = kind, node_path = path\<rparr>,
            body = b, payload = PayloadNone\<rparr>"
  using assms by (simp add: rec_ok_def body_ok_def payload_ok_def)

section \<open>Scopes created on demand\<close>

lemma enclosing_of_segs:
  "length ss \<le> AML_MAX_PATH_SEGMENTS \<Longrightarrow> enclosing (of_segs ss) = of_segs (butlast ss)"
  by (simp add: enclosing_def path_parent_of_segs root_path_of_segs)

lemma path_wf_root: "path_wf root_path"
  by (simp add: root_path_of_segs)

lemma path_wf_enclosing: "path_wf p \<Longrightarrow> path_wf (enclosing p)"
  by (elim path_wfE) (simp add: enclosing_of_segs)

lemma is_scope_find:
  assumes "find_record ld p = Some q" and "scope_capable (node_kind (descriptor q))"
  shows "is_scope (stored ld) p (node_id (descriptor q))"
  using assms by (auto simp: find_record_def find_Some_iff is_scope_def)

definition scope_result ::
  "AmlNamespaceLoader \<Rightarrow> AmlResolvedNamePath \<Rightarrow> AmlNamespaceNodeId \<Rightarrow> AmlNamespaceLoader \<Rightarrow> bool" where
  "scope_result ld path nid ld' \<longleftrightarrow> keeps ld ld' \<and> is_scope (stored ld') path nid"

definition loop_pre :: "AmlResolvedNamePath \<Rightarrow> nat \<Rightarrow> AmlNamespaceNodeId \<Rightarrow> AmlNamespaceLoader \<Rightarrow> bool" where
  "loop_pre path depth nid ld \<longleftrightarrow>
     ns_inv ld \<and> path_wf path \<and> 0 < depth \<and> depth \<le> Suc (segment_count path)
     \<and> is_scope (stored ld) (of_segs (take (depth - 1) (path_segs path))) nid"

lemma loop_pre_prefix:
  assumes "loop_pre path depth nid ld" and "depth \<le> segment_count path"
    and "path_prefix path depth = Some prefix"
  shows "prefix = of_segs (take depth (path_segs path))" and "path_wf prefix"
    and "path_parent prefix = Some (of_segs (take (depth - 1) (path_segs path)))"
proof -
  obtain ss where ss: "path = of_segs ss" "length ss \<le> AML_MAX_PATH_SEGMENTS"
    using assms(1) by (auto simp: loop_pre_def elim: path_wfE)
  show p: "prefix = of_segs (take depth (path_segs path))"
    using assms(2,3) ss by (simp add: path_prefix_of_segs split: if_splits)
  show "path_wf prefix" using p ss by simp
  have "take depth ss \<noteq> []" using assms(1,2) ss by (auto simp: loop_pre_def)
  then show "path_parent prefix = Some (of_segs (take (depth - 1) (path_segs path)))"
    using p ss assms(2) by (simp add: path_parent_of_segs butlast_take)
qed

lemma loop_step:
  assumes "loop_pre path depth nid ld" and "depth \<le> segment_count path"
    and "path_prefix path depth = Some prefix"
    and "scope_result ld (of_segs (take (depth - 1) (path_segs path))) pid ld1"
    and "insert_unique_record prefix (Some pid) KScope None PayloadNone ld1 = Ok (nid', ld2)"
  shows "keeps ld ld2" and "loop_pre path (Suc depth) nid' ld2"
proof -
  note pre = loop_pre_prefix [OF assms(1,2,3)]
  have inv1: "ns_inv ld1" using assms(4) by (auto simp: scope_result_def keeps_inv)
  have par: "parent_ok (stored ld1) prefix (Some pid)"
    using assms(4) pre(3) by (simp add: parent_ok_def enclosing_def scope_result_def)
  note ins = insert_unique_keeps [OF inv1 assms(5) rec_ok_plain [OF pre(2) par]]
  show k: "keeps ld ld2"
    using assms(4) ins(1) by (auto simp: scope_result_def has_body_def intro: keeps_trans)
  have "is_scope (stored ld2) prefix nid'" using ins(2) by (simp add: has_body_def scope_capable_def)
  then show "loop_pre path (Suc depth) nid' ld2"
    using assms(1,2) pre(1) keeps_inv [OF k] by (simp add: loop_pre_def)
qed

lemma ensure_scope_keeps:
  "ensure_scope_path m ld = Ok (r, ld') \<Longrightarrow> ns_inv ld \<Longrightarrow> (\<And>p. m = Some p \<Longrightarrow> path_wf p) \<Longrightarrow>
     \<exists>pid. r = Some pid \<and> scope_result ld (case m of None \<Rightarrow> root_path | Some p \<Rightarrow> p) pid ld'"
  "ensure_scope_like_path path ld = Ok (nid, ld') \<Longrightarrow> ns_inv ld \<Longrightarrow> path_wf path \<Longrightarrow>
     scope_result ld path nid ld'"
  "ensure_scope_loop path depth cur ld = Ok (nid, ld') \<Longrightarrow> loop_pre path depth cur ld \<Longrightarrow>
     scope_result ld path nid ld'"
proof (induction m ld and path ld and path depth cur ld arbitrary: r ld' and nid ld' and nid ld'
    rule: ensure_scope_path_ensure_scope_like_path_ensure_scope_loop.induct)
  case (1 m ld)
  have root: "scope_result ld root_path ROOT_NODE_ID ld"
    using "1.prems" by (simp add: scope_result_def keeps_refl is_scope_root)
  have zero: "p = root_path" if "m = Some p" "segment_count p = 0" for p
    using "1.prems"(3) [OF that(1)] that(2) by (auto simp: root_path_of_segs elim: path_wfE)
  show ?case
    using "1.prems" "1.IH" root zero
    by (subst (asm) ensure_scope_path.simps) (auto simp: ok_iff split: option.splits if_splits)
next
  case (2 path ld)
  have "loop_pre path 1 ROOT_NODE_ID ld"
    using "2.prems" is_scope_root [of ld] by (simp add: loop_pre_def root_path_of_segs)
  moreover have "path = root_path" if "segment_count path = 0"
    using "2.prems"(3) that by (auto simp: root_path_of_segs elim: path_wfE)
  ultimately show ?case
    using "2.prems" "2.IH" is_scope_root [of ld]
    by (subst (asm) ensure_scope_like_path.simps)
       (auto simp: scope_result_def keeps_refl split: if_splits)
next
  case (3 path depth cur ld)
  show ?case
  proof (cases "depth \<le> segment_count path")
    case False
    then have "depth = Suc (segment_count path)" using "3.prems"(2) by (simp add: loop_pre_def)
    then show ?thesis
      using "3.prems" False
      by (subst (asm) ensure_scope_loop.simps)
         (auto simp: scope_result_def loop_pre_def keeps_refl elim!: path_wfE)
  next
    case True
    then obtain prefix where prefix: "path_prefix path depth = Some prefix"
      using "3.prems"(1) by (subst (asm) ensure_scope_loop.simps) (auto split: option.splits)
    note pre = loop_pre_prefix [OF "3.prems"(2) True prefix]
    show ?thesis
    proof (cases "find_record ld prefix")
      case (Some q)
      have sc: "scope_capable (node_kind (descriptor q))"
        and rest: "ensure_scope_loop path (depth + 1) (node_id (descriptor q)) ld = Ok (nid, ld')"
        using "3.prems"(1) True prefix Some
        by (auto simp: ensure_scope_loop.simps [of path depth] split: if_splits)
      have "loop_pre path (depth + 1) (node_id (descriptor q)) ld"
        using is_scope_find [OF Some sc] pre(1) "3.prems"(2) True by (simp add: loop_pre_def)
      with "3.IH"(3) [OF True prefix Some _ rest] sc show ?thesis by simp
    next
      case None
      obtain par ld1 nid' ld2 where e: "ensure_scope_path (path_parent prefix) ld = Ok (par, ld1)"
        and ins: "insert_unique_record prefix par KScope None PayloadNone ld1 = Ok (nid', ld2)"
        and rest: "ensure_scope_loop path (depth + 1) nid' ld2 = Ok (nid, ld')"
        using "3.prems"(1) True prefix None
        by (auto simp: ensure_scope_loop.simps [of path depth] ok_iff)
      have wf: "path_wf p" if "path_parent prefix = Some p" for p
        using that pre path_wf_enclosing [OF pre(2)] by (simp add: enclosing_def)
      have inv: "ns_inv ld" using "3.prems"(2) by (simp add: loop_pre_def)
      obtain pid where par: "par = Some pid"
        and sr: "scope_result ld (of_segs (take (depth - 1) (path_segs path))) pid ld1"
        using "3.IH"(1) [OF True prefix None e inv wf] pre(3) by auto
      note step = loop_step [OF "3.prems"(2) True prefix sr ins [unfolded par]]
      have "scope_result ld2 path nid ld'"
        using "3.IH"(2) [OF True prefix None e refl ins refl rest] step(2) by simp
      with step(1) show ?thesis by (auto simp: scope_result_def intro: keeps_trans)
    qed
  qed
qed

section \<open>Leaf objects\<close>

lemma resolve_wf:
  assumes "path_wf scope" and "parse_encoded_name r = Ok name" and "resolve scope name = Ok path"
  shows "path_wf path"
proof -
  obtain ss where ss: "scope = of_segs ss" "length ss \<le> AML_MAX_PATH_SEGMENTS"
    using assms(1) by (rule path_wfE)
  have "name_wf name" using parse_encoded_name_Ok(1) [OF assms(2)] .
  from resolve_refines [OF this ss(2)] assms(3) ss show ?thesis
    using parse_encoded_name_Ok(1) [OF assms(2)]
    by (auto simp: ok_iff resolve_spec_def Let_def split: if_splits)
qed

lemma ensure_parent:
  assumes "ns_inv ld" and "path_wf path" and "ensure_scope_path (path_parent path) ld = Ok (par, ld1)"
  shows "keeps ld ld1" and "parent_ok (stored ld1) path par"
proof -
  have "path_wf p" if "path_parent path = Some p" for p
    using that path_wf_enclosing [OF assms(2)] by (simp add: enclosing_def)
  then obtain pid where "par = Some pid" "scope_result ld (enclosing path) pid ld1"
    using ensure_scope_keeps(1) [OF assms(3,1)] by (auto simp: enclosing_def)
  then show "keeps ld ld1" "parent_ok (stored ld1) path par"
    by (auto simp: scope_result_def parent_ok_def)
qed

text \<open>The common course of an operation that declares one object: resolve, ensure the parent, insert.\<close>

lemma declare_keeps:
  assumes "ns_inv ld" and "path_wf scope" and "parse_encoded_name r = Ok name"
    and "resolve scope name = Ok path" and "ensure_scope_path (path_parent path) ld = Ok (par, ld1)"
    and "insert_unique_record path par kind b p ld1 = Ok (nid, ld2)"
    and "body_ok (plan_blocks (plan ld)) kind b"
    and "p = PayloadNone \<or> (\<exists>v. p = NameInteger v \<and> kind = KName)"
  shows "keeps ld ld2" and "scope_capable kind \<Longrightarrow> is_scope (stored ld2) path nid" and "path_wf path"
proof -
  show wf: "path_wf path" using resolve_wf assms(2,3,4) .
  note par = ensure_parent [OF assms(1) wf assms(5)]
  have "plan ld1 = plan ld" using par(1) by (simp add: keeps_def)
  then have "rec_ok (plan_blocks (plan ld1)) (stored ld1)
      \<lparr>descriptor = \<lparr>node_id = i, node_parent = par, node_kind = kind, node_path = path\<rparr>, body = b, payload = p\<rparr>" for i
    using wf par(2) assms(7,8) by (auto simp: rec_ok_def payload_ok_def)
  note ins = insert_unique_keeps [OF keeps_inv [OF par(1)] assms(6) this]
  show "keeps ld ld2" using keeps_trans [OF par(1)] ins(1) by blast
  show "is_scope (stored ld2) path nid" if "scope_capable kind" using ins(2) that by blast
qed

lemma body_ok_none [simp]: "\<not> has_body kind \<Longrightarrow> body_ok bset kind b"
  by (simp add: body_ok_def)

lemma has_body_simps [simp]:
  "has_body KMethod" "has_body KDevice" "has_body KProcessor" "has_body KPowerResource" "has_body KThermalZone"
  "\<not> has_body KAlias" "\<not> has_body KName" "\<not> has_body KExternal" "\<not> has_body KBufferField"
  "\<not> has_body KMutex" "\<not> has_body KEvent" "\<not> has_body KOpRegion" "\<not> has_body KField" "\<not> has_body KScope"
  by (simp_all add: has_body_def)

lemma alias_keeps:
  "parse_alias_op bs scope ld = Ok (c, ld') \<Longrightarrow> ns_inv ld \<Longrightarrow> path_wf scope \<Longrightarrow> keeps ld ld'"
  by (auto simp: parse_alias_op_def ok_iff elim: declare_keeps(1))

lemma name_keeps:
  "parse_name_op bs aoff blk scope ld = Ok (c, ld') \<Longrightarrow> ns_inv ld \<Longrightarrow> path_wf scope \<Longrightarrow> keeps ld ld'"
  by (auto simp: parse_name_op_def ok_iff Let_def split: option.splits)
     (erule (5) declare_keeps(1); simp)+

lemma create_field_keeps:
  "parse_create_field_like_op bs scope k ld = Ok (c, ld') \<Longrightarrow> ns_inv ld \<Longrightarrow> path_wf scope \<Longrightarrow> keeps ld ld'"
  by (auto simp: parse_create_field_like_op_def ok_iff elim: declare_keeps(1))

lemma mutex_keeps:
  "parse_mutex_op bs scope ld = Ok (c, ld') \<Longrightarrow> ns_inv ld \<Longrightarrow> path_wf scope \<Longrightarrow> keeps ld ld'"
  by (auto simp: parse_mutex_op_def ok_iff Let_def elim: declare_keeps(1))

lemma event_keeps:
  "parse_event_op bs scope ld = Ok (c, ld') \<Longrightarrow> ns_inv ld \<Longrightarrow> path_wf scope \<Longrightarrow> keeps ld ld'"
  by (auto simp: parse_event_op_def ok_iff elim: declare_keeps(1))

lemma external_keeps:
  assumes "parse_external_op bs scope ld = Ok (c, ld')" and "ns_inv ld" and "path_wf scope"
  shows "keeps ld ld'"
proof -
  obtain name path par ld1 where s: "parse_encoded_name (drop 1 bs) = Ok name"
    "resolve scope name = Ok path" "ensure_scope_path (path_parent path) ld = Ok (par, ld1)"
    and c: "ld' = ld1 \<or> (\<exists>nid. insert_unique_record path par KExternal None PayloadNone ld1 = Ok (nid, ld'))"
    using assms(1) by (auto simp: parse_external_op_def ok_iff Let_def split: if_splits)
  show ?thesis
    using c ensure_parent(1) [OF assms(2) resolve_wf [OF assms(3) s(1,2)] s(3)]
      declare_keeps(1) [OF assms(2,3) s]
    by auto
qed

section \<open>Slices of a block\<close>

lemma located_sub:
  assumes "located bset blk base bs" and "a \<le> e" and "e \<le> length bs"
  shows "located bset blk (base + of_nat a) (take (e - a) (drop a bs))"
proof -
  obtain b where b: "block_at bset blk = Some b" "length (block_bytes b) < 2 ^ 32"
    "unat base + length bs \<le> length (block_bytes b)"
    "take (length bs) (drop (unat base) (block_bytes b)) = bs"
    using assms(1) by (auto simp: located_def)
  have "unat base + a < 2 ^ 32" using b(2,3) assms(2,3) by linarith
  then have u: "unat (base + of_nat a) = unat base + a"
    by (simp add: unat_word_ariths unat_of_nat)
  have "take (e - a) (drop a bs) = take (e - a) (drop a (take (length bs) (drop (unat base) (block_bytes b))))"
    using b(4) by simp
  also have "\<dots> = take (e - a) (drop (unat base + a) (block_bytes b))"
    using assms(2,3) by (simp add: drop_take min_def add.commute)
  finally show ?thesis
    using b assms(2,3) u by (auto simp: located_def)
qed

lemma located_body:
  assumes "located bset blk base bs" and "fin \<le> length bs" and "k \<le> fin"
  shows "located bset blk (base + of_nat k) (drop k (take fin bs))"
  using located_sub [OF assms(1,3,2)] by (simp add: drop_take)

lemma located_drop:
  assumes "located bset blk base bs" and "k \<le> length bs"
  shows "located bset blk (base + of_nat k) (drop k bs)"
  using located_body [OF assms(1) _ assms(2)] by simp

lemma body_okI:
  assumes "located bset blk base bs" and "fin \<le> length bs" and "k \<le> fin"
  shows "body_ok bset kind
           (Some \<lparr>block_index = blk, span = \<lparr>span_offset = base + of_nat k, span_length = of_nat (fin - k)\<rparr>\<rparr>)"
  using located_body [OF assms] assms(2) by (force simp: body_ok_def intro: exI [of _ "drop k (take fin bs)"])

section \<open>Methods, regions and fields\<close>

text \<open>Methods, regions and fields are inserted without the uniqueness test.\<close>

lemma declare_new_keeps:
  assumes "ns_inv ld" and "path_wf scope" and "parse_encoded_name r = Ok name"
    and "resolve scope name = Ok path" and "ensure_scope_path (path_parent path) ld = Ok (par, ld1)"
    and "insert_record_with_id
           \<lparr>node_id = next_id ld1, node_parent = par, node_kind = kind, node_path = path\<rparr> b p
           (ld1\<lparr>next_id := next_id ld1 + 1\<rparr>) = Ok ld'"
    and "body_ok (plan_blocks (plan ld)) kind b"
    and "\<And>rs. payload_ok rs \<lparr>descriptor = \<lparr>node_id = next_id ld1, node_parent = par, node_kind = kind, node_path = path\<rparr>,
                             body = b, payload = p\<rparr>"
  shows "keeps ld ld'"
proof -
  have wf: "path_wf path" using resolve_wf [OF assms(2,3,4)] .
  note par = ensure_parent [OF assms(1) wf assms(5)]
  have pl: "plan ld1 = plan ld" using par(1) by (simp add: keeps_def)
  have "keeps ld1 ld'"
    using wf par(2) assms(7,8) pl
    by (intro insert_record_keeps(1) [OF keeps_inv [OF par(1)] next_node_id_def assms(6)])
       (auto simp: rec_ok_def)
  then show ?thesis using par(1) keeps_trans by blast
qed

lemma method_keeps:
  assumes "parse_method_op bs aoff blk scope ld = Ok (c, ld')" and "ns_inv ld" and "path_wf scope"
    and "located (plan_blocks (plan ld)) blk aoff bs"
  shows "keeps ld ld'"
  using assms(1)
  by (auto simp: parse_method_op_def ok_iff Let_def next_node_id_def simp del: of_nat_Suc of_nat_add)
     (frule object_package_Ok(2), frule object_package_Ok(3), erule (3) declare_new_keeps [OF assms(2,3)],
      (rule body_okI [OF assms(4)]; simp), simp add: payload_ok_def)+

lemma opregion_keeps:
  assumes "parse_opregion_op bs scope ld = Ok (c, ld')" and "ns_inv ld" and "path_wf scope"
  shows "keeps ld ld'"
  using assms(1)
  by (auto simp: parse_opregion_op_def ok_iff Let_def next_node_id_def)
     (erule (3) declare_new_keeps [OF assms(2,3)]; simp add: payload_ok_def)

lemma insert_field_keeps:
  assumes "insert_field scope sid region flags off seg w ld = Ok ld'" and "ns_inv ld"
    and "path_wf scope" and "is_scope (stored ld) scope sid"
    and "\<And>g. region = Some g \<Longrightarrow> \<exists>q \<in> set (stored ld). node_id (descriptor q) = g"
  shows "keeps ld ld'"
proof -
  obtain node ld1 where nx: "next_node_id ld = (node, ld1)" by (cases "next_node_id ld")
  obtain ss where ss: "scope = of_segs ss" "length ss \<le> AML_MAX_PATH_SEGMENTS"
    using assms(3) by (rule path_wfE)
  have fp: "length ss < AML_MAX_PATH_SEGMENTS"
    and ins: "insert_record_with_id
        \<lparr>node_id = node, node_parent = Some sid, node_kind = KField, node_path = of_segs (ss @ [seg])\<rparr> None
        (PayloadField \<lparr>field_node = node, field_region = region, bit_offset = off, bit_width = w,
           field_access = decode_field_access flags, field_update = decode_field_update flags\<rparr>) ld1 = Ok ld'"
    using assms(1) ss nx by (auto simp: insert_field_def ok_iff push_of_segs split: if_splits)
  show ?thesis
    using assms(4,5) fp ss
    by (intro insert_record_keeps(1) [OF assms(2) nx ins])
       (auto simp: rec_ok_def payload_ok_def parent_ok_def enclosing_of_segs)
qed

lemma field_entries_keeps:
  "parse_field_entries bs cursor fin scope sid region flags off ld = Ok ld' \<Longrightarrow> ns_inv ld \<Longrightarrow> path_wf scope \<Longrightarrow>
   is_scope (stored ld) scope sid \<Longrightarrow>
   (\<And>g. region = Some g \<Longrightarrow> \<exists>q \<in> set (stored ld). node_id (descriptor q) = g) \<Longrightarrow> keeps ld ld'"
proof (induction "fin - cursor" arbitrary: cursor off ld rule: less_induct)
  case less
  have skip: "keeps ld ld'"
    if "parse_field_entries bs (cursor + Suc k) fin scope sid region flags o2 ld = Ok ld'" "cursor < fin" for k o2
    using less.hyps [OF _ that(1) less.prems(2-5)] that(2) by simp
  have field: "keeps ld ld'"
    if "insert_field scope sid region flags off seg w ld = Ok ld1" "cursor < fin"
      "parse_field_entries bs (cursor + (4 + k)) fin scope sid region flags o2 ld1 = Ok ld'" for seg w ld1 k o2
  proof -
    have k: "keeps ld ld1" by (rule insert_field_keeps [OF that(1) less.prems(2-5)])
    have "\<exists>q \<in> set (stored ld1). node_id (descriptor q) = g" if "region = Some g" for g
      using less.prems(5) [OF that] k by (auto simp: keeps_def)
    then have "keeps ld1 ld'"
      using less.hyps [OF _ that(3) keeps_inv [OF k] less.prems(3) is_scope_keeps [OF k less.prems(4)]] that(2)
      by simp
    with k show ?thesis using keeps_trans by blast
  qed
  show ?case
    using less.prems(1,2) skip [of 2] skip [of 3] skip field
    by (subst (asm) parse_field_entries.simps)
       (auto simp: ok_iff keeps_refl numeral_2_eq_2 numeral_3_eq_3 eval_nat_numeral split: if_splits)
qed

lemma find_node_id_known:
  "find_node_id ld path = Some g \<Longrightarrow> \<exists>q \<in> set (stored ld). node_id (descriptor q) = g"
  by (auto simp: find_node_id_def find_record_def find_Some_iff)

lemma field_op_keeps:
  assumes "parse_field_op bs scope sid ld = Ok (c, ld')" and "ns_inv ld" and "path_wf scope"
    and "is_scope (stored ld) scope sid"
  shows "keeps ld ld'"
  using assms(1)
  by (auto simp: parse_field_op_def ok_iff Let_def)
     (erule field_entries_keeps [OF _ assms(2-4)], erule find_node_id_known)

lemma index_field_op_keeps:
  assumes "parse_index_field_op bs scope sid ld = Ok (c, ld')" and "ns_inv ld" and "path_wf scope"
    and "is_scope (stored ld) scope sid"
  shows "keeps ld ld'"
  using assms(1)
  by (auto simp: parse_index_field_op_def ok_iff Let_def)
     (erule field_entries_keeps [OF _ assms(2-4)], simp)

section \<open>Objects with a body\<close>

text \<open>
  What an operation relies on when it hands a body to the walker: the walker keeps the invariant when
  the body is a slice of its block and the scope is a record of the loader.
\<close>

locale term_list_walker =
  fixes walk :: walker
  assumes walk_keeps:
    "ns_inv ld \<Longrightarrow> path_wf scope \<Longrightarrow> is_scope (stored ld) scope sid \<Longrightarrow>
     located (plan_blocks (plan ld)) blk base bs \<Longrightarrow>
     walk bs base blk scope sid ld = Ok ld' \<Longrightarrow> keeps ld ld'"
begin

lemma body_keeps:
  assumes "walk (drop k ob) (aoff + of_nat k) blk path sid ld1 = Ok ld'"
    and "object_package bs m = Ok (pkg, fin, ob)" and "k \<le> length ob" and "keeps ld ld1"
    and "path_wf path" and "is_scope (stored ld1) path sid"
    and "located (plan_blocks (plan ld)) blk aoff bs"
  shows "keeps ld ld'"
proof -
  note obj = object_package_Ok [OF assms(2)]
  have "plan ld1 = plan ld" using assms(4) by (simp add: keeps_def)
  then have "keeps ld1 ld'"
    using located_body [OF assms(7) obj(2), of k] assms(3) obj(2,3)
    by (intro walk_keeps [OF keeps_inv [OF assms(4)] assms(5,6) _ assms(1)]) simp
  with assms(4) show ?thesis using keeps_trans by blast
qed

lemma scope_op_keeps:
  assumes "parse_scope_op walk bs aoff blk scope ld = Ok (c, ld')" and "ns_inv ld" and "path_wf scope"
    and "located (plan_blocks (plan ld)) blk aoff bs"
  shows "keeps ld ld'"
proof -
  obtain pkg fin ob r name path sid ld1 k where
      pk: "object_package bs 1 = Ok (pkg, fin, ob)" and nm: "parse_encoded_name r = Ok name"
    and rs: "resolve scope name = Ok path"
    and en: "ensure_scope_like_path path ld = Ok (sid, ld1)" and le: "k \<le> length ob"
    and wk: "walk (drop k ob) (aoff + of_nat k) blk path sid ld1 = Ok ld'"
    using assms(1) by (auto simp: parse_scope_op_def ok_iff Let_def simp del: of_nat_Suc of_nat_add)
  have wf: "path_wf path" using resolve_wf [OF assms(3) nm rs] .
  have "scope_result ld path sid ld1" by (rule ensure_scope_keeps(2) [OF en assms(2) wf])
  then show ?thesis
    using body_keeps [OF wk pk le _ wf _ assms(4)] by (simp add: scope_result_def)
qed

lemma pkg_scoped_keeps:
  assumes "parse_pkg_scoped_named_object walk bs aoff blk scope kind fixed ld = Ok (c, ld')" and "ns_inv ld"
    and "path_wf scope" and "located (plan_blocks (plan ld)) blk aoff bs" and "scope_capable kind"
  shows "keeps ld ld'"
proof -
  obtain pkg fin ob name path par ld1 nid ld2 k where
      pk: "object_package bs 2 = Ok (pkg, fin, ob)"
    and nm: "parse_encoded_name (drop (2 + unat (encoded_bytes pkg)) ob) = Ok name"
    and rs: "resolve scope name = Ok path"
    and en: "ensure_scope_path (path_parent path) ld = Ok (par, ld1)"
    and le: "k \<le> length ob"
    and ins: "insert_unique_record path par kind
        (Some \<lparr>block_index = blk, span = \<lparr>span_offset = aoff + of_nat k,
           span_length = of_int (int fin - int k)\<rparr>\<rparr>) PayloadNone ld1 = Ok (nid, ld2)"
    and wk: "walk (drop k ob) (aoff + of_nat k) blk path nid ld2 = Ok ld'"
    using assms(1)
    by (auto simp: parse_pkg_scoped_named_object_def ok_iff Let_def simp del: of_nat_Suc of_nat_add of_int_diff)
  note obj = object_package_Ok [OF pk]
  have kf: "k \<le> fin" using le obj(2,3) by simp
  then have "(of_int (int fin - int k) :: u32) = of_nat (fin - k)"
    by (metis of_int_of_nat_eq of_nat_diff)
  then have bd: "body_ok (plan_blocks (plan ld)) kind
      (Some \<lparr>block_index = blk, span = \<lparr>span_offset = aoff + of_nat k, span_length = of_int (int fin - int k)\<rparr>\<rparr>)"
    using body_okI [OF assms(4) obj(2) kf, of kind] by simp
  note d = declare_keeps [OF assms(2,3) nm rs en ins bd]
  show ?thesis
    using d assms(5) by (intro body_keeps [OF wk pk le _ _ _ assms(4)]) simp_all
qed

lemma else_keeps:
  assumes "parse_else walk bs aoff blk scope sid fin taken ld = Ok (c, ld')" and "ns_inv ld"
    and "path_wf scope" and "is_scope (stored ld) scope sid"
    and "located (plan_blocks (plan ld)) blk aoff bs"
  shows "keeps ld ld'"
proof (cases taken)
  case True
  then show ?thesis using assms(1,2) by (auto simp: parse_else_def ok_iff Let_def keeps_refl)
next
  case False
  then obtain v k where
      wk: "walk (drop k (take v (drop fin bs))) (aoff + of_nat fin + of_nat k) blk scope sid ld = Ok ld'"
    and le: "fin + v \<le> length bs" "k \<le> v"
    using assms(1) by (auto simp: parse_else_def ok_iff Let_def simp del: of_nat_Suc of_nat_add)
  have "located (plan_blocks (plan ld)) blk (aoff + of_nat fin) (take v (drop fin bs))"
    using located_sub [OF assms(5), of fin "fin + v"] le(1) by simp
  from located_drop [OF this, of k] le
  show ?thesis by (intro walk_keeps [OF assms(2-4) _ wk]) simp
qed

lemma else_tail_keeps:
  assumes "parse_else walk bs aoff blk scope sid fin taken ld1 = Ok (c, ld')" and "keeps ld ld1"
    and "path_wf scope" and "is_scope (stored ld) scope sid"
    and "located (plan_blocks (plan ld)) blk aoff bs"
  shows "keeps ld ld'"
proof -
  have "plan ld1 = plan ld" using assms(2) by (simp add: keeps_def)
  then have "keeps ld1 ld'"
    using else_keeps [OF assms(1) keeps_inv [OF assms(2)] assms(3) is_scope_keeps [OF assms(2,4)]] assms(5) by simp
  with assms(2) show ?thesis using keeps_trans by blast
qed

lemma if_op_keeps:
  assumes "parse_if_op walk bs aoff blk scope sid ld = Ok (c, ld')" and "ns_inv ld"
    and "path_wf scope" and "is_scope (stored ld) scope sid"
    and "located (plan_blocks (plan ld)) blk aoff bs"
  shows "keeps ld ld'"
  using assms
  by (auto simp: parse_if_op_def ok_iff Let_def simp del: of_nat_Suc of_nat_add split: if_splits
      intro: keeps_refl body_keeps [OF _ _ _ keeps_refl] else_tail_keeps [OF _ keeps_refl]
        else_tail_keeps [OF _ body_keeps [OF _ _ _ keeps_refl]])

lemma term_object_keeps:
  assumes "parse_term_object walk bs aoff blk scope sid ld = Ok (c, ld')" and "ns_inv ld"
    and "path_wf scope" and "is_scope (stored ld) scope sid"
    and "located (plan_blocks (plan ld)) blk aoff bs"
  shows "keeps ld ld'"
  using assms(1)
  by (auto simp: parse_term_object_def parse_ext_op_def ok_iff unsupported_with_def scope_capable_def
      intro: alias_keeps [OF _ assms(2,3)] name_keeps [OF _ assms(2,3)] scope_op_keeps [OF _ assms(2,3,5)]
        method_keeps [OF _ assms(2,3,5)] external_keeps [OF _ assms(2,3)] if_op_keeps [OF _ assms(2-5)]
        create_field_keeps [OF _ assms(2,3)] mutex_keeps [OF _ assms(2,3)] event_keeps [OF _ assms(2,3)]
        opregion_keeps [OF _ assms(2,3)] field_op_keeps [OF _ assms(2-4)]
        index_field_op_keeps [OF _ assms(2-4)] pkg_scoped_keeps [OF _ assms(2,3,5)]
      split: if_splits)

end

section \<open>The walk and the load\<close>

lemma walk_from_keeps:
  "walk_from fuel off bs base blk scope sid ld = Ok ld' \<Longrightarrow> ns_inv ld \<Longrightarrow> path_wf scope \<Longrightarrow>
   is_scope (stored ld) scope sid \<Longrightarrow> located (plan_blocks (plan ld)) blk base bs \<Longrightarrow> keeps ld ld'"
proof (induction fuel arbitrary: off bs base blk scope sid ld ld')
  case (Suc fuel)
  have w: "term_list_walker (walk_from fuel 0)"
    by (unfold_locales) (rule Suc.IH)
  show ?case
  proof (cases "off < length bs")
    case True
    obtain c ld1 where t: "parse_term_object (walk_from fuel 0) (drop off bs) (base + of_nat off) blk scope sid ld = Ok (c, ld1)"
      and rest: "walk_from fuel (off + c) bs base blk scope sid ld1 = Ok ld'"
      using Suc.prems(1) True by (auto simp: ok_iff split: if_splits)
    have "located (plan_blocks (plan ld)) blk (base + of_nat off) (drop off bs)"
      using located_drop [OF Suc.prems(5)] True by simp
    then have k: "keeps ld ld1"
      by (rule term_list_walker.term_object_keeps [OF w t Suc.prems(2-4)])
    then have "plan ld1 = plan ld" by (simp add: keeps_def)
    with Suc.IH [OF rest keeps_inv [OF k] Suc.prems(3) is_scope_keeps [OF k Suc.prems(4)]] Suc.prems(5) k
    show ?thesis using keeps_trans by simp
  qed (use Suc.prems in \<open>simp add: keeps_refl\<close>)
qed simp

interpretation tl: term_list_walker walk_term_list
  by unfold_locales (auto simp: walk_term_list_def intro: walk_from_keeps simp del: walk_from.simps)

definition blocks_small :: "AmlDefinitionBlockSet \<Rightarrow> bool" where
  "blocks_small bset \<longleftrightarrow> (\<forall>b \<in> set (dsdt bset # ssdts bset). length (block_bytes b) < 2 ^ 32)"

lemma located_whole:
  "block_at bset blk = Some b \<Longrightarrow> length (block_bytes b) < 2 ^ 32 \<Longrightarrow> located bset blk 0 (block_bytes b)"
  by (simp add: located_def)

lemma block_ssdt:
  assumes "i < length (ssdts bset)" and "i + 1 \<le> 65535"
  shows "block_at bset (of_nat (i + 1)) = Some (ssdts bset ! i)"
proof -
  have u: "unat (of_nat (i + 1) :: 16 word) = i + 1" using assms(2) by (simp add: unat_of_nat del: of_nat_Suc of_nat_add)
  then have "(of_nat (i + 1) :: 16 word) \<noteq> 0" by (metis Suc_eq_plus1 nat.distinct(1) unat_0)
  moreover have "unat (of_nat (i + 1) - 1 :: 16 word) = i"
    using assms(2) by (simp add: unat_of_nat)
  ultimately show ?thesis using assms(1) by (simp add: block_at_def slice_get_def del: of_nat_Suc of_nat_add)
qed

lemma load_ssdts_keeps:
  "load_ssdts i bs ld = Ok ld' \<Longrightarrow> ns_inv ld \<Longrightarrow> bs = drop i (ssdts (plan_blocks (plan ld))) \<Longrightarrow>
   blocks_small (plan_blocks (plan ld)) \<Longrightarrow> keeps ld ld'"
proof (induction i bs ld rule: load_ssdts.induct)
  case (1 i ld)
  then show ?case by (simp add: keeps_refl)
next
  case (2 i b bs ld)
  let ?bset = "plan_blocks (plan ld)"
  have i: "i + 1 \<le> 65535" and nb: "i < length (ssdts ?bset)" "ssdts ?bset ! i = b" "bs = drop (i + 1) (ssdts ?bset)"
  proof -
    show "i + 1 \<le> 65535" using "2.prems"(1) by (auto split: if_splits)
    have d: "drop i (ssdts ?bset) = b # bs" using "2.prems"(3) by simp
    then show "i < length (ssdts ?bset)" by (metis drop_all list.distinct(1) linorder_not_le)
    show "ssdts ?bset ! i = b" using d by (rule nth_via_drop)
    show "bs = drop (i + 1) (ssdts ?bset)" using d by (metis Suc_eq_plus1 drop_Suc list.sel(3) tl_drop)
  qed
  have "b \<in> set (ssdts ?bset)" using nb(1,2) by (metis nth_mem)
  then have len: "length (block_bytes b) < 2 ^ 32" using "2.prems"(4) by (simp add: blocks_small_def)
  obtain ld1 where w: "walk_term_list (block_bytes b) 0 (of_nat (i + 1)) root_path ROOT_NODE_ID ld = Ok ld1"
    and rest: "load_ssdts (i + 1) bs ld1 = Ok ld'"
    using "2.prems"(1) i by (auto simp: ok_iff)
  have k: "keeps ld ld1"
    using block_ssdt [OF nb(1) i] nb(2) len "2.prems"(2)
    by (intro tl.walk_keeps [OF _ _ _ _ w]) (auto simp: is_scope_root path_wf_root intro: located_whole)
  then have "plan ld1 = plan ld" by (simp add: keeps_def)
  with "2.IH" [OF _ w rest keeps_inv [OF k]] i nb(3) "2.prems"(4) k
  show ?case using keeps_trans by auto
qed

lemma loader_new_inv:
  assumes "loader_new pl capacity = Ok ld" and "capacity < 2 ^ 32"
  shows "ns_inv ld" and "plan ld = pl" and "storage_len ld = capacity"
  using assms
  by (auto simp: loader_new_def push_record_def ok_iff ns_inv_def tree_ok_def saturating_succ_def
      ROOT_NODE_ID_def max_def split: if_splits)

lemma load_into_tree:
  assumes "load_into pl capacity = Ok ns" and "capacity < 2 ^ 32" and "blocks_small (plan_blocks pl)"
  shows "tree_ok (plan_blocks pl) (records ns)" and "length (records ns) \<le> capacity"
    and "blocks ns = plan_blocks pl"
proof -
  let ?bset = "plan_blocks pl"
  obtain ld ld1 ld2 where new: "loader_new pl capacity = Ok ld"
    and w: "walk_term_list (block_bytes (dsdt (plan_blocks (plan ld)))) 0 0 root_path ROOT_NODE_ID ld = Ok ld1"
    and ss: "load_ssdts 0 (ssdts (plan_blocks (plan ld))) ld1 = Ok ld2" and ns: "ns = loaded_namespace ld2"
    using assms(1) by (auto simp: load_into_def load_def ok_iff)
  note n = loader_new_inv [OF new assms(2)]
  have "length (block_bytes (dsdt ?bset)) < 2 ^ 32" using assms(3) by (simp add: blocks_small_def)
  then have k1: "keeps ld ld1"
    using n by (intro tl.walk_keeps [OF _ _ _ _ w])
      (auto simp: is_scope_root path_wf_root block_at_def intro!: located_whole)
  then have p1: "plan ld1 = pl" using n(2) by (simp add: keeps_def)
  have "keeps ld1 ld2"
    using load_ssdts_keeps [OF ss keeps_inv [OF k1]] n(2) p1 assms(3) by simp
  with k1 have k: "keeps ld ld2" by (rule keeps_trans)
  then show "tree_ok ?bset (records ns)" "length (records ns) \<le> capacity" "blocks ns = ?bset"
    using n by (auto simp: keeps_def ns_inv_def ns loaded_namespace_def)
qed

lemma record_of_id:
  assumes "tree_ok bset (records ns)" and "length (records ns) < 2 ^ 32" and "i < length (records ns)"
  shows "record_of ns (of_nat i) = Some (records ns ! i)"
proof -
  have ids: "node_id (descriptor (records ns ! j)) = of_nat j" if "j < length (records ns)" for j
    using assms(1) that by (simp add: tree_ok_def)
  have "(of_nat j :: u32) \<noteq> of_nat i" if "j < i" for j
  proof
    assume "(of_nat j :: u32) = of_nat i"
    then have "unat (of_nat j :: u32) = unat (of_nat i :: u32)" by simp
    then show False using that assms(2,3) by (simp add: unat_of_nat)
  qed
  then show ?thesis
    using assms(3) ids by (auto simp: record_of_def find_Some_iff intro!: exI [of _ i])
qed

lemma is_scope_position:
  assumes "tree_ok bset rs" and "i < length rs" and "is_scope (take i rs) path pid"
  shows "\<exists>j < i. pid = of_nat j \<and> scope_capable (node_kind (descriptor (rs ! j)))
                \<and> node_path (descriptor (rs ! j)) = path"
proof -
  obtain j where j: "j < i" "node_id (descriptor (rs ! j)) = pid" "node_path (descriptor (rs ! j)) = path"
    "scope_capable (node_kind (descriptor (rs ! j)))"
    using assms(2,3) by (auto simp: is_scope_def in_set_conv_nth)
  moreover have "node_id (descriptor (rs ! j)) = of_nat j" using assms(1,2) j(1) by (simp add: tree_ok_def)
  ultimately show ?thesis by blast
qed

text \<open>
  C8. A successful load leaves a tree in at most the storage given: the first record is the root, a
  node id finds the record at that position, and the parent of every other record is an earlier,
  scope-capable record whose path is the record's own path without its last segment.
\<close>
theorem loaded_namespace_is_tree:
  assumes "load_into pl capacity = Ok ns" and "capacity < 2 ^ 32" and "blocks_small (plan_blocks pl)"
  shows "0 < length (records ns) \<and> length (records ns) \<le> capacity
         \<and> node_path (descriptor (records ns ! 0)) = root_path
         \<and> (\<forall>i < length (records ns). record_of ns (of_nat i) = Some (records ns ! i))
         \<and> (\<forall>i < length (records ns). 0 < i \<longrightarrow>
              (\<exists>j < i. node_parent (descriptor (records ns ! i)) = Some (of_nat j)
                       \<and> scope_capable (node_kind (descriptor (records ns ! j)))
                       \<and> node_path (descriptor (records ns ! j)) = enclosing (node_path (descriptor (records ns ! i)))))"
proof -
  note t = load_into_tree [OF assms]
  have "\<exists>j < i. node_parent (descriptor (records ns ! i)) = Some (of_nat j)
                \<and> scope_capable (node_kind (descriptor (records ns ! j)))
                \<and> node_path (descriptor (records ns ! j)) = enclosing (node_path (descriptor (records ns ! i)))"
    if i: "i < length (records ns)" "0 < i" for i
  proof -
    have "parent_ok (take i (records ns)) (node_path (descriptor (records ns ! i)))
            (node_parent (descriptor (records ns ! i)))"
      using t(1) i by (simp add: tree_ok_def rec_ok_def)
    then obtain pid where pid: "node_parent (descriptor (records ns ! i)) = Some pid"
      "is_scope (take i (records ns)) (enclosing (node_path (descriptor (records ns ! i)))) pid"
      by (auto simp: parent_ok_def)
    from is_scope_position [OF t(1) i(1) this(2)] pid(1) show ?thesis by auto
  qed
  moreover have "length (records ns) < 2 ^ 32" using t(2) assms(2) by simp
  ultimately show ?thesis
    using t record_of_id [OF t(1)] by (auto simp: tree_ok_def)
qed

lemma located_code_bytes:
  assumes "located (blocks ns) (block_index loc) (span_offset (span loc)) bs"
    and "span_length (span loc) = of_nat (length bs)"
  shows "code_bytes ns loc = Some bs" and "length bs = unat (span_length (span loc))"
proof -
  let ?o = "unat (span_offset (span loc))"
  obtain b where b: "block_at (blocks ns) (block_index loc) = Some b" "length (block_bytes b) < 2 ^ 32"
    "?o + length bs \<le> length (block_bytes b)" "take (length bs) (drop ?o (block_bytes b)) = bs"
    using assms(1) by (auto simp: located_def)
  show len: "length bs = unat (span_length (span loc))"
    using assms(2) b(2,3) by (simp add: unat_of_nat)
  have "checked_add ?o (length bs) = Some (?o + length bs)"
    using b(2,3) by (simp add: checked_add_def usize_max_def)
  then show "code_bytes ns loc = Some bs"
    using b by (simp add: code_bytes_def get_range_def len [symmetric])
qed

text \<open>
  C34. The body of every loaded method, device, processor, power resource and thermal zone can be
  read: its location lies inside the definition block it names, and \<open>code_bytes\<close> returns as many
  bytes as the recorded span says.
\<close>
theorem loaded_bodies_readable:
  assumes "load_into pl capacity = Ok ns" and "capacity < 2 ^ 32" and "blocks_small (plan_blocks pl)"
  shows "\<forall>r \<in> set (records ns). has_body (node_kind (descriptor r)) \<longrightarrow>
           (\<exists>loc bs. body r = Some loc \<and> code_bytes ns loc = Some bs
                     \<and> length bs = unat (span_length (span loc)))"
proof (intro ballI impI)
  fix r
  assume r: "r \<in> set (records ns)" and hb: "has_body (node_kind (descriptor r))"
  note t = load_into_tree [OF assms]
  obtain i where i: "i < length (records ns)" "records ns ! i = r" using r by (auto simp: in_set_conv_nth)
  have "node_kind (descriptor (records ns ! 0)) = KScope" using t(1) by (simp add: tree_ok_def)
  then have "i \<noteq> 0" using hb i(2) by (metis has_body_simps(14))
  then have "body_ok (blocks ns) (node_kind (descriptor r)) (body r)"
    using t(1,3) i by (auto simp: tree_ok_def rec_ok_def)
  then show "\<exists>loc bs. body r = Some loc \<and> code_bytes ns loc = Some bs \<and> length bs = unat (span_length (span loc))"
    using hb located_code_bytes [of ns] by (auto simp: body_ok_def)
qed

text \<open>
  C39. Loaded records are well typed: every path is canonical (so that comparing paths compares segment
  lists), only a \<open>Name\<close> carries an integer, a method, region or field descriptor sits on a node of
  its kind and names that node, a method descriptor repeats the recorded body, and the region of a
  field is an earlier node.
\<close>
theorem loaded_records_well_typed:
  assumes "load_into pl capacity = Ok ns" and "capacity < 2 ^ 32" and "blocks_small (plan_blocks pl)"
    and "i < length (records ns)"
  shows "path_wf (node_path (descriptor (records ns ! i)))
         \<and> payload_ok (take i (records ns)) (records ns ! i)"
proof (cases "i = 0")
  case True
  then show ?thesis
    using load_into_tree(1) [OF assms(1-3)] by (simp add: tree_ok_def path_wf_root payload_ok_def)
qed (use load_into_tree(1) [OF assms(1-3)] assms(4) in \<open>simp add: tree_ok_def rec_ok_def\<close>)

section \<open>Malformed input\<close>

text \<open>
  Two malformed inputs abort the loader instead of being reported: a \<open>Scope\<close> whose package length
  is smaller than its own encoding (the name is then sliced from behind the end of the object), and an
  \<open>OperationRegion\<close> whose offset operand is a buffer with a length past the end of the block (the
  length operand is then sliced from behind the end of the input).
\<close>
theorem loader_panics_on_malformed_lengths:
  assumes "0 < capacity"
  shows "(block_bytes (dsdt (plan_blocks pl)) = 0x10 # 0x00 # rest \<longrightarrow> load_into pl capacity = Err Panic)
         \<and> (block_bytes (dsdt (plan_blocks pl)) = [0x5b, 0x80, 0x45, 0x43, 0x4f, 0x52, 0x03, 0x11, 0x3f]
            \<longrightarrow> load_into pl capacity = Err Panic)"
proof -
  let ?ld = "\<lparr>plan = pl, storage_len = capacity,
     stored = [\<lparr>descriptor = \<lparr>node_id = ROOT_NODE_ID, node_parent = None, node_kind = KScope, node_path = root_path\<rparr>,
                body = None, payload = PayloadNone\<rparr>], next_id = 1\<rparr>"
  have new: "loader_new pl capacity = Ok ?ld"
    using assms by (simp add: loader_new_def push_record_def saturating_succ_def ROOT_NODE_ID_def)
  have pkg: "parse_pkg_length (0x00 # rest) = Ok \<lparr>pkg_value = 0, encoded_bytes = 1\<rparr>" for rest
    using pkg_roundtrip_0 [of 0 rest] by (simp add: pkg_encode_def)
  have scope: "parse_scope_op w (0x10 # 0x00 # rest) aoff blk s ld = Err Panic" for w aoff blk s ld
    by (simp add: parse_scope_op_def object_package_def slice_from_def pkg get_range_def or_fail_def Let_def)
  have one: "load_into pl capacity = Err Panic" if "block_bytes (dsdt (plan_blocks pl)) = 0x10 # 0x00 # rest"
    by (simp add: load_into_def new load_def that walk_term_list_def slice_from_def parse_term_object_def
        slice_get_def or_fail_def scope)
  have name: "parse_encoded_name [0x45, 0x43, 0x4f, 0x52, 0x03, 0x11, 0x3f]
      = Ok \<lparr>anchor = Local, parent_prefixes = 0, name_segment_count = 1, is_null = False,
            raw_segments = [0x45, 0x43, 0x4f, 0x52], consumed_bytes = 4\<rparr>"
    by code_simp
  have path: "resolve root_path \<lparr>anchor = Local, parent_prefixes = 0, name_segment_count = 1, is_null = False,
            raw_segments = [0x45, 0x43, 0x4f, 0x52], consumed_bytes = 4\<rparr>
      = Ok (of_segs [AmlNameSeg [0x45, 0x43, 0x4f, 0x52]])"
    by code_simp
  note path1 = path [simplified]
  have arg: "parse_term_arg [0x11, 0x3f] = Ok (None, 64)"
    by code_simp
  have region: "parse_opregion_op [0x5b, 0x80, 0x45, 0x43, 0x4f, 0x52, 0x03, 0x11, 0x3f] root_path ld = Err Panic" for ld
    by (simp add: parse_opregion_op_def slice_from_def slice_get_def or_fail_def name path1 arg Let_def
        path_parent_of_segs AML_MAX_PATH_SEGMENTS_def ensure_scope_path.simps)
  have two: "load_into pl capacity = Err Panic"
    if "block_bytes (dsdt (plan_blocks pl)) = [0x5b, 0x80, 0x45, 0x43, 0x4f, 0x52, 0x03, 0x11, 0x3f]"
    by (simp add: load_into_def new load_def that walk_term_list_def slice_from_def parse_term_object_def
        parse_ext_op_def slice_get_def or_fail_def region)
  show ?thesis using one two by blast
qed

section \<open>Concrete loads\<close>

text \<open>\<open>Scope(\_SB) { Name(FOO0, 1) Method(_STA) { ... } }\<close>\<close>

definition demo_plan :: "bytes \<Rightarrow> AmlNamespaceLoadPlan" where
  "demo_plan bs = from_definition_blocks
     \<lparr>dsdt = \<lparr>block_kind = Dsdt,
              header = \<lparr>signature = [0x44, 0x53, 0x44, 0x54], revision = 2, oem_id = [], oem_table_id = [], oem_revision = 0\<rparr>,
              block_bytes = bs\<rparr>,
      ssdts = []\<rparr>"

definition demo_bytes :: bytes where
  "demo_bytes = [0x10, 0x15, 0x5c, 0x5f, 0x53, 0x42, 0x5f,
                 0x08, 0x46, 0x4f, 0x4f, 0x30, 0x0a, 0x01,
                 0x14, 0x07, 0x5f, 0x53, 0x54, 0x41, 0x00, 0xa4]"

lemma demo_small: "blocks_small (plan_blocks (demo_plan demo_bytes))"
  by (simp add: blocks_small_def demo_plan_def from_definition_blocks_def demo_bytes_def)

lemma demo_loads:
  "(case load_into (demo_plan demo_bytes) 8 of
      Ok ns \<Rightarrow> map (\<lambda>r. (node_kind (descriptor r), body r = None)) (records ns)
    | Err _ \<Rightarrow> []) = [(KScope, True), (KScope, True), (KName, False), (KMethod, False)]"
  by code_simp

lemma demo_namespace:
  obtains ns where "load_into (demo_plan demo_bytes) 8 = Ok ns" and "length (records ns) = 4"
    and "node_kind (descriptor (records ns ! 3)) = KMethod"
proof (cases "load_into (demo_plan demo_bytes) 8")
  case (Ok ns)
  then have m: "map (\<lambda>r. (node_kind (descriptor r), body r = None)) (records ns)
      = [(KScope, True), (KScope, True), (KName, False), (KMethod, False)]"
    using demo_loads by simp
  have l: "length (records ns) = 4" using arg_cong [OF m, of length] unfolding length_map by simp
  moreover have "node_kind (descriptor (records ns ! 3)) = KMethod"
    using arg_cong [OF m, of "\<lambda>xs. fst (xs ! 3)"] l by simp
  ultimately show ?thesis using Ok that by blast
qed (use demo_loads in simp)

theorem loaded_namespace_is_tree_witness:
  "\<exists>ns. load_into (demo_plan demo_bytes) 8 = Ok ns \<and> length (records ns) = 4
        \<and> (\<exists>j < 3. node_parent (descriptor (records ns ! 3)) = Some (of_nat j))"
proof -
  obtain ns where ns: "load_into (demo_plan demo_bytes) 8 = Ok ns" "length (records ns) = 4"
    by (rule demo_namespace)
  have "\<forall>i < 4. 0 < i \<longrightarrow> (\<exists>j < i. node_parent (descriptor (records ns ! i)) = Some (of_nat j))"
    using loaded_namespace_is_tree [OF ns(1) _ demo_small] ns(2) by simp blast
  then have "\<exists>j < 3. node_parent (descriptor (records ns ! 3)) = Some (of_nat j)" by simp
  with ns show ?thesis by blast
qed

theorem loaded_bodies_readable_witness:
  "\<exists>ns loc bs. load_into (demo_plan demo_bytes) 8 = Ok ns \<and> body (records ns ! 3) = Some loc
        \<and> code_bytes ns loc = Some bs \<and> length bs = unat (span_length (span loc))"
proof -
  obtain ns where ns: "load_into (demo_plan demo_bytes) 8 = Ok ns" "length (records ns) = 4"
    "node_kind (descriptor (records ns ! 3)) = KMethod"
    by (rule demo_namespace)
  then have "records ns ! 3 \<in> set (records ns)" by simp
  with loaded_bodies_readable [OF ns(1) _ demo_small] ns show ?thesis by fastforce
qed

theorem loaded_records_well_typed_witness:
  "\<exists>ns. load_into (demo_plan demo_bytes) 8 = Ok ns \<and> payload_ok (take 3 (records ns)) (records ns ! 3)"
proof -
  obtain ns where ns: "load_into (demo_plan demo_bytes) 8 = Ok ns" "length (records ns) = 4"
    by (rule demo_namespace)
  with loaded_records_well_typed [OF ns(1) _ demo_small, of 3] show ?thesis by simp
qed

theorem loader_panics_on_malformed_lengths_witness:
  "load_into (demo_plan [0x10, 0x00]) 8 = Err Panic"
  using loader_panics_on_malformed_lengths [of 8 "demo_plan [0x10, 0x00]" "[]"]
  by (simp add: demo_plan_def from_definition_blocks_def)

text \<open>Looking up \<open>FOO0\<close> from inside \<open>\_SB\<close>, where only the root declares it.\<close>

theorem lookup_finds_innermost_witness:
  "\<exists>ns. load_into (demo_plan [0x08, 0x46, 0x4f, 0x4f, 0x30, 0x01]) 8 = Ok ns
     \<and> resolve_lookup_path ns (of_segs [AmlNameSeg [0x5f, 0x53, 0x42, 0x5f]])
         \<lparr>anchor = Local, parent_prefixes = 0, name_segment_count = 1, is_null = False,
          raw_segments = [0x46, 0x4f, 0x4f, 0x30], consumed_bytes = 4\<rparr>
         = Ok (of_segs [AmlNameSeg [0x46, 0x4f, 0x4f, 0x30]])"
proof -
  let ?n = "\<lparr>anchor = Local, parent_prefixes = 0, name_segment_count = 1, is_null = False,
          raw_segments = [0x46, 0x4f, 0x4f, 0x30], consumed_bytes = 4\<rparr> :: AmlEncodedNameString"
  let ?f = "[AmlNameSeg [0x46, 0x4f, 0x4f, 0x30]]" and ?s = "[AmlNameSeg [0x5f, 0x53, 0x42, 0x5f]]"
  have ev: "(case load_into (demo_plan [0x08, 0x46, 0x4f, 0x4f, 0x30, 0x01]) 8 of
      Ok ns \<Rightarrow> map (\<lambda>r. node_path (descriptor r)) (records ns) | Err _ \<Rightarrow> []) = [of_segs [], of_segs ?f]"
    by code_simp
  then obtain ns where ns: "load_into (demo_plan [0x08, 0x46, 0x4f, 0x4f, 0x30, 0x01]) 8 = Ok ns"
    and p: "map (\<lambda>r. node_path (descriptor r)) (records ns) = [of_segs [], of_segs ?f]"
    by (auto split: result.splits)
  have d: "declared ns ss \<longleftrightarrow> ss = [] \<or> ss = ?f" for ss
  proof -
    have "declared ns ss \<longleftrightarrow> of_segs ss \<in> set (map (\<lambda>r. node_path (descriptor r)) (records ns))"
      unfolding declared_def set_map image_iff by metis
    then show ?thesis by (simp add: p)
  qed
  have "lookup_spec ns ?s (name_segs ?n) = ?f"
    using search_scopes_snoc [of "[]" "hd ?s"] by (simp add: lookup_spec_def name_segs_def d)
  then show ?thesis
    using lookup_finds_innermost [of ?n ?s ns] ns
    by (simp add: name_wf_def name_byte_def is_ascii_uppercase_def is_ascii_digit_def AML_MAX_PATH_SEGMENTS_def)
qed

end
