(* ===== verification/Aml_State.thy ===== *)
theory Aml_State
  imports Aml_Namespace
begin

text \<open>
  The mutable overlay of an AML namespace (\<open>aml/state.rs\<close>): integers written over named constants,
  packages and buffers created by running methods, and mutexes. Each kind is a caller-provided array
  of \<open>Cell<Option<slot>>\<close>, a list of optional slots whose length never changes. Every operation is one
  call on a single thread (\<open>Cell\<close> is not \<open>Sync\<close>).

  Integers and mutexes (and the name bindings of a method's frame, in \<open>Aml_Eval\<close>) are keyed slot
  arrays: a write goes to the slot that has the key or else to the first vacant one. The locale
  \<open>bounded_store\<close> says what a client sees of such an array, a partial map with room for as many keys as
  there are slots; \<open>keyed_slots\<close> gives it for every slot type with a key and a value.
\<close>

definition undefined_object :: AmlError where
  "undefined_object = AmlError UndefinedObject ''aml object not found''"

section \<open>Keyed slot arrays\<close>

text \<open>
  The loop that \<open>write_integer\<close>, \<open>try_acquire_mutex\<close> and the frame's \<open>bind_named_*\<close> share: it stops
  at the first slot that matches and remembers the first vacant one on the way.
\<close>

datatype slot_result = Hit nat | Vacant nat | Full

fun slot_scan :: "('a \<Rightarrow> bool) \<Rightarrow> 'a option list \<Rightarrow> nat \<Rightarrow> nat option \<Rightarrow> slot_result" where
  "slot_scan p [] index empty_index = (case empty_index of Some i \<Rightarrow> Vacant i | None \<Rightarrow> Full)"
| "slot_scan p (None # ss) index empty_index =
     slot_scan p ss (index + 1) (if empty_index = None then Some index else empty_index)"
| "slot_scan p (Some x # ss) index empty_index =
     (if p x then Hit index else slot_scan p ss (index + 1) empty_index)"

definition slot_find :: "('a \<Rightarrow> bool) \<Rightarrow> 'a option list \<Rightarrow> 'a option" where
  "slot_find p ss = find p (flatten ss)"

definition slot_put :: "('a \<Rightarrow> bool) \<Rightarrow> 'a \<Rightarrow> 'a option list \<Rightarrow> 'a option list aml" where
  "slot_put p x ss =
     (case slot_scan p ss 0 None of
        Hit i \<Rightarrow> Ok (ss[i := Some x])
      | Vacant i \<Rightarrow> Ok (ss[i := Some x])
      | Full \<Rightarrow> Err (Fail overflow))"

section \<open>The overlay\<close>

record AmlRuntimeIntegerSlot =
  int_node :: AmlNamespaceNodeId
  int_value :: "64 word"

definition AML_MAX_PACKAGE_ELEMENTS :: usize where
  "AML_MAX_PACKAGE_ELEMENTS = 16"

definition AML_MAX_BUFFER_BYTES :: usize where
  "AML_MAX_BUFFER_BYTES = 64"

datatype AmlRuntimeBufferHandle = AmlRuntimeBufferHandle (buffer_handle: "16 word")
datatype AmlRuntimePackageHandle = AmlRuntimePackageHandle (package_handle: "16 word")

datatype AmlRuntimeAggregateValue =
    AggNone
  | AggInteger "64 word"
  | AggBuffer AmlRuntimeBufferHandle

record AmlRuntimePackageSlot =
  pkg_handle :: AmlRuntimePackageHandle
  pkg_len :: u8
  pkg_elements :: "AmlRuntimeAggregateValue list"

record AmlRuntimeBufferSlot =
  buf_handle :: AmlRuntimeBufferHandle
  buf_len :: u8
  buf_bytes :: bytes

record AmlRuntimeMutexSlot =
  mtx_node :: AmlNamespaceNodeId
  mtx_held :: bool

record AmlRuntimeState =
  integers :: "AmlRuntimeIntegerSlot option list"
  packages :: "AmlRuntimePackageSlot option list"
  buffers :: "AmlRuntimeBufferSlot option list"
  mutexes :: "AmlRuntimeMutexSlot option list"

definition state_new :: "AmlRuntimeIntegerSlot option list \<Rightarrow> AmlRuntimeState" where
  "state_new ints = \<lparr>integers = ints, packages = [], buffers = [], mutexes = []\<rparr>"

definition with_packages :: "AmlRuntimePackageSlot option list \<Rightarrow> AmlRuntimeState \<Rightarrow> AmlRuntimeState" where
  "with_packages ps st = st\<lparr>packages := ps\<rparr>"

definition with_buffers :: "AmlRuntimeBufferSlot option list \<Rightarrow> AmlRuntimeState \<Rightarrow> AmlRuntimeState" where
  "with_buffers bs st = st\<lparr>buffers := bs\<rparr>"

definition with_mutexes :: "AmlRuntimeMutexSlot option list \<Rightarrow> AmlRuntimeState \<Rightarrow> AmlRuntimeState" where
  "with_mutexes ms st = st\<lparr>mutexes := ms\<rparr>"

subsection \<open>Integers\<close>

definition read_integer :: "AmlRuntimeState \<Rightarrow> AmlNamespaceNodeId \<Rightarrow> 64 word option" where
  "read_integer st node = map_option int_value (slot_find (\<lambda>s. int_node s = node) (integers st))"

definition write_integer :: "AmlNamespaceNodeId \<Rightarrow> 64 word \<Rightarrow> AmlRuntimeState \<Rightarrow> AmlRuntimeState aml" where
  "write_integer node v st =
     bind_result (slot_put (\<lambda>s. int_node s = node) \<lparr>int_node = node, int_value = v\<rparr> (integers st))
       (\<lambda>ss. Ok (st\<lparr>integers := ss\<rparr>))"

subsection \<open>Packages and buffers\<close>

definition package_slot :: "AmlRuntimeState \<Rightarrow> AmlRuntimePackageHandle \<Rightarrow> AmlRuntimePackageSlot option" where
  "package_slot st h = Option.bind (slice_get (packages st) (unat (package_handle h))) (\<lambda>s. s)"

definition buffer_slot :: "AmlRuntimeState \<Rightarrow> AmlRuntimeBufferHandle \<Rightarrow> AmlRuntimeBufferSlot option" where
  "buffer_slot st h = Option.bind (slice_get (buffers st) (unat (buffer_handle h))) (\<lambda>s. s)"

definition create_package :: "u8 \<Rightarrow> AmlRuntimeState \<Rightarrow> (AmlRuntimePackageHandle \<times> AmlRuntimeState) aml" where
  "create_package len st =
     (if AML_MAX_PACKAGE_ELEMENTS < unat len then Err (Fail overflow)
      else (case position (\<lambda>s. s = None) (packages st) of
              None \<Rightarrow> Err (Fail overflow)
            | Some index \<Rightarrow>
                if 65535 < index then Err (Fail overflow)
                else let h = AmlRuntimePackageHandle (of_nat index) in
                  Ok (h, st\<lparr>packages := (packages st)[index := Some \<lparr>pkg_handle = h, pkg_len = len,
                            pkg_elements = replicate AML_MAX_PACKAGE_ELEMENTS AggNone\<rparr>]\<rparr>)))"

definition create_buffer :: "u8 \<Rightarrow> AmlRuntimeState \<Rightarrow> (AmlRuntimeBufferHandle \<times> AmlRuntimeState) aml" where
  "create_buffer len st =
     (if AML_MAX_BUFFER_BYTES < unat len then Err (Fail overflow)
      else (case position (\<lambda>s. s = None) (buffers st) of
              None \<Rightarrow> Err (Fail overflow)
            | Some index \<Rightarrow>
                if 65535 < index then Err (Fail overflow)
                else let h = AmlRuntimeBufferHandle (of_nat index) in
                  Ok (h, st\<lparr>buffers := (buffers st)[index := Some \<lparr>buf_handle = h, buf_len = len,
                            buf_bytes = replicate AML_MAX_BUFFER_BYTES 0\<rparr>]\<rparr>)))"

definition read_package_len :: "AmlRuntimeState \<Rightarrow> AmlRuntimePackageHandle \<Rightarrow> u8 option" where
  "read_package_len st h = map_option pkg_len (package_slot st h)"

text \<open>
  \<open>slot.elements[index]\<close> and \<open>slot.bytes[index]\<close> are in range: \<open>len\<close> is at most the array's length,
  and \<open>index\<close> is below \<open>len\<close>.
\<close>

definition read_package_value ::
  "AmlRuntimeState \<Rightarrow> AmlRuntimePackageHandle \<Rightarrow> u8 \<Rightarrow> AmlRuntimeAggregateValue option" where
  "read_package_value st h index =
     Option.bind (package_slot st h) (\<lambda>slot.
       if pkg_len slot \<le> index then None else Some (pkg_elements slot ! unat index))"

definition read_package_integer :: "AmlRuntimeState \<Rightarrow> AmlRuntimePackageHandle \<Rightarrow> u8 \<Rightarrow> 64 word option" where
  "read_package_integer st h index =
     Option.bind (package_slot st h) (\<lambda>slot.
       if pkg_len slot \<le> index then None
       else (case pkg_elements slot ! unat index of AggInteger v \<Rightarrow> Some v | _ \<Rightarrow> None))"

definition write_package_value ::
  "AmlRuntimePackageHandle \<Rightarrow> u8 \<Rightarrow> AmlRuntimeAggregateValue \<Rightarrow> AmlRuntimeState \<Rightarrow> AmlRuntimeState aml" where
  "write_package_value h index v st =
     bind_result (or_fail invalid_state (package_slot st h)) (\<lambda>slot.
       if pkg_len slot \<le> index then Err (Fail invalid_state)
       else Ok (st\<lparr>packages := (packages st)[unat (package_handle h) :=
              Some (slot\<lparr>pkg_elements := (pkg_elements slot)[unat index := v]\<rparr>)]\<rparr>))"

definition write_package_integer ::
  "AmlRuntimePackageHandle \<Rightarrow> u8 \<Rightarrow> 64 word \<Rightarrow> AmlRuntimeState \<Rightarrow> AmlRuntimeState aml" where
  "write_package_integer h index v st = write_package_value h index (AggInteger v) st"

definition read_buffer_len :: "AmlRuntimeState \<Rightarrow> AmlRuntimeBufferHandle \<Rightarrow> u8 option" where
  "read_buffer_len st h = map_option buf_len (buffer_slot st h)"

definition read_buffer_byte :: "AmlRuntimeState \<Rightarrow> AmlRuntimeBufferHandle \<Rightarrow> u8 \<Rightarrow> u8 option" where
  "read_buffer_byte st h index =
     Option.bind (buffer_slot st h) (\<lambda>slot.
       if buf_len slot \<le> index then None else Some (buf_bytes slot ! unat index))"

definition write_buffer_byte ::
  "AmlRuntimeBufferHandle \<Rightarrow> u8 \<Rightarrow> u8 \<Rightarrow> AmlRuntimeState \<Rightarrow> AmlRuntimeState aml" where
  "write_buffer_byte h index v st =
     bind_result (or_fail invalid_state (buffer_slot st h)) (\<lambda>slot.
       if buf_len slot \<le> index then Err (Fail invalid_state)
       else Ok (st\<lparr>buffers := (buffers st)[unat (buffer_handle h) :=
              Some (slot\<lparr>buf_bytes := (buf_bytes slot)[unat index := v]\<rparr>)]\<rparr>))"

definition copy_bytes_into_buffer ::
  "AmlRuntimeBufferHandle \<Rightarrow> bytes \<Rightarrow> AmlRuntimeState \<Rightarrow> AmlRuntimeState aml" where
  "copy_bytes_into_buffer h src st =
     bind_result (or_fail invalid_state (buffer_slot st h)) (\<lambda>slot.
       let copy_len = min (unat (buf_len slot)) (length src) in
       Ok (st\<lparr>buffers := (buffers st)[unat (buffer_handle h) :=
              Some (slot\<lparr>buf_bytes := take copy_len src
                         @ drop copy_len (replicate AML_MAX_BUFFER_BYTES 0)\<rparr>)]\<rparr>))"

subsection \<open>Mutexes\<close>

definition try_acquire_mutex :: "AmlNamespaceNodeId \<Rightarrow> AmlRuntimeState \<Rightarrow> (bool \<times> AmlRuntimeState) aml" where
  "try_acquire_mutex node st =
     (case slot_scan (\<lambda>s. mtx_node s = node) (mutexes st) 0 None of
        Hit i \<Rightarrow>
          (case mutexes st ! i of
             Some slot \<Rightarrow>
               if mtx_held slot then Ok (False, st)
               else Ok (True, st\<lparr>mutexes := (mutexes st)[i := Some \<lparr>mtx_node = node, mtx_held = True\<rparr>]\<rparr>)
           | None \<Rightarrow> Err Panic)
      | Vacant i \<Rightarrow> Ok (True, st\<lparr>mutexes := (mutexes st)[i := Some \<lparr>mtx_node = node, mtx_held = True\<rparr>]\<rparr>)
      | Full \<Rightarrow> Err (Fail overflow))"

definition release_mutex :: "AmlNamespaceNodeId \<Rightarrow> AmlRuntimeState \<Rightarrow> AmlRuntimeState aml" where
  "release_mutex node st =
     (case position (\<lambda>s. case s of Some m \<Rightarrow> mtx_node m = node | None \<Rightarrow> False) (mutexes st) of
        None \<Rightarrow> Err (Fail invalid_state)
      | Some i \<Rightarrow>
          (case mutexes st ! i of
             Some slot \<Rightarrow>
               if \<not> mtx_held slot then Err (Fail invalid_state)
               else Ok (st\<lparr>mutexes := (mutexes st)[i := Some \<lparr>mtx_node = node, mtx_held = False\<rparr>]\<rparr>)
           | None \<Rightarrow> Err Panic))"

end
