(* ===== verification/Aml_Field.thy ===== *)
theory Aml_Field
  imports Aml_State
begin

text \<open>
  Operation regions and field units: the host interface (\<open>aml/host.rs\<close>) and the bit access of
  \<open>aml/eval.rs\<close> (\<open>read_field_bits\<close>, \<open>write_field_bits\<close> and what they call). A field is a range of bits
  of a region; it is read and written a byte at a time through the host.

  The host is code outside this development: a record of functions over a state of its own, each
  returning a value or an \<open>AmlError\<close>. An operation that can stop and changes a state \<open>'s\<close> has type
  \<open>('a, 's) run\<close>; the state reached is kept when it stops, because a host is not rolled back.

  Bit and byte offsets are \<open>u64\<close> and come from \<open>u32\<close> descriptors, so they do not wrap. An address is a
  64-bit word and wraps, and a shift takes its amount modulo 64, as in the release profile.
\<close>

section \<open>Computations with a state\<close>

type_synonym ('a, 's) run = "'s \<Rightarrow> 'a aml \<times> 's"

definition rret :: "'a \<Rightarrow> ('a, 's) run" where
  "rret x = (\<lambda>s. (Ok x, s))"

definition rlift :: "'a aml \<Rightarrow> ('a, 's) run" where
  "rlift r = (\<lambda>s. (r, s))"

definition rfail :: "AmlError \<Rightarrow> ('a, 's) run" where
  "rfail e = (\<lambda>s. (Err (Fail e), s))"

definition rbind :: "('a, 's) run \<Rightarrow> ('a \<Rightarrow> ('b, 's) run) \<Rightarrow> ('b, 's) run" where
  "rbind m f = (\<lambda>s. case m s of (Ok x, s') \<Rightarrow> f x s' | (Err e, s') \<Rightarrow> (Err e, s'))"

section \<open>The host\<close>

datatype AmlAccessWidth = AccessBits8 | AccessBits16 | AccessBits32 | AccessBits64

type_synonym ('a, 'h) host_call = "'h \<Rightarrow> ('a, AmlError) result \<times> 'h"

record 'h AmlRegionAccessHost =
  read_system_memory :: "64 word \<Rightarrow> AmlAccessWidth \<Rightarrow> (64 word, 'h) host_call"
  write_system_memory :: "64 word \<Rightarrow> AmlAccessWidth \<Rightarrow> 64 word \<Rightarrow> (unit, 'h) host_call"
  read_system_io :: "64 word \<Rightarrow> AmlAccessWidth \<Rightarrow> (64 word, 'h) host_call"
  write_system_io :: "64 word \<Rightarrow> AmlAccessWidth \<Rightarrow> 64 word \<Rightarrow> (unit, 'h) host_call"
  read_pci_config :: "64 word \<Rightarrow> AmlAccessWidth \<Rightarrow> (64 word, 'h) host_call"
  write_pci_config :: "64 word \<Rightarrow> AmlAccessWidth \<Rightarrow> 64 word \<Rightarrow> (unit, 'h) host_call"
  read_embedded_controller :: "u8 \<Rightarrow> (u8, 'h) host_call"
  write_embedded_controller :: "u8 \<Rightarrow> u8 \<Rightarrow> (unit, 'h) host_call"
  stall_us :: "u32 \<Rightarrow> (unit, 'h) host_call"
  sleep_ms :: "u32 \<Rightarrow> (unit, 'h) host_call"
  notify :: "AmlNamespaceNodeId \<Rightarrow> u8 \<Rightarrow> (unit, 'h) host_call"

definition host_op :: "('a, 'h) host_call \<Rightarrow> ('a, 'h) run" where
  "host_op f = (\<lambda>s. let (r, s') = f s in (map_err Fail r, s'))"

section \<open>Region bytes\<close>

definition ensure_region_byte_range :: "AmlOpRegionDescriptor \<Rightarrow> nat \<Rightarrow> nat \<Rightarrow> unit aml" where
  "ensure_region_byte_range region first_byte last_byte =
     (case region_length region of
        None \<Rightarrow> Ok ()
      | Some len \<Rightarrow>
          bind_result (or_fail overflow (checked_add last_byte 1)) (\<lambda>required.
            if unat len < required \<or> unat len \<le> first_byte then Err (Fail invalid_state) else Ok ()))"

definition read_region_byte ::
  "'h AmlRegionAccessHost \<Rightarrow> AmlOpRegionDescriptor \<Rightarrow> nat \<Rightarrow> (u8, 'h) run" where
  "read_region_byte h region byte_offset =
     rbind (rlift (or_fail unsupported (region_offset region))) (\<lambda>base.
       let address = base + of_nat byte_offset in
       (case region_space region of
          SystemMemory \<Rightarrow> rbind (host_op (read_system_memory h address AccessBits8)) (\<lambda>v. rret (ucast v))
        | SystemIo \<Rightarrow> rbind (host_op (read_system_io h address AccessBits8)) (\<lambda>v. rret (ucast v))
        | PciConfig \<Rightarrow> rbind (host_op (read_pci_config h address AccessBits8)) (\<lambda>v. rret (ucast v))
        | EmbeddedControl \<Rightarrow>
            if 255 < address then rfail overflow else host_op (read_embedded_controller h (ucast address))
        | _ \<Rightarrow> rfail unsupported))"

definition write_region_byte ::
  "'h AmlRegionAccessHost \<Rightarrow> AmlOpRegionDescriptor \<Rightarrow> nat \<Rightarrow> u8 \<Rightarrow> (unit, 'h) run" where
  "write_region_byte h region byte_offset v =
     rbind (rlift (or_fail unsupported (region_offset region))) (\<lambda>base.
       let address = base + of_nat byte_offset in
       (case region_space region of
          SystemMemory \<Rightarrow> host_op (write_system_memory h address AccessBits8 (ucast v))
        | SystemIo \<Rightarrow> host_op (write_system_io h address AccessBits8 (ucast v))
        | PciConfig \<Rightarrow> host_op (write_pci_config h address AccessBits8 (ucast v))
        | EmbeddedControl \<Rightarrow>
            if 255 < address then rfail overflow else host_op (write_embedded_controller h (ucast address) v)
        | _ \<Rightarrow> rfail unsupported))"

section \<open>Field bits\<close>

definition width_mask :: "u32 \<Rightarrow> 64 word" where
  "width_mask w = (if 64 \<le> w then - 1 else push_bit (unat w) 1 - 1)"

definition byte_cover_mask :: "nat \<Rightarrow> nat \<Rightarrow> nat \<Rightarrow> u8" where
  "byte_cover_mask start_bit end_bit byte_bit_start =
     (let byte_bit_end = byte_bit_start + 8;
          covered_start = max start_bit byte_bit_start;
          covered_end = min end_bit byte_bit_end
      in if covered_end \<le> covered_start then 0
         else fold (\<lambda>b m. m OR push_bit b 1)
                [covered_start - byte_bit_start..<covered_end - byte_bit_start] 0)"

fun read_field_loop ::
  "'h AmlRegionAccessHost \<Rightarrow> AmlOpRegionDescriptor \<Rightarrow> nat \<Rightarrow> nat \<Rightarrow> nat \<Rightarrow> 64 word \<Rightarrow> (64 word, 'h) run" where
  "read_field_loop h region first_byte index 0 aggregate = rret aggregate"
| "read_field_loop h region first_byte index (Suc remaining) aggregate =
     rbind (read_region_byte h region (first_byte + index)) (\<lambda>byte.
       read_field_loop h region first_byte (index + 1) remaining
         (aggregate OR push_bit (index * 8 mod 64) (ucast byte)))"

text \<open>
  The prefix that the read and the write share: the width test, the byte range and its check. The
  byte count is \<open>last_byte - first_byte + 1\<close>, whose checked steps do not fail once the width is positive.
\<close>

definition field_range :: "AmlOpRegionDescriptor \<Rightarrow> nat \<Rightarrow> u32 \<Rightarrow> (nat \<times> nat \<times> nat) aml" where
  "field_range region start_bit width =
     (if width = 0 \<or> 64 < width then Err (Fail unsupported)
      else bind_result (or_fail overflow (checked_add start_bit (unat width))) (\<lambda>end_bit.
        let first_byte = start_bit div 8;
            last_byte = saturating_sub end_bit 1 div 8 in
        bind_result (ensure_region_byte_range region first_byte last_byte) (\<lambda>_.
        bind_result (or_fail overflow (Option.bind (checked_sub last_byte first_byte) (\<lambda>d. checked_add d 1)))
          (\<lambda>byte_count. Ok (end_bit, first_byte, byte_count)))))"

definition read_field_bits ::
  "'h AmlRegionAccessHost \<Rightarrow> AmlOpRegionDescriptor \<Rightarrow> nat \<Rightarrow> u32 \<Rightarrow> (64 word, 'h) run" where
  "read_field_bits h region start_bit width =
     rbind (rlift (field_range region start_bit width)) (\<lambda>(end_bit, first_byte, byte_count).
     rbind (read_field_loop h region first_byte 0 byte_count 0) (\<lambda>aggregate.
       rret (drop_bit (start_bit mod 8) aggregate AND width_mask width)))"

definition preserve_base ::
  "'h AmlRegionAccessHost \<Rightarrow> AmlOpRegionDescriptor \<Rightarrow> AmlFieldUpdateKind \<Rightarrow> nat \<Rightarrow> (u8, 'h) run" where
  "preserve_base h region update byte_offset =
     (case update of
        Preserve \<Rightarrow> read_region_byte h region byte_offset
      | WriteAsOnes \<Rightarrow> rret (- 1)
      | WriteAsZeros \<Rightarrow> rret 0)"

fun write_field_loop ::
  "'h AmlRegionAccessHost \<Rightarrow> AmlOpRegionDescriptor \<Rightarrow> nat \<Rightarrow> nat \<Rightarrow> AmlFieldUpdateKind \<Rightarrow> 64 word
     \<Rightarrow> nat \<Rightarrow> nat \<Rightarrow> nat \<Rightarrow> (unit, 'h) run" where
  "write_field_loop h region start_bit end_bit update shifted first_byte index 0 = rret ()"
| "write_field_loop h region start_bit end_bit update shifted first_byte index (Suc remaining) =
     (let byte_bit_start = (first_byte + index) * 8;
          m = byte_cover_mask start_bit end_bit byte_bit_start in
      rbind
        (if m \<noteq> 0 then
           rbind (preserve_base h region update (first_byte + index)) (\<lambda>base.
             let payload_bits = ucast (drop_bit (index * 8 mod 64) shifted AND 0xff);
                 merged = (base AND NOT m) OR (payload_bits AND m) in
             write_region_byte h region (first_byte + index) merged)
         else rret ())
        (\<lambda>_. write_field_loop h region start_bit end_bit update shifted first_byte (index + 1) remaining))"

definition write_field_bits ::
  "'h AmlRegionAccessHost \<Rightarrow> AmlOpRegionDescriptor \<Rightarrow> nat \<Rightarrow> u32 \<Rightarrow> AmlFieldUpdateKind \<Rightarrow> 64 word \<Rightarrow> (unit, 'h) run" where
  "write_field_bits h region start_bit width update v =
     rbind (rlift (field_range region start_bit width)) (\<lambda>(end_bit, first_byte, byte_count).
       let masked_value = v AND width_mask width;
           shifted = push_bit (start_bit mod 8) masked_value in
       write_field_loop h region start_bit end_bit update shifted first_byte 0 byte_count)"

text \<open>Fields of the namespace name their region by node id; a field declared by a running method holds it.\<close>

record AmlDynamicFieldBinding =
  dyn_region :: AmlOpRegionDescriptor
  dyn_bit_offset :: u32
  dyn_bit_width :: u32
  dyn_access :: AmlFieldAccessKind
  dyn_update :: AmlFieldUpdateKind

definition resolve_region :: "AmlLoadedNamespace \<Rightarrow> AmlFieldDescriptor \<Rightarrow> AmlOpRegionDescriptor aml" where
  "resolve_region ns field =
     bind_result (or_fail invalid_state (field_region field)) (\<lambda>region_id.
     bind_result (or_fail undefined_object (record_of ns region_id)) (\<lambda>region_record.
       case payload region_record of
         PayloadOpRegion region \<Rightarrow> Ok region
       | _ \<Rightarrow> Err (Fail invalid_state)))"

definition read_field_value ::
  "AmlLoadedNamespace \<Rightarrow> 'h AmlRegionAccessHost \<Rightarrow> AmlFieldDescriptor \<Rightarrow> (64 word, 'h) run" where
  "read_field_value ns h field =
     rbind (rlift (resolve_region ns field)) (\<lambda>region.
       read_field_bits h region (unat (bit_offset field)) (bit_width field))"

definition read_dynamic_field_value ::
  "'h AmlRegionAccessHost \<Rightarrow> AmlDynamicFieldBinding \<Rightarrow> (64 word, 'h) run" where
  "read_dynamic_field_value h field =
     read_field_bits h (dyn_region field) (unat (dyn_bit_offset field)) (dyn_bit_width field)"

definition write_field_value ::
  "AmlLoadedNamespace \<Rightarrow> 'h AmlRegionAccessHost \<Rightarrow> AmlFieldDescriptor \<Rightarrow> 64 word \<Rightarrow> (unit, 'h) run" where
  "write_field_value ns h field v =
     rbind (rlift (resolve_region ns field)) (\<lambda>region.
       write_field_bits h region (unat (bit_offset field)) (bit_width field) (field_update field) v)"

definition write_dynamic_field_value ::
  "'h AmlRegionAccessHost \<Rightarrow> AmlDynamicFieldBinding \<Rightarrow> 64 word \<Rightarrow> (unit, 'h) run" where
  "write_dynamic_field_value h field v =
     write_field_bits h (dyn_region field) (unat (dyn_bit_offset field)) (dyn_bit_width field)
       (dyn_update field) v"

end
