(* ===== verification/Aml_Eval.thy ===== *)
theory Aml_Eval
  imports Aml_Loader Aml_Field
begin

text \<open>
  The AML method evaluator (\<open>aml/eval.rs\<close> with the values of \<open>value.rs\<close>): it interprets the byte code
  of a method over a loaded namespace, reading and writing the frame of the running method, the runtime
  overlay of \<open>Aml_State\<close> and, through fields, the host.

  The state of a run is a \<open>machine\<close>: the host's state, the overlay (\<open>None\<close> when the caller passed none) and
  the frame. A namespace and a host (or none) are the fixed \<open>context\<close>. Every function of the source is one
  definition; those that recurse take the evaluator itself as an argument, a record of the four
  recursive entry points, and \<open>evaluators\<close> ties the knot with fuel, one unit per recursive call or loop
  iteration. Running out of fuel is the outcome \<open>Diverge\<close>; \<open>Aml_Eval_Fuel\<close> shows that more fuel never
  changes another outcome, so a \<open>While\<close> that does not end is \<open>Diverge\<close> for every fuel and any run that
  ends is independent of it. The phase of an invocation is passed along and never read, so it is left
  out. The native call stack is unbounded.
\<close>

section \<open>Values (value.rs)\<close>

datatype AmlValue =
    VInteger "64 word"
  | VString bytes
  | VStaticString AmlCodeLocation
  | VBuffer bytes
  | VBufferHandle AmlRuntimeBufferHandle
  | VPackage "AmlValue list"
  | VStaticPackage AmlCodeLocation
  | VPackageHandle AmlRuntimePackageHandle
  | VDebugObject
  | VNone

definition integer :: "64 word \<Rightarrow> AmlIntegerWidth \<Rightarrow> AmlValue" where
  "integer v w = VInteger (case w of Bits32 \<Rightarrow> ucast (ucast v :: u32) | Bits64 \<Rightarrow> v)"

definition as_integer :: "AmlValue \<Rightarrow> 64 word aml" where
  "as_integer v = (case v of VInteger i \<Rightarrow> Ok i | _ \<Rightarrow> Err (Fail unsupported))"

definition as_package_handle :: "AmlValue \<Rightarrow> AmlRuntimePackageHandle aml" where
  "as_package_handle v = (case v of VPackageHandle h \<Rightarrow> Ok h | _ \<Rightarrow> Err (Fail unsupported))"

definition as_buffer_handle :: "AmlValue \<Rightarrow> AmlRuntimeBufferHandle aml" where
  "as_buffer_handle v = (case v of VBufferHandle h \<Rightarrow> Ok h | _ \<Rightarrow> Err (Fail unsupported))"

definition as_logic :: "AmlValue \<Rightarrow> bool" where
  "as_logic v = (case v of
      VInteger i \<Rightarrow> i \<noteq> 0
    | VNone \<Rightarrow> False
    | VDebugObject \<Rightarrow> True
    | VString s \<Rightarrow> s \<noteq> []
    | VStaticString _ \<Rightarrow> True
    | VBuffer b \<Rightarrow> b \<noteq> []
    | VBufferHandle _ \<Rightarrow> True
    | VPackage p \<Rightarrow> p \<noteq> []
    | VStaticPackage _ \<Rightarrow> True
    | VPackageHandle _ \<Rightarrow> True)"

text \<open>\<open>core::str::from_utf8\<close>: well-formed UTF-8, without overlong forms and surrogates.\<close>

definition utf8_cont :: "u8 \<Rightarrow> bool" where
  "utf8_cont b \<longleftrightarrow> 0x80 \<le> b \<and> b \<le> 0xbf"

fun utf8_valid :: "bytes \<Rightarrow> bool" where
  "utf8_valid [] = True"
| "utf8_valid (a # bs) =
     (if a < 0x80 then utf8_valid bs
      else if 0xc2 \<le> a \<and> a \<le> 0xdf then
        (case bs of b # rest \<Rightarrow> utf8_cont b \<and> utf8_valid rest | _ \<Rightarrow> False)
      else if 0xe0 \<le> a \<and> a \<le> 0xef then
        (case bs of b # c # rest \<Rightarrow>
           utf8_cont b \<and> (a = 0xe0 \<longrightarrow> 0xa0 \<le> b) \<and> (a = 0xed \<longrightarrow> b \<le> 0x9f) \<and> utf8_cont c \<and> utf8_valid rest
         | _ \<Rightarrow> False)
      else if 0xf0 \<le> a \<and> a \<le> 0xf4 then
        (case bs of b # c # d # rest \<Rightarrow>
           utf8_cont b \<and> (a = 0xf0 \<longrightarrow> 0x90 \<le> b) \<and> (a = 0xf4 \<longrightarrow> b \<le> 0x8f) \<and> utf8_cont c \<and> utf8_cont d
           \<and> utf8_valid rest
         | _ \<Rightarrow> False)
      else False)"

section \<open>The frame of a method\<close>

datatype AmlControl = Continue | Blocked | Break | Return AmlValue

datatype AmlNamedBinding =
    BoundValue AmlValue
  | BoundRegion AmlOpRegionDescriptor
  | BoundField AmlDynamicFieldBinding

record AmlNamedValueBinding =
  bound_name :: AmlNameSeg
  binding :: AmlNamedBinding

record AmlEvalFrame =
  frame_width :: AmlIntegerWidth
  current_scope_path :: AmlResolvedNamePath
  args :: "AmlValue option list"
  locals :: "AmlValue option list"
  named_values :: "AmlNamedValueBinding option list"
  recursion_depth :: nat

definition frame_new ::
  "AmlIntegerWidth \<Rightarrow> AmlResolvedNamePath \<Rightarrow> AmlValue list \<Rightarrow> nat \<Rightarrow> AmlEvalFrame aml" where
  "frame_new w scope vs depth =
     (if 7 < length vs then Err (Fail unsupported)
      else Ok \<lparr>frame_width = w, current_scope_path = scope,
               args = map Some vs @ replicate (7 - length vs) None,
               locals = replicate 8 None, named_values = replicate 8 None, recursion_depth = depth\<rparr>)"

text \<open>\<open>bind_named_value\<close> is \<open>bind_named_binding\<close> with \<open>Value\<close>, written out a second time in the source.\<close>

definition bind_named_binding :: "AmlNameSeg \<Rightarrow> AmlNamedBinding \<Rightarrow> AmlEvalFrame \<Rightarrow> AmlEvalFrame aml" where
  "bind_named_binding name b fr =
     bind_result (slot_put (\<lambda>x. bound_name x = name) \<lparr>bound_name = name, binding = b\<rparr> (named_values fr))
       (\<lambda>ss. Ok (fr\<lparr>named_values := ss\<rparr>))"

definition bind_named_value :: "AmlNameSeg \<Rightarrow> AmlValue \<Rightarrow> AmlEvalFrame \<Rightarrow> AmlEvalFrame aml" where
  "bind_named_value name v fr = bind_named_binding name (BoundValue v) fr"

definition bind_named_region :: "AmlNameSeg \<Rightarrow> AmlOpRegionDescriptor \<Rightarrow> AmlEvalFrame \<Rightarrow> AmlEvalFrame aml" where
  "bind_named_region name region fr = bind_named_binding name (BoundRegion region) fr"

definition bind_named_field :: "AmlNameSeg \<Rightarrow> AmlDynamicFieldBinding \<Rightarrow> AmlEvalFrame \<Rightarrow> AmlEvalFrame aml" where
  "bind_named_field name field fr = bind_named_binding name (BoundField field) fr"

definition find_binding :: "AmlEvalFrame \<Rightarrow> AmlNameSeg \<Rightarrow> AmlNamedBinding option" where
  "find_binding fr name = map_option binding (slot_find (\<lambda>x. bound_name x = name) (named_values fr))"

definition named_value :: "AmlEvalFrame \<Rightarrow> AmlNameSeg \<Rightarrow> AmlValue option" where
  "named_value fr name = (case find_binding fr name of Some (BoundValue v) \<Rightarrow> Some v | _ \<Rightarrow> None)"

definition named_region :: "AmlEvalFrame \<Rightarrow> AmlNameSeg \<Rightarrow> AmlOpRegionDescriptor option" where
  "named_region fr name = (case find_binding fr name of Some (BoundRegion r) \<Rightarrow> Some r | _ \<Rightarrow> None)"

definition named_field :: "AmlEvalFrame \<Rightarrow> AmlNameSeg \<Rightarrow> AmlDynamicFieldBinding option" where
  "named_field fr name = (case find_binding fr name of Some (BoundField f) \<Rightarrow> Some f | _ \<Rightarrow> None)"

definition write_named_value :: "AmlNameSeg \<Rightarrow> AmlValue \<Rightarrow> AmlEvalFrame \<Rightarrow> AmlEvalFrame option" where
  "write_named_value name v fr =
     (case position (\<lambda>s. case s of
          Some x \<Rightarrow> bound_name x = name \<and> (case binding x of BoundValue _ \<Rightarrow> True | _ \<Rightarrow> False)
        | None \<Rightarrow> False) (named_values fr) of
        Some i \<Rightarrow> Some (fr\<lparr>named_values := (named_values fr)[i := Some \<lparr>bound_name = name, binding = BoundValue v\<rparr>]\<rparr>)
      | None \<Rightarrow> None)"

definition local_single_segment_if_present :: "AmlEncodedNameString \<Rightarrow> AmlNameSeg option aml" where
  "local_single_segment_if_present n =
     (if is_null n \<or> anchor n \<noteq> Local \<or> parent_prefixes n \<noteq> 0 \<or> name_segment_count n \<noteq> 1 then Ok None
      else name_segment n 0)"

definition local_single_segment :: "AmlEncodedNameString \<Rightarrow> AmlNameSeg aml" where
  "local_single_segment n = bind_result (local_single_segment_if_present n) (or_fail unsupported)"

definition map_dynamic_address_space :: "u8 \<Rightarrow> AmlAddressSpaceId" where
  "map_dynamic_address_space v =
     (if v = 0x00 then SystemMemory else if v = 0x01 then SystemIo else if v = 0x02 then PciConfig
      else if v = 0x03 then EmbeddedControl else if v = 0x04 then SmBus else if v = 0x05 then Cmos
      else if v = 0x06 then PciBarTarget else if v = 0x07 then Ipmi else if v = 0x08 then Gpio
      else if v = 0x09 then GenericSerialBus else if v = 0x0a then PlatformCommChannel
      else if v = 0x7f then FunctionalFixedHardware else Oem v)"

definition decode_dynamic_field_access :: "u8 \<Rightarrow> AmlFieldAccessKind" where
  "decode_dynamic_field_access flags =
     (let a = flags AND 0x0f in
      if a = 0x00 then AccessAny else if a = 0x01 then AccessByte else if a = 0x02 then AccessWord
      else if a = 0x03 then AccessDWord else if a = 0x04 then AccessQWord
      else if a = 0x05 then AccessBuffer else AccessAny)"

definition decode_dynamic_field_update :: "u8 \<Rightarrow> AmlFieldUpdateKind" where
  "decode_dynamic_field_update flags =
     (let u = drop_bit 5 flags AND 3 in
      if u = 1 then WriteAsOnes else if u = 2 then WriteAsZeros else Preserve)"

definition static_package_element_count :: "bytes \<Rightarrow> u8 aml" where
  "static_package_element_count bs =
     bind_result (object_package bs 1) (\<lambda>(pkg, object_end, object_bytes).
       or_fail truncated (slice_get object_bytes (1 + unat (encoded_bytes pkg))))"

section \<open>The machine\<close>

record 'h machine =
  host_state :: 'h
  runtime :: "AmlRuntimeState option"
  frame :: AmlEvalFrame

record 'h eval_context =
  ev_namespace :: AmlLoadedNamespace
  ev_host :: "'h AmlRegionAccessHost option"

type_synonym ('a, 'h) eval = "('a, 'h machine) run"

text \<open>
  \<open>host.ok_or_else(unsupported)?\<close>, a call on the host, the frame, and the overlay with
  \<open>state.ok_or_else(unsupported)?\<close> before its use.
\<close>

definition the_host :: "'h eval_context \<Rightarrow> ('h AmlRegionAccessHost, 'h) eval" where
  "the_host c = rlift (or_fail unsupported (ev_host c))"

definition on_host :: "('a, 'h) run \<Rightarrow> ('a, 'h) eval" where
  "on_host f = (\<lambda>m. let (r, s) = f (host_state m) in (r, m\<lparr>host_state := s\<rparr>))"

definition get_frame :: "(AmlEvalFrame, 'h) eval" where
  "get_frame = (\<lambda>m. (Ok (frame m), m))"

definition put_frame :: "AmlEvalFrame \<Rightarrow> (unit, 'h) eval" where
  "put_frame fr = (\<lambda>m. (Ok (), m\<lparr>frame := fr\<rparr>))"

definition the_runtime :: "(AmlRuntimeState, 'h) eval" where
  "the_runtime = (\<lambda>m. (or_fail unsupported (runtime m), m))"

definition put_runtime :: "AmlRuntimeState \<Rightarrow> (unit, 'h) eval" where
  "put_runtime st = (\<lambda>m. (Ok (), m\<lparr>runtime := Some st\<rparr>))"

definition on_runtime :: "(AmlRuntimeState \<Rightarrow> AmlRuntimeState aml) \<Rightarrow> (unit, 'h) eval" where
  "on_runtime f = rbind the_runtime (\<lambda>st. rbind (rlift (f st)) put_runtime)"

definition with_runtime :: "(AmlRuntimeState \<Rightarrow> ('a \<times> AmlRuntimeState) aml) \<Rightarrow> ('a, 'h) eval" where
  "with_runtime f =
     rbind the_runtime (\<lambda>st. rbind (rlift (f st)) (\<lambda>(x, st'). rbind (put_runtime st') (\<lambda>_. rret x)))"

text \<open>A method body runs in a frame of its own; the caller's frame is back afterwards.\<close>

definition in_frame :: "AmlEvalFrame \<Rightarrow> ('a, 'h) eval \<Rightarrow> ('a, 'h) eval" where
  "in_frame fr f = (\<lambda>m. let (r, m') = f (m\<lparr>frame := fr\<rparr>) in (r, m'\<lparr>frame := frame m\<rparr>))"

text \<open>The recursive entry points of the evaluator.\<close>

record 'h evaluator =
  call_term_list :: "bytes \<Rightarrow> (AmlControl, 'h) eval"
  call_term_arg :: "bytes \<Rightarrow> (AmlValue \<times> usize, 'h) eval"
  call_assign_target :: "bytes \<Rightarrow> AmlValue \<Rightarrow> (usize, 'h) eval"
  call_while :: "bytes \<Rightarrow> usize \<Rightarrow> usize \<Rightarrow> (usize \<times> AmlControl, 'h) eval"

abbreviation rest_from :: "bytes \<Rightarrow> usize \<Rightarrow> (bytes, 's) run" where
  "rest_from bs n \<equiv> rlift (slice_from bs n)"

section \<open>Aggregates\<close>

definition runtime_aggregate_value :: "AmlValue \<Rightarrow> AmlRuntimeAggregateValue aml" where
  "runtime_aggregate_value v = (case v of
      VInteger i \<Rightarrow> Ok (AggInteger i)
    | VBufferHandle h \<Rightarrow> Ok (AggBuffer h)
    | _ \<Rightarrow> Err (Fail unsupported))"

fun read_bytes_loop :: "AmlRuntimeState \<Rightarrow> AmlRuntimeBufferHandle \<Rightarrow> u8 \<Rightarrow> nat \<Rightarrow> bytes aml" where
  "read_bytes_loop st source index 0 = Ok []"
| "read_bytes_loop st source index (Suc remaining) =
     bind_result (or_fail invalid_state (read_buffer_byte st source index)) (\<lambda>b.
     bind_result (read_bytes_loop st source (index + 1) remaining) (\<lambda>bs. Ok (b # bs)))"

definition copy_value_into_buffer ::
  "AmlLoadedNamespace \<Rightarrow> AmlRuntimeBufferHandle \<Rightarrow> AmlValue \<Rightarrow> AmlRuntimeState \<Rightarrow> AmlRuntimeState aml" where
  "copy_value_into_buffer ns h v st = (case v of
      VString s \<Rightarrow> copy_bytes_into_buffer h s st
    | VStaticString location \<Rightarrow>
        bind_result (or_fail invalid_state (code_bytes ns location)) (\<lambda>bs. copy_bytes_into_buffer h bs st)
    | VBuffer b \<Rightarrow> copy_bytes_into_buffer h b st
    | VBufferHandle source \<Rightarrow>
        bind_result (or_fail invalid_state (read_buffer_len st source)) (\<lambda>len.
        bind_result (read_bytes_loop st source 0 (unat len)) (\<lambda>bs. copy_bytes_into_buffer h bs st))
    | _ \<Rightarrow> Err (Fail unsupported))"

definition value_size :: "AmlLoadedNamespace \<Rightarrow> AmlRuntimeState option \<Rightarrow> AmlValue \<Rightarrow> usize aml" where
  "value_size ns st v = (case v of
      VString s \<Rightarrow> Ok (length s)
    | VStaticString location \<Rightarrow> or_fail invalid_state (map_option length (code_bytes ns location))
    | VBuffer b \<Rightarrow> Ok (length b)
    | VBufferHandle h \<Rightarrow> or_fail unsupported (map_option unat (Option.bind st (\<lambda>st. read_buffer_len st h)))
    | VPackage p \<Rightarrow> Ok (length p)
    | VStaticPackage location \<Rightarrow>
        bind_result (or_fail invalid_state (code_bytes ns location)) (\<lambda>bs.
        bind_result (static_package_element_count bs) (\<lambda>n. Ok (unat n)))
    | VPackageHandle h \<Rightarrow> or_fail unsupported (map_option unat (Option.bind st (\<lambda>st. read_package_len st h)))
    | _ \<Rightarrow> Err (Fail unsupported))"

definition object_type_id :: "AmlValue \<Rightarrow> 64 word" where
  "object_type_id v = (case v of
      VInteger _ \<Rightarrow> 0x01
    | VString _ \<Rightarrow> 0x02
    | VStaticString _ \<Rightarrow> 0x02
    | VBuffer _ \<Rightarrow> 0x03
    | VBufferHandle _ \<Rightarrow> 0x03
    | VPackage _ \<Rightarrow> 0x04
    | VStaticPackage _ \<Rightarrow> 0x04
    | VPackageHandle _ \<Rightarrow> 0x04
    | VDebugObject \<Rightarrow> 0x10
    | VNone \<Rightarrow> 0)"

section \<open>Constants and static data\<close>

text \<open>
  The integer constants, which \<open>eval_term_arg\<close> and \<open>eval_static_name_value\<close> decode alike; \<open>None\<close>
  for any other opcode.
\<close>

definition constant_term :: "AmlIntegerWidth \<Rightarrow> bytes \<Rightarrow> u8 \<Rightarrow> (AmlValue \<times> usize) aml option" where
  "constant_term w bs opcode =
     (if opcode = 0x00 then Some (Ok (integer 0 w, 1))
      else if opcode = 0x01 then Some (Ok (integer 1 w, 1))
      else if opcode = 0xff then Some (Ok (integer (- 1) w, 1))
      else if opcode = 0x0a then
        Some (bind_result (or_fail truncated (slice_get bs 1)) (\<lambda>b. Ok (integer (ucast b) w, 2)))
      else if opcode = 0x0b then
        Some (bind_result (or_fail truncated (get_range bs 1 3)) (\<lambda>raw. Ok (integer (from_le_bytes raw) w, 3)))
      else if opcode = 0x0c then
        Some (bind_result (or_fail truncated (get_range bs 1 5)) (\<lambda>raw. Ok (integer (from_le_bytes raw) w, 5)))
      else if opcode = 0x0e then
        Some (bind_result (or_fail truncated (get_range bs 1 9)) (\<lambda>raw. Ok (integer (from_le_bytes raw) w, 9)))
      else None)"

definition eval_static_name_value ::
  "'h eval_context \<Rightarrow> 'h evaluator \<Rightarrow> AmlCodeLocation \<Rightarrow> (AmlValue \<times> usize, 'h) eval" where
  "eval_static_name_value c E location =
     rbind (rlift (or_fail invalid_state (code_bytes (ev_namespace c) location))) (\<lambda>bs.
     rbind (rlift (or_fail truncated (slice_get bs 0))) (\<lambda>opcode.
     rbind get_frame (\<lambda>fr.
       case constant_term (frame_width fr) bs opcode of
         Some r \<Rightarrow> rlift r
       | None \<Rightarrow>
           if opcode = 0x0d then
             rbind (rest_from bs 1) (\<lambda>r.
               case position (\<lambda>b. b = 0) r of
                 None \<Rightarrow> rfail truncated
               | Some len \<Rightarrow>
                   rret (VStaticString \<lparr>block_index = block_index location,
                           span = \<lparr>span_offset = span_offset (span location) + 1, span_length = of_nat len\<rparr>\<rparr>,
                         2 + len))
           else if opcode = 0x11 then
             rbind (rlift (object_package bs 1)) (\<lambda>(pkg, object_end, object_bytes).
             let size_offset = 1 + unat (encoded_bytes pkg) in
             rbind (rest_from object_bytes size_offset) (\<lambda>r.
             rbind (call_term_arg E r) (\<lambda>(len_value, len_consumed).
             rbind (rlift (as_integer len_value)) (\<lambda>len.
             let data_start = size_offset + len_consumed in
             rbind (rlift (or_fail truncated (get_range object_bytes data_start object_end))) (\<lambda>raw.
               rret (VBuffer (take (min (unat len) (length raw)) raw), object_end))))))
           else if opcode = 0x12 then
             rbind (rest_from bs 1) (\<lambda>r.
             rbind (rlift (parse_pkg_length r)) (\<lambda>pkg.
               let object_end = 1 + unat (pkg_value pkg) in
               rret (VStaticPackage \<lparr>block_index = block_index location,
                       span = \<lparr>span_offset = span_offset (span location), span_length = of_nat object_end\<rparr>\<rparr>,
                     object_end)))
           else rfail unsupported)))"

text \<open>The \<open>while current < element_count\<close> loop; \<open>object_end - cursor\<close> wraps as in the release profile.\<close>

fun static_element_loop ::
  "'h eval_context \<Rightarrow> 'h evaluator \<Rightarrow> AmlCodeLocation \<Rightarrow> usize \<Rightarrow> nat \<Rightarrow> usize \<Rightarrow> nat \<Rightarrow> nat \<Rightarrow> (AmlValue, 'h) eval" where
  "static_element_loop c E location object_end index cursor current 0 = rfail truncated"
| "static_element_loop c E location object_end index cursor current (Suc remaining) =
     rbind (eval_static_name_value c E
              \<lparr>block_index = block_index location,
               span = \<lparr>span_offset = span_offset (span location) + of_nat cursor,
                       span_length = of_int (int object_end - int cursor)\<rparr>\<rparr>) (\<lambda>(v, consumed).
       if current = index then rret v
       else static_element_loop c E location object_end index (cursor + consumed) (current + 1) remaining)"

definition static_package_element_value ::
  "'h eval_context \<Rightarrow> 'h evaluator \<Rightarrow> AmlCodeLocation \<Rightarrow> u8 \<Rightarrow> (AmlValue, 'h) eval" where
  "static_package_element_value c E location index =
     rbind (rlift (or_fail invalid_state (code_bytes (ev_namespace c) location))) (\<lambda>bs.
     rbind (rlift (object_package bs 1)) (\<lambda>(pkg, object_end, object_bytes).
     let count_offset = 1 + unat (encoded_bytes pkg) in
     rbind (rlift (or_fail truncated (slice_get object_bytes count_offset))) (\<lambda>element_count.
       if element_count \<le> index then rfail invalid_state
       else static_element_loop c E location object_end (unat index) (count_offset + 1) 0 (unat element_count))))"

definition index_value :: "'h eval_context \<Rightarrow> 'h evaluator \<Rightarrow> AmlValue \<Rightarrow> 64 word \<Rightarrow> (AmlValue, 'h) eval" where
  "index_value c E base index64 =
     (if 255 < index64 then rfail overflow
      else let index = ucast index64 :: u8 in
        (case base of
           VPackageHandle h \<Rightarrow>
             rbind the_runtime (\<lambda>st.
             rbind (rlift (or_fail invalid_state (read_package_value st h index))) (\<lambda>v.
             rbind get_frame (\<lambda>fr.
               case v of
                 AggInteger i \<Rightarrow> rret (integer i (frame_width fr))
               | AggBuffer b \<Rightarrow> rret (VBufferHandle b)
               | AggNone \<Rightarrow> rret VNone)))
         | VStaticPackage location \<Rightarrow> static_package_element_value c E location index
         | VBufferHandle h \<Rightarrow>
             rbind the_runtime (\<lambda>st.
             rbind (rlift (or_fail invalid_state (read_buffer_byte st h index))) (\<lambda>b.
             rbind get_frame (\<lambda>fr. rret (integer (ucast b) (frame_width fr)))))
         | VBuffer bs \<Rightarrow>
             rbind (rlift (or_fail invalid_state (slice_get bs (unat index)))) (\<lambda>b.
             rbind get_frame (\<lambda>fr. rret (integer (ucast b) (frame_width fr))))
         | _ \<Rightarrow> rfail unsupported))"

section \<open>Method calls\<close>

definition MAX_RECURSION_DEPTH :: nat where
  "MAX_RECURSION_DEPTH = 64"

definition namespace_width :: "'h eval_context \<Rightarrow> AmlIntegerWidth" where
  "namespace_width c = from_definition_block_revision (revision (header (dsdt (blocks (ev_namespace c)))))"

definition method_scope :: "AmlNamespaceLoadRecord \<Rightarrow> AmlResolvedNamePath" where
  "method_scope r = (case path_parent (node_path (descriptor r)) of Some p \<Rightarrow> p | None \<Rightarrow> root_path)"

definition invoke_method_descriptor ::
  "'h eval_context \<Rightarrow> 'h evaluator \<Rightarrow> AmlMethodDescriptor \<Rightarrow> AmlValue list \<Rightarrow> nat \<Rightarrow> (AmlValue option, 'h) eval" where
  "invoke_method_descriptor c E method vs depth =
     rbind (rlift (or_fail undefined_object (record_of (ev_namespace c) (method_node method)))) (\<lambda>r.
     rbind (rlift (or_fail invalid_state (code_bytes (ev_namespace c) (method_body method)))) (\<lambda>code.
     rbind (rlift (frame_new (namespace_width c) (method_scope r) vs depth)) (\<lambda>fr.
     rbind (in_frame fr (call_term_list E code)) (\<lambda>control.
       case control of
         Continue \<Rightarrow> rret None
       | Blocked \<Rightarrow> rfail unsupported
       | Break \<Rightarrow> rfail invalid_state
       | Return v \<Rightarrow> rret (Some v)))))"

text \<open>The argument loop: \<open>args[index]\<close> panics beyond the seventh argument.\<close>

fun eval_args_loop ::
  "'h evaluator \<Rightarrow> bytes \<Rightarrow> nat \<Rightarrow> usize \<Rightarrow> AmlValue list \<Rightarrow> (AmlValue list \<times> usize, 'h) eval" where
  "eval_args_loop E bs 0 consumed vs = rret (vs, consumed)"
| "eval_args_loop E bs (Suc remaining) consumed vs =
     rbind (rest_from bs consumed) (\<lambda>r.
     rbind (call_term_arg E r) (\<lambda>(v, arg_consumed).
       if length vs < 7 then eval_args_loop E bs remaining (consumed + arg_consumed) (vs @ [v])
       else rlift (Err Panic)))"

definition invoke_method_from_term ::
  "'h eval_context \<Rightarrow> 'h evaluator \<Rightarrow> AmlMethodDescriptor \<Rightarrow> bytes \<Rightarrow> (AmlValue \<times> usize, 'h) eval" where
  "invoke_method_from_term c E method bs =
     rbind get_frame (\<lambda>fr.
       if MAX_RECURSION_DEPTH \<le> recursion_depth fr then rfail invalid_state
       else rbind (eval_args_loop E bs (unat (arg_count method)) 0 []) (\<lambda>(vs, consumed).
            rbind (invoke_method_descriptor c E method vs (recursion_depth fr + 1)) (\<lambda>r.
              rret (case r of Some v \<Rightarrow> v | None \<Rightarrow> VNone, consumed))))"

section \<open>Names\<close>

definition eval_named_term :: "'h eval_context \<Rightarrow> 'h evaluator \<Rightarrow> bytes \<Rightarrow> (AmlValue \<times> usize, 'h) eval" where
  "eval_named_term c E bs =
     rbind (rlift (parse_encoded_name bs)) (\<lambda>n.
     rbind (rlift (local_single_segment_if_present n)) (\<lambda>name.
     rbind get_frame (\<lambda>fr.
       case Option.bind name (named_value fr) of
         Some v \<Rightarrow> rret (v, consumed_bytes n)
       | None \<Rightarrow> (case Option.bind name (named_field fr) of
           Some field \<Rightarrow>
             rbind (the_host c) (\<lambda>h.
             rbind (on_host (read_dynamic_field_value h field)) (\<lambda>v.
               rret (integer v (frame_width fr), consumed_bytes n)))
         | None \<Rightarrow>
             rbind (rlift (resolve_lookup_path (ev_namespace c) (current_scope_path fr) n)) (\<lambda>path.
             rbind (rlift (or_fail undefined_object (record_by_path (ev_namespace c) path))) (\<lambda>r.
               case payload r of
                 NameInteger v \<Rightarrow> (\<lambda>m.
                   rret (integer (case Option.bind (runtime m) (\<lambda>st. read_integer st (node_id (descriptor r))) of
                                    Some w \<Rightarrow> w | None \<Rightarrow> v) (frame_width fr), consumed_bytes n) m)
               | PayloadNone \<Rightarrow>
                   if node_kind (descriptor r) = KName then
                     rbind (rlift (or_fail invalid_state (body r))) (\<lambda>location.
                     rbind (eval_static_name_value c E location) (\<lambda>(v, _). rret (v, consumed_bytes n)))
                   else rfail unsupported
               | PayloadField field \<Rightarrow>
                   rbind (the_host c) (\<lambda>h.
                   rbind (on_host (read_field_value (ev_namespace c) h field)) (\<lambda>v.
                     rret (integer v (frame_width fr), consumed_bytes n)))
               | PayloadMethod method \<Rightarrow>
                   rbind (rest_from bs (consumed_bytes n)) (\<lambda>r.
                   rbind (invoke_method_from_term c E method r) (\<lambda>(v, args_consumed).
                     rret (v, consumed_bytes n + args_consumed)))
               | PayloadOpRegion _ \<Rightarrow> rfail unsupported))))))"

definition write_named_target ::
  "'h eval_context \<Rightarrow> AmlResolvedNamePath \<Rightarrow> AmlValue \<Rightarrow> (unit, 'h) eval" where
  "write_named_target c path v =
     rbind (rlift (or_fail undefined_object (record_by_path (ev_namespace c) path))) (\<lambda>r.
       case payload r of
         PayloadField field \<Rightarrow>
           rbind (the_host c) (\<lambda>h.
           rbind (rlift (as_integer v)) (\<lambda>i. on_host (write_field_value (ev_namespace c) h field i)))
       | NameInteger _ \<Rightarrow>
           rbind the_runtime (\<lambda>_.
           rbind (rlift (as_integer v)) (\<lambda>i. on_runtime (write_integer (node_id (descriptor r)) i)))
       | _ \<Rightarrow> rfail unsupported)"

definition resolve_super_name ::
  "'h eval_context \<Rightarrow> bytes \<Rightarrow> (AmlNamespaceNodeId option \<times> usize, 'h) eval" where
  "resolve_super_name c bs =
     rbind (rlift (or_fail truncated (slice_get bs 0))) (\<lambda>opcode.
       if 0x60 \<le> opcode \<and> opcode \<le> 0x6e then rret (None, 1)
       else if opcode = 0x5b then
         rbind (rlift (or_fail truncated (slice_get bs 1))) (\<lambda>sub.
           if sub = 0x31 then rret (None, 2) else rfail unsupported)
       else if name_lead opcode then
         rbind (rlift (parse_encoded_name bs)) (\<lambda>n.
         rbind get_frame (\<lambda>fr.
         rbind (rlift (resolve_lookup_path (ev_namespace c) (current_scope_path fr) n)) (\<lambda>path.
         rbind (rlift (or_fail undefined_object (record_by_path (ev_namespace c) path))) (\<lambda>r.
           rret (Some (node_id (descriptor r)), consumed_bytes n)))))
       else rfail unsupported)"

section \<open>Targets\<close>

definition assign_index_target ::
  "'h eval_context \<Rightarrow> 'h evaluator \<Rightarrow> bytes \<Rightarrow> AmlValue \<Rightarrow> (usize, 'h) eval" where
  "assign_index_target c E bs v =
     rbind the_runtime (\<lambda>_.
     rbind (rest_from bs 1) (\<lambda>r1.
     rbind (call_term_arg E r1) (\<lambda>(base, base_consumed).
     rbind (rest_from bs (1 + base_consumed)) (\<lambda>r2.
     rbind (call_term_arg E r2) (\<lambda>(index_value, index_consumed).
     rbind (rest_from bs (1 + base_consumed + index_consumed)) (\<lambda>r3.
     rbind (call_assign_target E r3 VNone) (\<lambda>target_consumed.
     rbind (rlift (as_integer index_value)) (\<lambda>i.
       if 255 < i then rfail overflow
       else rbind
         (case base of
            VPackageHandle h \<Rightarrow>
              rbind (rlift (runtime_aggregate_value v)) (\<lambda>a. on_runtime (write_package_value h (ucast i) a))
          | VBufferHandle h \<Rightarrow>
              rbind (rlift (as_integer v)) (\<lambda>b. on_runtime (write_buffer_byte h (ucast i) (ucast b)))
          | _ \<Rightarrow> rfail unsupported)
         (\<lambda>_. rret (1 + base_consumed + index_consumed + target_consumed))))))))))"

definition assign_named_target :: "'h eval_context \<Rightarrow> bytes \<Rightarrow> AmlValue \<Rightarrow> (usize, 'h) eval" where
  "assign_named_target c bs v =
     rbind (rlift (parse_encoded_name bs)) (\<lambda>n.
     rbind (rlift (local_single_segment_if_present n)) (\<lambda>name.
     rbind get_frame (\<lambda>fr.
       case Option.bind name (named_value fr) of
         Some (VBufferHandle h) \<Rightarrow>
           rbind (on_runtime (copy_value_into_buffer (ev_namespace c) h v)) (\<lambda>_. rret (consumed_bytes n))
       | _ \<Rightarrow> (case Option.bind name (named_field fr) of
           Some field \<Rightarrow>
             rbind (the_host c) (\<lambda>h.
             rbind (rlift (as_integer v)) (\<lambda>i.
             rbind (on_host (write_dynamic_field_value h field i)) (\<lambda>_. rret (consumed_bytes n))))
         | None \<Rightarrow> (case Option.bind name (\<lambda>x. write_named_value x v fr) of
             Some fr' \<Rightarrow> rbind (put_frame fr') (\<lambda>_. rret (consumed_bytes n))
           | None \<Rightarrow>
               rbind (rlift (resolve_lookup_path (ev_namespace c) (current_scope_path fr) n)) (\<lambda>path.
               rbind (write_named_target c path v) (\<lambda>_. rret (consumed_bytes n))))))))"

definition assign_target ::
  "'h eval_context \<Rightarrow> 'h evaluator \<Rightarrow> bytes \<Rightarrow> AmlValue \<Rightarrow> (usize, 'h) eval" where
  "assign_target c E bs v =
     rbind (rlift (or_fail truncated (slice_get bs 0))) (\<lambda>opcode.
       if opcode = 0x00 then rret 1
       else if 0x60 \<le> opcode \<and> opcode \<le> 0x67 then
         rbind get_frame (\<lambda>fr.
         rbind (put_frame (fr\<lparr>locals := (locals fr)[unat (opcode - 0x60) := Some v]\<rparr>)) (\<lambda>_. rret 1))
       else if opcode = 0x88 then assign_index_target c E bs v
       else if 0x68 \<le> opcode \<and> opcode \<le> 0x6e then
         rbind get_frame (\<lambda>fr.
         rbind (put_frame (fr\<lparr>args := (args fr)[unat (opcode - 0x68) := Some v]\<rparr>)) (\<lambda>_. rret 1))
       else if name_lead opcode then assign_named_target c bs v
       else rfail unsupported)"

definition read_target_value :: "'h eval_context \<Rightarrow> 'h evaluator \<Rightarrow> bytes \<Rightarrow> (AmlValue \<times> usize, 'h) eval" where
  "read_target_value c E bs =
     rbind (rlift (or_fail truncated (slice_get bs 0))) (\<lambda>opcode.
     rbind get_frame (\<lambda>fr.
       if 0x60 \<le> opcode \<and> opcode \<le> 0x67 then
         rbind (rlift (or_fail invalid_state (locals fr ! unat (opcode - 0x60)))) (\<lambda>v. rret (v, 1))
       else if 0x68 \<le> opcode \<and> opcode \<le> 0x6e then
         rbind (rlift (or_fail invalid_state (args fr ! unat (opcode - 0x68)))) (\<lambda>v. rret (v, 1))
       else if name_lead opcode then eval_named_term c E bs
       else rfail unsupported))"

section \<open>Operators\<close>

definition eval_update_op ::
  "'h eval_context \<Rightarrow> 'h evaluator \<Rightarrow> bytes \<Rightarrow> (64 word \<Rightarrow> AmlIntegerWidth \<Rightarrow> AmlValue) \<Rightarrow> (AmlValue \<times> usize, 'h) eval" where
  "eval_update_op c E bs op =
     rbind (rest_from bs 1) (\<lambda>r.
     rbind (read_target_value c E r) (\<lambda>(v, target_consumed).
     rbind get_frame (\<lambda>fr.
     rbind (rlift (as_integer v)) (\<lambda>i.
     let result = op i (frame_width fr) in
     rbind (call_assign_target E r result) (\<lambda>_. rret (result, 1 + target_consumed))))))"

text \<open>Two operands; \<open>k\<close> gets them with the bytes they took.\<close>

definition eval_operands ::
  "'h evaluator \<Rightarrow> bytes \<Rightarrow> (AmlValue \<Rightarrow> AmlValue \<Rightarrow> usize \<Rightarrow> ('a, 'h) eval) \<Rightarrow> ('a, 'h) eval" where
  "eval_operands E bs k =
     rbind (rest_from bs 1) (\<lambda>r1.
     rbind (call_term_arg E r1) (\<lambda>(lhs, lhs_consumed).
     rbind (rest_from bs (1 + lhs_consumed)) (\<lambda>r2.
     rbind (call_term_arg E r2) (\<lambda>(rhs, rhs_consumed).
       k lhs rhs (1 + lhs_consumed + rhs_consumed)))))"

definition eval_binary_op ::
  "'h evaluator \<Rightarrow> bytes \<Rightarrow> (64 word \<Rightarrow> 64 word \<Rightarrow> AmlIntegerWidth \<Rightarrow> AmlValue) \<Rightarrow> (AmlValue \<times> usize, 'h) eval" where
  "eval_binary_op E bs op =
     eval_operands E bs (\<lambda>lhs rhs consumed.
     rbind (rlift (as_integer lhs)) (\<lambda>a.
     rbind (rlift (as_integer rhs)) (\<lambda>b.
     rbind get_frame (\<lambda>fr.
     let result = op a b (frame_width fr) in
     rbind (rest_from bs consumed) (\<lambda>r.
     rbind (call_assign_target E r result) (\<lambda>target_consumed.
       rret (result, consumed + target_consumed)))))))"

definition eval_logic_compare ::
  "'h evaluator \<Rightarrow> bytes \<Rightarrow> (64 word \<Rightarrow> 64 word \<Rightarrow> bool) \<Rightarrow> (AmlValue \<times> usize, 'h) eval" where
  "eval_logic_compare E bs predicate =
     eval_operands E bs (\<lambda>lhs rhs consumed.
     rbind (rlift (as_integer lhs)) (\<lambda>a.
     rbind (rlift (as_integer rhs)) (\<lambda>b.
     rbind get_frame (\<lambda>fr.
       rret (integer (of_bool (predicate a b)) (frame_width fr), consumed)))))"

definition eval_divide :: "'h evaluator \<Rightarrow> bytes \<Rightarrow> (AmlValue \<times> usize, 'h) eval" where
  "eval_divide E bs =
     eval_operands E bs (\<lambda>lhs rhs consumed.
     rbind (rlift (as_integer rhs)) (\<lambda>divisor.
       if divisor = 0 then rfail invalid_state
       else
         rbind (rlift (as_integer lhs)) (\<lambda>dividend.
         rbind get_frame (\<lambda>fr.
         let remainder = integer (dividend mod divisor) (frame_width fr);
             quotient = integer (dividend div divisor) (frame_width fr) in
         rbind (rest_from bs consumed) (\<lambda>r1.
         rbind (call_assign_target E r1 remainder) (\<lambda>remainder_target_consumed.
         rbind (rest_from bs (consumed + remainder_target_consumed)) (\<lambda>r2.
         rbind (call_assign_target E r2 quotient) (\<lambda>quotient_target_consumed.
           rret (quotient, consumed + remainder_target_consumed + quotient_target_consumed)))))))))"

text \<open>One operand, turned into a value by \<open>k\<close>.\<close>

definition eval_operand ::
  "'h evaluator \<Rightarrow> bytes \<Rightarrow> (AmlValue \<Rightarrow> (AmlValue, 'h) eval) \<Rightarrow> (AmlValue \<times> usize, 'h) eval" where
  "eval_operand E bs k =
     rbind (rest_from bs 1) (\<lambda>r.
     rbind (call_term_arg E r) (\<lambda>(v, consumed).
     rbind (k v) (\<lambda>v'. rret (v', 1 + consumed))))"

definition eval_deref :: "'h evaluator \<Rightarrow> bytes \<Rightarrow> (AmlValue \<times> usize, 'h) eval" where
  "eval_deref E bs = eval_operand E bs rret"

definition eval_size_of :: "'h eval_context \<Rightarrow> 'h evaluator \<Rightarrow> bytes \<Rightarrow> (AmlValue \<times> usize, 'h) eval" where
  "eval_size_of c E bs =
     eval_operand E bs (\<lambda>v m.
       rbind (rlift (value_size (ev_namespace c) (runtime m) v)) (\<lambda>len.
       rbind get_frame (\<lambda>fr. rret (integer (of_nat len) (frame_width fr)))) m)"

definition eval_object_type :: "'h evaluator \<Rightarrow> bytes \<Rightarrow> (AmlValue \<times> usize, 'h) eval" where
  "eval_object_type E bs =
     eval_operand E bs (\<lambda>v. rbind get_frame (\<lambda>fr. rret (integer (object_type_id v) (frame_width fr))))"

definition eval_not :: "'h evaluator \<Rightarrow> bytes \<Rightarrow> (AmlValue \<times> usize, 'h) eval" where
  "eval_not E bs =
     eval_operand E bs (\<lambda>v.
       rbind (rlift (as_integer v)) (\<lambda>i. rbind get_frame (\<lambda>fr. rret (integer (NOT i) (frame_width fr)))))"

definition eval_logic_not :: "'h evaluator \<Rightarrow> bytes \<Rightarrow> (AmlValue \<times> usize, 'h) eval" where
  "eval_logic_not E bs =
     eval_operand E bs (\<lambda>v.
       rbind get_frame (\<lambda>fr. rret (integer (of_bool (\<not> as_logic v)) (frame_width fr))))"

definition eval_index :: "'h eval_context \<Rightarrow> 'h evaluator \<Rightarrow> bytes \<Rightarrow> (AmlValue \<times> usize, 'h) eval" where
  "eval_index c E bs =
     eval_operands E bs (\<lambda>base index consumed.
     rbind (rlift (as_integer index)) (\<lambda>i.
     rbind (index_value c E base i) (\<lambda>v.
     rbind (rest_from bs consumed) (\<lambda>r.
     rbind (call_assign_target E r v) (\<lambda>target_consumed.
       rret (v, consumed + target_consumed))))))"

text \<open>\<open>wrapping_shl\<close> and \<open>wrapping_shr\<close> take the amount, cut to 32 bits, modulo 64.\<close>

definition wrapping_shl :: "64 word \<Rightarrow> 64 word \<Rightarrow> 64 word" where
  "wrapping_shl a b = push_bit (unat (ucast b :: u32) mod 64) a"

definition wrapping_shr :: "64 word \<Rightarrow> 64 word \<Rightarrow> 64 word" where
  "wrapping_shr a b = drop_bit (unat (ucast b :: u32) mod 64) a"

definition binary_op :: "u8 \<Rightarrow> (64 word \<Rightarrow> 64 word \<Rightarrow> 64 word) option" where
  "binary_op opcode =
     (if opcode = 0x72 then Some (+)
      else if opcode = 0x74 then Some (-)
      else if opcode = 0x77 then Some (*)
      else if opcode = 0x79 then Some wrapping_shl
      else if opcode = 0x7a then Some wrapping_shr
      else if opcode = 0x7b then Some (AND)
      else if opcode = 0x7d then Some (OR)
      else if opcode = 0x7f then Some (XOR)
      else None)"

definition compare_op :: "u8 \<Rightarrow> (64 word \<Rightarrow> 64 word \<Rightarrow> bool) option" where
  "compare_op opcode =
     (if opcode = 0x93 then Some (=)
      else if opcode = 0x94 then Some (\<lambda>a b. b < a)
      else if opcode = 0x95 then Some (<)
      else None)"

definition eval_store :: "'h evaluator \<Rightarrow> bytes \<Rightarrow> (AmlValue \<times> usize, 'h) eval" where
  "eval_store E bs =
     rbind (rest_from bs 1) (\<lambda>r1.
     rbind (call_term_arg E r1) (\<lambda>(v, value_consumed).
     rbind (rest_from bs (1 + value_consumed)) (\<lambda>r2.
     rbind (call_assign_target E r2 v) (\<lambda>target_consumed.
       rret (v, 1 + value_consumed + target_consumed)))))"

definition eval_string :: "bytes \<Rightarrow> (AmlValue \<times> usize) aml" where
  "eval_string bs =
     bind_result (slice_from bs 1) (\<lambda>r.
       case position (\<lambda>b. b = 0) r of
         None \<Rightarrow> Err (Fail truncated)
       | Some len \<Rightarrow>
           bind_result (or_fail truncated (get_range bs 1 (1 + len))) (\<lambda>raw.
             if utf8_valid raw then Ok (VString raw, 2 + len) else Err (Fail invalid_bytecode)))"

definition eval_term_arg :: "'h eval_context \<Rightarrow> 'h evaluator \<Rightarrow> bytes \<Rightarrow> (AmlValue \<times> usize, 'h) eval" where
  "eval_term_arg c E bs =
     rbind (rlift (or_fail truncated (slice_get bs 0))) (\<lambda>opcode.
     rbind get_frame (\<lambda>fr.
       case constant_term (frame_width fr) bs opcode of
         Some r \<Rightarrow> rlift r
       | None \<Rightarrow> (case binary_op opcode of
           Some f \<Rightarrow> eval_binary_op E bs (\<lambda>a b. integer (f a b))
         | None \<Rightarrow> (case compare_op opcode of
             Some f \<Rightarrow> eval_logic_compare E bs f
           | None \<Rightarrow>
               if opcode = 0x0d then rlift (eval_string bs)
               else if 0x60 \<le> opcode \<and> opcode \<le> 0x67 then
                 rbind (rlift (or_fail invalid_state (locals fr ! unat (opcode - 0x60)))) (\<lambda>v. rret (v, 1))
               else if 0x68 \<le> opcode \<and> opcode \<le> 0x6e then
                 rbind (rlift (or_fail invalid_state (args fr ! unat (opcode - 0x68)))) (\<lambda>v. rret (v, 1))
               else if opcode = 0x70 then eval_store E bs
               else if opcode = 0x78 then eval_divide E bs
               else if opcode = 0x75 then eval_update_op c E bs (\<lambda>v. integer (v + 1))
               else if opcode = 0x76 then eval_update_op c E bs (\<lambda>v. integer (v - 1))
               else if opcode = 0x80 then eval_not E bs
               else if opcode = 0x83 then eval_deref E bs
               else if opcode = 0x87 then eval_size_of c E bs
               else if opcode = 0x88 then eval_index c E bs
               else if opcode = 0x8e then eval_object_type E bs
               else if opcode = 0x92 then eval_logic_not E bs
               else if name_lead opcode then eval_named_term c E bs
               else rfail unsupported))))"

section \<open>Initialisers\<close>

text \<open>The element loop stops early when the object ends.\<close>

fun package_init_loop ::
  "'h evaluator \<Rightarrow> AmlRuntimePackageHandle \<Rightarrow> bytes \<Rightarrow> usize \<Rightarrow> usize \<Rightarrow> u8 \<Rightarrow> nat \<Rightarrow> (unit, 'h) eval" where
  "package_init_loop E h object_bytes object_end cursor index 0 = rret ()"
| "package_init_loop E h object_bytes object_end cursor index (Suc remaining) =
     (if object_end \<le> cursor then rret ()
      else
        rbind (rest_from object_bytes cursor) (\<lambda>r.
        rbind (call_term_arg E r) (\<lambda>(v, consumed).
        rbind (rlift (runtime_aggregate_value v)) (\<lambda>a.
        rbind (on_runtime (write_package_value h index a)) (\<lambda>_.
          package_init_loop E h object_bytes object_end (cursor + consumed) (index + 1) remaining)))))"

definition eval_package_initializer :: "'h evaluator \<Rightarrow> bytes \<Rightarrow> (AmlValue \<times> usize, 'h) eval" where
  "eval_package_initializer E bs =
     rbind the_runtime (\<lambda>_.
     rbind (rlift (object_package bs 1)) (\<lambda>(pkg, object_end, object_bytes).
     let count_offset = 1 + unat (encoded_bytes pkg) in
     rbind (rlift (or_fail truncated (slice_get object_bytes count_offset))) (\<lambda>element_count.
     rbind (with_runtime (create_package element_count)) (\<lambda>h.
     rbind (package_init_loop E h object_bytes object_end (count_offset + 1) 0 (unat element_count)) (\<lambda>_.
       rret (VPackageHandle h, object_end))))))"

definition eval_buffer_initializer :: "'h evaluator \<Rightarrow> bytes \<Rightarrow> (AmlValue \<times> usize, 'h) eval" where
  "eval_buffer_initializer E bs =
     rbind the_runtime (\<lambda>_.
     rbind (rlift (object_package bs 1)) (\<lambda>(pkg, object_end, object_bytes).
     let size_offset = 1 + unat (encoded_bytes pkg) in
     rbind (rest_from object_bytes size_offset) (\<lambda>r.
     rbind (call_term_arg E r) (\<lambda>(len_value, len_consumed).
     rbind (rlift (as_integer len_value)) (\<lambda>len.
       if 255 < len then rfail overflow
       else
         rbind (with_runtime (create_buffer (ucast len))) (\<lambda>h.
         let init_start = size_offset + len_consumed in
         rbind (rlift (or_fail truncated (get_range object_bytes init_start object_end))) (\<lambda>init_bytes.
         rbind (on_runtime (copy_bytes_into_buffer h init_bytes)) (\<lambda>_.
           rret (VBufferHandle h, object_end)))))))))"

definition eval_name_initializer ::
  "'h eval_context \<Rightarrow> 'h evaluator \<Rightarrow> bytes \<Rightarrow> (AmlValue \<times> usize, 'h) eval" where
  "eval_name_initializer c E bs =
     rbind (rlift (or_fail truncated (slice_get bs 0))) (\<lambda>opcode.
       if opcode = 0x0d then call_term_arg E bs
       else if opcode = 0x11 then eval_buffer_initializer E bs
       else if opcode = 0x12 then eval_package_initializer E bs
       else rfail unsupported)"

definition eval_name_statement ::
  "'h eval_context \<Rightarrow> 'h evaluator \<Rightarrow> bytes \<Rightarrow> (usize \<times> AmlControl, 'h) eval" where
  "eval_name_statement c E bs =
     rbind (rest_from bs 1) (\<lambda>r.
     rbind (rlift (parse_encoded_name r)) (\<lambda>n.
     let initializer_offset = 1 + consumed_bytes n in
     rbind (rest_from bs initializer_offset) (\<lambda>r2.
     rbind (eval_name_initializer c E r2) (\<lambda>(v, initializer_consumed).
     rbind (rlift (local_single_segment n)) (\<lambda>name.
     rbind get_frame (\<lambda>fr.
     rbind (rlift (bind_named_value name v fr)) (\<lambda>fr'.
     rbind (put_frame fr') (\<lambda>_.
       rret (initializer_offset + initializer_consumed, Continue)))))))))"

section \<open>Regions and fields declared by a method\<close>

definition eval_dynamic_opregion_statement ::
  "'h evaluator \<Rightarrow> bytes \<Rightarrow> (usize \<times> AmlControl, 'h) eval" where
  "eval_dynamic_opregion_statement E bs =
     rbind (rest_from bs 2) (\<lambda>r.
     rbind (rlift (parse_encoded_name r)) (\<lambda>n.
     rbind (rlift (local_single_segment n)) (\<lambda>name.
     let space_index = 2 + consumed_bytes n in
     rbind (rlift (or_fail truncated (slice_get bs space_index))) (\<lambda>space.
     rbind (rest_from bs (space_index + 1)) (\<lambda>r1.
     rbind (call_term_arg E r1) (\<lambda>(offset_value, offset_consumed).
     let length_index = space_index + 1 + offset_consumed in
     rbind (rest_from bs length_index) (\<lambda>r2.
     rbind (call_term_arg E r2) (\<lambda>(length_value, length_consumed).
     rbind (rlift (as_integer offset_value)) (\<lambda>off.
     rbind (rlift (as_integer length_value)) (\<lambda>len.
     rbind get_frame (\<lambda>fr.
     rbind (rlift (bind_named_region name
              \<lparr>region_node = - 1, region_space = map_dynamic_address_space space,
               region_offset = Some off, region_length = Some len\<rparr> fr)) (\<lambda>fr'.
     rbind (put_frame fr') (\<lambda>_.
       rret (length_index + length_consumed, Continue))))))))))))))"

definition resolve_dynamic_region_binding ::
  "'h eval_context \<Rightarrow> AmlEncodedNameString \<Rightarrow> AmlEvalFrame \<Rightarrow> AmlOpRegionDescriptor aml" where
  "resolve_dynamic_region_binding c n fr =
     bind_result (local_single_segment_if_present n) (\<lambda>name.
       case Option.bind name (named_region fr) of
         Some region \<Rightarrow> Ok region
       | None \<Rightarrow>
           bind_result (resolve_lookup_path (ev_namespace c) (current_scope_path fr) n) (\<lambda>path.
           bind_result (or_fail undefined_object (record_by_path (ev_namespace c) path)) (\<lambda>r.
             case payload r of
               PayloadOpRegion region \<Rightarrow> Ok region
             | _ \<Rightarrow> Err (Fail unsupported))))"

function bind_dynamic_field_entries ::
  "bytes \<Rightarrow> usize \<Rightarrow> usize \<Rightarrow> AmlOpRegionDescriptor \<Rightarrow> u8 \<Rightarrow> u32 \<Rightarrow> AmlEvalFrame \<Rightarrow> AmlEvalFrame aml" where
  "bind_dynamic_field_entries object_bytes cursor object_end region flags bit_off fr =
     (if cursor < object_end then
        bind_result (slice_index object_bytes cursor) (\<lambda>opcode.
          if opcode = 0x00 then
            bind_result (slice_from object_bytes (cursor + 1)) (\<lambda>r.
            bind_result (parse_pkg_length r) (\<lambda>skip.
              bind_dynamic_field_entries object_bytes (cursor + (1 + unat (encoded_bytes skip))) object_end
                region flags (saturating_add_u32 bit_off (pkg_value skip)) fr))
          else if opcode = 0x01 then
            bind_dynamic_field_entries object_bytes (cursor + 3) object_end region flags bit_off fr
          else if opcode = 0x02 then
            bind_result (slice_from object_bytes (cursor + 1)) (\<lambda>r.
            bind_result (parse_encoded_name r) (\<lambda>name.
              bind_dynamic_field_entries object_bytes (cursor + (1 + consumed_bytes name)) object_end
                region flags bit_off fr))
          else if opcode = 0x03 then
            bind_dynamic_field_entries object_bytes (cursor + 4) object_end region flags bit_off fr
          else
            bind_result (or_fail truncated (slice_get object_bytes (cursor + 1))) (\<lambda>b1.
            bind_result (or_fail truncated (slice_get object_bytes (cursor + 2))) (\<lambda>b2.
            bind_result (or_fail truncated (slice_get object_bytes (cursor + 3))) (\<lambda>b3.
            bind_result (from_bytes [opcode, b1, b2, b3]) (\<lambda>seg.
            bind_result (slice_from object_bytes (cursor + 4)) (\<lambda>r.
            bind_result (parse_pkg_length r) (\<lambda>width.
            bind_result (bind_named_field seg
                \<lparr>dyn_region = region, dyn_bit_offset = bit_off, dyn_bit_width = pkg_value width,
                 dyn_access = decode_dynamic_field_access flags,
                 dyn_update = decode_dynamic_field_update flags\<rparr> fr) (\<lambda>fr'.
              bind_dynamic_field_entries object_bytes (cursor + (4 + unat (encoded_bytes width))) object_end
                region flags (saturating_add_u32 bit_off (pkg_value width)) fr'))))))))
      else Ok fr)"
  by auto
termination
  by (relation "measure (\<lambda>(_, cursor, object_end, _, _, _, _). object_end - cursor)") auto

declare bind_dynamic_field_entries.simps [simp del]

definition eval_dynamic_field_statement ::
  "'h eval_context \<Rightarrow> bytes \<Rightarrow> (usize \<times> AmlControl, 'h) eval" where
  "eval_dynamic_field_statement c bs =
     rbind (rlift (object_package bs 2)) (\<lambda>(pkg, object_end, object_bytes).
     let region_name_offset = 2 + unat (encoded_bytes pkg) in
     rbind (rest_from object_bytes region_name_offset) (\<lambda>r.
     rbind (rlift (parse_encoded_name r)) (\<lambda>region_name.
     rbind get_frame (\<lambda>fr.
     rbind (rlift (resolve_dynamic_region_binding c region_name fr)) (\<lambda>region.
     let flags_index = region_name_offset + consumed_bytes region_name in
     rbind (rlift (or_fail truncated (slice_get object_bytes flags_index))) (\<lambda>flags.
     rbind (rlift (bind_dynamic_field_entries object_bytes (flags_index + 1) object_end region flags 0 fr)) (\<lambda>fr'.
     rbind (put_frame fr') (\<lambda>_.
       rret (object_end, Continue)))))))))"

section \<open>Statements\<close>

definition eval_ext_statement :: "'h eval_context \<Rightarrow> 'h evaluator \<Rightarrow> bytes \<Rightarrow> (usize \<times> AmlControl, 'h) eval" where
  "eval_ext_statement c E bs =
     rbind (rlift (or_fail truncated (slice_get bs 1))) (\<lambda>sub.
       if sub = 0x80 then eval_dynamic_opregion_statement E bs
       else if sub = 0x81 then eval_dynamic_field_statement c bs
       else if sub = 0x21 then
         rbind (the_host c) (\<lambda>h.
         rbind (rest_from bs 2) (\<lambda>r.
         rbind (call_term_arg E r) (\<lambda>(microseconds, consumed).
         rbind (rlift (as_integer microseconds)) (\<lambda>us.
         rbind (on_host (host_op (stall_us h (ucast us)))) (\<lambda>_. rret (2 + consumed, Continue))))))
       else if sub = 0x22 then
         rbind (the_host c) (\<lambda>h.
         rbind (rest_from bs 2) (\<lambda>r.
         rbind (call_term_arg E r) (\<lambda>(milliseconds, consumed).
         rbind (rlift (as_integer milliseconds)) (\<lambda>ms.
         rbind (on_host (host_op (sleep_ms h (ucast ms)))) (\<lambda>_. rret (2 + consumed, Continue))))))
       else if sub = 0x23 then
         rbind (rest_from bs 2) (\<lambda>r.
         rbind (resolve_super_name c r) (\<lambda>(target, target_consumed).
         rbind (rlift (or_fail truncated (get_range bs (2 + target_consumed) (2 + target_consumed + 2)))) (\<lambda>_.
         rbind the_runtime (\<lambda>_.
         rbind (rlift (or_fail unsupported target)) (\<lambda>node.
         rbind (with_runtime (try_acquire_mutex node)) (\<lambda>taken.
           rret (4 + target_consumed, if taken then Continue else Blocked)))))))
       else if sub = 0x27 then
         rbind (rest_from bs 2) (\<lambda>r.
         rbind (resolve_super_name c r) (\<lambda>(target, target_consumed).
         rbind the_runtime (\<lambda>_.
         rbind (rlift (or_fail unsupported target)) (\<lambda>node.
         rbind (on_runtime (release_mutex node)) (\<lambda>_. rret (2 + target_consumed, Continue))))))
       else if sub = 0x86 then
         rbind (the_host c) (\<lambda>h.
         rbind (rest_from bs 2) (\<lambda>r.
         rbind (resolve_super_name c r) (\<lambda>(target, target_consumed).
         rbind (rlift (or_fail unsupported target)) (\<lambda>node.
         rbind (rest_from bs (2 + target_consumed)) (\<lambda>r2.
         rbind (call_term_arg E r2) (\<lambda>(v, value_consumed).
         rbind (rlift (as_integer v)) (\<lambda>i.
         rbind (on_host (host_op (notify h node (ucast i)))) (\<lambda>_.
           rret (2 + target_consumed + value_consumed, Continue)))))))))
       else rfail unsupported)"

definition eval_if :: "'h evaluator \<Rightarrow> bytes \<Rightarrow> (usize \<times> AmlControl, 'h) eval" where
  "eval_if E bs =
     rbind (rlift (object_package bs 1)) (\<lambda>(pkg, object_end, object_bytes).
     let predicate_offset = 1 + unat (encoded_bytes pkg) in
     rbind (rest_from object_bytes predicate_offset) (\<lambda>r.
     rbind (call_term_arg E r) (\<lambda>(predicate, predicate_consumed).
     let body_start = predicate_offset + predicate_consumed in
       if as_logic predicate then
         rbind (rest_from object_bytes body_start) (\<lambda>code.
         rbind (call_term_list E code) (\<lambda>control.
           if control \<noteq> Continue then rret (object_end, control)
           else if slice_get bs object_end = Some 0xa1 then
             rbind (rest_from bs (object_end + 1)) (\<lambda>e.
             rbind (rlift (parse_pkg_length e)) (\<lambda>else_pkg.
               rret (object_end + (1 + unat (pkg_value else_pkg)), Continue)))
           else rret (object_end, Continue)))
       else if slice_get bs object_end = Some 0xa1 then
         rbind (rest_from bs (object_end + 1)) (\<lambda>e.
         rbind (rlift (parse_pkg_length e)) (\<lambda>else_pkg.
         let else_end = object_end + 1 + unat (pkg_value else_pkg) in
         rbind (rlift (or_fail truncated (get_range bs object_end else_end))) (\<lambda>else_bytes.
         rbind (rest_from else_bytes (1 + unat (encoded_bytes else_pkg))) (\<lambda>code.
         rbind (call_term_list E code) (\<lambda>control. rret (else_end, control))))))
       else rret (object_end, Continue))))"

text \<open>The \<open>loop\<close> of \<open>eval_while\<close>: one iteration, then again through the evaluator.\<close>

definition eval_while_loop :: "'h evaluator \<Rightarrow> bytes \<Rightarrow> usize \<Rightarrow> usize \<Rightarrow> (usize \<times> AmlControl, 'h) eval" where
  "eval_while_loop E object_bytes predicate_offset object_end =
     rbind (rest_from object_bytes predicate_offset) (\<lambda>r.
     rbind (call_term_arg E r) (\<lambda>(predicate, predicate_consumed).
       if \<not> as_logic predicate then rret (object_end, Continue)
       else
         rbind (rest_from object_bytes (predicate_offset + predicate_consumed)) (\<lambda>code.
         rbind (call_term_list E code) (\<lambda>control.
           case control of
             Continue \<Rightarrow> call_while E object_bytes predicate_offset object_end
           | Break \<Rightarrow> rret (object_end, Continue)
           | _ \<Rightarrow> rret (object_end, control)))))"

definition eval_while :: "'h evaluator \<Rightarrow> bytes \<Rightarrow> (usize \<times> AmlControl, 'h) eval" where
  "eval_while E bs =
     rbind (rlift (object_package bs 1)) (\<lambda>(pkg, object_end, object_bytes).
       call_while E object_bytes (1 + unat (encoded_bytes pkg)) object_end)"

definition eval_statement :: "'h eval_context \<Rightarrow> 'h evaluator \<Rightarrow> bytes \<Rightarrow> (usize \<times> AmlControl, 'h) eval" where
  "eval_statement c E bs =
     rbind (rlift (or_fail truncated (slice_get bs 0))) (\<lambda>opcode.
       if opcode = 0x08 then eval_name_statement c E bs
       else if opcode = 0xa2 then eval_while E bs
       else if opcode = 0xa3 then rret (1, Continue)
       else if opcode = 0x70 then rbind (eval_store E bs) (\<lambda>(_, consumed). rret (consumed, Continue))
       else if opcode = 0x5b then eval_ext_statement c E bs
       else if opcode = 0xa0 then eval_if E bs
       else if opcode = 0xa5 then rret (1, Break)
       else if opcode = 0xa4 then
         rbind (rest_from bs 1) (\<lambda>r.
         rbind (call_term_arg E r) (\<lambda>(v, consumed). rret (1 + consumed, Return v)))
       else rbind (call_term_arg E bs) (\<lambda>(_, consumed). rret (consumed, Continue)))"

text \<open>One turn of the statement loop; the bytes after the statement are the rest of the list.\<close>

definition eval_term_list :: "'h eval_context \<Rightarrow> 'h evaluator \<Rightarrow> bytes \<Rightarrow> (AmlControl, 'h) eval" where
  "eval_term_list c E bs =
     (if bs = [] then rret Continue
      else rbind (eval_statement c E bs) (\<lambda>(consumed, control).
        if consumed = 0 then rfail invalid_bytecode
        else if control \<noteq> Continue then rret control
        else call_term_list E (drop consumed bs)))"

section \<open>Running\<close>

definition diverge :: "('a, 's) run" where
  "diverge = rlift (Err Diverge)"

primrec evaluators :: "'h eval_context \<Rightarrow> nat \<Rightarrow> 'h evaluator" where
  "evaluators c 0 =
     \<lparr>call_term_list = (\<lambda>bs. diverge), call_term_arg = (\<lambda>bs. diverge),
      call_assign_target = (\<lambda>bs v. diverge), call_while = (\<lambda>bs off end'. diverge)\<rparr>"
| "evaluators c (Suc fuel) =
     \<lparr>call_term_list = eval_term_list c (evaluators c fuel),
      call_term_arg = eval_term_arg c (evaluators c fuel),
      call_assign_target = assign_target c (evaluators c fuel),
      call_while = eval_while_loop (evaluators c fuel)\<rparr>"

record AmlMethodInvocation =
  invoked_method :: AmlNamespaceNodeId
  invocation_args :: "AmlValue list"

record AmlEvaluationOutcome =
  return_value :: "AmlValue option"
  blocked :: bool

text \<open>The two halves of \<open>evaluate_internal\<close>: the body and the frame it runs in, and the outcome.\<close>

definition method_entry :: "'h eval_context \<Rightarrow> AmlMethodInvocation \<Rightarrow> (bytes \<times> AmlEvalFrame) aml" where
  "method_entry c invocation =
     bind_result (or_fail undefined_object (record_of (ev_namespace c) (invoked_method invocation))) (\<lambda>r.
     bind_result (case payload r of PayloadMethod m \<Rightarrow> Ok m | _ \<Rightarrow> Err (Fail invalid_state)) (\<lambda>method.
     bind_result (or_fail invalid_state (code_bytes (ev_namespace c) (method_body method))) (\<lambda>code.
     bind_result (frame_new (namespace_width c) (method_scope r) (invocation_args invocation) 0) (\<lambda>fr.
       Ok (code, fr)))))"

definition outcome_of :: "AmlControl \<Rightarrow> AmlEvaluationOutcome aml" where
  "outcome_of control = (case control of
      Continue \<Rightarrow> Ok \<lparr>return_value = None, blocked = False\<rparr>
    | Blocked \<Rightarrow> Ok \<lparr>return_value = None, blocked = True\<rparr>
    | Break \<Rightarrow> Err (Fail invalid_state)
    | Return v \<Rightarrow> Ok \<lparr>return_value = Some v, blocked = False\<rparr>)"

definition evaluate_internal ::
  "'h eval_context \<Rightarrow> nat \<Rightarrow> AmlMethodInvocation \<Rightarrow> AmlRuntimeState option \<Rightarrow> 'h
     \<Rightarrow> AmlEvaluationOutcome aml \<times> AmlRuntimeState option \<times> 'h" where
  "evaluate_internal c fuel invocation st hs =
     (case method_entry c invocation of
        Err e \<Rightarrow> (Err e, st, hs)
      | Ok (code, fr) \<Rightarrow>
          (case call_term_list (evaluators c fuel) code \<lparr>host_state = hs, runtime = st, frame = fr\<rparr> of
             (r, m) \<Rightarrow> (bind_result r outcome_of, runtime m, host_state m)))"

definition evaluate ::
  "AmlLoadedNamespace \<Rightarrow> nat \<Rightarrow> AmlMethodInvocation \<Rightarrow> AmlEvaluationOutcome aml" where
  "evaluate ns fuel invocation =
     fst (evaluate_internal \<lparr>ev_namespace = ns, ev_host = None :: unit AmlRegionAccessHost option\<rparr> fuel invocation None ())"

definition evaluate_with_state ::
  "AmlLoadedNamespace \<Rightarrow> nat \<Rightarrow> AmlMethodInvocation \<Rightarrow> AmlRuntimeState
     \<Rightarrow> AmlEvaluationOutcome aml \<times> AmlRuntimeState" where
  "evaluate_with_state ns fuel invocation st =
     (case evaluate_internal \<lparr>ev_namespace = ns, ev_host = None :: unit AmlRegionAccessHost option\<rparr> fuel invocation
             (Some st) () of
        (r, st', _) \<Rightarrow> (r, the st'))"

definition evaluate_with_host ::
  "AmlLoadedNamespace \<Rightarrow> 'h AmlRegionAccessHost \<Rightarrow> nat \<Rightarrow> AmlMethodInvocation \<Rightarrow> 'h
     \<Rightarrow> AmlEvaluationOutcome aml \<times> 'h" where
  "evaluate_with_host ns h fuel invocation hs =
     (case evaluate_internal \<lparr>ev_namespace = ns, ev_host = Some h\<rparr> fuel invocation None hs of
        (r, _, hs') \<Rightarrow> (r, hs'))"

definition evaluate_with_host_and_state ::
  "AmlLoadedNamespace \<Rightarrow> 'h AmlRegionAccessHost \<Rightarrow> nat \<Rightarrow> AmlMethodInvocation \<Rightarrow> AmlRuntimeState \<Rightarrow> 'h
     \<Rightarrow> AmlEvaluationOutcome aml \<times> AmlRuntimeState \<times> 'h" where
  "evaluate_with_host_and_state ns h fuel invocation st hs =
     (case evaluate_internal \<lparr>ev_namespace = ns, ev_host = Some h\<rparr> fuel invocation (Some st) hs of
        (r, st', hs') \<Rightarrow> (r, the st', hs'))"

end
