(* ===== verification/Aml_State_Props.thy ===== *)
theory Aml_State_Props
  imports Aml_State
begin

text \<open>
  What the runtime overlay promises. The integer and mutex arrays implement \<open>bounded_store\<close>; a package
  or a buffer is a list that no operation on another handle changes; a mutex has one holder.
\<close>

section \<open>Scanning\<close>

abbreviation slot_hit :: "('a \<Rightarrow> bool) \<Rightarrow> 'a option \<Rightarrow> bool" where
  "slot_hit p s \<equiv> (case s of Some x \<Rightarrow> p x | None \<Rightarrow> False)"

lemma slot_scan_position:
  "slot_scan p ss i e =
     (case position (slot_hit p) ss of
        Some k \<Rightarrow> Hit (i + k)
      | None \<Rightarrow> (case e of
          Some j \<Rightarrow> Vacant j
        | None \<Rightarrow> (case position (\<lambda>s. s = None) ss of Some k \<Rightarrow> Vacant (i + k) | None \<Rightarrow> Full)))"
  by (induction p ss i e rule: slot_scan.induct) (auto split: option.split simp del: position_None_iff)

lemma slot_scan_Hit:
  assumes "slot_scan p ss 0 None = Hit i"
  obtains x where "i < length ss" and "ss ! i = Some x" and "p x"
  using assms position_SomeD [of "slot_hit p" ss i] position_Some_length [of "slot_hit p" ss i] that
  by (auto simp: slot_scan_position split: option.splits)

lemma slot_scan_Vacant:
  assumes "slot_scan p ss 0 None = Vacant i"
  shows "i < length ss" and "ss ! i = None" and "\<forall>x. Some x \<in> set ss \<longrightarrow> \<not> p x"
  using assms position_SomeD [of "\<lambda>s. s = None" ss i] position_Some_length [of "\<lambda>s. s = None" ss i]
  by (auto simp: slot_scan_position split: option.splits)

lemma slot_scan_Full:
  "slot_scan p ss 0 None = Full \<longleftrightarrow> (\<forall>x. Some x \<in> set ss \<longrightarrow> \<not> p x) \<and> None \<notin> set ss"
proof -
  have "position (slot_hit p) ss = None \<longleftrightarrow> (\<forall>x. Some x \<in> set ss \<longrightarrow> \<not> p x)"
    by (auto split: option.splits)
  moreover have "position (\<lambda>s. s = None) ss = None \<longleftrightarrow> None \<notin> set ss"
    unfolding position_None_iff by metis
  ultimately show ?thesis unfolding slot_scan_position
    by (cases "position (slot_hit p) ss"; cases "position (\<lambda>s. s = None) ss") (simp_all del: position_None_iff)
qed

lemma flatten_full: "None \<notin> set ss \<longleftrightarrow> length (flatten ss) = length ss"
proof (induction ss)
  case (Cons s ss)
  then show ?case using length_flatten_le [of ss] by (cases s) auto
qed simp

lemma flatten_split:
  assumes "i < length ss"
  shows "flatten ss = flatten (take i ss) @ (case ss ! i of Some y \<Rightarrow> [y] | None \<Rightarrow> []) @ flatten (drop (Suc i) ss)"
  by (subst id_take_nth_drop [OF assms]) (auto split: option.splits)

lemma flatten_update:
  assumes "i < length ss"
  shows "flatten (ss[i := Some x]) = flatten (take i ss) @ [x] @ flatten (drop (Suc i) ss)"
  by (simp add: upd_conv_take_nth_drop [OF assms])

section \<open>Bounded stores\<close>

text \<open>
  A store of \<open>'v\<close> by \<open>'k\<close> with room for \<open>capacity\<close> keys: a write that fits is an update of the map
  \<open>lookup\<close>, and it fails exactly when the key is new and every slot is taken.
\<close>

locale bounded_store =
  fixes lookup :: "'s \<Rightarrow> 'k \<Rightarrow> 'v option"
    and update :: "'k \<Rightarrow> 'v \<Rightarrow> 's \<Rightarrow> 's aml"
    and inv :: "'s \<Rightarrow> bool"
    and capacity :: "'s \<Rightarrow> nat"
  assumes room: "inv s \<Longrightarrow> finite (dom (lookup s)) \<and> card (dom (lookup s)) \<le> capacity s"
    and update_Ok: "inv s \<Longrightarrow> update k v s = Ok s' \<Longrightarrow>
      inv s' \<and> lookup s' = (lookup s)(k \<mapsto> v) \<and> capacity s' = capacity s"
    and update_Err: "inv s \<Longrightarrow> update k v s = Err e \<longleftrightarrow>
      e = Fail overflow \<and> k \<notin> dom (lookup s) \<and> card (dom (lookup s)) = capacity s"
begin

fun update_all :: "('k \<times> 'v) list \<Rightarrow> 's \<Rightarrow> 's aml" where
  "update_all [] s = Ok s"
| "update_all ((k, v) # ws) s = bind_result (update k v s) (update_all ws)"

lemma updates_beyond:
  assumes "inv s" "update k v s = Err e" "finite K"
  shows "capacity s < card (insert k (dom (lookup s) \<union> K))"
proof -
  have e: "k \<notin> dom (lookup s)" "card (dom (lookup s)) = capacity s" using update_Err assms by blast+
  have f: "finite (dom (lookup s))" using room assms(1) by blast
  then have "Suc (capacity s) = card (insert k (dom (lookup s)))" using e by simp
  also have "\<dots> \<le> card (insert k (dom (lookup s) \<union> K))" using f assms(3) by (intro card_mono) auto
  finally show ?thesis by simp
qed

text \<open>
  A sequence of writes goes through exactly when the keys present and written fit into the slots,
  and then leaves the map overwritten in order.
\<close>

lemma update_all_fits:
  assumes "inv s"
  shows "if card (dom (lookup s) \<union> fst ` set ws) \<le> capacity s
         then (\<exists>s'. update_all ws s = Ok s' \<and> inv s' \<and> lookup s' = lookup s ++ map_of (rev ws)
                    \<and> capacity s' = capacity s)
         else update_all ws s = Err (Fail overflow)"
  using assms
proof (induction ws arbitrary: s)
  case Nil
  then show ?case using room by simp
next
  case (Cons w ws)
  obtain k v where w: "w = (k, v)" by (cases w)
  show ?case
  proof (cases "update k v s")
    case (Ok s')
    have u: "inv s'" "lookup s' = (lookup s)(k \<mapsto> v)" "capacity s' = capacity s"
      using update_Ok [OF Cons.prems Ok] by auto
    have d: "dom (lookup s) \<union> fst ` set (w # ws) = dom (lookup s') \<union> fst ` set ws" using u(2) w by auto
    have m: "lookup s ++ map_of (rev (w # ws)) = lookup s' ++ map_of (rev ws)"
      using u(2) w by (auto simp: map_add_def fun_eq_iff split: option.splits)
    have a: "update_all (w # ws) s = update_all ws s'" using Ok w by simp
    show ?thesis unfolding d m a u(3) [symmetric] by (rule Cons.IH [OF u(1)])
  next
    case (Err e)
    have "capacity s < card (insert k (dom (lookup s) \<union> fst ` set ws))"
      using updates_beyond [OF Cons.prems Err] by simp
    moreover have "e = Fail overflow" using update_Err Cons.prems Err by blast
    ultimately show ?thesis using Err w by simp
  qed
qed

end

definition slots_inv :: "('a \<Rightarrow> 'k) \<Rightarrow> 'a option list \<Rightarrow> bool" where
  "slots_inv key ss \<longleftrightarrow> distinct (map key (flatten ss))"

definition slot_lookup :: "('a \<Rightarrow> 'k) \<Rightarrow> ('a \<Rightarrow> 'v) \<Rightarrow> 'a option list \<Rightarrow> 'k \<Rightarrow> 'v option" where
  "slot_lookup key val ss k = map_option val (slot_find (\<lambda>s. key s = k) ss)"

lemma slot_lookup_map_of: "slot_lookup key val ss = map_of (map (\<lambda>s. (key s, val s)) (flatten ss))"
proof
  fix k
  have "map_option val (find (\<lambda>s. key s = k) xs) = map_of (map (\<lambda>s. (key s, val s)) xs) k" for xs
    by (induction xs) auto
  then show "slot_lookup key val ss k = map_of (map (\<lambda>s. (key s, val s)) (flatten ss)) k"
    by (simp add: slot_lookup_def slot_find_def)
qed

lemma dom_slot_lookup: "dom (slot_lookup key val ss) = key ` set (flatten ss)"
  unfolding slot_lookup_map_of dom_map_of_conv_image_fst by (simp only: set_map image_image fst_conv)

lemma slots_room:
  assumes "slots_inv key ss"
  shows "finite (dom (slot_lookup key val ss)) \<and> card (dom (slot_lookup key val ss)) \<le> length ss"
    and "card (dom (slot_lookup key val ss)) = length ss \<longleftrightarrow> None \<notin> set ss"
proof -
  have "card (dom (slot_lookup key val ss)) = length (flatten ss)"
    unfolding dom_slot_lookup using assms distinct_card [of "map key (flatten ss)"] by (simp add: slots_inv_def)
  then show "finite (dom (slot_lookup key val ss)) \<and> card (dom (slot_lookup key val ss)) \<le> length ss"
    and "card (dom (slot_lookup key val ss)) = length ss \<longleftrightarrow> None \<notin> set ss"
    using length_flatten_le [of ss] flatten_full [of ss]
    by (simp_all add: dom_slot_lookup del: set_flatten)
qed

text \<open>Overwriting the slot of a key, or filling a vacant one when no slot has the key.\<close>

lemma slots_set:
  assumes inv: "slots_inv key ss" and i: "i < length ss"
    and at: "ss ! i = None \<and> (\<forall>y. Some y \<in> set ss \<longrightarrow> key y \<noteq> key x) \<or> (\<exists>y. ss ! i = Some y \<and> key y = key x)"
  shows "slots_inv key (ss[i := Some x])"
    and "slot_lookup key val (ss[i := Some x]) = (slot_lookup key val ss)(key x \<mapsto> val x)"
proof -
  have other: "key y \<noteq> key x" if "y \<in> set (flatten (take i ss)) \<union> set (flatten (drop (Suc i) ss))" for y
    using at
  proof
    assume a: "ss ! i = None \<and> (\<forall>y. Some y \<in> set ss \<longrightarrow> key y \<noteq> key x)"
    moreover have "Some y \<in> set ss" using that set_take_subset set_drop_subset by fastforce
    ultimately show ?thesis by blast
  next
    assume "\<exists>y. ss ! i = Some y \<and> key y = key x"
    then obtain z where z: "ss ! i = Some z" "key z = key x" by blast
    have "distinct (map key (flatten (take i ss) @ [z] @ flatten (drop (Suc i) ss)))"
      using inv z(1) unfolding slots_inv_def flatten_split [OF i] by simp
    then show ?thesis using that z(2) by (auto simp del: set_flatten simp: rev_image_eqI)
  qed
  then have new: "key x \<notin> key ` set (flatten (take i ss))" "key x \<notin> key ` set (flatten (drop (Suc i) ss))"
    by (metis UnI1 imageE, metis UnI2 imageE)
  have d: "distinct (map key (flatten (take i ss) @ flatten (drop (Suc i) ss)))"
    using inv unfolding slots_inv_def flatten_split [OF i] by (auto split: option.splits)
  show "slots_inv key (ss[i := Some x])"
    using d new unfolding slots_inv_def flatten_update [OF i] by (simp del: set_flatten)
  show "slot_lookup key val (ss[i := Some x]) = (slot_lookup key val ss)(key x \<mapsto> val x)"
  proof
    fix k
    have no: "map_of (map (\<lambda>s. (key s, val s)) (flatten (take i ss))) (key x) = None"
      using new(1) by (simp add: map_of_eq_None_iff image_image del: set_flatten)
    show "slot_lookup key val (ss[i := Some x]) k = ((slot_lookup key val ss)(key x \<mapsto> val x)) k"
      using no at unfolding slot_lookup_map_of flatten_update [OF i] flatten_split [OF i]
      by (cases "k = key x") (auto simp: map_add_def split: option.splits)
  qed
qed

locale keyed_slots =
  fixes key :: "'a \<Rightarrow> 'k" and val :: "'a \<Rightarrow> 'v" and mk :: "'k \<Rightarrow> 'v \<Rightarrow> 'a"
  assumes key_mk [simp]: "key (mk k v) = k" and val_mk [simp]: "val (mk k v) = v"
begin

definition put :: "'k \<Rightarrow> 'v \<Rightarrow> 'a option list \<Rightarrow> 'a option list aml" where
  "put k v ss = slot_put (\<lambda>s. key s = k) (mk k v) ss"

lemma put_Ok:
  assumes "slots_inv key ss" and "put k v ss = Ok ss'"
  shows "slots_inv key ss' \<and> slot_lookup key val ss' = (slot_lookup key val ss)(k \<mapsto> v) \<and> length ss' = length ss"
proof (cases "slot_scan (\<lambda>s. key s = k) ss 0 None")
  case (Hit i)
  then show ?thesis
    using assms slots_set(1) [of key ss i "mk k v"] slots_set(2) [of key ss i "mk k v" val]
    by (auto simp: put_def slot_put_def elim!: slot_scan_Hit)
next
  case (Vacant i)
  then show ?thesis
    using assms slot_scan_Vacant [OF Vacant] slots_set(1) [of key ss i "mk k v"]
      slots_set(2) [of key ss i "mk k v" val] by (auto simp: put_def slot_put_def)
next
  case Full
  then show ?thesis using assms(2) by (simp add: put_def slot_put_def)
qed

lemma put_Err:
  assumes "slots_inv key ss"
  shows "put k v ss = Err e \<longleftrightarrow> e = Fail overflow \<and> k \<notin> dom (slot_lookup key val ss)
           \<and> card (dom (slot_lookup key val ss)) = length ss"
proof -
  have "put k v ss = Err e \<longleftrightarrow> e = Fail overflow \<and> slot_scan (\<lambda>s. key s = k) ss 0 None = Full"
    by (auto simp: put_def slot_put_def split: slot_result.splits)
  also have "\<dots> \<longleftrightarrow> e = Fail overflow \<and> k \<notin> dom (slot_lookup key val ss) \<and> None \<notin> set ss"
    unfolding slot_scan_Full dom_slot_lookup by auto
  finally show ?thesis using slots_room(2) [OF assms, where val = val] by simp
qed

end

sublocale keyed_slots \<subseteq> store: bounded_store "slot_lookup key val" put "slots_inv key" length
  using slots_room(1) put_Ok put_Err by unfold_locales auto

interpretation int_slots: keyed_slots int_node int_value "\<lambda>n v. \<lparr>int_node = n, int_value = v\<rparr>"
  by unfold_locales simp_all

interpretation mutex_slots: keyed_slots mtx_node mtx_held "\<lambda>n h. \<lparr>mtx_node = n, mtx_held = h\<rparr>"
  by unfold_locales simp_all

section \<open>Integers\<close>

fun write_integers :: "(AmlNamespaceNodeId \<times> 64 word) list \<Rightarrow> AmlRuntimeState \<Rightarrow> AmlRuntimeState aml" where
  "write_integers [] st = Ok st"
| "write_integers ((node, v) # ws) st = bind_result (write_integer node v st) (write_integers ws)"

lemma read_integer_lookup: "read_integer st = slot_lookup int_node int_value (integers st)"
  by (simp add: fun_eq_iff read_integer_def slot_lookup_def)

lemma write_integer_put:
  "write_integer node v st = bind_result (int_slots.put node v (integers st)) (\<lambda>ss. Ok (st\<lparr>integers := ss\<rparr>))"
  by (simp add: write_integer_def int_slots.put_def)

lemma write_integers_put:
  "write_integers ws st =
     bind_result (int_slots.store.update_all ws (integers st)) (\<lambda>ss. Ok (st\<lparr>integers := ss\<rparr>))"
proof (induction ws arbitrary: st)
  case (Cons w ws)
  then show ?case by (cases w; cases "int_slots.put (fst w) (snd w) (integers st)") (simp_all add: write_integer_put)
qed simp

text \<open>
  C30. The integer overlay is a map with room for one value per slot: a sequence of writes succeeds
  exactly when the nodes already present and the nodes written fit into the slots, and afterwards a
  read returns the last value written to the node, or what was there before; a sequence that does
  not fit ends with the overflow error.
\<close>
theorem integer_overlay_is_bounded_map:
  assumes "slots_inv int_node (integers st)"
  shows "if card (dom (read_integer st) \<union> fst ` set ws) \<le> length (integers st)
         then \<exists>st'. write_integers ws st = Ok st' \<and> read_integer st' = read_integer st ++ map_of (rev ws)
         else write_integers ws st = Err (Fail overflow)"
  using int_slots.store.update_all_fits [OF assms, of ws]
  by (auto simp: write_integers_put read_integer_lookup split: if_splits)

section \<open>Mutexes\<close>

definition held_mutexes :: "AmlRuntimeState \<Rightarrow> AmlNamespaceNodeId set" where
  "held_mutexes st = {node. slot_lookup mtx_node mtx_held (mutexes st) node = Some True}"

lemma slot_find_position:
  "slot_find p ss = (case position (slot_hit p) ss of Some i \<Rightarrow> ss ! i | None \<Rightarrow> None)"
proof (induction ss)
  case (Cons s ss)
  then show ?case by (cases s) (auto simp: slot_find_def split: option.split simp del: position_None_iff)
qed (simp add: slot_find_def)

lemma mutex_lookup_slot:
  "slot_lookup mtx_node mtx_held (mutexes st) node =
     (case position (slot_hit (\<lambda>m. mtx_node m = node)) (mutexes st) of
        Some i \<Rightarrow> map_option mtx_held (mutexes st ! i) | None \<Rightarrow> None)"
  by (simp add: slot_lookup_def slot_find_position split: option.split del: position_None_iff)

text \<open>Both operations are a lookup in the table followed by at most one write.\<close>

lemma try_acquire_lookup:
  "try_acquire_mutex node st =
     (if slot_lookup mtx_node mtx_held (mutexes st) node = Some True then Ok (False, st)
      else bind_result (mutex_slots.put node True (mutexes st)) (\<lambda>ms. Ok (True, st\<lparr>mutexes := ms\<rparr>)))"
proof (cases "slot_scan (\<lambda>m. mtx_node m = node) (mutexes st) 0 None")
  case (Hit i)
  then have p: "position (slot_hit (\<lambda>m. mtx_node m = node)) (mutexes st) = Some i"
    by (simp add: slot_scan_position split: option.splits del: position_None_iff)
  from Hit obtain m where m: "mutexes st ! i = Some m" by (rule slot_scan_Hit)
  show ?thesis using Hit p m
    by (simp add: try_acquire_mutex_def mutex_lookup_slot mutex_slots.put_def slot_put_def)
next
  case (Vacant i)
  then have p: "position (slot_hit (\<lambda>m. mtx_node m = node)) (mutexes st) = None"
    by (simp add: slot_scan_position split: option.splits del: position_None_iff)
  show ?thesis using Vacant p
    by (simp add: try_acquire_mutex_def mutex_lookup_slot mutex_slots.put_def slot_put_def del: position_None_iff)
next
  case Full
  then have p: "position (slot_hit (\<lambda>m. mtx_node m = node)) (mutexes st) = None"
    by (simp add: slot_scan_position split: option.splits del: position_None_iff)
  show ?thesis using Full p
    by (simp add: try_acquire_mutex_def mutex_lookup_slot mutex_slots.put_def slot_put_def del: position_None_iff)
qed

lemma release_lookup:
  "release_mutex node st =
     (if slot_lookup mtx_node mtx_held (mutexes st) node = Some True
      then bind_result (mutex_slots.put node False (mutexes st)) (\<lambda>ms. Ok (st\<lparr>mutexes := ms\<rparr>))
      else Err (Fail invalid_state))"
proof (cases "position (slot_hit (\<lambda>m. mtx_node m = node)) (mutexes st)")
  case (Some i)
  then have h: "slot_scan (\<lambda>m. mtx_node m = node) (mutexes st) 0 None = Hit i" by (simp add: slot_scan_position)
  then obtain m where m: "mutexes st ! i = Some m" by (rule slot_scan_Hit)
  show ?thesis using Some h m by (simp add: release_mutex_def mutex_lookup_slot mutex_slots.put_def slot_put_def)
next
  case None
  then show ?thesis by (simp add: release_mutex_def mutex_lookup_slot del: position_None_iff)
qed

lemma held_update:
  assumes "slots_inv mtx_node (mutexes st)" and "mutex_slots.put node b (mutexes st) = Ok ms"
  shows "slots_inv mtx_node ms"
    and "held_mutexes (st\<lparr>mutexes := ms\<rparr>) = (if b then insert node (held_mutexes st) else held_mutexes st - {node})"
  using mutex_slots.put_Ok [OF assms] by (auto simp: held_mutexes_def)

text \<open>
  A mutex has at most one holder. Acquiring a mutex that is held reports so and changes nothing;
  otherwise the caller becomes the holder, or the table has no slot left for a mutex it has never
  seen and nothing changes. Only a held mutex can be released, and releasing it frees exactly it.
\<close>
theorem mutex_has_one_holder:
  assumes "slots_inv mtx_node (mutexes st)"
  shows "(case try_acquire_mutex node st of
            Ok (taken, st') \<Rightarrow> taken = (node \<notin> held_mutexes st) \<and> slots_inv mtx_node (mutexes st')
              \<and> held_mutexes st' = insert node (held_mutexes st)
          | Err e \<Rightarrow> e = Fail overflow \<and> node \<notin> held_mutexes st)
       \<and> (case release_mutex node st of
            Ok st' \<Rightarrow> node \<in> held_mutexes st \<and> slots_inv mtx_node (mutexes st')
              \<and> held_mutexes st' = held_mutexes st - {node}
          | Err e \<Rightarrow> e = Fail invalid_state \<and> node \<notin> held_mutexes st)"
proof (cases "node \<in> held_mutexes st")
  case True
  then have l: "slot_lookup mtx_node mtx_held (mutexes st) node = Some True" by (simp add: held_mutexes_def)
  then obtain ms where "mutex_slots.put node False (mutexes st) = Ok ms"
    using mutex_slots.put_Err [OF assms, of node False] by (cases "mutex_slots.put node False (mutexes st)") auto
  then show ?thesis
    using True l assms held_update [OF assms, of node False ms] by (simp add: try_acquire_lookup release_lookup insert_absorb)
next
  case False
  then have l: "slot_lookup mtx_node mtx_held (mutexes st) node \<noteq> Some True" by (simp add: held_mutexes_def)
  have o: "e = Fail overflow" if "mutex_slots.put node True (mutexes st) = Err e" for e
    using that mutex_slots.put_Err [OF assms, of node True] by blast
  show ?thesis
    using False l held_update [OF assms, of node True] o
    by (cases "mutex_slots.put node True (mutexes st)") (simp_all add: try_acquire_lookup release_lookup)
qed

section \<open>Packages and buffers\<close>

definition package_view :: "AmlRuntimeState \<Rightarrow> AmlRuntimePackageHandle \<Rightarrow> AmlRuntimeAggregateValue list option" where
  "package_view st h = map_option (\<lambda>s. take (unat (pkg_len s)) (pkg_elements s)) (package_slot st h)"

definition buffer_view :: "AmlRuntimeState \<Rightarrow> AmlRuntimeBufferHandle \<Rightarrow> bytes option" where
  "buffer_view st h = map_option (\<lambda>s. take (unat (buf_len s)) (buf_bytes s)) (buffer_slot st h)"

definition aggregates_wf :: "AmlRuntimeState \<Rightarrow> bool" where
  "aggregates_wf st \<longleftrightarrow>
     (\<forall>s. Some s \<in> set (packages st) \<longrightarrow> unat (pkg_len s) \<le> length (pkg_elements s)
            \<and> length (pkg_elements s) = AML_MAX_PACKAGE_ELEMENTS)
     \<and> (\<forall>s. Some s \<in> set (buffers st) \<longrightarrow> unat (buf_len s) \<le> length (buf_bytes s)
            \<and> length (buf_bytes s) = AML_MAX_BUFFER_BYTES)"

lemma package_slot_Some:
  "package_slot st h = Some s \<longleftrightarrow> unat (package_handle h) < length (packages st) \<and> packages st ! unat (package_handle h) = Some s"
  by (auto simp: package_slot_def slice_get_def)

lemma buffer_slot_Some:
  "buffer_slot st h = Some s \<longleftrightarrow> unat (buffer_handle h) < length (buffers st) \<and> buffers st ! unat (buffer_handle h) = Some s"
  by (auto simp: buffer_slot_def slice_get_def)

lemma package_slot_update:
  assumes "i < length (packages st)" and "i < 65536"
  shows "package_slot (st\<lparr>packages := (packages st)[i := Some s]\<rparr>) h =
           (if h = AmlRuntimePackageHandle (of_nat i) then Some s else package_slot st h)"
  using assms by (cases h) (auto simp: package_slot_def slice_get_def nth_list_update unat_of_nat word_unat_eq_iff)

lemma buffer_slot_update:
  assumes "i < length (buffers st)" and "i < 65536"
  shows "buffer_slot (st\<lparr>buffers := (buffers st)[i := Some s]\<rparr>) h =
           (if h = AmlRuntimeBufferHandle (of_nat i) then Some s else buffer_slot st h)"
  using assms by (cases h) (auto simp: buffer_slot_def slice_get_def nth_list_update unat_of_nat word_unat_eq_iff)

lemma vacant_slot:
  assumes "position (\<lambda>s. s = None) ss = Some i"
  shows "i < length ss" and "ss ! i = None"
  using assms position_SomeD [of "\<lambda>s. s = None" ss i] position_Some_length [OF assms] by auto

lemma packages_wf_update:
  assumes "aggregates_wf st" and "unat (pkg_len s) \<le> length (pkg_elements s)"
    and "length (pkg_elements s) = AML_MAX_PACKAGE_ELEMENTS"
  shows "aggregates_wf (st\<lparr>packages := (packages st)[i := Some s]\<rparr>)"
  using assms by (auto simp: aggregates_wf_def dest!: set_update_subset_insert [THEN subsetD])

lemma buffers_wf_update:
  assumes "aggregates_wf st" and "unat (buf_len s) \<le> length (buf_bytes s)"
    and "length (buf_bytes s) = AML_MAX_BUFFER_BYTES"
  shows "aggregates_wf (st\<lparr>buffers := (buffers st)[i := Some s]\<rparr>)"
  using assms by (auto simp: aggregates_wf_def dest!: set_update_subset_insert [THEN subsetD])

lemma aggregates_wfD:
  assumes "aggregates_wf st"
  shows "package_slot st h = Some s \<Longrightarrow> unat (pkg_len s) \<le> length (pkg_elements s)
           \<and> length (pkg_elements s) = AML_MAX_PACKAGE_ELEMENTS"
    and "buffer_slot st b = Some c \<Longrightarrow> unat (buf_len c) \<le> length (buf_bytes c)
           \<and> length (buf_bytes c) = AML_MAX_BUFFER_BYTES"
  using assms by (auto simp: aggregates_wf_def package_slot_Some buffer_slot_Some) (metis nth_mem)+

lemma other_views [simp]:
  "buffer_view (st\<lparr>packages := ps\<rparr>) = buffer_view st" "package_view (st\<lparr>buffers := bs\<rparr>) = package_view st"
  by (simp_all add: fun_eq_iff buffer_view_def buffer_slot_def package_view_def package_slot_def)

lemma create_package_view:
  assumes "aggregates_wf st" and "create_package len st = Ok (h, st')"
  shows "aggregates_wf st' \<and> package_view st h = None \<and> buffer_view st' = buffer_view st
         \<and> package_view st' = (package_view st)(h \<mapsto> replicate (unat len) AggNone)"
proof -
  obtain i where i: "position (\<lambda>s. s = None) (packages st) = Some i" "i < 65536" "unat len \<le> AML_MAX_PACKAGE_ELEMENTS"
    and h: "h = AmlRuntimePackageHandle (of_nat i)"
    and st': "st' = st\<lparr>packages := (packages st)[i := Some \<lparr>pkg_handle = h, pkg_len = len,
                pkg_elements = replicate AML_MAX_PACKAGE_ELEMENTS AggNone\<rparr>]\<rparr>"
    using assms(2) by (auto simp: create_package_def Let_def split: if_splits option.splits)
  note v = vacant_slot [OF i(1)]
  have "package_slot st h = None"
    using v i(2) h by (simp add: package_slot_def slice_get_def unat_of_nat)
  then show ?thesis
    using assms(1) v i h st' packages_wf_update [OF assms(1)]
    by (auto simp: package_view_def package_slot_update fun_eq_iff)
qed

lemma create_buffer_view:
  assumes "aggregates_wf st" and "create_buffer len st = Ok (h, st')"
  shows "aggregates_wf st' \<and> buffer_view st h = None \<and> package_view st' = package_view st
         \<and> buffer_view st' = (buffer_view st)(h \<mapsto> replicate (unat len) 0)"
proof -
  obtain i where i: "position (\<lambda>s. s = None) (buffers st) = Some i" "i < 65536" "unat len \<le> AML_MAX_BUFFER_BYTES"
    and h: "h = AmlRuntimeBufferHandle (of_nat i)"
    and st': "st' = st\<lparr>buffers := (buffers st)[i := Some \<lparr>buf_handle = h, buf_len = len,
                buf_bytes = replicate AML_MAX_BUFFER_BYTES 0\<rparr>]\<rparr>"
    using assms(2) by (auto simp: create_buffer_def Let_def split: if_splits option.splits)
  note v = vacant_slot [OF i(1)]
  have "buffer_slot st h = None"
    using v i(2) h by (simp add: buffer_slot_def slice_get_def unat_of_nat)
  then show ?thesis
    using assms(1) v i h st' buffers_wf_update [OF assms(1)]
    by (auto simp: buffer_view_def buffer_slot_update fun_eq_iff)
qed

lemma handle_of_index:
  "AmlRuntimePackageHandle (of_nat (unat (package_handle h))) = h"
  "AmlRuntimeBufferHandle (of_nat (unat (buffer_handle b))) = b"
  by (cases h, simp) (cases b, simp)

lemma unat_16_less [simp]: "unat (w :: 16 word) < 65536"
proof -
  have "unat w < 2 ^ LENGTH(16)" by (rule unsigned_less)
  then show ?thesis by simp
qed

lemma write_package_view:
  assumes "aggregates_wf st"
  shows "case package_view st h of
           Some xs \<Rightarrow> if unat i < length xs
             then (\<exists>st'. write_package_value h i v st = Ok st' \<and> aggregates_wf st'
                    \<and> package_view st' = (package_view st)(h \<mapsto> xs[unat i := v]) \<and> buffer_view st' = buffer_view st)
             else write_package_value h i v st = Err (Fail invalid_state)
         | None \<Rightarrow> write_package_value h i v st = Err (Fail invalid_state)"
proof (cases "package_slot st h")
  case None
  then show ?thesis by (simp add: package_view_def write_package_value_def or_fail_def)
next
  case (Some s)
  note wf = aggregates_wfD(1) [OF assms Some]
  have lt: "unat (package_handle h) < length (packages st)" using Some by (simp add: package_slot_Some)
  show ?thesis
    using Some wf lt packages_wf_update [OF assms]
    by (auto simp: package_view_def write_package_value_def or_fail_def package_slot_update handle_of_index
        fun_eq_iff word_le_nat_alt take_update_swap not_le)
qed

lemma write_buffer_view:
  assumes "aggregates_wf st"
  shows "case buffer_view st h of
           Some xs \<Rightarrow> if unat i < length xs
             then (\<exists>st'. write_buffer_byte h i v st = Ok st' \<and> aggregates_wf st'
                    \<and> buffer_view st' = (buffer_view st)(h \<mapsto> xs[unat i := v]) \<and> package_view st' = package_view st)
             else write_buffer_byte h i v st = Err (Fail invalid_state)
         | None \<Rightarrow> write_buffer_byte h i v st = Err (Fail invalid_state)"
proof (cases "buffer_slot st h")
  case None
  then show ?thesis by (simp add: buffer_view_def write_buffer_byte_def or_fail_def)
next
  case (Some s)
  note wf = aggregates_wfD(2) [OF assms Some]
  have lt: "unat (buffer_handle h) < length (buffers st)" using Some by (simp add: buffer_slot_Some)
  show ?thesis
    using Some wf lt buffers_wf_update [OF assms]
    by (auto simp: buffer_view_def write_buffer_byte_def or_fail_def buffer_slot_update handle_of_index
        fun_eq_iff word_le_nat_alt take_update_swap not_le)
qed

text \<open>What a copy leaves in a buffer of \<open>n\<close> bytes: the source, cut or padded with zeros.\<close>

definition fit_bytes :: "nat \<Rightarrow> bytes \<Rightarrow> bytes" where
  "fit_bytes n src = take n (src @ replicate n 0)"

lemma copy_buffer_view:
  assumes "aggregates_wf st"
  shows "case buffer_view st h of
           Some xs \<Rightarrow> \<exists>st'. copy_bytes_into_buffer h src st = Ok st' \<and> aggregates_wf st'
             \<and> buffer_view st' = (buffer_view st)(h \<mapsto> fit_bytes (length xs) src) \<and> package_view st' = package_view st
         | None \<Rightarrow> copy_bytes_into_buffer h src st = Err (Fail invalid_state)"
proof (cases "buffer_slot st h")
  case None
  then show ?thesis by (simp add: buffer_view_def copy_bytes_into_buffer_def or_fail_def)
next
  case (Some s)
  note wf = aggregates_wfD(2) [OF assms Some]
  have lt: "unat (buffer_handle h) < length (buffers st)" using Some by (simp add: buffer_slot_Some)
  define new :: bytes where "new = take (min (unat (buf_len s)) (length src)) src
      @ drop (min (unat (buf_len s)) (length src)) (replicate AML_MAX_BUFFER_BYTES 0)"
  have len: "length new = AML_MAX_BUFFER_BYTES" using wf by (auto simp: new_def)
  have fit: "take (unat (buf_len s)) new = fit_bytes (unat (buf_len s)) src"
    using wf by (auto simp: fit_bytes_def new_def min_def)
  have "copy_bytes_into_buffer h src st = Ok (st\<lparr>buffers := (buffers st)[unat (buffer_handle h) :=
          Some (s\<lparr>buf_bytes := new\<rparr>)]\<rparr>)"
    using Some by (simp add: copy_bytes_into_buffer_def or_fail_def new_def Let_def)
  then show ?thesis
    using Some wf lt len fit buffers_wf_update [OF assms, of "s\<lparr>buf_bytes := new\<rparr>" "unat (buffer_handle h)"]
    by (simp add: buffer_view_def buffer_slot_update handle_of_index fun_eq_iff)
qed

text \<open>
  Packages and buffers are private lists. Creating one yields a handle that was not in use and
  names a fresh list; a write within the list changes that element of that list and nothing else, a
  write outside it or on an unknown handle is refused; a read returns the element of the list. So no
  access through one handle is seen through another.
\<close>
theorem aggregates_are_private_lists:
  assumes "aggregates_wf st"
  shows "(case create_package len st of
            Ok (h, st') \<Rightarrow> package_view st h = None \<and> package_view st' = (package_view st)(h \<mapsto> replicate (unat len) AggNone)
              \<and> buffer_view st' = buffer_view st \<and> aggregates_wf st'
          | Err e \<Rightarrow> e = Fail overflow)
       \<and> (case create_buffer len st of
            Ok (h, st') \<Rightarrow> buffer_view st h = None \<and> buffer_view st' = (buffer_view st)(h \<mapsto> replicate (unat len) 0)
              \<and> package_view st' = package_view st \<and> aggregates_wf st'
          | Err e \<Rightarrow> e = Fail overflow)
       \<and> (case write_package_value k i v st of
            Ok st' \<Rightarrow> (\<exists>xs. package_view st k = Some xs \<and> unat i < length xs
              \<and> package_view st' = (package_view st)(k \<mapsto> xs[unat i := v])
              \<and> buffer_view st' = buffer_view st \<and> aggregates_wf st')
          | Err e \<Rightarrow> e = Fail invalid_state \<and> read_package_value st k i = None)
       \<and> (case write_buffer_byte c i w st of
            Ok st' \<Rightarrow> (\<exists>xs. buffer_view st c = Some xs \<and> unat i < length xs
              \<and> buffer_view st' = (buffer_view st)(c \<mapsto> xs[unat i := w])
              \<and> package_view st' = package_view st \<and> aggregates_wf st')
          | Err e \<Rightarrow> e = Fail invalid_state \<and> read_buffer_byte st c i = None)
       \<and> read_package_value st k i =
            Option.bind (package_view st k) (\<lambda>xs. if unat i < length xs then Some (xs ! unat i) else None)
       \<and> read_buffer_byte st c i =
            Option.bind (buffer_view st c) (\<lambda>xs. if unat i < length xs then Some (xs ! unat i) else None)"
    (is "?cp \<and> ?cb \<and> ?wp \<and> ?wb \<and> ?rp \<and> ?rb")
proof -
  have rp: ?rp
    using aggregates_wfD(1) [OF assms, of k]
    by (cases "package_slot st k") (auto simp: read_package_value_def package_view_def word_le_nat_alt)
  have rb: ?rb
    using aggregates_wfD(2) [OF assms, of c]
    by (cases "buffer_slot st c") (auto simp: read_buffer_byte_def buffer_view_def word_le_nat_alt)
  have cp: ?cp
  proof (cases "create_package len st")
    case (Ok x)
    then show ?thesis using create_package_view [OF assms, of len "fst x" "snd x"] by (cases x) simp
  qed (auto simp: create_package_def Let_def split: if_splits option.splits)
  have cb: ?cb
  proof (cases "create_buffer len st")
    case (Ok x)
    then show ?thesis using create_buffer_view [OF assms, of len "fst x" "snd x"] by (cases x) simp
  qed (auto simp: create_buffer_def Let_def split: if_splits option.splits)
  have wp: ?wp
    using write_package_view [OF assms, of k i v] rp by (auto split: option.splits if_splits)
  have wb: ?wb
    using write_buffer_view [OF assms, of c i w] rb by (auto split: option.splits if_splits)
  from cp cb wp wb rp rb show ?thesis by (intro conjI)
qed

section \<open>Concrete states\<close>

text \<open>One integer slot takes two writes to one node and refuses a second node.\<close>

theorem integer_overlay_is_bounded_map_witness:
  "write_integers [(5, 1), (6, 2)] (state_new [None]) = Err (Fail overflow)
   \<and> (\<exists>st. write_integers [(5, 1), (5, 2)] (state_new [None]) = Ok st \<and> read_integer st 5 = Some 2)"
proof -
  have i: "slots_inv int_node (integers (state_new [None]))" by (simp add: slots_inv_def state_new_def)
  have r: "read_integer (state_new [None]) = Map.empty"
    by (simp add: read_integer_def state_new_def slot_find_def fun_eq_iff)
  have l: "length (integers (state_new [None])) = 1" by (simp add: state_new_def)
  show ?thesis
    using integer_overlay_is_bounded_map [OF i, of "[(5, 1), (6, 2)]"] integer_overlay_is_bounded_map [OF i, of "[(5, 1), (5, 2)]"]
    by (auto simp: r l)
qed

text \<open>Node 3 is held.\<close>

theorem mutex_has_one_holder_witness:
  "case try_acquire_mutex 3 (with_mutexes [Some \<lparr>mtx_node = 3, mtx_held = True\<rparr>, None] (state_new [])) of
     Ok (taken, st') \<Rightarrow> \<not> taken \<and> 3 \<in> held_mutexes st'
   | Err e \<Rightarrow> False"
proof -
  let ?st = "with_mutexes [Some \<lparr>mtx_node = 3, mtx_held = True\<rparr>, None] (state_new [])"
  have i: "slots_inv mtx_node (mutexes ?st)" by (simp add: slots_inv_def with_mutexes_def)
  have h: "3 \<in> held_mutexes ?st" by (simp add: held_mutexes_def with_mutexes_def slot_lookup_map_of)
  show ?thesis using mutex_has_one_holder [OF i, of 3] h by (auto split: result.splits)
qed

text \<open>A first package of two elements.\<close>

theorem aggregates_are_private_lists_witness:
  "case create_package 2 (with_packages [None] (state_new [])) of
     Ok (h, st) \<Rightarrow> package_view st h = Some [AggNone, AggNone]
   | Err e \<Rightarrow> False"
proof -
  let ?st = "with_packages [None] (state_new [])"
  have wf: "aggregates_wf ?st" by (simp add: aggregates_wf_def with_packages_def state_new_def)
  obtain x where x: "create_package 2 ?st = Ok x"
    by (simp add: create_package_def with_packages_def state_new_def Let_def AML_MAX_PACKAGE_ELEMENTS_def)
  have "replicate 2 AggNone = [AggNone, AggNone]" by (simp add: numeral_2_eq_2)
  with aggregates_are_private_lists [OF wf, of 2] x show ?thesis by (cases x) simp
qed

end
