(* ===== verification/Aml_Field_Props.thy ===== *)
theory Aml_Field_Props
  imports Aml_Field
begin

text \<open>
  What a field access does to the bits of its region. \<open>region_bits\<close> says that a region behaves as memory:
  reading a byte returns it and writing replaces it. Over such a region a field read returns exactly
  the bits of the field and a write replaces exactly them, as long as the field with its offset in the
  first byte fits into 64 bits; and over any host an access touches no byte but those the field covers.
\<close>

section \<open>The state monad\<close>

lemma rbind_simps [simp]:
  "rbind (rret x) f = f x"
  "rbind (rlift (Ok x)) f = f x"
  "rbind (rlift (Err e)) f = rlift (Err e)"
  "rbind (rfail err) f = rfail err"
  by (simp_all add: rbind_def rret_def rlift_def rfail_def fun_eq_iff)

lemma rbind_apply: "m s = (Ok x, s') \<Longrightarrow> rbind m f s = f x s'"
  by (simp add: rbind_def)

lemma rbind_cong [fundef_cong]: "m = m' \<Longrightarrow> (\<And>x s s'. m' s = (Ok x, s') \<Longrightarrow> f x s' = g x s') \<Longrightarrow> rbind m f = rbind m' g"
  by (auto simp: rbind_def fun_eq_iff split: prod.splits result.splits)

section \<open>Confinement\<close>

text \<open>Two hosts that answer alike for some byte offsets of a region.\<close>

definition same_on :: "'h AmlRegionAccessHost \<Rightarrow> 'h AmlRegionAccessHost \<Rightarrow> AmlOpRegionDescriptor \<Rightarrow> nat set \<Rightarrow> bool" where
  "same_on h h' region K \<longleftrightarrow>
     (\<forall>k \<in> K. read_region_byte h region k = read_region_byte h' region k
             \<and> (\<forall>v. write_region_byte h region k v = write_region_byte h' region k v))"

text \<open>
  The bytes of a region that a field of \<open>width\<close> bits from \<open>start_bit\<close> covers; where the region declares
  its length, those inside it.
\<close>

definition covered_bytes :: "AmlOpRegionDescriptor \<Rightarrow> nat \<Rightarrow> nat \<Rightarrow> nat set" where
  "covered_bytes region start_bit width = {k. (\<exists>i < width. k = (start_bit + i) div 8)
     \<and> (\<forall>len. region_length region = Some len \<longrightarrow> k < unat len)}"

lemma read_loop_same:
  "same_on h h' region K \<Longrightarrow> {first_byte + index..<first_byte + index + n} \<subseteq> K \<Longrightarrow>
     read_field_loop h region first_byte index n agg = read_field_loop h' region first_byte index n agg"
proof (induction n arbitrary: index agg)
  case (Suc n)
  have "first_byte + index \<in> K" "{first_byte + Suc index..<first_byte + Suc index + n} \<subseteq> K" using Suc.prems(2) by auto
  then show ?case using Suc by (simp add: same_on_def)
qed simp

lemma write_loop_same:
  "same_on h h' region K \<Longrightarrow> {first_byte + index..<first_byte + index + n} \<subseteq> K \<Longrightarrow>
     write_field_loop h region a b u v first_byte index n = write_field_loop h' region a b u v first_byte index n"
proof (induction n arbitrary: index)
  case (Suc n)
  have k: "first_byte + index \<in> K" "{first_byte + Suc index..<first_byte + Suc index + n} \<subseteq> K" using Suc.prems(2) by auto
  then have "read_region_byte h region (first_byte + index) = read_region_byte h' region (first_byte + index)"
    and "write_region_byte h region (first_byte + index) = write_region_byte h' region (first_byte + index)"
    using Suc.prems(1) by (auto simp: same_on_def fun_eq_iff)
  then show ?case using Suc k(2) by (simp add: Let_def preserve_base_def cong: AmlFieldUpdateKind.case_cong)
qed simp

lemma field_range_Ok:
  assumes "field_range region start_bit width = Ok (end_bit, first_byte, byte_count)"
  shows "0 < unat width" and "unat width \<le> 64" and "end_bit = start_bit + unat width" and "first_byte = start_bit div 8"
    and "byte_count = (end_bit - 1) div 8 - start_bit div 8 + 1"
    and "region_length region = Some len \<Longrightarrow> first_byte + byte_count \<le> unat len"
proof -
  show w: "0 < unat width" "unat width \<le> 64" and e: "end_bit = start_bit + unat width" and f: "first_byte = start_bit div 8"
    using assms by (auto simp: field_range_def ok_iff checked_iffs Let_def unat_gt_0 word_le_nat_alt not_less split: if_splits)
  have le: "start_bit div 8 \<le> (end_bit - 1) div 8" using w(1) e by (simp add: div_le_mono)
  show c: "byte_count = (end_bit - 1) div 8 - start_bit div 8 + 1"
    using assms by (auto simp: field_range_def ok_iff checked_iffs Let_def saturating_sub_def bind_eq_Some_conv split: if_splits)
  show "first_byte + byte_count \<le> unat len" if "region_length region = Some len"
    using assms that le c f
    by (auto simp: field_range_def ok_iff checked_iffs Let_def saturating_sub_def ensure_region_byte_range_def
        not_less split: if_splits)
qed

lemma field_range_covered:
  assumes "field_range region start_bit width = Ok (end_bit, first_byte, byte_count)"
  shows "{first_byte..<first_byte + byte_count} \<subseteq> covered_bytes region start_bit (unat width)"
proof
  fix k assume "k \<in> {first_byte..<first_byte + byte_count}"
  note rng = field_range_Ok [OF assms]
  have le: "start_bit div 8 \<le> (start_bit + unat width - 1) div 8" using rng(1) by (simp add: div_le_mono)
  then have k: "start_bit div 8 \<le> k" "k \<le> (start_bit + unat width - 1) div 8" "k < first_byte + byte_count"
    using \<open>k \<in> _\<close> rng(3-5) by auto
  have "\<exists>i < unat width. k = (start_bit + i) div 8"
  proof (intro exI conjI)
    have "max start_bit (8 * k) \<le> start_bit + unat width - 1"
      using k(2) rng(1) by (auto simp: less_eq_div_iff_mult_less_eq mult.commute)
    then show "max start_bit (8 * k) - start_bit < unat width" using rng(1) by linarith
    show "k = (start_bit + (max start_bit (8 * k) - start_bit)) div 8" using k(1) by (auto simp: max_def)
  qed
  then show "k \<in> covered_bytes region start_bit (unat width)"
    using k(3) rng(6) by (fastforce simp: covered_bytes_def)
qed

text \<open>
  C16. Field accesses touch only the bytes the field covers. Whatever the host does, a read or a write
  of a field behaves the same on two hosts that agree on the bytes holding a bit of the field and
  lying inside the region where it declares a length: no other byte is ever read or written, for any
  region, bit offset, width and update rule.
\<close>
theorem field_access_stays_in_region:
  assumes "same_on h h' region (covered_bytes region start_bit (unat width))"
  shows "read_field_bits h region start_bit width = read_field_bits h' region start_bit width
       \<and> write_field_bits h region start_bit width update v = write_field_bits h' region start_bit width update v"
proof (cases "field_range region start_bit width")
  case (Ok r)
  obtain e f n where r: "r = (e, f, n)" by (cases r)
  have "{f..<f + n} \<subseteq> covered_bytes region start_bit (unat width)" using field_range_covered Ok r by simp
  then show ?thesis
    using read_loop_same [OF assms, of f 0 n] write_loop_same [OF assms, of f 0 n] Ok r
    by (simp add: read_field_bits_def write_field_bits_def Let_def)
qed (simp add: read_field_bits_def write_field_bits_def)

section \<open>Bits\<close>

lemma field_span_bytes:
  fixes a w :: nat
  assumes "0 < w" and "a mod 8 + w \<le> 64"
  shows "(a + w - 1) div 8 - a div 8 + 1 \<le> 8"
proof -
  define q r where "q = a div 8" and "r = a mod 8"
  have a: "a = 8 * q + r" by (simp add: q_def r_def)
  have "r + w \<le> 64" using assms(2) by (simp add: r_def)
  then have "a + w - 1 < (q + 8) * 8" using assms(1) a by arith
  then have "(a + w - 1) div 8 < q + 8" by (rule less_mult_imp_div_less)
  then show ?thesis unfolding q_def by arith
qed

lemma field_bit_in_bytes:
  fixes a w i :: nat
  assumes "i < w"
  shows "a mod 8 + i < 8 * ((a + w - 1) div 8 - a div 8 + 1)"
proof -
  define q r q' r' where "q = a div 8" and "r = a mod 8" and "q' = (a + w - 1) div 8" and "r' = (a + w - 1) mod 8"
  have a: "a = 8 * q + r" "a + w - 1 = 8 * q' + r'" "r' < 8" by (simp_all add: q_def r_def q'_def r'_def)
  have "q \<le> q'" using assms unfolding q_def q'_def by (intro div_le_mono) simp
  then have "r + i < 8 * (q' - q + 1)" using a assms by (simp add: diff_mult_distrib2 algebra_simps)
  then show ?thesis by (simp add: q_def r_def q'_def)
qed

text \<open>
  A region that is memory: \<open>mem\<close> reads the byte at an offset of a host state, \<open>put\<close> replaces it.
\<close>

definition region_is_memory ::
  "'h AmlRegionAccessHost \<Rightarrow> AmlOpRegionDescriptor \<Rightarrow> nat \<Rightarrow> ('h \<Rightarrow> nat \<Rightarrow> u8) \<Rightarrow> (nat \<Rightarrow> u8 \<Rightarrow> 'h \<Rightarrow> 'h) \<Rightarrow> bool" where
  "region_is_memory h region len mem put \<longleftrightarrow>
     (\<forall>k < len. \<forall>s. read_region_byte h region k s = (Ok (mem s k), s)
        \<and> (\<forall>v. write_region_byte h region k v s = (Ok (), put k v s) \<and> mem (put k v s) = (mem s)(k := v)))"

definition mem_bit :: "(nat \<Rightarrow> u8) \<Rightarrow> nat \<Rightarrow> bool" where
  "mem_bit m k \<longleftrightarrow> bit (m (k div 8)) (k mod 8)"

lemma region_is_memoryD:
  assumes "region_is_memory h region len mem put" and "k < len"
  shows "read_region_byte h region k s = (Ok (mem s k), s)"
    and "write_region_byte h region k v s = (Ok (), put k v s)"
    and "mem (put k v s) = (mem s)(k := v)"
  using assms by (auto simp: region_is_memory_def)

lemma bit_width_mask: "bit (width_mask w) i \<longleftrightarrow> i < unat w \<and> i < 64"
proof (cases "64 \<le> unat w")
  case False
  have "width_mask w = mask (unat w)" using False by (simp add: width_mask_def mask_eq_exp_minus_1 word_le_nat_alt)
  then show ?thesis by (auto simp: bit_mask_iff)
qed (auto simp: width_mask_def word_le_nat_alt)

lemma bit_fold_set: "bit (fold (\<lambda>b m. m OR 2 ^ b) bs (m :: u8)) i \<longleftrightarrow> bit m i \<or> (i \<in> set bs \<and> i < 8)"
proof (induction bs arbitrary: m)
  case (Cons b bs)
  have "bit (2 ^ b :: u8) i \<longleftrightarrow> i = b \<and> i < 8" by (auto simp: bit_exp_iff)
  then show ?case using Cons by (auto simp: bit_or_iff)
qed simp

lemma bit_cover_mask: "bit (byte_cover_mask a b t) i \<longleftrightarrow> i < 8 \<and> a \<le> t + i \<and> t + i < b"
  by (auto simp: byte_cover_mask_def Let_def bit_fold_set)

lemma read_loop_bits:
  assumes "region_is_memory h region len mem put"
  shows "first_byte + index + n \<le> len \<Longrightarrow> index + n \<le> 8 \<Longrightarrow>
    \<exists>agg'. read_field_loop h region first_byte index n agg s = (Ok agg', s)
      \<and> (\<forall>j. bit agg' j \<longleftrightarrow> bit agg j \<or> (8 * index \<le> j \<and> j < 8 * (index + n) \<and> mem_bit (mem s) (8 * first_byte + j)))"
proof (induction n arbitrary: index agg)
  case (Suc n)
  let ?agg = "agg OR push_bit (index * 8 mod 64) (ucast (mem s (first_byte + index)))"
  obtain agg' where a: "read_field_loop h region first_byte (Suc index) n ?agg s = (Ok agg', s)"
    "\<And>j. bit agg' j \<longleftrightarrow> bit ?agg j \<or> (8 * Suc index \<le> j \<and> j < 8 * (Suc index + n) \<and> mem_bit (mem s) (8 * first_byte + j))"
    using Suc.IH [of "Suc index" ?agg] Suc.prems by auto
  have sh: "index * 8 mod 64 = index * 8" using Suc.prems(2) by simp
  have step: "bit ?agg j \<longleftrightarrow> bit agg j \<or> (8 * index \<le> j \<and> j < 8 * Suc index \<and> mem_bit (mem s) (8 * first_byte + j))" for j
  proof -
    have "bit (ucast (mem s (first_byte + index)) :: 64 word) (j - index * 8) \<longleftrightarrow> mem_bit (mem s) (8 * first_byte + j)"
      if "8 * index \<le> j" "j < 8 * Suc index"
    proof -
      have "j = 8 * index + (j - 8 * index)" "j - 8 * index < 8" using that by auto
      then have "(8 * first_byte + j) div 8 = first_byte + index" "(8 * first_byte + j) mod 8 = j - 8 * index"
        by presburger+
      then show ?thesis using that by (auto simp: mem_bit_def bit_ucast_iff mult.commute)
    qed
    moreover have "\<not> bit (ucast (mem s (first_byte + index)) :: 64 word) (j - index * 8)" if "8 * Suc index \<le> j"
      using that by (auto simp: bit_ucast_iff dest: bit_imp_le_length)
    ultimately show ?thesis using Suc.prems(2) unfolding sh
      by (cases "j < 8 * index"; cases "j < 8 * Suc index") (auto simp: bit_or_iff bit_push_bit_iff)
  qed
  have "bit agg' j \<longleftrightarrow> bit agg j \<or> (8 * index \<le> j \<and> j < 8 * (index + Suc n) \<and> mem_bit (mem s) (8 * first_byte + j))" for j
    unfolding a(2) step by auto
  moreover have "read_region_byte h region (first_byte + index) s = (Ok (mem s (first_byte + index)), s)"
    using region_is_memoryD(1) [OF assms] Suc.prems(1) by simp
  ultimately show ?case using a(1) by (simp add: rbind_apply)
qed (auto simp: rret_def)

text \<open>What a write leaves in the bits of a covered byte that are not part of the field.\<close>

definition rest_bit :: "AmlFieldUpdateKind \<Rightarrow> bool \<Rightarrow> bool" where
  "rest_bit update old = (case update of Preserve \<Rightarrow> old | WriteAsOnes \<Rightarrow> True | WriteAsZeros \<Rightarrow> False)"

lemma preserve_base_bits:
  assumes "region_is_memory h region len mem put" and "k < len"
  obtains b where "preserve_base h region update k s = (Ok b, s)"
    and "\<And>j. j < 8 \<Longrightarrow> bit b j \<longleftrightarrow> rest_bit update (bit (mem s k) j)"
  using region_is_memoryD(1) [OF assms] that
  by (cases update) (auto simp: preserve_base_def rest_bit_def rret_def)

lemma cover_mask_nonzero:
  assumes "a div 8 \<le> t" and "t \<le> (b - 1) div 8" and "a < b"
  shows "byte_cover_mask a b (t * 8) \<noteq> 0"
proof -
  have "a < t * 8 + 8" "t * 8 < b" using assms by linarith+
  then have "bit (byte_cover_mask a b (t * 8)) (max a (t * 8) - t * 8)"
    using assms(3) by (auto simp: bit_cover_mask max_def)
  then show ?thesis by (metis bit_0_eq bot_apply bot_bool_def)
qed

text \<open>The memory after the bytes \<open>first_byte + index\<close> to \<open>first_byte + index + n\<close> were written.\<close>

definition written_bit ::
  "nat \<Rightarrow> nat \<Rightarrow> AmlFieldUpdateKind \<Rightarrow> 64 word \<Rightarrow> nat \<Rightarrow> nat \<Rightarrow> nat \<Rightarrow> (nat \<Rightarrow> u8) \<Rightarrow> nat \<Rightarrow> bool" where
  "written_bit a b update shifted first_byte lo hi m k =
     (if lo \<le> k div 8 \<and> k div 8 < hi
      then (if a \<le> k \<and> k < b then bit shifted (k - 8 * first_byte) else rest_bit update (mem_bit m k))
      else mem_bit m k)"

lemma merged_bit:
  assumes "index < 8" and "j < 8"
    and "\<And>j. j < 8 \<Longrightarrow> bit base j \<longleftrightarrow> rest_bit update (bit old j)"
  shows "bit ((base AND NOT (byte_cover_mask a b ((first_byte + index) * 8)))
             OR (ucast (drop_bit (index * 8 mod 64) shifted AND 0xff :: 64 word)
                 AND byte_cover_mask a b ((first_byte + index) * 8))) j
       \<longleftrightarrow> (if a \<le> (first_byte + index) * 8 + j \<and> (first_byte + index) * 8 + j < b
            then bit shifted (index * 8 + j) else rest_bit update (bit old j))"
proof -
  have ff: "bit (0xff :: 64 word) j" using assms(2)
    by (subst (asm) less_eq_Suc_le) (auto simp: numeral_eq_Suc le_Suc_eq bit_numeral_rec)
  have "index * 8 mod 64 = index * 8" using assms(1) by simp
  then show ?thesis
    using assms(2,3) ff by (auto simp: bit_or_iff bit_and_iff bit_not_iff bit_cover_mask bit_ucast_iff bit_drop_bit_eq)
qed

lemma write_loop_bits:
  assumes mem: "region_is_memory h region len mem put" and ab: "a < b"
  shows "first_byte + index + n \<le> len \<Longrightarrow> index + n \<le> 8 \<Longrightarrow> a div 8 \<le> first_byte + index \<Longrightarrow>
    first_byte + index + n \<le> (b - 1) div 8 + 1 \<Longrightarrow>
    \<exists>s'. write_field_loop h region a b update shifted first_byte index n s = (Ok (), s')
       \<and> (\<forall>k. mem_bit (mem s') k =
              written_bit a b update shifted first_byte (first_byte + index) (first_byte + index + n) (mem s) k)"
proof (induction n arbitrary: index s)
  case 0
  then show ?case by (auto simp: rret_def written_bit_def)
next
  case (Suc n)
  define t where "t = first_byte + index"
  have t: "t < len" using Suc.prems(1) by (simp add: t_def)
  obtain base where base: "preserve_base h region update t s = (Ok base, s)"
    "\<And>j. j < 8 \<Longrightarrow> bit base j \<longleftrightarrow> rest_bit update (bit (mem s t) j)"
    using preserve_base_bits [OF mem t] by metis
  define merged where "merged = (base AND NOT (byte_cover_mask a b (t * 8)))
      OR (ucast (drop_bit (index * 8 mod 64) shifted AND 0xff) AND byte_cover_mask a b (t * 8))"
  have nz: "byte_cover_mask a b (t * 8) \<noteq> 0"
    using cover_mask_nonzero [of a t b] Suc.prems(3,4) ab by (simp add: t_def)
  have m1: "mem (put t merged s) = (mem s)(t := merged)" using region_is_memoryD(3) [OF mem t] .
  obtain s' where s': "write_field_loop h region a b update shifted first_byte (Suc index) n (put t merged s) = (Ok (), s')"
    "\<And>k. mem_bit (mem s') k = written_bit a b update shifted first_byte (Suc t) (Suc t + n) (mem (put t merged s)) k"
    using Suc.IH [of "Suc index" "put t merged s"] Suc.prems by (auto simp: t_def)
  have "mem_bit (mem s') k = written_bit a b update shifted first_byte t (t + Suc n) (mem s) k" for k
  proof (cases "k div 8 = t")
    case True
    then have k: "t * 8 + k mod 8 = k" by (metis div_mult_mod_eq)
    then have k': "index * 8 + k mod 8 = k - 8 * first_byte" by (simp add: t_def)
    have "mem_bit (mem s') k = bit merged (k mod 8)" unfolding s'(2) m1 using True by (simp add: written_bit_def mem_bit_def)
    also have "\<dots> = (if a \<le> t * 8 + k mod 8 \<and> t * 8 + k mod 8 < b
        then bit shifted (index * 8 + k mod 8) else rest_bit update (bit (mem s t) (k mod 8)))"
      unfolding merged_def t_def
      by (rule merged_bit) (use Suc.prems(2) base(2) in \<open>auto simp: t_def\<close>)
    finally show ?thesis using True unfolding k k' by (simp add: written_bit_def mem_bit_def)
  next
    case False
    then have "mem_bit (mem (put t merged s)) k = mem_bit (mem s) k" by (simp add: m1 mem_bit_def)
    then show ?thesis using False unfolding s'(2) written_bit_def by auto
  qed
  moreover have "write_field_loop h region a b update shifted first_byte index (Suc n) s = (Ok (), s')"
    using nz base(1) region_is_memoryD(2) [OF mem t, of merged s] s'(1)
    by (simp add: Let_def rbind_def flip: t_def merged_def)
  ultimately show ?case by (auto simp: t_def)
qed

text \<open>
  \<open>field_fits\<close>: the field lies in a region of \<open>len\<close> bytes, is at most 64 bits wide and, counted from the
  start of its first byte, spans at most 64 bits.
\<close>

definition field_fits :: "AmlOpRegionDescriptor \<Rightarrow> nat \<Rightarrow> u32 \<Rightarrow> bool" where
  "field_fits region start_bit width \<longleftrightarrow>
     0 < unat width \<and> start_bit mod 8 + unat width \<le> 64
     \<and> (\<exists>len. region_length region = Some len \<and> start_bit + unat width \<le> 8 * unat len)"

lemma field_fits_range:
  assumes "field_fits region start_bit width" and "region_length region = Some len" and "unat len < 2 ^ 60"
  shows "field_range region start_bit width =
           Ok (start_bit + unat width, start_bit div 8, (start_bit + unat width - 1) div 8 - start_bit div 8 + 1)"
    and "(start_bit + unat width - 1) div 8 < unat len"
    and "(start_bit + unat width - 1) div 8 - start_bit div 8 + 1 \<le> 8"
proof -
  have b: "0 < unat width" "start_bit mod 8 + unat width \<le> 64" "start_bit + unat width \<le> 8 * unat len"
    using assms(1,2) by (auto simp: field_fits_def)
  show l: "(start_bit + unat width - 1) div 8 < unat len" using b(1,3) by linarith
  show "(start_bit + unat width - 1) div 8 - start_bit div 8 + 1 \<le> 8"
    using b(1,2) by (rule field_span_bytes)
  have w: "width \<noteq> 0" "\<not> 64 < width" using b(1,2) by (auto simp: word_less_nat_alt)
  have d: "start_bit div 8 \<le> (start_bit + unat width - 1) div 8" using b(1) by (simp add: div_le_mono)
  then have f: "start_bit div 8 < unat len" using l by simp
  have s: "start_bit + unat width < 2 ^ 64" using b(3) assms(3) by simp
  have c: "checked_add start_bit (unat width) = Some (start_bit + unat width)"
    "checked_add ((start_bit + unat width - 1) div 8) 1 = Some ((start_bit + unat width - 1) div 8 + 1)"
    "checked_sub ((start_bit + unat width - 1) div 8) (start_bit div 8)
       = Some ((start_bit + unat width - 1) div 8 - start_bit div 8)"
    "checked_add ((start_bit + unat width - 1) div 8 - start_bit div 8) 1
       = Some ((start_bit + unat width - 1) div 8 - start_bit div 8 + 1)"
    using s d l assms(3) unfolding checked_iffs usize_max_less by simp_all
  have e: "ensure_region_byte_range region (start_bit div 8) ((start_bit + unat width - 1) div 8) = Ok ()"
    using assms(2) l f by (simp add: ensure_region_byte_range_def c or_fail_def del: One_nat_def)
  have o: "saturating_sub (start_bit + unat width) 1 = start_bit + unat width - 1" by (simp add: saturating_sub_def)
  show "field_range region start_bit width =
      Ok (start_bit + unat width, start_bit div 8, (start_bit + unat width - 1) div 8 - start_bit div 8 + 1)"
    using w by (simp only: field_range_def c(1,3,4) e o or_fail_def Let_def ok_or.simps bind_result.simps
        Option.bind.bind_lunit if_False simp_thms)
qed

lemma read_field_bits_memory:
  assumes mem: "region_is_memory h region (unat len) mem put" and len: "region_length region = Some len" "unat len < 2 ^ 60"
    and fits: "field_fits region start_bit width"
  shows "\<exists>r. read_field_bits h region start_bit width s = (Ok r, s)
           \<and> (\<forall>i. bit r i \<longleftrightarrow> i < unat width \<and> mem_bit (mem s) (start_bit + i))"
proof -
  note range = field_fits_range [OF fits len]
  let ?n = "(start_bit + unat width - 1) div 8 - start_bit div 8 + 1"
  have b: "0 < unat width" "start_bit mod 8 + unat width \<le> 64" using fits by (auto simp: field_fits_def)
  have le: "start_bit div 8 + 0 + ?n \<le> unat len" "0 + ?n \<le> 8"
    using range(2,3) div_le_mono [of start_bit "start_bit + unat width - 1" 8] b(1) by auto
  obtain agg where agg: "read_field_loop h region (start_bit div 8) 0 ?n 0 s = (Ok agg, s)"
    "\<And>j. bit agg j \<longleftrightarrow> j < 8 * ?n \<and> mem_bit (mem s) (8 * (start_bit div 8) + j)"
    using read_loop_bits [OF mem le, of 0 s] by auto
  have "bit (drop_bit (start_bit mod 8) agg AND width_mask width) i \<longleftrightarrow> i < unat width \<and> mem_bit (mem s) (start_bit + i)" for i
  proof -
    have "start_bit mod 8 + i < 8 * ?n" if "i < unat width" using that by (rule field_bit_in_bytes)
    moreover have "8 * (start_bit div 8) + (start_bit mod 8 + i) = start_bit + i" by simp
    ultimately show ?thesis using b by (auto simp: bit_and_iff bit_drop_bit_eq bit_width_mask agg(2))
  qed
  then show ?thesis
    using agg(1) by (simp add: read_field_bits_def range(1) rbind_apply rret_def del: read_field_loop.simps One_nat_def)
qed

text \<open>
  C17. A field write replaces exactly the bits of the field. Over a region that is memory and shorter
  than \<open>2 ^ 60\<close> bytes, a field that fits (it lies in the region, and its width with its offset in the
  first byte is at most 64 bits) is written without error: its bits become the low bits of the value,
  the other bits of the bytes it touches keep their value or become one or zero as the update rule
  says, every other byte is untouched, and reading the field back returns the value cut to the field's
  width. A field of up to 64 bits that spans nine bytes does not fit; the code accepts it and gets it
  wrong (\<open>wide_unaligned_field_misread\<close>).
\<close>
theorem field_write_replaces_bits:
  assumes mem: "region_is_memory h region (unat len) mem put" and len: "region_length region = Some len" "unat len < 2 ^ 60"
    and fits: "field_fits region start_bit width"
  shows "\<exists>s'. write_field_bits h region start_bit width update v s = (Ok (), s')
          \<and> (\<forall>k. mem_bit (mem s') k =
               (if start_bit \<le> k \<and> k < start_bit + unat width then bit v (k - start_bit)
                else if start_bit div 8 \<le> k div 8 \<and> k div 8 \<le> (start_bit + unat width - 1) div 8
                then rest_bit update (mem_bit (mem s) k) else mem_bit (mem s) k))
          \<and> read_field_bits h region start_bit width s' = (Ok (v AND width_mask width), s')"
proof -
  note range = field_fits_range [OF fits len]
  let ?n = "(start_bit + unat width - 1) div 8 - start_bit div 8 + 1"
  let ?sh = "push_bit (start_bit mod 8) (v AND width_mask width)"
  have b: "0 < unat width" "start_bit mod 8 + unat width \<le> 64" using fits by (auto simp: field_fits_def)
  have d: "start_bit div 8 \<le> (start_bit + unat width - 1) div 8" using b(1) by (simp add: div_le_mono)
  obtain s' where s': "write_field_loop h region start_bit (start_bit + unat width) update ?sh (start_bit div 8) 0 ?n s = (Ok (), s')"
    "\<And>k. mem_bit (mem s') k = written_bit start_bit (start_bit + unat width) update ?sh (start_bit div 8)
        (start_bit div 8) (start_bit div 8 + ?n) (mem s) k"
    using write_loop_bits [OF mem, of start_bit "start_bit + unat width" "start_bit div 8" 0 ?n update ?sh s] range(2,3) d b(1)
    by auto
  have sh: "bit ?sh (k - 8 * (start_bit div 8)) \<longleftrightarrow> bit v (k - start_bit)" if "start_bit \<le> k" "k < start_bit + unat width" for k
  proof -
    have "k - 8 * (start_bit div 8) = start_bit mod 8 + (k - start_bit)" using that(1) mult_div_mod_eq [of 8 start_bit] by linarith
    then show ?thesis using that b by (auto simp: bit_push_bit_iff bit_and_iff bit_width_mask)
  qed
  have byte: "start_bit div 8 \<le> k div 8 \<and> k div 8 \<le> (start_bit + unat width - 1) div 8"
    if "start_bit \<le> k" "k < start_bit + unat width" for k
    using that by (auto intro: div_le_mono)
  have bits: "mem_bit (mem s') k =
       (if start_bit \<le> k \<and> k < start_bit + unat width then bit v (k - start_bit)
        else if start_bit div 8 \<le> k div 8 \<and> k div 8 \<le> (start_bit + unat width - 1) div 8
        then rest_bit update (mem_bit (mem s) k) else mem_bit (mem s) k)" for k
    using sh [of k] byte [of k] d by (auto simp: s'(2) written_bit_def)
  obtain r where r: "read_field_bits h region start_bit width s' = (Ok r, s')"
    "\<And>i. bit r i \<longleftrightarrow> i < unat width \<and> mem_bit (mem s') (start_bit + i)"
    using read_field_bits_memory [OF mem len fits, of s'] by blast
  have "r = v AND width_mask width" using b by (intro bit_eqI) (auto simp: r(2) bits bit_and_iff bit_width_mask)
  then show ?thesis using s'(1) bits r(1) by (simp add: write_field_bits_def range(1) Let_def del: write_field_loop.simps One_nat_def)
qed

section \<open>A host with memory\<close>

text \<open>Every address space of this host is the same array of bytes; the remaining calls do nothing.\<close>

definition ram_host :: "(64 word \<Rightarrow> u8) AmlRegionAccessHost" where
  "ram_host =
     \<lparr>read_system_memory = (\<lambda>a w m. (Ok (ucast (m a)), m)),
      write_system_memory = (\<lambda>a w v m. (Ok (), m(a := ucast v))),
      read_system_io = (\<lambda>a w m. (Ok (ucast (m a)), m)),
      write_system_io = (\<lambda>a w v m. (Ok (), m(a := ucast v))),
      read_pci_config = (\<lambda>a w m. (Ok (ucast (m a)), m)),
      write_pci_config = (\<lambda>a w v m. (Ok (), m(a := ucast v))),
      read_embedded_controller = (\<lambda>a m. (Ok (m (ucast a)), m)),
      write_embedded_controller = (\<lambda>a v m. (Ok (), m(ucast a := v))),
      stall_us = (\<lambda>us m. (Ok (), m)), sleep_ms = (\<lambda>ms m. (Ok (), m)), notify = (\<lambda>n v m. (Ok (), m))\<rparr>"

definition ram_region :: "64 word \<Rightarrow> 64 word \<Rightarrow> AmlOpRegionDescriptor" where
  "ram_region base len =
     \<lparr>region_node = 0, region_space = SystemMemory, region_offset = Some base, region_length = Some len\<rparr>"

lemma ram_region_simps [simp]:
  "region_length (ram_region base len) = Some len" "region_offset (ram_region base len) = Some base"
  "region_space (ram_region base len) = SystemMemory"
  by (simp_all add: ram_region_def)

lemma ucast_u8_u64 [simp]: "ucast (ucast (v :: u8) :: 64 word) = v"
  by (rule bit_word_eqI) (auto simp: bit_ucast_iff)

lemma ram_read: "read_region_byte ram_host (ram_region base len) k m = (Ok (m (base + of_nat k)), m)"
  by (simp add: read_region_byte_def ram_host_def host_op_def or_fail_def rbind_def rlift_def rret_def)

lemma ram_write: "write_region_byte ram_host (ram_region base len) k v m = (Ok (), m(base + of_nat k := v))"
  by (simp add: write_region_byte_def ram_host_def host_op_def or_fail_def)

lemma ram_is_memory:
  "region_is_memory ram_host (ram_region base len) (unat len)
     (\<lambda>m k. if k < unat len then m (base + of_nat k) else 0) (\<lambda>k v m. m(base + of_nat k := v))"
proof -
  have "unat len < 2 ^ LENGTH(64)" by (rule unsigned_less)
  then have "of_nat k = (of_nat j :: 64 word) \<longleftrightarrow> k = j" if "k < unat len" "j < unat len" for k j
    using that by (simp add: word_unat_eq_iff unat_of_nat)
  then show ?thesis by (auto simp: region_is_memory_def ram_read ram_write fun_eq_iff)
qed

text \<open>The loops by one step, for evaluation at a numeral.\<close>

lemma field_loop_steps:
  "0 < n \<Longrightarrow> read_field_loop h region f i n agg =
     rbind (read_region_byte h region (f + i)) (\<lambda>b.
       read_field_loop h region f (i + 1) (n - 1) (agg OR push_bit (i * 8 mod 64) (ucast b)))"
  "0 < n \<Longrightarrow> write_field_loop h region a b u v f i n =
     rbind (if byte_cover_mask a b ((f + i) * 8) \<noteq> 0 then
         rbind (preserve_base h region u (f + i)) (\<lambda>base.
           write_region_byte h region (f + i)
             ((base AND NOT (byte_cover_mask a b ((f + i) * 8)))
              OR (ucast (drop_bit (i * 8 mod 64) v AND 0xff) AND byte_cover_mask a b ((f + i) * 8))))
       else rret ())
     (\<lambda>_. write_field_loop h region a b u v f (i + 1) (n - 1))"
  by (cases n; simp add: Let_def)+

text \<open>
  A field that is 64 bits wide and does not start on a byte boundary is misread. In a memory whose
  only set bits are those of byte 8, the field of 60 bits from bit 4 reads 0 and the field of 4 bits
  from bit 64 reads 15, but the field of 64 bits from bit 4, which is the two together, reads 15
  instead of 15 times two to the power 60: the ninth byte is shifted by 64, which is a shift by zero
  (and a panic where overflow checks are on). Writing all ones to the field leaves byte 8 unset.
\<close>
theorem wide_unaligned_field_misread:
  "read_field_bits ram_host (ram_region 0 16) 4 60 ((\<lambda>_. 0)(8 := 0xff)) = (Ok 0, (\<lambda>_. 0)(8 := 0xff))
   \<and> read_field_bits ram_host (ram_region 0 16) 64 4 ((\<lambda>_. 0)(8 := 0xff)) = (Ok 0xf, (\<lambda>_. 0)(8 := 0xff))
   \<and> read_field_bits ram_host (ram_region 0 16) 4 64 ((\<lambda>_. 0)(8 := 0xff)) = (Ok 0xf, (\<lambda>_. 0)(8 := 0xff))
   \<and> snd (write_field_bits ram_host (ram_region 0 16) 4 64 Preserve (- 1) (\<lambda>_. 0)) 8 = 0"
proof (intro conjI)
  have r: "field_range (ram_region 0 16) 4 60 = Ok (64, 0, 8)" "field_range (ram_region 0 16) 64 4 = Ok (68, 8, 1)"
    "field_range (ram_region 0 16) 4 64 = Ok (68, 0, 9)"
    by (simp_all add: field_range_def ensure_region_byte_range_def checked_add_def checked_sub_def saturating_sub_def
        usize_max_def or_fail_def)
  show "read_field_bits ram_host (ram_region 0 16) 4 60 ((\<lambda>_. 0)(8 := 0xff)) = (Ok 0, (\<lambda>_. 0)(8 := 0xff))"
    by (simp add: read_field_bits_def r field_loop_steps rlift_def rbind_def rret_def ram_read)
  show "read_field_bits ram_host (ram_region 0 16) 64 4 ((\<lambda>_. 0)(8 := 0xff)) = (Ok 0xf, (\<lambda>_. 0)(8 := 0xff))"
    by (simp add: read_field_bits_def r rlift_def rbind_def rret_def ram_read width_mask_def)
  show "read_field_bits ram_host (ram_region 0 16) 4 64 ((\<lambda>_. 0)(8 := 0xff)) = (Ok 0xf, (\<lambda>_. 0)(8 := 0xff))"
    by (simp add: read_field_bits_def r field_loop_steps rlift_def rbind_def rret_def ram_read width_mask_def)
  show "snd (write_field_bits ram_host (ram_region 0 16) 4 64 Preserve (- 1) (\<lambda>_. 0)) 8 = 0"
  proof -
    have m: "byte_cover_mask 4 68 0 = 0xf0" "byte_cover_mask 4 68 8 = 0xff" "byte_cover_mask 4 68 16 = 0xff"
      "byte_cover_mask 4 68 24 = 0xff" "byte_cover_mask 4 68 32 = 0xff" "byte_cover_mask 4 68 40 = 0xff"
      "byte_cover_mask 4 68 48 = 0xff" "byte_cover_mask 4 68 56 = 0xff" "byte_cover_mask 4 68 64 = 0x0f"
      by code_simp+
    show ?thesis
      by (simp add: write_field_bits_def r field_loop_steps m rlift_def rbind_def rret_def ram_read ram_write width_mask_def
          preserve_base_def mask_eq_exp_minus_1 del: write_field_loop.simps(2))
  qed
qed

text \<open>A host whose memory answers only at three addresses.\<close>

definition sample_field_host :: "(64 word \<Rightarrow> u8) AmlRegionAccessHost" where
  "sample_field_host = ram_host\<lparr>read_system_memory := (\<lambda>a w m. if a \<in> {5..<8} then (Ok (ucast (m a)), m)
     else (Err (AmlError HostFailure ''aml host failure''), m))\<rparr>"

theorem field_access_stays_in_region_witness:
  "same_on ram_host sample_field_host (ram_region 4 16) (covered_bytes (ram_region 4 16) 12 20)
   \<and> read_field_bits ram_host (ram_region 4 16) 12 20 (\<lambda>_. 0xa5)
       = read_field_bits sample_field_host (ram_region 4 16) 12 20 (\<lambda>_. 0xa5)"
proof -
  have cov: "1 \<le> k" "k < 4" if "k \<in> covered_bytes (ram_region 4 16) 12 20" for k
    using that by (auto simp: covered_bytes_def)
  have "read_region_byte sample_field_host (ram_region 4 16) k = read_region_byte ram_host (ram_region 4 16) k"
    if k: "1 \<le> k" "k < 4" for k
  proof -
    have "unat (4 + of_nat k :: 64 word) = 4 + k" using k by (simp add: unat_word_ariths unat_of_nat)
    then have "(4 + of_nat k :: 64 word) \<in> {5..<8}" using k by (simp add: word_less_nat_alt word_le_nat_alt)
    then show ?thesis by (simp add: read_region_byte_def sample_field_host_def ram_host_def host_op_def or_fail_def Let_def)
  qed
  moreover have "write_region_byte sample_field_host (ram_region 4 16) k v = write_region_byte ram_host (ram_region 4 16) k v" for k v
    by (simp add: write_region_byte_def sample_field_host_def ram_host_def or_fail_def)
  ultimately have same: "same_on ram_host sample_field_host (ram_region 4 16) (covered_bytes (ram_region 4 16) 12 20)"
    using cov by (simp add: same_on_def)
  have "unat (20 :: u8) = 20" by simp
  then show ?thesis
    using field_access_stays_in_region [of ram_host sample_field_host "ram_region 4 16" 12 20] same by simp
qed

theorem field_write_replaces_bits_witness:
  "\<exists>m. write_field_bits ram_host (ram_region 4 16) 12 20 Preserve 0x12345 (\<lambda>_. 0xff) = (Ok (), m)
     \<and> read_field_bits ram_host (ram_region 4 16) 12 20 m = (Ok 0x12345, m)"
proof -
  have fits: "field_fits (ram_region 4 16) 12 20" by (simp add: field_fits_def)
  have v: "0x12345 AND width_mask 20 = 0x12345" by (simp add: width_mask_def)
  show ?thesis
    using field_write_replaces_bits [OF ram_is_memory ram_region_simps(1) _ fits, of Preserve "0x12345" "\<lambda>_. 0xff"] v
    by auto
qed

end
