(* ===== verification/Aml_Eval_Demo.thy ===== *)
theory Aml_Eval_Demo
  imports Aml_Eval Aml_State_Props Aml_Field_Props
begin

text \<open>A namespace with one method at the root whose body is given, for concrete runs.\<close>

definition demo_location :: "bytes \<Rightarrow> AmlCodeLocation" where
  "demo_location code = \<lparr>block_index = 0, span = \<lparr>span_offset = 0, span_length = of_nat (length code)\<rparr>\<rparr>"

definition one_method :: "u8 \<Rightarrow> bytes \<Rightarrow> unit eval_context" where
  "one_method rv code =
     \<lparr>ev_namespace =
        \<lparr>namespace = \<lparr>ns_state = Initialized, node_count = 1\<rparr>,
         records =
           [\<lparr>descriptor = \<lparr>node_id = 0, node_parent = None, node_kind = KMethod, node_path = root_path\<rparr>,
             body = Some (demo_location code),
             payload = PayloadMethod
               \<lparr>method_node = 0, arg_count = 0, serialization = NotSerialized, sync_level = 0, method_kind = Ordinary,
                method_body = demo_location code\<rparr>\<rparr>],
         blocks =
           \<lparr>dsdt =
              \<lparr>block_kind = Dsdt,
               header = \<lparr>signature = [0x44, 0x53, 0x44, 0x54], revision = rv, oem_id = [], oem_table_id = [], oem_revision = 0\<rparr>,
               block_bytes = code\<rparr>,
            ssdts = []\<rparr>\<rparr>,
      ev_host = None\<rparr>"

definition call_it :: "AmlValue list \<Rightarrow> AmlMethodInvocation" where
  "call_it vs = \<lparr>invoked_method = 0, invocation_args = vs\<rparr>"

definition fresh_frame :: "u8 \<Rightarrow> AmlEvalFrame" where
  "fresh_frame rv =
     \<lparr>frame_width = from_definition_block_revision rv, current_scope_path = method_scope (hd (records (ev_namespace (one_method rv [])))),
      args = replicate 7 None, locals = replicate 8 None, named_values = replicate 8 None, recursion_depth = 0\<rparr>"

lemma one_method_entry:
  assumes "length code < 2 ^ 32"
  shows "method_entry (one_method rv code) (call_it []) = Ok (code, fresh_frame rv)"
proof -
  have "unat (of_nat (length code) :: u32) = length code" using assms by (simp add: unat_of_nat)
  then have "code_bytes (ev_namespace (one_method rv code)) (demo_location code) = Some code"
    using assms
    by (simp add: code_bytes_def one_method_def demo_location_def block_at_def checked_add_def get_range_def usize_max_def)
  then show ?thesis
    by (simp add: method_entry_def call_it_def record_of_def one_method_def or_fail_def frame_new_def fresh_frame_def
        namespace_width_def method_scope_def)
qed

lemma one_method_width: "namespace_width (one_method rv code) = from_definition_block_revision rv"
  by (simp add: namespace_width_def one_method_def)

lemma return_one:
  "evaluate_internal (one_method 2 [0xa4, 0x01]) (Suc (Suc 0)) (call_it []) st ()
     = (Ok \<lparr>return_value = Some (VInteger 1), blocked = False\<rparr>, st, ())"
  by (simp add: evaluate_internal_def one_method_entry eval_term_list_def eval_statement_def eval_term_arg_def
      constant_term_def slice_get_def slice_from_def or_fail_def rbind_def rlift_def rret_def get_frame_def integer_def
      fresh_frame_def from_definition_block_revision_def outcome_of_def)

end
