(* ===== verification/Aml_Eval_Fuel.thy ===== *)
theory Aml_Eval_Fuel
  imports Aml_Eval_Demo
begin

text \<open>
  Fuel only decides whether a run ends. \<open>extends f g\<close>: where \<open>f\<close> does not run out of fuel, \<open>g\<close> does the
  same. Every operation of the evaluator is monotone in the evaluator it is given, so an outcome
  reached with some fuel is reached with any larger one; a run has at most one outcome.
\<close>

definition extends :: "('a, 's) run \<Rightarrow> ('a, 's) run \<Rightarrow> bool" where
  "extends f g \<longleftrightarrow> (\<forall>s. fst (f s) = Err Diverge \<or> g s = f s)"

definition evaluator_extends :: "'h evaluator \<Rightarrow> 'h evaluator \<Rightarrow> bool" where
  "evaluator_extends E F \<longleftrightarrow>
     (\<forall>bs. extends (call_term_list E bs) (call_term_list F bs))
     \<and> (\<forall>bs. extends (call_term_arg E bs) (call_term_arg F bs))
     \<and> (\<forall>bs v. extends (call_assign_target E bs v) (call_assign_target F bs v))
     \<and> (\<forall>bs a b. extends (call_while E bs a b) (call_while F bs a b))"

named_theorems extends_intros \<open>operations are monotone in the evaluator\<close>

lemma extends_refl [extends_intros]: "extends f f"
  by (simp add: extends_def)

lemma extends_bind [extends_intros]:
  assumes "extends f g" and "\<And>x. extends (h x) (k x)"
  shows "extends (rbind f h) (rbind g k)"
  unfolding extends_def
proof
  fix s
  show "fst (rbind f h s) = Err Diverge \<or> rbind g k s = rbind f h s"
    using assms(1) [unfolded extends_def, rule_format, of s]
      assms(2) [unfolded extends_def]
    by (cases "f s"; cases "fst (f s)") (auto simp: rbind_def)
qed

lemma extends_in_frame [extends_intros]: "extends f g \<Longrightarrow> extends (in_frame fr f) (in_frame fr g)"
  unfolding extends_def in_frame_def by (auto simp: Let_def split_beta)

lemma extends_cases [extends_intros]:
  "\<lbrakk>b \<Longrightarrow> extends f g; \<not> b \<Longrightarrow> extends f' g'\<rbrakk> \<Longrightarrow> extends (if b then f else f') (if b then g else g')"
  "(\<And>x y. extends (h x y) (k x y)) \<Longrightarrow> extends (case p of (x, y) \<Rightarrow> h x y) (case p of (x, y) \<Rightarrow> k x y)"
  "\<lbrakk>extends f g; \<And>x. extends (i x) (j x)\<rbrakk> \<Longrightarrow>
     extends (case m of None \<Rightarrow> f | Some x \<Rightarrow> i x) (case m of None \<Rightarrow> g | Some x \<Rightarrow> j x)"
  "(\<And>x. extends (q x) (r x)) \<Longrightarrow> extends (Let y q) (Let y r)"
  by (auto simp: extends_def split: prod.splits option.splits)

lemma extends_payload [extends_intros]:
  "\<lbrakk>extends a a'; \<And>x. extends (b x) (b' x); \<And>x. extends (d x) (d' x); \<And>x. extends (e x) (e' x); \<And>x. extends (f x) (f' x)\<rbrakk>
   \<Longrightarrow> extends (case p of PayloadNone \<Rightarrow> a | NameInteger x \<Rightarrow> b x | PayloadMethod x \<Rightarrow> d x | PayloadOpRegion x \<Rightarrow> e x | PayloadField x \<Rightarrow> f x)
         (case p of PayloadNone \<Rightarrow> a' | NameInteger x \<Rightarrow> b' x | PayloadMethod x \<Rightarrow> d' x | PayloadOpRegion x \<Rightarrow> e' x | PayloadField x \<Rightarrow> f' x)"
  by (cases p) simp_all

lemma extends_control [extends_intros]:
  "\<lbrakk>extends a a'; extends b b'; extends d d'; \<And>x. extends (e x) (e' x)\<rbrakk>
   \<Longrightarrow> extends (case p of Continue \<Rightarrow> a | Blocked \<Rightarrow> b | Break \<Rightarrow> d | Return x \<Rightarrow> e x)
         (case p of Continue \<Rightarrow> a' | Blocked \<Rightarrow> b' | Break \<Rightarrow> d' | Return x \<Rightarrow> e' x)"
  by (cases p) simp_all

lemma evaluator_extendsD [extends_intros]:
  assumes "evaluator_extends E F"
  shows "extends (call_term_list E bs) (call_term_list F bs)" "extends (call_term_arg E bs) (call_term_arg F bs)"
    "extends (call_assign_target E bs v) (call_assign_target F bs v)" "extends (call_while E bs a b) (call_while F bs a b)"
  using assms by (simp_all add: evaluator_extends_def)

lemma extends_static [extends_intros]:
  assumes "evaluator_extends E F"
  shows "extends (eval_static_name_value c E loc) (eval_static_name_value c F loc)"
  unfolding eval_static_name_value_def by (intro extends_intros assms)

lemma extends_element_loop [extends_intros]:
  assumes "evaluator_extends E F"
  shows "extends (static_element_loop c E loc e i cu k n) (static_element_loop c F loc e i cu k n)"
  by (induction n arbitrary: cu k) (simp_all, (intro extends_intros assms | assumption)+)

lemma extends_static_package [extends_intros]:
  assumes "evaluator_extends E F"
  shows "extends (static_package_element_value c E loc i) (static_package_element_value c F loc i)"
  unfolding static_package_element_value_def by (intro extends_intros assms)

lemma extends_index_value [extends_intros]:
  assumes "evaluator_extends E F"
  shows "extends (index_value c E base i) (index_value c F base i)"
  unfolding index_value_def Let_def
  by (cases base; simp only: AmlValue.case; intro extends_intros assms)

lemma extends_args_loop [extends_intros]:
  assumes "evaluator_extends E F"
  shows "extends (eval_args_loop E bs n k vs) (eval_args_loop F bs n k vs)"
  by (induction n arbitrary: k vs) (simp_all, (intro extends_intros assms | assumption)+)

lemma extends_invoke [extends_intros]:
  assumes "evaluator_extends E F"
  shows "extends (invoke_method_from_term c E m bs) (invoke_method_from_term c F m bs)"
  unfolding invoke_method_from_term_def invoke_method_descriptor_def by (intro extends_intros assms)

lemma extends_named_term [extends_intros]:
  assumes "evaluator_extends E F"
  shows "extends (eval_named_term c E bs) (eval_named_term c F bs)"
  unfolding eval_named_term_def by (intro extends_intros assms)

lemma extends_targets [extends_intros]:
  assumes "evaluator_extends E F"
  shows "extends (assign_index_target c E bs v) (assign_index_target c F bs v)"
    and "extends (read_target_value c E bs) (read_target_value c F bs)"
  unfolding assign_index_target_def read_target_value_def by (intro extends_intros assms)+

lemma extends_operands [extends_intros]:
  assumes "evaluator_extends E F" and "\<And>x y n. extends (k x y n) (l x y n)"
  shows "extends (eval_operands E bs k) (eval_operands F bs l)"
  unfolding eval_operands_def by (intro extends_intros assms)

lemma extends_operand [extends_intros]:
  assumes "evaluator_extends E F"
  shows "extends (eval_operand E bs k) (eval_operand F bs k)"
  unfolding eval_operand_def by (intro extends_intros assms)

lemma extends_operators [extends_intros]:
  assumes "evaluator_extends E F"
  shows "extends (eval_binary_op E bs f) (eval_binary_op F bs f)" "extends (eval_logic_compare E bs p) (eval_logic_compare F bs p)"
    "extends (eval_divide E bs) (eval_divide F bs)" "extends (eval_deref E bs) (eval_deref F bs)"
    "extends (eval_size_of c E bs) (eval_size_of c F bs)" "extends (eval_object_type E bs) (eval_object_type F bs)"
    "extends (eval_not E bs) (eval_not F bs)" "extends (eval_logic_not E bs) (eval_logic_not F bs)"
    "extends (eval_index c E bs) (eval_index c F bs)" "extends (eval_store E bs) (eval_store F bs)"
    "extends (eval_update_op c E bs u) (eval_update_op c F bs u)"
  unfolding eval_binary_op_def eval_logic_compare_def eval_divide_def eval_deref_def eval_size_of_def
    eval_object_type_def eval_not_def eval_logic_not_def eval_index_def eval_store_def eval_update_op_def
  by (intro extends_intros assms)+

lemma extends_package_loop [extends_intros]:
  assumes "evaluator_extends E F"
  shows "extends (package_init_loop E h bs e cu i n) (package_init_loop F h bs e cu i n)"
  by (induction n arbitrary: cu i) (simp_all, (intro extends_intros assms impI conjI | assumption)+)

lemma extends_initializers [extends_intros]:
  assumes "evaluator_extends E F"
  shows "extends (eval_name_initializer c E bs) (eval_name_initializer c F bs)"
  unfolding eval_name_initializer_def eval_package_initializer_def eval_buffer_initializer_def
  by (intro extends_intros assms)

lemma extends_statement [extends_intros]:
  assumes "evaluator_extends E F"
  shows "extends (eval_statement c E bs) (eval_statement c F bs)"
  unfolding eval_statement_def eval_name_statement_def eval_ext_statement_def eval_if_def eval_while_def
    eval_dynamic_opregion_statement_def
  by (intro extends_intros assms)

lemma extends_entries [extends_intros]:
  assumes "evaluator_extends E F"
  shows "extends (eval_term_list c E bs) (eval_term_list c F bs)" "extends (eval_term_arg c E bs) (eval_term_arg c F bs)"
    "extends (assign_target c E bs v) (assign_target c F bs v)" "extends (eval_while_loop E bs a b) (eval_while_loop F bs a b)"
  unfolding eval_term_list_def eval_term_arg_def assign_target_def eval_while_loop_def
  by (intro extends_intros assms)+

lemma evaluators_Suc: "evaluator_extends (evaluators c n) (evaluators c (Suc n))"
proof (induction n)
  case 0
  show ?case by (simp add: evaluator_extends_def extends_def diverge_def rlift_def)
next
  case (Suc n)
  then show ?case
    using extends_entries [OF Suc] by (simp add: evaluator_extends_def)
qed

lemma evaluators_le: "n \<le> k \<Longrightarrow> evaluator_extends (evaluators c n) (evaluators c k)"
proof (induction rule: dec_induct)
  case base
  show ?case by (simp add: evaluator_extends_def extends_def)
next
  case (step k)
  then show ?case
    using evaluators_Suc [of c k] unfolding evaluator_extends_def extends_def by metis
qed

text \<open>
  Fuel does not influence what a run does. When the evaluation of a method ends with some fuel,
  with a value, an error or a panic, it ends in the same way with any larger fuel, leaving the same
  overlay and the same host state; so only running forever is left to the outcome \<open>Diverge\<close>.
\<close>
theorem evaluation_independent_of_fuel:
  assumes "fst (evaluate_internal c n invocation st hs) \<noteq> Err Diverge" and "n \<le> k"
  shows "evaluate_internal c k invocation st hs = evaluate_internal c n invocation st hs"
proof -
  have "fst (call_term_list (evaluators c n) code m) = Err Diverge
      \<or> call_term_list (evaluators c k) code m = call_term_list (evaluators c n) code m" for code m
    using evaluators_le [OF assms(2), of c] by (simp add: evaluator_extends_def extends_def)
  note ext = this
  show ?thesis
  proof (cases "method_entry c invocation")
    case (Ok entry)
    obtain code fr where entry: "entry = (code, fr)" by (cases entry)
    let ?m = "\<lparr>host_state = hs, runtime = st, frame = fr\<rparr>"
    have "fst (call_term_list (evaluators c n) code ?m) \<noteq> Err Diverge"
      using assms(1) Ok entry by (auto simp: evaluate_internal_def split: prod.splits)
    then show ?thesis using ext [of code ?m] Ok entry by (simp add: evaluate_internal_def)
  qed (simp add: evaluate_internal_def)
qed

text \<open>\<open>Return(One)\<close> ends with two units of fuel, so also with a million.\<close>

theorem evaluation_independent_of_fuel_witness:
  "evaluate_internal (one_method 2 [0xa4, 0x01]) 1000000 (call_it []) None ()
     = (Ok \<lparr>return_value = Some (VInteger 1), blocked = False\<rparr>, None, ())"
  using evaluation_independent_of_fuel [of "one_method 2 [0xa4, 0x01]" "Suc (Suc 0)" "call_it []" None "()" 1000000]
  by (simp add: return_one)

end
