(* ===== verification/Aml_Eval_Prog.thy ===== *)
theory Aml_Eval_Prog
  imports Aml_Eval_Fuel
begin

text \<open>
  The evaluator against a structured language. Expressions and statements (stores to locals and
  arguments, \<open>If\<close> with \<open>Else\<close>, \<open>While\<close>, \<open>Break\<close>, \<open>Return\<close>) have a direct meaning over a frame and an encoding as AML
  byte code; evaluating the encoding does what the meaning says. The offsets of nested packages, the
  bytes an operand takes and the way \<open>Break\<close> and \<open>Return\<close> leave nested lists are what the byte-level code has
  to get right.
\<close>

section \<open>Expressions\<close>

datatype expr =
    Const "64 word"
  | LocalVar nat
  | ArgVar nat
  | Bin u8 expr expr
  | Cmp u8 expr expr
  | LNot expr
  | BNot expr

definition cut :: "AmlIntegerWidth \<Rightarrow> 64 word \<Rightarrow> 64 word" where
  "cut w v = (case w of Bits32 \<Rightarrow> ucast (ucast v :: u32) | Bits64 \<Rightarrow> v)"

definition slot_integer :: "AmlValue option \<Rightarrow> 64 word option" where
  "slot_integer s = (case s of Some (VInteger v) \<Rightarrow> Some v | _ \<Rightarrow> None)"

text \<open>The meaning; \<open>None\<close> when a slot it reads holds no integer.\<close>

fun expr_val :: "AmlEvalFrame \<Rightarrow> expr \<Rightarrow> 64 word option" where
  "expr_val fr (Const v) = Some (cut (frame_width fr) v)"
| "expr_val fr (LocalVar i) = slot_integer (locals fr ! i)"
| "expr_val fr (ArgVar i) = slot_integer (args fr ! i)"
| "expr_val fr (Bin op a b) =
     Option.bind (expr_val fr a) (\<lambda>x. Option.bind (expr_val fr b) (\<lambda>y.
       map_option (\<lambda>f. cut (frame_width fr) (f x y)) (binary_op op)))"
| "expr_val fr (Cmp op a b) =
     Option.bind (expr_val fr a) (\<lambda>x. Option.bind (expr_val fr b) (\<lambda>y.
       map_option (\<lambda>f. of_bool (f x y)) (compare_op op)))"
| "expr_val fr (LNot a) = map_option (\<lambda>x. of_bool (x = 0)) (expr_val fr a)"
| "expr_val fr (BNot a) = map_option (\<lambda>x. cut (frame_width fr) (NOT x)) (expr_val fr a)"

fun expr_wf :: "expr \<Rightarrow> bool" where
  "expr_wf (Const v) \<longleftrightarrow> True"
| "expr_wf (LocalVar i) \<longleftrightarrow> i < 8"
| "expr_wf (ArgVar i) \<longleftrightarrow> i < 7"
| "expr_wf (Bin op a b) \<longleftrightarrow> expr_wf a \<and> expr_wf b"
| "expr_wf (Cmp op a b) \<longleftrightarrow> expr_wf a \<and> expr_wf b"
| "expr_wf (LNot a) \<longleftrightarrow> expr_wf a"
| "expr_wf (BNot a) \<longleftrightarrow> expr_wf a"

fun expr_height :: "expr \<Rightarrow> nat" where
  "expr_height (Bin op a b) = Suc (max (expr_height a) (expr_height b))"
| "expr_height (Cmp op a b) = Suc (max (expr_height a) (expr_height b))"
| "expr_height (LNot a) = Suc (expr_height a)"
| "expr_height (BNot a) = Suc (expr_height a)"
| "expr_height _ = 1"

definition le_bytes :: "64 word \<Rightarrow> bytes" where
  "le_bytes v = map (\<lambda>i. ucast (drop_bit (8 * i) v)) [0..<8]"

fun expr_bytes :: "expr \<Rightarrow> bytes" where
  "expr_bytes (Const v) = 0x0e # le_bytes v"
| "expr_bytes (LocalVar i) = [0x60 + of_nat i]"
| "expr_bytes (ArgVar i) = [0x68 + of_nat i]"
| "expr_bytes (Bin op a b) = op # expr_bytes a @ expr_bytes b @ [0x00]"
| "expr_bytes (Cmp op a b) = op # expr_bytes a @ expr_bytes b"
| "expr_bytes (LNot a) = 0x92 # expr_bytes a"
| "expr_bytes (BNot a) = 0x80 # expr_bytes a"

lemma integer_cut: "integer v w = VInteger (cut w v)"
  by (simp add: integer_def cut_def)

lemma cut_of_bool [simp]: "cut w (of_bool b) = of_bool b"
  by (cases w; cases b) (simp_all add: cut_def)

lemma from_le_bytes_8: "from_le_bytes (le_bytes v) = v"
  using from_le_bytes_take [of 8 v] by (simp add: le_bytes_def take_bit_word_eq_self)

lemma length_le_bytes [simp]: "length (le_bytes v) = 8"
  by (simp add: le_bytes_def)

section \<open>Running an expression\<close>

lemma slice_simps [simp]:
  "slice_get (b # bs) 0 = Some b" "slice_from (b # bs) (Suc 0) = Ok bs" "slice_from (b # bs) (Suc n) = slice_from bs n"
  "slice_from (xs @ ys) (length xs) = Ok ys" "slice_from bs 0 = Ok bs"
  by (simp_all add: slice_get_def slice_from_def)

lemma slice_past [simp]: "slice_from (xs @ ys) (length xs + n) = slice_from ys n"
  by (simp add: slice_from_def)

lemma rbind_ok [simp]: "rbind (rlift (or_fail e (Some x))) f = f x"
  by (simp add: or_fail_def)

lemma run_apply [simp]: "rlift r m = (r, m)" "rret x m = (Ok x, m)"
  by (simp_all add: rlift_def rret_def)

lemma get_frame_bind [simp]: "rbind get_frame g m = g (frame m) m"
  by (simp add: rbind_def get_frame_def)

text \<open>The opcodes of the operators are not constants or other terms.\<close>

lemma binary_op_opcode: "binary_op op = Some f \<Longrightarrow> constant_term w bs op = None"
  by (auto simp: binary_op_def constant_term_def split: if_splits)

lemma compare_op_opcode: "compare_op op = Some f \<Longrightarrow> constant_term w bs op = None \<and> binary_op op = None"
  by (auto simp: compare_op_def binary_op_def constant_term_def split: if_splits)

lemma of_nat_slot: "i < 8 \<Longrightarrow> unat (of_nat i :: u8) = i"
  by (simp add: unat_of_nat)

lemma null_target: "0 < n \<Longrightarrow> call_assign_target (evaluators c n) (0 # bs) v m = (Ok 1, m)"
  by (cases n) (simp_all add: assign_target_def rret_def)

lemma expr_height_pos: "0 < expr_height e"
  by (cases e) simp_all

lemma expr_bytes_nonempty: "expr_bytes e \<noteq> []"
  by (cases e) simp_all

lemma slot_integer_Some [simp]: "slot_integer s = Some v \<longleftrightarrow> s = Some (VInteger v)"
  by (auto simp: slot_integer_def split: option.splits AmlValue.splits)

lemma term_constant: "eval_term_arg c E (0x0e # le_bytes v @ bs) m = (Ok (VInteger (cut (frame_width (frame m)) v), 9), m)"
proof -
  have "constant_term w (0x0e # le_bytes v @ bs) 0x0e = Some (Ok (integer v w, 9))" for w
    by (simp add: constant_term_def get_range_def or_fail_def from_le_bytes_8)
  then show ?thesis by (simp add: eval_term_arg_def integer_cut)
qed

lemma slot_opcode:
  "i < 8 \<Longrightarrow> (0x60 :: u8) \<le> 0x60 + of_nat i \<and> 0x60 + of_nat i \<le> (0x67 :: u8) \<and> unat (0x60 + of_nat i - 0x60 :: u8) = i"
  "j < 7 \<Longrightarrow> (0x68 :: u8) \<le> 0x68 + of_nat j \<and> 0x68 + of_nat j \<le> (0x6e :: u8) \<and> unat (0x68 + of_nat j - 0x68 :: u8) = j"
  by (auto simp: word_le_nat_alt unat_word_ariths unat_of_nat)

lemma slot_opcode_else:
  fixes x :: u8
  assumes "0x60 \<le> x" "x \<le> 0x6e"
  shows "constant_term w bs x = None" "binary_op x = None" "compare_op x = None" "x \<noteq> 0x0d"
  using assms by (auto simp: constant_term_def binary_op_def compare_op_def word_le_nat_alt)

lemma term_local:
  assumes "i < 8" and "locals (frame m) ! i = Some v"
  shows "eval_term_arg c E ((0x60 + of_nat i) # bs) m = (Ok (v, 1), m)"
proof -
  let ?x = "0x60 + of_nat i :: u8"
  have x: "0x60 \<le> ?x" "?x \<le> 0x67" "unat (?x - 0x60) = i" using slot_opcode(1) [OF assms(1)] by auto
  then have "?x \<le> 0x6e" by (simp add: word_le_nat_alt)
  from slot_opcode_else [OF x(1) this] x assms(2) show ?thesis
    by (simp add: eval_term_arg_def)
qed

lemma term_arg:
  assumes "i < 7" and "args (frame m) ! i = Some v"
  shows "eval_term_arg c E ((0x68 + of_nat i) # bs) m = (Ok (v, 1), m)"
proof -
  let ?x = "0x68 + of_nat i :: u8"
  have x: "0x68 \<le> ?x" "?x \<le> 0x6e" "unat (?x - 0x68) = i" using slot_opcode(2) [OF assms(1)] by auto
  then have "0x60 \<le> ?x" "\<not> ?x \<le> 0x67" by (simp_all add: word_le_nat_alt)
  with slot_opcode_else [OF this(1) x(2)] x assms(2) show ?thesis
    by (simp add: eval_term_arg_def)
qed

lemma operands_run:
  assumes "call_term_arg E (as @ bs @ cs) m = (Ok (x, length as), m)"
    and "call_term_arg E (bs @ cs) m = (Ok (y, length bs), m)"
  shows "eval_operands E (op # as @ bs @ cs) k m = k x y (1 + length as + length bs) m"
  using assms by (simp add: eval_operands_def rbind_apply)

lemma term_binary:
  assumes "binary_op op = Some f"
    and "call_term_arg E (as @ bs @ 0 # cs) m = (Ok (VInteger x, length as), m)"
    and "call_term_arg E (bs @ 0 # cs) m = (Ok (VInteger y, length bs), m)"
    and "\<And>v. call_assign_target E (0 # cs) v m = (Ok 1, m)"
  shows "eval_term_arg c E (op # as @ bs @ 0 # cs) m
       = (Ok (VInteger (cut (frame_width (frame m)) (f x y)), 2 + length as + length bs), m)"
  using assms(1,4) binary_op_opcode [OF assms(1)]
  by (simp add: eval_term_arg_def eval_binary_op_def operands_run [OF assms(2,3), simplified] as_integer_def integer_cut
      rbind_apply Let_def)

lemma term_compare:
  assumes "compare_op op = Some f"
    and "call_term_arg E (as @ bs @ cs) m = (Ok (VInteger x, length as), m)"
    and "call_term_arg E (bs @ cs) m = (Ok (VInteger y, length bs), m)"
  shows "eval_term_arg c E (op # as @ bs @ cs) m = (Ok (VInteger (of_bool (f x y)), 1 + length as + length bs), m)"
  using assms(1) compare_op_opcode [OF assms(1)]
  by (simp add: eval_term_arg_def eval_logic_compare_def operands_run [OF assms(2,3), simplified] as_integer_def integer_cut)

lemma term_not:
  assumes "call_term_arg E (as @ bs) m = (Ok (VInteger x, length as), m)"
  shows "eval_term_arg c E (0x92 # as @ bs) m = (Ok (VInteger (of_bool (x = 0)), 1 + length as), m)"
    and "eval_term_arg c E (0x80 # as @ bs) m = (Ok (VInteger (cut (frame_width (frame m)) (NOT x)), 1 + length as), m)"
  using assms
  by (simp_all add: eval_term_arg_def eval_logic_not_def eval_not_def eval_operand_def constant_term_def binary_op_def
      compare_op_def rbind_apply as_logic_def as_integer_def integer_cut)

lemma expr_runs:
  "expr_wf e \<Longrightarrow> expr_val (frame m) e = Some v \<Longrightarrow> expr_height e \<le> n \<Longrightarrow>
     call_term_arg (evaluators c n) (expr_bytes e @ bs) m = (Ok (VInteger v, length (expr_bytes e)), m)"
proof (induction e arbitrary: n v bs)
  case (Const x)
  then obtain k where n: "n = Suc k" by (cases n) auto
  then show ?case using Const.prems term_constant [of c "evaluators c k" x bs m] by simp
next
  case (LocalVar i)
  then obtain k where n: "n = Suc k" by (cases n) auto
  then show ?case using LocalVar.prems term_local [of i m "VInteger v" c "evaluators c k" bs] by simp
next
  case (ArgVar i)
  then obtain k where n: "n = Suc k" by (cases n) auto
  then show ?case using ArgVar.prems term_arg [of i m "VInteger v" c "evaluators c k" bs] by simp
next
  case (Bin op a b)
  then obtain k where n: "n = Suc k" by (cases n) auto
  have "0 < k" using Bin.prems(3) n expr_height_pos [of a] by simp
  then show ?case using Bin n by (auto simp: bind_eq_Some_conv null_target term_binary)
next
  case (Cmp op a b)
  then obtain k where n: "n = Suc k" by (cases n) auto
  then show ?case using Cmp by (auto simp: bind_eq_Some_conv term_compare)
next
  case (LNot a)
  then obtain k where n: "n = Suc k" by (cases n) auto
  then show ?case using LNot by (auto simp: term_not)
next
  case (BNot a)
  then obtain k where n: "n = Suc k" by (cases n) auto
  then show ?case using BNot by (auto simp: term_not)
qed

section \<open>Statements\<close>

datatype target = TLocal nat | TArg nat

datatype stmt =
    Store expr target
  | If expr "stmt list" "stmt list"
  | While expr "stmt list"
  | Ret expr
  | Brk
  | Nop

fun target_wf :: "target \<Rightarrow> bool" where
  "target_wf (TLocal i) \<longleftrightarrow> i < 8"
| "target_wf (TArg i) \<longleftrightarrow> i < 7"

fun set_target :: "target \<Rightarrow> 64 word \<Rightarrow> AmlEvalFrame \<Rightarrow> AmlEvalFrame" where
  "set_target (TLocal i) v fr = fr\<lparr>locals := (locals fr)[i := Some (VInteger v)]\<rparr>"
| "set_target (TArg i) v fr = fr\<lparr>args := (args fr)[i := Some (VInteger v)]\<rparr>"

text \<open>
  The meaning: \<open>exec_list fr ss ctl fr'\<close> runs \<open>ss\<close> from \<open>fr\<close> and leaves with \<open>ctl\<close>, \<open>Continue\<close> at the end of the
  list, \<open>Break\<close> at a break outside a loop of the list and \<open>Return v\<close> at a return. A loop that does not end
  has no derivation.
\<close>

inductive exec_stmt :: "AmlEvalFrame \<Rightarrow> stmt \<Rightarrow> AmlControl \<Rightarrow> AmlEvalFrame \<Rightarrow> bool"
  and exec_list :: "AmlEvalFrame \<Rightarrow> stmt list \<Rightarrow> AmlControl \<Rightarrow> AmlEvalFrame \<Rightarrow> bool" where
  exec_nop: "exec_stmt fr Nop Continue fr"
| exec_brk: "exec_stmt fr Brk Break fr"
| exec_ret: "expr_val fr e = Some v \<Longrightarrow> exec_stmt fr (Ret e) (Return (VInteger v)) fr"
| exec_store: "expr_val fr e = Some v \<Longrightarrow> exec_stmt fr (Store e t) Continue (set_target t v fr)"
| exec_then: "expr_val fr e = Some v \<Longrightarrow> v \<noteq> 0 \<Longrightarrow> exec_list fr ts ctl fr' \<Longrightarrow> exec_stmt fr (If e ts es) ctl fr'"
| exec_else: "expr_val fr e = Some 0 \<Longrightarrow> exec_list fr es ctl fr' \<Longrightarrow> exec_stmt fr (If e ts es) ctl fr'"
| exec_done: "expr_val fr e = Some 0 \<Longrightarrow> exec_stmt fr (While e ss) Continue fr"
| exec_again: "expr_val fr e = Some v \<Longrightarrow> v \<noteq> 0 \<Longrightarrow> exec_list fr ss Continue fr1 \<Longrightarrow>
    exec_stmt fr1 (While e ss) ctl fr' \<Longrightarrow> exec_stmt fr (While e ss) ctl fr'"
| exec_leave: "expr_val fr e = Some v \<Longrightarrow> v \<noteq> 0 \<Longrightarrow> exec_list fr ss Break fr' \<Longrightarrow>
    exec_stmt fr (While e ss) Continue fr'"
| exec_out: "expr_val fr e = Some v \<Longrightarrow> v \<noteq> 0 \<Longrightarrow> exec_list fr ss (Return r) fr' \<Longrightarrow>
    exec_stmt fr (While e ss) (Return r) fr'"
| exec_nil: "exec_list fr [] Continue fr"
| exec_next: "exec_stmt fr s Continue fr1 \<Longrightarrow> exec_list fr1 ss ctl fr' \<Longrightarrow> exec_list fr (s # ss) ctl fr'"
| exec_stop: "exec_stmt fr s ctl fr' \<Longrightarrow> ctl \<noteq> Continue \<Longrightarrow> exec_list fr (s # ss) ctl fr'"

definition pkg_bytes :: "bytes \<Rightarrow> bytes" where
  "pkg_bytes code = pkg_encode 3 (of_nat (length code + 4)) @ code"

fun target_byte :: "target \<Rightarrow> u8" where
  "target_byte (TLocal i) = 0x60 + of_nat i"
| "target_byte (TArg i) = 0x68 + of_nat i"

fun stmt_bytes :: "stmt \<Rightarrow> bytes" where
  "stmt_bytes (Store e t) = 0x70 # expr_bytes e @ [target_byte t]"
| "stmt_bytes (If e ts es) =
     0xa0 # pkg_bytes (expr_bytes e @ concat (map stmt_bytes ts)) @ 0xa1 # pkg_bytes (concat (map stmt_bytes es))"
| "stmt_bytes (While e ss) = 0xa2 # pkg_bytes (expr_bytes e @ concat (map stmt_bytes ss))"
| "stmt_bytes (Ret e) = 0xa4 # expr_bytes e"
| "stmt_bytes Brk = [0xa5]"
| "stmt_bytes Nop = [0xa3]"

abbreviation stmts_bytes :: "stmt list \<Rightarrow> bytes" where
  "stmts_bytes ss \<equiv> concat (map stmt_bytes ss)"

text \<open>Slots exist and every package length fits the format's 28 bits.\<close>

fun stmt_wf :: "stmt \<Rightarrow> bool" where
  "stmt_wf (Store e t) \<longleftrightarrow> expr_wf e \<and> target_wf t"
| "stmt_wf (If e ts es) \<longleftrightarrow> expr_wf e \<and> (\<forall>s \<in> set ts. stmt_wf s) \<and> (\<forall>s \<in> set es. stmt_wf s)
     \<and> length (expr_bytes e @ concat (map stmt_bytes ts)) + 4 < 2 ^ 28
     \<and> length (concat (map stmt_bytes es)) + 4 < 2 ^ 28"
| "stmt_wf (While e ss) \<longleftrightarrow> expr_wf e \<and> (\<forall>s \<in> set ss. stmt_wf s)
     \<and> length (expr_bytes e @ concat (map stmt_bytes ss)) + 4 < 2 ^ 28"
| "stmt_wf (Ret e) \<longleftrightarrow> expr_wf e"
| "stmt_wf Brk \<longleftrightarrow> True"
| "stmt_wf Nop \<longleftrightarrow> True"

section \<open>Running a statement\<close>

lemma pkg_bytes_parse:
  assumes "length code + 4 < 2 ^ 28"
  shows "parse_pkg_length (pkg_bytes code @ rest) = Ok \<lparr>pkg_value = of_nat (length code + 4), encoded_bytes = 4\<rparr>"
    and "unat (of_nat (length code + 4) :: u32) = length code + 4" and "length (pkg_bytes code) = length code + 4"
proof -
  show u: "unat (of_nat (length code + 4) :: u32) = length code + 4"
    using assms by (simp add: unat_of_nat del: of_nat_add)
  show "length (pkg_bytes code) = length code + 4" by (simp add: pkg_bytes_def pkg_encode_def)
  show "parse_pkg_length (pkg_bytes code @ rest) = Ok \<lparr>pkg_value = of_nat (length code + 4), encoded_bytes = 4\<rparr>"
    using pkg_roundtrip_Suc [of 3 "of_nat (length code + 4)" "code @ rest"] u assms by (simp add: pkg_bytes_def)
qed

lemma pkg_bytes_object:
  assumes "length code + 4 < 2 ^ 28"
  shows "object_package (op # pkg_bytes code @ rest) 1 =
    Ok (\<lparr>pkg_value = of_nat (length code + 4), encoded_bytes = 4\<rparr>, length code + 5, op # pkg_bytes code)"
proof -
  note p = pkg_bytes_parse [OF assms]
  have "take (5 + length code) (op # pkg_bytes code @ rest) = op # pkg_bytes code" using p(3) by (simp add: take_Cons')
  then show ?thesis using p by (simp add: object_package_def get_range_def or_fail_def)
qed

lemma pkg_bytes_code: "slice_from (op # pkg_bytes code) 5 = Ok code"
  by (simp add: pkg_bytes_def pkg_encode_def slice_from_def)

lemma pkg_bytes_rest: "slice_from (op # pkg_bytes (xs @ ys)) (5 + length xs) = Ok ys"
proof -
  define h where "h = pkg_encode 3 (of_nat (length (xs @ ys) + 4))"
  have "length h = 4" "pkg_bytes (xs @ ys) = h @ xs @ ys"
    by (simp_all add: h_def pkg_bytes_def pkg_encode_def)
  then have "op # pkg_bytes (xs @ ys) = (op # h @ xs) @ ys" "5 + length xs = length (op # h @ xs)" by simp_all
  then show ?thesis by (simp only: slice_simps)
qed

text \<open>A machine with a given frame.\<close>

abbreviation at_frame :: "'h machine \<Rightarrow> AmlEvalFrame \<Rightarrow> 'h machine" where
  "at_frame m fr \<equiv> m\<lparr>frame := fr\<rparr>"

lemma target_runs:
  assumes "target_wf t" and "0 < n"
  shows "call_assign_target (evaluators c n) (target_byte t # bs) (VInteger v) m = (Ok 1, at_frame m (set_target t v (frame m)))"
proof -
  obtain k where n: "n = Suc k" using assms(2) by (cases n) auto
  show ?thesis
  proof (cases t)
    case (TLocal i)
    let ?x = "0x60 + of_nat i :: u8"
    have x: "0x60 \<le> ?x" "?x \<le> 0x67" "unat (?x - 0x60) = i" using slot_opcode(1) [of i] assms(1) TLocal by auto
    then have "?x \<noteq> 0" by (auto simp: word_le_nat_alt)
    then show ?thesis using x TLocal n by (simp add: assign_target_def rbind_apply put_frame_def)
  next
    case (TArg i)
    let ?x = "0x68 + of_nat i :: u8"
    have x: "0x68 \<le> ?x" "?x \<le> 0x6e" "unat (?x - 0x68) = i" using slot_opcode(2) [of i] assms(1) TArg by auto
    then have "?x \<noteq> 0" "\<not> ?x \<le> 0x67" "?x \<noteq> 0x88" by (auto simp: word_le_nat_alt)
    then show ?thesis using x TArg n by (simp add: assign_target_def rbind_apply put_frame_def)
  qed
qed

definition stmt_runs :: "'h eval_context \<Rightarrow> 'h machine \<Rightarrow> nat \<Rightarrow> AmlEvalFrame \<Rightarrow> stmt \<Rightarrow> AmlControl \<Rightarrow> AmlEvalFrame \<Rightarrow> bool" where
  "stmt_runs c m n fr s ctl fr' \<longleftrightarrow>
     (\<forall>bs. \<exists>k > 0. eval_statement c (evaluators c n) (stmt_bytes s @ bs) (at_frame m fr) = (Ok (k, ctl), at_frame m fr')
        \<and> (ctl = Continue \<longrightarrow> k = length (stmt_bytes s)))"

definition list_runs :: "'h eval_context \<Rightarrow> 'h machine \<Rightarrow> nat \<Rightarrow> AmlEvalFrame \<Rightarrow> stmt list \<Rightarrow> AmlControl \<Rightarrow> AmlEvalFrame \<Rightarrow> bool" where
  "list_runs c m n fr ss ctl fr' \<longleftrightarrow>
     call_term_list (evaluators c n) (stmts_bytes ss) (at_frame m fr) = (Ok ctl, at_frame m fr')"

lemma run_simple: "stmt_runs c m n fr Nop Continue fr" "stmt_runs c m n fr Brk Break fr"
  by (auto simp: stmt_runs_def eval_statement_def)

lemma run_ret:
  assumes "expr_wf e" and "expr_val fr e = Some v" and "expr_height e \<le> n"
  shows "stmt_runs c m n fr (Ret e) (Return (VInteger v)) fr"
  using expr_runs [OF assms(1) _ assms(3), of "at_frame m fr"] assms(2)
  by (auto simp: stmt_runs_def eval_statement_def rbind_apply)

lemma run_store:
  assumes "expr_wf e" and "expr_val fr e = Some v" and "expr_height e \<le> n" and "target_wf t"
  shows "stmt_runs c m n fr (Store e t) Continue (set_target t v fr)"
proof -
  let ?m = "at_frame m fr" and ?m' = "at_frame m (set_target t v fr)"
  have n: "0 < n" using assms(3) expr_height_pos [of e] by simp
  have "eval_store (evaluators c n) (0x70 # expr_bytes e @ target_byte t # bs) ?m
      = (Ok (VInteger v, 2 + length (expr_bytes e)), ?m')" for bs
    using expr_runs [OF assms(1) _ assms(3), of ?m v c "target_byte t # bs"] assms(2)
      target_runs [OF assms(4) n, of c bs v ?m]
    by (simp add: eval_store_def rbind_apply)
  then have "eval_statement c (evaluators c n) (0x70 # expr_bytes e @ target_byte t # bs) ?m
      = (Ok (2 + length (expr_bytes e), Continue), ?m')" for bs
    by (simp add: eval_statement_def rbind_apply)
  then show ?thesis by (simp add: stmt_runs_def)
qed

lemma drop_slices:
  assumes "drop n bs = b # cs"
  shows "slice_get bs n = Some b" "slice_from bs (n + 1) = Ok cs"
    and "k \<le> length cs \<Longrightarrow> get_range bs n (n + 1 + k) = Some (b # take k cs)"
proof -
  have l: "length bs = n + Suc (length cs)" using arg_cong [OF assms, of length] by simp
  show "slice_get bs n = Some b" using l assms by (simp add: slice_get_def nth_via_drop)
  show "slice_from bs (n + 1) = Ok cs" using l assms by (simp add: slice_from_def drop_Suc tl_drop [symmetric])
  show "k \<le> length cs \<Longrightarrow> get_range bs n (n + 1 + k) = Some (b # take k cs)"
    using l assms by (simp add: get_range_def drop_take)
qed

text \<open>An \<open>If\<close> whose \<open>Else\<close> starts where its own package ends.\<close>

lemma eval_if_else:
  assumes "object_package bs 1 = Ok (pkg, object_end, ob)" and "encoded_bytes pkg = 4"
    and "slice_from ob 5 = Ok r" and "call_term_arg E r m = (Ok (VInteger v, k), m)" and "slice_from ob (5 + k) = Ok ts"
    and "slice_get bs object_end = Some 0xa1" and "slice_from bs (object_end + 1) = Ok e"
    and "parse_pkg_length e = Ok ep" and "encoded_bytes ep = 4" and "unat (pkg_value ep) = len"
    and "get_range bs object_end (object_end + 1 + len) = Some eb" and "slice_from eb 5 = Ok es"
  shows "eval_if E bs m =
    (if v \<noteq> 0 then rbind (call_term_list E ts) (\<lambda>control.
       if control \<noteq> Continue then rret (object_end, control) else rret (object_end + (1 + len), Continue)) m
     else rbind (call_term_list E es) (\<lambda>control. rret (object_end + 1 + len, control)) m)"
  using assms by (simp add: eval_if_def rbind_apply as_logic_def or_fail_def rret_def cong: if_cong)

lemma if_bytes:
  fixes e ts es bs
  defines "code \<equiv> expr_bytes e @ stmts_bytes ts" and "whole \<equiv> stmt_bytes (If e ts es) @ bs"
  assumes "stmt_wf (If e ts es)"
  shows "object_package whole 1 =
      Ok (\<lparr>pkg_value = of_nat (length code + 4), encoded_bytes = 4\<rparr>, length code + 5, 0xa0 # pkg_bytes code)" (is ?package)
    and "drop (length code + 5) whole = 0xa1 # pkg_bytes (stmts_bytes es) @ bs" (is ?else)
    and "length (stmt_bytes (If e ts es)) = length code + 5 + 1 + (length (stmts_bytes es) + 4)" (is ?length)
proof -
  have l: "length code + 4 < 2 ^ 28" "length (stmts_bytes es) + 4 < 2 ^ 28" using assms(3) by (simp_all add: code_def)
  have w: "whole = 0xa0 # pkg_bytes code @ 0xa1 # pkg_bytes (stmts_bytes es) @ bs" by (simp add: whole_def code_def)
  show ?package unfolding w by (rule pkg_bytes_object [OF l(1)])
  have "length code + 5 = Suc (length (pkg_bytes code))" using pkg_bytes_parse(3) [OF l(1)] by simp
  then show ?else unfolding w by (simp only: drop_Suc_Cons drop_append) simp
  show ?length using pkg_bytes_parse(3) [OF l(1)] pkg_bytes_parse(3) [OF l(2)] by (simp add: code_def)
qed

lemma eval_if_run:
  assumes "stmt_wf (If e ts es)" and "expr_val (frame m) e = Some v" and "expr_height e \<le> n"
  shows "v \<noteq> 0 \<Longrightarrow> call_term_list (evaluators c n) (stmts_bytes ts) m = (Ok ctl, m') \<Longrightarrow>
      \<exists>k > 0. eval_if (evaluators c n) (stmt_bytes (If e ts es) @ bs) m = (Ok (k, ctl), m')
        \<and> (ctl = Continue \<longrightarrow> k = length (stmt_bytes (If e ts es)))" (is "_ \<Longrightarrow> _ \<Longrightarrow> ?goal ctl m'")
    and "v = 0 \<Longrightarrow> call_term_list (evaluators c n) (stmts_bytes es) m = (Ok ctl, m') \<Longrightarrow>
      \<exists>k > 0. eval_if (evaluators c n) (stmt_bytes (If e ts es) @ bs) m = (Ok (k, ctl), m')
        \<and> (ctl = Continue \<longrightarrow> k = length (stmt_bytes (If e ts es)))"
proof -
  have l: "length (stmts_bytes es) + 4 < 2 ^ 28" using assms(1) by simp
  note p = pkg_bytes_parse [OF l] and b = if_bytes(1,2) [OF assms(1), where bs = bs] and len = if_bytes(3) [OF assms(1)]
  note d = drop_slices [OF b(2)]
  have arg: "call_term_arg (evaluators c n) (expr_bytes e @ stmts_bytes ts) m = (Ok (VInteger v, length (expr_bytes e)), m)"
    using expr_runs [of e m v n c "stmts_bytes ts"] assms by simp
  have fits: "length (stmts_bytes es) + 4 \<le> length (pkg_bytes (stmts_bytes es) @ bs)"
    and whole: "take (length (stmts_bytes es) + 4) (pkg_bytes (stmts_bytes es) @ bs) = pkg_bytes (stmts_bytes es)"
    using p(3) by simp_all
  note run = eval_if_else [OF b(1) _ pkg_bytes_code arg pkg_bytes_rest d(1,2) p(1) _ _
      d(3) [OF fits, unfolded whole] pkg_bytes_code]
  show "v \<noteq> 0 \<Longrightarrow> call_term_list (evaluators c n) (stmts_bytes ts) m = (Ok ctl, m') \<Longrightarrow> ?goal ctl m'"
    unfolding len by (subst run) (use p(2) in \<open>simp_all add: rbind_apply\<close>)
  show "v = 0 \<Longrightarrow> call_term_list (evaluators c n) (stmts_bytes es) m = (Ok ctl, m') \<Longrightarrow> ?goal ctl m'"
    unfolding len by (subst run) (use p(2) in \<open>simp_all add: rbind_apply\<close>)
qed

lemma run_if:
  assumes "stmt_wf (If e ts es)" and "expr_val fr e = Some v" and "expr_height e \<le> n"
  shows "v \<noteq> 0 \<Longrightarrow> list_runs c m n fr ts ctl fr' \<Longrightarrow> stmt_runs c m n fr (If e ts es) ctl fr'"
    and "v = 0 \<Longrightarrow> list_runs c m n fr es ctl fr' \<Longrightarrow> stmt_runs c m n fr (If e ts es) ctl fr'"
proof -
  have s: "eval_statement c E (stmt_bytes (If e ts es) @ bs) = eval_if E (stmt_bytes (If e ts es) @ bs)" for E bs
    by (simp add: eval_statement_def)
  note r = eval_if_run [OF assms(1) _ assms(3), of "at_frame m fr" v c]
  show "v \<noteq> 0 \<Longrightarrow> list_runs c m n fr ts ctl fr' \<Longrightarrow> stmt_runs c m n fr (If e ts es) ctl fr'"
    unfolding stmt_runs_def list_runs_def s using r(1) assms(2) by simp
  show "v = 0 \<Longrightarrow> list_runs c m n fr es ctl fr' \<Longrightarrow> stmt_runs c m n fr (If e ts es) ctl fr'"
    unfolding stmt_runs_def list_runs_def s using r(2) assms(2) by simp
qed

text \<open>A loop is its first turn and then itself: the statement and the call that repeats it are the same run.\<close>

lemma while_statement:
  assumes "stmt_wf (While e ss)"
  shows "eval_statement c E (stmt_bytes (While e ss) @ bs)
       = call_while E (stmt_bytes (While e ss)) 5 (length (stmt_bytes (While e ss)))"
proof -
  have l: "length (expr_bytes e @ stmts_bytes ss) + 4 < 2 ^ 28" using assms by simp
  have len: "length (stmt_bytes (While e ss)) = length (expr_bytes e @ stmts_bytes ss) + 5"
    using pkg_bytes_parse(3) [OF l] by simp
  show ?thesis
    unfolding len using pkg_bytes_object [OF l, of "0xa2" bs]
    by (simp add: eval_statement_def eval_while_def)
qed

lemma run_while_iff:
  assumes "stmt_wf (While e ss)"
  shows "stmt_runs c m n fr (While e ss) ctl fr' \<longleftrightarrow>
    (\<exists>k > 0. call_while (evaluators c n) (stmt_bytes (While e ss)) 5 (length (stmt_bytes (While e ss))) (at_frame m fr)
        = (Ok (k, ctl), at_frame m fr') \<and> (ctl = Continue \<longrightarrow> k = length (stmt_bytes (While e ss))))"
  unfolding stmt_runs_def while_statement [OF assms] by blast

lemma while_turn:
  assumes "stmt_wf (While e ss)" and "expr_val (frame m) e = Some v" and "expr_height e \<le> n"
  shows "eval_while_loop (evaluators c n) (stmt_bytes (While e ss)) 5 k m =
    (if v = 0 then (Ok (k, Continue), m)
     else rbind (call_term_list (evaluators c n) (stmts_bytes ss)) (\<lambda>control.
        case control of
          Continue \<Rightarrow> call_while (evaluators c n) (stmt_bytes (While e ss)) 5 k
        | Break \<Rightarrow> rret (k, Continue)
        | _ \<Rightarrow> rret (k, control)) m)"
proof -
  have arg: "call_term_arg (evaluators c n) (expr_bytes e @ stmts_bytes ss) m = (Ok (VInteger v, length (expr_bytes e)), m)"
    using expr_runs [of e m v n c "stmts_bytes ss"] assms by simp
  show ?thesis
    unfolding stmt_bytes.simps using arg by (simp add: eval_while_loop_def rbind_apply as_logic_def pkg_bytes_code pkg_bytes_rest)
qed

lemma run_while:
  assumes "stmt_wf (While e ss)" and "expr_val fr e = Some v" and "expr_height e \<le> n"
  shows "v = 0 \<Longrightarrow> stmt_runs c m (Suc n) fr (While e ss) Continue fr"
    and "v \<noteq> 0 \<Longrightarrow> list_runs c m n fr ss Continue fr1 \<Longrightarrow> stmt_runs c m n fr1 (While e ss) ctl fr' \<Longrightarrow>
      stmt_runs c m (Suc n) fr (While e ss) ctl fr'"
    and "v \<noteq> 0 \<Longrightarrow> list_runs c m n fr ss Break fr' \<Longrightarrow> stmt_runs c m (Suc n) fr (While e ss) Continue fr'"
    and "v \<noteq> 0 \<Longrightarrow> list_runs c m n fr ss (Return r) fr' \<Longrightarrow> stmt_runs c m (Suc n) fr (While e ss) (Return r) fr'"
  using while_turn [OF assms(1) _ assms(3), of "at_frame m fr" v c] assms(2)
  by (auto simp: run_while_iff [OF assms(1)] list_runs_def rbind_apply)

section \<open>Running a list\<close>

lemma run_nil: "list_runs c m (Suc n) fr [] Continue fr"
  by (simp add: list_runs_def eval_term_list_def)

lemma stmt_bytes_nonempty: "stmt_bytes s \<noteq> []"
  by (cases s) simp_all

lemma run_next:
  assumes "stmt_runs c m n fr s Continue fr1" and "list_runs c m n fr1 ss ctl fr'"
  shows "list_runs c m (Suc n) fr (s # ss) ctl fr'"
  using assms stmt_bytes_nonempty [of s]
  by (auto simp: stmt_runs_def list_runs_def eval_term_list_def rbind_apply)

lemma run_stop:
  assumes "stmt_runs c m n fr s ctl fr'" and "ctl \<noteq> Continue"
  shows "list_runs c m (Suc n) fr (s # ss) ctl fr'"
proof -
  obtain k where k: "0 < k"
    "eval_statement c (evaluators c n) (stmt_bytes s @ stmts_bytes ss) (at_frame m fr) = (Ok (k, ctl), at_frame m fr')"
    using assms(1) unfolding stmt_runs_def by blast
  then show ?thesis using assms(2) stmt_bytes_nonempty [of s]
    by (simp add: list_runs_def eval_term_list_def rbind_apply)
qed

section \<open>Every execution is a run\<close>

lemma extends_ok: "extends f g \<Longrightarrow> f s = (Ok x, t) \<Longrightarrow> g s = (Ok x, t)"
  unfolding extends_def by (drule spec [of _ s]) simp

lemma stmt_runs_mono:
  assumes "stmt_runs c m n fr s ctl fr'" and "n \<le> k"
  shows "stmt_runs c m k fr s ctl fr'"
  using assms(1) extends_ok [OF extends_statement [OF evaluators_le [OF assms(2)]]]
  unfolding stmt_runs_def by metis

lemma list_runs_mono:
  assumes "list_runs c m n fr ss ctl fr'" and "n \<le> k"
  shows "list_runs c m k fr ss ctl fr'"
  using assms(1) extends_ok evaluators_le [OF assms(2), of c]
  unfolding list_runs_def evaluator_extends_def by metis

lemma exec_runs:
  "exec_stmt fr s ctl fr' \<Longrightarrow> stmt_wf s \<Longrightarrow> \<exists>n. stmt_runs c m n fr s ctl fr'"
  "exec_list fr ss ctl fr' \<Longrightarrow> (\<forall>s \<in> set ss. stmt_wf s) \<Longrightarrow> \<exists>n. list_runs c m n fr ss ctl fr'"
proof (induction rule: exec_stmt_exec_list.inducts)
  case (exec_then fr e v ts ctl fr' es)
  then obtain n where "list_runs c m n fr ts ctl fr'" by auto
  then have "list_runs c m (max n (expr_height e)) fr ts ctl fr'" by (rule list_runs_mono) simp
  then show ?case using run_if(1) [OF exec_then.prems exec_then.hyps(1), of "max n (expr_height e)"] exec_then.hyps(2) by (metis max.cobounded2)
next
  case (exec_else fr e es ctl fr' ts)
  then obtain n where "list_runs c m n fr es ctl fr'" by auto
  then have "list_runs c m (max n (expr_height e)) fr es ctl fr'" by (rule list_runs_mono) simp
  then show ?case using run_if(2) [OF exec_else.prems exec_else.hyps(1), of "max n (expr_height e)"] by (metis max.cobounded2)
next
  case (exec_again fr e v ss fr1 ctl fr')
  then obtain n k where "list_runs c m n fr ss Continue fr1" "stmt_runs c m k fr1 (While e ss) ctl fr'" by auto
  then have "list_runs c m (max n (max k (expr_height e))) fr ss Continue fr1"
    "stmt_runs c m (max n (max k (expr_height e))) fr1 (While e ss) ctl fr'"
    by (auto intro: list_runs_mono stmt_runs_mono)
  then show ?case using run_while(2) [OF exec_again.prems exec_again.hyps(1), of "max n (max k (expr_height e))"] exec_again.hyps(2)
    by (metis max.cobounded2 max.coboundedI2)
next
  case (exec_leave fr e v ss fr')
  then obtain n where "list_runs c m n fr ss Break fr'" by auto
  then have "list_runs c m (max n (expr_height e)) fr ss Break fr'" by (rule list_runs_mono) simp
  then show ?case using run_while(3) [OF exec_leave.prems exec_leave.hyps(1), of "max n (expr_height e)"] exec_leave.hyps(2) by (metis max.cobounded2)
next
  case (exec_out fr e v ss r fr')
  then obtain n where "list_runs c m n fr ss (Return r) fr'" by auto
  then have "list_runs c m (max n (expr_height e)) fr ss (Return r) fr'" by (rule list_runs_mono) simp
  then show ?case using run_while(4) [OF exec_out.prems exec_out.hyps(1), of "max n (expr_height e)"] exec_out.hyps(2) by (metis max.cobounded2)
next
  case (exec_next fr s fr1 ss ctl fr')
  then obtain n k where "stmt_runs c m n fr s Continue fr1" "list_runs c m k fr1 ss ctl fr'" by auto
  then have "stmt_runs c m (max n k) fr s Continue fr1" "list_runs c m (max n k) fr1 ss ctl fr'"
    by (auto intro: list_runs_mono stmt_runs_mono)
  then show ?case by (blast intro: run_next)
next
  case (exec_stop fr s ctl fr' ss)
  then show ?case by (auto intro: run_stop)
next
  case (exec_done fr e ss)
  then show ?case using run_while(1) [OF exec_done.prems exec_done.hyps, of "expr_height e"] by auto
qed (auto intro: run_simple run_ret run_store run_nil)

text \<open>
  C2. The evaluator implements the structured language. When a method's body is the byte code of a
  well-formed list of statements and the meaning of the list, from the frame the method starts with,
  leaves with some control, then evaluating the method ends, with every sufficient fuel: a
  \<open>Return\<close> is the returned value, falling off the end is no value, a \<open>Break\<close> outside every loop is an error,
  and overlay and host are untouched.
\<close>
theorem evaluator_implements_language:
  assumes "method_entry c invocation = Ok (stmts_bytes ss, fr)" and "list_all stmt_wf ss"
    and "exec_list fr ss ctl fr'"
  shows "\<exists>n. \<forall>k \<ge> n. evaluate_internal c k invocation st hs = (outcome_of ctl, st, hs)"
proof -
  let ?m = "\<lparr>host_state = hs, runtime = st, frame = fr\<rparr>"
  obtain n where "list_runs c ?m n fr ss ctl fr'"
    using exec_runs(2) [OF assms(3), of c ?m] assms(2) by (auto simp: list_all_iff)
  then have "list_runs c ?m k fr ss ctl fr'" if "n \<le> k" for k
    using that by (rule list_runs_mono)
  then have "evaluate_internal c k invocation st hs = (outcome_of ctl, st, hs)" if "n \<le> k" for k
    using that assms(1) by (simp add: evaluate_internal_def list_runs_def)
  then show ?thesis by blast
qed

text \<open>A loop that counts \<open>Local0\<close> down, and an \<open>If\<close> that returns 7 when it has reached zero.\<close>

definition countdown :: "stmt list" where
  "countdown =
     [Store (Const 1) (TLocal 0),
      While (LocalVar 0) [Store (Bin 0x74 (LocalVar 0) (Const 1)) (TLocal 0)],
      If (LocalVar 0) [Brk] [Ret (Const 7)]]"

theorem evaluator_implements_language_witness:
  "\<exists>k. evaluate_internal (one_method 2 (stmts_bytes countdown)) k (call_it []) None ()
     = (Ok \<lparr>return_value = Some (VInteger 7), blocked = False\<rparr>, None, ())"
proof -
  let ?f0 = "fresh_frame 2"
  let ?f1 = "set_target (TLocal 0) 1 ?f0"
  let ?f2 = "set_target (TLocal 0) 0 ?f1"
  have w: "frame_width ?f0 = Bits64" "length (locals ?f0) = 8"
    by (simp_all add: fresh_frame_def from_definition_block_revision_def)
  have "exec_list ?f0 countdown (Return (VInteger 7)) ?f2"
    unfolding countdown_def
    by (rule exec_next [OF exec_store exec_next [OF exec_again [where v = 1, OF _ _ exec_next [OF exec_store exec_nil] exec_done]
            exec_stop [OF exec_else [OF _ exec_stop [OF exec_ret]]]]])
      (use w in \<open>simp_all add: cut_def slot_integer_def binary_op_def\<close>)
  moreover have "list_all stmt_wf countdown" by (simp add: countdown_def pkg_bytes_def pkg_encode_def)
  moreover have "length (stmts_bytes countdown) < 2 ^ 32" by (simp add: countdown_def pkg_bytes_def pkg_encode_def)
  ultimately show ?thesis
    using evaluator_implements_language [OF one_method_entry, of countdown 2 "Return (VInteger 7)" ?f2 None "()"]
    by (auto simp: outcome_of_def)
qed

end
