(* ===== verification/Acpi_Table.thy ===== *)
theory Acpi_Table
  imports Aml_Loader
begin

text \<open>
  The ACPI table readers of \<open>src/Crates/fusion-firmware/pal/hal/acpi\<close>: the common header with its
  checksum (\<open>header.rs\<close>, \<open>acpi.rs\<close>, \<open>error.rs\<close>), the tables DSDT, XSDT, MCFG, MADT, FADT and FACS, and the
  definition blocks that \<open>aml/bytecode.rs\<close> takes from a table.

  A table is the bytes firmware left in memory. A reader returns an \<open>AcpiError\<close> (\<open>AcpiFail\<close>) or panics when
  a slice expression or an addition leaves its range (\<open>AcpiPanic\<close>). A raw \<open>repr(C)\<close> struct is its bytes; its
  fields are read at their offsets, in little-endian order. \<open>usize\<close> has 64 bits, so the conversions from
  \<open>u32\<close> do not fail. An iterator is its state, and \<open>next\<close> returns an item with the state behind it.
\<close>

section \<open>Errors and raw reads (error.rs, acpi.rs)\<close>

datatype AcpiErrorKind = AcpiTruncated | AcpiInvalidSignature | AcpiInvalidChecksum | AcpiInvalidLayout

datatype acpi_stop = AcpiFail AcpiErrorKind | AcpiPanic

type_synonym 'a acpi = "('a, acpi_stop) result"

definition read_unaligned_copy :: "usize \<Rightarrow> bytes \<Rightarrow> bytes acpi" where
  "read_unaligned_copy sz bytes =
     (if length bytes < sz then Err (AcpiFail AcpiTruncated) else Ok (take sz bytes))"

definition checksum_is_valid :: "bytes \<Rightarrow> bool" where
  "checksum_is_valid bytes \<longleftrightarrow> foldl (\<lambda>sum byte. sum + byte) 0 bytes = 0"

text \<open>The field of \<open>n\<close> bytes at an offset of a raw struct, through \<open>from_le\<close>, and \<open>&bytes[n..]\<close>.\<close>

definition le_field :: "nat \<Rightarrow> nat \<Rightarrow> bytes \<Rightarrow> 'a::len word" where
  "le_field off n raw = ucast (from_le_bytes (take n (drop off raw)))"

definition slice_tail :: "bytes \<Rightarrow> usize \<Rightarrow> bytes acpi" where
  "slice_tail bytes n = (if n \<le> length bytes then Ok (drop n bytes) else Err AcpiPanic)"

section \<open>Header and table view (header.rs)\<close>

record AcpiSdtHeader =
  sdt_signature :: bytes
  sdt_length :: u32
  sdt_revision :: u8
  sdt_checksum :: u8
  sdt_oem_id :: bytes
  sdt_oem_table_id :: bytes
  sdt_oem_revision :: u32
  sdt_creator_id :: u32
  sdt_creator_revision :: u32

definition DSDT :: bytes where "DSDT = [0x44, 0x53, 0x44, 0x54]"
definition FADT :: bytes where "FADT = [0x46, 0x41, 0x43, 0x50]"
definition FACS :: bytes where "FACS = [0x46, 0x41, 0x43, 0x53]"
definition XSDT :: bytes where "XSDT = [0x58, 0x53, 0x44, 0x54]"
definition MCFG :: bytes where "MCFG = [0x4d, 0x43, 0x46, 0x47]"
definition MADT :: bytes where "MADT = [0x41, 0x50, 0x49, 0x43]"

definition SDT_SIZE :: usize where
  "SDT_SIZE = 36"

definition sdt_header_parse :: "bytes \<Rightarrow> AcpiSdtHeader acpi" where
  "sdt_header_parse bytes =
     bind_result (read_unaligned_copy SDT_SIZE bytes) (\<lambda>raw.
       let declared = le_field 4 4 raw :: u32 in
       if unat declared < SDT_SIZE then Err (AcpiFail AcpiInvalidLayout)
       else Ok \<lparr>sdt_signature = take 4 raw, sdt_length = declared,
                sdt_revision = raw ! 8, sdt_checksum = raw ! 9,
                sdt_oem_id = take 6 (drop 10 raw), sdt_oem_table_id = take 8 (drop 16 raw),
                sdt_oem_revision = le_field 24 4 raw, sdt_creator_id = le_field 28 4 raw,
                sdt_creator_revision = le_field 32 4 raw\<rparr>)"

record AcpiTableView =
  table_header :: AcpiSdtHeader
  table_bytes :: bytes

definition table_parse :: "bytes \<Rightarrow> AcpiTableView acpi" where
  "table_parse bytes =
     bind_result (sdt_header_parse bytes) (\<lambda>hdr.
     bind_result (ok_or (AcpiFail AcpiTruncated) (get_range bytes 0 (unat (sdt_length hdr)))) (\<lambda>whole.
       if \<not> checksum_is_valid whole then Err (AcpiFail AcpiInvalidChecksum)
       else Ok \<lparr>table_header = hdr, table_bytes = whole\<rparr>))"

definition parse_signature :: "bytes \<Rightarrow> bytes \<Rightarrow> AcpiTableView acpi" where
  "parse_signature bytes sig =
     bind_result (table_parse bytes) (\<lambda>table.
       if sdt_signature (table_header table) \<noteq> sig then Err (AcpiFail AcpiInvalidSignature) else Ok table)"

definition table_payload :: "AcpiTableView \<Rightarrow> bytes acpi" where
  "table_payload table = slice_tail (table_bytes table) SDT_SIZE"

section \<open>DSDT and definition blocks (dsdt.rs, aml/bytecode.rs)\<close>

record Dsdt =
  dsdt_table :: AcpiTableView

definition dsdt_parse :: "bytes \<Rightarrow> Dsdt acpi" where
  "dsdt_parse bytes = bind_result (parse_signature bytes DSDT) (\<lambda>table. Ok \<lparr>dsdt_table = table\<rparr>)"

definition aml_bytes :: "Dsdt \<Rightarrow> bytes acpi" where
  "aml_bytes d = table_payload (dsdt_table d)"

definition block_header_of :: "AcpiTableView \<Rightarrow> AmlDefinitionBlockHeader" where
  "block_header_of table = (let h = table_header table in
     \<lparr>signature = sdt_signature h, revision = sdt_revision h, oem_id = sdt_oem_id h,
      oem_table_id = sdt_oem_table_id h, oem_revision = sdt_oem_revision h\<rparr>)"

definition block_from_acpi_table :: "AcpiTableView \<Rightarrow> AmlDefinitionBlock aml" where
  "block_from_acpi_table table =
     (let kind = from_signature (sdt_signature (table_header table)) in
      if \<not> is_definition_block kind then Err (Fail invalid_definition_block)
      else case table_payload table of
        Ok bs \<Rightarrow> Ok \<lparr>block_kind = kind, header = block_header_of table, block_bytes = bs\<rparr>
      | Err _ \<Rightarrow> Err Panic)"

definition from_dsdt :: "Dsdt \<Rightarrow> AmlDefinitionBlock aml" where
  "from_dsdt d = block_from_acpi_table (dsdt_table d)"

section \<open>XSDT (xsdt.rs)\<close>

record Xsdt =
  xsdt_table :: AcpiTableView

definition xsdt_parse :: "bytes \<Rightarrow> Xsdt acpi" where
  "xsdt_parse bytes =
     bind_result (parse_signature bytes XSDT) (\<lambda>table.
     bind_result (table_payload table) (\<lambda>payload.
       if length payload mod 8 \<noteq> 0 then Err (AcpiFail AcpiInvalidLayout) else Ok \<lparr>xsdt_table = table\<rparr>))"

definition entry_count :: "Xsdt \<Rightarrow> usize acpi" where
  "entry_count x = bind_result (table_payload (xsdt_table x)) (\<lambda>payload. Ok (length payload div 8))"

text \<open>\<open>index.saturating_mul(size)\<close>, and \<open>slice.get(start..start + size)\<close>, whose addition may overflow.\<close>

definition saturating_mul :: "usize \<Rightarrow> usize \<Rightarrow> usize" where
  "saturating_mul a b = min (a * b) usize_max"

definition get_chunk :: "bytes \<Rightarrow> usize \<Rightarrow> usize \<Rightarrow> bytes option acpi" where
  "get_chunk bytes start sz =
     (case checked_add start sz of None \<Rightarrow> Err AcpiPanic | Some e \<Rightarrow> Ok (get_range bytes start e))"

definition xsdt_entry :: "Xsdt \<Rightarrow> usize \<Rightarrow> 64 word option acpi" where
  "xsdt_entry x index =
     bind_result (table_payload (xsdt_table x)) (\<lambda>payload.
     bind_result (get_chunk payload (saturating_mul index 8) 8) (\<lambda>chunk.
       case chunk of
         None \<Rightarrow> Ok None
       | Some bytes \<Rightarrow> bind_result (read_unaligned_copy 8 bytes) (\<lambda>raw. Ok (Some (le_field 0 8 raw)))))"

text \<open>An iterator: the bytes and the offset. A slice is shorter than \<open>isize::MAX\<close>, so its offset does not wrap.\<close>

type_synonym table_iter = "bytes \<times> usize"

definition xsdt_entries :: "Xsdt \<Rightarrow> table_iter acpi" where
  "xsdt_entries x = bind_result (table_payload (xsdt_table x)) (\<lambda>payload. Ok (payload, 0))"

definition xsdt_next :: "table_iter \<Rightarrow> (64 word \<times> table_iter) option" where
  "xsdt_next it = (case it of (buf, offset) \<Rightarrow>
     Option.bind (get_range buf offset (offset + 8)) (\<lambda>bytes.
       case read_unaligned_copy 8 bytes of
         Err _ \<Rightarrow> None
       | Ok raw \<Rightarrow> Some (le_field 0 8 raw, (buf, offset + 8))))"

section \<open>MCFG (mcfg.rs)\<close>

record McfgAllocation =
  base_address :: "64 word"
  segment_group :: "16 word"
  start_bus :: u8
  end_bus :: u8

record Mcfg =
  mcfg_table :: AcpiTableView
  mcfg_reserved :: "64 word"

definition mcfg_parse :: "bytes \<Rightarrow> Mcfg acpi" where
  "mcfg_parse bytes =
     bind_result (parse_signature bytes MCFG) (\<lambda>table.
     bind_result (table_payload table) (\<lambda>payload.
       if length payload < 8 then Err (AcpiFail AcpiTruncated)
       else
         bind_result (read_unaligned_copy 8 payload) (\<lambda>raw.
         bind_result (slice_tail payload 8) (\<lambda>allocations.
           if length allocations mod 16 \<noteq> 0 then Err (AcpiFail AcpiInvalidLayout)
           else Ok \<lparr>mcfg_table = table, mcfg_reserved = le_field 0 8 raw\<rparr>))))"

definition allocations_bytes :: "Mcfg \<Rightarrow> bytes acpi" where
  "allocations_bytes m = bind_result (table_payload (mcfg_table m)) (\<lambda>payload. slice_tail payload 8)"

definition allocation_count :: "Mcfg \<Rightarrow> usize acpi" where
  "allocation_count m = bind_result (allocations_bytes m) (\<lambda>bs. Ok (length bs div 16))"

definition parse_allocation :: "bytes \<Rightarrow> McfgAllocation acpi" where
  "parse_allocation bytes =
     bind_result (read_unaligned_copy 16 bytes) (\<lambda>raw.
       Ok \<lparr>base_address = le_field 0 8 raw, segment_group = le_field 8 2 raw,
           start_bus = raw ! 10, end_bus = raw ! 11\<rparr>)"

definition mcfg_allocation :: "Mcfg \<Rightarrow> usize \<Rightarrow> McfgAllocation option acpi" where
  "mcfg_allocation m index =
     bind_result (allocations_bytes m) (\<lambda>bs.
     bind_result (get_chunk bs (saturating_mul index 16) 16) (\<lambda>chunk.
       case chunk of
         None \<Rightarrow> Ok None
       | Some bytes \<Rightarrow> bind_result (parse_allocation bytes) (\<lambda>a. Ok (Some a))))"

definition mcfg_allocations :: "Mcfg \<Rightarrow> table_iter acpi" where
  "mcfg_allocations m = bind_result (allocations_bytes m) (\<lambda>bs. Ok (bs, 0))"

definition mcfg_next :: "table_iter \<Rightarrow> (McfgAllocation \<times> table_iter) option" where
  "mcfg_next it = (case it of (bs, offset) \<Rightarrow>
     Option.bind (get_range bs offset (offset + 16)) (\<lambda>bytes.
       case parse_allocation bytes of
         Err _ \<Rightarrow> None
       | Ok a \<Rightarrow> Some (a, (bs, offset + 16))))"

section \<open>FADT (fadt.rs)\<close>

datatype FadtPreferredPmProfile =
    PmUnspecified | PmDesktop | PmMobile | PmWorkstation | PmEnterpriseServer | PmSohoServer
  | PmAppliancePc | PmPerformanceServer | PmTablet | PmReserved u8

definition pm_profile_from_raw :: "u8 \<Rightarrow> FadtPreferredPmProfile" where
  "pm_profile_from_raw raw =
     (if raw = 0 then PmUnspecified else if raw = 1 then PmDesktop else if raw = 2 then PmMobile
      else if raw = 3 then PmWorkstation else if raw = 4 then PmEnterpriseServer
      else if raw = 5 then PmSohoServer else if raw = 6 then PmAppliancePc
      else if raw = 7 then PmPerformanceServer else if raw = 8 then PmTablet else PmReserved raw)"

text \<open>\<open>read_field::<T>\<close> and \<open>read_optional_field::<T>\<close> return the bytes of the field; the caller applies \<open>from_le\<close>.\<close>

definition read_field :: "usize \<Rightarrow> bytes \<Rightarrow> usize \<Rightarrow> bytes acpi" where
  "read_field sz bytes offset =
     bind_result (ok_or (AcpiFail AcpiInvalidLayout) (checked_add offset sz)) (\<lambda>e.
     bind_result (ok_or (AcpiFail AcpiTruncated) (get_range bytes offset e)) (\<lambda>field.
       read_unaligned_copy sz field))"

definition read_optional_field :: "usize \<Rightarrow> bytes \<Rightarrow> usize \<Rightarrow> bytes option" where
  "read_optional_field sz bytes offset =
     Option.bind (checked_add offset sz) (\<lambda>e.
     Option.bind (get_range bytes offset e) (\<lambda>field.
       case read_unaligned_copy sz field of Ok raw \<Rightarrow> Some raw | Err _ \<Rightarrow> None))"

definition byte_field :: "bytes \<Rightarrow> usize \<Rightarrow> u8 acpi" where
  "byte_field bytes offset = ok_or (AcpiFail AcpiTruncated) (slice_get bytes offset)"

record Fadt =
  fadt_table :: AcpiTableView
  firmware_ctrl :: u32
  fadt_dsdt :: u32
  preferred_pm_profile :: FadtPreferredPmProfile
  sci_int :: "16 word"
  fadt_flags :: "u32 option"
  reset_value :: "u8 option"
  arm_boot_arch :: "16 word option"
  minor_version :: "u8 option"
  x_firmware_ctrl :: "64 word option"
  x_dsdt :: "64 word option"

definition fadt_parse :: "bytes \<Rightarrow> Fadt acpi" where
  "fadt_parse bytes =
     bind_result (parse_signature bytes FADT) (\<lambda>table. let tb = table_bytes table in
     bind_result (read_field 4 tb 36) (\<lambda>ctrl.
     bind_result (read_field 4 tb 40) (\<lambda>dsdt32.
     bind_result (byte_field tb 44) (\<lambda>int_model.
       if int_model \<noteq> 0 \<and> int_model \<noteq> 1 then Err (AcpiFail AcpiInvalidLayout)
       else
     bind_result (byte_field tb 45) (\<lambda>profile.
     bind_result (read_field 2 tb 46) (\<lambda>sci.
       Ok \<lparr>fadt_table = table, firmware_ctrl = le_field 0 4 ctrl, fadt_dsdt = le_field 0 4 dsdt32,
           preferred_pm_profile = pm_profile_from_raw profile, sci_int = le_field 0 2 sci,
           fadt_flags = map_option (le_field 0 4) (read_optional_field 4 tb 112),
           reset_value = slice_get tb 128,
           arm_boot_arch = map_option (le_field 0 2) (read_optional_field 2 tb 129),
           minor_version = slice_get tb 131,
           x_firmware_ctrl = map_option (le_field 0 8) (read_optional_field 8 tb 132),
           x_dsdt = map_option (le_field 0 8) (read_optional_field 8 tb 140)\<rparr>))))))"

definition effective_firmware_ctrl_address :: "Fadt \<Rightarrow> 64 word" where
  "effective_firmware_ctrl_address f =
     (case x_firmware_ctrl f of
        Some address \<Rightarrow> if address \<noteq> 0 then address else ucast (firmware_ctrl f)
      | None \<Rightarrow> ucast (firmware_ctrl f))"

definition effective_dsdt_address :: "Fadt \<Rightarrow> 64 word" where
  "effective_dsdt_address f =
     (case x_dsdt f of
        Some address \<Rightarrow> if address \<noteq> 0 then address else ucast (fadt_dsdt f)
      | None \<Rightarrow> ucast (fadt_dsdt f))"

section \<open>FACS (facs.rs)\<close>

record Facs =
  facs_bytes :: bytes
  hardware_signature :: u32
  firmware_waking_vector :: u32
  global_lock :: u32
  facs_flags :: u32
  x_firmware_waking_vector :: "64 word"
  facs_version :: u8
  ospm_flags :: u32

definition FACS_FLAGS_ALL :: u32 where "FACS_FLAGS_ALL = 3"
definition FACS_OSPM_FLAGS_ALL :: u32 where "FACS_OSPM_FLAGS_ALL = 1"

text \<open>\<open>facs_bytes[a..b]\<close>\<close>

definition slice_range :: "bytes \<Rightarrow> usize \<Rightarrow> usize \<Rightarrow> bytes acpi" where
  "slice_range bytes a b = ok_or AcpiPanic (get_range bytes a b)"

definition facs_parse :: "bytes \<Rightarrow> Facs acpi" where
  "facs_parse bytes =
     bind_result (read_field 4 bytes 0) (\<lambda>sig.
       if sig \<noteq> FACS then Err (AcpiFail AcpiInvalidSignature)
       else
     bind_result (read_field 4 bytes 4) (\<lambda>raw_len. let len = unat (le_field 0 4 raw_len :: u32) in
       if len < 64 then Err (AcpiFail AcpiInvalidLayout)
       else
     bind_result (ok_or (AcpiFail AcpiTruncated) (get_range bytes 0 len)) (\<lambda>fb.
     bind_result (slice_range fb 33 36) (\<lambda>reserved0.
       if reserved0 \<noteq> [0, 0, 0] then Err (AcpiFail AcpiInvalidLayout)
       else
     bind_result (slice_range fb 40 64) (\<lambda>reserved1.
       if list_ex (\<lambda>byte. byte \<noteq> 0) reserved1 then Err (AcpiFail AcpiInvalidLayout)
       else
     bind_result (read_field 4 fb 20) (\<lambda>flags. let raw_flags = le_field 0 4 flags in
       if raw_flags AND NOT FACS_FLAGS_ALL \<noteq> 0 then Err (AcpiFail AcpiInvalidLayout)
       else
     bind_result (read_field 4 fb 36) (\<lambda>ospm. let raw_ospm = le_field 0 4 ospm in
       if raw_ospm AND NOT FACS_OSPM_FLAGS_ALL \<noteq> 0 then Err (AcpiFail AcpiInvalidLayout)
       else
     bind_result (read_field 4 fb 8) (\<lambda>hw.
     bind_result (read_field 4 fb 12) (\<lambda>waking.
     bind_result (read_field 4 fb 16) (\<lambda>lock.
     bind_result (read_field 8 fb 24) (\<lambda>x_waking.
     bind_result (byte_field fb 32) (\<lambda>ver.
       Ok \<lparr>facs_bytes = fb, hardware_signature = le_field 0 4 hw, firmware_waking_vector = le_field 0 4 waking,
           global_lock = le_field 0 4 lock, facs_flags = raw_flags, x_firmware_waking_vector = le_field 0 8 x_waking,
           facs_version = ver, ospm_flags = raw_ospm\<rparr>))))))))))))"

definition effective_firmware_waking_vector :: "Facs \<Rightarrow> 64 word" where
  "effective_firmware_waking_vector f =
     (if x_firmware_waking_vector f \<noteq> 0 then x_firmware_waking_vector f else ucast (firmware_waking_vector f))"

end
