(* ===== verification/Acpi_Madt.thy ===== *)
theory Acpi_Madt
  imports Acpi_Table
begin

text \<open>
  The interrupt-controller table (\<open>pal/hal/acpi/madt.rs\<close>): its header, its variable-length records, the
  iterator over them and the effective address of the local APIC. Flag sets are their bits.
\<close>

section \<open>Flags\<close>

datatype MadtInterruptPolarity = PolarityConformsToBus | ActiveHigh | PolarityReserved | ActiveLow

datatype MadtInterruptTriggerMode = TriggerConformsToBus | TriggerEdge | TriggerReserved | TriggerLevel

record MadtInterruptFlags =
  int_raw :: "16 word"

definition polarity :: "MadtInterruptFlags \<Rightarrow> MadtInterruptPolarity" where
  "polarity f = (let bits = int_raw f AND 3 in
     if bits = 0 then PolarityConformsToBus else if bits = 1 then ActiveHigh
     else if bits = 2 then PolarityReserved else ActiveLow)"

definition trigger_mode :: "MadtInterruptFlags \<Rightarrow> MadtInterruptTriggerMode" where
  "trigger_mode f = (let bits = drop_bit 2 (int_raw f) AND 3 in
     if bits = 0 then TriggerConformsToBus else if bits = 1 then TriggerEdge
     else if bits = 2 then TriggerReserved else TriggerLevel)"

definition PCAT_COMPAT :: u32 where "PCAT_COMPAT = 1"
definition LAPIC_ENABLED :: u32 where "LAPIC_ENABLED = 1"
definition LAPIC_ONLINE_CAPABLE :: u32 where "LAPIC_ONLINE_CAPABLE = 2"

definition parse_local_apic_flags :: "u32 \<Rightarrow> u32 acpi" where
  "parse_local_apic_flags raw =
     (if raw AND NOT (LAPIC_ENABLED OR LAPIC_ONLINE_CAPABLE) \<noteq> 0 then Err (AcpiFail AcpiInvalidLayout)
      else if raw AND LAPIC_ENABLED \<noteq> 0 \<and> raw AND LAPIC_ONLINE_CAPABLE \<noteq> 0 then Err (AcpiFail AcpiInvalidLayout)
      else Ok raw)"

definition parse_mps_inti_flags :: "16 word \<Rightarrow> MadtInterruptFlags acpi" where
  "parse_mps_inti_flags raw =
     (if raw AND NOT 0x000f \<noteq> 0 then Err (AcpiFail AcpiInvalidLayout) else Ok \<lparr>int_raw = raw\<rparr>)"

section \<open>Records\<close>

record MadtProcessorLocalApic =
  lapic_processor_uid :: u8
  lapic_id :: u8
  lapic_flags :: u32

record MadtIoApic =
  io_apic_id :: u8
  io_apic_address :: u32
  global_system_interrupt_base :: u32

record MadtInterruptSourceOverride =
  override_bus :: u8
  override_source :: u8
  override_gsi :: u32
  override_flags :: MadtInterruptFlags

record MadtLocalApicNmi =
  nmi_processor_uid :: u8
  nmi_flags :: MadtInterruptFlags
  nmi_lint :: u8

record MadtLocalApicAddressOverride =
  override_address :: "64 word"

record MadtProcessorLocalX2Apic =
  x2apic_id :: u32
  x2apic_flags :: u32
  x2apic_processor_uid :: u32

datatype MadtRecord =
    ProcessorLocalApic MadtProcessorLocalApic
  | IoApic MadtIoApic
  | InterruptSourceOverride MadtInterruptSourceOverride
  | LocalApicNmi MadtLocalApicNmi
  | LocalApicAddressOverride MadtLocalApicAddressOverride
  | ProcessorLocalX2Apic MadtProcessorLocalX2Apic
  | UnknownRecord u8 bytes

definition parse_record_body :: "usize \<Rightarrow> bytes \<Rightarrow> bytes acpi" where
  "parse_record_body sz bytes =
     (if length bytes \<noteq> sz then Err (AcpiFail AcpiInvalidLayout) else read_unaligned_copy sz bytes)"

text \<open>The arms of \<open>parse_record\<close>, with the offsets of the packed structs.\<close>

definition parse_local_apic :: "bytes \<Rightarrow> MadtRecord acpi" where
  "parse_local_apic bytes =
     bind_result (parse_record_body 6 bytes) (\<lambda>raw.
     bind_result (parse_local_apic_flags (le_field 2 4 raw)) (\<lambda>fl.
       Ok (ProcessorLocalApic \<lparr>lapic_processor_uid = raw ! 0, lapic_id = raw ! 1, lapic_flags = fl\<rparr>)))"

definition parse_io_apic :: "bytes \<Rightarrow> MadtRecord acpi" where
  "parse_io_apic bytes =
     bind_result (parse_record_body 10 bytes) (\<lambda>raw.
       if raw ! 1 \<noteq> 0 then Err (AcpiFail AcpiInvalidLayout)
       else Ok (IoApic \<lparr>io_apic_id = raw ! 0, io_apic_address = le_field 2 4 raw,
                        global_system_interrupt_base = le_field 6 4 raw\<rparr>))"

definition parse_source_override :: "bytes \<Rightarrow> MadtRecord acpi" where
  "parse_source_override bytes =
     bind_result (parse_record_body 8 bytes) (\<lambda>raw.
       if raw ! 0 \<noteq> 0 then Err (AcpiFail AcpiInvalidLayout)
       else
         bind_result (parse_mps_inti_flags (le_field 6 2 raw)) (\<lambda>fl.
           Ok (InterruptSourceOverride \<lparr>override_bus = raw ! 0, override_source = raw ! 1,
                 override_gsi = le_field 2 4 raw, override_flags = fl\<rparr>)))"

definition parse_nmi :: "bytes \<Rightarrow> MadtRecord acpi" where
  "parse_nmi bytes =
     bind_result (parse_record_body 4 bytes) (\<lambda>raw.
     bind_result (parse_mps_inti_flags (le_field 1 2 raw)) (\<lambda>fl.
       Ok (LocalApicNmi \<lparr>nmi_processor_uid = raw ! 0, nmi_flags = fl, nmi_lint = raw ! 3\<rparr>)))"

definition parse_address_override :: "bytes \<Rightarrow> MadtRecord acpi" where
  "parse_address_override bytes =
     bind_result (parse_record_body 10 bytes) (\<lambda>raw.
       if (le_field 0 2 raw :: 16 word) \<noteq> 0 then Err (AcpiFail AcpiInvalidLayout)
       else Ok (LocalApicAddressOverride \<lparr>override_address = le_field 2 8 raw\<rparr>))"

definition parse_x2apic :: "bytes \<Rightarrow> MadtRecord acpi" where
  "parse_x2apic bytes =
     bind_result (parse_record_body 14 bytes) (\<lambda>raw.
       if (le_field 0 2 raw :: 16 word) \<noteq> 0 then Err (AcpiFail AcpiInvalidLayout)
       else
         bind_result (parse_local_apic_flags (le_field 6 4 raw)) (\<lambda>fl.
           Ok (ProcessorLocalX2Apic \<lparr>x2apic_id = le_field 2 4 raw, x2apic_flags = fl,
                 x2apic_processor_uid = le_field 10 4 raw\<rparr>)))"

definition parse_record :: "u8 \<Rightarrow> bytes \<Rightarrow> MadtRecord acpi" where
  "parse_record kind bytes =
     (if kind = 0 then parse_local_apic bytes
      else if kind = 1 then parse_io_apic bytes
      else if kind = 2 then parse_source_override bytes
      else if kind = 4 then parse_nmi bytes
      else if kind = 5 then parse_address_override bytes
      else if kind = 9 then parse_x2apic bytes
      else Ok (UnknownRecord kind bytes))"

section \<open>Table and iterator\<close>

record Madt =
  madt_table :: AcpiTableView
  local_apic_address :: u32
  madt_flags :: u32

definition madt_parse :: "bytes \<Rightarrow> Madt acpi" where
  "madt_parse bytes =
     bind_result (parse_signature bytes MADT) (\<lambda>table.
     bind_result (table_payload table) (\<lambda>payload.
       if length payload < 8 then Err (AcpiFail AcpiTruncated)
       else
         bind_result (read_unaligned_copy 8 payload) (\<lambda>raw. let raw_flags = le_field 4 4 raw in
           if raw_flags AND NOT PCAT_COMPAT \<noteq> 0 then Err (AcpiFail AcpiInvalidLayout)
           else Ok \<lparr>madt_table = table, local_apic_address = le_field 0 4 raw, madt_flags = raw_flags\<rparr>)))"

definition madt_records :: "Madt \<Rightarrow> table_iter acpi" where
  "madt_records m =
     bind_result (table_payload (madt_table m)) (\<lambda>payload.
     bind_result (slice_tail payload 8) (\<lambda>bs. Ok (bs, 0)))"

text \<open>On an error of the record header the offset stays where it is.\<close>

definition madt_next :: "table_iter \<Rightarrow> (MadtRecord acpi \<times> table_iter) option" where
  "madt_next it = (case it of (bs, offset) \<Rightarrow>
     Option.bind (get_range bs offset (offset + 2)) (\<lambda>header_bytes.
       case read_unaligned_copy 2 header_bytes of
         Err e \<Rightarrow> Some (Err e, (bs, offset))
       | Ok raw \<Rightarrow>
           let len = unat (raw ! 1) in
           if len < 2 then Some (Err (AcpiFail AcpiInvalidLayout), (bs, offset))
           else case get_range bs offset (offset + len) of
             None \<Rightarrow> Some (Err (AcpiFail AcpiTruncated), (bs, offset))
           | Some record_bytes \<Rightarrow>
               Some (bind_result (slice_tail record_bytes 2) (parse_record (raw ! 0)), (bs, offset + len))))"

lemma madt_next_advances:
  assumes "madt_next (bs, off) = Some (Ok r, it)"
  shows "\<exists>off'. it = (bs, off') \<and> off < off' \<and> off' \<le> length bs"
  using assms by (auto simp: madt_next_def Let_def get_range_Some_iff split: result.splits if_splits option.splits bind_splits)

text \<open>The \<open>for\<close> loop of \<open>effective_local_apic_address\<close>; \<open>found\<close> is \<open>override_address\<close>.\<close>

function override_loop :: "table_iter \<Rightarrow> 64 word option \<Rightarrow> 64 word option acpi" where
  "override_loop it found =
     (case madt_next it of
        None \<Rightarrow> Ok found
      | Some (Err e, _) \<Rightarrow> Err e
      | Some (Ok r, it') \<Rightarrow>
          (case r of
             LocalApicAddressOverride o' \<Rightarrow>
               if found \<noteq> None then Err (AcpiFail AcpiInvalidLayout)
               else override_loop it' (Some (override_address o'))
           | _ \<Rightarrow> override_loop it' found))"
  by pat_completeness auto
termination
  by (relation "measure (\<lambda>((bs, off), _). length bs - off)") (auto dest!: madt_next_advances)

declare override_loop.simps [simp del]

definition effective_local_apic_address :: "Madt \<Rightarrow> 64 word acpi" where
  "effective_local_apic_address m =
     bind_result (madt_records m) (\<lambda>it.
     bind_result (override_loop it None) (\<lambda>found.
       Ok (case found of Some a \<Rightarrow> a | None \<Rightarrow> ucast (local_apic_address m))))"

end
