(* ===== verification/Acpi_Table_Props.thy ===== *)
theory Acpi_Table_Props
  imports Acpi_Madt
begin

text \<open>
  What the table readers guarantee: a damaged table is refused, reading what was written returns it,
  iterators yield exactly the indexed entries, no reader panics, and the iterator over interrupt
  records stands still at a damaged record.
\<close>

section \<open>Checksum\<close>

lemma checksum_sum: "checksum_is_valid bs \<longleftrightarrow> sum_list bs = 0"
proof -
  have "foldl (\<lambda>sum byte. sum + byte) a bs = a + sum_list bs" for a by (induction bs arbitrary: a) (simp_all add: add.assoc)
  then show ?thesis by (simp add: checksum_is_valid_def)
qed

lemma sum_list_replace: "i < length bs \<Longrightarrow> sum_list (bs[i := b]) = sum_list bs - bs ! i + (b :: u8)"
  by (induction bs arbitrary: i) (auto simp: nth_Cons' split: nat.splits)

lemma le_field_replace:
  assumes "i < off \<or> off + n \<le> i"
  shows "le_field off n (take k (bs[i := b])) = le_field off n (take k bs)"
proof -
  have "take n (drop off (take k (bs[i := b]))) = take n (drop off (take k bs))"
    using assms by (auto simp: drop_take drop_update_cancel drop_update_swap take_update_cancel)
  then show ?thesis by (simp add: le_field_def)
qed

lemma table_parse_Ok_iff:
  "table_parse bs = Ok v \<longleftrightarrow> (\<exists>hdr. sdt_header_parse bs = Ok hdr \<and> unat (sdt_length hdr) \<le> length bs
     \<and> checksum_is_valid (take (unat (sdt_length hdr)) bs) \<and> v = \<lparr>table_header = hdr, table_bytes = take (unat (sdt_length hdr)) bs\<rparr>)"
  by (auto simp: table_parse_def bind_result_Ok_iff get_range_def split: if_splits)

lemma sdt_header_parse_Ok:
  "sdt_header_parse bs = Ok hdr \<Longrightarrow> 36 \<le> length bs \<and> sdt_length hdr = le_field 4 4 (take 36 bs) \<and> 36 \<le> unat (sdt_length hdr)"
  by (auto simp: sdt_header_parse_def bind_result_Ok_iff read_unaligned_copy_def SDT_SIZE_def Let_def split: if_splits)

lemma sdt_header_parse_exists:
  "36 \<le> length bs \<Longrightarrow> 36 \<le> unat (le_field 4 4 (take 36 bs) :: u32) \<Longrightarrow>
     \<exists>hdr. sdt_header_parse bs = Ok hdr \<and> sdt_length hdr = le_field 4 4 (take 36 bs)"
  by (simp add: sdt_header_parse_def read_unaligned_copy_def SDT_SIZE_def Let_def)

text \<open>
  C40. A damaged byte does not go unnoticed. Changing any single byte of an accepted table, other than
  those of its length field, makes the reader refuse the table for its checksum.
\<close>
theorem table_corruption_detected:
  assumes "table_parse bs = Ok v" and "i < length (table_bytes v)" and "i \<notin> {4..<8}" and "b \<noteq> bs ! i"
  shows "table_parse (bs[i := b]) = Err (AcpiFail AcpiInvalidChecksum)"
proof -
  obtain hdr where h: "sdt_header_parse bs = Ok hdr" "unat (sdt_length hdr) \<le> length bs"
    "checksum_is_valid (take (unat (sdt_length hdr)) bs)" "table_bytes v = take (unat (sdt_length hdr)) bs"
    using assms(1) by (auto simp: table_parse_Ok_iff)
  let ?n = "unat (sdt_length hdr)"
  have i: "i < ?n" using assms(2) h(2,4) by simp
  have "le_field 4 4 (take 36 (bs[i := b])) = (le_field 4 4 (take 36 bs) :: u32)"
    using assms(3) by (intro le_field_replace) auto
  then obtain hdr' where h': "sdt_header_parse (bs[i := b]) = Ok hdr'" "sdt_length hdr' = sdt_length hdr"
    using sdt_header_parse_exists [of "bs[i := b]"] sdt_header_parse_Ok [OF h(1)] by auto
  have "sum_list (take ?n (bs[i := b])) = sum_list (take ?n bs) - bs ! i + b"
    using sum_list_replace [of i "take ?n bs" b] i h(2) by (simp add: take_update_swap)
  then have "\<not> checksum_is_valid (take ?n (bs[i := b]))"
    using h(3) assms(4) by (simp add: checksum_sum)
  then show ?thesis using h' h(2) by (simp add: table_parse_def get_range_def)
qed

section \<open>Iterators\<close>

text \<open>The items an iterator yields until it ends.\<close>

inductive yields :: "('s \<Rightarrow> ('a \<times> 's) option) \<Rightarrow> 's \<Rightarrow> 'a list \<Rightarrow> bool" for nxt where
  yields_end: "nxt s = None \<Longrightarrow> yields nxt s []"
| yields_item: "nxt s = Some (x, s') \<Longrightarrow> yields nxt s' xs \<Longrightarrow> yields nxt s (x # xs)"

inductive_cases yields_NilE: "yields nxt s []"
inductive_cases yields_ConsE: "yields nxt s (x # xs)"

lemma yields_unique: "yields nxt s xs \<Longrightarrow> yields nxt s ys \<Longrightarrow> xs = ys"
proof (induction xs arbitrary: s ys)
  case Nil
  then show ?case by (cases ys) (auto elim!: yields_NilE yields_ConsE)
next
  case (Cons x xs)
  then show ?case by (cases ys) (auto elim!: yields_NilE yields_ConsE)
qed

text \<open>An iterator over entries of one size: what it yields, and that it agrees with access by index.\<close>

locale chunk_iterator =
  fixes nxt :: "table_iter \<Rightarrow> ('a \<times> table_iter) option" and sz :: nat and decode :: "bytes \<Rightarrow> 'a"
  assumes sz_pos: "0 < sz"
    and next_chunk: "nxt (bs, off) = (if off + sz \<le> length bs then Some (decode (take sz (drop off bs)), (bs, off + sz)) else None)"
begin

lemma yields_from:
  "off + n * sz \<le> length bs \<Longrightarrow> length bs < off + n * sz + sz \<Longrightarrow>
     yields nxt (bs, off) (map (\<lambda>i. decode (take sz (drop (off + i * sz) bs))) [0..<n])"
proof (induction n arbitrary: off)
  case 0
  then show ?case by (auto intro: yields_end simp: next_chunk)
next
  case (Suc n)
  have "yields nxt (bs, off + sz) (map (\<lambda>i. decode (take sz (drop (off + sz + i * sz) bs))) [0..<n])"
    using Suc.IH [of "off + sz"] Suc.prems by simp
  then have "yields nxt (bs, off) (decode (take sz (drop off bs)) # map (\<lambda>i. decode (take sz (drop (off + sz + i * sz) bs))) [0..<n])"
    using Suc.prems by (intro yields_item) (simp_all add: next_chunk)
  moreover have "map (\<lambda>i. decode (take sz (drop (off + i * sz) bs))) [0..<Suc n]
      = decode (take sz (drop off bs)) # map (\<lambda>i. decode (take sz (drop (off + sz + i * sz) bs))) [0..<n]"
    unfolding map_upt_Suc by (simp add: add.assoc)
  ultimately show ?case by simp
qed

lemma yields_all: "yields nxt (bs, 0) (map (\<lambda>i. decode (take sz (drop (i * sz) bs))) [0..<length bs div sz])"
  using yields_from [of 0 "length bs div sz" bs] sz_pos
  by (simp add: div_times_less_eq_dividend) (metis add.commute dividend_less_div_times)

end

lemma get_chunk_index:
  assumes "0 < sz" and "i * sz + sz \<le> usize_max"
  shows "get_chunk bs (saturating_mul i sz) sz = Ok (if i < length bs div sz then Some (take sz (drop (i * sz) bs)) else None)"
proof -
  have "i * sz + sz \<le> length bs \<longleftrightarrow> i < length bs div sz"
    using assms(1) by (metis Suc_le_eq add.commute less_eq_div_iff_mult_less_eq mult_Suc)
  then show ?thesis
    using assms by (simp add: get_chunk_def saturating_mul_def checked_add_def get_range_def min_absorb1)
qed

lemma parse_signature_Ok:
  "parse_signature bs sig = Ok v \<Longrightarrow> 36 \<le> length (table_bytes v)"
  by (auto simp: parse_signature_def bind_result_Ok_iff table_parse_Ok_iff split: if_splits dest!: sdt_header_parse_Ok)

lemma payload_Ok: "36 \<le> length (table_bytes v) \<Longrightarrow> table_payload v = Ok (drop 36 (table_bytes v))"
  by (simp add: table_payload_def slice_tail_def SDT_SIZE_def)

interpretation xsdt_iter: chunk_iterator xsdt_next 8 "le_field 0 8"
  by unfold_locales (auto simp: xsdt_next_def get_range_def read_unaligned_copy_def)

definition allocation_of :: "bytes \<Rightarrow> McfgAllocation" where
  "allocation_of raw = \<lparr>base_address = le_field 0 8 raw, segment_group = le_field 8 2 raw, start_bus = raw ! 10, end_bus = raw ! 11\<rparr>"

lemma parse_allocation_of: "length raw = 16 \<Longrightarrow> parse_allocation raw = Ok (allocation_of raw)"
  by (simp add: parse_allocation_def read_unaligned_copy_def allocation_of_def)

interpretation mcfg_iter: chunk_iterator mcfg_next 16 allocation_of
  by unfold_locales (auto simp: mcfg_next_def get_range_def parse_allocation_of)

text \<open>
  The entries of an XSDT and the allocations of an MCFG are the same by index and by iteration. The
  iterator of an accepted table ends; the number of items is the count; the item at an index is what
  the access by index returns, and beyond the count it returns nothing.
\<close>
theorem table_entries_by_index:
  assumes "xsdt_parse bs = Ok x" and "mcfg_parse cs = Ok m"
  shows "(\<exists>it es. xsdt_entries x = Ok it \<and> yields xsdt_next it es \<and> entry_count x = Ok (length es)
      \<and> (\<forall>i. i * 8 + 8 \<le> usize_max \<longrightarrow> xsdt_entry x i = Ok (if i < length es then Some (es ! i) else None)))
    \<and> (\<exists>it al. mcfg_allocations m = Ok it \<and> yields mcfg_next it al \<and> allocation_count m = Ok (length al)
      \<and> (\<forall>i. i * 16 + 16 \<le> usize_max \<longrightarrow> mcfg_allocation m i = Ok (if i < length al then Some (al ! i) else None)))"
proof
  obtain p where p: "table_payload (xsdt_table x) = Ok p"
    using assms(1) by (auto simp: xsdt_parse_def bind_result_Ok_iff split: if_splits)
  let ?es = "map (\<lambda>i. le_field 0 8 (take 8 (drop (i * 8) p)) :: 64 word) [0..<length p div 8]"
  have "xsdt_entry x i = Ok (if i < length ?es then Some (?es ! i) else None)" if "i * 8 + 8 \<le> usize_max" for i
    using get_chunk_index [of 8 i p] that by (auto simp: xsdt_entry_def p read_unaligned_copy_def)
  then show "\<exists>it es. xsdt_entries x = Ok it \<and> yields xsdt_next it es \<and> entry_count x = Ok (length es)
      \<and> (\<forall>i. i * 8 + 8 \<le> usize_max \<longrightarrow> xsdt_entry x i = Ok (if i < length es then Some (es ! i) else None))"
    using xsdt_iter.yields_all [of p]
    by (intro exI [of _ "(p, 0)"] exI [of _ ?es]) (simp add: xsdt_entries_def entry_count_def p)
next
  obtain p where p: "allocations_bytes m = Ok p"
    using assms(2) by (auto simp: mcfg_parse_def allocations_bytes_def bind_result_Ok_iff split: if_splits)
  let ?al = "map (\<lambda>i. allocation_of (take 16 (drop (i * 16) p))) [0..<length p div 16]"
  have "mcfg_allocation m i = Ok (if i < length ?al then Some (?al ! i) else None)" if "i * 16 + 16 \<le> usize_max" for i
    using get_chunk_index [of 16 i p] that by (auto simp: mcfg_allocation_def p parse_allocation_of)
  then show "\<exists>it al. mcfg_allocations m = Ok it \<and> yields mcfg_next it al \<and> allocation_count m = Ok (length al)
      \<and> (\<forall>i. i * 16 + 16 \<le> usize_max \<longrightarrow> mcfg_allocation m i = Ok (if i < length al then Some (al ! i) else None))"
    using mcfg_iter.yields_all [of p]
    by (intro exI [of _ "(p, 0)"] exI [of _ ?al]) (simp add: mcfg_allocations_def allocation_count_def p)
qed

section \<open>No reader panics\<close>

definition calm :: "'a acpi \<Rightarrow> bool" where
  "calm r \<longleftrightarrow> r \<noteq> Err AcpiPanic"

lemma calm_simps [simp]: "calm (Ok x)" "calm (Err (AcpiFail e))" "calm (ok_or (AcpiFail e) m)"
  by (cases m; simp add: calm_def)+

lemma calm_bind: "calm r \<Longrightarrow> (\<And>x. r = Ok x \<Longrightarrow> calm (f x)) \<Longrightarrow> calm (bind_result r f)"
  by (cases r) (auto simp: calm_def)

lemma calm_if: "(c \<Longrightarrow> calm a) \<Longrightarrow> (\<not> c \<Longrightarrow> calm b) \<Longrightarrow> calm (if c then a else b)"
  by simp

lemma calm_reads [simp]: "calm (read_unaligned_copy n bs)" "calm (read_field n bs off)" "calm (byte_field bs off)"
  by (auto simp: read_unaligned_copy_def read_field_def byte_field_def intro!: calm_bind)

lemma calm_slices: "n \<le> length bs \<Longrightarrow> calm (slice_tail bs n)" "a \<le> b \<Longrightarrow> b \<le> length bs \<Longrightarrow> calm (slice_range bs a b)"
  by (simp_all add: slice_tail_def slice_range_def get_range_def)

lemma calm_table: "calm (table_parse bs)" "calm (parse_signature bs sig)"
  by (auto simp: table_parse_def parse_signature_def sdt_header_parse_def Let_def intro!: calm_bind calm_if)

lemma calm_payload: "parse_signature bs sig = Ok v \<Longrightarrow> calm (table_payload v)"
  using payload_Ok parse_signature_Ok by fastforce

lemmas calm_parse = calm_bind calm_if calm_table calm_payload calm_slices

lemma calm_parse_record: "calm (parse_record kind bs)"
  by (auto simp: parse_record_def parse_local_apic_def parse_io_apic_def parse_source_override_def parse_nmi_def
      parse_address_override_def parse_x2apic_def parse_record_body_def parse_local_apic_flags_def parse_mps_inti_flags_def
      intro!: calm_bind calm_if)

lemma calm_madt_next: "madt_next it = Some (r, it') \<Longrightarrow> calm r"
  by (cases it) (auto simp: madt_next_def read_unaligned_copy_def Let_def bind_eq_Some_conv get_range_Some_iff
      intro!: calm_bind calm_slices calm_parse_record split: if_splits option.splits)

lemma calm_override_loop: "calm (override_loop it found)"
proof (induction it found rule: override_loop.induct)
  case (1 it found)
  show ?case
  proof (cases "madt_next it")
    case (Some p)
    obtain r it' where p: "p = (r, it')" by (cases p)
    show ?thesis using 1 Some p calm_madt_next [of it r it']
      by (cases r) (auto simp: override_loop.simps [of it found] calm_def split: MadtRecord.splits)
  qed (simp add: override_loop.simps)
qed

text \<open>
  C24. No input makes a reader panic. Whatever bytes firmware left, reading a DSDT, XSDT, MCFG, MADT, FADT
  or FACS returns a table or an error; so does the search for the local APIC address of an accepted
  MADT, and an accepted DSDT always gives a definition block.
\<close>
theorem acpi_readers_never_panic:
  "calm (dsdt_parse bs) \<and> calm (xsdt_parse bs) \<and> calm (mcfg_parse bs) \<and> calm (madt_parse bs) \<and> calm (fadt_parse bs) \<and> calm (facs_parse bs)
   \<and> (madt_parse bs = Ok m \<longrightarrow> calm (effective_local_apic_address m))
   \<and> (dsdt_parse bs = Ok d \<longrightarrow> (\<exists>b. from_dsdt d = Ok b \<and> block_kind b = Dsdt \<and> aml_bytes d = Ok (block_bytes b)))"
proof (intro conjI impI)
  show "calm (dsdt_parse bs)" by (auto simp: dsdt_parse_def intro!: calm_parse)
  show "calm (xsdt_parse bs)" by (auto simp: xsdt_parse_def intro!: calm_parse)
  show "calm (mcfg_parse bs)" by (auto simp: mcfg_parse_def intro!: calm_parse)
  show "calm (madt_parse bs)" by (auto simp: madt_parse_def Let_def intro!: calm_parse)
  show "calm (fadt_parse bs)" by (auto simp: fadt_parse_def Let_def intro!: calm_parse)
  show "calm (facs_parse bs)"
    by (auto simp: facs_parse_def Let_def get_range_def intro!: calm_parse split: if_splits)
  show "calm (effective_local_apic_address m)" if "madt_parse bs = Ok m"
    using that by (auto simp: madt_parse_def madt_records_def effective_local_apic_address_def Let_def bind_result_Ok_iff
        intro!: calm_parse calm_override_loop split: if_splits)
  show "\<exists>b. from_dsdt d = Ok b \<and> block_kind b = Dsdt \<and> aml_bytes d = Ok (block_bytes b)" if "dsdt_parse bs = Ok d"
  proof -
    have "parse_signature bs DSDT = Ok (dsdt_table d)" using that by (auto simp: dsdt_parse_def bind_result_Ok_iff)
    moreover from this have "sdt_signature (table_header (dsdt_table d)) = DSDT"
      by (auto simp: parse_signature_def bind_result_Ok_iff split: if_splits)
    ultimately show ?thesis
      using payload_Ok [OF parse_signature_Ok]
      by (auto simp: from_dsdt_def block_from_acpi_table_def aml_bytes_def from_signature_def DSDT_def is_definition_block_def Let_def)
  qed
qed

section \<open>Writing and reading back\<close>

definition le_image :: "nat \<Rightarrow> 'a::len word \<Rightarrow> bytes" where
  "le_image n v = map (\<lambda>i. ucast (drop_bit (8 * i) (ucast v :: 64 word))) [0..<n]"

lemma length_le_image [simp]: "length (le_image n v) = n"
  by (simp add: le_image_def)

lemma le_image_read [simp]:
  assumes "LENGTH('a) = 8 * n" and "n \<le> 8"
  shows "ucast (from_le_bytes (le_image n (v :: 'a::len word))) = v"
proof -
  have "from_le_bytes (le_image n v) = take_bit (8 * n) (ucast v)" unfolding le_image_def by (rule from_le_bytes_take [OF assms(2)])
  then show ?thesis using assms by (intro bit_word_eqI) (auto simp: bit_simps)
qed

lemma le_image_read_64: "from_le_bytes (le_image 8 (v :: 64 word)) = v"
  using le_image_read [of 8, where 'a = 64] by simp

definition sdt_image :: "AcpiSdtHeader \<Rightarrow> bytes \<Rightarrow> u8 \<Rightarrow> bytes" where
  "sdt_image h pl chk =
     sdt_signature h @ le_image 4 (of_nat (36 + length pl) :: u32) @ [sdt_revision h, chk] @ sdt_oem_id h @ sdt_oem_table_id h
     @ le_image 4 (sdt_oem_revision h) @ le_image 4 (sdt_creator_id h) @ le_image 4 (sdt_creator_revision h) @ pl"

definition encode_table :: "AcpiSdtHeader \<Rightarrow> bytes \<Rightarrow> bytes" where
  "encode_table h pl = sdt_image h pl (- sum_list (sdt_image h pl 0))"

definition header_wf :: "AcpiSdtHeader \<Rightarrow> bool" where
  "header_wf h \<longleftrightarrow> length (sdt_signature h) = 4 \<and> length (sdt_oem_id h) = 6 \<and> length (sdt_oem_table_id h) = 8"

lemma encode_table_parse:
  assumes "header_wf h" and "36 + length pl < 2 ^ 32"
  shows "\<exists>v. table_parse (encode_table h pl @ tail) = Ok v \<and> sdt_signature (table_header v) = sdt_signature h
    \<and> table_payload v = Ok pl
    \<and> table_header v = h\<lparr>sdt_length := of_nat (36 + length pl), sdt_checksum := - sum_list (sdt_image h pl 0)\<rparr>"
proof -
  let ?c = "- sum_list (sdt_image h pl 0)" and ?n = "of_nat (36 + length pl) :: u32"
  let ?img = "sdt_image h pl ?c"
  have len: "length ?img = 36 + length pl" using assms(1) by (simp add: sdt_image_def header_wf_def)
  have n: "unat ?n = 36 + length pl" using assms(2) by (simp only: unat_of_nat) simp
  have hdr: "sdt_header_parse (?img @ tail) = Ok (h\<lparr>sdt_length := ?n, sdt_checksum := ?c\<rparr>)"
    using assms(1) n by (cases h)
      (simp add: sdt_header_parse_def read_unaligned_copy_def SDT_SIZE_def sdt_image_def header_wf_def le_field_def Let_def
        nth_append take_Cons' drop_Cons')
  have "sum_list ?img = 0" by (simp add: sdt_image_def)
  then have "table_parse (?img @ tail) = Ok \<lparr>table_header = h\<lparr>sdt_length := ?n, sdt_checksum := ?c\<rparr>, table_bytes = ?img\<rparr>"
    using hdr n len by (simp add: table_parse_def get_range_def checksum_sum)
  moreover have "drop 36 ?img = pl" using assms(1) by (simp add: sdt_image_def header_wf_def)
  ultimately show ?thesis using len by (simp add: encode_table_def payload_Ok)
qed

section \<open>Concrete tables\<close>

definition sample_header :: "bytes \<Rightarrow> AcpiSdtHeader" where
  "sample_header sig =
     \<lparr>sdt_signature = sig, sdt_length = 0, sdt_revision = 2, sdt_checksum = 0, sdt_oem_id = replicate 6 0x46,
      sdt_oem_table_id = replicate 8 0x54, sdt_oem_revision = 1, sdt_creator_id = 2, sdt_creator_revision = 3\<rparr>"

lemma sample_parse:
  assumes "length sig = 4" and "length pl \<le> 64"
  shows "\<exists>v. parse_signature (encode_table (sample_header sig) pl) sig = Ok v \<and> table_payload v = Ok pl"
  using encode_table_parse [of "sample_header sig" pl "[]"] assms
  by (auto simp: header_wf_def sample_header_def parse_signature_def)

theorem table_corruption_detected_witness:
  "table_parse ((encode_table (sample_header DSDT) [])[8 := 3]) = Err (AcpiFail AcpiInvalidChecksum)"
proof -
  let ?bs = "encode_table (sample_header DSDT) []"
  have h: "header_wf (sample_header DSDT)" by (simp add: header_wf_def sample_header_def DSDT_def)
  obtain v where v: "table_parse ?bs = Ok v" "table_payload v = Ok []"
    "sdt_length (table_header v) = 36"
    using encode_table_parse [OF h, of "[]" "[]"] by auto
  have len: "length (table_bytes v) = 36" using v by (auto simp: table_parse_Ok_iff encode_table_def sdt_image_def sample_header_def DSDT_def)
  show ?thesis
    by (rule table_corruption_detected [OF v(1)]) (simp_all add: len encode_table_def sdt_image_def sample_header_def DSDT_def nth_append)
qed

theorem table_entries_by_index_witness:
  "\<exists>x m it es al it'. xsdt_parse (encode_table (sample_header XSDT) (replicate 16 0)) = Ok x \<and> mcfg_parse (encode_table (sample_header MCFG) (replicate 24 0)) = Ok m
     \<and> xsdt_entries x = Ok it \<and> yields xsdt_next it es \<and> xsdt_entry x 5 = Ok (if 5 < length es then Some (es ! 5) else None)
     \<and> mcfg_allocations m = Ok it' \<and> yields mcfg_next it' al \<and> mcfg_allocation m 0 = Ok (if 0 < length al then Some (al ! 0) else None)"
proof -
  obtain v where "parse_signature (encode_table (sample_header XSDT) (replicate 16 0)) XSDT = Ok v" "table_payload v = Ok (replicate 16 0)"
    using sample_parse [of XSDT "replicate 16 0"] by (auto simp: XSDT_def)
  then have x: "xsdt_parse (encode_table (sample_header XSDT) (replicate 16 0)) = Ok \<lparr>xsdt_table = v\<rparr>"
    by (simp add: xsdt_parse_def)
  obtain u where "parse_signature (encode_table (sample_header MCFG) (replicate 24 0)) MCFG = Ok u" "table_payload u = Ok (replicate 24 0)"
    using sample_parse [of MCFG "replicate 24 0"] by (auto simp: MCFG_def)
  then have m: "mcfg_parse (encode_table (sample_header MCFG) (replicate 24 0)) = Ok \<lparr>mcfg_table = u, mcfg_reserved = le_field 0 8 (replicate 8 0)\<rparr>"
    by (simp add: mcfg_parse_def read_unaligned_copy_def slice_tail_def)
  have small: "5 * 8 + 8 \<le> usize_max" "0 * 16 + 16 \<le> usize_max" by (simp_all add: usize_max_def)
  from table_entries_by_index [OF x m] small x m show ?thesis by blast
qed

theorem acpi_readers_never_panic_witness:
  "\<exists>d b. dsdt_parse (encode_table (sample_header DSDT) [0xa3]) = Ok d \<and> from_dsdt d = Ok b \<and> aml_bytes d = Ok (block_bytes b)"
proof -
  obtain v where "parse_signature (encode_table (sample_header DSDT) [0xa3]) DSDT = Ok v"
    using sample_parse [of DSDT "[0xa3]"] by (auto simp: DSDT_def)
  then have d: "dsdt_parse (encode_table (sample_header DSDT) [0xa3]) = Ok \<lparr>dsdt_table = v\<rparr>" by (simp add: dsdt_parse_def)
  then show ?thesis using acpi_readers_never_panic [of "encode_table (sample_header DSDT) [0xa3]"] by blast
qed

end
