(* ===== verification/Acpi_Madt_Props.thy ===== *)
theory Acpi_Madt_Props
  imports Acpi_Table_Props
begin

text \<open>
  Interrupt-controller tables written and read back: every list of well-formed records is returned by the
  iterator, and the effective address of the local APIC is the declared override. At a record with a bad
  length the iterator stands still.
\<close>

section \<open>Records\<close>

fun record_image :: "MadtRecord \<Rightarrow> bytes" where
  "record_image (ProcessorLocalApic r) = [0, 8, lapic_processor_uid r, lapic_id r] @ le_image 4 (lapic_flags r)"
| "record_image (IoApic r) = [1, 12, io_apic_id r, 0] @ le_image 4 (io_apic_address r) @ le_image 4 (global_system_interrupt_base r)"
| "record_image (InterruptSourceOverride r) =
     [2, 10, override_bus r, override_source r] @ le_image 4 (override_gsi r) @ le_image 2 (int_raw (override_flags r))"
| "record_image (LocalApicNmi r) = [4, 6, nmi_processor_uid r] @ le_image 2 (int_raw (nmi_flags r)) @ [nmi_lint r]"
| "record_image (LocalApicAddressOverride r) = [5, 12] @ le_image 2 (0 :: 16 word) @ le_image 8 (override_address r)"
| "record_image (ProcessorLocalX2Apic r) =
     [9, 16] @ le_image 2 (0 :: 16 word) @ le_image 4 (x2apic_id r) @ le_image 4 (x2apic_flags r) @ le_image 4 (x2apic_processor_uid r)"
| "record_image (UnknownRecord kind bs) = [kind, of_nat (2 + length bs)] @ bs"

fun record_wf :: "MadtRecord \<Rightarrow> bool" where
  "record_wf (ProcessorLocalApic r) \<longleftrightarrow> parse_local_apic_flags (lapic_flags r) = Ok (lapic_flags r)"
| "record_wf (InterruptSourceOverride r) \<longleftrightarrow> override_bus r = 0 \<and> parse_mps_inti_flags (int_raw (override_flags r)) = Ok (override_flags r)"
| "record_wf (LocalApicNmi r) \<longleftrightarrow> parse_mps_inti_flags (int_raw (nmi_flags r)) = Ok (nmi_flags r)"
| "record_wf (ProcessorLocalX2Apic r) \<longleftrightarrow> parse_local_apic_flags (x2apic_flags r) = Ok (x2apic_flags r)"
| "record_wf (UnknownRecord kind bs) \<longleftrightarrow> kind \<notin> {0, 1, 2, 4, 5, 9} \<and> length bs \<le> 253"
| "record_wf _ \<longleftrightarrow> True"

lemma record_shape:
  assumes "record_wf r"
  obtains kind pl where "record_image r = [kind, of_nat (2 + length pl)] @ pl" and "length pl \<le> 253" and "parse_record kind pl = Ok r"
proof (cases r)
  case (ProcessorLocalApic a)
  then show ?thesis using assms
    by (intro that [of 0 "drop 2 (record_image r)"])
      (simp_all add: parse_record_def parse_local_apic_def parse_record_body_def read_unaligned_copy_def le_field_def)
next
  case (IoApic a)
  then show ?thesis
    by (intro that [of 1 "drop 2 (record_image r)"])
      (simp_all add: parse_record_def parse_io_apic_def parse_record_body_def read_unaligned_copy_def le_field_def)
next
  case (InterruptSourceOverride a)
  then show ?thesis using assms
    by (intro that [of 2 "drop 2 (record_image r)"])
      (simp_all add: parse_record_def parse_source_override_def parse_record_body_def read_unaligned_copy_def le_field_def)
next
  case (LocalApicNmi a)
  then show ?thesis using assms
    by (intro that [of 4 "drop 2 (record_image r)"])
      (simp_all add: parse_record_def parse_nmi_def parse_record_body_def read_unaligned_copy_def le_field_def nth_append)
next
  case (LocalApicAddressOverride a)
  then show ?thesis
    by (intro that [of 5 "drop 2 (record_image r)"])
      (simp_all add: parse_record_def parse_address_override_def parse_record_body_def read_unaligned_copy_def le_field_def le_image_read_64)
next
  case (ProcessorLocalX2Apic a)
  then show ?thesis using assms
    by (intro that [of 9 "drop 2 (record_image r)"])
      (simp_all add: parse_record_def parse_x2apic_def parse_record_body_def read_unaligned_copy_def le_field_def)
next
  case (UnknownRecord kind bs)
  then show ?thesis using assms by (intro that [of kind bs]) (simp_all add: parse_record_def)
qed

lemma madt_next_image:
  assumes "record_wf r"
  shows "madt_next (pre @ record_image r @ post, length pre) = Some (Ok r, (pre @ record_image r @ post, length pre + length (record_image r)))"
proof -
  obtain kind pl where r: "record_image r = [kind, of_nat (2 + length pl)] @ pl" "length pl \<le> 253" "parse_record kind pl = Ok r"
    using record_shape [OF assms] .
  have n: "unat (of_nat (2 + length pl) :: u8) = 2 + length pl" using r(2) by (simp only: unat_of_nat) simp
  show ?thesis unfolding r(1) using r(3) n
    by (simp add: madt_next_def get_range_def read_unaligned_copy_def slice_tail_def Let_def del: of_nat_add)
qed

text \<open>The iterator at the start of a list of records, behind others.\<close>

definition at_records :: "bytes \<Rightarrow> MadtRecord list \<Rightarrow> table_iter" where
  "at_records pre rs = (pre @ concat (map record_image rs), length pre)"

lemma at_records_Nil: "madt_next (at_records pre []) = None"
  by (simp add: at_records_def madt_next_def get_range_def)

lemma at_records_Cons:
  "record_wf r \<Longrightarrow> madt_next (at_records pre (r # rs)) = Some (Ok r, at_records (pre @ record_image r) rs)"
  using madt_next_image [of r pre "concat (map record_image rs)"] by (simp add: at_records_def)

lemma yields_records: "list_all record_wf rs \<Longrightarrow> yields madt_next (at_records pre rs) (map Ok rs)"
  by (induction rs arbitrary: pre) (auto intro: yields_end yields_item simp: at_records_Nil at_records_Cons)

definition overrides :: "MadtRecord list \<Rightarrow> 64 word list" where
  "overrides rs = concat (map (\<lambda>r. case r of LocalApicAddressOverride a \<Rightarrow> [override_address a] | _ \<Rightarrow> []) rs)"

text \<open>At most one of the candidates, if any.\<close>

definition at_most_one :: "64 word list \<Rightarrow> 64 word option acpi" where
  "at_most_one as = (case as of [] \<Rightarrow> Ok None | [a] \<Rightarrow> Ok (Some a) | _ \<Rightarrow> Err (AcpiFail AcpiInvalidLayout))"

lemma override_loop_records:
  "list_all record_wf rs \<Longrightarrow>
     override_loop (at_records pre rs) found = at_most_one ((case found of None \<Rightarrow> [] | Some a \<Rightarrow> [a]) @ overrides rs)"
proof (induction rs arbitrary: pre found)
  case Nil
  then show ?case by (simp add: override_loop.simps at_records_Nil overrides_def at_most_one_def split: option.splits)
next
  case (Cons r rs)
  then show ?case
    by (subst override_loop.simps)
      (auto simp: at_records_Cons overrides_def at_most_one_def split: MadtRecord.splits option.splits)
qed

text \<open>
  C25. A table of interrupt controllers is read as it was written. For every list of well-formed records,
  the table with these records is accepted, its iterator returns the records in order and ends, and the
  effective address of the local APIC is the address of the header, or of the one record that overrides
  it, or an error when two do.
\<close>
theorem madt_reads_what_was_written:
  assumes "header_wf h" and "sdt_signature h = MADT" and "list_all record_wf rs" and "flags AND NOT PCAT_COMPAT = 0"
    and "pl = le_image 4 address @ le_image 4 flags @ concat (map record_image rs)" and "36 + length pl < 2 ^ 32"
  shows "\<exists>m it. madt_parse (encode_table h pl @ tail) = Ok m \<and> madt_records m = Ok it \<and> yields madt_next it (map Ok rs)
    \<and> local_apic_address m = address \<and> madt_flags m = flags
    \<and> effective_local_apic_address m = bind_result (at_most_one (overrides rs)) (\<lambda>found.
         Ok (case found of Some a \<Rightarrow> a | None \<Rightarrow> ucast address))"
proof -
  obtain v where v: "table_parse (encode_table h pl @ tail) = Ok v" "sdt_signature (table_header v) = MADT" "table_payload v = Ok pl"
    using encode_table_parse [OF assms(1,6)] assms(2) by metis
  let ?m = "\<lparr>madt_table = v, local_apic_address = address, madt_flags = flags\<rparr>" and ?it = "at_records [] rs"
  have "madt_parse (encode_table h pl @ tail) = Ok ?m"
    using v assms(4) by (simp add: madt_parse_def parse_signature_def assms(5) read_unaligned_copy_def le_field_def Let_def)
  moreover have it: "madt_records ?m = Ok ?it"
    using v(3) by (simp add: madt_records_def assms(5) slice_tail_def at_records_def)
  ultimately show ?thesis
    using yields_records [OF assms(3)] override_loop_records [OF assms(3), of "[]" None]
    by (intro exI [of _ ?m] exI [of _ ?it]) (simp add: effective_local_apic_address_def cong: option.case_cong)
qed

text \<open>
  The iterator over the records stands still at a damaged one. Where the length of a record is
  below two or reaches past the table, \<open>next\<close> returns an error and stays where it is, so iteration that
  goes on after an error never ends.
\<close>
theorem madt_iterator_stands_still:
  assumes "off + 2 \<le> length bs" and "unat (bs ! (off + 1)) < 2 \<or> length bs < off + unat (bs ! (off + 1))"
  shows "(\<exists>e. madt_next (bs, off) = Some (Err e, (bs, off))) \<and> \<not> yields madt_next (bs, off) xs"
proof
  show e: "\<exists>e. madt_next (bs, off) = Some (Err e, (bs, off))"
    using assms by (auto simp: madt_next_def get_range_def read_unaligned_copy_def Let_def)
  show "\<not> yields madt_next (bs, off) xs"
  proof (induction xs)
    case Nil
    then show ?case using e by (auto elim: yields_NilE)
  next
    case (Cons x xs)
    then show ?case using e by (auto elim!: yields_ConsE)
  qed
qed

section \<open>A concrete table\<close>

definition sample_override :: MadtRecord where
  "sample_override = LocalApicAddressOverride \<lparr>override_address = 0x100000000\<rparr>"

theorem madt_reads_what_was_written_witness:
  "\<exists>m it. madt_parse (encode_table (sample_header MADT) (le_image 4 (0xfee00000 :: u32) @ le_image 4 (1 :: u32) @ record_image sample_override) @ [])
      = Ok m \<and> madt_records m = Ok it \<and> yields madt_next it [Ok sample_override] \<and> effective_local_apic_address m = Ok 0x100000000"
  using madt_reads_what_was_written [of "sample_header MADT" "[sample_override]" 1
      "le_image 4 (0xfee00000 :: u32) @ le_image 4 (1 :: u32) @ record_image sample_override" "0xfee00000" "[]"]
  by (auto simp: sample_header_def header_wf_def MADT_def sample_override_def PCAT_COMPAT_def overrides_def at_most_one_def)

theorem madt_iterator_stands_still_witness:
  "(\<exists>e. madt_next ([0, 1], 0) = Some (Err e, ([0, 1], 0))) \<and> \<not> yields madt_next ([0, 1], 0) []"
  by (rule madt_iterator_stands_still) simp_all

end
