(* ===== verification/Aml_Vm.thy ===== *)
theory Aml_Vm
  imports Aml_Eval
begin

text \<open>
  The lifecycle driver of the AML machine (\<open>aml/vm.rs\<close>), the routing of events through a backend's declared
  methods (\<open>aml/lowering.rs\<close>) and the check of a backend's declarations against a namespace
  (\<open>aml/verify.rs\<close>, with the declarations of \<open>drivers/acpi/public/interface/backend\<close> in \<open>fusion-hal\<close>).

  A pass of the driver is a run over the world: the machine's coarse state, the runtime overlay and the
  host. The fuel of the evaluations is an argument. Counters of reports are \<open>u16\<close> and saturate.
\<close>

section \<open>Lifecycle (vm.rs)\<close>

record AmlVmConfig =
  enable_tracing :: bool
  allow_external_resolution :: bool
  eager_region_registration :: bool

definition default_config :: AmlVmConfig where
  "default_config = \<lparr>enable_tracing = False, allow_external_resolution = False, eager_region_registration = True\<rparr>"

datatype AmlVmState = VmEmpty | VmLoaded | VmReady | VmRunning | VmBlocked

record AmlVmLifecycleReport =
  lr_invoked :: "16 word"
  lr_skipped :: "16 word"
  lr_blocked :: "16 word"

record AmlVmHandlerDispatchReport =
  hr_invoked :: "16 word"
  hr_blocked :: "16 word"
  hr_missing :: "16 word"

definition lifecycle_is_clean :: "AmlVmLifecycleReport \<Rightarrow> bool" where
  "lifecycle_is_clean r \<longleftrightarrow> lr_blocked r = 0"

definition dispatch_is_clean :: "AmlVmHandlerDispatchReport \<Rightarrow> bool" where
  "dispatch_is_clean r \<longleftrightarrow> hr_blocked r = 0"

datatype AmlEventHandlerKind = Level | Edge

datatype AmlInitializerDecision = Run | Skip | DecisionBlocked

record AmlVm =
  vm_config :: AmlVmConfig
  vm_state :: AmlVmState

definition vm_new :: "AmlVmConfig \<Rightarrow> AmlVm" where
  "vm_new config = \<lparr>vm_config = config, vm_state = VmEmpty\<rparr>"

record 'h vm_world =
  world_vm :: AmlVm
  world_runtime :: AmlRuntimeState
  world_host :: 'h

definition get_world :: "('h vm_world, 'h vm_world) run" where
  "get_world = (\<lambda>w. (Ok w, w))"

definition set_vm_state :: "AmlVmState \<Rightarrow> (unit, 'h vm_world) run" where
  "set_vm_state s = (\<lambda>w. (Ok (), w\<lparr>world_vm := (world_vm w)\<lparr>vm_state := s\<rparr>\<rparr>))"

definition saturating_inc :: "16 word \<Rightarrow> 16 word" where
  "saturating_inc x = (if x = - 1 then x else x + 1)"

text \<open>\<open>evaluator.evaluate_with_host_and_state(host, runtime, AmlMethodInvocation \<^emph>\<open>...\<close>)\<close>.\<close>

definition vm_evaluate ::
  "AmlLoadedNamespace \<Rightarrow> 'h AmlRegionAccessHost \<Rightarrow> nat \<Rightarrow> AmlNamespaceNodeId \<Rightarrow> AmlValue list
     \<Rightarrow> (AmlEvaluationOutcome, 'h vm_world) run" where
  "vm_evaluate ns h fuel node vs = (\<lambda>w.
     case evaluate_with_host_and_state ns h fuel \<lparr>invoked_method = node, invocation_args = vs\<rparr>
            (world_runtime w) (world_host w) of
       (r, st, hs) \<Rightarrow> (r, w\<lparr>world_runtime := st, world_host := hs\<rparr>))"

definition address_space_argument :: "AmlAddressSpaceId \<Rightarrow> 64 word" where
  "address_space_argument space = (case space of
      SystemMemory \<Rightarrow> 0x00 | SystemIo \<Rightarrow> 0x01 | PciConfig \<Rightarrow> 0x02 | EmbeddedControl \<Rightarrow> 0x03
    | SmBus \<Rightarrow> 0x04 | Cmos \<Rightarrow> 0x05 | PciBarTarget \<Rightarrow> 0x06 | Ipmi \<Rightarrow> 0x07 | Gpio \<Rightarrow> 0x08
    | GenericSerialBus \<Rightarrow> 0x09 | PlatformCommChannel \<Rightarrow> 0x0a | FunctionalFixedHardware \<Rightarrow> 0x7f
    | Oem v \<Rightarrow> ucast v)"

text \<open>
  The inner loop of \<open>register_regions\<close>: \<open>seen\<close> is \<open>seen_spaces[..seen_len]\<close>, whose length is also
  \<open>sibling_count\<close>. The result says whether the pass ends because the method blocked.
\<close>

fun register_siblings ::
  "AmlLoadedNamespace \<Rightarrow> 'h AmlRegionAccessHost \<Rightarrow> nat \<Rightarrow> AmlMethodDescriptor \<Rightarrow> AmlNamespaceNodeId option
     \<Rightarrow> AmlNamespaceLoadRecord list \<Rightarrow> AmlAddressSpaceId list \<Rightarrow> AmlVmLifecycleReport
     \<Rightarrow> (bool \<times> AmlAddressSpaceId list \<times> AmlVmLifecycleReport, 'h vm_world) run" where
  "register_siblings ns h fuel method parent [] seen report = rret (False, seen, report)"
| "register_siblings ns h fuel method parent (sibling # rest) seen report =
     (if node_parent (descriptor sibling) \<noteq> parent then register_siblings ns h fuel method parent rest seen report
      else case payload sibling of
        PayloadOpRegion region \<Rightarrow>
          if region_space region \<in> set seen then register_siblings ns h fuel method parent rest seen report
          else if 16 \<le> length seen then rfail overflow
          else
            rbind (vm_evaluate ns h fuel (method_node method)
                [VInteger (address_space_argument (region_space region)), VInteger 1]) (\<lambda>outcome.
            let seen' = seen @ [region_space region];
                report' = report\<lparr>lr_invoked := saturating_inc (lr_invoked report)\<rparr> in
              if blocked outcome then
                rbind (set_vm_state VmBlocked) (\<lambda>_.
                  rret (True, seen', report'\<lparr>lr_blocked := saturating_inc (lr_blocked report')\<rparr>))
              else register_siblings ns h fuel method parent rest seen' report')
      | _ \<Rightarrow> register_siblings ns h fuel method parent rest seen report)"

fun register_methods ::
  "AmlLoadedNamespace \<Rightarrow> 'h AmlRegionAccessHost \<Rightarrow> nat \<Rightarrow> AmlNamespaceLoadRecord list \<Rightarrow> AmlVmLifecycleReport
     \<Rightarrow> (AmlVmLifecycleReport, 'h vm_world) run" where
  "register_methods ns h fuel [] report = rbind (set_vm_state VmReady) (\<lambda>_. rret report)"
| "register_methods ns h fuel (r # rest) report =
     (case payload r of
        PayloadMethod method \<Rightarrow>
          if method_kind method \<noteq> RegionAvailability then register_methods ns h fuel rest report
          else
            rbind (register_siblings ns h fuel method (node_parent (descriptor r)) (records ns) [] report)
              (\<lambda>(stopped, seen, report').
                if stopped then rret report'
                else if seen = [] then
                  register_methods ns h fuel rest (report'\<lparr>lr_skipped := saturating_inc (lr_skipped report')\<rparr>)
                else register_methods ns h fuel rest report')
      | _ \<Rightarrow> register_methods ns h fuel rest report)"

definition empty_report :: AmlVmLifecycleReport where
  "empty_report = \<lparr>lr_invoked = 0, lr_skipped = 0, lr_blocked = 0\<rparr>"

definition register_regions ::
  "AmlLoadedNamespace \<Rightarrow> 'h AmlRegionAccessHost \<Rightarrow> nat \<Rightarrow> (AmlVmLifecycleReport, 'h vm_world) run" where
  "register_regions ns h fuel =
     rbind (set_vm_state VmLoaded) (\<lambda>_.
     rbind get_world (\<lambda>w.
       if \<not> eager_region_registration (vm_config (world_vm w)) then rret empty_report
       else register_methods ns h fuel (records ns) empty_report))"

definition status_decision :: "64 word \<Rightarrow> AmlInitializerDecision" where
  "status_decision status = (if status AND 0x01 \<noteq> 0 \<and> status AND 0x08 \<noteq> 0 then Run else Skip)"

fun initializer_loop ::
  "AmlLoadedNamespace \<Rightarrow> 'h AmlRegionAccessHost \<Rightarrow> nat \<Rightarrow> AmlNamespaceNodeId \<Rightarrow> AmlNamespaceLoadRecord list
     \<Rightarrow> (AmlInitializerDecision, 'h vm_world) run" where
  "initializer_loop ns h fuel parent [] = rret Run"
| "initializer_loop ns h fuel parent (sibling # rest) =
     (if node_parent (descriptor sibling) \<noteq> Some parent then initializer_loop ns h fuel parent rest
      else case payload sibling of
        PayloadMethod method \<Rightarrow>
          if method_kind method \<noteq> Status then initializer_loop ns h fuel parent rest
          else
            rbind (vm_evaluate ns h fuel (method_node method) []) (\<lambda>outcome.
              if blocked outcome then rret DecisionBlocked
              else
                rbind (rlift (or_fail invalid_state (return_value outcome))) (\<lambda>v.
                rbind (rlift (as_integer v)) (\<lambda>status. rret (status_decision status))))
      | _ \<Rightarrow> initializer_loop ns h fuel parent rest)"

definition should_run_initializer ::
  "AmlLoadedNamespace \<Rightarrow> 'h AmlRegionAccessHost \<Rightarrow> nat \<Rightarrow> AmlNamespaceNodeId option
     \<Rightarrow> (AmlInitializerDecision, 'h vm_world) run" where
  "should_run_initializer ns h fuel parent =
     (case parent of None \<Rightarrow> rret Run | Some p \<Rightarrow> initializer_loop ns h fuel p (records ns))"

fun initialize_methods ::
  "AmlLoadedNamespace \<Rightarrow> 'h AmlRegionAccessHost \<Rightarrow> nat \<Rightarrow> AmlNamespaceLoadRecord list \<Rightarrow> AmlVmLifecycleReport
     \<Rightarrow> (AmlVmLifecycleReport, 'h vm_world) run" where
  "initialize_methods ns h fuel [] report = rbind (set_vm_state VmReady) (\<lambda>_. rret report)"
| "initialize_methods ns h fuel (r # rest) report =
     (case payload r of
        PayloadMethod method \<Rightarrow>
          if method_kind method \<noteq> Initialize then initialize_methods ns h fuel rest report
          else
            rbind (should_run_initializer ns h fuel (node_parent (descriptor r))) (\<lambda>decision.
              case decision of
                Skip \<Rightarrow> initialize_methods ns h fuel rest (report\<lparr>lr_skipped := saturating_inc (lr_skipped report)\<rparr>)
              | DecisionBlocked \<Rightarrow>
                  rbind (set_vm_state VmBlocked) (\<lambda>_. rret (report\<lparr>lr_blocked := saturating_inc (lr_blocked report)\<rparr>))
              | Run \<Rightarrow>
                  rbind (vm_evaluate ns h fuel (method_node method) []) (\<lambda>outcome.
                  let report' = report\<lparr>lr_invoked := saturating_inc (lr_invoked report)\<rparr> in
                    if blocked outcome then
                      rbind (set_vm_state VmBlocked) (\<lambda>_.
                        rret (report'\<lparr>lr_blocked := saturating_inc (lr_blocked report')\<rparr>))
                    else initialize_methods ns h fuel rest report'))
      | _ \<Rightarrow> initialize_methods ns h fuel rest report)"

definition initialize_devices ::
  "AmlLoadedNamespace \<Rightarrow> 'h AmlRegionAccessHost \<Rightarrow> nat \<Rightarrow> (AmlVmLifecycleReport, 'h vm_world) run" where
  "initialize_devices ns h fuel =
     rbind get_world (\<lambda>w.
     rbind (if vm_state (world_vm w) = VmEmpty then set_vm_state VmLoaded else rret ()) (\<lambda>_.
       initialize_methods ns h fuel (records ns) empty_report))"

definition hex_nibble :: "u8 \<Rightarrow> u8 option" where
  "hex_nibble byte =
     (if 0x30 \<le> byte \<and> byte \<le> 0x39 then Some (byte - 0x30)
      else if 0x41 \<le> byte \<and> byte \<le> 0x46 then Some (byte - 0x41 + 10)
      else None)"

definition method_suffix_code :: "AmlNameSeg option \<Rightarrow> u8 \<times> u8 \<Rightarrow> u8 option" where
  "method_suffix_code segment expected_prefix =
     Option.bind segment (\<lambda>seg. let bs = seg_bytes seg in
       if bs ! 0 \<noteq> fst expected_prefix \<or> bs ! 1 \<noteq> snd expected_prefix then None
       else Option.bind (hex_nibble (bs ! 2)) (\<lambda>high. Option.bind (hex_nibble (bs ! 3)) (\<lambda>low.
         Some (push_bit 4 high OR low))))"

fun dispatch_methods ::
  "AmlLoadedNamespace \<Rightarrow> 'h AmlRegionAccessHost \<Rightarrow> nat \<Rightarrow> AmlMethodKind \<Rightarrow> u8 \<times> u8 \<Rightarrow> u8
     \<Rightarrow> AmlNamespaceLoadRecord list \<Rightarrow> AmlVmHandlerDispatchReport \<Rightarrow> (AmlVmHandlerDispatchReport, 'h vm_world) run" where
  "dispatch_methods ns h fuel kind prefix code [] report =
     rbind (set_vm_state VmReady) (\<lambda>_. rret (if hr_invoked report = 0 then report\<lparr>hr_missing := 1\<rparr> else report))"
| "dispatch_methods ns h fuel kind prefix code (r # rest) report =
     (case payload r of
        PayloadMethod method \<Rightarrow>
          if method_kind method \<noteq> kind then dispatch_methods ns h fuel kind prefix code rest report
          else if method_suffix_code (last_segment (node_path (descriptor r))) prefix \<noteq> Some code then
            dispatch_methods ns h fuel kind prefix code rest report
          else
            rbind (vm_evaluate ns h fuel (method_node method) []) (\<lambda>outcome.
            let report' = report\<lparr>hr_invoked := saturating_inc (hr_invoked report)\<rparr> in
              if blocked outcome then
                rbind (set_vm_state VmBlocked) (\<lambda>_.
                  rret (report'\<lparr>hr_blocked := saturating_inc (hr_blocked report')\<rparr>))
              else dispatch_methods ns h fuel kind prefix code rest report')
      | _ \<Rightarrow> dispatch_methods ns h fuel kind prefix code rest report)"

definition dispatch_handler_kind ::
  "AmlLoadedNamespace \<Rightarrow> 'h AmlRegionAccessHost \<Rightarrow> nat \<Rightarrow> AmlMethodKind \<Rightarrow> u8 \<times> u8 \<Rightarrow> u8
     \<Rightarrow> (AmlVmHandlerDispatchReport, 'h vm_world) run" where
  "dispatch_handler_kind ns h fuel kind prefix code =
     dispatch_methods ns h fuel kind prefix code (records ns) \<lparr>hr_invoked = 0, hr_blocked = 0, hr_missing = 0\<rparr>"

definition dispatch_notification_query ::
  "AmlLoadedNamespace \<Rightarrow> 'h AmlRegionAccessHost \<Rightarrow> nat \<Rightarrow> u8 \<Rightarrow> (AmlVmHandlerDispatchReport, 'h vm_world) run" where
  "dispatch_notification_query ns h fuel query =
     dispatch_handler_kind ns h fuel NotificationQuery (0x5f, 0x51) query"

definition event_prefix :: "AmlEventHandlerKind \<Rightarrow> u8 \<times> u8" where
  "event_prefix kind = (case kind of Level \<Rightarrow> (0x5f, 0x4c) | Edge \<Rightarrow> (0x5f, 0x45))"

definition dispatch_event_handler ::
  "AmlLoadedNamespace \<Rightarrow> 'h AmlRegionAccessHost \<Rightarrow> nat \<Rightarrow> AmlEventHandlerKind \<Rightarrow> u8
     \<Rightarrow> (AmlVmHandlerDispatchReport, 'h vm_world) run" where
  "dispatch_event_handler ns h fuel kind event =
     dispatch_handler_kind ns h fuel EventHandler (event_prefix kind) event"

section \<open>Declarations of a backend\<close>

datatype AcpiAmlLoweringKind = LowerInterpret | LowerCommand | LowerSignal | LowerTransaction | LowerDispatch

datatype AcpiAmlAddressSpaceKind =
    BkSystemMemory | BkSystemIo | BkPciConfig | BkEmbeddedControl | BkSmBus | BkGpio | BkGenericSerialBus | BkOther u8

text \<open>Descriptions, which nothing reads, are left out; a path is a \<open>str\<close>, its bytes.\<close>

record AcpiAmlMethodDescriptor =
  bk_method_path :: bytes
  bk_lowering :: AcpiAmlLoweringKind

record AcpiAmlOpRegionDescriptor =
  bk_region_path :: bytes
  bk_region_space :: AcpiAmlAddressSpaceKind

text \<open>
  The functions of the trait, per provider. The error of \<open>aml_namespace\<close> is discarded by its caller, so
  it is \<open>None\<close>; a namespace and a field are their paths.
\<close>

record AcpiAmlBackend =
  aml_namespace :: "u8 \<Rightarrow> bytes option"
  aml_methods :: "u8 \<Rightarrow> AcpiAmlMethodDescriptor list"
  aml_fields :: "u8 \<Rightarrow> bytes list"
  aml_opregions :: "u8 \<Rightarrow> AcpiAmlOpRegionDescriptor list"

section \<open>Routing (lowering.rs)\<close>

datatype PcuIrKind = IrDispatch | IrStream | IrCommand | IrTransaction | IrSignal

definition lowering_target_pcu_ir_kind :: "AcpiAmlLoweringKind \<Rightarrow> PcuIrKind option" where
  "lowering_target_pcu_ir_kind target = (case target of
      LowerInterpret \<Rightarrow> None
    | LowerCommand \<Rightarrow> Some IrCommand
    | LowerSignal \<Rightarrow> Some IrSignal
    | LowerTransaction \<Rightarrow> Some IrTransaction
    | LowerDispatch \<Rightarrow> Some IrDispatch)"

definition hex_upper :: "u8 \<Rightarrow> u8" where
  "hex_upper nibble = (let x = nibble AND 0x0f in if x \<le> 9 then 0x30 + x else 0x41 + (x - 10))"

definition query_handler_suffix :: "u8 \<Rightarrow> bytes" where
  "query_handler_suffix query = [0x5f, 0x51, hex_upper (drop_bit 4 query), hex_upper (query AND 0x0f)]"

definition event_handler_suffix :: "AmlEventHandlerKind \<Rightarrow> u8 \<Rightarrow> bytes" where
  "event_handler_suffix kind event =
     [0x5f, case kind of Level \<Rightarrow> 0x4c | Edge \<Rightarrow> 0x45, hex_upper (drop_bit 4 event), hex_upper (event AND 0x0f)]"

text \<open>\<open>?\<close> on an option returns \<open>None\<close> from the whole function: a path that does not parse ends the search.\<close>

fun method_target_loop :: "AcpiAmlMethodDescriptor list \<Rightarrow> bytes \<Rightarrow> AcpiAmlLoweringKind option" where
  "method_target_loop [] expected_suffix = None"
| "method_target_loop (method # rest) expected_suffix =
     (case parse_text (bk_method_path method) of
        Err _ \<Rightarrow> None
      | Ok path \<Rightarrow>
          (case last_segment path of
             None \<Rightarrow> None
           | Some seg \<Rightarrow> if seg_bytes seg = expected_suffix then Some (bk_lowering method)
                         else method_target_loop rest expected_suffix))"

definition backend_method_target :: "AcpiAmlBackend \<Rightarrow> u8 \<Rightarrow> bytes \<Rightarrow> AcpiAmlLoweringKind option" where
  "backend_method_target B provider expected_suffix = method_target_loop (aml_methods B provider) expected_suffix"

definition backend_notification_query_target :: "AcpiAmlBackend \<Rightarrow> u8 \<Rightarrow> u8 \<Rightarrow> AcpiAmlLoweringKind option" where
  "backend_notification_query_target B provider query = backend_method_target B provider (query_handler_suffix query)"

definition backend_event_handler_target ::
  "AcpiAmlBackend \<Rightarrow> u8 \<Rightarrow> AmlEventHandlerKind \<Rightarrow> u8 \<Rightarrow> AcpiAmlLoweringKind option" where
  "backend_event_handler_target B provider kind event = backend_method_target B provider (event_handler_suffix kind event)"

definition dispatch_backend_notification_query ::
  "AcpiAmlBackend \<Rightarrow> u8 \<Rightarrow> AmlLoadedNamespace \<Rightarrow> 'h AmlRegionAccessHost \<Rightarrow> nat \<Rightarrow> u8
     \<Rightarrow> (AmlVmHandlerDispatchReport, 'h vm_world) run" where
  "dispatch_backend_notification_query B provider ns h fuel query =
     (case backend_notification_query_target B provider query of
        Some LowerSignal \<Rightarrow> dispatch_notification_query ns h fuel query
      | _ \<Rightarrow> rfail unsupported)"

definition dispatch_backend_event_handler ::
  "AcpiAmlBackend \<Rightarrow> u8 \<Rightarrow> AmlLoadedNamespace \<Rightarrow> 'h AmlRegionAccessHost \<Rightarrow> nat \<Rightarrow> AmlEventHandlerKind \<Rightarrow> u8
     \<Rightarrow> (AmlVmHandlerDispatchReport, 'h vm_world) run" where
  "dispatch_backend_event_handler B provider ns h fuel kind event =
     (case backend_event_handler_target B provider kind event of
        Some LowerSignal \<Rightarrow> dispatch_event_handler ns h fuel kind event
      | _ \<Rightarrow> rfail unsupported)"

section \<open>Checking the declarations (verify.rs)\<close>

datatype AmlBackendTargetKind = TargetNamespaceRoot | TargetMethod | TargetField | TargetOpRegion

datatype AmlBackendVerificationIssueKind = Missing | KindMismatch | OpRegionSpaceMismatch

record AmlBackendVerificationIssue =
  issue_target :: AmlBackendTargetKind
  issue_kind :: AmlBackendVerificationIssueKind
  issue_path :: bytes
  actual_kind :: "AmlObjectKind option"
  expected_space :: "AcpiAmlAddressSpaceKind option"
  actual_space :: "AmlAddressSpaceId option"

text \<open>The writer: the issues so far, in storage for \<open>capacity\<close> of them.\<close>

record AmlBackendIssueWriter =
  capacity :: nat
  issues :: "AmlBackendVerificationIssue list"

definition writer_push :: "AmlBackendVerificationIssue \<Rightarrow> AmlBackendIssueWriter \<Rightarrow> AmlBackendIssueWriter aml" where
  "writer_push issue w =
     (if length (issues w) < capacity w then Ok (w\<lparr>issues := issues w @ [issue]\<rparr>) else Err (Fail overflow))"

definition map_backend_space :: "AcpiAmlAddressSpaceKind \<Rightarrow> AmlAddressSpaceId" where
  "map_backend_space space = (case space of
      BkSystemMemory \<Rightarrow> SystemMemory | BkSystemIo \<Rightarrow> SystemIo | BkPciConfig \<Rightarrow> PciConfig
    | BkEmbeddedControl \<Rightarrow> EmbeddedControl | BkSmBus \<Rightarrow> SmBus | BkGpio \<Rightarrow> Gpio
    | BkGenericSerialBus \<Rightarrow> GenericSerialBus | BkOther v \<Rightarrow> Oem v)"

definition verify_root :: "AmlLoadedNamespace \<Rightarrow> bytes \<Rightarrow> AmlBackendIssueWriter \<Rightarrow> AmlBackendIssueWriter aml" where
  "verify_root ns path_text w =
     bind_result (parse_text path_text) (\<lambda>path.
       if record_by_path ns path = None then
         writer_push \<lparr>issue_target = TargetNamespaceRoot, issue_kind = Missing, issue_path = path_text,
                      actual_kind = None, expected_space = None, actual_space = None\<rparr> w
       else Ok w)"

definition verify_typed_path ::
  "AmlLoadedNamespace \<Rightarrow> AmlBackendTargetKind \<Rightarrow> bytes \<Rightarrow> AmlObjectKind \<Rightarrow> AmlBackendIssueWriter
     \<Rightarrow> AmlBackendIssueWriter aml" where
  "verify_typed_path ns target path_text expected_kind w =
     bind_result (parse_text path_text) (\<lambda>path.
       case record_by_path ns path of
         None \<Rightarrow>
           writer_push \<lparr>issue_target = target, issue_kind = Missing, issue_path = path_text,
                        actual_kind = None, expected_space = None, actual_space = None\<rparr> w
       | Some r \<Rightarrow>
           if node_kind (descriptor r) \<noteq> expected_kind then
             writer_push \<lparr>issue_target = target, issue_kind = KindMismatch, issue_path = path_text,
                          actual_kind = Some (node_kind (descriptor r)), expected_space = None, actual_space = None\<rparr> w
           else Ok w)"

definition verify_opregion ::
  "AmlLoadedNamespace \<Rightarrow> AcpiAmlOpRegionDescriptor \<Rightarrow> AmlBackendIssueWriter \<Rightarrow> AmlBackendIssueWriter aml" where
  "verify_opregion ns region w =
     bind_result (parse_text (bk_region_path region)) (\<lambda>path.
       case record_by_path ns path of
         None \<Rightarrow>
           writer_push \<lparr>issue_target = TargetOpRegion, issue_kind = Missing, issue_path = bk_region_path region,
                        actual_kind = None, expected_space = Some (bk_region_space region), actual_space = None\<rparr> w
       | Some r \<Rightarrow>
           if node_kind (descriptor r) \<noteq> KOpRegion then
             writer_push \<lparr>issue_target = TargetOpRegion, issue_kind = KindMismatch, issue_path = bk_region_path region,
                          actual_kind = Some (node_kind (descriptor r)), expected_space = Some (bk_region_space region),
                          actual_space = None\<rparr> w
           else
             let actual = (case payload r of PayloadOpRegion o' \<Rightarrow> Some (region_space o') | _ \<Rightarrow> None) in
             if actual \<noteq> Some (map_backend_space (bk_region_space region)) then
               writer_push \<lparr>issue_target = TargetOpRegion, issue_kind = OpRegionSpaceMismatch,
                            issue_path = bk_region_path region, actual_kind = Some (node_kind (descriptor r)),
                            expected_space = Some (bk_region_space region), actual_space = actual\<rparr> w
             else Ok w)"

text \<open>A \<open>for\<close> loop whose body may fail.\<close>

fun verify_each :: "('a \<Rightarrow> AmlBackendIssueWriter \<Rightarrow> AmlBackendIssueWriter aml) \<Rightarrow> 'a list \<Rightarrow> AmlBackendIssueWriter \<Rightarrow> AmlBackendIssueWriter aml" where
  "verify_each f [] w = Ok w"
| "verify_each f (x # xs) w = bind_result (f x w) (verify_each f xs)"

definition verify_acpi_backend ::
  "AcpiAmlBackend \<Rightarrow> AmlLoadedNamespace \<Rightarrow> u8 \<Rightarrow> nat \<Rightarrow> AmlBackendVerificationIssue list aml" where
  "verify_acpi_backend B ns provider slots_len =
     bind_result (or_fail invalid_namespace (aml_namespace B provider)) (\<lambda>root.
     bind_result (verify_root ns root \<lparr>capacity = slots_len, issues = []\<rparr>) (\<lambda>w1.
     bind_result (verify_each (\<lambda>m. verify_typed_path ns TargetMethod (bk_method_path m) KMethod)
                    (aml_methods B provider) w1) (\<lambda>w2.
     bind_result (verify_each (\<lambda>f. verify_typed_path ns TargetField f KField) (aml_fields B provider) w2) (\<lambda>w3.
     bind_result (verify_each (verify_opregion ns) (aml_opregions B provider) w3) (\<lambda>w4.
       Ok (issues w4))))))"

end
