(* ===== verification/Driver_Registry.thy ===== *)
theory Driver_Registry
  imports Fusion_Prelude
begin

text \<open>
  The driver registry (\<open>src/Crates/fusion-hal/contract/drivers/driver/driver.rs\<close>) and the build-time
  check of a driver set (\<open>src/Crates/fusion-hal/driver-dogma/fusion-driver-dogma.rs\<close>).

  A registry is the initialised prefix of its slot array and the capacity. Of the metadata only what the
  registry reads is kept; class, identity, binding sources and description are for display. A driver
  family is its metadata: what \<open>register\<close> takes from the type \<open>D\<close> is \<open>D::registration().metadata\<close>.
\<close>

section \<open>Vocabulary (fusion-driver-dogma.rs)\<close>

datatype DriverContractKey = DriverContractKey string

datatype DriverUsefulness = Standalone | MustBeConsumed

record DriverDogma =
  dogma_key :: string
  contracts :: "DriverContractKey list"
  required_contracts :: "DriverContractKey list"
  usefulness :: DriverUsefulness
  singleton_class :: "string option"

datatype DriverInopReason =
    MissingDependency DriverContractKey | Unconsumed | SingletonConflict string

datatype DriverAvailability = Unknown | Ready | Inop DriverInopReason

datatype DriverValidationError =
    VMissingDependency string DriverContractKey
  | VUnconsumed string
  | VSingletonConflict string string string

section \<open>Build-time check (fusion-driver-dogma.rs)\<close>

fun check_singletons :: "DriverDogma list \<Rightarrow> DriverDogma list \<Rightarrow> (unit, DriverValidationError) result" where
  "check_singletons earlier [] = Ok ()"
| "check_singletons earlier (d # ds) =
     (case singleton_class d of
        None \<Rightarrow> check_singletons (earlier @ [d]) ds
      | Some cls \<Rightarrow>
          (case find (\<lambda>candidate. singleton_class candidate = Some cls) earlier of
             Some first \<Rightarrow> Err (VSingletonConflict (dogma_key d) (dogma_key first) cls)
           | None \<Rightarrow> check_singletons (earlier @ [d]) ds))"

definition provided :: "DriverDogma list \<Rightarrow> DriverDogma \<Rightarrow> DriverContractKey \<Rightarrow> bool" where
  "provided drivers d required \<longleftrightarrow>
     list_ex (\<lambda>candidate. dogma_key candidate \<noteq> dogma_key d \<and> required \<in> set (contracts candidate)) drivers"

fun check_dependencies :: "DriverDogma list \<Rightarrow> DriverDogma list \<Rightarrow> (unit, DriverValidationError) result" where
  "check_dependencies drivers [] = Ok ()"
| "check_dependencies drivers (d # ds) =
     (case find (\<lambda>required. \<not> provided drivers d required) (required_contracts d) of
        Some required \<Rightarrow> Err (VMissingDependency (dogma_key d) required)
      | None \<Rightarrow> check_dependencies drivers ds)"

definition consumed :: "DriverDogma list \<Rightarrow> DriverDogma \<Rightarrow> bool" where
  "consumed drivers d \<longleftrightarrow>
     list_ex (\<lambda>candidate. dogma_key candidate \<noteq> dogma_key d
       \<and> list_ex (\<lambda>required. required \<in> set (contracts d)) (required_contracts candidate)) drivers"

fun check_consumption :: "DriverDogma list \<Rightarrow> DriverDogma list \<Rightarrow> (unit, DriverValidationError) result" where
  "check_consumption drivers [] = Ok ()"
| "check_consumption drivers (d # ds) =
     (if usefulness d \<noteq> MustBeConsumed then check_consumption drivers ds
      else if \<not> consumed drivers d then Err (VUnconsumed (dogma_key d))
      else check_consumption drivers ds)"

definition validate_driver_dogmas :: "DriverDogma list \<Rightarrow> (unit, DriverValidationError) result" where
  "validate_driver_dogmas drivers =
     bind_result (check_singletons [] drivers) (\<lambda>_.
     bind_result (check_dependencies drivers drivers) (\<lambda>_.
       check_consumption drivers drivers))"

section \<open>Registry (driver.rs)\<close>

datatype DriverErrorKind =
    DrvUnsupported | DrvInvalid | DrvBusy | DrvResourceExhausted | DrvStateConflict | DrvMissingContext
  | DrvWrongContextType | DrvAlreadyRegistered | DrvPlatform "32 word"

text \<open>Metadata has the fields of a dogma, which is all the registry reads.\<close>

type_synonym DriverMetadata = DriverDogma

record DriverSlot =
  slot_key :: string
  slot_metadata :: DriverMetadata
  slot_state :: DriverAvailability

record DriverRegistry =
  reg_capacity :: nat
  reg_slots :: "DriverSlot list"

definition registry_new :: "nat \<Rightarrow> DriverRegistry" where
  "registry_new cap = \<lparr>reg_capacity = cap, reg_slots = []\<rparr>"

definition availability_snapshot :: "DriverRegistry \<Rightarrow> DriverAvailability list" where
  "availability_snapshot reg =
     map slot_state (reg_slots reg) @ replicate (reg_capacity reg - length (reg_slots reg)) Unknown"

definition contains_key :: "DriverRegistry \<Rightarrow> string \<Rightarrow> bool" where
  "contains_key reg key \<longleftrightarrow> list_ex (\<lambda>registered. slot_key registered = key) (reg_slots reg)"

definition contains_contract :: "DriverRegistry \<Rightarrow> DriverContractKey \<Rightarrow> bool" where
  "contains_contract reg contract \<longleftrightarrow> list_ex (\<lambda>s. contract \<in> set (contracts (slot_metadata s))) (reg_slots reg)"

definition state_for_key :: "DriverRegistry \<Rightarrow> string \<Rightarrow> DriverAvailability option" where
  "state_for_key reg key = map_option slot_state (find (\<lambda>s. slot_key s = key) (reg_slots reg))"

definition register :: "DriverMetadata \<Rightarrow> DriverRegistry \<Rightarrow> (nat, DriverErrorKind) result \<times> DriverRegistry" where
  "register metadata reg =
     (if contains_key reg (dogma_key metadata) then (Err DrvAlreadyRegistered, reg)
      else if length (reg_slots reg) = reg_capacity reg then (Err DrvResourceExhausted, reg)
      else
        (Ok (length (reg_slots reg)),
         reg\<lparr>reg_slots := reg_slots reg @
              [\<lparr>slot_key = dogma_key metadata, slot_metadata = metadata, slot_state = Unknown\<rparr>]\<rparr>))"

definition has_prior_singleton_conflict :: "DriverRegistry \<Rightarrow> nat \<Rightarrow> string \<Rightarrow> bool" where
  "has_prior_singleton_conflict reg slot cls \<longleftrightarrow>
     list_ex (\<lambda>d. singleton_class (slot_metadata d) = Some cls) (take slot (reg_slots reg))"

definition has_ready_contract_provider ::
  "DriverRegistry \<Rightarrow> nat \<Rightarrow> DriverAvailability list \<Rightarrow> DriverContractKey \<Rightarrow> bool" where
  "has_ready_contract_provider reg slot states required \<longleftrightarrow>
     list_ex (\<lambda>(index, d). states ! index = Ready \<and> required \<in> set (contracts (slot_metadata d)))
       (filter (\<lambda>(index, _). index \<noteq> slot) (enumerate 0 (reg_slots reg)))"

definition has_ready_consumer ::
  "DriverRegistry \<Rightarrow> nat \<Rightarrow> DriverAvailability list \<Rightarrow> DriverContractKey list \<Rightarrow> bool" where
  "has_ready_consumer reg slot states exported \<longleftrightarrow>
     list_ex (\<lambda>(index, d). states ! index = Ready
         \<and> list_ex (\<lambda>required. required \<in> set exported) (required_contracts (slot_metadata d)))
       (filter (\<lambda>(index, _). index \<noteq> slot) (enumerate 0 (reg_slots reg)))"

text \<open>\<open>singleton_conflict\<close> is the first \<open>if let\<close> of \<open>compute_state\<close>.\<close>

definition singleton_conflict :: "DriverRegistry \<Rightarrow> nat \<Rightarrow> DriverMetadata \<Rightarrow> string option" where
  "singleton_conflict reg slot metadata =
     (case singleton_class metadata of
        None \<Rightarrow> None
      | Some cls \<Rightarrow> if has_prior_singleton_conflict reg slot cls then Some cls else None)"

definition compute_state ::
  "DriverRegistry \<Rightarrow> nat \<Rightarrow> DriverAvailability list \<Rightarrow> DriverMetadata \<Rightarrow> DriverAvailability" where
  "compute_state reg slot states metadata =
     (case singleton_conflict reg slot metadata of
        Some cls \<Rightarrow> Inop (SingletonConflict cls)
      | None \<Rightarrow>
         (case find (\<lambda>required. \<not> has_ready_contract_provider reg slot states required) (required_contracts metadata) of
            Some required \<Rightarrow> Inop (MissingDependency required)
          | None \<Rightarrow>
              if usefulness metadata = MustBeConsumed \<and> \<not> has_ready_consumer reg slot states (contracts metadata)
              then Inop Unconsumed
              else Ready))"

text \<open>The inner loop of a pass, over \<open>0..len\<close>, with \<open>changed\<close>; and the passes.\<close>

definition set_slot_state :: "nat \<Rightarrow> DriverAvailability \<Rightarrow> DriverRegistry \<Rightarrow> DriverRegistry" where
  "set_slot_state slot s reg =
     reg\<lparr>reg_slots := (reg_slots reg)[slot := (reg_slots reg ! slot)\<lparr>slot_state := s\<rparr>]\<rparr>"

fun validate_slots :: "DriverAvailability list \<Rightarrow> nat list \<Rightarrow> DriverRegistry \<times> bool \<Rightarrow> DriverRegistry \<times> bool" where
  "validate_slots previous [] (reg, changed) = (reg, changed)"
| "validate_slots previous (slot # rest) (reg, changed) =
     (let desired = compute_state reg slot previous (slot_metadata (reg_slots reg ! slot)) in
      if slot_state (reg_slots reg ! slot) \<noteq> desired
      then validate_slots previous rest (set_slot_state slot desired reg, True)
      else validate_slots previous rest (reg, changed))"

fun validate_passes :: "nat \<Rightarrow> DriverRegistry \<Rightarrow> (unit, DriverErrorKind) result \<times> DriverRegistry" where
  "validate_passes 0 reg = (Err DrvStateConflict, reg)"
| "validate_passes (Suc passes) reg =
     (let (reg', changed) = validate_slots (availability_snapshot reg) [0..<length (reg_slots reg)] (reg, False) in
      if \<not> changed then (Ok (), reg') else validate_passes passes reg')"

definition validate :: "DriverRegistry \<Rightarrow> (unit, DriverErrorKind) result \<times> DriverRegistry" where
  "validate reg =
     (let ready = reg\<lparr>reg_slots := map (\<lambda>s. s\<lparr>slot_state := Ready\<rparr>) (reg_slots reg)\<rparr> in
      validate_passes (length (reg_slots ready) + 1) ready)"

end
