(* ===== verification/Acpi_Realize.thy ===== *)
theory Acpi_Realize
  imports Acpi_Table Aml_Vm Driver_Registry
begin

text \<open>
  Realising a platform (\<open>pal/hal/acpi/realize.rs\<close>): matching the fingerprint, activating the public ACPI
  drivers over the matched hardware (\<open>fusion-hal/drivers/acpi/public\<close>, \<open>vendor/dell\<close>), loading the namespace
  from definition tables, checking the declarations of the backend and running the lifecycle.

  The eight driver families have the same code for different types; a family is a value here and the
  code one definition. A backend's hardware is a record: its providers with their ids, and the paths of
  the objects it lists per family. An active driver is the index of its provider. Calls into the AML
  machine may also panic or not end; these outcomes pass through.
\<close>

section \<open>Platforms and errors (realize.rs)\<close>

record AcpiPlatformFingerprint =
  system_vendor :: string
  product_name :: string
  bios_version :: "string option"
  acpi_oem_id :: "string option"
  acpi_oem_table_id :: "string option"

datatype AcpiPlatformBackendKind = DellLatitudeE6430

datatype AcpiPlatformMatchStrength = Exact

record AcpiPlatformMatch =
  match_backend :: AcpiPlatformBackendKind
  match_strength :: AcpiPlatformMatchStrength

datatype AcpiRealizationErrorKind =
    RealUnsupported | RealInvalid | RealBusy | RealResourceExhausted | RealStateConflict | RealPlatform "32 word"

datatype realize_stop = RealFail AcpiRealizationErrorKind | RealPanic | RealDiverge

type_synonym 'a realized = "('a, realize_stop) result"

definition dell_latitude_e6430_fingerprint :: AcpiPlatformFingerprint where
  "dell_latitude_e6430_fingerprint =
     \<lparr>system_vendor = ''Dell Inc.'', product_name = ''Latitude E6430'', bios_version = Some ''A13'',
      acpi_oem_id = None, acpi_oem_table_id = None\<rparr>"

definition match_platform_backend :: "AcpiPlatformFingerprint \<Rightarrow> AcpiPlatformMatch option" where
  "match_platform_backend fp =
     (if system_vendor fp = ''Dell Inc.'' \<and> product_name fp = ''Latitude E6430''
      then Some \<lparr>match_backend = DellLatitudeE6430, match_strength = Exact\<rparr> else None)"

definition map_driver_error :: "DriverErrorKind \<Rightarrow> AcpiRealizationErrorKind" where
  "map_driver_error e = (case e of
      DrvUnsupported \<Rightarrow> RealUnsupported | DrvInvalid \<Rightarrow> RealInvalid | DrvBusy \<Rightarrow> RealBusy
    | DrvResourceExhausted \<Rightarrow> RealResourceExhausted | DrvStateConflict \<Rightarrow> RealStateConflict
    | DrvMissingContext \<Rightarrow> RealStateConflict | DrvWrongContextType \<Rightarrow> RealStateConflict
    | DrvAlreadyRegistered \<Rightarrow> RealStateConflict | DrvPlatform code \<Rightarrow> RealPlatform code)"

definition map_aml_error :: "AmlError \<Rightarrow> AcpiRealizationErrorKind" where
  "map_aml_error e = (case err_kind e of
      Unsupported \<Rightarrow> RealUnsupported | Overflow \<Rightarrow> RealResourceExhausted
    | NamespaceConflict \<Rightarrow> RealStateConflict | InvalidState \<Rightarrow> RealStateConflict
    | HostFailure \<Rightarrow> RealPlatform (- 1)
    | Truncated \<Rightarrow> RealInvalid | InvalidBytecode \<Rightarrow> RealInvalid | InvalidDefinitionBlock \<Rightarrow> RealInvalid
    | InvalidName \<Rightarrow> RealInvalid | InvalidNamespace \<Rightarrow> RealInvalid | UndefinedObject \<Rightarrow> RealInvalid)"

definition map_stop :: "stop \<Rightarrow> realize_stop" where
  "map_stop s = (case s of Fail e \<Rightarrow> RealFail (map_aml_error e) | Panic \<Rightarrow> RealPanic | Diverge \<Rightarrow> RealDiverge)"

section \<open>Driver families (drivers/acpi/public)\<close>

datatype acpi_family = Battery | PowerSource | Thermal | Fan | Button | Lid | EmbeddedController | Processor

record AcpiHardware =
  provider_count :: nat
  hw_provider :: "nat \<Rightarrow> string option"
  hw_objects :: "acpi_family \<Rightarrow> nat \<Rightarrow> string list"

definition family_key :: "acpi_family \<Rightarrow> string" where
  "family_key f = (case f of
      Battery \<Rightarrow> ''acpi.battery'' | PowerSource \<Rightarrow> ''acpi.power_source'' | Thermal \<Rightarrow> ''acpi.thermal''
    | Fan \<Rightarrow> ''acpi.fan'' | Button \<Rightarrow> ''acpi.button'' | Lid \<Rightarrow> ''acpi.lid''
    | EmbeddedController \<Rightarrow> ''acpi.embedded_controller'' | Processor \<Rightarrow> ''acpi.processor'')"

definition family_dogma :: "acpi_family \<Rightarrow> DriverDogma" where
  "family_dogma f =
     \<lparr>dogma_key = family_key f, contracts = [DriverContractKey (family_key f)], required_contracts = [],
      usefulness = Standalone, singleton_class = None\<rparr>"

record acpi_binding =
  bind_provider :: nat
  bind_provider_id :: string

text \<open>The loop over the providers; \<open>written\<close> are the bindings so far, in \<open>out_len\<close> places.\<close>

fun enumerate_loop ::
  "AcpiHardware \<Rightarrow> acpi_family \<Rightarrow> nat \<Rightarrow> nat list \<Rightarrow> acpi_binding list \<Rightarrow> (acpi_binding list, DriverErrorKind) result" where
  "enumerate_loop hw f out_len [] written = Ok written"
| "enumerate_loop hw f out_len (p # ps) written =
     (if length written = out_len then Err DrvResourceExhausted
      else case hw_provider hw p of
        None \<Rightarrow> enumerate_loop hw f out_len ps written
      | Some ident \<Rightarrow>
          if hw_objects hw f p = [] then enumerate_loop hw f out_len ps written
          else enumerate_loop hw f out_len ps (written @ [\<lparr>bind_provider = p, bind_provider_id = ident\<rparr>]))"

definition enumerate_bindings :: "AcpiHardware \<Rightarrow> acpi_family \<Rightarrow> nat \<Rightarrow> (acpi_binding list, DriverErrorKind) result" where
  "enumerate_bindings hw f out_len =
     (if out_len = 0 then Err DrvResourceExhausted
      else enumerate_loop hw f out_len [0..<provider_count hw] [])"

definition activate_binding :: "AcpiHardware \<Rightarrow> acpi_binding \<Rightarrow> (nat, DriverErrorKind) result" where
  "activate_binding hw b =
     (case hw_provider hw (bind_provider b) of
        None \<Rightarrow> Err DrvInvalid
      | Some ident \<Rightarrow> if ident \<noteq> bind_provider_id b then Err DrvInvalid else Ok (bind_provider b))"

definition activate_family ::
  "AcpiHardware \<Rightarrow> acpi_family \<Rightarrow> DriverRegistry \<Rightarrow> nat option realized \<times> DriverRegistry" where
  "activate_family hw f reg =
     (case register (family_dogma f) reg of
        (Err e, reg') \<Rightarrow> (Err (RealFail (map_driver_error e)), reg')
      | (Ok _, reg') \<Rightarrow>
          (case enumerate_bindings hw f 1 of
             Err e \<Rightarrow> (Err (RealFail (map_driver_error e)), reg')
           | Ok [] \<Rightarrow> (Ok None, reg')
           | Ok (b # _) \<Rightarrow>
               (case activate_binding hw b of
                  Err e \<Rightarrow> (Err (RealFail (map_driver_error e)), reg')
                | Ok p \<Rightarrow> (Ok (Some p), reg'))))"

record RealizedAcpiPlatform =
  matched :: AcpiPlatformMatch
  battery :: "nat option"
  power_source :: "nat option"
  thermal :: "nat option"
  fan :: "nat option"
  button :: "nat option"
  lid :: "nat option"
  embedded_controller :: "nat option"
  processor :: "nat option"

section \<open>The Dell backend (vendor/dell)\<close>

text \<open>A path literal: a backslash and the rest; and the bytes of a literal.\<close>

definition rooted :: "string \<Rightarrow> string" where
  "rooted s = CHR 0x5C # s"

definition ascii :: "string \<Rightarrow> bytes" where
  "ascii s = map of_char s"

definition dell_batteries :: "string list" where
  "dell_batteries = [rooted ''_SB.BAT0'', rooted ''_SB.BAT1'', rooted ''_SB.BAT2'']"

definition dell_power_sources :: "string list" where
  "dell_power_sources = [rooted ''_SB.AC'']"

definition dell_thermal_zones :: "string list" where
  "dell_thermal_zones = [rooted ''_TZ.THM'']"

definition dell_fans :: "string list" where
  "dell_fans = []"

definition dell_buttons :: "string list" where
  "dell_buttons = [rooted ''_SB.PBTN'', rooted ''_SB.SBTN'', rooted ''_SB.RBTN'']"

definition dell_lids :: "string list" where
  "dell_lids = [rooted ''_SB.LID0'']"

definition dell_embedded_controllers :: "string list" where
  "dell_embedded_controllers = [rooted ''_SB.PCI0.LPCB.ECDV'']"

definition dell_processors :: "string list" where
  "dell_processors = []"

definition dell_objects :: "acpi_family \<Rightarrow> string list" where
  "dell_objects f = (case f of
      Battery \<Rightarrow> dell_batteries | PowerSource \<Rightarrow> dell_power_sources | Thermal \<Rightarrow> dell_thermal_zones | Fan \<Rightarrow> dell_fans
    | Button \<Rightarrow> dell_buttons | Lid \<Rightarrow> dell_lids | EmbeddedController \<Rightarrow> dell_embedded_controllers
    | Processor \<Rightarrow> dell_processors)"

lemmas dell_object_defs = dell_objects_def dell_batteries_def dell_power_sources_def dell_thermal_zones_def dell_fans_def
  dell_buttons_def dell_lids_def dell_embedded_controllers_def dell_processors_def

definition dell_hardware :: AcpiHardware where
  "dell_hardware =
     \<lparr>provider_count = 1, hw_provider = (\<lambda>p. if p = 0 then Some ''dell-latitude-e6430-acpi'' else None),
      hw_objects = (\<lambda>f p. if p = 0 then dell_objects f else [])\<rparr>"

definition dell_methods :: "AcpiAmlMethodDescriptor list" where
  "dell_methods = map (\<lambda>(path, kind). \<lparr>bk_method_path = ascii path, bk_lowering = kind\<rparr>)
     [((rooted ''_SB.AC._PSR''), LowerCommand), ((rooted ''_SB.BAT0._BIF''), LowerCommand), ((rooted ''_SB.BAT0._BST''), LowerCommand),
      ((rooted ''_SB.BAT1._BIF''), LowerCommand), ((rooted ''_SB.BAT1._BST''), LowerCommand), ((rooted ''_SB.BAT2._BIF''), LowerCommand),
      ((rooted ''_SB.BAT2._BST''), LowerCommand), ((rooted ''_SB.LID0._LID''), LowerCommand), ((rooted ''_TZ.THM._TMP''), LowerCommand),
      ((rooted ''_SB.RBTN._STA''), LowerCommand), ((rooted ''_SB.PCI0.LPCB.ECDV._REG''), LowerCommand),
      ((rooted ''_SB.PCI0.LPCB.ECDV._Q66''), LowerSignal)]"

definition dell_fields :: "bytes list" where
  "dell_fields = map ascii
     [(rooted ''_SB.PCI0.LPCB.ECDV.EC00''), (rooted ''_SB.PCI0.LPCB.ECDV.EC06''), (rooted ''_SB.PCI0.LPCB.ECDV.EC22''), (rooted ''_SB.PCI0.LPCB.ECDV.EC29'')]"

definition dell_opregions :: "AcpiAmlOpRegionDescriptor list" where
  "dell_opregions =
     [\<lparr>bk_region_path = ascii (rooted ''_SB.PCI0.LPCB.ECDV.ECOR''), bk_region_space = BkEmbeddedControl\<rparr>,
      \<lparr>bk_region_path = ascii (rooted ''_SB.PCI0.HBUS''), bk_region_space = BkPciConfig\<rparr>]"

definition dell_backend :: AcpiAmlBackend where
  "dell_backend =
     \<lparr>aml_namespace = (\<lambda>p. if p = 0 then Some (ascii (rooted ''_SB'')) else None),
      aml_methods = (\<lambda>p. if p = 0 then dell_methods else []),
      aml_fields = (\<lambda>p. if p = 0 then dell_fields else []),
      aml_opregions = (\<lambda>p. if p = 0 then dell_opregions else [])\<rparr>"

text \<open>The \<open>?\<close> chain of \<open>realize_dell_latitude_e6430\<close>, with the registry passed on.\<close>

fun activate_families ::
  "AcpiHardware \<Rightarrow> acpi_family list \<Rightarrow> DriverRegistry \<Rightarrow> nat option list realized" where
  "activate_families hw [] reg = Ok []"
| "activate_families hw (f # fs) reg =
     (case activate_family hw f reg of
        (Err e, _) \<Rightarrow> Err e
      | (Ok s, reg') \<Rightarrow> bind_result (activate_families hw fs reg') (\<lambda>ss. Ok (s # ss)))"

definition realize_dell_latitude_e6430 :: "AcpiPlatformMatch \<Rightarrow> RealizedAcpiPlatform realized" where
  "realize_dell_latitude_e6430 m =
     bind_result (activate_families dell_hardware
         [Battery, PowerSource, Thermal, Fan, Button, Lid, EmbeddedController, Processor] (registry_new 8)) (\<lambda>s.
       Ok \<lparr>matched = m, battery = s ! 0, power_source = s ! 1, thermal = s ! 2, fan = s ! 3, button = s ! 4,
           lid = s ! 5, embedded_controller = s ! 6, processor = s ! 7\<rparr>)"

definition realize_platform :: "AcpiPlatformFingerprint \<Rightarrow> RealizedAcpiPlatform realized" where
  "realize_platform fp =
     bind_result (ok_or (RealFail RealUnsupported) (match_platform_backend fp)) (\<lambda>m.
       case match_backend m of DellLatitudeE6430 \<Rightarrow> realize_dell_latitude_e6430 m)"

section \<open>Namespace and activation (realize.rs)\<close>

fun secondary_loop :: "AcpiTableView list \<Rightarrow> AmlDefinitionBlock list realized" where
  "secondary_loop [] = Ok []"
| "secondary_loop (table # rest) =
     bind_result (map_err map_stop (block_from_acpi_table table)) (\<lambda>block.
     bind_result (secondary_loop rest) (\<lambda>blocks. Ok (block # blocks)))"

definition load_secondary_definition_blocks :: "AcpiTableView list \<Rightarrow> nat \<Rightarrow> AmlDefinitionBlock list realized" where
  "load_secondary_definition_blocks tables slots_len =
     (if slots_len < length tables then Err (RealFail RealResourceExhausted) else secondary_loop tables)"

definition load_namespace_from_definition_tables ::
  "Dsdt \<Rightarrow> AcpiTableView list \<Rightarrow> nat \<Rightarrow> nat \<Rightarrow> AmlLoadedNamespace realized" where
  "load_namespace_from_definition_tables d tables slots_len namespace_len =
     bind_result (map_err map_stop (from_dsdt d)) (\<lambda>block.
     bind_result (load_secondary_definition_blocks tables slots_len) (\<lambda>secondary.
       map_err map_stop (load_into (from_definition_blocks \<lparr>dsdt = block, ssdts = secondary\<rparr>) namespace_len)))"

record AcpiAmlActivationReport =
  verification :: "AmlBackendVerificationIssue list"
  report_register :: AmlVmLifecycleReport
  report_initialize :: AmlVmLifecycleReport
  report_vm_state :: AmlVmState

definition activation_is_clean :: "AcpiAmlActivationReport \<Rightarrow> bool" where
  "activation_is_clean r \<longleftrightarrow> verification r = [] \<and> lifecycle_is_clean (report_register r)
     \<and> lifecycle_is_clean (report_initialize r) \<and> report_vm_state r = VmReady"

text \<open>The world starts with \<open>AmlVm::default()\<close> and the runtime overlay and host of the caller.\<close>

definition activate_backend_aml ::
  "AcpiAmlBackend \<Rightarrow> AmlLoadedNamespace \<Rightarrow> 'h AmlRegionAccessHost \<Rightarrow> nat \<Rightarrow> nat \<Rightarrow> AmlRuntimeState \<Rightarrow> 'h
     \<Rightarrow> AcpiAmlActivationReport realized \<times> 'h vm_world" where
  "activate_backend_aml B ns h fuel issue_len st hs =
     (let w0 = \<lparr>world_vm = vm_new default_config, world_runtime = st, world_host = hs\<rparr> in
      case verify_acpi_backend B ns 0 issue_len of
        Err e \<Rightarrow> (Err (map_stop e), w0)
      | Ok found \<Rightarrow>
          if found \<noteq> [] then (Err (RealFail RealInvalid), w0)
          else case register_regions ns h fuel w0 of
            (Err e, w1) \<Rightarrow> (Err (map_stop e), w1)
          | (Ok rr, w1) \<Rightarrow>
              if \<not> lifecycle_is_clean rr then (Err (RealFail RealBusy), w1)
              else case initialize_devices ns h fuel w1 of
                (Err e, w2) \<Rightarrow> (Err (map_stop e), w2)
              | (Ok ri, w2) \<Rightarrow>
                  if \<not> lifecycle_is_clean ri then (Err (RealFail RealBusy), w2)
                  else (Ok \<lparr>verification = found, report_register = rr, report_initialize = ri,
                            report_vm_state = vm_state (world_vm w2)\<rparr>, w2))"

record RealizedAcpiPlatformWithAml =
  realized_platform :: RealizedAcpiPlatform
  realized_aml :: AcpiAmlActivationReport

text \<open>With the overlay and host as the call leaves them.\<close>

definition realize_platform_with_aml ::
  "AcpiPlatformFingerprint \<Rightarrow> AmlLoadedNamespace \<Rightarrow> 'h AmlRegionAccessHost \<Rightarrow> nat \<Rightarrow> nat \<Rightarrow> AmlRuntimeState \<Rightarrow> 'h
     \<Rightarrow> RealizedAcpiPlatformWithAml realized \<times> AmlRuntimeState \<times> 'h" where
  "realize_platform_with_aml fp ns h fuel issue_len st hs =
     (case match_platform_backend fp of
        None \<Rightarrow> (Err (RealFail RealUnsupported), st, hs)
      | Some m \<Rightarrow>
          (case match_backend m of
             DellLatitudeE6430 \<Rightarrow>
               (case realize_dell_latitude_e6430 m of
                  Err e \<Rightarrow> (Err e, st, hs)
                | Ok platform \<Rightarrow>
                    (case activate_backend_aml dell_backend ns h fuel issue_len st hs of
                       (Err e, w) \<Rightarrow> (Err e, world_runtime w, world_host w)
                     | (Ok aml, w) \<Rightarrow>
                         (Ok \<lparr>realized_platform = platform, realized_aml = aml\<rparr>, world_runtime w, world_host w)))))"

definition realize_platform_from_definition_tables_with_aml ::
  "AcpiPlatformFingerprint \<Rightarrow> Dsdt \<Rightarrow> AcpiTableView list \<Rightarrow> nat \<Rightarrow> nat \<Rightarrow> 'h AmlRegionAccessHost \<Rightarrow> nat \<Rightarrow> nat
     \<Rightarrow> AmlRuntimeState \<Rightarrow> 'h \<Rightarrow> RealizedAcpiPlatformWithAml realized \<times> AmlRuntimeState \<times> 'h" where
  "realize_platform_from_definition_tables_with_aml fp d tables slots_len namespace_len h fuel issue_len st hs =
     (case load_namespace_from_definition_tables d tables slots_len namespace_len of
        Err e \<Rightarrow> (Err e, st, hs)
      | Ok ns \<Rightarrow> realize_platform_with_aml fp ns h fuel issue_len st hs)"

end
