(* ===== verification/Aml_Eval_Inv.thy ===== *)
theory Aml_Eval_Inv
  imports Aml_Eval_Demo
begin

text \<open>
  The invariant of the evaluator. A frame has its seven arguments, eight locals and eight named slots
  with distinct names, every integer in it fits the width of the namespace, and it is at most 64 calls
  deep; the overlay keeps its keys distinct and its aggregates within their arrays. \<open>sound I R f\<close>: from
  a state with \<open>I\<close>, the run \<open>f\<close> reaches a state with \<open>I\<close>, also when it stops early, and a value it returns
  has \<open>R\<close>.
\<close>

section \<open>Sound runs\<close>

definition sound :: "('s \<Rightarrow> bool) \<Rightarrow> ('a \<Rightarrow> bool) \<Rightarrow> ('a, 's) run \<Rightarrow> bool" where
  "sound I R f \<longleftrightarrow> (\<forall>s. I s \<longrightarrow> I (snd (f s)) \<and> (\<forall>x. fst (f s) = Ok x \<longrightarrow> R x))"

named_theorems sound_intros \<open>runs that keep the invariant\<close>

lemma sound_ret [sound_intros]: "R x \<Longrightarrow> sound I R (rret x)"
  by (simp add: sound_def rret_def)

lemma sound_stop [sound_intros]: "sound I R (rfail e)" "sound I R (rlift (Err s))"
  by (simp_all add: sound_def rfail_def rlift_def)

lemma sound_lift: "(\<And>x. r = Ok x \<Longrightarrow> R x) \<Longrightarrow> sound I R (rlift r)"
  by (simp add: sound_def rlift_def)

lemma sound_bind:
  assumes "sound I Q f" and "\<And>x. Q x \<Longrightarrow> sound I R (g x)"
  shows "sound I R (rbind f g)"
  unfolding sound_def
proof (intro allI impI)
  fix s assume "I s"
  then show "I (snd (rbind f g s)) \<and> (\<forall>x. fst (rbind f g s) = Ok x \<longrightarrow> R x)"
    using assms unfolding sound_def
    by (cases "f s"; cases "fst (f s)") (force simp: rbind_def)+
qed

lemma sound_weaken: "sound I R f \<Longrightarrow> (\<And>x. R x \<Longrightarrow> Q x) \<Longrightarrow> sound I Q f"
  by (auto simp: sound_def)

lemma sound_bind_lift [sound_intros]:
  "(\<And>x. r = Ok x \<Longrightarrow> sound I R (g x)) \<Longrightarrow> sound I R (rbind (rlift r) g)"
  by (rule sound_bind [where Q = "\<lambda>x. r = Ok x"]) (simp_all add: sound_lift)

lemma sound_cases [sound_intros]:
  "\<lbrakk>b \<Longrightarrow> sound I R f; \<not> b \<Longrightarrow> sound I R f'\<rbrakk> \<Longrightarrow> sound I R (if b then f else f')"
  "(\<And>x y. p = (x, y) \<Longrightarrow> sound I R (h x y)) \<Longrightarrow> sound I R (case p of (x, y) \<Rightarrow> h x y)"
  "\<lbrakk>m = None \<Longrightarrow> sound I R f; \<And>x. m = Some x \<Longrightarrow> sound I R (i x)\<rbrakk> \<Longrightarrow> sound I R (case m of None \<Rightarrow> f | Some x \<Rightarrow> i x)"
  "(\<And>x. x = y \<Longrightarrow> sound I R (q x)) \<Longrightarrow> sound I R (Let y q)"
  by (auto split: prod.splits option.splits)

section \<open>The invariant\<close>

definition fits :: "AmlIntegerWidth \<Rightarrow> AmlValue \<Rightarrow> bool" where
  "fits w v \<longleftrightarrow> (\<forall>i. v = VInteger i \<longrightarrow> w = Bits32 \<longrightarrow> i < 2 ^ 32)"

definition control_fits :: "AmlIntegerWidth \<Rightarrow> AmlControl \<Rightarrow> bool" where
  "control_fits w ctl \<longleftrightarrow> (\<forall>v. ctl = Return v \<longrightarrow> fits w v)"

definition frame_ok :: "AmlIntegerWidth \<Rightarrow> nat \<Rightarrow> AmlEvalFrame \<Rightarrow> bool" where
  "frame_ok w d fr \<longleftrightarrow>
     frame_width fr = w \<and> recursion_depth fr = d
     \<and> length (args fr) = 7 \<and> length (locals fr) = 8 \<and> length (named_values fr) = 8
     \<and> slots_inv bound_name (named_values fr)
     \<and> (\<forall>v. Some v \<in> set (args fr) \<union> set (locals fr) \<longrightarrow> fits w v)
     \<and> (\<forall>b v. Some b \<in> set (named_values fr) \<longrightarrow> binding b = BoundValue v \<longrightarrow> fits w v)"

definition state_ok :: "AmlRuntimeState \<Rightarrow> bool" where
  "state_ok st \<longleftrightarrow> slots_inv int_node (integers st) \<and> slots_inv mtx_node (mutexes st) \<and> aggregates_wf st"

text \<open>\<open>ov\<close>: the run started with an overlay, so it still has one.\<close>

definition machine_ok :: "bool \<Rightarrow> AmlIntegerWidth \<Rightarrow> nat \<Rightarrow> 'h machine \<Rightarrow> bool" where
  "machine_ok ov w d m \<longleftrightarrow>
     frame_ok w d (frame m) \<and> (\<forall>st. runtime m = Some st \<longrightarrow> state_ok st) \<and> (ov \<longrightarrow> runtime m \<noteq> None)"

lemma fits_integer [simp]: "fits w (integer v w)"
proof -
  have "unat (ucast (ucast v :: u32) :: 64 word) < 2 ^ 32"
    using take_bit_nat_less_exp [of 32 "unat v"] by (simp add: unsigned_ucast_eq unsigned_take_bit_eq)
  then show ?thesis by (auto simp: fits_def integer_def word_less_nat_alt)
qed

lemma fits_other [simp]:
  "fits w (VString s)" "fits w (VStaticString l)" "fits w (VBuffer b)" "fits w (VBufferHandle h)"
  "fits w (VPackage p)" "fits w (VStaticPackage l)" "fits w (VPackageHandle k)" "fits w VDebugObject" "fits w VNone"
  by (simp_all add: fits_def)

lemma control_fits_simps [simp]:
  "control_fits w Continue" "control_fits w Blocked" "control_fits w Break" "control_fits w (Return v) = fits w v"
  by (simp_all add: control_fits_def)

subsection \<open>The overlay\<close>

lemma state_ok_integer: "state_ok st \<Longrightarrow> write_integer node v st = Ok st' \<Longrightarrow> state_ok st'"
  using int_slots.put_Ok [of "integers st" node v]
  by (auto simp: state_ok_def write_integer_put aggregates_wf_def ok_iff)

lemma state_ok_package: "state_ok st \<Longrightarrow> write_package_value h i v st = Ok st' \<Longrightarrow> state_ok st'"
proof -
  assume "state_ok st" and w: "write_package_value h i v st = Ok st'"
  then have "aggregates_wf st'" using write_package_view [of st h i v] by (auto simp: state_ok_def split: option.splits if_splits)
  moreover have "integers st' = integers st" "mutexes st' = mutexes st"
    using w by (auto simp: write_package_value_def ok_iff split: if_splits)
  ultimately show ?thesis using \<open>state_ok st\<close> by (simp add: state_ok_def)
qed

lemma state_ok_buffer: "state_ok st \<Longrightarrow> write_buffer_byte h i v st = Ok st' \<Longrightarrow> state_ok st'"
proof -
  assume "state_ok st" and w: "write_buffer_byte h i v st = Ok st'"
  then have "aggregates_wf st'" using write_buffer_view [of st h i v] by (auto simp: state_ok_def split: option.splits if_splits)
  moreover have "integers st' = integers st" "mutexes st' = mutexes st"
    using w by (auto simp: write_buffer_byte_def ok_iff split: if_splits)
  ultimately show ?thesis using \<open>state_ok st\<close> by (simp add: state_ok_def)
qed

lemma state_ok_copy: "state_ok st \<Longrightarrow> copy_bytes_into_buffer h src st = Ok st' \<Longrightarrow> state_ok st'"
proof -
  assume "state_ok st" and w: "copy_bytes_into_buffer h src st = Ok st'"
  then have "aggregates_wf st'" using copy_buffer_view [of st h src] by (auto simp: state_ok_def split: option.splits if_splits)
  moreover have "integers st' = integers st" "mutexes st' = mutexes st"
    using w by (auto simp: copy_bytes_into_buffer_def Let_def ok_iff split: if_splits)
  ultimately show ?thesis using \<open>state_ok st\<close> by (simp add: state_ok_def)
qed

lemma state_ok_copy_value: "state_ok st \<Longrightarrow> copy_value_into_buffer ns h v st = Ok st' \<Longrightarrow> state_ok st'"
  by (auto simp: copy_value_into_buffer_def ok_iff state_ok_copy split: AmlValue.splits)

lemma state_ok_create:
  "state_ok st \<Longrightarrow> create_package n st = Ok (h, st') \<Longrightarrow> state_ok st'"
  "state_ok st \<Longrightarrow> create_buffer n st = Ok (b, st') \<Longrightarrow> state_ok st'"
  using create_package_view [of st n h st'] create_buffer_view [of st n b st']
  by (auto simp: state_ok_def create_package_def create_buffer_def Let_def split: if_splits option.splits)

lemma state_ok_acquire: "state_ok st \<Longrightarrow> try_acquire_mutex node st = Ok (t, st') \<Longrightarrow> state_ok st'"
  using mutex_slots.put_Ok [of "mutexes st" node True]
  by (auto simp: state_ok_def try_acquire_lookup ok_iff aggregates_wf_def split: if_splits)

lemma state_ok_release: "state_ok st \<Longrightarrow> release_mutex node st = Ok st' \<Longrightarrow> state_ok st'"
  using mutex_slots.put_Ok [of "mutexes st" node False]
  by (auto simp: state_ok_def release_lookup ok_iff aggregates_wf_def split: if_splits)

subsection \<open>The frame\<close>

lemma frame_new_ok:
  assumes "frame_new w scope vs d = Ok fr" and "list_all (fits w) vs"
  shows "frame_ok w d fr"
proof -
  have len: "length vs \<le> 7" and fr: "fr = \<lparr>frame_width = w, current_scope_path = scope,
      args = map Some vs @ replicate (7 - length vs) None,
      locals = replicate 8 None, named_values = replicate 8 None, recursion_depth = d\<rparr>"
    using assms(1) by (simp_all add: frame_new_def split: if_splits)
  have "fits w v" if "Some v \<in> set (args fr) \<union> set (locals fr)" for v
  proof -
    have "v \<in> set vs" using that unfolding fr by (simp add: image_iff)
    then show ?thesis using assms(2) by (simp add: list_all_iff)
  qed
  then have "\<forall>v. Some v \<in> set (args fr) \<union> set (locals fr) \<longrightarrow> fits w v" by blast
  moreover have "\<forall>b. Some b \<notin> set (named_values fr)" unfolding fr by (simp add: set_replicate_conv_if)
  moreover have "slots_inv bound_name (named_values fr)" by (simp add: fr slots_inv_def)
  ultimately show ?thesis using len unfolding frame_ok_def by (simp add: fr)
qed

lemma frame_ok_value:
  assumes "frame_ok w d fr"
  shows "i < 8 \<Longrightarrow> locals fr ! i = Some v \<Longrightarrow> fits w v" "i < 7 \<Longrightarrow> args fr ! i = Some v \<Longrightarrow> fits w v"
    "named_value fr name = Some v \<Longrightarrow> fits w v"
proof -
  show "fits w v" if "i < 8" "locals fr ! i = Some v"
  proof -
    have "i < length (locals fr)" using assms that(1) by (simp add: frame_ok_def)
    then have "Some v \<in> set (locals fr)" using that(2) nth_mem by metis
    then show ?thesis using assms unfolding frame_ok_def by blast
  qed
  show "fits w v" if "i < 7" "args fr ! i = Some v"
  proof -
    have "i < length (args fr)" using assms that(1) by (simp add: frame_ok_def)
    then have "Some v \<in> set (args fr)" using that(2) nth_mem by metis
    then show ?thesis using assms unfolding frame_ok_def by blast
  qed
  show "fits w v" if n: "named_value fr name = Some v"
  proof -
    obtain b where b: "slot_find (\<lambda>x. bound_name x = name) (named_values fr) = Some b" "binding b = BoundValue v"
      using n by (auto simp: named_value_def find_binding_def split: option.splits AmlNamedBinding.splits)
    then have "Some b \<in> set (named_values fr)" by (auto simp: slot_find_def find_Some_iff dest: nth_mem)
    then show ?thesis using assms b(2) unfolding frame_ok_def by blast
  qed
qed

lemma frame_ok_local: "frame_ok w d fr \<Longrightarrow> fits w v \<Longrightarrow> frame_ok w d (fr\<lparr>locals := (locals fr)[i := Some v]\<rparr>)"
  by (auto simp: frame_ok_def dest: set_update_subset_insert [THEN subsetD])

lemma frame_ok_arg: "frame_ok w d fr \<Longrightarrow> fits w v \<Longrightarrow> frame_ok w d (fr\<lparr>args := (args fr)[i := Some v]\<rparr>)"
  by (auto simp: frame_ok_def dest: set_update_subset_insert [THEN subsetD])

interpretation frame_slots: keyed_slots bound_name binding "\<lambda>n b. \<lparr>bound_name = n, binding = b\<rparr>"
  by unfold_locales simp_all

lemma slot_put_set: "slot_put p x ss = Ok ss' \<Longrightarrow> set ss' \<subseteq> insert (Some x) (set ss)"
  by (auto simp: slot_put_def split: slot_result.splits dest: set_update_subset_insert [THEN subsetD])

lemma frame_ok_bind:
  assumes "frame_ok w d fr" and "bind_named_binding name b fr = Ok fr'" and "\<And>v. b = BoundValue v \<Longrightarrow> fits w v"
  shows "frame_ok w d fr'"
proof -
  obtain ss where ss: "slot_put (\<lambda>x. bound_name x = name) \<lparr>bound_name = name, binding = b\<rparr> (named_values fr) = Ok ss"
    "fr' = fr\<lparr>named_values := ss\<rparr>" using assms(2) by (auto simp: bind_named_binding_def ok_iff)
  have "slots_inv bound_name ss \<and> length ss = length (named_values fr)"
    using frame_slots.put_Ok [of "named_values fr" name b ss] ss(1) assms(1) by (simp add: frame_slots.put_def frame_ok_def)
  then show ?thesis
    using assms(1,3) slot_put_set [OF ss(1)] unfolding ss(2) frame_ok_def by auto
qed

lemma frame_ok_bind_value: "frame_ok w d fr \<Longrightarrow> bind_named_value name v fr = Ok fr' \<Longrightarrow> fits w v \<Longrightarrow> frame_ok w d fr'"
  unfolding bind_named_value_def by (erule (1) frame_ok_bind) auto

lemma frame_ok_bind_region: "frame_ok w d fr \<Longrightarrow> bind_named_region name g fr = Ok fr' \<Longrightarrow> frame_ok w d fr'"
  unfolding bind_named_region_def by (erule (1) frame_ok_bind) auto

lemma frame_ok_bind_field: "frame_ok w d fr \<Longrightarrow> bind_named_field name g fr = Ok fr' \<Longrightarrow> frame_ok w d fr'"
  unfolding bind_named_field_def by (erule (1) frame_ok_bind) auto

lemma frame_ok_write_named:
  assumes "frame_ok w d fr" and "write_named_value name v fr = Some fr'" and "fits w v"
  shows "frame_ok w d fr'"
proof -
  obtain i x where i: "i < length (named_values fr)" "named_values fr ! i = Some x" "bound_name x = name"
    "fr' = fr\<lparr>named_values := (named_values fr)[i := Some \<lparr>bound_name = name, binding = BoundValue v\<rparr>]\<rparr>"
    using assms(2) by (auto simp: write_named_value_def split: option.splits dest!: position_SomeD)
  then show ?thesis
    using assms(1,3) slots_set(1) [of bound_name "named_values fr" i "\<lparr>bound_name = name, binding = BoundValue v\<rparr>"]
      set_update_subset_insert [of "named_values fr" i "Some \<lparr>bound_name = name, binding = BoundValue v\<rparr>"]
    unfolding frame_ok_def by auto
qed

lemma frame_ok_fields:
  "frame_ok w d fr \<Longrightarrow> bind_dynamic_field_entries bs cu e region flags off fr = Ok fr' \<Longrightarrow> frame_ok w d fr'"
proof (induction bs cu e region flags off fr rule: bind_dynamic_field_entries.induct)
  case (1 bs cu e region flags off fr)
  show ?case using "1.prems"
    by (subst (asm) bind_dynamic_field_entries.simps)
      (auto simp: ok_iff split: if_splits dest: frame_ok_bind_field intro: "1.IH" "1.prems"(1))
qed

section \<open>Every operation is sound\<close>

text \<open>The primitives, each as the first step of a run.\<close>

lemma sound_primitives:
  "sound (machine_ok ov w d) (frame_ok w d) get_frame"
  "frame_ok w d fr \<Longrightarrow> sound (machine_ok ov w d) (\<lambda>_. True) (put_frame fr)"
  "sound (machine_ok ov w d) state_ok the_runtime"
  "state_ok st \<Longrightarrow> sound (machine_ok ov w d) (\<lambda>_. True) (put_runtime st)"
  by (auto simp: sound_def get_frame_def put_frame_def the_runtime_def put_runtime_def machine_ok_def or_fail_def)

lemma sound_bind_primitives [sound_intros]:
  "(\<And>fr. frame_ok w d fr \<Longrightarrow> sound (machine_ok ov w d) R (g fr)) \<Longrightarrow> sound (machine_ok ov w d) R (rbind get_frame g)"
  "frame_ok w d fr \<Longrightarrow> sound (machine_ok ov w d) R (k ()) \<Longrightarrow> sound (machine_ok ov w d) R (rbind (put_frame fr) k)"
  "(\<And>st. state_ok st \<Longrightarrow> sound (machine_ok ov w d) R (h st)) \<Longrightarrow> sound (machine_ok ov w d) R (rbind the_runtime h)"
  "state_ok st \<Longrightarrow> sound (machine_ok ov w d) R (k ()) \<Longrightarrow> sound (machine_ok ov w d) R (rbind (put_runtime st) k)"
  by (rule sound_bind [OF sound_primitives(1)], assumption)
    (rule sound_bind [OF sound_primitives(2)], assumption, simp,
     rule sound_bind [OF sound_primitives(3)], assumption,
     rule sound_bind [OF sound_primitives(4)], assumption, simp)

lemma sound_on_runtime [sound_intros]:
  assumes "\<And>st st'. state_ok st \<Longrightarrow> f st = Ok st' \<Longrightarrow> state_ok st'"
  shows "sound (machine_ok ov w d) (\<lambda>_. True) (on_runtime f)"
  unfolding on_runtime_def
  by (intro sound_intros) (rule sound_primitives(4), erule (1) assms)

lemma sound_with_runtime:
  assumes "\<And>st x st'. state_ok st \<Longrightarrow> f st = Ok (x, st') \<Longrightarrow> state_ok st'"
  shows "sound (machine_ok ov w d) (\<lambda>_. True) (with_runtime f)"
  unfolding with_runtime_def by (intro sound_intros) (auto intro: assms)

lemma sound_on_host: "sound (machine_ok ov w d) (\<lambda>_. True) (on_host f)"
  by (auto simp: sound_def on_host_def machine_ok_def Let_def split: prod.splits)

lemma sound_bind_host [sound_intros]:
  "(\<And>x. sound (machine_ok ov w d) R (g x)) \<Longrightarrow> sound (machine_ok ov w d) R (rbind (on_host f) g)"
  "(\<And>h. sound (machine_ok ov w d) R (k h)) \<Longrightarrow> sound (machine_ok ov w d) R (rbind (the_host c) k)"
  by (rule sound_bind [OF sound_on_host]) (auto simp: the_host_def intro: sound_intros)

lemma sound_bind_runtime [sound_intros]:
  "\<lbrakk>\<And>st st'. state_ok st \<Longrightarrow> f st = Ok st' \<Longrightarrow> state_ok st'; sound (machine_ok ov w d) R (g ())\<rbrakk>
     \<Longrightarrow> sound (machine_ok ov w d) R (rbind (on_runtime f) g)"
  "\<lbrakk>\<And>st x st'. state_ok st \<Longrightarrow> h st = Ok (x, st') \<Longrightarrow> state_ok st'; \<And>x. sound (machine_ok ov w d) R (k x)\<rbrakk>
     \<Longrightarrow> sound (machine_ok ov w d) R (rbind (with_runtime h) k)"
  by (rule sound_bind [OF sound_on_runtime]; simp) (rule sound_bind [OF sound_with_runtime]; simp)

definition evaluator_sound :: "AmlIntegerWidth \<Rightarrow> 'h evaluator \<Rightarrow> bool" where
  "evaluator_sound w E \<longleftrightarrow>
     (\<forall>ov. \<forall>d \<le> MAX_RECURSION_DEPTH.
        (\<forall>bs. sound (machine_ok ov w d) (control_fits w) (call_term_list E bs))
        \<and> (\<forall>bs. sound (machine_ok ov w d) (\<lambda>(v, _). fits w v) (call_term_arg E bs))
        \<and> (\<forall>bs v. fits w v \<longrightarrow> sound (machine_ok ov w d) (\<lambda>_. True) (call_assign_target E bs v))
        \<and> (\<forall>bs a b. sound (machine_ok ov w d) (\<lambda>(_, ctl). control_fits w ctl) (call_while E bs a b)))"

lemma sound_calls:
  assumes "evaluator_sound w E" and "d \<le> MAX_RECURSION_DEPTH"
  shows "sound (machine_ok ov w d) (control_fits w) (call_term_list E bs)"
    and "sound (machine_ok ov w d) (\<lambda>(v, _). fits w v) (call_term_arg E bs)"
    and "fits w v \<Longrightarrow> sound (machine_ok ov w d) (\<lambda>_. True) (call_assign_target E bs v)"
    and "sound (machine_ok ov w d) (\<lambda>(_, ctl). control_fits w ctl) (call_while E bs a b)"
  using assms by (simp_all add: evaluator_sound_def)

lemma sound_bind_calls [sound_intros]:
  assumes "evaluator_sound w E" and "d \<le> MAX_RECURSION_DEPTH"
  shows "(\<And>ctl. control_fits w ctl \<Longrightarrow> sound (machine_ok ov w d) R (f ctl)) \<Longrightarrow>
           sound (machine_ok ov w d) R (rbind (call_term_list E bs) f)"
    and "(\<And>v n. fits w v \<Longrightarrow> sound (machine_ok ov w d) R (g (v, n))) \<Longrightarrow>
           sound (machine_ok ov w d) R (rbind (call_term_arg E bs) g)"
    and "\<lbrakk>fits w v; \<And>n. sound (machine_ok ov w d) R (h n)\<rbrakk> \<Longrightarrow>
           sound (machine_ok ov w d) R (rbind (call_assign_target E bs v) h)"
  by (rule sound_bind [OF sound_calls(1) [OF assms]], assumption)
    (rule sound_bind [OF sound_calls(2) [OF assms]], simp add: split_paired_all,
     rule sound_bind [OF sound_calls(3) [OF assms]], assumption, assumption)

abbreviation term_sound :: "bool \<Rightarrow> AmlIntegerWidth \<Rightarrow> nat \<Rightarrow> (AmlValue \<times> usize, 'h) eval \<Rightarrow> bool" where
  "term_sound ov w d f \<equiv> sound (machine_ok ov w d) (\<lambda>(v, _). fits w v) f"

abbreviation stmt_sound :: "bool \<Rightarrow> AmlIntegerWidth \<Rightarrow> nat \<Rightarrow> (usize \<times> AmlControl, 'h) eval \<Rightarrow> bool" where
  "stmt_sound ov w d f \<equiv> sound (machine_ok ov w d) (\<lambda>(_, ctl). control_fits w ctl) f"

lemma sound_pair [sound_intros]:
  "sound I (\<lambda>(x, y). P x y) f \<Longrightarrow> (\<And>x y. P x y \<Longrightarrow> sound I R (g (x, y))) \<Longrightarrow> sound I R (rbind f g)"
  by (erule sound_bind) auto

lemma constant_term_fits: "constant_term w bs opcode = Some (Ok (v, n)) \<Longrightarrow> fits w v"
  by (auto simp: constant_term_def ok_iff split: if_splits)

lemma sound_constant [sound_intros]: "constant_term w bs opcode = Some r \<Longrightarrow> term_sound ov w d (rlift r)"
  by (rule sound_lift) (auto dest: constant_term_fits)

lemma frame_ok_width: "frame_ok w d fr \<Longrightarrow> frame_width fr = w" "frame_ok w d fr \<Longrightarrow> recursion_depth fr = d"
  by (simp_all add: frame_ok_def)

text \<open>The contract between the operations and the recursive entry points they are given.\<close>

locale sound_evaluator =
  fixes c :: "'h eval_context" and E :: "'h evaluator"
  assumes calls: "evaluator_sound (namespace_width c) E"
begin

lemma sound_static:
  assumes d: "d \<le> MAX_RECURSION_DEPTH"
  shows "term_sound ov (namespace_width c) d (eval_static_name_value c E loc)"
  unfolding eval_static_name_value_def
  by (intro sound_intros calls d) (auto simp: frame_ok_width intro: sound_intros)

lemma sound_element_loop:
  assumes d: "d \<le> MAX_RECURSION_DEPTH"
  shows "sound (machine_ok ov (namespace_width c) d) (fits (namespace_width c)) (static_element_loop c E loc e i cu k n)"
proof (induction n arbitrary: cu k)
  case (Suc n)
  then show ?case by (simp, intro sound_pair [OF sound_static [OF d]] sound_intros) (auto intro: sound_intros)
qed (simp add: sound_intros)

lemma sound_index_value:
  assumes d: "d \<le> MAX_RECURSION_DEPTH"
  shows "sound (machine_ok ov (namespace_width c) d) (fits (namespace_width c)) (index_value c E base i)"
  unfolding index_value_def static_package_element_value_def Let_def
  by (cases base; simp only: AmlValue.case; intro sound_intros sound_element_loop d)
    (auto simp: frame_ok_width intro: sound_intros split: AmlRuntimeAggregateValue.split)

lemma sound_args_loop:
  assumes d: "d \<le> MAX_RECURSION_DEPTH"
  shows "list_all (fits (namespace_width c)) vs \<Longrightarrow>
    sound (machine_ok ov (namespace_width c) d) (\<lambda>(vs, _). list_all (fits (namespace_width c)) vs) (eval_args_loop E bs n k vs)"
proof (induction n arbitrary: k vs)
  case (Suc n)
  then show ?case by (simp, intro sound_intros calls d) (auto intro: sound_intros)
qed (simp add: sound_intros)

lemma sound_in_frame:
  assumes "sound (machine_ok ov w d') R f" and "frame_ok w d' fr"
  shows "sound (machine_ok ov w d) R (in_frame fr f)"
  unfolding sound_def
proof (intro allI impI)
  fix m :: "'a machine" assume m: "machine_ok ov w d m"
  then have "machine_ok ov w d' (m\<lparr>frame := fr\<rparr>)" using assms(2) by (simp add: machine_ok_def)
  then have "machine_ok ov w d' (snd (f (m\<lparr>frame := fr\<rparr>))) \<and> (\<forall>x. fst (f (m\<lparr>frame := fr\<rparr>)) = Ok x \<longrightarrow> R x)"
    using assms(1) by (simp add: sound_def)
  then show "machine_ok ov w d (snd (in_frame fr f m)) \<and> (\<forall>x. fst (in_frame fr f m) = Ok x \<longrightarrow> R x)"
    using m by (simp add: in_frame_def machine_ok_def Let_def split_beta)
qed

lemma sound_invoke:
  assumes d: "d \<le> MAX_RECURSION_DEPTH"
  shows "term_sound ov (namespace_width c) d (invoke_method_from_term c E method bs)"
  unfolding invoke_method_from_term_def
proof (rule sound_bind_primitives(1), rule sound_cases(1), rule sound_stop(1))
  fix fr assume fr: "frame_ok (namespace_width c) d fr" and depth: "\<not> MAX_RECURSION_DEPTH \<le> recursion_depth fr"
  let ?I = "machine_ok ov (namespace_width c) d"
  have depth: "recursion_depth fr + 1 \<le> MAX_RECURSION_DEPTH" using depth by simp
  have inv: "sound ?I (\<lambda>r. \<forall>v. r = Some v \<longrightarrow> fits (namespace_width c) v)
      (invoke_method_descriptor c E method vs (recursion_depth fr + 1))" if "list_all (fits (namespace_width c)) vs" for vs
    unfolding invoke_method_descriptor_def
    by (intro sound_intros sound_bind [OF sound_in_frame [OF sound_calls(1) [OF calls depth]]])
      (auto simp: that frame_new_ok intro: sound_intros split: AmlControl.split)
  show "term_sound ov (namespace_width c) d (rbind (eval_args_loop E bs (unat (arg_count method)) 0 []) (\<lambda>(vs, consumed).
      rbind (invoke_method_descriptor c E method vs (recursion_depth fr + 1)) (\<lambda>r.
        rret (case r of Some v \<Rightarrow> v | None \<Rightarrow> VNone, consumed))))"
    by (intro sound_pair [OF sound_args_loop [OF d]] sound_bind [OF inv] sound_intros) (auto split: option.split)
qed

lemma sound_named_term:
  assumes d: "d \<le> MAX_RECURSION_DEPTH"
  shows "term_sound ov (namespace_width c) d (eval_named_term c E bs)"
proof -
  have read: "term_sound ov (namespace_width c) d (\<lambda>m. rret (integer (f m) (namespace_width c), n) m)" for f n
    by (auto simp: sound_def rret_def)
  show ?thesis
    unfolding eval_named_term_def
    by (intro sound_intros)
      (auto simp: frame_ok_width bind_eq_Some_conv read split: AmlNamespaceNodePayload.split
        intro!: sound_intros sound_pair [OF sound_static [OF d]] sound_pair [OF sound_invoke [OF d]] dest: frame_ok_value(3))
qed

lemma sound_write_named: "sound (machine_ok ov w d) (\<lambda>_. True) (write_named_target c path v)"
  unfolding write_named_target_def
  by (intro sound_intros)
    (auto split: AmlNamespaceNodePayload.split intro!: sound_intros sound_on_host intro: state_ok_integer)

lemma sound_assign_named:
  assumes "fits w v"
  shows "sound (machine_ok ov w d) (\<lambda>_. True) (assign_named_target c bs v)"
  unfolding assign_named_target_def
  by (intro sound_intros)
    (auto simp: bind_eq_Some_conv split: option.split AmlValue.split
      intro!: sound_intros sound_bind [OF sound_write_named] intro: state_ok_copy_value frame_ok_write_named assms)

lemma sound_assign_index:
  assumes d: "d \<le> MAX_RECURSION_DEPTH"
  shows "sound (machine_ok ov (namespace_width c) d) (\<lambda>_. True) (assign_index_target c E bs v)"
proof -
  have store: "sound (machine_ok ov (namespace_width c) d) (\<lambda>_. True)
      (case base of
         VPackageHandle h \<Rightarrow> rbind (rlift (runtime_aggregate_value v)) (\<lambda>a. on_runtime (write_package_value h i a))
       | VBufferHandle h \<Rightarrow> rbind (rlift (as_integer v)) (\<lambda>b. on_runtime (write_buffer_byte h i (ucast b)))
       | _ \<Rightarrow> rfail unsupported)" for base i
    by (cases base) (auto intro!: sound_intros intro: state_ok_package state_ok_buffer)
  show ?thesis
    unfolding assign_index_target_def
    by (intro sound_intros calls d) (auto intro!: sound_intros sound_bind [OF store])
qed

lemma unat_sub: "a \<le> x \<Longrightarrow> unat (x - a :: u8) = unat x - unat a"
  by (simp add: unat_sub word_le_nat_alt)

lemma sound_assign:
  assumes d: "d \<le> MAX_RECURSION_DEPTH" and v: "fits (namespace_width c) v"
  shows "sound (machine_ok ov (namespace_width c) d) (\<lambda>_. True) (assign_target c E bs v)"
  unfolding assign_target_def
  by (intro sound_intros sound_assign_index sound_assign_named d v frame_ok_local frame_ok_arg) auto

lemma index_in_range:
  fixes x :: u8
  shows "0x60 \<le> x \<Longrightarrow> x \<le> 0x67 \<Longrightarrow> unat (x - 0x60) < 8" "0x68 \<le> x \<Longrightarrow> x \<le> 0x6e \<Longrightarrow> unat (x - 0x68) < 7"
  by (auto simp: word_le_nat_alt unat_sub)

lemma slot_read_fits:
  fixes x :: u8
  assumes "frame_ok w d fr"
  shows "0x60 \<le> x \<Longrightarrow> x \<le> 0x67 \<Longrightarrow> locals fr ! unat (x - 0x60) = Some v \<Longrightarrow> fits w v"
    and "0x68 \<le> x \<Longrightarrow> x \<le> 0x6e \<Longrightarrow> args fr ! unat (x - 0x68) = Some v \<Longrightarrow> fits w v"
  using frame_ok_value(1) [OF assms] frame_ok_value(2) [OF assms] index_in_range [of x] by blast+

lemma sound_read_target:
  assumes d: "d \<le> MAX_RECURSION_DEPTH"
  shows "term_sound ov (namespace_width c) d (read_target_value c E bs)"
  unfolding read_target_value_def
  by (intro sound_intros sound_named_term d) (auto simp: ok_iff intro: slot_read_fits)

lemma sound_operands:
  assumes d: "d \<le> MAX_RECURSION_DEPTH"
    and k: "\<And>x y n. fits (namespace_width c) x \<Longrightarrow> fits (namespace_width c) y \<Longrightarrow> sound (machine_ok ov (namespace_width c) d) R (k x y n)"
  shows "sound (machine_ok ov (namespace_width c) d) R (eval_operands E bs k)"
  unfolding eval_operands_def by (intro sound_intros calls d) (auto intro: sound_intros calls d k)

lemma sound_operand:
  assumes d: "d \<le> MAX_RECURSION_DEPTH"
    and k: "\<And>x. fits (namespace_width c) x \<Longrightarrow> sound (machine_ok ov (namespace_width c) d) (fits (namespace_width c)) (k x)"
  shows "term_sound ov (namespace_width c) d (eval_operand E bs k)"
  unfolding eval_operand_def by (intro sound_intros calls d) (auto intro!: sound_bind [OF k] sound_intros)

lemma sound_operators:
  assumes d: "d \<le> MAX_RECURSION_DEPTH"
  shows "term_sound ov (namespace_width c) d (eval_binary_op E bs (\<lambda>a b. integer (f a b)))"
    and "term_sound ov (namespace_width c) d (eval_logic_compare E bs p)"
    and "term_sound ov (namespace_width c) d (eval_divide E bs)"
    and "term_sound ov (namespace_width c) d (eval_index c E bs)"
    and "term_sound ov (namespace_width c) d (eval_store E bs)"
    and "term_sound ov (namespace_width c) d (eval_update_op c E bs (\<lambda>v. integer (u v)))"
  unfolding eval_binary_op_def eval_logic_compare_def eval_divide_def eval_index_def eval_store_def eval_update_op_def
  by (auto simp: frame_ok_width intro!: sound_intros sound_operands sound_calls(2) [OF calls] calls d
      sound_bind [OF sound_index_value] sound_pair [OF sound_read_target])

lemma sound_unary:
  assumes d: "d \<le> MAX_RECURSION_DEPTH"
  shows "term_sound ov (namespace_width c) d (eval_deref E bs)"
    and "term_sound ov (namespace_width c) d (eval_object_type E bs)"
    and "term_sound ov (namespace_width c) d (eval_not E bs)"
    and "term_sound ov (namespace_width c) d (eval_logic_not E bs)"
  unfolding eval_deref_def eval_object_type_def eval_not_def eval_logic_not_def
  by (auto simp: frame_ok_width intro!: sound_intros sound_operand d)

lemma sound_size_of:
  assumes d: "d \<le> MAX_RECURSION_DEPTH"
  shows "term_sound ov (namespace_width c) d (eval_size_of c E bs)"
  unfolding eval_size_of_def
proof (rule sound_operand [OF d])
  fix v
  have "sound (machine_ok ov (namespace_width c) d) (fits (namespace_width c))
      (rbind (rlift r) (\<lambda>len. rbind get_frame (\<lambda>fr. rret (integer (of_nat len) (frame_width fr)))))" for r
    by (auto simp: frame_ok_width intro!: sound_intros)
  then show "sound (machine_ok ov (namespace_width c) d) (fits (namespace_width c)) (\<lambda>m.
      rbind (rlift (value_size (ev_namespace c) (runtime m) v))
        (\<lambda>len. rbind get_frame (\<lambda>fr. rret (integer (of_nat len) (frame_width fr)))) m)"
    unfolding sound_def by blast
qed

lemma eval_string_fits: "eval_string bs = Ok (v, n) \<Longrightarrow> fits w v"
  by (auto simp: eval_string_def ok_iff split: option.splits if_splits)

lemma sound_term_arg:
  assumes d: "d \<le> MAX_RECURSION_DEPTH"
  shows "term_sound ov (namespace_width c) d (eval_term_arg c E bs)"
proof -
  have lift: "term_sound ov (namespace_width c) d (rlift (eval_string bs))"
    by (rule sound_lift) (auto dest: eval_string_fits)
  show ?thesis
    unfolding eval_term_arg_def
    by (intro sound_bind_lift sound_bind_primitives(1) sound_cases(1,3) sound_operators sound_unary sound_size_of
        sound_named_term lift sound_stop sound_ret d)
      (auto simp: frame_ok_width ok_iff intro: sound_constant slot_read_fits)
qed

lemma sound_package_loop:
  assumes d: "d \<le> MAX_RECURSION_DEPTH"
  shows "sound (machine_ok ov (namespace_width c) d) (\<lambda>_. True) (package_init_loop E h bs e cu i n)"
proof (induction n arbitrary: cu i)
  case (Suc n)
  show ?case unfolding package_init_loop.simps
    by (intro sound_cases(1) sound_bind_lift sound_pair [OF sound_calls(2) [OF calls d]])
      (auto intro!: sound_intros Suc intro: state_ok_package)
qed (simp add: sound_intros)

lemma sound_initializer:
  assumes d: "d \<le> MAX_RECURSION_DEPTH"
  shows "term_sound ov (namespace_width c) d (eval_name_initializer c E bs)"
  unfolding eval_name_initializer_def eval_package_initializer_def eval_buffer_initializer_def
  by (auto intro!: sound_intros sound_calls(2) [OF calls] calls d sound_bind [OF sound_package_loop]
      intro: state_ok_create state_ok_copy)

lemma sound_super_name: "sound (machine_ok ov w d) (\<lambda>_. True) (resolve_super_name c bs)"
  unfolding resolve_super_name_def by (auto intro!: sound_intros)

lemma sound_name_statement:
  assumes d: "d \<le> MAX_RECURSION_DEPTH"
  shows "stmt_sound ov (namespace_width c) d (eval_name_statement c E bs)"
  unfolding eval_name_statement_def
  by (auto intro!: sound_intros sound_pair [OF sound_initializer [OF d]] intro: frame_ok_bind_value)

lemma sound_dynamic:
  assumes d: "d \<le> MAX_RECURSION_DEPTH"
  shows "stmt_sound ov (namespace_width c) d (eval_dynamic_opregion_statement E bs)"
    and "stmt_sound ov (namespace_width c) d (eval_dynamic_field_statement c bs)"
  unfolding eval_dynamic_opregion_statement_def eval_dynamic_field_statement_def
  by (auto intro!: sound_intros sound_calls(2) [OF calls] calls d intro: frame_ok_bind_region frame_ok_fields)

lemma sound_ext_statement:
  assumes d: "d \<le> MAX_RECURSION_DEPTH"
  shows "stmt_sound ov (namespace_width c) d (eval_ext_statement c E bs)"
  unfolding eval_ext_statement_def
  by (auto intro!: sound_intros sound_dynamic sound_calls(2) [OF calls] calls d sound_bind [OF sound_super_name]
      intro: state_ok_acquire state_ok_release)

lemma sound_if:
  assumes d: "d \<le> MAX_RECURSION_DEPTH"
  shows "stmt_sound ov (namespace_width c) d (eval_if E bs)"
  unfolding eval_if_def
  by (auto intro!: sound_intros sound_calls(2) [OF calls] calls d)

lemma sound_while_loop:
  assumes d: "d \<le> MAX_RECURSION_DEPTH"
  shows "stmt_sound ov (namespace_width c) d (eval_while_loop E bs off e)"
  unfolding eval_while_loop_def
  by (auto intro!: sound_intros sound_calls(2,4) [OF calls] calls d split: AmlControl.split)

lemma sound_statement:
  assumes d: "d \<le> MAX_RECURSION_DEPTH"
  shows "stmt_sound ov (namespace_width c) d (eval_statement c E bs)"
  unfolding eval_statement_def eval_while_def
  by (auto intro!: sound_cases sound_bind_lift sound_stop sound_ret sound_name_statement sound_ext_statement sound_if
      sound_pair [OF sound_operators(5)] sound_pair [OF sound_calls(2) [OF calls]] sound_calls(4) [OF calls] d)

lemma sound_term_list:
  assumes d: "d \<le> MAX_RECURSION_DEPTH"
  shows "sound (machine_ok ov (namespace_width c) d) (control_fits (namespace_width c)) (eval_term_list c E bs)"
  unfolding eval_term_list_def
  by (auto intro!: sound_cases sound_stop sound_ret sound_pair [OF sound_statement] sound_calls(1) [OF calls] d)

text \<open>One more level of the evaluator is again sound.\<close>

lemma sound_step:
  "evaluator_sound (namespace_width c)
     \<lparr>call_term_list = eval_term_list c E, call_term_arg = eval_term_arg c E,
      call_assign_target = assign_target c E, call_while = eval_while_loop E\<rparr>"
  unfolding evaluator_sound_def
  by (simp add: sound_term_list sound_term_arg sound_assign sound_while_loop)

end

lemma evaluators_sound: "evaluator_sound (namespace_width c) (evaluators c n)"
proof (induction n)
  case 0
  show ?case by (simp add: evaluator_sound_def diverge_def sound_stop)
next
  case (Suc n)
  show ?case using sound_evaluator.sound_step [OF sound_evaluator.intro [OF Suc]] by simp
qed

interpretation evs: sound_evaluator c "evaluators c n" for c n
  by unfold_locales (rule evaluators_sound)

section \<open>Results\<close>

lemma evaluate_internal_keeps:
  assumes "list_all (fits (namespace_width c)) (invocation_args invocation)"
    and "\<And>st. rt = Some st \<Longrightarrow> state_ok st"
    and "evaluate_internal c fuel invocation rt hs = (r, rt', hs')"
  shows "(\<forall>st. rt' = Some st \<longrightarrow> state_ok st) \<and> (rt \<noteq> None \<longrightarrow> rt' \<noteq> None)
       \<and> (\<forall>out v. r = Ok out \<longrightarrow> return_value out = Some v \<longrightarrow> fits (namespace_width c) v)"
proof (cases "method_entry c invocation")
  case (Ok entry)
  obtain code fr where entry: "entry = (code, fr)" by (cases entry)
  have fr: "frame_ok (namespace_width c) 0 fr"
    using Ok entry assms(1) by (auto simp: method_entry_def ok_iff frame_new_ok)
  let ?m = "\<lparr>host_state = hs, runtime = rt, frame = fr\<rparr>"
  have m: "machine_ok (rt \<noteq> None) (namespace_width c) 0 ?m" using fr assms(2) by (simp add: machine_ok_def)
  have s: "sound (machine_ok (rt \<noteq> None) (namespace_width c) 0) (control_fits (namespace_width c)) (call_term_list (evaluators c fuel) code)"
    by (rule sound_calls(1) [OF evaluators_sound]) simp
  obtain q m' where q: "call_term_list (evaluators c fuel) code ?m = (q, m')" by (cases "call_term_list (evaluators c fuel) code ?m")
  have k: "machine_ok (rt \<noteq> None) (namespace_width c) 0 m'" "\<And>ctl. q = Ok ctl \<Longrightarrow> control_fits (namespace_width c) ctl"
    using s m q unfolding sound_def by (metis fst_conv snd_conv)+
  have "r = bind_result q outcome_of" "rt' = runtime m'" using assms(3) Ok entry q by (simp_all add: evaluate_internal_def)
  moreover have "fits (namespace_width c) v" if o: "bind_result q outcome_of = Ok out" and v: "return_value out = Some v" for out v
  proof -
    obtain ctl where "q = Ok ctl" "outcome_of ctl = Ok out" using o by (cases q) auto
    then show ?thesis using k(2) [of ctl] v by (cases ctl) (auto simp: outcome_of_def)
  qed
  ultimately show ?thesis using k(1) by (auto simp: machine_ok_def)
next
  case (Err e)
  then show ?thesis using assms(2,3) by (auto simp: evaluate_internal_def)
qed

text \<open>
  C4. The evaluator keeps its invariant and its integers in range. Running a method whose arguments fit
  the namespace's integer width, with any fuel, host and byte code, leaves the overlay well formed (one
  slot per node, aggregates inside their arrays, still there), also when the run ends with an error; a returned
  integer is below two to the power 32 when the DSDT has revision 0 or 1.
\<close>
theorem evaluation_keeps_invariant:
  assumes "list_all (fits (namespace_width c)) (invocation_args invocation)"
    and "\<And>st. rt = Some st \<Longrightarrow> state_ok st"
    and "evaluate_internal c fuel invocation rt hs = (r, rt', hs')"
  shows "(\<forall>st. rt' = Some st \<longrightarrow> state_ok st) \<and> (rt \<noteq> None \<longrightarrow> rt' \<noteq> None)
       \<and> (\<forall>out v. r = Ok out \<longrightarrow> return_value out = Some v \<longrightarrow> fits (namespace_width c) v)"
  using assms by (rule evaluate_internal_keeps)

text \<open>A run of \<open>Return(One)\<close> with an empty overlay.\<close>

theorem evaluation_keeps_invariant_witness:
  "\<exists>st. evaluate_internal (one_method 2 [0xa4, 0x01]) (Suc (Suc 0)) (call_it []) (Some (state_new [None, None])) ()
       = (Ok \<lparr>return_value = Some (VInteger 1), blocked = False\<rparr>, Some st, ())
     \<and> state_ok st \<and> fits (namespace_width (one_method 2 [0xa4, 0x01])) (VInteger 1)"
proof -
  let ?st = "state_new [None, None]"
  have ok: "state_ok ?st"
    by (simp add: state_ok_def state_new_def slots_inv_def aggregates_wf_def)
  then show ?thesis
    using evaluation_keeps_invariant [OF _ _ return_one, of "Some ?st"] return_one by (auto simp: call_it_def)
qed

end
