(* ===== verification/Aml_Vm_Props.thy ===== *)
theory Aml_Vm_Props
  imports Aml_Vm Aml_Eval_Inv
begin

text \<open>
  What the lifecycle passes do: each is a sequence of method calls given by the namespace, run until one
  fails or blocks; all of them keep the overlay well formed. The hexadecimal names of handlers and
  the codes of events correspond one to one, and the check of a backend reports exactly the
  declarations that the namespace does not meet.
\<close>

section \<open>Handler names\<close>

lemma u8_below: "unat (b :: u8) < k \<Longrightarrow> b \<in> set (map of_nat [0..<k])"
  by (auto intro!: image_eqI [of _ _ "unat b"])

lemma hex_nibble_upper: "n < 16 \<Longrightarrow> hex_nibble (hex_upper n) = Some n"
proof -
  assume "n < 16"
  then have "n \<in> set (map of_nat [0..<16])" by (intro u8_below) (simp add: word_less_nat_alt)
  moreover have "\<forall>n \<in> set (map of_nat [0..<16]). hex_nibble (hex_upper n) = Some n" by code_simp
  ultimately show ?thesis by blast
qed

lemma hex_nibble_iff: "hex_nibble b = Some n \<longleftrightarrow> n < 16 \<and> b = hex_upper n"
proof
  assume h: "hex_nibble b = Some n"
  have "\<forall>b \<in> set (map of_nat [0..<256] :: u8 list). case hex_nibble b of Some n \<Rightarrow> n < 16 \<and> b = hex_upper n | None \<Rightarrow> True"
    by code_simp
  moreover have "b \<in> set (map of_nat [0..<256])"
    using unsigned_less [of b] by (intro u8_below) simp
  ultimately show "n < 16 \<and> b = hex_upper n" using h by fastforce
qed (auto simp: hex_nibble_upper)

lemma nibbles: "drop_bit 4 x < 16 \<and> x AND 0x0f < 16 \<and> push_bit 4 (drop_bit 4 x) OR (x AND 0x0f) = x" for x :: u8
proof -
  have "\<forall>x \<in> set (map of_nat [0..<256] :: u8 list).
      drop_bit 4 x < 16 \<and> x AND 0x0f < 16 \<and> push_bit 4 (drop_bit 4 x) OR (x AND 0x0f) = x"
    by code_simp
  moreover have "x \<in> set (map of_nat [0..<256])"
    using unsigned_less [of x] by (intro u8_below) simp
  ultimately show ?thesis by blast
qed

lemma join_nibbles:
  fixes n k :: u8
  assumes "n < 16" and "k < 16"
  shows "drop_bit 4 (push_bit 4 n OR k) = n \<and> (push_bit 4 n OR k) AND 0x0f = k"
proof -
  have "\<forall>n \<in> set (map of_nat [0..<16] :: u8 list). \<forall>k \<in> set (map of_nat [0..<16] :: u8 list).
      drop_bit 4 (push_bit 4 n OR k) = n \<and> (push_bit 4 n OR k) AND 0x0f = k"
    by code_simp
  moreover have "n \<in> set (map of_nat [0..<16])" "k \<in> set (map of_nat [0..<16])"
    using assms by (auto intro!: u8_below simp: word_less_nat_alt simp del: set_map)
  ultimately show ?thesis by blast
qed

lemma hex_pair_iff:
  "Option.bind (hex_nibble c) (\<lambda>high. Option.bind (hex_nibble d) (\<lambda>low. Some (push_bit 4 high OR low))) = Some code
     \<longleftrightarrow> c = hex_upper (drop_bit 4 code) \<and> d = hex_upper (code AND 0x0f)"
proof
  assume "Option.bind (hex_nibble c) (\<lambda>high. Option.bind (hex_nibble d) (\<lambda>low. Some (push_bit 4 high OR low))) = Some code"
  then obtain n k where "n < 16" "k < 16" "c = hex_upper n" "d = hex_upper k" "push_bit 4 n OR k = code"
    by (auto simp: bind_eq_Some_conv hex_nibble_iff)
  then show "c = hex_upper (drop_bit 4 code) \<and> d = hex_upper (code AND 0x0f)"
    using join_nibbles [of n k] by auto
next
  assume "c = hex_upper (drop_bit 4 code) \<and> d = hex_upper (code AND 0x0f)"
  then show "Option.bind (hex_nibble c) (\<lambda>high. Option.bind (hex_nibble d) (\<lambda>low. Some (push_bit 4 high OR low))) = Some code"
    using nibbles [of code] by (simp add: hex_nibble_upper)
qed

lemma suffix_code_iff:
  "method_suffix_code (Some (AmlNameSeg [a, b, c, d])) (x, y) = Some code
     \<longleftrightarrow> [a, b, c, d] = [x, y, hex_upper (drop_bit 4 code), hex_upper (code AND 0x0f)]"
  by (auto simp: method_suffix_code_def hex_pair_iff Let_def)

text \<open>
  Codes and handler names correspond one to one. A name of four bytes is taken for the handler of a
  query code, a level event or an edge event exactly when it is the name that the routing table
  is searched for: the prefix and the two upper-case hexadecimal digits of the code.
\<close>
theorem handler_names_roundtrip:
  "(method_suffix_code (Some (AmlNameSeg [a, b, c, d])) (0x5f, 0x51) = Some code
      \<longleftrightarrow> [a, b, c, d] = query_handler_suffix code)
   \<and> (method_suffix_code (Some (AmlNameSeg [a, b, c, d])) (event_prefix kind) = Some code
      \<longleftrightarrow> [a, b, c, d] = event_handler_suffix kind code)"
  by (cases kind) (simp_all add: suffix_code_iff query_handler_suffix_def event_handler_suffix_def event_prefix_def)

section \<open>Passes as sequences of calls\<close>

text \<open>Calls of methods with their arguments, in order, until one fails or blocks: how many were made, and whether the last blocked.\<close>

fun run_calls ::
  "AmlLoadedNamespace \<Rightarrow> 'h AmlRegionAccessHost \<Rightarrow> nat \<Rightarrow> (AmlNamespaceNodeId \<times> AmlValue list) list
     \<Rightarrow> (nat \<times> bool, 'h vm_world) run" where
  "run_calls ns h fuel [] = rret (0, False)"
| "run_calls ns h fuel ((node, vs) # calls) =
     rbind (vm_evaluate ns h fuel node vs) (\<lambda>outcome.
       if blocked outcome then rret (1, True)
       else rbind (run_calls ns h fuel calls) (\<lambda>(n, b). rret (Suc n, b)))"

text \<open>A counter that saturates.\<close>

definition sat16 :: "nat \<Rightarrow> 16 word" where
  "sat16 n = of_nat (min n 65535)"

lemma sat16_simps [simp]: "sat16 0 = 0" "saturating_inc (sat16 n) = sat16 (Suc n)" "sat16 n = 0 \<longleftrightarrow> n = 0"
proof -
  have u: "unat (sat16 n) = min n 65535" by (simp add: sat16_def unat_of_nat)
  have "(- 1 :: 16 word) = 65535" by simp
  then have m: "sat16 n = - 1 \<longleftrightarrow> 65535 \<le> n"
    using u by (auto simp: word_unat_eq_iff)
  show "saturating_inc (sat16 n) = sat16 (Suc n)"
  proof (cases "65535 \<le> n")
    case True
    then show ?thesis using m by (simp add: saturating_inc_def sat16_def min_def)
  next
    case False
    then show ?thesis using m by (simp add: saturating_inc_def sat16_def min_def)
  qed
  show "sat16 n = 0 \<longleftrightarrow> n = 0" using u by (auto simp: word_unat_eq_iff)
qed (simp add: sat16_def)

lemma saturating_inc_0 [simp]: "saturating_inc 0 = 1"
  by (simp add: saturating_inc_def)

definition with_vm_state :: "AmlVmState \<Rightarrow> 'h vm_world \<Rightarrow> 'h vm_world" where
  "with_vm_state s w = w\<lparr>world_vm := (world_vm w)\<lparr>vm_state := s\<rparr>\<rparr>"

lemma run_steps [simp]:
  "set_vm_state s w = (Ok (), with_vm_state s w)" "get_world w = (Ok w, w)" "rret x w = (Ok x, w)" "rfail e w = (Err (Fail e), w)"
  by (simp_all add: set_vm_state_def with_vm_state_def get_world_def rret_def rfail_def rlift_def)

lemma rbind_step: "rbind f g w = (case f w of (Ok x, w') \<Rightarrow> g x w' | (Err e, w') \<Rightarrow> (Err e, w'))"
  by (simp add: rbind_def)

lemma run_calls_append:
  "run_calls ns h fuel (xs @ ys) =
     rbind (run_calls ns h fuel xs) (\<lambda>(n, b).
       if b then rret (n, True) else rbind (run_calls ns h fuel ys) (\<lambda>(k, b'). rret (n + k, b')))"
proof (induction xs)
  case Nil
  show ?case by (rule ext) (simp add: rbind_step split: prod.splits result.splits)
next
  case (Cons x xs)
  obtain node vs where x: "x = (node, vs)" by (cases x)
  show ?case by (rule ext) (simp add: x Cons.IH rbind_step split: prod.splits result.splits)
qed

lemma run_calls_all: "run_calls ns h fuel cs w = (Ok (n, False), w') \<Longrightarrow> n = length cs"
proof (induction cs arbitrary: w n)
  case (Cons c cs)
  obtain node vs where c: "c = (node, vs)" by (cases c)
  show ?case using Cons.prems Cons.IH by (auto simp: c rbind_step split: prod.splits result.splits if_splits)
qed simp

subsection \<open>Registering regions\<close>

text \<open>The address spaces of the regions beside a method, each once, in the order of their first region.\<close>

definition sibling_spaces :: "AmlNamespaceNodeId option \<Rightarrow> AmlNamespaceLoadRecord list \<Rightarrow> AmlAddressSpaceId list" where
  "sibling_spaces parent rs =
     concat (map (\<lambda>r. case payload r of
        PayloadOpRegion region \<Rightarrow> if node_parent (descriptor r) = parent then [region_space region] else []
      | _ \<Rightarrow> []) rs)"

definition each_once :: "'a list \<Rightarrow> 'a list" where
  "each_once xs = rev (remdups (rev xs))"

fun fresh :: "'a list \<Rightarrow> 'a list \<Rightarrow> 'a list" where
  "fresh seen [] = []"
| "fresh seen (x # xs) = (if x \<in> set seen then fresh seen xs else x # fresh (seen @ [x]) xs)"

lemma fresh_snoc: "fresh seen (xs @ [x]) = fresh seen xs @ (if x \<in> set seen \<union> set xs then [] else [x])"
  by (induction xs arbitrary: seen) auto

lemma fresh_each_once: "fresh [] xs = each_once xs"
  by (induction xs rule: rev_induct) (auto simp: each_once_def fresh_snoc)

definition reg_call :: "AmlMethodDescriptor \<Rightarrow> AmlAddressSpaceId \<Rightarrow> AmlNamespaceNodeId \<times> AmlValue list" where
  "reg_call method space = (method_node method, [VInteger (address_space_argument space), VInteger 1])"

lemma run_calls_reg:
  "run_calls ns h fuel (reg_call method space # calls) =
     rbind (vm_evaluate ns h fuel (method_node method) [VInteger (address_space_argument space), VInteger 1]) (\<lambda>outcome.
       if blocked outcome then rret (1, True)
       else rbind (run_calls ns h fuel calls) (\<lambda>(n, b). rret (Suc n, b)))"
  by (simp add: reg_call_def)

abbreviation started :: "nat \<Rightarrow> 16 word \<Rightarrow> AmlVmLifecycleReport" where
  "started n s \<equiv> \<lparr>lr_invoked = sat16 n, lr_skipped = s, lr_blocked = 0\<rparr>"

abbreviation counts :: "nat \<Rightarrow> 16 word \<Rightarrow> bool \<Rightarrow> AmlVmLifecycleReport" where
  "counts n s b \<equiv> \<lparr>lr_invoked = sat16 n, lr_skipped = s, lr_blocked = of_bool b\<rparr>"

text \<open>
  The storage for the spaces seen by a method has 16 entries: the calls for as many spaces are made, and
  the next space ends the pass with an overflow.
\<close>

lemma register_siblings_calls:
  assumes "length seen \<le> 16"
  shows "register_siblings ns h fuel method parent rs seen (started i s) w =
    (case run_calls ns h fuel (map (reg_call method) (take (16 - length seen) (fresh seen (sibling_spaces parent rs)))) w of
       (Ok (n, b), w') \<Rightarrow>
         if \<not> b \<and> 16 < length seen + length (fresh seen (sibling_spaces parent rs)) then (Err (Fail overflow), w')
         else (Ok (b, seen @ take n (fresh seen (sibling_spaces parent rs)), counts (i + n) s b),
               if b then with_vm_state VmBlocked w' else w')
     | (Err e, w') \<Rightarrow> (Err e, w'))"
  using assms
proof (induction rs arbitrary: seen i w)
  case (Cons r rs)
  show ?case
  proof (cases "\<exists>region. payload r = PayloadOpRegion region \<and> node_parent (descriptor r) = parent \<and> region_space region \<notin> set seen")
    case True
    then obtain region where r: "payload r = PayloadOpRegion region" "node_parent (descriptor r) = parent"
      "region_space region \<notin> set seen" by blast
    let ?seen = "seen @ [region_space region]"
    have sp: "sibling_spaces parent (r # rs) = region_space region # sibling_spaces parent rs"
      using r by (simp add: sibling_spaces_def)
    show ?thesis
    proof (cases "length seen = 16")
      case False
      then have l: "length ?seen \<le> 16" "16 - length seen = Suc (16 - length ?seen)" using Cons.prems by auto
      note ih = Cons.IH [OF l(1)]
      show ?thesis using r False Cons.prems
        by (simp add: sp ih l(2) run_calls_reg rbind_step Let_def del: length_append split: prod.splits result.splits) simp
    qed (use r in \<open>simp add: sp\<close>)
  next
    case False
    then have same: "fresh seen (sibling_spaces parent (r # rs)) = fresh seen (sibling_spaces parent rs)"
      "register_siblings ns h fuel method parent (r # rs) seen (started i s) w
         = register_siblings ns h fuel method parent rs seen (started i s) w"
      by (auto simp: sibling_spaces_def split: AmlNamespaceNodePayload.splits)
    then show ?thesis unfolding same using Cons.IH [of seen i w] Cons.prems by (simp only: same)
  qed
qed (simp add: sibling_spaces_def)

text \<open>The calls of the whole pass, and the methods that have no region beside them.\<close>

definition reg_calls :: "AmlNamespaceLoadRecord list \<Rightarrow> AmlNamespaceLoadRecord \<Rightarrow> (AmlNamespaceNodeId \<times> AmlValue list) list" where
  "reg_calls all r = (case payload r of
      PayloadMethod method \<Rightarrow>
        if method_kind method = RegionAvailability
        then map (reg_call method) (each_once (sibling_spaces (node_parent (descriptor r)) all)) else []
    | _ \<Rightarrow> [])"

definition is_reg :: "AmlNamespaceLoadRecord \<Rightarrow> bool" where
  "is_reg r = (case payload r of PayloadMethod method \<Rightarrow> method_kind method = RegionAvailability | _ \<Rightarrow> False)"

definition lonely_regs :: "AmlNamespaceLoadRecord list \<Rightarrow> AmlNamespaceLoadRecord list \<Rightarrow> nat" where
  "lonely_regs all rs = length (filter (\<lambda>r. is_reg r \<and> reg_calls all r = []) rs)"

text \<open>
  The calls the pass sets out to make, and whether it ends in an overflow: the first method with more
  than 16 spaces gets the first 16 of its calls, and nothing follows.
\<close>

fun reg_plan :: "AmlNamespaceLoadRecord list \<Rightarrow> AmlNamespaceLoadRecord list \<Rightarrow> (AmlNamespaceNodeId \<times> AmlValue list) list \<times> bool" where
  "reg_plan all [] = ([], False)"
| "reg_plan all (r # rs) =
     (if length (reg_calls all r) \<le> 16
      then (reg_calls all r @ fst (reg_plan all rs), snd (reg_plan all rs))
      else (take 16 (reg_calls all r), True))"

lemma not_reg:
  assumes "\<not> is_reg r"
  shows "reg_calls all r = []" "register_methods ns h fuel (r # rs) report = register_methods ns h fuel rs report"
  using assms by (auto simp: is_reg_def reg_calls_def split: AmlNamespaceNodePayload.splits)

lemma register_reg:
  assumes "is_reg r"
  shows "register_methods ns h fuel (r # rs) (started i (sat16 k)) w =
    (case run_calls ns h fuel (take 16 (reg_calls (records ns) r)) w of
       (Ok (n, b), w') \<Rightarrow>
         if b then (Ok (counts (i + n) (sat16 k) True), with_vm_state VmBlocked w')
         else if 16 < length (reg_calls (records ns) r) then (Err (Fail overflow), w')
         else register_methods ns h fuel rs
           (started (i + n) (sat16 (if reg_calls (records ns) r = [] then Suc k else k))) w'
     | (Err e, w') \<Rightarrow> (Err e, w'))"
proof -
  obtain mth where m: "payload r = PayloadMethod mth" "method_kind mth = RegionAvailability"
    using assms(1) by (auto simp: is_reg_def split: AmlNamespaceNodePayload.splits)
  let ?sp = "each_once (sibling_spaces (node_parent (descriptor r)) (records ns))"
  have calls: "reg_calls (records ns) r = map (reg_call mth) ?sp" using m by (simp add: reg_calls_def)
  note sib = register_siblings_calls [of "[]" ns h fuel mth "node_parent (descriptor r)" "records ns" i "sat16 k" w,
      unfolded fresh_each_once]
  obtain q w1 where q: "run_calls ns h fuel (map (reg_call mth) (take 16 ?sp)) w = (q, w1)" by fastforce
  show ?thesis
  proof (cases q)
    case (Ok x)
    obtain n b where x: "x = (n, b)" by (cases x)
    have "n = min (length ?sp) 16" if "\<not> b" using that run_calls_all q Ok x by fastforce
    then show ?thesis using m sib q Ok x
      by (cases b; cases "?sp = []"; cases "16 < length ?sp") (simp_all add: calls take_map rbind_step)
  next
    case (Err e)
    then show ?thesis using m sib q by (simp add: calls take_map rbind_step)
  qed
qed

lemma register_methods_calls:
  "\<exists>s. register_methods ns h fuel rs (started i (sat16 k)) w =
      (case run_calls ns h fuel (fst (reg_plan (records ns) rs)) w of
         (Ok (n, b), w') \<Rightarrow>
           if \<not> b \<and> snd (reg_plan (records ns) rs) then (Err (Fail overflow), w')
           else (Ok (counts (i + n) s b), with_vm_state (if b then VmBlocked else VmReady) w')
       | (Err e, w') \<Rightarrow> (Err e, w'))
    \<and> (\<forall>n w'. run_calls ns h fuel (fst (reg_plan (records ns) rs)) w = (Ok (n, False), w') \<longrightarrow>
         \<not> snd (reg_plan (records ns) rs) \<longrightarrow> s = sat16 (k + lonely_regs (records ns) rs))"
proof (induction rs arbitrary: i k w)
  case Nil
  show ?case by (simp add: rbind_step lonely_regs_def)
next
  case (Cons r rs)
  let ?all = "records ns"
  show ?case
  proof (cases "is_reg r")
    case False
    have same: "lonely_regs ?all (r # rs) = lonely_regs ?all rs" "reg_plan ?all (r # rs) = reg_plan ?all rs"
      using False not_reg(1) [OF False] by (simp_all add: lonely_regs_def)
    show ?thesis using Cons.IH [of i k w] unfolding same not_reg(2) [OF False] .
  next
    case True
    let ?k = "if reg_calls ?all r = [] then Suc k else k"
    have k: "k + lonely_regs ?all (r # rs) = ?k + lonely_regs ?all rs" using True by (simp add: lonely_regs_def)
    obtain q w1 where q: "run_calls ns h fuel (take 16 (reg_calls ?all r)) w = (q, w1)" by fastforce
    show ?thesis
    proof (cases "length (reg_calls ?all r) \<le> 16")
      case few: True
      obtain q2 w2 where q2: "run_calls ns h fuel (fst (reg_plan ?all rs)) w1 = (q2, w2)" by fastforce
      show ?thesis
      proof (cases q)
        case (Ok x)
        obtain n b where x: "x = (n, b)" by (cases x)
        show ?thesis
          using Cons.IH [of "i + n" ?k w1] q Ok x q2 few
          unfolding k register_reg [OF True]
          by (cases b; cases q2) (auto simp: run_calls_append rbind_step add.assoc)
      next
        case (Err e)
        then show ?thesis using q few unfolding register_reg [OF True] by (simp add: run_calls_append rbind_step)
      qed
    next
      case False
      then show ?thesis using q unfolding register_reg [OF True]
        by (cases q) (auto split: prod.splits)
    qed
  qed
qed

text \<open>The argument of a call is the byte of the declaration that the loader read the space from.\<close>

lemma address_space_argument_byte: "address_space_argument (map_address_space v) = ucast v"
  by (simp add: map_address_space_def address_space_argument_def)

text \<open>
  C28. Registering regions calls every \<open>_REG\<close> method once for every address space that has a region beside
  it, in the order of the records, until a call fails or blocks, with the ACPI number of the space and
  1 as arguments. The report counts the calls, the machine is ready afterwards, or blocked when the
  last call blocked; without a block the skipped methods are those with no region beside them. With
  \<open>eager_region_registration\<close> off no call is made; a method with more than 16 spaces beside it gets the
  calls for the first 16, and the pass then ends with an overflow (\<open>reg_plan\<close>).
\<close>
theorem register_regions_calls:
  "(\<not> eager_region_registration (vm_config (world_vm w)) \<longrightarrow>
      register_regions ns h fuel w = (Ok (counts 0 0 False), with_vm_state VmLoaded w))
   \<and> (eager_region_registration (vm_config (world_vm w)) \<longrightarrow>
      (\<exists>s. register_regions ns h fuel w =
          (case run_calls ns h fuel (fst (reg_plan (records ns) (records ns))) (with_vm_state VmLoaded w) of
             (Ok (n, b), w') \<Rightarrow>
               if \<not> b \<and> snd (reg_plan (records ns) (records ns)) then (Err (Fail overflow), w')
               else (Ok (counts n s b), with_vm_state (if b then VmBlocked else VmReady) w')
           | (Err e, w') \<Rightarrow> (Err e, w'))
        \<and> (\<forall>n w'. run_calls ns h fuel (fst (reg_plan (records ns) (records ns))) (with_vm_state VmLoaded w) = (Ok (n, False), w')
             \<longrightarrow> \<not> snd (reg_plan (records ns) (records ns)) \<longrightarrow> s = sat16 (lonely_regs (records ns) (records ns)))))
   \<and> address_space_argument (map_address_space v) = ucast v"
proof (intro conjI impI address_space_argument_byte)
  assume "eager_region_registration (vm_config (world_vm w))"
  then have r: "register_regions ns h fuel w = register_methods ns h fuel (records ns) (started 0 (sat16 0)) (with_vm_state VmLoaded w)"
    by (simp add: register_regions_def rbind_step with_vm_state_def empty_report_def)
  show "\<exists>s. register_regions ns h fuel w =
      (case run_calls ns h fuel (fst (reg_plan (records ns) (records ns))) (with_vm_state VmLoaded w) of
         (Ok (n, b), w') \<Rightarrow>
           if \<not> b \<and> snd (reg_plan (records ns) (records ns)) then (Err (Fail overflow), w')
           else (Ok (counts n s b), with_vm_state (if b then VmBlocked else VmReady) w')
       | (Err e, w') \<Rightarrow> (Err e, w'))
    \<and> (\<forall>n w'. run_calls ns h fuel (fst (reg_plan (records ns) (records ns))) (with_vm_state VmLoaded w) = (Ok (n, False), w')
         \<longrightarrow> \<not> snd (reg_plan (records ns) (records ns)) \<longrightarrow> s = sat16 (lonely_regs (records ns) (records ns)))"
    using register_methods_calls [of ns h fuel "records ns" 0 0 "with_vm_state VmLoaded w"]
    unfolding r add_0_left .
qed (simp add: register_regions_def rbind_step with_vm_state_def empty_report_def)

subsection \<open>Dispatching handlers\<close>

definition handler_calls :: "AmlMethodKind \<Rightarrow> bytes \<Rightarrow> AmlNamespaceLoadRecord list \<Rightarrow> (AmlNamespaceNodeId \<times> AmlValue list) list" where
  "handler_calls kind name rs =
     concat (map (\<lambda>r. case payload r of
        PayloadMethod method \<Rightarrow>
          if method_kind method = kind \<and> map_option seg_bytes (last_segment (node_path (descriptor r))) = Some name
          then [(method_node method, [])] else []
      | _ \<Rightarrow> []) rs)"

text \<open>Names have four bytes.\<close>

definition names_sized :: "AmlNamespaceLoadRecord list \<Rightarrow> bool" where
  "names_sized rs = list_all (\<lambda>r. case last_segment (node_path (descriptor r)) of
      Some seg \<Rightarrow> length (seg_bytes seg) = 4 | None \<Rightarrow> True) rs"

lemma suffix_of_segment:
  assumes "length (seg_bytes seg) = 4"
  shows "method_suffix_code (Some seg) (x, y) = Some code
     \<longleftrightarrow> seg_bytes seg = [x, y, hex_upper (drop_bit 4 code), hex_upper (code AND 0x0f)]"
proof -
  obtain a b c d where "seg_bytes seg = [a, b, c, d]"
    using assms by (auto simp: numeral_eq_Suc length_Suc_conv)
  then have "seg = AmlNameSeg [a, b, c, d]" by (cases seg) simp
  then show ?thesis by (simp add: suffix_code_iff)
qed

lemma dispatch_methods_calls:
  assumes "names_sized rs"
  shows "dispatch_methods ns h fuel kind (x, y) code rs \<lparr>hr_invoked = sat16 i, hr_blocked = 0, hr_missing = 0\<rparr> w =
    (case run_calls ns h fuel (handler_calls kind [x, y, hex_upper (drop_bit 4 code), hex_upper (code AND 0x0f)] rs) w of
       (Ok (n, b), w') \<Rightarrow>
         (Ok \<lparr>hr_invoked = sat16 (i + n), hr_blocked = of_bool b, hr_missing = of_bool (i + n = 0)\<rparr>,
          with_vm_state (if b then VmBlocked else VmReady) w')
     | (Err e, w') \<Rightarrow> (Err e, w'))"
  using assms
proof (induction rs arbitrary: i w)
  case Nil
  show ?case by (simp add: handler_calls_def rbind_step)
next
  case (Cons r rs)
  let ?name = "[x, y, hex_upper (drop_bit 4 code), hex_upper (code AND 0x0f)]"
  have n: "names_sized rs" using Cons.prems by (simp add: names_sized_def)
  have hit: "method_suffix_code (last_segment (node_path (descriptor r))) (x, y) = Some code
      \<longleftrightarrow> map_option seg_bytes (last_segment (node_path (descriptor r))) = Some ?name"
    using Cons.prems suffix_of_segment
    by (cases "last_segment (node_path (descriptor r))") (auto simp: names_sized_def method_suffix_code_def)
  show ?case
  proof (cases "handler_calls kind ?name [r] = []")
    case True
    then have "handler_calls kind ?name (r # rs) = handler_calls kind ?name rs"
      "dispatch_methods ns h fuel kind (x, y) code (r # rs) \<lparr>hr_invoked = sat16 i, hr_blocked = 0, hr_missing = 0\<rparr> w
       = dispatch_methods ns h fuel kind (x, y) code rs \<lparr>hr_invoked = sat16 i, hr_blocked = 0, hr_missing = 0\<rparr> w"
      using hit by (auto simp: handler_calls_def split: AmlNamespaceNodePayload.splits if_splits)
    then show ?thesis using Cons.IH [OF n, of i w] by simp
  next
    case False
    then obtain mth where m: "payload r = PayloadMethod mth" "method_kind mth = kind"
      "map_option seg_bytes (last_segment (node_path (descriptor r))) = Some ?name"
      by (auto simp: handler_calls_def split: AmlNamespaceNodePayload.splits if_splits)
    have c: "handler_calls kind ?name (r # rs) = (method_node mth, []) # handler_calls kind ?name rs"
      using m by (simp add: handler_calls_def)
    show ?thesis unfolding c using m hit Cons.IH [OF n, of "Suc i"]
      by (simp add: rbind_step Let_def split: prod.splits result.splits)
  qed
qed


text \<open>
  C29. An event runs exactly its handlers. A query or event code calls, in the order of the records, the
  methods of the right kind whose name is the code's handler name, until a call fails or blocks;
  the report counts the calls and says when there was none.
\<close>
theorem dispatch_calls_handlers:
  assumes "names_sized (records ns)"
  shows "dispatch_notification_query ns h fuel code w =
      (case run_calls ns h fuel (handler_calls NotificationQuery (query_handler_suffix code) (records ns)) w of
         (Ok (n, b), w') \<Rightarrow> (Ok \<lparr>hr_invoked = sat16 n, hr_blocked = of_bool b, hr_missing = of_bool (n = 0)\<rparr>,
             with_vm_state (if b then VmBlocked else VmReady) w')
       | (Err e, w') \<Rightarrow> (Err e, w'))
    \<and> dispatch_event_handler ns h fuel kind code w =
      (case run_calls ns h fuel (handler_calls EventHandler (event_handler_suffix kind code) (records ns)) w of
         (Ok (n, b), w') \<Rightarrow> (Ok \<lparr>hr_invoked = sat16 n, hr_blocked = of_bool b, hr_missing = of_bool (n = 0)\<rparr>,
             with_vm_state (if b then VmBlocked else VmReady) w')
       | (Err e, w') \<Rightarrow> (Err e, w'))"
  using dispatch_methods_calls [OF assms, of ns h fuel _ _ _ code 0 w, unfolded add_0_left]
  by (cases kind) (simp_all add: dispatch_notification_query_def dispatch_event_handler_def dispatch_handler_kind_def
      event_prefix_def query_handler_suffix_def event_handler_suffix_def)

section \<open>The overlay\<close>

abbreviation world_ok :: "'h vm_world \<Rightarrow> bool" where
  "world_ok w \<equiv> state_ok (world_runtime w)"

lemma fits_small: "i < 2 ^ 32 \<Longrightarrow> fits w (VInteger i)"
  by (simp add: fits_def)

lemma address_space_small: "address_space_argument space < 2 ^ 32"
proof -
  have "unat v < 256" for v :: u8 using unsigned_less [of v] by simp
  then have "unat (ucast (v :: u8) :: 64 word) < 2 ^ 32" for v
    using le_less_trans [OF take_bit_nat_less_eq_self, of "unat v" "2 ^ 32" 64]
    by (simp add: unsigned_ucast_eq less_trans [of _ 256])
  then have "(ucast (v :: u8) :: 64 word) < 2 ^ 32" for v by (simp add: word_less_nat_alt)
  then show ?thesis by (cases space) (simp_all add: address_space_argument_def)
qed

lemma sound_vm_evaluate:
  assumes "\<And>w. list_all (fits w) vs"
  shows "sound world_ok (\<lambda>_. True) (vm_evaluate ns h fuel node vs)"
  unfolding sound_def
proof (intro allI impI)
  fix w :: "'a vm_world" assume ok: "world_ok w"
  let ?c = "\<lparr>ev_namespace = ns, ev_host = Some h\<rparr>" and ?i = "\<lparr>invoked_method = node, invocation_args = vs\<rparr>"
  obtain r st hs where e: "evaluate_internal ?c fuel ?i (Some (world_runtime w)) (world_host w) = (r, st, hs)"
    by (rule prod_cases3)
  have "list_all (fits (namespace_width ?c)) (invocation_args ?i)" using assms by simp
  from evaluate_internal_keeps [OF this _ e] ok have "st \<noteq> None" "\<And>x. st = Some x \<Longrightarrow> state_ok x" by auto
  then show "world_ok (snd (vm_evaluate ns h fuel node vs w)) \<and> (\<forall>x. fst (vm_evaluate ns h fuel node vs w) = Ok x \<longrightarrow> True)"
    using e by (auto simp: vm_evaluate_def evaluate_with_host_and_state_def)
qed

lemma sound_vm_calls:
  "(\<And>x. sound world_ok R (g x)) \<Longrightarrow> sound world_ok R (rbind (vm_evaluate ns h fuel node []) g)"
  "(\<And>x. sound world_ok R (g x)) \<Longrightarrow>
     sound world_ok R (rbind (vm_evaluate ns h fuel node [VInteger (address_space_argument space), VInteger 1]) g)"
  "sound world_ok R (k ()) \<Longrightarrow> sound world_ok R (rbind (set_vm_state s) k)"
  "(\<And>w. sound world_ok R (j w)) \<Longrightarrow> sound world_ok R (rbind get_world j)"
proof -
  have e: "sound world_ok (\<lambda>_. True) (vm_evaluate ns h fuel node [])"
    "sound world_ok (\<lambda>_. True) (vm_evaluate ns h fuel node [VInteger (address_space_argument space), VInteger 1])"
    "sound world_ok (\<lambda>_. True) (set_vm_state s)" "sound world_ok (\<lambda>_. True) get_world"
    using fits_small [OF address_space_small] fits_small [of 1]
    by (auto intro!: sound_vm_evaluate) (simp_all add: sound_def with_vm_state_def)
  show "(\<And>x. sound world_ok R (g x)) \<Longrightarrow> sound world_ok R (rbind (vm_evaluate ns h fuel node []) g)"
    "(\<And>x. sound world_ok R (g x)) \<Longrightarrow>
      sound world_ok R (rbind (vm_evaluate ns h fuel node [VInteger (address_space_argument space), VInteger 1]) g)"
    "sound world_ok R (k ()) \<Longrightarrow> sound world_ok R (rbind (set_vm_state s) k)"
    "(\<And>w. sound world_ok R (j w)) \<Longrightarrow> sound world_ok R (rbind get_world j)"
    using sound_bind [OF e(1), of R g] sound_bind [OF e(2), of R g] sound_bind [OF e(3), of R k] sound_bind [OF e(4), of R j]
    by auto
qed

lemma sound_outcome: "R x \<Longrightarrow> sound I R (Pair (Ok x))" "sound I R (Pair (Err e))"
  by (simp_all add: sound_def)

lemmas vm_sound = sound_outcome sound_vm_calls sound_ret sound_stop sound_cases sound_bind_lift

lemma sound_passes:
  "sound world_ok (\<lambda>_. True) (register_siblings ns h fuel method parent rs seen report)"
  "sound world_ok (\<lambda>_. True) (initializer_loop ns h fuel p rs)"
  "sound world_ok (\<lambda>_. True) (dispatch_methods ns h fuel kind prefix code rs hreport)"
proof -
  show "sound world_ok (\<lambda>_. True) (register_siblings ns h fuel method parent rs seen report)"
    by (induction rs arbitrary: seen report)
      (auto intro!: vm_sound simp: Let_def split: AmlNamespaceNodePayload.splits)
  show "sound world_ok (\<lambda>_. True) (initializer_loop ns h fuel p rs)"
    by (induction rs) (auto intro!: vm_sound split: AmlNamespaceNodePayload.splits)
  show "sound world_ok (\<lambda>_. True) (dispatch_methods ns h fuel kind prefix code rs hreport)"
    by (induction rs arbitrary: hreport) (auto intro!: vm_sound simp: Let_def split: AmlNamespaceNodePayload.splits)
qed

lemma sound_methods:
  "sound world_ok (\<lambda>_. True) (register_methods ns h fuel rs report)"
  "sound world_ok (\<lambda>_. True) (initialize_methods ns h fuel rs report)"
proof -
  have s: "sound world_ok (\<lambda>_. True) (should_run_initializer ns h fuel p)" for p
    by (auto simp: should_run_initializer_def intro!: vm_sound sound_passes split: option.splits)
  show "sound world_ok (\<lambda>_. True) (register_methods ns h fuel rs report)"
    by (induction rs arbitrary: report)
      (auto intro!: vm_sound sound_bind [OF sound_passes(1)] split: AmlNamespaceNodePayload.splits)
  show "sound world_ok (\<lambda>_. True) (initialize_methods ns h fuel rs report)"
    by (induction rs arbitrary: report)
      (auto intro!: vm_sound sound_bind [OF s] simp: Let_def
        split: AmlNamespaceNodePayload.splits AmlInitializerDecision.splits)
qed


text \<open>What a pass over the initialisers leaves: a clean report and a ready machine, or one block and a blocked machine.\<close>

definition settled :: "AmlVmLifecycleReport \<Rightarrow> AmlVmState \<Rightarrow> bool" where
  "settled report s \<longleftrightarrow> (lifecycle_is_clean report \<and> s = VmReady) \<or> (lr_blocked report = 1 \<and> s = VmBlocked)"

lemma initialize_settles:
  "lr_blocked report = 0 \<Longrightarrow> initialize_methods ns h fuel rs report w = (Ok report', w') \<Longrightarrow>
     settled report' (vm_state (world_vm w'))"
proof (induction rs arbitrary: report w)
  case Nil
  then show ?case by (auto simp: rbind_step settled_def lifecycle_is_clean_def with_vm_state_def)
next
  case (Cons r rs)
  have blocked: "lr_blocked q = 1 \<Longrightarrow> settled q VmBlocked" for q by (simp add: settled_def)
  show ?case using Cons.prems
    by (auto simp: rbind_step Let_def with_vm_state_def blocked dest!: Cons.IH [rotated]
        split: AmlNamespaceNodePayload.splits if_splits prod.splits result.splits AmlInitializerDecision.splits)
qed

lemma sound_register_regions: "sound world_ok (\<lambda>_. True) (register_regions ns h fuel)"
  unfolding register_regions_def by (intro vm_sound sound_methods TrueI)

lemma sound_initialize_devices: "sound world_ok (\<lambda>_. True) (initialize_devices ns h fuel)"
  unfolding initialize_devices_def
proof (intro sound_vm_calls(4))
  fix v :: "'a vm_world"
  have "sound world_ok (\<lambda>_. True) (if vm_state (world_vm v) = VmEmpty then set_vm_state VmLoaded else rret ())"
    by (simp add: sound_def with_vm_state_def)
  then show "sound world_ok (\<lambda>_. True)
      (rbind (if vm_state (world_vm v) = VmEmpty then set_vm_state VmLoaded else rret ())
        (\<lambda>_. initialize_methods ns h fuel (records ns) empty_report))"
    by (rule sound_bind) (rule sound_methods)
qed

lemma initialize_devices_settles:
  "initialize_devices ns h fuel w = (Ok report, w') \<Longrightarrow> settled report (vm_state (world_vm w'))"
  using initialize_settles [of empty_report ns h fuel "records ns"]
  by (auto simp: initialize_devices_def rbind_step empty_report_def split: prod.splits result.splits)

text \<open>
  The passes of the machine keep the overlay well formed, whatever the methods do and however the
  pass ends. After a pass over the initialisers that returns, the machine is ready and the report
  clean, or it is blocked and the report says so.
\<close>
theorem vm_passes_keep_overlay:
  assumes "state_ok (world_runtime w)"
  shows "state_ok (world_runtime (snd (register_regions ns h fuel w)))
    \<and> state_ok (world_runtime (snd (initialize_devices ns h fuel w)))
    \<and> state_ok (world_runtime (snd (dispatch_backend_notification_query B provider ns h fuel code w)))
    \<and> state_ok (world_runtime (snd (dispatch_backend_event_handler B provider ns h fuel kind code w)))
    \<and> (case initialize_devices ns h fuel w of
         (Ok report, w') \<Rightarrow> settled report (vm_state (world_vm w'))
       | (Err e, w') \<Rightarrow> True)"
proof -
  note sound_register_regions sound_initialize_devices
  moreover have "sound world_ok (\<lambda>_. True) (dispatch_backend_notification_query B provider ns h fuel code)"
    by (auto simp: dispatch_backend_notification_query_def dispatch_notification_query_def dispatch_handler_kind_def
        intro!: vm_sound sound_passes split: option.splits AcpiAmlLoweringKind.splits)
  moreover have "sound world_ok (\<lambda>_. True) (dispatch_backend_event_handler B provider ns h fuel kind code)"
    by (auto simp: dispatch_backend_event_handler_def dispatch_event_handler_def dispatch_handler_kind_def
        intro!: vm_sound sound_passes split: option.splits AcpiAmlLoweringKind.splits)
  moreover have "case initialize_devices ns h fuel w of (Ok report, w') \<Rightarrow> settled report (vm_state (world_vm w')) | (Err e, w') \<Rightarrow> True"
    by (auto split: prod.splits result.splits dest: initialize_devices_settles)
  ultimately show ?thesis using assms unfolding sound_def by blast
qed

section \<open>Checking a backend\<close>

definition meets_typed :: "AmlLoadedNamespace \<Rightarrow> AmlObjectKind \<Rightarrow> bytes \<Rightarrow> bool" where
  "meets_typed ns kind text \<longleftrightarrow>
     (\<exists>p r. parse_text text = Ok p \<and> record_by_path ns p = Some r \<and> node_kind (descriptor r) = kind)"

text \<open>
  The number that ACPI gives the address space of a declaration. A region matches when its space is the
  one the loader records for the byte with that number.
\<close>

fun space_number :: "AcpiAmlAddressSpaceKind \<Rightarrow> u8" where
  "space_number BkSystemMemory = 0" | "space_number BkSystemIo = 1" | "space_number BkPciConfig = 2"
| "space_number BkEmbeddedControl = 3" | "space_number BkSmBus = 4" | "space_number BkGpio = 8"
| "space_number BkGenericSerialBus = 9" | "space_number (BkOther v) = v"

definition meets_region :: "AmlLoadedNamespace \<Rightarrow> AcpiAmlOpRegionDescriptor \<Rightarrow> bool" where
  "meets_region ns d \<longleftrightarrow>
     (\<exists>p r region. parse_text (bk_region_path d) = Ok p \<and> record_by_path ns p = Some r \<and> node_kind (descriptor r) = KOpRegion
        \<and> payload r = PayloadOpRegion region \<and> region_space region = map_address_space (space_number (bk_region_space d)))"

text \<open>
  \<open>Other\<close> is for the numbers that ACPI leaves open; a declaration that spells one of its own spaces so
  never matches (\<open>other_of_named_space_unmet\<close>).
\<close>

fun space_named_properly :: "AcpiAmlAddressSpaceKind \<Rightarrow> bool" where
  "space_named_properly (BkOther v) = (10 < v \<and> v \<noteq> 0x7f)"
| "space_named_properly _ = True"

lemma map_backend_space_number:
  "space_named_properly space \<Longrightarrow> map_backend_space space = map_address_space (space_number space)"
  by (cases space) (auto simp: map_backend_space_def map_address_space_def)

lemma other_of_named_space_unmet:
  assumes "map_backend_space (BkOther v) = map_address_space (space_number (BkOther v))"
  shows "space_named_properly (BkOther v)"
proof -
  have oem: "map_address_space v = Oem v" using assms by (simp add: map_backend_space_def)
  have "\<forall>v \<in> set (map of_nat [0..<11] :: u8 list). map_address_space v \<noteq> Oem v" by code_simp
  moreover have "v \<in> set (map of_nat [0..<11])" if "v \<le> 10"
    using that by (intro u8_below) (simp add: word_le_nat_alt)
  ultimately have "\<not> v \<le> 10" using oem by blast
  moreover have "v \<noteq> 0x7f" using oem by (auto simp: map_address_space_def)
  ultimately show ?thesis by (simp add: not_le)
qed

definition present :: "AmlLoadedNamespace \<Rightarrow> bytes \<Rightarrow> bool" where
  "present ns text \<longleftrightarrow> (\<exists>p r. parse_text text = Ok p \<and> record_by_path ns p = Some r)"

definition parses :: "bytes \<Rightarrow> bool" where
  "parses text \<longleftrightarrow> (\<exists>p. parse_text text = Ok p)"

definition issue_tag :: "AmlBackendVerificationIssue \<Rightarrow> AmlBackendTargetKind \<times> bytes" where
  "issue_tag i = (issue_target i, issue_path i)"

text \<open>What a check does to the writer: nothing for a declaration that is met, one issue for one that is not.\<close>

definition reports :: "('a \<Rightarrow> AmlBackendIssueWriter \<Rightarrow> AmlBackendIssueWriter aml) \<Rightarrow> ('a \<Rightarrow> bool) \<Rightarrow> ('a \<Rightarrow> AmlBackendTargetKind \<times> bytes) \<Rightarrow> 'a \<Rightarrow> bool" where
  "reports f good what x \<longleftrightarrow>
     (\<exists>issue. issue_tag issue = what x \<and> (\<forall>w. f x w = (if good x then Ok w else writer_push issue w)))"

lemma reports_typed:
  assumes "parses (g x)"
  shows "reports (\<lambda>x. verify_typed_path ns t (g x) k) (\<lambda>x. meets_typed ns k (g x)) (\<lambda>x. (t, g x)) x"
proof -
  obtain p where p: "parse_text (g x) = Ok p" using assms by (auto simp: parses_def)
  show ?thesis
    by (cases "record_by_path ns p"; rule exI [THEN reports_def [THEN iffD2]])
      (auto simp: p verify_typed_path_def meets_typed_def issue_tag_def)
qed


lemma reports_region:
  assumes "parses (bk_region_path d)" and "space_named_properly (bk_region_space d)"
  shows "reports (verify_opregion ns) (meets_region ns) (\<lambda>d. (TargetOpRegion, bk_region_path d)) d"
proof -
  obtain p where p: "parse_text (bk_region_path d) = Ok p" using assms(1) by (auto simp: parses_def)
  note space = map_backend_space_number [OF assms(2)]
  show ?thesis
  proof (cases "record_by_path ns p")
    case None
    then show ?thesis
      by (intro exI [THEN reports_def [THEN iffD2]]) (auto simp: p verify_opregion_def meets_region_def issue_tag_def)
  next
    case (Some r)
    show ?thesis
    proof (cases "node_kind (descriptor r) = KOpRegion")
      case True
      then show ?thesis
        by (cases "payload r"; intro exI [THEN reports_def [THEN iffD2]])
          (auto simp: p Some verify_opregion_def meets_region_def issue_tag_def Let_def space)
    next
      case False
      then show ?thesis
        by (intro exI [THEN reports_def [THEN iffD2]]) (auto simp: p Some verify_opregion_def meets_region_def issue_tag_def)
    qed
  qed
qed

text \<open>A sequence of checks adds issues with given tags while they fit.\<close>

definition adds :: "(AmlBackendIssueWriter \<Rightarrow> AmlBackendIssueWriter aml) \<Rightarrow> (AmlBackendTargetKind \<times> bytes) list \<Rightarrow> bool" where
  "adds F tags \<longleftrightarrow> (\<forall>w. length (issues w) \<le> capacity w \<longrightarrow>
     (\<exists>new. map issue_tag new = tags
        \<and> F w = (if length (issues w) + length new \<le> capacity w then Ok (w\<lparr>issues := issues w @ new\<rparr>) else Err (Fail overflow))))"

lemma adds_nil: "adds Ok []"
  by (simp add: adds_def)

lemma adds_seq:
  assumes "adds F ts" and "adds G us"
  shows "adds (\<lambda>w. bind_result (F w) G) (ts @ us)"
  unfolding adds_def
proof (intro allI impI)
  fix w :: AmlBackendIssueWriter
  assume ok: "length (issues w) \<le> capacity w"
  obtain new where new: "map issue_tag new = ts"
    "F w = (if length (issues w) + length new \<le> capacity w then Ok (w\<lparr>issues := issues w @ new\<rparr>) else Err (Fail overflow))"
    using assms(1) ok unfolding adds_def by blast
  let ?w = "if length (issues w) + length new \<le> capacity w then w\<lparr>issues := issues w @ new\<rparr> else w"
  obtain new2 where new2: "map issue_tag new2 = us"
    "G ?w = (if length (issues ?w) + length new2 \<le> capacity ?w then Ok (?w\<lparr>issues := issues ?w @ new2\<rparr>) else Err (Fail overflow))"
  proof -
    have "length (issues ?w) \<le> capacity ?w" using ok by simp
    then show thesis using assms(2) [unfolded adds_def, rule_format, of ?w] that by blast
  qed
  show "\<exists>new. map issue_tag new = ts @ us \<and> bind_result (F w) G =
      (if length (issues w) + length new \<le> capacity w then Ok (w\<lparr>issues := issues w @ new\<rparr>) else Err (Fail overflow))"
    using new new2 by (intro exI [of _ "new @ new2"]) (auto split: if_splits)
qed

lemma adds_one:
  assumes "reports f good what x"
  shows "adds (f x) (if good x then [] else [what x])"
proof -
  obtain issue where i: "issue_tag issue = what x" "\<And>w. f x w = (if good x then Ok w else writer_push issue w)"
    using assms unfolding reports_def by blast
  show ?thesis unfolding adds_def
    by (intro allI impI exI [of _ "if good x then [] else [issue]"]) (auto simp: i writer_push_def)
qed

lemma adds_each:
  "(\<And>x. x \<in> set xs \<Longrightarrow> reports f good what x) \<Longrightarrow> adds (verify_each f xs) (map what (filter (\<lambda>x. \<not> good x) xs))"
proof (induction xs)
  case Nil
  show ?case using adds_nil by (simp add: adds_def)
next
  case (Cons x xs)
  have "adds (\<lambda>w. bind_result (f x w) (verify_each f xs)) ((if good x then [] else [what x]) @ map what (filter (\<lambda>x. \<not> good x) xs))"
    using Cons by (intro adds_seq adds_one) auto
  moreover have "verify_each f (x # xs) = (\<lambda>w. bind_result (f x w) (verify_each f xs))" by (rule ext) simp
  ultimately show ?case by (cases "good x") simp_all
qed

lemma bind_result_assoc: "bind_result (bind_result r f) g = bind_result r (\<lambda>x. bind_result (f x) g)"
  by (cases r) simp_all

text \<open>The declarations of a backend that a namespace does not meet.\<close>

definition faults :: "AcpiAmlBackend \<Rightarrow> AmlLoadedNamespace \<Rightarrow> u8 \<Rightarrow> bytes \<Rightarrow> (AmlBackendTargetKind \<times> bytes) list" where
  "faults B ns provider root =
     (if present ns root then [] else [(TargetNamespaceRoot, root)])
     @ map (\<lambda>m. (TargetMethod, bk_method_path m)) (filter (\<lambda>m. \<not> meets_typed ns KMethod (bk_method_path m)) (aml_methods B provider))
     @ map (\<lambda>f. (TargetField, f)) (filter (\<lambda>f. \<not> meets_typed ns KField f) (aml_fields B provider))
     @ map (\<lambda>d. (TargetOpRegion, bk_region_path d)) (filter (\<lambda>d. \<not> meets_region ns d) (aml_opregions B provider))"


lemma verify_acpi_backend_faults:
  assumes "aml_namespace B provider = Some root" and "parses root"
    and "list_all (parses \<circ> bk_method_path) (aml_methods B provider)" and "list_all parses (aml_fields B provider)"
    and "list_all (parses \<circ> bk_region_path) (aml_opregions B provider)"
    and "list_all (space_named_properly \<circ> bk_region_space) (aml_opregions B provider)"
  shows "if length (faults B ns provider root) \<le> n
    then \<exists>found. verify_acpi_backend B ns provider n = Ok found
           \<and> map issue_tag found = faults B ns provider root
    else verify_acpi_backend B ns provider n = Err (Fail overflow)"
proof -
  let ?methods = "verify_each (\<lambda>m. verify_typed_path ns TargetMethod (bk_method_path m) KMethod) (aml_methods B provider)"
    and ?fields = "verify_each (\<lambda>f. verify_typed_path ns TargetField f KField) (aml_fields B provider)"
    and ?regions = "verify_each (verify_opregion ns) (aml_opregions B provider)"
  have "reports (verify_root ns) (present ns) (\<lambda>t. (TargetNamespaceRoot, t)) root"
    using assms(2) by (intro exI [THEN reports_def [THEN iffD2]]) (auto simp: parses_def present_def verify_root_def issue_tag_def)
  then have "adds (verify_root ns root) (if present ns root then [] else [(TargetNamespaceRoot, root)])" by (rule adds_one)
  moreover have "adds ?methods (map (\<lambda>m. (TargetMethod, bk_method_path m))
      (filter (\<lambda>m. \<not> meets_typed ns KMethod (bk_method_path m)) (aml_methods B provider)))"
    using assms(3) by (intro adds_each reports_typed) (simp add: list_all_iff)
  moreover have "adds ?fields (map (\<lambda>f. (TargetField, f)) (filter (\<lambda>f. \<not> meets_typed ns KField f) (aml_fields B provider)))"
    using assms(4) by (intro adds_each reports_typed) (simp add: list_all_iff)
  moreover have "adds ?regions (map (\<lambda>d. (TargetOpRegion, bk_region_path d)) (filter (\<lambda>d. \<not> meets_region ns d) (aml_opregions B provider)))"
    using assms(5,6) by (intro adds_each reports_region) (simp_all add: list_all_iff)
  ultimately have "adds (\<lambda>w. bind_result (verify_root ns root w) (\<lambda>w1. bind_result (?methods w1) (\<lambda>w2. bind_result (?fields w2) ?regions)))
      (faults B ns provider root)"
    unfolding faults_def by (intro adds_seq)
  then obtain found where "map issue_tag found = faults B ns provider root"
    "bind_result (verify_root ns root \<lparr>capacity = n, issues = []\<rparr>) (\<lambda>w1. bind_result (?methods w1) (\<lambda>w2. bind_result (?fields w2) ?regions))
      = (if length found \<le> n then Ok \<lparr>capacity = n, issues = found\<rparr> else Err (Fail overflow))"
    unfolding adds_def by (auto dest!: spec [of _ "\<lparr>capacity = n, issues = []\<rparr>"])
  moreover have "verify_acpi_backend B ns provider n = bind_result
      (bind_result (verify_root ns root \<lparr>capacity = n, issues = []\<rparr>) (\<lambda>w1. bind_result (?methods w1) (\<lambda>w2. bind_result (?fields w2) ?regions)))
      (\<lambda>w. Ok (issues w))"
    using assms(1) by (simp add: verify_acpi_backend_def or_fail_def bind_result_assoc)
  ultimately show ?thesis by (auto simp: map_eq_conv dest: arg_cong [of _ _ length])
qed

text \<open>
  C23. The check of a backend reports exactly what is wrong. When the declared paths parse and no region
  names one of ACPI's own address spaces as \<open>Other\<close>, the issues name, in the order of the declarations,
  the root, methods, fields and regions that the namespace lacks or has with another kind or address
  space, and nothing else; it overflows exactly when they outnumber the storage. So a clean report
  means that every declaration is met. Address spaces are compared by their ACPI numbers.
\<close>
theorem verify_reports_faults:
  assumes "aml_namespace B provider = Some root" and "parses root"
    and "list_all (parses \<circ> bk_method_path) (aml_methods B provider)" and "list_all parses (aml_fields B provider)"
    and "list_all (parses \<circ> bk_region_path) (aml_opregions B provider)"
    and "list_all (space_named_properly \<circ> bk_region_space) (aml_opregions B provider)"
  shows "if length (faults B ns provider root) \<le> n
    then \<exists>found. verify_acpi_backend B ns provider n = Ok found
           \<and> map issue_tag found = faults B ns provider root
    else verify_acpi_backend B ns provider n = Err (Fail overflow)"
  using verify_acpi_backend_faults [OF assms] .


section \<open>A concrete namespace\<close>

text \<open>\<open>_REG\<close> and \<open>_Q66\<close>, both \<open>Return(One)\<close>, beside an embedded-controller region.\<close>

definition demo_method :: "AmlNamespaceNodeId \<Rightarrow> bytes \<Rightarrow> AmlMethodKind \<Rightarrow> AmlNamespaceLoadRecord" where
  "demo_method node name kind =
     \<lparr>descriptor = \<lparr>node_id = node, node_parent = None, node_kind = KMethod,
                    node_path = root_path\<lparr>segment_count := 1, segments := (segments root_path)[0 := AmlNameSeg name]\<rparr>\<rparr>,
      body = Some (demo_location [0xa4, 0x01]),
      payload = PayloadMethod
        \<lparr>method_node = node, arg_count = 0, serialization = NotSerialized, sync_level = 0, method_kind = kind,
         method_body = demo_location [0xa4, 0x01]\<rparr>\<rparr>"

definition demo_region :: AmlNamespaceLoadRecord where
  "demo_region =
     \<lparr>descriptor = \<lparr>node_id = 1, node_parent = None, node_kind = KOpRegion,
                    node_path = root_path\<lparr>segment_count := 1, segments := (segments root_path)[0 := AmlNameSeg [0x45, 0x43, 0x4f, 0x52]]\<rparr>\<rparr>,
      body = None,
      payload = PayloadOpRegion \<lparr>region_node = 1, region_space = EmbeddedControl, region_offset = Some 0, region_length = Some 16\<rparr>\<rparr>"

definition vm_demo :: AmlLoadedNamespace where
  "vm_demo = (ev_namespace (one_method 2 [0xa4, 0x01]))
     \<lparr>records := [demo_method 0 [0x5f, 0x52, 0x45, 0x47] RegionAvailability, demo_region,
                  demo_method 2 [0x5f, 0x51, 0x36, 0x36] NotificationQuery]\<rparr>"

definition demo_world :: "(64 word \<Rightarrow> u8) vm_world" where
  "demo_world = \<lparr>world_vm = vm_new default_config, world_runtime = state_new [], world_host = (\<lambda>_. 0)\<rparr>"

lemma demo_call:
  assumes "node = 0 \<or> node = 2" and "length vs \<le> 7"
  shows "vm_evaluate vm_demo ram_host (Suc (Suc 0)) node vs w = (Ok \<lparr>return_value = Some (VInteger 1), blocked = False\<rparr>, w)"
proof -
  have code: "code_bytes vm_demo (demo_location [0xa4, 0x01]) = Some [0xa4, 0x01]"
    by (simp add: code_bytes_def vm_demo_def one_method_def demo_location_def block_at_def checked_add_def get_range_def usize_max_def)
  have r: "\<exists>r m. record_of vm_demo node = Some r \<and> payload r = PayloadMethod m \<and> method_body m = demo_location [0xa4, 0x01]"
    using assms(1) by (auto simp: record_of_def vm_demo_def demo_method_def demo_region_def)
  then show ?thesis using assms(2) code
    by (auto simp: vm_evaluate_def evaluate_with_host_and_state_def evaluate_internal_def method_entry_def or_fail_def
      frame_new_def eval_term_list_def eval_statement_def eval_term_arg_def constant_term_def slice_get_def slice_from_def
      rbind_def rlift_def rret_def get_frame_def integer_def outcome_of_def namespace_width_def vm_demo_def one_method_def
      from_definition_block_revision_def)
qed

theorem register_regions_calls_witness:
  "\<exists>w'. register_regions vm_demo ram_host (Suc (Suc 0)) demo_world = (Ok (counts 1 0 False), w') \<and> vm_state (world_vm w') = VmReady"
proof -
  have calls: "reg_plan (records vm_demo) (records vm_demo) = ([(0, [VInteger 3, VInteger 1])], False)"
    by (simp add: vm_demo_def demo_method_def demo_region_def reg_calls_def sibling_spaces_def each_once_def reg_call_def
        address_space_argument_def)
  have lonely: "lonely_regs (records vm_demo) (records vm_demo) = 0"
    by (simp add: lonely_regs_def is_reg_def vm_demo_def demo_method_def demo_region_def reg_calls_def sibling_spaces_def each_once_def)
  have "eager_region_registration (vm_config (world_vm demo_world))"
    by (simp add: demo_world_def vm_new_def default_config_def)
  with register_regions_calls [of demo_world vm_demo ram_host "Suc (Suc 0)" 0] show ?thesis
    by (auto simp: calls lonely demo_call rbind_step with_vm_state_def)
qed

theorem dispatch_calls_handlers_witness:
  "\<exists>w'. dispatch_notification_query vm_demo ram_host (Suc (Suc 0)) 0x66 demo_world
     = (Ok \<lparr>hr_invoked = 1, hr_blocked = 0, hr_missing = 0\<rparr>, w')"
proof -
  have s: "names_sized (records vm_demo)"
    by (simp add: names_sized_def vm_demo_def demo_method_def demo_region_def last_segment_def path_segment_def root_path_def
        AML_MAX_PATH_SEGMENTS_def)
  have "query_handler_suffix 0x66 = [0x5f, 0x51, 0x36, 0x36]" by code_simp
  then have calls: "handler_calls NotificationQuery (query_handler_suffix 0x66) (records vm_demo) = [(2, [])]"
    by (simp add: handler_calls_def vm_demo_def demo_method_def demo_region_def last_segment_def path_segment_def root_path_def
        AML_MAX_PATH_SEGMENTS_def)
  show ?thesis
    using dispatch_calls_handlers [OF s, where h = ram_host and fuel = "Suc (Suc 0)" and code = "0x66" and w = demo_world]
    by (simp add: calls demo_call rbind_step sat16_def)
qed

theorem vm_passes_keep_overlay_witness:
  "state_ok (world_runtime (snd (register_regions vm_demo ram_host (Suc (Suc 0)) demo_world)))"
proof -
  have "state_ok (world_runtime demo_world)"
    by (simp add: demo_world_def state_ok_def state_new_def slots_inv_def aggregates_wf_def)
  from vm_passes_keep_overlay [OF this] show ?thesis by blast
qed

text \<open>A backend that expects the region in system memory.\<close>

definition demo_backend :: AcpiAmlBackend where
  "demo_backend = \<lparr>aml_namespace = (\<lambda>_. Some [0x5c, 0x5f, 0x51, 0x36, 0x36]), aml_methods = (\<lambda>_. []), aml_fields = (\<lambda>_. []),
     aml_opregions = (\<lambda>_. [\<lparr>bk_region_path = [0x5c, 0x45, 0x43, 0x4f, 0x52], bk_region_space = BkSystemMemory\<rparr>])\<rparr>"

theorem verify_reports_faults_witness:
  "(\<exists>found. verify_acpi_backend demo_backend vm_demo 0 4 = Ok found \<and> map issue_tag found = [(TargetOpRegion, [0x5c, 0x45, 0x43, 0x4f, 0x52])])
   \<and> verify_acpi_backend demo_backend vm_demo 0 0 = Err (Fail overflow)"
proof -
  have p: "parse_text [0x5c, 0x5f, 0x51, 0x36, 0x36] = Ok (node_path (descriptor (demo_method 2 [0x5f, 0x51, 0x36, 0x36] NotificationQuery)))"
    "parse_text [0x5c, 0x45, 0x43, 0x4f, 0x52] = Ok (node_path (descriptor demo_region))"
    by code_simp+
  have found: "record_by_path vm_demo (node_path (descriptor (demo_method 2 [0x5f, 0x51, 0x36, 0x36] NotificationQuery)))
      = Some (demo_method 2 [0x5f, 0x51, 0x36, 0x36] NotificationQuery)"
    "record_by_path vm_demo (node_path (descriptor demo_region)) = Some demo_region"
    by code_simp+
  have f: "faults demo_backend vm_demo 0 [0x5c, 0x5f, 0x51, 0x36, 0x36] = [(TargetOpRegion, [0x5c, 0x45, 0x43, 0x4f, 0x52])]"
    using found by (simp add: faults_def demo_backend_def present_def meets_region_def p demo_region_def map_address_space_def)
  have b: "aml_namespace demo_backend 0 = Some [0x5c, 0x5f, 0x51, 0x36, 0x36]" "parses [0x5c, 0x5f, 0x51, 0x36, 0x36]"
    "list_all (parses \<circ> bk_method_path) (aml_methods demo_backend 0)" "list_all parses (aml_fields demo_backend 0)"
    "list_all (parses \<circ> bk_region_path) (aml_opregions demo_backend 0)"
    "list_all (space_named_properly \<circ> bk_region_space) (aml_opregions demo_backend 0)"
    by (simp_all add: demo_backend_def parses_def p)
  show ?thesis
    using verify_reports_faults [OF b, of vm_demo 4] verify_reports_faults [OF b, of vm_demo 0] by (simp add: f)
qed

end
