(* ===== verification/Driver_Registry_Props.thy ===== *)
theory Driver_Registry_Props
  imports Driver_Registry
begin

text \<open>
  What validation of a driver registry computes. A set of drivers supports a driver when it provides its
  required contracts, consumes it if it must be consumed, and no earlier driver has its singleton class.
  Support is monotone, and the passes of \<open>validate\<close> iterate it from the set of all drivers downwards: the
  drivers that end ready are the greatest set that supports itself. The build-time check accepts a
  driver set exactly when the registry finds all of it ready.
\<close>

section \<open>Support\<close>

abbreviation metas :: "DriverRegistry \<Rightarrow> DriverMetadata list" where
  "metas reg \<equiv> map slot_metadata (reg_slots reg)"

abbreviation slot_states :: "DriverRegistry \<Rightarrow> DriverAvailability list" where
  "slot_states reg \<equiv> map slot_state (reg_slots reg)"

definition ready_slots :: "DriverRegistry \<Rightarrow> nat set" where
  "ready_slots reg = {i. i < length (reg_slots reg) \<and> slot_states reg ! i = Ready}"

definition alone_in_class :: "DriverMetadata list \<Rightarrow> nat \<Rightarrow> bool" where
  "alone_in_class ms i \<longleftrightarrow>
     singleton_class (ms ! i) = None \<or> (\<forall>j < i. singleton_class (ms ! j) \<noteq> singleton_class (ms ! i))"

definition supported :: "DriverMetadata list \<Rightarrow> nat set \<Rightarrow> nat set" where
  "supported ms R = {i. i < length ms \<and> alone_in_class ms i
     \<and> (\<forall>c \<in> set (required_contracts (ms ! i)). \<exists>j \<in> R. j < length ms \<and> j \<noteq> i \<and> c \<in> set (contracts (ms ! j)))
     \<and> (usefulness (ms ! i) = MustBeConsumed \<longrightarrow>
          (\<exists>j \<in> R. j < length ms \<and> j \<noteq> i \<and> set (required_contracts (ms ! j)) \<inter> set (contracts (ms ! i)) \<noteq> {}))}"

lemma supported_mono: "mono (supported ms)"
  by (rule monoI) (auto simp: supported_def; meson subsetD)

lemma supported_below: "supported ms R \<subseteq> {..<length ms}"
  by (auto simp: supported_def)

lemma ready_below: "ready_slots reg \<subseteq> {..<length (reg_slots reg)}"
  by (auto simp: ready_slots_def)

section \<open>One pass\<close>

definition ready_in :: "DriverRegistry \<Rightarrow> DriverAvailability list \<Rightarrow> nat set" where
  "ready_in reg states = {j. j < length (reg_slots reg) \<and> states ! j = Ready}"

lemma ready_in_snapshot [simp]: "ready_in reg (availability_snapshot reg) = ready_slots reg"
  by (auto simp: ready_in_def ready_slots_def availability_snapshot_def nth_append)

lemma list_ex_enumerate:
  "list_ex (\<lambda>(j, d). P j d) (filter (\<lambda>(j, _). j \<noteq> i) (enumerate 0 xs)) \<longleftrightarrow> (\<exists>j < length xs. j \<noteq> i \<and> P j (xs ! j))"
  by (auto simp: list_ex_iff in_set_enumerate_eq)

lemma has_ready_iff:
  "has_ready_contract_provider reg i states c \<longleftrightarrow> (\<exists>j \<in> ready_in reg states. j \<noteq> i \<and> c \<in> set (contracts (metas reg ! j)))"
  "has_ready_consumer reg i states cs
     \<longleftrightarrow> (\<exists>j \<in> ready_in reg states. j \<noteq> i \<and> set (required_contracts (metas reg ! j)) \<inter> set cs \<noteq> {})"
  unfolding has_ready_contract_provider_def has_ready_consumer_def list_ex_enumerate
  by (auto simp: ready_in_def list_ex_iff)

lemma list_ex_take: "i \<le> length xs \<Longrightarrow> list_ex P (take i xs) \<longleftrightarrow> (\<exists>j < i. P (xs ! j))"
  by (auto simp: list_ex_iff in_set_conv_nth Bex_def)

lemma singleton_conflict_None_iff:
  "i < length (reg_slots reg) \<Longrightarrow> singleton_conflict reg i (metas reg ! i) = None \<longleftrightarrow> alone_in_class (metas reg) i"
  by (auto simp: singleton_conflict_def has_prior_singleton_conflict_def alone_in_class_def list_ex_take
      split: option.splits if_splits)

lemma compute_state_Ready_iff:
  assumes "i < length (reg_slots reg)"
  shows "compute_state reg i states (metas reg ! i) = Ready \<longleftrightarrow> i \<in> supported (metas reg) (ready_in reg states)"
proof -
  have "compute_state reg i states (metas reg ! i) = Ready \<longleftrightarrow>
      singleton_conflict reg i (metas reg ! i) = None
      \<and> find (\<lambda>required. \<not> has_ready_contract_provider reg i states required) (required_contracts (metas reg ! i)) = None
      \<and> (usefulness (metas reg ! i) = MustBeConsumed \<longrightarrow> has_ready_consumer reg i states (contracts (metas reg ! i)))"
    by (auto simp: compute_state_def split: option.splits)
  then show ?thesis
    unfolding singleton_conflict_None_iff [OF assms] find_None_iff has_ready_iff
    using assms by (auto simp: supported_def ready_in_def)
qed

lemma compute_state_cong:
  assumes "metas reg = metas reg'" and "ready_in reg states = ready_in reg' states'"
  shows "compute_state reg i states m = compute_state reg' i states' m"
proof -
  have "has_prior_singleton_conflict reg i = has_prior_singleton_conflict reg' i"
  proof (rule ext)
    fix cls
    have "list_ex (\<lambda>m. singleton_class m = Some cls) (take i (metas reg)) = list_ex (\<lambda>m. singleton_class m = Some cls) (take i (metas reg'))"
      using assms(1) by simp
    then show "has_prior_singleton_conflict reg i cls = has_prior_singleton_conflict reg' i cls"
      by (simp add: has_prior_singleton_conflict_def take_map list_ex_iff)
  qed
  moreover have "has_ready_contract_provider reg i states = has_ready_contract_provider reg' i states'"
    "has_ready_consumer reg i states = has_ready_consumer reg' i states'"
    by (simp_all add: fun_eq_iff has_ready_iff assms)
  ultimately show ?thesis unfolding compute_state_def singleton_conflict_def by (simp only:)
qed

lemma set_slot_state_simps [simp]:
  assumes "i < length (reg_slots reg)"
  shows "metas (set_slot_state i s reg) = metas reg" "slot_states (set_slot_state i s reg) = (slot_states reg)[i := s]"
    "reg_capacity (set_slot_state i s reg) = reg_capacity reg" "length (reg_slots (set_slot_state i s reg)) = length (reg_slots reg)"
  using assms by (simp_all add: set_slot_state_def map_update) (metis list_update_id length_map nth_map)

lemma validate_slots_spec:
  "validate_slots prev is (reg, ch) = (reg', ch') \<Longrightarrow> distinct is \<Longrightarrow> set is \<subseteq> {..<length (reg_slots reg)} \<Longrightarrow>
     metas reg' = metas reg \<and> reg_capacity reg' = reg_capacity reg
     \<and> (\<forall>i < length (reg_slots reg). slot_states reg' ! i =
          (if i \<in> set is then compute_state reg i prev (metas reg ! i) else slot_states reg ! i))
     \<and> (ch' \<longleftrightarrow> ch \<or> (\<exists>i \<in> set is. slot_states reg ! i \<noteq> compute_state reg i prev (metas reg ! i)))"
proof (induction "is" arbitrary: reg ch)
  case (Cons slot rest)
  let ?d = "compute_state reg slot prev (metas reg ! slot)"
  have s: "slot < length (reg_slots reg)" using Cons.prems by simp
  have same: "compute_state (set_slot_state slot x reg) j prev m = compute_state reg j prev m" for x j m
    using s by (intro compute_state_cong) (simp_all add: ready_in_def)
  show ?case
  proof (cases "slot_states reg ! slot = ?d")
    case True
    then show ?thesis using Cons.IH [of reg ch] Cons.prems s by (auto simp: Let_def)
  next
    case False
    have "validate_slots prev rest (set_slot_state slot ?d reg, True) = (reg', ch')"
      using Cons.prems(1) False s by (simp add: Let_def)
    from Cons.IH [OF this] show ?thesis
      using Cons.prems(2,3) False s by (auto simp: same nth_list_update)
  qed
qed auto

text \<open>A pass judges every driver by the drivers that were ready before it.\<close>

definition judged :: "DriverRegistry \<Rightarrow> DriverAvailability list" where
  "judged reg = map (\<lambda>i. compute_state reg i (availability_snapshot reg) (metas reg ! i)) [0..<length (reg_slots reg)]"

definition pass :: "DriverRegistry \<Rightarrow> DriverRegistry" where
  "pass reg = fst (validate_slots (availability_snapshot reg) [0..<length (reg_slots reg)] (reg, False))"

lemma pass_simps [simp]: "metas (pass reg) = metas reg" "slot_states (pass reg) = judged reg"
  and pass_changed: "snd (validate_slots (availability_snapshot reg) [0..<length (reg_slots reg)] (reg, False))
    \<longleftrightarrow> slot_states reg \<noteq> judged reg"
proof -
  obtain reg' ch where v: "validate_slots (availability_snapshot reg) [0..<length (reg_slots reg)] (reg, False) = (reg', ch)"
    by fastforce
  note spec = validate_slots_spec [OF v]
  have m: "metas reg' = metas reg" using spec by (simp add: lessThan_atLeast0)
  then have len: "length (reg_slots reg') = length (reg_slots reg)" by (metis length_map)
  show "metas (pass reg) = metas reg" using m by (simp add: pass_def v)
  have st: "slot_states reg' = judged reg"
    using spec len by (intro nth_equalityI) (auto simp: judged_def lessThan_atLeast0)
  then show "slot_states (pass reg) = judged reg" by (simp add: pass_def v)
  show "snd (validate_slots (availability_snapshot reg) [0..<length (reg_slots reg)] (reg, False)) \<longleftrightarrow> slot_states reg \<noteq> judged reg"
  proof -
    have "ch \<longleftrightarrow> (\<exists>i < length (reg_slots reg). slot_states reg ! i \<noteq> judged reg ! i)"
      using spec by (auto simp: judged_def lessThan_atLeast0)
    moreover have "slot_states reg = judged reg \<longleftrightarrow> (\<forall>i < length (reg_slots reg). slot_states reg ! i = judged reg ! i)"
      unfolding list_eq_iff_nth_eq by (simp add: judged_def)
    ultimately show ?thesis unfolding v snd_conv by blast
  qed
qed

lemma validate_passes_Suc:
  "validate_passes (Suc k) reg = (if slot_states reg = judged reg then (Ok (), pass reg) else validate_passes k (pass reg))"
  using pass_changed [of reg] by (simp add: Let_def pass_def split_beta)

declare validate_passes.simps(2) [simp del]

lemma length_slots_eq: "metas reg = metas reg' \<Longrightarrow> length (reg_slots reg) = length (reg_slots reg')"
  by (metis length_map)

lemma ready_pass: "ready_slots (pass reg) = supported (metas reg) (ready_slots reg)"
proof -
  have "length (reg_slots (pass reg)) = length (reg_slots reg)" by (rule length_slots_eq) simp
  moreover have "i < length (reg_slots reg)" if "i \<in> supported (metas reg) R" for i R
    using that by (simp add: supported_def)
  moreover have "judged reg ! i = Ready \<longleftrightarrow> i \<in> supported (metas reg) (ready_slots reg)" if "i < length (reg_slots reg)" for i
    using compute_state_Ready_iff [OF that, of "availability_snapshot reg"] that by (simp add: judged_def)
  ultimately show ?thesis by (auto simp: ready_slots_def [of "pass reg"])
qed

lemma judged_cong:
  assumes "metas reg = metas reg'" and "ready_slots reg = ready_slots reg'"
  shows "judged reg = judged reg'"
  using assms length_slots_eq [OF assms(1)]
  by (auto simp: judged_def intro!: compute_state_cong)

section \<open>The passes\<close>

text \<open>Where the passes start from: a registry whose ready drivers include the greatest self-supporting set and shrink.\<close>

definition descending :: "DriverRegistry \<Rightarrow> bool" where
  "descending reg \<longleftrightarrow> supported (metas reg) (ready_slots reg) \<subseteq> ready_slots reg
     \<and> gfp (supported (metas reg)) \<subseteq> ready_slots reg"

lemma descending_pass: "descending reg \<Longrightarrow> descending (pass reg)"
  unfolding descending_def ready_pass pass_simps
  by (metis monoD [OF supported_mono] gfp_unfold [OF supported_mono])

lemma stable_is_greatest:
  "descending reg \<Longrightarrow> supported (metas reg) (ready_slots reg) = ready_slots reg
     \<Longrightarrow> ready_slots reg = gfp (supported (metas reg))"
  by (metis descending_def gfp_upperbound order_refl subset_antisym)

lemma finite_ready [simp]: "finite (ready_slots reg)"
  using finite_subset [OF ready_below] by simp

lemma unchanged_stable:
  assumes "slot_states reg = judged reg"
  shows "supported (metas reg) (ready_slots reg) = ready_slots reg"
proof -
  have "ready_slots (pass reg) = ready_slots reg"
    using assms length_slots_eq [of "pass reg" reg] by (simp add: ready_slots_def)
  then show ?thesis by (simp add: ready_pass)
qed

lemma pass_shrinks:
  assumes "descending reg"
  obtains "supported (metas reg) (ready_slots reg) = ready_slots reg"
  | "card (ready_slots (pass reg)) < card (ready_slots reg)"
  using assms psubset_card_mono [OF finite_ready, of "ready_slots (pass reg)" reg]
  unfolding descending_def ready_pass by blast

lemma validate_passes_ready:
  "descending reg \<Longrightarrow> card (ready_slots reg) < k \<Longrightarrow> validate_passes k reg = (r, reg') \<Longrightarrow>
     metas reg' = metas reg \<and> ready_slots reg' = gfp (supported (metas reg))"
proof (induction k arbitrary: reg)
  case (Suc k)
  show ?case
  proof (cases "slot_states reg = judged reg")
    case True
    then have "reg' = pass reg" using Suc.prems(3) by (simp add: validate_passes_Suc)
    then show ?thesis
      using unchanged_stable [OF True] stable_is_greatest [OF Suc.prems(1)] by (simp add: ready_pass)
  next
    case False
    then have v: "validate_passes k (pass reg) = (r, reg')" using Suc.prems(3) by (simp add: validate_passes_Suc)
    from Suc.prems(1) show ?thesis
    proof (cases rule: pass_shrinks)
      case 1
      have "metas reg' = metas reg0 \<and> ready_slots reg' = ready_slots reg0"
        if "supported (metas reg0) (ready_slots reg0) = ready_slots reg0" "validate_passes n reg0 = (r, reg')" for n reg0
        using that
      proof (induction n arbitrary: reg0)
        case (Suc n)
        then show ?case using Suc.IH [of "pass reg0"] by (auto simp: validate_passes_Suc ready_pass split: if_splits)
      qed simp
      from this [of "pass reg", OF _ v] 1 show ?thesis
        using stable_is_greatest [OF Suc.prems(1) 1] by (simp add: ready_pass)
    next
      case 2
      then show ?thesis using Suc.IH [OF descending_pass [OF Suc.prems(1)] _ v] Suc.prems(2) by simp
    qed
  qed
qed simp

lemma validate_passes_Ok_judged:
  "validate_passes k reg = (Ok (), reg') \<Longrightarrow> slot_states reg' = judged reg'"
proof (induction k arbitrary: reg)
  case (Suc k)
  show ?case
  proof (cases "slot_states reg = judged reg")
    case True
    then have "reg' = pass reg" using Suc.prems by (simp add: validate_passes_Suc)
    moreover have "judged (pass reg) = judged reg"
      using unchanged_stable [OF True] by (intro judged_cong) (simp_all add: ready_pass)
    ultimately show ?thesis by simp
  next
    case False
    then show ?thesis using Suc by (simp add: validate_passes_Suc)
  qed
qed simp

text \<open>One pass more than the source has is always enough to settle the reasons as well.\<close>

lemma validate_passes_settle:
  "descending reg \<Longrightarrow> card (ready_slots reg) + 2 \<le> k \<Longrightarrow> fst (validate_passes k reg) = Ok ()"
proof (induction k arbitrary: reg)
  case (Suc k)
  from Suc.prems(1) show ?case
  proof (cases rule: pass_shrinks)
    case 1
    have "judged (pass reg) = judged reg" using 1 by (intro judged_cong) (simp_all add: ready_pass)
    moreover obtain m where "k = Suc m" using Suc.prems(2) by (cases k) simp_all
    ultimately show ?thesis by (simp add: validate_passes_Suc)
  next
    case 2
    then show ?thesis using Suc.IH [OF descending_pass [OF Suc.prems(1)]] Suc.prems(2) by (simp add: validate_passes_Suc)
  qed
qed simp

section \<open>Validation\<close>

definition all_ready :: "DriverRegistry \<Rightarrow> DriverRegistry" where
  "all_ready reg = reg\<lparr>reg_slots := map (\<lambda>s. s\<lparr>slot_state := Ready\<rparr>) (reg_slots reg)\<rparr>"

lemma all_ready_simps [simp]:
  "metas (all_ready reg) = metas reg" "length (reg_slots (all_ready reg)) = length (reg_slots reg)"
  "ready_slots (all_ready reg) = {..<length (reg_slots reg)}"
  by (auto simp: all_ready_def ready_slots_def)

lemma descending_all_ready: "descending (all_ready reg)"
  using supported_below [of "metas reg"] gfp_least [of "supported (metas reg)" "{..<length (reg_slots reg)}"]
  by (auto simp: descending_def)

lemma validate_eq: "validate reg = validate_passes (length (reg_slots reg) + 1) (all_ready reg)"
  by (simp add: validate_def Let_def all_ready_def)

text \<open>
  C5. Validation leaves ready exactly the greatest set of drivers that supports itself: every member
  has its required contracts provided by other members, is consumed by another member if it must be,
  and is the first of its singleton class; every set with this property is contained in it. This holds
  whether or not validation reports a conflict. When it succeeds, every driver's state is also the one
  the final states give it, so the reasons of the others are up to date.
\<close>
theorem validate_ready_is_greatest:
  assumes "validate reg = (r, reg')"
  shows "metas reg' = metas reg \<and> ready_slots reg' = gfp (supported (metas reg)) \<and> (r = Ok () \<longrightarrow> slot_states reg' = judged reg')"
proof -
  have v: "validate_passes (length (reg_slots reg) + 1) (all_ready reg) = (r, reg')" using assms by (simp add: validate_eq)
  from validate_passes_ready [OF descending_all_ready _ this]
  have "metas reg' = metas reg" "ready_slots reg' = gfp (supported (metas reg))" by simp_all
  moreover have "slot_states reg' = judged reg'" if "r = Ok ()" using validate_passes_Ok_judged v that by blast
  ultimately show ?thesis by blast
qed

section \<open>Registration and the build-time check\<close>

definition registry_of :: "nat \<Rightarrow> DriverMetadata list \<Rightarrow> DriverRegistry" where
  "registry_of cap ds = fold (\<lambda>d reg. snd (register d reg)) ds (registry_new cap)"

lemma register_all:
  assumes "distinct (map dogma_key (metas reg @ ds))" and "list_all (\<lambda>s. slot_key s = dogma_key (slot_metadata s)) (reg_slots reg)"
    and "length (reg_slots reg) + length ds \<le> reg_capacity reg"
  shows "metas (fold (\<lambda>d reg. snd (register d reg)) ds reg) = metas reg @ ds"
  using assms
proof (induction ds arbitrary: reg)
  case (Cons d ds)
  have "\<not> contains_key reg (dogma_key d)"
    using Cons.prems(1,2) by (auto simp: contains_key_def list_ex_iff list_all_iff image_iff)
  then have "snd (register d reg) = reg\<lparr>reg_slots := reg_slots reg @
      [\<lparr>slot_key = dogma_key d, slot_metadata = d, slot_state = Unknown\<rparr>]\<rparr>"
    using Cons.prems(3) by (simp add: register_def)
  then show ?case using Cons.IH [of "snd (register d reg)"] Cons.prems by simp
qed simp

lemma metas_registry_of:
  "distinct (map dogma_key ds) \<Longrightarrow> length ds \<le> cap \<Longrightarrow> metas (registry_of cap ds) = ds"
  using register_all [of "registry_new cap" ds] by (simp add: registry_of_def registry_new_def)

lemma check_singletons_Ok:
  "check_singletons earlier ds = Ok () \<longleftrightarrow>
     (\<forall>i < length ds. \<forall>cls. singleton_class (ds ! i) = Some cls \<longrightarrow>
        (\<forall>d \<in> set (earlier @ take i ds). singleton_class d \<noteq> Some cls))"
proof (induction earlier ds rule: check_singletons.induct)
  case (2 earlier d ds)
  have split: "(\<forall>i < length (d # ds). P i) \<longleftrightarrow> P 0 \<and> (\<forall>i < length ds. P (Suc i))" for P
    by (auto simp: less_Suc_eq_0_disj)
  show ?case using 2 unfolding split by (auto simp: find_None_iff find_Some_iff split: option.splits)
qed simp

lemma check_dependencies_Ok:
  "check_dependencies all ds = Ok () \<longleftrightarrow> (\<forall>d \<in> set ds. \<forall>c \<in> set (required_contracts d). provided all d c)"
  by (induction ds) (auto simp: find_None_iff find_Some_iff split: option.splits)

lemma check_consumption_Ok:
  "check_consumption all ds = Ok () \<longleftrightarrow> (\<forall>d \<in> set ds. usefulness d = MustBeConsumed \<longrightarrow> consumed all d)"
  by (induction ds) auto

lemma dogmas_supported:
  assumes "distinct (map dogma_key ds)"
  shows "validate_driver_dogmas ds = Ok () \<longleftrightarrow> supported ds {..<length ds} = {..<length ds}"
proof -
  have keys: "dogma_key (ds ! j) \<noteq> dogma_key (ds ! i) \<longleftrightarrow> j \<noteq> i" if "i < length ds" "j < length ds" for i j
    using nth_eq_iff_index_eq [OF assms] that by simp
  have other: "(\<exists>d' \<in> set ds. dogma_key d' \<noteq> dogma_key (ds ! i) \<and> P d') \<longleftrightarrow> (\<exists>j < length ds. j \<noteq> i \<and> P (ds ! j))"
    if "i < length ds" for i P
    using keys [OF that] by (metis in_set_conv_nth)
  have "check_singletons [] ds = Ok () \<longleftrightarrow> (\<forall>i < length ds. alone_in_class ds i)"
  proof -
    have "(\<forall>cls. singleton_class (ds ! i) = Some cls \<longrightarrow> (\<forall>d \<in> set ([] @ take i ds). singleton_class d \<noteq> Some cls)) \<longleftrightarrow> alone_in_class ds i"
      if "i < length ds" for i
      using that by (cases "singleton_class (ds ! i)") (simp_all add: alone_in_class_def all_set_conv_all_nth)
    then show ?thesis unfolding check_singletons_Ok by blast
  qed
  moreover have "check_dependencies ds ds = Ok () \<longleftrightarrow> (\<forall>i < length ds. \<forall>c \<in> set (required_contracts (ds ! i)).
      \<exists>j < length ds. j \<noteq> i \<and> c \<in> set (contracts (ds ! j)))"
    unfolding check_dependencies_Ok provided_def list_ex_iff by (simp add: all_set_conv_all_nth other)
  moreover have "check_consumption ds ds = Ok () \<longleftrightarrow> (\<forall>i < length ds. usefulness (ds ! i) = MustBeConsumed \<longrightarrow>
      (\<exists>j < length ds. j \<noteq> i \<and> set (required_contracts (ds ! j)) \<inter> set (contracts (ds ! i)) \<noteq> {}))"
  proof -
    have "consumed ds (ds ! i) \<longleftrightarrow> (\<exists>j < length ds. j \<noteq> i \<and> set (required_contracts (ds ! j)) \<inter> set (contracts (ds ! i)) \<noteq> {})"
      if "i < length ds" for i
      unfolding consumed_def list_ex_iff other [OF that] by blast
    then show ?thesis by (simp add: check_consumption_Ok all_set_conv_all_nth)
  qed
  moreover have "validate_driver_dogmas ds = Ok () \<longleftrightarrow>
      check_singletons [] ds = Ok () \<and> check_dependencies ds ds = Ok () \<and> check_consumption ds ds = Ok ()"
    by (auto simp: validate_driver_dogmas_def bind_result_Ok_iff)
  moreover have "supported ds {..<length ds} = {..<length ds} \<longleftrightarrow> (\<forall>i < length ds. i \<in> supported ds {..<length ds})"
    using supported_below [of ds] by blast
  ultimately show ?thesis by (simp add: supported_def Bex_def) blast
qed

text \<open>
  C22. The build-time check and the registry agree. For a set of drivers with distinct keys that fit
  into the registry, the check of the dogmas succeeds exactly when the registry, after registering
  them in this order, validates without a conflict and finds all of them ready.
\<close>
theorem dogmas_agree_with_registry:
  assumes "distinct (map dogma_key ds)" and "length ds \<le> cap"
  shows "validate_driver_dogmas ds = Ok () \<longleftrightarrow>
    (\<exists>reg'. validate (registry_of cap ds) = (Ok (), reg') \<and> ready_slots reg' = {..<length ds})"
proof -
  let ?reg = "registry_of cap ds"
  have m: "metas ?reg = ds" using metas_registry_of [OF assms] .
  then have len: "length (reg_slots ?reg) = length ds" by (metis length_map)
  have top: "gfp (supported ds) = {..<length ds} \<longleftrightarrow> supported ds {..<length ds} = {..<length ds}"
    by (metis gfp_unfold [OF supported_mono] gfp_upperbound order_refl subset_antisym
        gfp_least supported_below subset_trans)
  have Ok: "fst (validate ?reg) = Ok ()" if "supported ds {..<length ds} = {..<length ds}"
  proof -
    have "compute_state (all_ready ?reg) i (availability_snapshot (all_ready ?reg)) (metas (all_ready ?reg) ! i) = Ready"
      if "i < length ds" for i
      using compute_state_Ready_iff [of i "all_ready ?reg"] that \<open>supported ds {..<length ds} = {..<length ds}\<close>
      by (simp add: m len del: nth_map)
    then have "slot_states (all_ready ?reg) = judged (all_ready ?reg)"
      unfolding list_eq_iff_nth_eq by (simp add: judged_def len all_ready_def m)
    then show ?thesis by (simp add: validate_eq validate_passes_Suc)
  qed
  obtain r reg' where v: "validate ?reg = (r, reg')" by fastforce
  then have "validate_passes (length (reg_slots ?reg) + 1) (all_ready ?reg) = (r, reg')" by (simp add: validate_eq)
  from validate_passes_ready [OF descending_all_ready _ this] have "ready_slots reg' = gfp (supported ds)" by (simp add: m)
  then show ?thesis using Ok v top dogmas_supported [OF assms(1)] by auto
qed

text \<open>
  Three drivers in a cycle of requirements, one of which also needs a contract that nobody provides.
\<close>

definition cyclic_drivers :: "DriverMetadata list" where
  "cyclic_drivers =
     [\<lparr>dogma_key = ''e'', contracts = [DriverContractKey ''e''],
       required_contracts = [DriverContractKey ''d'', DriverContractKey ''x''], usefulness = Standalone, singleton_class = None\<rparr>,
      \<lparr>dogma_key = ''p'', contracts = [DriverContractKey ''p''],
       required_contracts = [DriverContractKey ''e''], usefulness = Standalone, singleton_class = None\<rparr>,
      \<lparr>dogma_key = ''d'', contracts = [DriverContractKey ''d''],
       required_contracts = [DriverContractKey ''p''], usefulness = Standalone, singleton_class = None\<rparr>]"

text \<open>
  The number of passes is one too small. One pass more than \<open>validate\<close> makes would settle every
  registry, but with its number a registry in which only the reason of a driver still changes is
  reported as a state conflict: three drivers in a cycle, the first of which also requires a contract
  that nobody provides. (A cycle without that contract validates.)
\<close>
theorem validate_reports_spurious_conflict:
  "fst (validate_passes (length (reg_slots reg) + 2) (all_ready reg)) = Ok ()
   \<and> fst (validate (registry_of 8 cyclic_drivers)) = Err DrvStateConflict"
proof
  show "fst (validate_passes (length (reg_slots reg) + 2) (all_ready reg)) = Ok ()"
    using validate_passes_settle [OF descending_all_ready, of reg "length (reg_slots reg) + 2"] by simp
  show "fst (validate (registry_of 8 cyclic_drivers)) = Err DrvStateConflict" by code_simp
qed

section \<open>A layout and its port\<close>

definition layout_and_port :: "DriverMetadata list" where
  "layout_and_port =
     [\<lparr>dogma_key = ''display.layout'', contracts = [DriverContractKey ''display.layout''], required_contracts = [],
       usefulness = MustBeConsumed, singleton_class = Some ''display.layout.machine''\<rparr>,
      \<lparr>dogma_key = ''display.port.hdmi'', contracts = [DriverContractKey ''display.control'', DriverContractKey ''display.port''],
       required_contracts = [DriverContractKey ''display.layout''], usefulness = Standalone, singleton_class = None\<rparr>]"

lemma layout_and_port_ok: "distinct (map dogma_key layout_and_port)" "length layout_and_port \<le> 8"
  "fst (validate (registry_of 8 layout_and_port)) = Ok ()"
  by code_simp+

theorem validate_ready_is_greatest_witness:
  "let reg' = snd (validate (registry_of 8 layout_and_port)) in
     ready_slots reg' = gfp (supported layout_and_port) \<and> slot_states reg' = judged reg'"
proof -
  have "validate (registry_of 8 layout_and_port) = (Ok (), snd (validate (registry_of 8 layout_and_port)))"
    using layout_and_port_ok(3) by (simp add: prod_eq_iff)
  from validate_ready_is_greatest [OF this] show ?thesis
    using metas_registry_of [OF layout_and_port_ok(1,2)] by (simp add: Let_def)
qed

theorem dogmas_agree_with_registry_witness:
  "\<exists>reg'. validate (registry_of 8 layout_and_port) = (Ok (), reg') \<and> ready_slots reg' = {..<length layout_and_port}"
proof -
  have "validate_driver_dogmas layout_and_port = Ok ()" by code_simp
  then show ?thesis using dogmas_agree_with_registry [OF layout_and_port_ok(1,2)] by simp
qed

end
