(* ===== verification/Acpi_Realize_Props.thy ===== *)
theory Acpi_Realize_Props
  imports Acpi_Realize Aml_Vm_Props Driver_Registry_Props
begin

text \<open>
  What a realised platform means: which surfaces exist, and that AML was activated only for a namespace
  that has every object the backend declares.
\<close>

section \<open>Driver families\<close>

text \<open>A family of hardware with one provider: the driver is active exactly when the provider lists objects of it.\<close>

lemma activate_family_one:
  assumes "provider_count hw = 1" and "hw_provider hw 0 = Some ident"
    and "\<not> contains_key reg (family_key f)" and "length (reg_slots reg) < reg_capacity reg"
  shows "activate_family hw f reg = (Ok (if hw_objects hw f 0 = [] then None else Some 0), snd (register (family_dogma f) reg))"
  using assms by (simp add: activate_family_def register_def family_dogma_def enumerate_bindings_def activate_binding_def)

lemma activate_families_one:
  assumes "provider_count hw = 1" and "hw_provider hw 0 = Some ident"
  shows "distinct (map family_key fs) \<Longrightarrow> set (map family_key fs) \<inter> set (map slot_key (reg_slots reg)) = {} \<Longrightarrow>
     length (reg_slots reg) + length fs \<le> reg_capacity reg \<Longrightarrow>
     activate_families hw fs reg = Ok (map (\<lambda>f. if hw_objects hw f 0 = [] then None else Some 0) fs)"
proof (induction fs arbitrary: reg)
  case (Cons f fs)
  have key: "\<not> contains_key reg (family_key f)" using Cons.prems(2) by (auto simp: contains_key_def list_ex_iff image_iff)
  moreover have "length (reg_slots reg) < reg_capacity reg" using Cons.prems(3) by simp
  ultimately have reg': "snd (register (family_dogma f) reg) =
      reg\<lparr>reg_slots := reg_slots reg @ [\<lparr>slot_key = family_key f, slot_metadata = family_dogma f, slot_state = Unknown\<rparr>]\<rparr>"
    by (simp add: register_def family_dogma_def)
  have "activate_families hw fs (snd (register (family_dogma f) reg)) = Ok (map (\<lambda>f. if hw_objects hw f 0 = [] then None else Some 0) fs)"
    using Cons.prems by (intro Cons.IH) (auto simp: reg')
  then show ?case
    using activate_family_one [OF assms key] Cons.prems(3) by simp
qed simp

text \<open>
  A platform is realised exactly for the fingerprints of the Dell Latitude E6430, whatever their BIOS
  and OEM entries; it then has the battery, power source, thermal, button, lid and embedded controller
  surfaces, all of provider 0, and no fan and no processor surface.
\<close>
theorem realize_platform_surfaces:
  "realize_platform fp =
     (if system_vendor fp = ''Dell Inc.'' \<and> product_name fp = ''Latitude E6430''
      then Ok \<lparr>matched = \<lparr>match_backend = DellLatitudeE6430, match_strength = Exact\<rparr>, battery = Some 0, power_source = Some 0,
               thermal = Some 0, fan = None, button = Some 0, lid = Some 0, embedded_controller = Some 0, processor = None\<rparr>
      else Err (RealFail RealUnsupported))"
proof -
  let ?fs = "[Battery, PowerSource, Thermal, Fan, Button, Lid, EmbeddedController, Processor]"
  have "activate_families dell_hardware ?fs (registry_new 8) = Ok (map (\<lambda>f. if hw_objects dell_hardware f 0 = [] then None else Some 0) ?fs)"
    by (rule activate_families_one) (simp_all add: dell_hardware_def registry_new_def family_key_def)
  then show ?thesis
    by (simp add: realize_platform_def match_platform_backend_def realize_dell_latitude_e6430_def dell_hardware_def dell_object_defs)
qed

section \<open>Activation\<close>

lemma dell_paths_parse:
  "parses (ascii (rooted ''_SB''))" "list_all (parses \<circ> bk_method_path) dell_methods" "list_all parses dell_fields"
  "list_all (parses \<circ> bk_region_path) dell_opregions"
proof -
  have ok: "parses t" if "is_ok (parse_text t)" for t using that by (cases "parse_text t") (auto simp: parses_def)
  have "is_ok (parse_text (ascii (rooted ''_SB'')))" "list_all (is_ok \<circ> parse_text \<circ> bk_method_path) dell_methods"
    "list_all (is_ok \<circ> parse_text) dell_fields" "list_all (is_ok \<circ> parse_text \<circ> bk_region_path) dell_opregions"
    by code_simp+
  then show "parses (ascii (rooted ''_SB''))" "list_all (parses \<circ> bk_method_path) dell_methods" "list_all parses dell_fields"
    "list_all (parses \<circ> bk_region_path) dell_opregions"
    using ok by (auto simp: list_all_iff)
qed

lemma dell_spaces: "list_all (space_named_properly \<circ> bk_region_space) dell_opregions"
  by code_simp

lemma dell_verified:
  assumes "verify_acpi_backend dell_backend ns 0 n = Ok []"
  shows "faults dell_backend ns 0 (ascii (rooted ''_SB'')) = []"
proof -
  have "aml_namespace dell_backend 0 = Some (ascii (rooted ''_SB''))" by (simp add: dell_backend_def)
  from verify_acpi_backend_faults [OF this dell_paths_parse(1), of ns n] dell_paths_parse(2,3,4) dell_spaces assms
  show ?thesis by (simp add: dell_backend_def split: if_splits)
qed

lemma sound_keeps: "sound world_ok R f \<Longrightarrow> state_ok (world_runtime w) \<Longrightarrow> f w = (r, w') \<Longrightarrow> state_ok (world_runtime w')"
  by (fastforce simp: sound_def)

lemma activation_Ok:
  assumes "activate_backend_aml B ns h fuel n st hs = (Ok r, w)"
  shows "verify_acpi_backend B ns 0 n = Ok []" and "activation_is_clean r"
proof -
  show "verify_acpi_backend B ns 0 n = Ok []"
    using assms by (auto simp: activate_backend_aml_def Let_def split: result.splits if_splits prod.splits)
  show "activation_is_clean r"
    using assms by (auto simp: activate_backend_aml_def Let_def activation_is_clean_def settled_def lifecycle_is_clean_def
        split: result.splits if_splits prod.splits dest!: initialize_devices_settles)
qed

lemma activation_keeps:
  assumes "activate_backend_aml B ns h fuel n st hs = (r, w)" and "state_ok st"
  shows "state_ok (world_runtime w)"
  using assms by (auto simp: activate_backend_aml_def Let_def split: result.splits if_splits prod.splits
      dest!: sound_keeps [OF sound_register_regions, rotated] sound_keeps [OF sound_initialize_devices, rotated])

text \<open>
  C21. A platform with AML is realised only over a namespace that has everything the backend declares.
  Then the fingerprint matched, every declared root, method, field and region is in the namespace with
  its kind and address space, no method blocked, and the machine is ready. However the call ends, it
  leaves the overlay well formed.
\<close>
theorem realized_aml_is_verified:
  assumes "realize_platform_with_aml fp ns h fuel n st hs = (r, st', hs')" and "state_ok st"
  shows "state_ok st' \<and> (case r of
      Ok p \<Rightarrow> match_platform_backend fp \<noteq> None \<and> faults dell_backend ns 0 (ascii (rooted ''_SB'')) = []
        \<and> activation_is_clean (realized_aml p)
    | Err e \<Rightarrow> True)"
proof -
  obtain a w where a: "activate_backend_aml dell_backend ns h fuel n st hs = (a, w)" by fastforce
  have "st' = st \<or> st' = world_runtime w"
    using assms(1) a by (auto simp: realize_platform_with_aml_def split: option.splits AcpiPlatformBackendKind.splits result.splits)
  then have "state_ok st'" using activation_keeps [OF a assms(2)] assms(2) by auto
  moreover have "match_platform_backend fp \<noteq> None \<and> a = Ok (realized_aml p)" if "r = Ok p" for p
    using assms(1) a that by (auto simp: realize_platform_with_aml_def split: option.splits AcpiPlatformBackendKind.splits result.splits)
  ultimately show ?thesis using activation_Ok [of dell_backend ns h fuel n st hs _ w] dell_verified [of ns n] a by (cases r) auto
qed

section \<open>A namespace for the Dell backend\<close>

text \<open>One record per declared object; the methods have no role in the lifecycle.\<close>

definition dell_record :: "nat \<Rightarrow> AmlObjectKind \<Rightarrow> bytes \<Rightarrow> AmlNamespaceNodePayload \<Rightarrow> AmlNamespaceLoadRecord" where
  "dell_record i kind text pl =
     \<lparr>descriptor = \<lparr>node_id = of_nat i, node_parent = None, node_kind = kind, node_path = the_ok (parse_text text)\<rparr>,
      body = None, payload = pl\<rparr>"

definition dell_region_payload :: "AcpiAmlOpRegionDescriptor \<Rightarrow> AmlNamespaceNodePayload" where
  "dell_region_payload d = PayloadOpRegion \<lparr>region_node = 0, region_space = map_backend_space (bk_region_space d), region_offset = Some 0, region_length = Some 256\<rparr>"

definition dell_namespace :: AmlLoadedNamespace where
  "dell_namespace = (ev_namespace (one_method 2 [0xa4, 0x01]))\<lparr>records :=
     dell_record 0 KScope (ascii (rooted ''_SB'')) PayloadNone
     # map (\<lambda>m. dell_record 1 KMethod (bk_method_path m) PayloadNone) dell_methods
     @ map (\<lambda>t. dell_record 2 KField t PayloadNone) dell_fields
     @ map (\<lambda>d. dell_record 3 KOpRegion (bk_region_path d) (dell_region_payload d)) dell_opregions\<rparr>"

lemma dell_namespace_verifies: "verify_acpi_backend dell_backend dell_namespace 0 0 = Ok []"
  by code_simp

lemma passes_without_methods:
  assumes "list_all (\<lambda>r. case payload r of PayloadMethod m \<Rightarrow> False | _ \<Rightarrow> True) rs"
  shows "register_methods ns h fuel rs report = rbind (set_vm_state VmReady) (\<lambda>_. rret report)"
    and "initialize_methods ns h fuel rs report = rbind (set_vm_state VmReady) (\<lambda>_. rret report)"
  using assms by (induction rs) (auto split: AmlNamespaceNodePayload.splits)

lemma dell_namespace_no_methods: "list_all (\<lambda>r. case payload r of PayloadMethod m \<Rightarrow> False | _ \<Rightarrow> True) (records dell_namespace)"
  by (auto simp: dell_namespace_def dell_record_def dell_region_payload_def list_all_iff)

theorem realized_aml_is_verified_witness:
  "\<exists>p st'. realize_platform_with_aml dell_latitude_e6430_fingerprint dell_namespace ram_host 0 0 (state_new []) (\<lambda>_. 0) = (Ok p, st', \<lambda>_. 0)
     \<and> state_ok st' \<and> faults dell_backend dell_namespace 0 (ascii (rooted ''_SB'')) = [] \<and> activation_is_clean (realized_aml p)"
proof -
  have m: "match_platform_backend dell_latitude_e6430_fingerprint = Some \<lparr>match_backend = DellLatitudeE6430, match_strength = Exact\<rparr>"
    by (simp add: match_platform_backend_def dell_latitude_e6430_fingerprint_def)
  have "is_ok (realize_dell_latitude_e6430 \<lparr>match_backend = DellLatitudeE6430, match_strength = Exact\<rparr>)" by code_simp
  then obtain q where q: "realize_dell_latitude_e6430 \<lparr>match_backend = DellLatitudeE6430, match_strength = Exact\<rparr> = Ok q"
    by (cases "realize_dell_latitude_e6430 \<lparr>match_backend = DellLatitudeE6430, match_strength = Exact\<rparr>") auto
  have "\<exists>p. realize_platform_with_aml dell_latitude_e6430_fingerprint dell_namespace ram_host 0 0 (state_new []) (\<lambda>_. 0)
      = (Ok p, state_new [], \<lambda>_. 0)"
    by (simp add: realize_platform_with_aml_def m q activate_backend_aml_def dell_namespace_verifies Let_def register_regions_def
        initialize_devices_def passes_without_methods [OF dell_namespace_no_methods] rbind_step with_vm_state_def vm_new_def
        default_config_def empty_report_def lifecycle_is_clean_def get_world_def)
  moreover have "state_ok (state_new [])"
    by (simp add: state_ok_def state_new_def slots_inv_def aggregates_wf_def)
  ultimately show ?thesis
    using realized_aml_is_verified [of dell_latitude_e6430_fingerprint dell_namespace ram_host 0 0 "state_new []" "\<lambda>_. 0"] by fastforce
qed

end
