(* ===== verification/Claim_Text.thy ===== *)
theory Claim_Text
  imports Fusion_Prelude
begin

text \<open>
  The text and the vocabulary of claims (\<open>fusion-pal/contract/pal/claims/claims.rs\<close>): principals
  \<open>context[#instance]@courier[authority][:port]\<close>, claim names, qualified claims \<open>principal=>claim\<close>, patterns
  with \<open>*\<close>, \<open>?\<close> and \<open>\\\<close>, seals, grants and attachment bonds.

  A \<open>&str\<close> is the list of its bytes. The identifiers that wrap a \<open>u64\<close> are synonyms of it. The private
  \<open>raw\<close> field of a name is the name itself.
\<close>

section \<open>Operations of \<open>str\<close>\<close>

text \<open>\<open>split_once("=>")\<close>, \<open>contains("=>")\<close>, \<open>split_once\<close> and \<open>split\<close> at a character, \<open>strip_suffix(".*")\<close>.\<close>

fun split_once_arrow :: "string \<Rightarrow> (string \<times> string) option" where
  "split_once_arrow (c # d # s) =
     (if c = CHR ''='' \<and> d = CHR ''>'' then Some ([], s)
      else map_option (apfst (Cons c)) (split_once_arrow (d # s)))"
| "split_once_arrow s = None"

definition contains_arrow :: "string \<Rightarrow> bool" where
  "contains_arrow s \<longleftrightarrow> split_once_arrow s \<noteq> None"

fun split_once_char :: "char \<Rightarrow> string \<Rightarrow> (string \<times> string) option" where
  "split_once_char x [] = None"
| "split_once_char x (c # s) =
     (if c = x then Some ([], s) else map_option (apfst (Cons c)) (split_once_char x s))"

fun split_char :: "char \<Rightarrow> string \<Rightarrow> string list" where
  "split_char x [] = [[]]"
| "split_char x (c # s) =
     (if c = x then [] # split_char x s
      else (case split_char x s of [] \<Rightarrow> [[c]] | t # ts \<Rightarrow> (c # t) # ts))"

definition is_ascii_digit :: "char \<Rightarrow> bool" where
  "is_ascii_digit c \<longleftrightarrow> c \<in> set ''0123456789''"

text \<open>
  \<open>chars().any(char::is_whitespace)\<close> on well-formed UTF-8: some encoding of a \<open>White_Space\<close> character occurs
  (one byte below 128; two or three bytes for U+0085, U+00A0, U+1680, U+2000 to U+200A, U+2028, U+2029,
  U+202F, U+205F and U+3000).
\<close>

fun starts_with_whitespace :: "string \<Rightarrow> bool" where
  "starts_with_whitespace [] = False"
| "starts_with_whitespace (a # s) =
     (let n = of_char a :: nat in
      n = 32 \<or> (9 \<le> n \<and> n \<le> 13)
      \<or> (case s of [] \<Rightarrow> False
         | b # s' \<Rightarrow>
             (let m = of_char b :: nat in
              (n = 194 \<and> (m = 133 \<or> m = 160))
              \<or> (case s' of [] \<Rightarrow> False
                 | c # _ \<Rightarrow>
                     (let k = of_char c :: nat in
                      (n = 225 \<and> m = 154 \<and> k = 128)
                      \<or> (n = 226 \<and> m = 128 \<and> ((128 \<le> k \<and> k \<le> 138) \<or> k = 168 \<or> k = 169 \<or> k = 175))
                      \<or> (n = 226 \<and> m = 129 \<and> k = 159)
                      \<or> (n = 227 \<and> m = 128 \<and> k = 128))))))"

fun any_whitespace :: "string \<Rightarrow> bool" where
  "any_whitespace [] = False"
| "any_whitespace (a # s) = (starts_with_whitespace (a # s) \<or> any_whitespace s)"

section \<open>Identities\<close>

type_synonym ClaimContextId = u64
type_synonym ImageSealId = u64
type_synonym AttachmentBondId = u64
type_synonym RemoteDomainId = u64
type_synonym ClaimsDigest = "8 word list"

datatype ClaimErrorKind = InvalidPrincipal | InvalidClaimName | InvalidQualifiedClaim | InvalidPattern

record PrincipalId =
  principal_raw :: string
  principal_context :: string
  principal_courier :: string
  principal_authority :: string
  principal_port :: "string option"

text \<open>\<open>PrincipalId::parse\<close>.\<close>

definition principal_port_parse :: "string \<Rightarrow> (string option, ClaimErrorKind) result" where
  "principal_port_parse trailing =
     (case trailing of
        [] \<Rightarrow> Ok None
      | c # port \<Rightarrow>
          if c \<noteq> CHR '':'' then Err InvalidPrincipal
          else if port = [] \<or> \<not> list_all is_ascii_digit port then Err InvalidPrincipal
          else Ok (Some port))"

definition principal_parts_invalid :: "string \<Rightarrow> string \<Rightarrow> string \<Rightarrow> string \<Rightarrow> bool" where
  "principal_parts_invalid ctx courier authority trailing \<longleftrightarrow>
     ctx = [] \<or> courier = [] \<or> authority = []
     \<or> CHR ''['' \<in> set ctx \<or> CHR '']'' \<in> set ctx \<or> CHR '':'' \<in> set ctx \<or> contains_arrow ctx
     \<or> CHR ''@'' \<in> set courier \<or> CHR ''['' \<in> set courier \<or> CHR '']'' \<in> set courier
     \<or> CHR '':'' \<in> set courier \<or> contains_arrow courier
     \<or> CHR ''['' \<in> set authority \<or> CHR '']'' \<in> set authority \<or> any_whitespace authority
     \<or> CHR ''['' \<in> set trailing \<or> CHR '']'' \<in> set trailing \<or> CHR ''@'' \<in> set trailing"

definition principal_parse :: "string \<Rightarrow> (PrincipalId, ClaimErrorKind) result" where
  "principal_parse raw =
     (if raw = [] then Err InvalidPrincipal
      else case split_once_char (CHR ''@'') raw of
        None \<Rightarrow> Err InvalidPrincipal
      | Some (ctx, rest) \<Rightarrow>
         (case position (\<lambda>c. c = CHR ''['') rest of
            None \<Rightarrow> Err InvalidPrincipal
          | Some authority_start \<Rightarrow>
             (case position (\<lambda>c. c = CHR '']'') (drop (authority_start + 1) rest) of
                None \<Rightarrow> Err InvalidPrincipal
              | Some relative_authority_end \<Rightarrow>
                  let authority_end = authority_start + 1 + relative_authority_end;
                      courier = take authority_start rest;
                      authority = drop (authority_start + 1) (take authority_end rest);
                      trailing = drop (authority_end + 1) rest
                  in bind_result (principal_port_parse trailing) (\<lambda>port.
                       if principal_parts_invalid ctx courier authority trailing
                       then Err InvalidPrincipal
                       else Ok \<lparr>principal_raw = raw, principal_context = ctx, principal_courier = courier,
                                principal_authority = authority, principal_port = port\<rparr>))))"

type_synonym ClaimName = string
type_synonym ClaimGroupName = string
type_synonym RemoteDomainName = string

definition claim_name_parse :: "string \<Rightarrow> (ClaimName, ClaimErrorKind) result" where
  "claim_name_parse raw = (if raw = [] \<or> contains_arrow raw then Err InvalidClaimName else Ok raw)"

definition claim_group_parse :: "string \<Rightarrow> (ClaimGroupName, ClaimErrorKind) result" where
  "claim_group_parse raw = (if raw = [] \<or> CHR '':'' \<in> set raw then Err InvalidClaimName else Ok raw)"

definition remote_domain_parse :: "string \<Rightarrow> (RemoteDomainName, ClaimErrorKind) result" where
  "remote_domain_parse raw =
     (if raw = [] \<or> hd raw = CHR ''.'' \<or> last raw = CHR ''.'' \<or> CHR '':'' \<in> set raw then Err InvalidPattern
      else if list_ex (\<lambda>s. s = []) (split_char (CHR ''.'') raw) then Err InvalidPattern
      else Ok raw)"

record QualifiedClaimId =
  qualified_raw :: string
  qualified_principal :: PrincipalId
  qualified_claim :: ClaimName

definition qualified_parse :: "string \<Rightarrow> (QualifiedClaimId, ClaimErrorKind) result" where
  "qualified_parse raw =
     (case split_once_arrow raw of
        None \<Rightarrow> Err InvalidQualifiedClaim
      | Some (who, claim) \<Rightarrow>
          bind_result (map_err (\<lambda>_. InvalidQualifiedClaim) (principal_parse who)) (\<lambda>p.
          bind_result (map_err (\<lambda>_. InvalidQualifiedClaim) (claim_name_parse claim)) (\<lambda>c.
          Ok \<lparr>qualified_raw = raw, qualified_principal = p, qualified_claim = c\<rparr>)))"

section \<open>Patterns\<close>

fun escape_scan :: "bool \<Rightarrow> string \<Rightarrow> bool" where
  "escape_scan escaped [] = escaped"
| "escape_scan escaped (b # s) =
     (if escaped then escape_scan False s
      else if b = CHR 92 then escape_scan True s
      else escape_scan False s)"

definition ends_with_unescaped_escape :: "string \<Rightarrow> bool" where
  "ends_with_unescaped_escape raw = escape_scan False raw"

text \<open>
  The two loops of \<open>glob_matches\<close>. The states that the second component of the measure does not order (a
  fallback past the candidate index) cannot arise, but the loop ends from there as well.
\<close>

function glob_loop :: "string \<Rightarrow> string \<Rightarrow> nat \<Rightarrow> nat \<Rightarrow> nat option \<Rightarrow> nat \<Rightarrow> nat option" where
  "glob_loop p c pattern_index candidate_index star_index fallback =
     (if candidate_index < length c then
        (if pattern_index < length p \<and> p ! pattern_index = CHR 92 then
           (if length p \<le> pattern_index + 1 then None
            else if p ! (pattern_index + 1) = c ! candidate_index
                 then glob_loop p c (pattern_index + 2) (candidate_index + 1) star_index fallback
            else (case star_index of
                    Some star \<Rightarrow> glob_loop p c (star + 1) (fallback + 1) star_index (fallback + 1)
                  | None \<Rightarrow> None))
         else if pattern_index < length p
                 \<and> (p ! pattern_index = c ! candidate_index \<or> p ! pattern_index = CHR ''?'')
              then glob_loop p c (pattern_index + 1) (candidate_index + 1) star_index fallback
         else if pattern_index < length p \<and> p ! pattern_index = CHR ''*''
              then glob_loop p c (pattern_index + 1) candidate_index (Some pattern_index) candidate_index
         else (case star_index of
                 Some star \<Rightarrow> glob_loop p c (star + 1) (fallback + 1) star_index (fallback + 1)
               | None \<Rightarrow> None))
      else Some pattern_index)"
  by pat_completeness auto

termination glob_loop
  by (relation "measures [\<lambda>(p, c, i, j, s, f). if f \<le> j then 0 else 1,
                          \<lambda>(p, c, i, j, s, f). length c - f,
                          \<lambda>(p, c, i, j, s, f). length p - i]")
     (auto split: if_splits)

declare glob_loop.simps [simp del]

function glob_tail :: "string \<Rightarrow> nat \<Rightarrow> bool" where
  "glob_tail p pattern_index =
     (if pattern_index < length p then
        (if p ! pattern_index = CHR ''*'' then glob_tail p (pattern_index + 1)
         else if p ! pattern_index = CHR 92 then False
         else pattern_index = length p)
      else pattern_index = length p)"
  by pat_completeness auto

termination glob_tail
  by (relation "measure (\<lambda>(p, i). length p - i)") auto

declare glob_tail.simps [simp del]

definition glob_matches :: "string \<Rightarrow> string \<Rightarrow> bool" where
  "glob_matches pattern candidate =
     (case glob_loop pattern candidate 0 0 None 0 of None \<Rightarrow> False | Some i \<Rightarrow> glob_tail pattern i)"

type_synonym PrincipalPattern = string
type_synonym ClaimPattern = string

definition pattern_parse :: "string \<Rightarrow> (string, ClaimErrorKind) result" where
  "pattern_parse raw =
     (if raw = [] \<or> contains_arrow raw \<or> ends_with_unescaped_escape raw then Err InvalidPattern else Ok raw)"

record QualifiedClaimPattern =
  pattern_raw :: string
  pattern_principal :: PrincipalPattern
  pattern_claim :: ClaimPattern

definition qualified_pattern_parse :: "string \<Rightarrow> (QualifiedClaimPattern, ClaimErrorKind) result" where
  "qualified_pattern_parse raw =
     (case split_once_arrow raw of
        None \<Rightarrow> Err InvalidPattern
      | Some (who, claim) \<Rightarrow>
          bind_result (pattern_parse who) (\<lambda>p.
          bind_result (pattern_parse claim) (\<lambda>c.
          Ok \<lparr>pattern_raw = raw, pattern_principal = p, pattern_claim = c\<rparr>)))"

definition matches_principal :: "PrincipalPattern \<Rightarrow> PrincipalId \<Rightarrow> bool" where
  "matches_principal pat who = glob_matches pat (principal_raw who)"

definition matches_claim :: "ClaimPattern \<Rightarrow> ClaimName \<Rightarrow> bool" where
  "matches_claim pat claim = glob_matches pat claim"

definition matches_qualified :: "QualifiedClaimPattern \<Rightarrow> QualifiedClaimId \<Rightarrow> bool" where
  "matches_qualified pat qualified \<longleftrightarrow>
     matches_principal (pattern_principal pat) (qualified_principal qualified)
     \<and> matches_claim (pattern_claim pat) (qualified_claim qualified)"

section \<open>Seals, grants and bonds\<close>

record LocalAdmissionSeal =
  seal_id :: ImageSealId
  image_digest :: ClaimsDigest
  claims_digest :: ClaimsDigest
  remote_claims_digest :: ClaimsDigest
  seal_boot_epoch :: u64
  granted_claim_count :: u32

definition seal_new :: "ImageSealId \<Rightarrow> ClaimsDigest \<Rightarrow> ClaimsDigest \<Rightarrow> ClaimsDigest \<Rightarrow> u64 \<Rightarrow> LocalAdmissionSeal" where
  "seal_new i img claims remote epoch =
     \<lparr>seal_id = i, image_digest = img, claims_digest = claims, remote_claims_digest = remote,
      seal_boot_epoch = epoch, granted_claim_count = 0\<rparr>"

definition with_granted_claim_count :: "LocalAdmissionSeal \<Rightarrow> u32 \<Rightarrow> LocalAdmissionSeal" where
  "with_granted_claim_count s n = s\<lparr>granted_claim_count := n\<rparr>"

datatype SealMismatchReason =
    MissingLocalSeal | ImageDigestChanged | ClaimsDigestChanged | RemoteClaimsDigestChanged | PublisherIdentityChanged

datatype ClaimAwareness = Blind | Black

definition is_blind :: "ClaimAwareness \<Rightarrow> bool" where "is_blind a \<longleftrightarrow> a = Blind"
definition is_black :: "ClaimAwareness \<Rightarrow> bool" where "is_black a \<longleftrightarrow> a = Black"

datatype ClaimGrantLifetime = OneShot | Retained | ExpiresAt u64
datatype ClaimGrantState = Pending | Granted | Consumed | Revoked | Expired
datatype ClaimGrantSource = LocalPolicy | RemoteDomain RemoteDomainId | AuthorityIntrinsic | AttachmentAttestation

record ClaimGrant =
  grant_qualified :: QualifiedClaimId
  grant_group :: "ClaimGroupName option"
  grant_source :: ClaimGrantSource
  grant_lifetime :: ClaimGrantLifetime
  grant_state :: ClaimGrantState
  grant_issued_at :: u64
  grant_expires_at :: "u64 option"
  grant_seal :: LocalAdmissionSeal

definition grant_is_active :: "ClaimGrant \<Rightarrow> u64 \<Rightarrow> bool" where
  "grant_is_active g now =
     (case grant_state g of
        Granted \<Rightarrow> (case grant_expires_at g of Some expires \<Rightarrow> now < expires | None \<Rightarrow> True)
      | Pending \<Rightarrow> False | Consumed \<Rightarrow> False | Revoked \<Rightarrow> False | Expired \<Rightarrow> False)"

datatype TransportAttachmentLaw = ExclusiveSpsc | PromotableSpmc | SharedSpmc

record AttachmentBondHalf =
  half_bond :: AttachmentBondId
  half_principal :: PrincipalId
  half_peer :: PrincipalId
  half_peer_seal :: ImageSealId
  half_channel :: ClaimName
  half_law :: TransportAttachmentLaw

record AttachmentBond =
  bond_id :: AttachmentBondId
  bond_boot_epoch :: u64
  bond_provider :: AttachmentBondHalf
  bond_consumer :: AttachmentBondHalf
  bond_issued_at :: u64
  bond_expires_at :: "u64 option"
  bond_revocation_epoch :: u64

definition bond_is_active :: "AttachmentBond \<Rightarrow> u64 \<Rightarrow> u64 \<Rightarrow> bool" where
  "bond_is_active b now epoch \<longleftrightarrow>
     epoch \<le> bond_revocation_epoch b
     \<and> (case bond_expires_at b of Some expires \<Rightarrow> now < expires | None \<Rightarrow> True)"

end
