(* ===== verification/Claim_Text_Props.thy ===== *)
theory Claim_Text_Props
  imports Claim_Text
begin

text \<open>
  Patterns and identities: the backtracking matcher against the meaning of a pattern, and parsing against
  the shape of the accepted text.
\<close>

section \<open>The meaning of a pattern\<close>

text \<open>A star stands for any text, a question mark for one byte, an escaped byte for itself.\<close>

fun glob_spec :: "string \<Rightarrow> string \<Rightarrow> bool" where
  "glob_spec [] c = (c = [])"
| "glob_spec (x # p) c =
     (if x = CHR 92 then
        (case p of [] \<Rightarrow> False
         | y # p' \<Rightarrow> (case c of [] \<Rightarrow> False | d # c' \<Rightarrow> y = d \<and> glob_spec p' c'))
      else if x = CHR ''*'' then \<exists>k \<le> length c. glob_spec p (drop k c)
      else (case c of [] \<Rightarrow> False | d # c' \<Rightarrow> (x = CHR ''?'' \<or> x = d) \<and> glob_spec p c'))"

declare glob_spec.simps [simp del]

lemma glob_spec_end [simp]: "glob_spec [] c \<longleftrightarrow> c = []"
  by (simp add: glob_spec.simps)

lemma glob_spec_star:
  "glob_spec (CHR ''*'' # p) c \<longleftrightarrow> (\<exists>k \<le> length c. glob_spec p (drop k c))"
  by (simp add: glob_spec.simps)

lemma glob_spec_star_suffix:
  assumes "glob_spec (CHR ''*'' # p) (drop (m + n) c)"
  shows "glob_spec (CHR ''*'' # p) (drop m c)"
proof -
  obtain k where "k \<le> length (drop (m + n) c)" "glob_spec p (drop k (drop (m + n) c))"
    using assms by (auto simp: glob_spec_star)
  then have "glob_spec p (drop (min (n + k) (length (drop m c))) (drop m c))"
    by (cases "n + k \<le> length (drop m c)") (auto simp: min_def ac_simps)
  then show ?thesis unfolding glob_spec_star by (intro exI [of _ "min (n + k) (length (drop m c))"]) auto
qed

lemma glob_spec_escape:
  "glob_spec (CHR 92 # p) c \<longleftrightarrow> p \<noteq> [] \<and> c \<noteq> [] \<and> hd p = hd c \<and> glob_spec (tl p) (tl c)"
  by (auto simp: glob_spec.simps(2) [of "CHR 92"] split: list.splits)

lemma glob_spec_byte:
  assumes "x \<noteq> CHR 92" and "x \<noteq> CHR ''*''"
  shows "glob_spec (x # p) c \<longleftrightarrow> c \<noteq> [] \<and> (x = CHR ''?'' \<or> x = hd c) \<and> glob_spec p (tl c)"
  using assms by (auto simp: glob_spec.simps split: list.splits)

lemma drop_step: "i < length xs \<Longrightarrow> drop i xs = xs ! i # drop (Suc i) xs"
  by (rule Cons_nth_drop_Suc [symmetric])

text \<open>What the pattern at an index asks of the candidate at an index.\<close>

lemma glob_spec_drop_escape:
  assumes "i < length p" and "p ! i = CHR 92"
  shows "glob_spec (drop i p) (drop j c) \<longleftrightarrow>
         i + 1 < length p \<and> j < length c \<and> p ! (i + 1) = c ! j \<and> glob_spec (drop (i + 2) p) (drop (j + 1) c)"
  using assms
  by (cases "i + 1 < length p"; cases "j < length c")
     (simp_all add: drop_step glob_spec_escape)

lemma glob_spec_drop_byte:
  assumes "i < length p" and "p ! i \<noteq> CHR 92" and "p ! i \<noteq> CHR ''*''"
  shows "glob_spec (drop i p) (drop j c) \<longleftrightarrow>
         j < length c \<and> (p ! i = CHR ''?'' \<or> p ! i = c ! j) \<and> glob_spec (drop (i + 1) p) (drop (j + 1) c)"
  using assms
  by (cases "j < length c") (simp_all add: drop_step glob_spec_byte)

lemma glob_spec_drop_star:
  assumes "i < length p" and "p ! i = CHR ''*''"
  shows "glob_spec (drop i p) (drop j c) \<longleftrightarrow> (\<exists>k \<ge> j. glob_spec (drop (i + 1) p) (drop k c))"
proof -
  have "(\<exists>k \<le> length (drop j c). glob_spec q (drop k (drop j c))) \<longleftrightarrow> (\<exists>k \<ge> j. glob_spec q (drop k c))" for q
  proof
    assume "\<exists>k \<ge> j. glob_spec q (drop k c)"
    then obtain k where k: "j \<le> k" "glob_spec q (drop k c)" by blast
    show "\<exists>k \<le> length (drop j c). glob_spec q (drop k (drop j c))"
    proof (cases "k \<le> length c")
      case True
      with k show ?thesis by (intro exI [of _ "k - j"]) auto
    next
      case False
      with k show ?thesis by (intro exI [of _ "length c - j"]) (auto simp: )
    qed
  qed (metis drop_drop le_add2)
  then show ?thesis using assms by (simp add: drop_step [of i p] glob_spec_star)
qed

lemma glob_spec_drop_past:
  "length p \<le> i \<Longrightarrow> glob_spec (drop i p) (drop j c) \<longleftrightarrow> length c \<le> j"
  by simp

lemma glob_tail_spec: "i \<le> length p \<Longrightarrow> glob_tail p i \<longleftrightarrow> glob_spec (drop i p) []"
proof (induction p i rule: glob_tail.induct)
  case (1 p i)
  show ?case
  proof (cases "i < length p")
    case True
    then have "glob_spec (drop i p) [] \<longleftrightarrow> p ! i = CHR ''*'' \<and> glob_spec (drop (i + 1) p) []"
      using glob_spec_drop_escape [of i p 0 "[]"] glob_spec_drop_byte [of i p 0 "[]"]
        glob_spec_drop_star [of i p 0 "[]"] by auto
    then show ?thesis using True "1.IH" by (subst glob_tail.simps) auto
  next
    case False
    then show ?thesis using "1.prems" by (subst glob_tail.simps) auto
  qed
qed

section \<open>The matcher\<close>

definition glob_run :: "string \<Rightarrow> string \<Rightarrow> nat \<Rightarrow> nat \<Rightarrow> nat option \<Rightarrow> nat \<Rightarrow> bool" where
  "glob_run p c i j st f = (case glob_loop p c i j st f of None \<Rightarrow> False | Some i \<Rightarrow> glob_tail p i)"

text \<open>The text left to match, from here or from a later start behind the remembered star.\<close>

definition glob_remaining :: "string \<Rightarrow> string \<Rightarrow> nat \<Rightarrow> nat \<Rightarrow> nat option \<Rightarrow> nat \<Rightarrow> bool" where
  "glob_remaining p c i j st f \<longleftrightarrow>
     glob_spec (drop i p) (drop j c)
     \<or> (\<exists>s k. st = Some s \<and> f < k \<and> glob_spec (drop (s + 1) p) (drop k c))"

definition star_at :: "string \<Rightarrow> nat option \<Rightarrow> bool" where
  "star_at p st \<longleftrightarrow> (\<forall>s. st = Some s \<longrightarrow> s < length p \<and> p ! s = CHR ''*'')"

lemma star_at_simps [simp]:
  "star_at p None" "star_at p (Some s) \<longleftrightarrow> s < length p \<and> p ! s = CHR ''*''"
  by (simp_all add: star_at_def)

lemma glob_run_end: "length c \<le> j \<Longrightarrow> glob_run p c i j st f \<longleftrightarrow> glob_tail p i"
  by (simp add: glob_run_def glob_loop.simps)

lemma glob_run_step:
  assumes "j < length c"
  shows "glob_run p c i j st f =
     (if i < length p \<and> p ! i = CHR 92 then
        (if length p \<le> i + 1 then False
         else if p ! (i + 1) = c ! j then glob_run p c (i + 2) (j + 1) st f
         else (case st of Some s \<Rightarrow> glob_run p c (s + 1) (f + 1) st (f + 1) | None \<Rightarrow> False))
      else if i < length p \<and> (p ! i = c ! j \<or> p ! i = CHR ''?'')
           then glob_run p c (i + 1) (j + 1) st f
      else if i < length p \<and> p ! i = CHR ''*'' then glob_run p c (i + 1) j (Some i) j
      else (case st of Some s \<Rightarrow> glob_run p c (s + 1) (f + 1) st (f + 1) | None \<Rightarrow> False))"
  using assms unfolding glob_run_def
  by (subst glob_loop.simps)
     (simp add: if_distrib [of "case_option False (glob_tail p)"]
        option.case_distrib [of "case_option False (glob_tail p)"] cong: if_cong option.case_cong)

lemma glob_remaining_restart:
  "glob_remaining p c (s + 1) (f + 1) (Some s) (f + 1) \<Longrightarrow> glob_remaining p c i j (Some s) f"
  unfolding glob_remaining_def by (auto intro: Suc_lessD)

text \<open>Whatever the candidate, a match that the code finds is one.\<close>

lemma glob_run_sound:
  "i \<le> length p \<Longrightarrow> star_at p st \<Longrightarrow> glob_run p c i j st f \<Longrightarrow> glob_remaining p c i j st f"
proof (induction p c i j st f rule: glob_loop.induct)
  case (1 p c i j st f)
  show ?case
  proof (cases "j < length c")
    case False
    with "1.prems" show ?thesis by (simp add: glob_run_end glob_tail_spec glob_remaining_def)
  next
    case j: True
    have retry: "glob_remaining p c i j st f"
      if "st = Some s" "glob_run p c (s + 1) (f + 1) st (f + 1)"
        "glob_run p c (s + 1) (f + 1) st (f + 1) \<Longrightarrow> glob_remaining p c (s + 1) (f + 1) st (f + 1)" for s
      using that glob_remaining_restart by blast
    consider (esc) "i < length p" "p ! i = CHR 92"
      | (byte) "i < length p" "p ! i \<noteq> CHR 92" "p ! i = c ! j \<or> p ! i = CHR ''?''"
      | (star) "i < length p" "p ! i = CHR ''*''" "p ! i \<noteq> c ! j"
      | (fail) "\<not> (i < length p \<and> (p ! i = CHR 92 \<or> p ! i = c ! j \<or> p ! i = CHR ''?'' \<or> p ! i = CHR ''*''))"
      by blast
    then show ?thesis
    proof cases
      case esc
      then show ?thesis
        using "1.IH"(1,2) "1.prems" j retry
        by (auto simp: glob_run_step glob_spec_drop_escape glob_remaining_def split: if_splits option.splits)
    next
      case byte
      then have "glob_remaining p c (i + 1) (j + 1) st f"
        using "1.IH"(3) "1.prems" j by (auto simp: glob_run_step)
      then show ?thesis
        using byte j glob_spec_drop_byte [of i p j c] glob_spec_drop_star [of i p j c]
        unfolding glob_remaining_def by (metis le_add1)
    next
      case star
      then have "glob_remaining p c (i + 1) j (Some i) j"
        using "1.IH"(4) "1.prems" j by (auto simp: glob_run_step)
      then show ?thesis
        using star glob_spec_drop_star [of i p j c] unfolding glob_remaining_def
        by (metis less_imp_le option.inject order_refl)
    next
      case fail
      then show ?thesis
        using "1.IH"(5) "1.prems" j retry by (auto simp: glob_run_step split: option.splits if_splits)
    qed
  qed
qed

text \<open>
  For a candidate without stars the code finds a match when there is one. Between the remembered star and
  the present indices the pattern has no star, so it takes as many bytes from any other start.
\<close>

definition glob_aligned :: "string \<Rightarrow> string \<Rightarrow> nat \<Rightarrow> nat \<Rightarrow> nat option \<Rightarrow> nat \<Rightarrow> bool" where
  "glob_aligned p c i j st f \<longleftrightarrow>
     (\<forall>s. st = Some s \<longrightarrow> f \<le> j \<and>
        (\<forall>k. glob_spec (drop (s + 1) p) (drop k c) \<longrightarrow> glob_spec (drop i p) (drop (k + (j - f)) c)))"

lemma glob_aligned_start [simp]:
  "glob_aligned p c i j None f" "glob_aligned p c (s + 1) j (Some s) j"
  "glob_aligned p c (Suc s) j (Some s) j"
  by (simp_all add: glob_aligned_def)

lemma glob_aligned_advance:
  assumes "glob_aligned p c i j st f"
    and "\<And>m. glob_spec (drop i p) (drop m c) \<Longrightarrow> glob_spec (drop i' p) (drop (Suc m) c)"
  shows "glob_aligned p c i' (Suc j) st f"
  using assms unfolding glob_aligned_def by (metis Suc_diff_le add_Suc_right le_SucI)

lemma glob_remaining_here:
  assumes "glob_remaining p c i j st f" and "glob_aligned p c i j st f"
  obtains m where "j \<le> m" "glob_spec (drop i p) (drop m c)"
  using assms unfolding glob_remaining_def glob_aligned_def
  by (metis add_diff_inverse_nat add_le_mono1 less_imp_le not_less order_refl)

lemma glob_remaining_later:
  assumes "glob_remaining p c i j st f" and "\<not> glob_spec (drop i p) (drop j c)"
  obtains s where "st = Some s" "glob_remaining p c (s + 1) (f + 1) st (f + 1)"
  using assms unfolding glob_remaining_def by (metis Suc_eq_plus1 Suc_leI le_neq_implies_less)

lemma glob_run_complete:
  "CHR ''*'' \<notin> set c \<Longrightarrow> i \<le> length p \<Longrightarrow> star_at p st \<Longrightarrow> glob_aligned p c i j st f
   \<Longrightarrow> glob_remaining p c i j st f \<Longrightarrow> glob_run p c i j st f"
proof (induction p c i j st f rule: glob_loop.induct)
  case (1 p c i j st f)
  obtain m where m: "j \<le> m" "glob_spec (drop i p) (drop m c)"
    using glob_remaining_here "1.prems"(4,5) by blast
  show ?case
  proof (cases "j < length c")
    case False
    with m "1.prems" show ?thesis by (simp add: glob_run_end glob_tail_spec)
  next
    case j: True
    have ns: "c ! j \<noteq> CHR ''*''" using "1.prems"(1) j by (metis nth_mem)
    consider (esc) "i < length p" "p ! i = CHR 92" "p ! (i + 1) = c ! j"
      | (mis) "i < length p" "p ! i = CHR 92" "p ! (i + 1) \<noteq> c ! j"
      | (byte) "i < length p" "p ! i \<noteq> CHR 92" "p ! i = c ! j \<or> p ! i = CHR ''?''"
      | (star) "i < length p" "p ! i = CHR ''*''" "p ! i \<noteq> c ! j"
      | (fail) "\<not> (i < length p \<and> (p ! i = CHR 92 \<or> p ! i = c ! j \<or> p ! i = CHR ''?'' \<or> p ! i = CHR ''*''))"
      by blast
    then show ?thesis
    proof cases
      case esc
      have more: "i + 1 < length p" using m(2) esc(1,2) by (simp add: glob_spec_drop_escape)
      have "glob_aligned p c (i + 2) (Suc j) st f"
        using "1.prems"(4) by (rule glob_aligned_advance) (simp add: glob_spec_drop_escape esc(1,2))
      moreover have "glob_remaining p c (i + 2) (j + 1) st f"
        using "1.prems"(5) esc by (auto simp: glob_remaining_def glob_spec_drop_escape)
      ultimately show ?thesis
        using "1.IH"(1) "1.prems"(1-3) esc more j by (auto simp: glob_run_step)
    next
      case mis
      then have "\<not> glob_spec (drop i p) (drop j c)" by (simp add: glob_spec_drop_escape)
      then obtain s where "st = Some s" "glob_remaining p c (s + 1) (f + 1) st (f + 1)"
        using "1.prems"(5) glob_remaining_later by blast
      then show ?thesis
        using "1.IH"(2) "1.prems"(1-3) mis m(2) j by (auto simp: glob_run_step glob_spec_drop_escape)
    next
      case byte
      have nst: "p ! i \<noteq> CHR ''*''" using byte(3) ns by auto
      have "glob_aligned p c (i + 1) (Suc j) st f"
        using "1.prems"(4) by (rule glob_aligned_advance) (simp add: glob_spec_drop_byte byte(1,2) nst)
      moreover have "glob_remaining p c (i + 1) (j + 1) st f"
        using "1.prems"(5) byte nst by (auto simp: glob_remaining_def glob_spec_drop_byte)
      ultimately show ?thesis
        using "1.IH"(3) "1.prems"(1-3) byte j by (auto simp: glob_run_step)
    next
      case star
      have "glob_remaining p c (i + 1) j (Some i) j"
        using m star glob_spec_drop_star [of i p m c] unfolding glob_remaining_def
        by (metis le_neq_implies_less le_trans)
      then show ?thesis
        using "1.IH"(4) "1.prems"(1) star j by (auto simp: glob_run_step)
    next
      case fail
      then have "\<not> glob_spec (drop i p) (drop j c)"
        using j by (cases "i < length p") (auto simp: glob_spec_drop_byte)
      then obtain s where s: "st = Some s" "glob_remaining p c (s + 1) (f + 1) st (f + 1)"
        using "1.prems"(5) glob_remaining_later by blast
      have "glob_run p c (s + 1) (f + 1) st (f + 1)"
        by (rule "1.IH"(5)) (use fail j s "1.prems"(1-3) in \<open>auto simp del: add_2_eq_Suc'\<close>)
      moreover have "glob_run p c i j st f = glob_run p c (s + 1) (f + 1) st (f + 1)"
        using fail j s(1) by (subst glob_run_step) auto
      ultimately show ?thesis by simp
    qed
  qed
qed

lemma glob_matches_run: "glob_matches p c \<longleftrightarrow> glob_run p c 0 0 None 0"
  by (simp add: glob_matches_def glob_run_def)

text \<open>
  C26. Matching a pattern: whatever the candidate, a match that \<open>glob_matches\<close> reports is one in the meaning
  of the pattern (a star is any text, a question mark one byte, an escaped byte itself), and for a candidate
  without a star it reports every match. A candidate with a star, which claim names may contain, can be
  missed: the pattern \<open>*\<close> does not match \<open>*a\<close>.
\<close>

theorem glob_matches_meaning:
  "(glob_matches p c \<longrightarrow> glob_spec p c)
   \<and> (CHR ''*'' \<notin> set c \<longrightarrow> glob_matches p c = glob_spec p c)
   \<and> claim_name_parse ''*a'' = Ok ''*a'' \<and> \<not> glob_matches ''*'' ''*a'' \<and> glob_spec ''*'' ''*a''"
proof (intro conjI impI)
  show sound: "glob_spec p c" if "glob_matches p c"
    using glob_run_sound [of 0 p None c 0 0] that by (simp add: glob_matches_run glob_remaining_def)
  show "glob_matches p c = glob_spec p c" if "CHR ''*'' \<notin> set c"
    using glob_run_complete [OF that, of 0 p None 0 0] sound
    by (auto simp: glob_matches_run glob_remaining_def)
  show "claim_name_parse ''*a'' = Ok ''*a''" by code_simp
  show "\<not> glob_matches ''*'' ''*a''" by code_simp
  show "glob_spec ''*'' ''*a''" by (auto simp: glob_spec_star intro: exI [of _ 2])
qed

theorem glob_matches_meaning_witness:
  "CHR ''*'' \<notin> set ''hw.nic.rx'' \<and> glob_spec ''hw.*.r?'' ''hw.nic.rx''"
proof -
  have "glob_matches ''hw.*.r?'' ''hw.nic.rx''" by code_simp
  then show ?thesis using glob_matches_meaning [of "''hw.*.r?''" "''hw.nic.rx''"] by simp
qed

section \<open>Identities\<close>

lemma split_once_char_Some_iff:
  "split_once_char x s = Some (a, b) \<longleftrightarrow> s = a @ x # b \<and> x \<notin> set a"
proof (induction s arbitrary: a)
  case (Cons c s)
  show ?case by (cases a) (auto simp: Cons.IH)
qed simp

lemma position_char_append [simp]:
  "x \<notin> set a \<Longrightarrow> position (\<lambda>c. c = x) (a @ x # b) = Some (length a)"
  by (induction a) auto

lemma position_charD:
  assumes "position (\<lambda>c. c = x) s = Some n"
  shows "s = take n s @ x # drop (Suc n) s" and "x \<notin> set (take n s)"
proof -
  have n: "n < length s" "s ! n = x" "\<forall>j < n. s ! j \<noteq> x" using position_SomeD [OF assms] by auto
  show "s = take n s @ x # drop (Suc n) s" using n by (metis id_take_nth_drop)
  show "x \<notin> set (take n s)" using n by (auto simp: in_set_conv_nth)
qed

text \<open>The text of a principal from its parts.\<close>

definition principal_print :: "string \<Rightarrow> string \<Rightarrow> string \<Rightarrow> string option \<Rightarrow> string" where
  "principal_print ctx courier authority port =
     ctx @ CHR ''@'' # courier @ CHR ''['' # authority @ CHR '']'' #
     (case port of None \<Rightarrow> [] | Some d \<Rightarrow> CHR '':'' # d)"

definition principal_parts_ok :: "string \<Rightarrow> string \<Rightarrow> string \<Rightarrow> string option \<Rightarrow> bool" where
  "principal_parts_ok ctx courier authority port \<longleftrightarrow>
     ctx \<noteq> [] \<and> courier \<noteq> [] \<and> authority \<noteq> []
     \<and> set ctx \<inter> set ''@[]:'' = {} \<and> \<not> contains_arrow ctx
     \<and> set courier \<inter> set ''@[]:'' = {} \<and> \<not> contains_arrow courier
     \<and> set authority \<inter> set ''[]'' = {} \<and> \<not> any_whitespace authority
     \<and> (case port of None \<Rightarrow> True | Some d \<Rightarrow> d \<noteq> [] \<and> list_all is_ascii_digit d)"

lemma port_print_parse:
  "principal_port_parse t = Ok port \<longleftrightarrow>
     t = (case port of None \<Rightarrow> [] | Some d \<Rightarrow> CHR '':'' # d)
     \<and> (case port of None \<Rightarrow> True | Some d \<Rightarrow> d \<noteq> [] \<and> list_all is_ascii_digit d)"
  by (cases t) (auto simp: principal_port_parse_def split: option.splits)

lemma digits_plain:
  assumes "list_all is_ascii_digit d"
  shows "CHR ''['' \<notin> set d" and "CHR '']'' \<notin> set d" and "CHR ''@'' \<notin> set d"
proof -
  have *: "\<not> is_ascii_digit (CHR ''['')" "\<not> is_ascii_digit (CHR '']'')" "\<not> is_ascii_digit (CHR ''@'')"
    by code_simp+
  show "CHR ''['' \<notin> set d" "CHR '']'' \<notin> set d" "CHR ''@'' \<notin> set d"
    using assms * by (metis list_all_iff)+
qed

lemma principal_parse_print:
  assumes "principal_parts_ok ctx courier authority port"
  shows "principal_parse (principal_print ctx courier authority port) =
    Ok \<lparr>principal_raw = principal_print ctx courier authority port, principal_context = ctx,
        principal_courier = courier, principal_authority = authority, principal_port = port\<rparr>"
proof -
  define t where "t = (case port of None \<Rightarrow> [] | Some d \<Rightarrow> CHR '':'' # d)"
  have pp: "principal_port_parse t = Ok port"
    using assms by (auto simp: port_print_parse t_def principal_parts_ok_def)
  have plain: "CHR ''['' \<notin> set t" "CHR '']'' \<notin> set t" "CHR ''@'' \<notin> set t"
    using assms digits_plain by (auto simp: t_def principal_parts_ok_def split: option.splits)
  have raw: "principal_print ctx courier authority port =
      ctx @ CHR ''@'' # (courier @ CHR ''['' # (authority @ CHR '']'' # t))"
    by (simp add: principal_print_def t_def)
  have at: "split_once_char (CHR ''@'') (principal_print ctx courier authority port) =
      Some (ctx, courier @ CHR ''['' # (authority @ CHR '']'' # t))"
    using assms by (auto simp: raw split_once_char_Some_iff principal_parts_ok_def)
  have "\<not> principal_parts_invalid ctx courier authority t"
    using assms plain by (auto simp: principal_parts_invalid_def principal_parts_ok_def)
  then show ?thesis
    using assms unfolding principal_parse_def at
    by (simp add: principal_parts_ok_def raw pp Let_def)
qed

lemma principal_parse_OkD:
  assumes "principal_parse raw = Ok p"
  shows "principal_parts_ok (principal_context p) (principal_courier p) (principal_authority p) (principal_port p)"
    and "raw = principal_print (principal_context p) (principal_courier p) (principal_authority p) (principal_port p)"
    and "principal_raw p = raw"
proof -
  obtain ctx rest n m port where at: "split_once_char (CHR ''@'') raw = Some (ctx, rest)"
    and n: "position (\<lambda>c. c = CHR ''['') rest = Some n"
    and m: "position (\<lambda>c. c = CHR '']'') (drop (Suc n) rest) = Some m"
    and port: "principal_port_parse (drop (Suc n + Suc m) rest) = Ok port"
    and valid: "\<not> principal_parts_invalid ctx (take n rest) (drop (Suc n) (take (Suc n + m) rest)) (drop (Suc n + Suc m) rest)"
    and p: "p = \<lparr>principal_raw = raw, principal_context = ctx, principal_courier = take n rest,
      principal_authority = drop (Suc n) (take (Suc n + m) rest), principal_port = port\<rparr>"
    using assms
    by (auto simp: principal_parse_def Let_def bind_result_Ok_iff split: option.splits if_splits prod.splits)
  show "principal_raw p = raw" by (simp add: p)
  have ctx: "raw = ctx @ CHR ''@'' # rest" "CHR ''@'' \<notin> set ctx"
    using at by (auto simp: split_once_char_Some_iff)
  have "rest = take n rest @ CHR ''['' # (take m (drop (Suc n) rest) @ CHR '']'' # drop (Suc n + Suc m) rest)"
    using position_charD(1) [OF n] position_charD(1) [OF m] by (metis drop_drop add.commute)
  then show "raw = principal_print (principal_context p) (principal_courier p) (principal_authority p) (principal_port p)"
    using ctx(1) port by (simp add: principal_print_def p drop_take port_print_parse)
  show "principal_parts_ok (principal_context p) (principal_courier p) (principal_authority p) (principal_port p)"
    using valid ctx(2) port
    by (simp add: principal_parts_ok_def principal_parts_invalid_def p port_print_parse)
qed

lemma contains_arrow_simps [simp]:
  "\<not> contains_arrow []"
  "contains_arrow (c # s) \<longleftrightarrow> c = CHR ''='' \<and> s \<noteq> [] \<and> hd s = CHR ''>'' \<or> contains_arrow s"
  by (simp_all add: contains_arrow_def, cases s) auto

lemma contains_arrow_append_sep:
  assumes "c \<noteq> CHR ''=''" and "c \<noteq> CHR ''>''"
  shows "contains_arrow (a @ c # b) \<longleftrightarrow> contains_arrow a \<or> contains_arrow b"
proof (induction a)
  case (Cons x a)
  then show ?case using assms by (cases a) auto
qed (use assms in simp)

lemma split_once_arrow_Some_iff:
  "split_once_arrow s = Some (a, b) \<longleftrightarrow> s = a @ CHR ''='' # CHR ''>'' # b \<and> \<not> contains_arrow a"
proof (induction s arbitrary: a rule: split_once_arrow.induct)
  case (1 c d s)
  show ?case
  proof (cases a)
    case (Cons x a')
    then show ?thesis using "1.IH" [of a'] by (cases a') auto
  qed auto
qed auto

lemma digits_no_arrow: "list_all is_ascii_digit d \<Longrightarrow> \<not> contains_arrow d"
proof (induction d)
  case (Cons c d)
  have "\<not> is_ascii_digit (CHR ''='')" by code_simp
  with Cons show ?case by auto
qed simp

lemma principal_print_arrow:
  assumes "principal_parts_ok ctx courier authority port"
  shows "contains_arrow (principal_print ctx courier authority port) \<longleftrightarrow> contains_arrow authority"
proof -
  have "\<not> contains_arrow (case port of None \<Rightarrow> [] | Some d \<Rightarrow> CHR '':'' # d)"
    using assms digits_no_arrow by (auto simp: principal_parts_ok_def split: option.splits)
  then show ?thesis
    using assms by (simp add: principal_print_def principal_parts_ok_def contains_arrow_append_sep)
qed

lemma qualified_parse_Ok_iff:
  "qualified_parse raw = Ok q \<longleftrightarrow>
     (\<exists>p c. principal_parse (principal_raw p) = Ok p \<and> \<not> contains_arrow (principal_authority p)
       \<and> c \<noteq> [] \<and> \<not> contains_arrow c \<and> raw = principal_raw p @ ''=>'' @ c
       \<and> q = \<lparr>qualified_raw = raw, qualified_principal = p, qualified_claim = c\<rparr>)"
  (is "_ \<longleftrightarrow> (\<exists>p c. ?Q p c)")
proof
  assume "qualified_parse raw = Ok q"
  then obtain who c p where sp: "split_once_arrow raw = Some (who, c)" and p: "principal_parse who = Ok p"
    and c: "c \<noteq> []" "\<not> contains_arrow c"
    and q: "q = \<lparr>qualified_raw = raw, qualified_principal = p, qualified_claim = c\<rparr>"
    by (auto simp: qualified_parse_def claim_name_parse_def bind_result_Ok_iff split: option.splits if_splits prod.splits)
  have raw: "raw = who @ CHR ''='' # CHR ''>'' # c" "\<not> contains_arrow who"
    using sp by (auto simp: split_once_arrow_Some_iff)
  note d = principal_parse_OkD [OF p]
  have "\<not> contains_arrow (principal_authority p)" using principal_print_arrow [OF d(1)] d(2) raw(2) by simp
  with p c q raw(1) d(3) show "\<exists>p c. ?Q p c" by auto
next
  assume "\<exists>p c. ?Q p c"
  then obtain p c where Q: "?Q p c" by blast
  note d = principal_parse_OkD [OF Q [THEN conjunct1]]
  have "\<not> contains_arrow (principal_raw p)" using principal_print_arrow [OF d(1)] d(2) Q by simp
  then have "split_once_arrow raw = Some (principal_raw p, c)" using Q by (simp add: split_once_arrow_Some_iff)
  then show "qualified_parse raw = Ok q" using Q by (simp add: qualified_parse_def claim_name_parse_def)
qed

text \<open>
  C27. Parsing identities: the text of a principal built from admissible parts parses to these parts, and every
  accepted text is built that way; the accepted qualified claims are exactly \<open>principal=>claim\<close> for an accepted
  principal whose authority is free of \<open>=>\<close> and an accepted claim name. An authority may contain \<open>=>\<close>, and then
  the principal is accepted but no qualified claim of it is.
\<close>

theorem claim_identities_parse:
  "(principal_parts_ok ctx courier authority port \<longrightarrow>
      principal_parse (principal_print ctx courier authority port) =
        Ok \<lparr>principal_raw = principal_print ctx courier authority port, principal_context = ctx,
            principal_courier = courier, principal_authority = authority, principal_port = port\<rparr>)
   \<and> (principal_parse raw = Ok p \<longrightarrow>
        principal_parts_ok (principal_context p) (principal_courier p) (principal_authority p) (principal_port p)
        \<and> raw = principal_print (principal_context p) (principal_courier p) (principal_authority p) (principal_port p))
   \<and> (qualified_parse text = Ok q \<longleftrightarrow>
        (\<exists>p c. principal_parse (principal_raw p) = Ok p \<and> \<not> contains_arrow (principal_authority p)
          \<and> claim_name_parse c = Ok c \<and> text = principal_raw p @ ''=>'' @ c
          \<and> q = \<lparr>qualified_raw = text, qualified_principal = p, qualified_claim = c\<rparr>))
   \<and> is_ok (principal_parse ''a@b[x=>y]'')"
proof (intro conjI impI)
  assume "principal_parts_ok ctx courier authority port"
  then show "principal_parse (principal_print ctx courier authority port) =
      Ok \<lparr>principal_raw = principal_print ctx courier authority port, principal_context = ctx,
          principal_courier = courier, principal_authority = authority, principal_port = port\<rparr>"
    by (rule principal_parse_print)
next
  assume "principal_parse raw = Ok p"
  then show "principal_parts_ok (principal_context p) (principal_courier p) (principal_authority p) (principal_port p)"
    "raw = principal_print (principal_context p) (principal_courier p) (principal_authority p) (principal_port p)"
    by (rule principal_parse_OkD)+
next
  show "qualified_parse text = Ok q \<longleftrightarrow>
        (\<exists>p c. principal_parse (principal_raw p) = Ok p \<and> \<not> contains_arrow (principal_authority p)
          \<and> claim_name_parse c = Ok c \<and> text = principal_raw p @ ''=>'' @ c
          \<and> q = \<lparr>qualified_raw = text, qualified_principal = p, qualified_claim = c\<rparr>)"
    unfolding qualified_parse_Ok_iff by (auto simp: claim_name_parse_def split: if_splits)
  show "is_ok (principal_parse ''a@b[x=>y]'')" by code_simp
qed

theorem claim_identities_parse_witness:
  "principal_parse ''shell#03@walance[pvas-local]:22'' =
     Ok \<lparr>principal_raw = ''shell#03@walance[pvas-local]:22'', principal_context = ''shell#03'',
         principal_courier = ''walance'', principal_authority = ''pvas-local'', principal_port = Some ''22''\<rparr>"
proof -
  have "principal_parts_ok ''shell#03'' ''walance'' ''pvas-local'' (Some ''22'')" by code_simp
  moreover have "principal_print ''shell#03'' ''walance'' ''pvas-local'' (Some ''22'') = ''shell#03@walance[pvas-local]:22''"
    by code_simp
  ultimately show ?thesis
    using claim_identities_parse [THEN conjunct1, of "''shell#03''" "''walance''" "''pvas-local''" "Some ''22''"] by simp
qed

end
