(* ===== verification/Spec2Isabelle.thy ===== *)
theory Spec2Isabelle
  imports Alloc_Arena_Props Sync_Left_Right Sync_Semaphore Sync_Once Sync_Rwlock Channel_Local_Props
    Aml_Loader_Tree Aml_Eval_Prog Acpi_Madt_Props Acpi_Realize_Props Claim_Text_Props
begin

text \<open>
  A verification development of the memory, synchronisation and firmware core of Fusion, a \<open>no_std\<close> systems
  framework in Rust (crates under \<open>src/Crates\<close>). The core is a stack: the platform layer
  (\<open>fusion-pal\<close>) names memory regions, errors and raw locks; resources (\<open>fusion-sys/mem/resource\<close>)
  wrap regions with their attributes and a tracked state; a pool (\<open>fusion-sys/mem/pool\<close>) cuts the
  usable ranges of its member resources into leased extents; the allocators (\<open>fusion-sys/alloc\<close>)
  live in such extents; locks, once cells and left-right tables (\<open>fusion-sys/sync\<close> over
  \<open>fusion-pal/pal/hosted/linux/sync\<close>) protect shared state; channels (\<open>fusion-sys/channel\<close>) carry
  messages between couriers. Beside the stack stands the firmware layer: \<open>fusion-firmware/aml\<close>
  decodes the AML byte code of ACPI definition blocks into a namespace of devices, methods and
  fields, evaluates the methods against a runtime overlay and the hardware behind the fields, and drives
  initialisation and event handlers. It finds the definition blocks in ACPI tables
  (\<open>fusion-firmware/pal/hal/acpi\<close>), activates drivers through the registry of \<open>fusion-hal\<close> and realises a
  platform out of both.

  \<^bold>\<open>Conventions.\<close> A struct is a record, an enum a datatype, \<open>Result\<close> the datatype \<open>result\<close> of
  \<open>Fusion_Prelude\<close>. \<open>usize\<close> and \<open>u64\<close> are natural numbers with the checked, saturating and
  wrapping operations of the source written out at 64 bits; atomics and flags of 32 bits are
  words. A function that changes state returns the new state. A critical section is one step, and
  whether its lock is obtained is an argument, so that every error branch of the source is a
  branch of the model. Code with finer interleaving (spin lock, futex primitives, left-right
  table) is a step relation in which a thread performs one atomic access at a time. What lies
  outside \<open>src\<close> (the kernel, the layout of a caller's types, the effect of an mmap) is an argument,
  and what is assumed of it is a hypothesis of the theorem that needs it. Loops end by structural
  recursion or a measure, with two exceptions that have fuel and the outcome \<open>Diverge\<close> for running out
  of it. \<open>walk_from\<close> of \<open>Aml_Loader\<close>, the mutual recursion of the loader over nested term lists: the number
  of bytes plus one is shown to be enough for every input. \<open>evaluators\<close> of \<open>Aml_Eval\<close>, the mutual
  recursion of the evaluator: AML has unbounded loops, so no amount is enough for every method; more
  fuel is shown never to change any other outcome, and the programs of \<open>Aml_Eval_Prog\<close> are shown to
  end whenever their meaning says so.

  \<^bold>\<open>Theories.\<close>

  \<^item> \<open>Fusion_Prelude\<close>: results, machine arithmetic, alignment (\<open>align_up\<close> is the least multiple), slot
    arrays and their weights, reachability and the locale \<open>inductive_invariant\<close> of transition
    systems.
  \<^item> \<open>Sync_Shared\<close>: \<open>sync/shared.rs\<close> and \<open>sync/spin.rs\<close>. The last owner of a reference header is
    reported exactly once; the spin lock excludes.
  \<^item> \<open>Mem_Resource\<close>, \<open>Resource_Core\<close>: \<open>fusion-sys/mem/resource\<close> and the PAL memory vocabulary.
    Descriptors, the packed tracked state (round trip), bound resources, and the operations of
    virtual resources against a platform argument: the tracked summary stays true of the
    platform.
  \<^item> \<open>Extent_Provider\<close>: the interfaces, as locales. \<open>extent_provider\<close> is what an allocator relies on
    when it takes extents, \<open>block_allocator\<close> what the users of an allocator rely on.
  \<^item> \<open>Mem_Pool\<close> (definitions), \<open>Mem_Pool_Correct\<close> (the table invariant: every usable byte is
    covered by exactly one extent record, free neighbours are merged, counters add up, ids are
    unique), \<open>Mem_Pool_Props\<close>: \<open>fusion-sys/mem/pool\<close>. Acquire and release refine updates of an
    abstract byte map, the candidate search is optimal, failure changes nothing, acquire then
    release restores the pool; the pool is an \<open>extent_provider\<close>.
  \<^item> \<open>Alloc_Layout\<close>: \<open>alloc/alloc.rs\<close>, \<open>control.rs\<close>, \<open>metadata.rs\<close>, \<open>policy.rs\<close>, \<open>error.rs\<close>: requests,
    front-loaded layout, extents assigned from a pool, extent leases and control leases.
  \<^item> \<open>Alloc_Slab\<close>: \<open>alloc/slab.rs\<close> with the bytes of memory; \<open>Alloc_Arena\<close> (definitions) and
    \<open>Alloc_Arena_Props\<close>: \<open>alloc/arena.rs\<close>. Both are \<open>block_allocator\<close>s in every reachable state.
  \<^item> \<open>Sync_Left_Right\<close>: \<open>sync/left_right.rs\<close>, with the publication store either sequentially
    consistent or held back in a store buffer, which is what the source asks for: guards are stable in the
    first case only.
  \<^item> \<open>Sync_Futex\<close> (waiting and waking, the mutex), \<open>Sync_Semaphore\<close>, \<open>Sync_Once\<close>, \<open>Sync_Rwlock\<close>: the Linux
    futex primitives and \<open>sync/once.rs\<close>: mutual exclusion, permit accounting by completed calls, single
    initialisation, reader/writer exclusion with exact counts; no wakeup of the mutex and the semaphore is
    lost, nor would one of the once cell and the rwlock be if the kernel took their wake count at its word.
  \<^item> \<open>Channel_Local\<close> (definitions), \<open>Channel_Local_Props\<close>: \<open>channel/channel.rs\<close> and the transport and
    protocol contracts. The ring buffer interprets the locale \<open>bounded_fifo\<close>; the channel refines
    a bounded list.
  \<^item> \<open>Aml_Name\<close> (definitions), \<open>Aml_Name_Props\<close>: \<open>aml/name.rs\<close>, \<open>bytecode.rs\<close>, \<open>parser.rs\<close> and \<open>error.rs\<close>:
    byte slices, package lengths, name segments and paths. Encoding then decoding is the
    identity; resolving a name is navigation in a tree.
  \<^item> \<open>Aml_Namespace\<close>: \<open>aml/namespace.rs\<close>, \<open>object.rs\<close> and the records of \<open>method.rs\<close>, \<open>field.rs\<close>,
    \<open>opregion.rs\<close>; name lookup finds the innermost declaration.
  \<^item> \<open>Aml_Loader\<close> (definitions), \<open>Aml_Loader_Props\<close> (every load ends), \<open>Aml_Loader_Tree\<close> (a loaded namespace
    is a tree with typed records whose bodies lie inside the image): \<open>aml/loader.rs\<close>. The
    callback of the term-list walker is the locale \<open>term_list_walker\<close>.
  \<^item> \<open>Aml_State\<close> (definitions), \<open>Aml_State_Props\<close>: \<open>aml/state.rs\<close>, the overlay of integers, packages,
    buffers and mutexes in fixed slot arrays. The locales \<open>bounded_store\<close> and \<open>keyed_slots\<close> make integers
    and mutexes finite maps with a capacity; a mutex has one holder; aggregates are private lists.
  \<^item> \<open>Aml_Field\<close> (definitions), \<open>Aml_Field_Props\<close>: \<open>aml/host.rs\<close> and the field accesses of \<open>eval.rs\<close>. Accesses touch
    only the bytes a field covers, a write replaces exactly the bits of a field that spans at most eight
    bytes.
  \<^item> \<open>Aml_Eval\<close> (definitions), \<open>Aml_Eval_Fuel\<close> (fuel only decides whether a run ends), \<open>Aml_Eval_Inv\<close> (the
    frame and overlay invariant, integers fit the width of the namespace, calls nest at most 64 deep;
    the locale \<open>sound_evaluator\<close> states what the recursive calls promise), \<open>Aml_Eval_Prog\<close> (byte code of a
    structured language does what its big-step meaning says), \<open>Aml_Eval_Demo\<close> (concrete methods):
    \<open>aml/eval.rs\<close> and \<open>value.rs\<close>.
  \<^item> \<open>Aml_Vm\<close> (definitions), \<open>Aml_Vm_Props\<close>: \<open>aml/vm.rs\<close>, \<open>lowering.rs\<close>, \<open>verify.rs\<close> and the backend
    declarations of \<open>fusion-hal/drivers/acpi\<close>. A lifecycle pass or dispatch is a fixed sequence of method
    calls that keeps the overlay; handler names and event numbers correspond one to one; the check of
    a backend reports exactly the declarations a namespace does not meet.
  \<^item> \<open>Acpi_Table\<close>, \<open>Acpi_Madt\<close> (definitions), \<open>Acpi_Table_Props\<close>, \<open>Acpi_Madt_Props\<close>: \<open>pal/hal/acpi\<close>, the readers of the
    DSDT, XSDT, MCFG, MADT, FADT and FACS. No input makes a reader panic, a damaged byte is noticed, what is
    written is read back, iterators agree with access by index (locale \<open>chunk_iterator\<close>).
  \<^item> \<open>Driver_Registry\<close> (definitions), \<open>Driver_Registry_Props\<close>: the driver registry of \<open>fusion-hal/contract\<close> and the
    build-time check of \<open>fusion-hal/driver-dogma\<close>. Validation computes a greatest fixpoint; the check
    accepts exactly the driver sets that the registry finds ready.
  \<^item> \<open>Acpi_Realize\<close> (definitions), \<open>Acpi_Realize_Props\<close>: \<open>pal/hal/acpi/realize.rs\<close> over the three groups above and
    the AML machine, with the Dell backend of \<open>fusion-hal/drivers/acpi\<close>: AML is activated only over a
    namespace that has every declared object.
  \<^item> \<open>Claim_Text\<close> (definitions), \<open>Claim_Text_Props\<close>: \<open>fusion-pal/contract/pal/claims\<close>, the identities, patterns and grants
    of the claim system. The backtracking matcher against the meaning of a pattern; parsing against
    printing.
  \<^item> This theory: what spans components. An arena and a slab on one pool never share a byte, through
    the interfaces \<open>extent_provider\<close> and \<open>block_allocator\<close>.

  \<^bold>\<open>Correspondence.\<close> Definitions keep the names of the source; where a name is taken, the type comes
  first (\<open>slab_release_allocation\<close> is \<open>Slab::release_allocation\<close>, \<open>arena_drop\<close> the \<open>Drop\<close> of
  \<open>BoundedArena\<close>). Worlds (\<open>pool_world\<close>, \<open>slab_world\<close>, \<open>arena_world\<close> and the thread worlds) pair the
  state of a component with what its users hold, and their step relations have one rule per
  public operation and outcome. Samples (\<open>sample_pool\<close>, \<open>sample_slab\<close>, ...) are concrete states on
  which the properties are applied.

  \<^bold>\<open>Bounds.\<close> Theorems on pools assume that the members' usable bytes fit into \<open>usize\<close>; theorems on slabs
  and arenas that the extent ends inside the address space; tokens of a channel are unique for the
  first \<open>usize::MAX\<close> calls. Atomic accesses interleave sequentially consistently except for the
  store buffer of the left-right table; the kernel's futex is the one its manual describes, with
  the count of a wake as a function where the source leaves the documented range.

  \<^bold>\<open>Not modelled.\<close> Creating and unmapping virtual resources and the provider inventory queries (they
  negotiate with the platform); the allocator root, heap and service protocol, the claim registry, couriers, domains and the locator, and the compute-unit representation
  (planned, in this order); fibers, executors and contexts (machine contexts and
  compiler-generated futures); the queries of active ACPI drivers, and of the AML loader and evaluator the depth of the
  machine's call stack; device drivers, board support, the kernel module and build tools (input and output, or
  subsystems of their own).
\<close>

section \<open>Allocators on one pool\<close>

lemma assign_provider:
  assumes ok: "pool_ok p" and a: "assign lk1 lk2 lk3 mk er p = (Ok e, p1)"
  obtains l where "pool_get (req_len er) (req_align er) p = (Some l, p1)" and "ape_lease e = Some l"
    and "ape_region e = pool_region_of p1 l" and "pool_ok p1" and "pool_held p1 l"
proof -
  obtain l where l: "acquire_extent lk1 er p = (Ok l, p1)" "ape_lease e = Some l" "lease_view lk3 l p1 = Ok (ape_region e)"
    using assign_Ok_cases [OF a] by metis
  have "lk1 = Ok ()" using l(1) by (cases lk1) (auto simp: acquire_extent_def split: if_splits result.splits)
  then have g: "pool_get (req_len er) (req_align er) p = (Some l, p1)" using l(1) by (cases er) (simp add: pool_get_def)
  have ok1: "pool_ok p1" using pool_provider.get_keeps [OF ok g] by blast
  have h: "pool_held p1 l" using pool_provider.get_grants [OF ok g] by blast
  have "lease_view (Ok ()) l p1 = Ok (ape_region e)" using l(3) by (cases lk3) (simp_all add: lease_view_def)
  then have "ape_region e = pool_region_of p1 l"
    using active_lease_view [of p1 l] ok1 h by (auto simp: pool_ok_def pool_held_def pool_region_of_def)
  then show thesis using that g l(2) ok1 h by blast
qed

lemma slab_blocks_in_extent:
  assumes "slab_world_inv md w" "b \<in> slab_blocks w"
  shows "region_within (block_region b) (ape_region (sb_extent (sw_slab w)))"
  using slab_alloc.blocks_within [OF assms] assms(1)
  by (auto simp: slab_world_inv_def slab_inv_def slab_shape_def region_within_def)

lemma arena_blocks_in_extent:
  assumes "arena_world_inv cs l p0 w" "b \<in> arena_blocks w"
  shows "region_within (block_region b) (ape_region (cb_extent (aw_block w)))"
  using arena_alloc.blocks_within [OF assms] assms(1)
  by (auto simp: arena_world_inv_def arena_live_inv_def arena_shape_def region_within_def arena_payload_def arena_base_def)

text \<open>
  C12. Allocators on one pool never hand out the same byte. Two extents assigned one after the other
  by a pool whose members lie at different addresses; an arena lives in the first and a slab in the
  second, and each has gone through any sequence of its own operations: no block of the arena
  overlaps a block of the slab.
\<close>

theorem arena_and_slab_apart:
  assumes "pool_ok p"
    and "assign lk1 lk2 lk3 mk er p = (Ok e, p1)" and "assign lk4 lk5 lk6 mk' er' p1 = (Ok e', p2)"
    and "arena_built cs l p1 v0" and "reaches arena_step v0 v" and "ape_region (cb_extent (aw_block v)) = ape_region e"
    and "slab_built md w0" and "reaches slab_step w0 w" and "ape_region (sb_extent (sw_slab w)) = ape_region e'"
    and "b \<in> arena_blocks v" and "c \<in> slab_blocks w"
  shows "region_disjoint (block_region b) (block_region c)"
proof -
  obtain k where k: "pool_get (req_len er) (req_align er) p = (Some k, p1)" "ape_region e = pool_region_of p1 k"
    "pool_ok p1" "pool_held p1 k" using assign_provider [OF assms(1,2)] by metis
  obtain k' where k': "pool_get (req_len er') (req_align er') p1 = (Some k', p2)" "ape_region e' = pool_region_of p2 k'"
    "pool_ok p2" "pool_held p2 k'" using assign_provider [OF k(3) assms(3)] by metis
  have held: "pool_held p2 k" "pool_region_of p2 k = pool_region_of p1 k"
    using pool_provider.get_keeps [OF k(3) k'(1)] k(4) by blast+
  have ne: "k \<noteq> k'" using pool_provider.get_grants [OF k(3) k'(1)] k(4) by blast
  have "arena_world_inv cs l p1 v" using arena_sys.reachable_inv [OF assms(4,5)] .
  then have in1: "region_within (block_region b) (pool_region_of p2 k)"
    using arena_blocks_in_extent [OF _ assms(10)] assms(6) k(2) held(2) by simp
  have "slab_world_inv md w" using slab_sys.reachable_inv [OF assms(7,8)] .
  then have in2: "region_within (block_region c) (pool_region_of p2 k')"
    using slab_blocks_in_extent [OF _ assms(11)] assms(9) k'(2) by simp
  show ?thesis using pool_provider.objects_apart [OF k'(3) held(1) k'(4) ne in1 in2] .
qed

text \<open>
  The sample pool assigns a second extent behind the first; the sample arena lives in the first and
  a slab in the second.
\<close>

definition second_lease :: pool_lease where
  "second_lease = \<lparr>lease_id = 2, lease_member = 0, lease_range = range_new 88 64\<rparr>"

definition second_pool :: memory_pool where
  "second_pool = snd (acquire_extent (Ok ()) sample_request sample_pool1)"

lemma second_acquire: "acquire_extent (Ok ()) sample_request sample_pool1 = (Ok second_lease, second_pool)"
proof -
  have "fst (acquire_extent (Ok ()) sample_request sample_pool1) = Ok second_lease"
    unfolding sample_pool1_def sample_acquire_eq snd_conv
    by (simp add: sample_pool_def sample_from_builder sample_request_def second_lease_def
      acquire_extent_def validate_extent_request_def pow2_samples find_candidate_def
      aligned_allocation_def member_at_def sample_member_def align_up_eq checked_add_def checked_sub_def
      usize_max_def candidate_of_def is_better_candidate_def allocate_lease_id_def u64_max_def
      split_lengths_def vacant_slots_excluding_def write_split_def saturating_sub_def saturating_add_def
      pool_member_id_def Let_def)
  then show ?thesis by (simp add: second_pool_def prod_eq_iff)
qed

definition second_extent :: assigned_pool_extent where
  "second_extent = the_ok (fst (assign (Ok ()) (Ok ()) (Ok ()) 7 sample_request sample_pool1))"

lemma sample_pool_ok: "pool_ok sample_pool"
proof -
  have "pl_members sample_pool = [Some sample_member, None]" by (simp add: sample_pool_def sample_from_builder)
  then have "members_apart (pl_members sample_pool)"
    by (auto simp: members_apart_def member_at_def less_Suc_eq split: if_splits)
  then show ?thesis using sample_inv(1) by (simp add: pool_ok_def)
qed

lemma second_assign:
  "assign (Ok ()) (Ok ()) (Ok ()) 7 sample_request sample_pool1 = (Ok second_extent, second_pool)"
  "ape_region second_extent = \<lparr>rg_base = 4192, rg_len = 64\<rparr>"
proof -
  obtain m where m: "assign (Ok ()) (Ok ()) (Ok ()) 7 sample_request sample_pool1 =
     (Ok \<lparr>ape_pool_marker = 7, ape_lease = Some second_lease, ape_lease_id = lease_id second_lease,
       ape_region = pool_region_of second_pool second_lease, ape_member = m\<rparr>, second_pool)"
    using assign_granted [OF sample_inv(2) second_acquire] by blast
  have "pl_members second_pool = pl_members sample_pool"
    using acquire_members [OF sample_inv(2) second_acquire] acquire_members [OF sample_inv(1) sample_acquire] by simp
  then have "pool_region_of second_pool second_lease = \<lparr>rg_base = 4192, rg_len = 64\<rparr>"
    by (simp add: pool_region_of_def)
      (simp add: sample_pool_def sample_from_builder member_at_def sample_member_def second_lease_def)
  with m show "assign (Ok ()) (Ok ()) (Ok ()) 7 sample_request sample_pool1 = (Ok second_extent, second_pool)"
    "ape_region second_extent = \<lparr>rg_base = 4192, rg_len = 64\<rparr>" by (simp_all add: second_extent_def)
qed

definition second_slab :: slab where
  "second_slab = the_ok (slab_place 24 8 16 2 False 0 sample_policy second_extent exact_static)"

lemma second_slab_eq:
  "slab_place 24 8 16 2 False 0 sample_policy second_extent exact_static = Ok \<lparr>sb_size = 16, sb_count = 2,
     sb_immortal = False, sb_domain = 0, sb_policy = sample_policy, sb_extent = second_extent,
     sb_slot_align = 16, sb_header = metadata_page_header_new SubSlab 24 32 32, sb_state = slab_state_new 2\<rparr>"
  by (simp add: slab_place_def sample_policy_def policy_allows_def contains_flags_def slab_slot_align_def
      trailing_zeros_16 push_bit_eq_mult checked_mul_def usize_max_def sample_layout second_assign is_multiple_of_def)

lemma second_slab_simps [simp]:
  "sb_size second_slab = 16" "sb_count second_slab = 2" "sb_slot_align second_slab = 16"
  "sb_extent second_slab = second_extent" "payload_offset (sb_header second_slab) = 32"
  "sb_state second_slab = slab_state_new 2"
  by (simp_all add: second_slab_def second_slab_eq metadata_page_header_new_def)

definition second_world :: slab_world where
  "second_world = \<lparr>sw_slab = second_slab, sw_mem = (\<lambda>_. 255), sw_live = [], sw_kept = []\<rparr>"

lemma second_built: "slab_built 24 second_world"
proof -
  have p: "slab_place 24 8 16 2 False 0 sample_policy second_extent exact_static = Ok second_slab"
    by (simp add: second_slab_def second_slab_eq)
  have r: "slab_extent_request 24 8 16 2 16 exact_static = Ok \<lparr>req_len = 64, req_align = 16\<rparr>"
    by (simp add: slab_extent_request_def checked_mul_def usize_max_def sample_layout)
  show ?thesis unfolding slab_built_def slab_from_assigned_extent_def drop_on_error_Ok_iff
    by (rule exI [of _ "Ok ()"], rule exI [of _ 8], rule exI [of _ 16], rule exI [of _ 2], rule exI [of _ False],
        rule exI [of _ 0], rule exI [of _ sample_policy], rule exI [of _ second_extent], rule exI [of _ exact_static],
        rule exI, rule exI [of _ "\<lparr>req_len = 64, req_align = 16\<rparr>"])
      (simp add: second_world_def p r second_assign usize_max_def exact_static_min pow2_more)
qed

lemma second_alloc:
  obtains m s where "slab_allocate_untyped (Ok ()) sample_alloc_request second_slab (\<lambda>_. 255)
     = (Ok (slab_result second_slab 4224 0), s, m)" and "sb_extent s = second_extent"
proof -
  have n: "slab_state_new 2 = \<lparr>free_slots = [1, 0], occupied = [False, False], free_len = 2\<rparr>"
    by (simp add: slab_state_new_def saturating_sub_def upt_rec replicate_small)
  have "slab_allocate_untyped (Ok ()) sample_alloc_request second_slab (\<lambda>_. 255)
     = (Ok (slab_result second_slab 4224 0), second_slab\<lparr>sb_state :=
         \<lparr>free_slots = [1, 0], occupied = [True, False], free_len = 1\<rparr>\<rparr>,
        write_bytes 4224 (replicate 16 0) (\<lambda>_. 255))"
    by (simp add: slab_allocate_untyped_def sample_alloc_request_def pow2_more slab_take_slot_def allocate_slot_def
        n slab_slot_ptr_def slab_payload_base_def second_assign checked_add_def checked_mul_def usize_max_def
        slab_result_def)
  then show thesis using that by simp
qed

theorem arena_and_slab_apart_witness:
  "\<exists>w. reaches slab_step second_world w \<and> (4224, 16) \<in> slab_blocks w \<and> (4160, 10) \<in> arena_blocks sample_arena_world1
     \<and> region_disjoint (block_region (4160, 10)) (block_region (4224, 16))"
proof -
  obtain m s where a: "slab_allocate_untyped (Ok ()) sample_alloc_request second_slab (\<lambda>_. 255)
     = (Ok (slab_result second_slab 4224 0), s, m)" "sb_extent s = second_extent" by (rule second_alloc)
  define w where "w = \<lparr>sw_slab = s, sw_mem = m, sw_live = [slab_result second_slab 4224 0], sw_kept = []\<rparr>"
  have "slab_step second_world w"
    using slab_step.allocated [of "Ok ()" sample_alloc_request second_world "slab_result second_slab 4224 0" s m] a(1)
    by (simp add: second_world_def w_def)
  then have r: "reaches slab_step second_world w" by (rule reaches_single)
  have c: "(4224, 16) \<in> slab_blocks w" by (simp add: slab_blocks_def w_def slab_result_def)
  have b: "(4160, 10) \<in> arena_blocks sample_arena_world1"
    by (simp add: arena_blocks_def sample_arena_world1_def sample_arena_world_def arena_result_def sample_alloc_request_def)
  have e: "ape_region (cb_extent (aw_block sample_arena_world1)) = ape_region sample_extent"
    by (simp add: sample_arena_world1_def sample_arena_world_def sample_arena_block1_def arena_upd_def set_arena_state_def)
  have e': "ape_region (sb_extent (sw_slab w)) = ape_region second_extent" using a(2) by (simp add: w_def)
  show ?thesis
    using arena_and_slab_apart [OF sample_pool_ok sample_assign(1) second_assign(1) sample_arena_built
        sample_arena_reaches e second_built r e' b c] r b c by blast
qed

end
